(* ===== verification/Prelude.thy ===== *)
theory Prelude
  imports Main "HOL-Library.Word"
begin

unbundle bit_operations_syntax

text \<open>
  Shared vocabulary of the development: the byte-level types, the results of Go functions that may
  fail or panic, the fixed-width integer encodings of \<^verbatim>\<open>encoding/binary\<close>, slices and in-place
  writes, the string functions of \<^verbatim>\<open>strings\<close> and \<^verbatim>\<open>strconv\<close> the program calls, and two interfaces:
  the fixed-width codec and the guarded state machine.
\<close>

section \<open>Collections of facts\<close>

named_theorems wire \<open>lengths and inverses of byte encodings\<close>
named_theorems go_simps \<open>Go slices, copies and in-place writes\<close>

section \<open>Types\<close>

type_synonym u8 = "8 word"
type_synonym u16 = "16 word"
type_synonym u32 = "32 word"
type_synonym u64 = "64 word"
type_synonym bytes = "8 word list"

text \<open>
  A Go call returns a value, returns an error, or panics (an index or slice out of range).
\<close>

datatype ('e, 'a) outcome = Ret 'a | Fail 'e | Panic

fun map_outcome :: "('a \<Rightarrow> 'b) \<Rightarrow> ('e, 'a) outcome \<Rightarrow> ('e, 'b) outcome" where
  "map_outcome f (Ret x) = Ret (f x)"
| "map_outcome f (Fail e) = Fail e"
| "map_outcome f Panic = Panic"

fun returns :: "('e, 'a) outcome \<Rightarrow> bool" where
  "returns (Ret _) = True"
| "returns (Fail _) = False"
| "returns Panic = False"

lemma returns_iff: "returns r \<longleftrightarrow> (\<exists>x. r = Ret x)"
  by (cases r) auto

section \<open>Slices and in-place writes\<close>

text \<open>\<^verbatim>\<open>buf[a:b]\<close>, for \<open>a \<le> b \<le> len(buf)\<close>.\<close>

definition slice :: "nat \<Rightarrow> nat \<Rightarrow> 'a list \<Rightarrow> 'a list" where
  "slice a b xs = take (b - a) (drop a xs)"

text \<open>\<^verbatim>\<open>copy(buf[off:], src)\<close>: writes as much of \<open>src\<close> as fits.\<close>

definition blit :: "nat \<Rightarrow> 'a list \<Rightarrow> 'a list \<Rightarrow> 'a list" where
  "blit off src buf =
     take off buf @ take (length buf - off) src @ drop (off + length src) buf"

lemma length_slice [go_simps]: "b \<le> length xs \<Longrightarrow> length (slice a b xs) = b - a"
  by (simp add: slice_def)

lemma length_blit [go_simps, simp]: "off \<le> length buf \<Longrightarrow> length (blit off src buf) = length buf"
  by (simp add: blit_def)

lemma blit_append [go_simps]:
  "length pre = off \<Longrightarrow> length src \<le> length rest \<Longrightarrow>
   blit off src (pre @ rest) = pre @ src @ drop (length src) rest"
  by (simp add: blit_def)

lemma blit_zero [go_simps]:
  "length src \<le> length buf \<Longrightarrow> blit 0 src buf = src @ drop (length src) buf"
  by (simp add: blit_def)

section \<open>Fixed-width integers of encoding/binary\<close>

definition put_u16be :: "u16 \<Rightarrow> bytes" where
  "put_u16be x = [ucast (drop_bit 8 x), ucast x]"

definition get_u16be :: "bytes \<Rightarrow> u16" where
  "get_u16be b = push_bit 8 (ucast (b ! 0)) OR ucast (b ! 1)"

definition put_u32be :: "u32 \<Rightarrow> bytes" where
  "put_u32be x = [ucast (drop_bit 24 x), ucast (drop_bit 16 x), ucast (drop_bit 8 x), ucast x]"

definition get_u32be :: "bytes \<Rightarrow> u32" where
  "get_u32be b = push_bit 24 (ucast (b ! 0)) OR push_bit 16 (ucast (b ! 1))
     OR push_bit 8 (ucast (b ! 2)) OR ucast (b ! 3)"

definition put_u64be :: "u64 \<Rightarrow> bytes" where
  "put_u64be x = put_u32be (ucast (drop_bit 32 x)) @ put_u32be (ucast x)"

definition get_u64be :: "bytes \<Rightarrow> u64" where
  "get_u64be b = push_bit 32 (ucast (get_u32be b)) OR ucast (get_u32be (drop 4 b))"

definition put_u16le :: "u16 \<Rightarrow> bytes" where
  "put_u16le x = [ucast x, ucast (drop_bit 8 x)]"

definition get_u16le :: "bytes \<Rightarrow> u16" where
  "get_u16le b = ucast (b ! 0) OR push_bit 8 (ucast (b ! 1))"

definition put_u32le :: "u32 \<Rightarrow> bytes" where
  "put_u32le x = [ucast x, ucast (drop_bit 8 x), ucast (drop_bit 16 x), ucast (drop_bit 24 x)]"

definition get_u32le :: "bytes \<Rightarrow> u32" where
  "get_u32le b = ucast (b ! 0) OR push_bit 8 (ucast (b ! 1)) OR push_bit 16 (ucast (b ! 2))
     OR push_bit 24 (ucast (b ! 3))"

text \<open>
  The interface: an encoding of fixed width, its reader (which looks at the first \<open>width\<close> bytes of
  what it is given) and the two laws that make them inverse.
\<close>

locale fixed_codec =
  fixes put :: "'a \<Rightarrow> bytes"
    and get :: "bytes \<Rightarrow> 'a"
    and width :: nat
  assumes put_length: "length (put x) = width"
    and get_put: "get (put x @ rest) = x"
    and put_get: "length bs = width \<Longrightarrow> put (get bs) = bs"
begin

lemma get_put_only: "get (put x) = x"
  using get_put [of x "[]"] by simp

lemma put_inject: "put x = put y \<longleftrightarrow> x = y"
  using get_put_only by metis

lemma get_take: "width \<le> length bs \<Longrightarrow> get (take width bs) = get bs"
proof -
  assume "width \<le> length bs"
  then have "put (get (take width bs)) @ drop width bs = bs"
    by (simp add: put_get)
  then show ?thesis by (metis get_put)
qed

lemma put_get_prefix: "width \<le> length bs \<Longrightarrow> put (get bs) = take width bs"
  by (metis get_take put_get length_take min_absorb2)

lemma length_concat_put: "length (concat (map put xs)) = width * length xs"
  by (induction xs) (auto simp: put_length)

lemma get_drop_concat:
  "i < length xs \<Longrightarrow> get (drop (i * width) (concat (map put xs) @ rest)) = xs ! i"
proof (induction xs arbitrary: i)
  case Nil
  then show ?case by simp
next
  case (Cons x xs)
  then show ?case by (cases i) (auto simp: get_put put_length add.commute)
qed

end

lemma bit_u8_high: "8 \<le> n \<Longrightarrow> \<not> bit (w :: u8) n"
  using bit_imp_le_length [of w n] by auto

lemma get_put_u16be [wire]: "get_u16be (put_u16be x @ rest) = x"
proof (intro bit_word_eqI)
  fix n assume "n < LENGTH(16)"
  then consider "n < 8" | "8 \<le> n \<and> n < 16" by fastforce
  then show "bit (get_u16be (put_u16be x @ rest)) n = bit x n"
    by cases (auto simp: get_u16be_def put_u16be_def bit_simps)
qed

lemma put_get_u16be [wire]: "length bs = 2 \<Longrightarrow> put_u16be (get_u16be bs) = bs"
proof -
  assume "length bs = 2"
  then obtain a b where bs: "bs = [a, b]"
    by (auto simp: numeral_eq_Suc length_Suc_conv)
  show ?thesis
    unfolding bs put_u16be_def get_u16be_def
    by (auto intro!: bit_word_eqI simp: bit_simps bit_u8_high)
qed

lemma get_put_u16le [wire]: "get_u16le (put_u16le x @ rest) = x"
proof (intro bit_word_eqI)
  fix n assume "n < LENGTH(16)"
  then consider "n < 8" | "8 \<le> n \<and> n < 16" by fastforce
  then show "bit (get_u16le (put_u16le x @ rest)) n = bit x n"
    by cases (auto simp: get_u16le_def put_u16le_def bit_simps)
qed

lemma put_get_u16le [wire]: "length bs = 2 \<Longrightarrow> put_u16le (get_u16le bs) = bs"
proof -
  assume "length bs = 2"
  then obtain a b where bs: "bs = [a, b]"
    by (auto simp: numeral_eq_Suc length_Suc_conv)
  show ?thesis
    unfolding bs put_u16le_def get_u16le_def
    by (auto intro!: bit_word_eqI simp: bit_simps bit_u8_high)
qed

lemma get_put_u32be [wire]: "get_u32be (put_u32be x @ rest) = x"
proof (intro bit_word_eqI)
  fix n assume "n < LENGTH(32)"
  then consider "n < 8" | "8 \<le> n \<and> n < 16" | "16 \<le> n \<and> n < 24" | "24 \<le> n \<and> n < 32"
    by fastforce
  then show "bit (get_u32be (put_u32be x @ rest)) n = bit x n"
    by cases (auto simp: get_u32be_def put_u32be_def bit_simps)
qed

lemma put_get_u32be [wire]: "length bs = 4 \<Longrightarrow> put_u32be (get_u32be bs) = bs"
proof -
  assume "length bs = 4"
  then obtain a b c d where bs: "bs = [a, b, c, d]"
    by (auto simp: numeral_eq_Suc length_Suc_conv)
  show ?thesis
    unfolding bs put_u32be_def get_u32be_def
    by (auto intro!: bit_word_eqI simp: bit_simps bit_u8_high)
qed

lemma get_put_u32le [wire]: "get_u32le (put_u32le x @ rest) = x"
proof (intro bit_word_eqI)
  fix n assume "n < LENGTH(32)"
  then consider "n < 8" | "8 \<le> n \<and> n < 16" | "16 \<le> n \<and> n < 24" | "24 \<le> n \<and> n < 32"
    by fastforce
  then show "bit (get_u32le (put_u32le x @ rest)) n = bit x n"
    by cases (auto simp: get_u32le_def put_u32le_def bit_simps)
qed

lemma put_get_u32le [wire]: "length bs = 4 \<Longrightarrow> put_u32le (get_u32le bs) = bs"
proof -
  assume "length bs = 4"
  then obtain a b c d where bs: "bs = [a, b, c, d]"
    by (auto simp: numeral_eq_Suc length_Suc_conv)
  show ?thesis
    unfolding bs put_u32le_def get_u32le_def
    by (auto intro!: bit_word_eqI simp: bit_simps bit_u8_high)
qed

lemma length_put_u16be [wire, simp]: "length (put_u16be x) = 2"
  by (simp add: put_u16be_def)

lemma length_put_u32be [wire, simp]: "length (put_u32be x) = 4"
  by (simp add: put_u32be_def)

lemma length_put_u64be [wire, simp]: "length (put_u64be x) = 8"
  by (simp add: put_u64be_def)

lemma length_put_u16le [wire, simp]: "length (put_u16le x) = 2"
  by (simp add: put_u16le_def)

lemma length_put_u32le [wire, simp]: "length (put_u32le x) = 4"
  by (simp add: put_u32le_def)

interpretation be16: fixed_codec put_u16be get_u16be 2
  by unfold_locales (simp_all add: wire)

interpretation be32: fixed_codec put_u32be get_u32be 4
  by unfold_locales (simp_all add: wire)

lemma halves_u64: "push_bit 32 (ucast (ucast (drop_bit 32 x) :: u32)) OR ucast (ucast x :: u32) = (x :: u64)"
proof (intro bit_word_eqI)
  fix n assume "n < LENGTH(64)"
  then consider "n < 32" | "32 \<le> n \<and> n < 64" by fastforce
  then show "bit (push_bit 32 (ucast (ucast (drop_bit 32 x) :: u32)) OR ucast (ucast x :: u32) :: u64) n = bit x n"
    by cases (auto simp: bit_simps)
qed

lemma high_half_u64:
  "ucast (drop_bit 32 (push_bit 32 (ucast (a :: u32)) OR ucast (b :: u32) :: u64)) = a"
  by (intro bit_word_eqI) (auto simp: bit_simps dest: bit_imp_le_length)

lemma low_half_u64:
  "ucast (push_bit 32 (ucast (a :: u32)) OR ucast (b :: u32) :: u64) = b"
  by (intro bit_word_eqI) (auto simp: bit_simps)

lemma get_put_u64be [wire]: "get_u64be (put_u64be x @ rest) = x"
  by (simp add: get_u64be_def put_u64be_def be32.get_put be32.put_length halves_u64 wire)

lemma put_get_u64be [wire]: "length bs = 8 \<Longrightarrow> put_u64be (get_u64be bs) = bs"
proof -
  assume len: "length bs = 8"
  have "put_u64be (get_u64be bs) = put_u32be (get_u32be bs) @ put_u32be (get_u32be (drop 4 bs))"
    unfolding get_u64be_def put_u64be_def high_half_u64 low_half_u64 ..
  also have "\<dots> = take 4 bs @ take 4 (drop 4 bs)"
    using len by (simp add: be32.put_get_prefix)
  also have "\<dots> = bs"
    using len by (metis append_take_drop_id diff_add_inverse length_drop numeral_Bit0 take_all_iff order_refl)
  finally show ?thesis .
qed

interpretation be64: fixed_codec put_u64be get_u64be 8
  by unfold_locales (simp_all add: wire)

interpretation le16: fixed_codec put_u16le get_u16le 2
  by unfold_locales (simp_all add: wire)

interpretation le32: fixed_codec put_u32le get_u32le 4
  by unfold_locales (simp_all add: wire)

section \<open>Strings\<close>

text \<open>
  Go strings are byte strings; a \<open>string\<close> of HOL is a list of 8-bit characters, so \<^verbatim>\<open>[]byte(s)\<close> and
  \<^verbatim>\<open>string(b)\<close> are the two conversions below.
\<close>

definition bytes_of :: "string \<Rightarrow> bytes" where
  "bytes_of s = map of_char s"

definition str_of :: "bytes \<Rightarrow> string" where
  "str_of b = map (\<lambda>w. char_of (unat w)) b"

lemma length_bytes_of [simp]: "length (bytes_of s) = length s"
  by (simp add: bytes_of_def)

lemma length_str_of [simp]: "length (str_of b) = length b"
  by (simp add: str_of_def)

lemma bytes_of_str_of [wire, simp]: "bytes_of (str_of b) = b"
proof -
  have "of_char (char_of (unat w) :: char) = (w :: u8)" for w
  proof -
    have "unat w < 256" using unsigned_less [of w] by simp
    then have "(of_char (char_of (unat w) :: char) :: nat) = unat w"
      by (simp add: of_char_of)
    then have "(of_nat (of_char (char_of (unat w) :: char)) :: u8) = w" by simp
    then show ?thesis by (simp only: of_nat_of_char)
  qed
  then show ?thesis by (simp add: bytes_of_def str_of_def comp_def)
qed

text \<open>\<^verbatim>\<open>strings.Index(s, c)\<close> for a one-character pattern: \<open>-1\<close> when absent.\<close>

fun str_index :: "char \<Rightarrow> string \<Rightarrow> int" where
  "str_index c [] = -1"
| "str_index c (x # xs) =
     (if x = c then 0 else if str_index c xs < 0 then -1 else 1 + str_index c xs)"

definition str_contains :: "char \<Rightarrow> string \<Rightarrow> bool" where
  "str_contains c s \<longleftrightarrow> c \<in> set s"

text \<open>\<^verbatim>\<open>strings.Replace(s, c, r, 1)\<close> for a one-character pattern.\<close>

fun replace_first :: "char \<Rightarrow> string \<Rightarrow> string \<Rightarrow> string" where
  "replace_first c r [] = []"
| "replace_first c r (x # xs) = (if x = c then r @ xs else x # replace_first c r xs)"

lemma str_index_lower: "-1 \<le> str_index c s"
  by (induction s) auto

lemma str_index_nonneg_iff: "0 \<le> str_index c s \<longleftrightarrow> c \<in> set s"
  by (induction s) (auto split: if_splits)

lemma str_index_less: "str_index c s < int (length s)"
  by (induction s) auto

lemma str_index_append:
  "c \<notin> set xs \<Longrightarrow> str_index c (xs @ c # ys) = int (length xs)"
  by (induction xs) auto

lemma replace_first_split:
  "c \<notin> set xs \<Longrightarrow> replace_first c r (xs @ c # ys) = xs @ r @ ys"
  by (induction xs) auto

lemma replace_first_absent: "c \<notin> set s \<Longrightarrow> replace_first c r s = s"
  by (induction s) auto

text \<open>\<^verbatim>\<open>strings.Join\<close>.\<close>

fun join :: "string \<Rightarrow> string list \<Rightarrow> string" where
  "join sep [] = ''''"
| "join sep [s] = s"
| "join sep (s # t # ss) = s @ sep @ join sep (t # ss)"

section \<open>Numbers as text\<close>

definition digit_char :: "nat \<Rightarrow> char" where
  "digit_char d = char_of (48 + d)"

definition is_digit :: "char \<Rightarrow> bool" where
  "is_digit c \<longleftrightarrow> 48 \<le> (of_char c :: nat) \<and> (of_char c :: nat) \<le> 57"

definition digit_val :: "char \<Rightarrow> nat" where
  "digit_val c = of_char c - 48"

fun dec_of_nat :: "nat \<Rightarrow> string" where
  "dec_of_nat n =
     (if n < 10 then [digit_char n] else dec_of_nat (n div 10) @ [digit_char (n mod 10)])"

declare dec_of_nat.simps [simp del]

text \<open>\<^verbatim>\<open>strconv.Itoa\<close>, \<^verbatim>\<open>%d\<close>.\<close>

definition itoa :: "int \<Rightarrow> string" where
  "itoa i = (if i < 0 then CHR ''-'' # dec_of_nat (nat (- i)) else dec_of_nat (nat i))"

definition nat_of_dec :: "string \<Rightarrow> nat" where
  "nat_of_dec s = foldl (\<lambda>a c. a * 10 + digit_val c) 0 s"

text \<open>
  \<^verbatim>\<open>strconv.Atoi\<close> on a 64-bit platform: an optional sign, at least one digit, nothing else, and a
  value that an \<^verbatim>\<open>int64\<close> holds.
\<close>

definition atoi :: "string \<Rightarrow> int option" where
  "atoi s =
     (let neg = (s \<noteq> [] \<and> hd s = CHR ''-'');
          body = (if s \<noteq> [] \<and> (hd s = CHR ''-'' \<or> hd s = CHR ''+'') then tl s else s);
          v = (if neg then - int (nat_of_dec body) else int (nat_of_dec body))
      in if body = [] \<or> \<not> list_all is_digit body then None
         else if - (2 ^ 63) \<le> v \<and> v < 2 ^ 63 then Some v else None)"

lemma digit_char_is_digit: "d < 10 \<Longrightarrow> is_digit (digit_char d)"
  by (simp add: is_digit_def digit_char_def of_char_of)

lemma digit_val_char: "d < 10 \<Longrightarrow> digit_val (digit_char d) = d"
  by (simp add: digit_val_def digit_char_def of_char_of)

lemma dec_of_nat_digits: "list_all is_digit (dec_of_nat n) \<and> dec_of_nat n \<noteq> []"
proof (induction n rule: dec_of_nat.induct)
  case (1 n)
  then show ?case
    by (cases "n < 10") (auto simp: dec_of_nat.simps [of n] digit_char_is_digit)
qed

lemma nat_of_dec_snoc: "nat_of_dec (s @ [c]) = nat_of_dec s * 10 + digit_val c"
  by (simp add: nat_of_dec_def)

lemma nat_of_dec_of_nat: "nat_of_dec (dec_of_nat n) = n"
proof (induction n rule: dec_of_nat.induct)
  case (1 n)
  show ?case
  proof (cases "n < 10")
    case True
    then show ?thesis
      by (simp add: dec_of_nat.simps [of n] nat_of_dec_def digit_val_char)
  next
    case False
    with "1.IH" have "nat_of_dec (dec_of_nat (n div 10)) = n div 10" by simp
    with False show ?thesis
      by (simp add: dec_of_nat.simps [of n] nat_of_dec_snoc digit_val_char)
  qed
qed

lemma dec_of_nat_hd: "hd (dec_of_nat n) \<noteq> CHR ''-'' \<and> hd (dec_of_nat n) \<noteq> CHR ''+''"
proof -
  have "is_digit (hd (dec_of_nat n))"
    using dec_of_nat_digits [of n] by (cases "dec_of_nat n") auto
  then show ?thesis by (auto simp: is_digit_def)
qed

lemma atoi_itoa: "- (2 ^ 63) \<le> i \<Longrightarrow> i < 2 ^ 63 \<Longrightarrow> atoi (itoa i) = Some i"
  using dec_of_nat_digits [of "nat i"] dec_of_nat_digits [of "nat (- i)"] dec_of_nat_hd [of "nat i"]
  by (auto simp: atoi_def itoa_def Let_def nat_of_dec_of_nat)

text \<open>\<^verbatim>\<open>hex.EncodeToString\<close>, and the upper case of its result.\<close>

definition hex_digit :: "nat \<Rightarrow> char" where
  "hex_digit d = (if d < 10 then char_of (48 + d) else char_of (87 + d))"

definition hex_of :: "bytes \<Rightarrow> string" where
  "hex_of b = concat (map (\<lambda>w. [hex_digit (unat w div 16), hex_digit (unat w mod 16)]) b)"

definition upper_char :: "char \<Rightarrow> char" where
  "upper_char c = (if 97 \<le> (of_char c :: nat) \<and> (of_char c :: nat) \<le> 122
     then char_of ((of_char c :: nat) - 32) else c)"

lemma length_hex_of: "length (hex_of b) = 2 * length b"
  by (induction b) (auto simp: hex_of_def)

lemma hex_digit_code: "d < 16 \<Longrightarrow> (of_char (hex_digit d) :: nat) = (if d < 10 then 48 + d else 87 + d)"
  by (simp add: hex_digit_def of_char_of)

lemma hex_digit_inject: "a < 16 \<Longrightarrow> b < 16 \<Longrightarrow> hex_digit a = hex_digit b \<Longrightarrow> a = b"
proof -
  assume a: "a < 16" and b: "b < 16" and "hex_digit a = hex_digit b"
  then have "(if a < 10 then 48 + a else 87 + a) = (if b < 10 then 48 + b else 87 + b)"
    by (metis hex_digit_code)
  then show ?thesis by (simp split: if_splits)
qed

lemma hex_of_inject: "hex_of a = hex_of b \<Longrightarrow> a = b"
proof (induction a arbitrary: b)
  case Nil
  then show ?case by (cases b) (auto simp: hex_of_def)
next
  case (Cons x xs)
  then obtain y ys where b: "b = y # ys"
    by (cases b) (auto simp: hex_of_def)
  have x: "unat x < 256" and y: "unat y < 256"
    using unsigned_less [of x] unsigned_less [of y] by simp_all
  from Cons.prems b have hi: "hex_digit (unat x div 16) = hex_digit (unat y div 16)"
    and lo: "hex_digit (unat x mod 16) = hex_digit (unat y mod 16)"
    and rest: "hex_of xs = hex_of ys"
    by (auto simp: hex_of_def)
  have "unat x div 16 = unat y div 16" "unat x mod 16 = unat y mod 16"
    using hi lo x y by (auto intro!: hex_digit_inject)
  then have "unat x = unat y" by (metis div_mult_mod_eq)
  then have "x = y" by (simp add: word_unat_eq_iff)
  with b rest Cons.IH show ?case by simp
qed

section \<open>32-bit words as natural numbers\<close>

lemma unat_u32_small:
  assumes "n < 2 ^ 32" shows "unat (word_of_int (int n) :: u32) = n"
proof -
  have "(word_of_int (int n) :: u32) = of_nat n" by (simp only: of_int_of_nat_eq)
  moreover have "unat (of_nat n :: u32) = take_bit LENGTH(32) n" by (simp only: unsigned_of_nat of_nat_id)
  moreover have "take_bit LENGTH(32) n = n" using assms by (simp only: take_bit_nat_eq_self_iff) simp
  ultimately show ?thesis by metis
qed

lemma uint_u32_small: "0 \<le> i \<Longrightarrow> i < 2 ^ 32 \<Longrightarrow> uint (word_of_int i :: u32) = i"
  by (simp add: uint_word_of_int)

lemma unat_u32_less: "unat (w :: u32) < 2 ^ 32"
  using unsigned_less [of w] by simp

lemma unat_add_u32: "unat a + unat b < 2 ^ 32 \<Longrightarrow> unat (a + b :: u32) = unat a + unat b"
  by (simp add: unat_word_ariths)

lemma unat_mult_u32: "unat a * unat b < 2 ^ 32 \<Longrightarrow> unat (a * b :: u32) = unat a * unat b"
  by (simp add: unat_word_ariths)

lemma unat_sub_u32: "unat b \<le> unat a \<Longrightarrow> unat (a - b :: u32) = unat a - unat b"
  by (rule unat_sub) (simp add: word_le_nat_alt)

lemma unat_byte: "unat (ucast (b :: u32) :: u8) = unat b mod 256"
  by (simp add: unsigned_ucast_eq take_bit_eq_mod unat_word_ariths)

lemma unat_drop_bit_u32: "unat (drop_bit n (w :: u32)) = unat w div 2 ^ n"
  unfolding unat_drop_bit_eq by (rule drop_bit_eq_div)

lemma unat_and_255: "unat ((c :: u32) AND 255) = unat c mod 256"
proof -
  have "c AND 255 = take_bit 8 c" by (simp add: take_bit_eq_mask mask_eq_exp_minus_1)
  then show ?thesis by (simp only: unsigned_take_bit_eq) (simp add: take_bit_eq_mod)
qed

section \<open>Guarded state machines\<close>

text \<open>
  Every stateful component is a total step function over its events: an event the code refuses
  leaves the state as it is. Its contract is an invariant that each step keeps and a set of final
  states that no step leaves; runs inherit both.
\<close>

locale guarded_machine =
  fixes step :: "'s \<Rightarrow> 'e \<Rightarrow> 's"
    and inv :: "'s \<Rightarrow> bool"
  assumes step_inv: "inv s \<Longrightarrow> inv (step s e)"
begin

lemma run_inv: "inv s \<Longrightarrow> inv (foldl step s es)"
  by (induction es arbitrary: s) (auto simp: step_inv)

lemma run_snoc_inv: "inv s \<Longrightarrow> inv (step (foldl step s es) e)"
  by (intro step_inv run_inv)

end

locale final_machine = guarded_machine step inv
  for step :: "'s \<Rightarrow> 'e \<Rightarrow> 's" and inv :: "'s \<Rightarrow> bool" +
  fixes final :: "'s \<Rightarrow> bool"
  assumes step_final: "inv s \<Longrightarrow> final s \<Longrightarrow> final (step s e)"
begin

lemma run_final: "inv s \<Longrightarrow> final s \<Longrightarrow> final (foldl step s es)"
  by (induction es arbitrary: s) (auto simp: step_inv step_final)

lemma final_prefix: "inv s \<Longrightarrow> final (foldl step s es) \<Longrightarrow> final (foldl step s (es @ fs))"
  by (simp add: run_final run_inv)

end

locale ranked_machine = guarded_machine step inv
  for step :: "'s \<Rightarrow> 'e \<Rightarrow> 's" and inv :: "'s \<Rightarrow> bool" +
  fixes rank :: "'s \<Rightarrow> nat"
  assumes step_rank: "inv s \<Longrightarrow> rank s \<le> rank (step s e)"
begin

lemma run_rank: "inv s \<Longrightarrow> rank s \<le> rank (foldl step s es)"
proof (induction es arbitrary: s)
  case Nil
  then show ?case by simp
next
  case (Cons e es)
  then have "rank (step s e) \<le> rank (foldl step (step s e) es)" by (simp add: step_inv)
  with step_rank [OF Cons.prems, of e] show ?case by simp
qed

end

end
