(* ===== verification/CoreTypes.thy ===== *)
theory CoreTypes
  imports Prelude
begin

text \<open>
  The domain types and constants of \<^verbatim>\<open>internal/voip/core/types.go\<close>. A Go slice for which the code
  distinguishes nil from empty (keys and raw tokens) is an option; a pointer to an int is an option;
  an end reason is a string, because a peer can send any text as the reason of a terminate stanza.
\<close>

datatype CallState =
    CallStateInitiating
  | CallStateRinging
  | CallStateIncomingRinging
  | CallStateConnecting
  | CallStateActive
  | CallStateOnHold
  | CallStateEnded

fun CallState_string :: "CallState \<Rightarrow> string" where
  "CallState_string CallStateInitiating = ''initiating''"
| "CallState_string CallStateRinging = ''ringing''"
| "CallState_string CallStateIncomingRinging = ''incoming_ringing''"
| "CallState_string CallStateConnecting = ''connecting''"
| "CallState_string CallStateActive = ''active''"
| "CallState_string CallStateOnHold = ''on_hold''"
| "CallState_string CallStateEnded = ''ended''"

datatype CallDirection = CallDirectionOutgoing | CallDirectionIncoming

datatype CallMediaType = CallMediaTypeAudio | CallMediaTypeVideo

type_synonym EndCallReason = string

definition EndCallReasonUserEnded :: EndCallReason where
  "EndCallReasonUserEnded = ''user_ended''"

definition EndCallReasonDeclined :: EndCallReason where
  "EndCallReasonDeclined = ''declined''"

definition EndCallReasonTimeout :: EndCallReason where
  "EndCallReasonTimeout = ''timeout''"

definition PayloadTypeWhatsAppOpus :: u8 where
  "PayloadTypeWhatsAppOpus = 120"

definition SRTPSendAuthTagLen :: int where
  "SRTPSendAuthTagLen = 4"

definition SRTPRecvAuthTagLen :: int where
  "SRTPRecvAuthTagLen = 4"

definition SRTPAuthTagLen :: int where
  "SRTPAuthTagLen = 4"

definition SRTPLabelEncryption :: u8 where
  "SRTPLabelEncryption = 0"

definition SRTPLabelAuth :: u8 where
  "SRTPLabelAuth = 1"

definition SRTPLabelSalt :: u8 where
  "SRTPLabelSalt = 2"

definition WARelayPort :: int where
  "WARelayPort = 3480"

record SrtpKeyingMaterial =
  MasterKey :: bytes
  MasterSalt :: bytes

record RelayEndpoint =
  ep_IP :: string
  ep_Port :: int
  ep_Token :: string
  ep_AuthToken :: string
  ep_RawAuthToken :: "bytes option"
  ep_RawToken :: "bytes option"
  ep_Key :: string
  ep_RelayID :: int
  ep_Protocol :: int
  ep_C2RRtt :: "int option"
  ep_RelayName :: string
  ep_AddressBytes :: bytes
  ep_AuthTokenID :: string

text \<open>The zero value of the struct, from which a composite literal sets some fields.\<close>

definition RelayEndpoint_zero :: RelayEndpoint where
  "RelayEndpoint_zero =
     \<lparr>ep_IP = [], ep_Port = 0, ep_Token = [], ep_AuthToken = [], ep_RawAuthToken = None,
      ep_RawToken = None, ep_Key = [], ep_RelayID = 0, ep_Protocol = 0, ep_C2RRtt = None,
      ep_RelayName = [], ep_AddressBytes = [], ep_AuthTokenID = []\<rparr>"

record RelayData =
  rd_Endpoints :: "RelayEndpoint list"
  rd_ParticipantJids :: "string list"
  rd_UUID :: string
  rd_SelfPid :: "int option"
  rd_PeerPid :: "int option"
  rd_HbhKey :: "bytes option"

definition RelayData_zero :: RelayData where
  "RelayData_zero =
     \<lparr>rd_Endpoints = [], rd_ParticipantJids = [], rd_UUID = [], rd_SelfPid = None,
      rd_PeerPid = None, rd_HbhKey = None\<rparr>"

section \<open>Progress of a call\<close>

text \<open>
  The states in the order a call goes through them; holding and resuming stay on one level. The
  order makes \<open>CallState\<close> a preorder by rank and, with the constructor order as a tie-break, a
  \<open>linorder\<close>.
\<close>

fun call_rank :: "CallState \<Rightarrow> nat" where
  "call_rank CallStateInitiating = 0"
| "call_rank CallStateRinging = 1"
| "call_rank CallStateIncomingRinging = 1"
| "call_rank CallStateConnecting = 2"
| "call_rank CallStateActive = 3"
| "call_rank CallStateOnHold = 3"
| "call_rank CallStateEnded = 4"

fun call_ord :: "CallState \<Rightarrow> nat" where
  "call_ord CallStateInitiating = 0"
| "call_ord CallStateRinging = 1"
| "call_ord CallStateIncomingRinging = 2"
| "call_ord CallStateConnecting = 3"
| "call_ord CallStateActive = 4"
| "call_ord CallStateOnHold = 5"
| "call_ord CallStateEnded = 6"

lemma call_ord_inject: "call_ord a = call_ord b \<longleftrightarrow> a = b"
  by (cases a; cases b) auto

instantiation CallState :: linorder
begin

definition less_eq_CallState :: "CallState \<Rightarrow> CallState \<Rightarrow> bool" where
  "less_eq_CallState a b \<longleftrightarrow> call_ord a \<le> call_ord b"

definition less_CallState :: "CallState \<Rightarrow> CallState \<Rightarrow> bool" where
  "less_CallState a b \<longleftrightarrow> call_ord a < call_ord b"

instance
  by standard (auto simp: less_eq_CallState_def less_CallState_def call_ord_inject)

end

lemma call_rank_mono: "a \<le> b \<Longrightarrow> call_rank a \<le> call_rank b"
  by (cases a; cases b) (auto simp: less_eq_CallState_def)

lemma call_rank_ended: "call_rank s = 4 \<longleftrightarrow> s = CallStateEnded"
  by (cases s) auto

lemma CallState_string_inject: "CallState_string a = CallState_string b \<longleftrightarrow> a = b"
  by (cases a; cases b) auto

end
