(* ===== verification/CallStates.thy ===== *)
theory CallStates
  imports CoreTypes
begin

text \<open>
  The call record and its state machine (\<^verbatim>\<open>internal/voip/call/callstate.go\<close>). A \<^verbatim>\<open>time.Time\<close> is an
  integer number of nanoseconds and \<^verbatim>\<open>time.Now()\<close> is the parameter \<open>now\<close> of the operation that
  reads the clock. \<^verbatim>\<open>int(d.Seconds())\<close> is the duration truncated to whole seconds (exact for the
  floating-point detour of the library up to 97 days).
\<close>

record CallStateData =
  sd_State :: CallState
  sd_ConnectedAt :: "int option"
  sd_AcceptedAt :: "int option"
  sd_EndedAt :: "int option"
  sd_AudioMuted :: bool
  sd_VideoOff :: bool
  sd_Silenced :: bool
  sd_EndReason :: EndCallReason
  sd_DurationSecs :: int

record CallInfo =
  ci_CallID :: string
  ci_PeerJid :: string
  ci_CallCreator :: string
  ci_Direction :: CallDirection
  ci_MediaType :: CallMediaType
  ci_StateData :: CallStateData
  ci_CreatedAt :: int
  ci_GroupJid :: string
  ci_IsOffline :: bool
  ci_CallerPn :: string
  ci_EncryptionKey :: "bytes option"
  ci_RelayData :: "RelayData option"
  ci_ElectedRelayIdx :: "int option"

definition NewOutgoingCall :: "int \<Rightarrow> string \<Rightarrow> string \<Rightarrow> string \<Rightarrow> CallMediaType \<Rightarrow> CallInfo" where
  "NewOutgoingCall now callID peerJid ourJid mediaType =
     \<lparr>ci_CallID = callID, ci_PeerJid = peerJid, ci_CallCreator = ourJid,
      ci_Direction = CallDirectionOutgoing, ci_MediaType = mediaType,
      ci_StateData =
        \<lparr>sd_State = CallStateInitiating, sd_ConnectedAt = None, sd_AcceptedAt = None,
         sd_EndedAt = None, sd_AudioMuted = False, sd_VideoOff = (mediaType \<noteq> CallMediaTypeVideo),
         sd_Silenced = False, sd_EndReason = [], sd_DurationSecs = 0\<rparr>,
      ci_CreatedAt = now, ci_GroupJid = [], ci_IsOffline = False, ci_CallerPn = [],
      ci_EncryptionKey = None, ci_RelayData = None, ci_ElectedRelayIdx = None\<rparr>"

definition NewIncomingCall ::
    "int \<Rightarrow> string \<Rightarrow> string \<Rightarrow> string \<Rightarrow> string \<Rightarrow> CallMediaType \<Rightarrow> CallInfo" where
  "NewIncomingCall now callID peerJid callCreator callerPn mediaType =
     \<lparr>ci_CallID = callID, ci_PeerJid = peerJid, ci_CallCreator = callCreator,
      ci_Direction = CallDirectionIncoming, ci_MediaType = mediaType,
      ci_StateData =
        \<lparr>sd_State = CallStateIncomingRinging, sd_ConnectedAt = None, sd_AcceptedAt = None,
         sd_EndedAt = None, sd_AudioMuted = False, sd_VideoOff = (mediaType \<noteq> CallMediaTypeVideo),
         sd_Silenced = False, sd_EndReason = [], sd_DurationSecs = 0\<rparr>,
      ci_CreatedAt = now, ci_GroupJid = [], ci_IsOffline = False, ci_CallerPn = callerPn,
      ci_EncryptionKey = None, ci_RelayData = None, ci_ElectedRelayIdx = None\<rparr>"

abbreviation call_state :: "CallInfo \<Rightarrow> CallState" where
  "call_state c \<equiv> sd_State (ci_StateData c)"

definition IsInitiator :: "CallInfo \<Rightarrow> bool" where
  "IsInitiator c \<longleftrightarrow> ci_Direction c = CallDirectionOutgoing"

definition IsActive :: "CallInfo \<Rightarrow> bool" where
  "IsActive c \<longleftrightarrow> call_state c = CallStateActive"

definition IsRinging :: "CallInfo \<Rightarrow> bool" where
  "IsRinging c \<longleftrightarrow> call_state c = CallStateRinging \<or> call_state c = CallStateIncomingRinging"

definition IsEnded :: "CallInfo \<Rightarrow> bool" where
  "IsEnded c \<longleftrightarrow> call_state c = CallStateEnded"

definition CanAccept :: "CallInfo \<Rightarrow> bool" where
  "CanAccept c \<longleftrightarrow> call_state c = CallStateIncomingRinging"

definition CanReject :: "CallInfo \<Rightarrow> bool" where
  "CanReject c \<longleftrightarrow> call_state c = CallStateIncomingRinging \<or> call_state c = CallStateRinging"

section \<open>Transitions\<close>

datatype TransitionType =
    TransitionOfferSent
  | TransitionOfferReceived
  | TransitionLocalAccepted
  | TransitionRemoteAccepted
  | TransitionLocalRejected
  | TransitionRemoteRejected
  | TransitionMediaConnected
  | TransitionTerminated
  | TransitionHold
  | TransitionResume
  | TransitionAudioMuteChanged
  | TransitionVideoStateChanged
  | TransitionUnknown string

fun Transition_string :: "TransitionType \<Rightarrow> string" where
  "Transition_string TransitionOfferSent = ''offer_sent''"
| "Transition_string TransitionOfferReceived = ''offer_received''"
| "Transition_string TransitionLocalAccepted = ''local_accepted''"
| "Transition_string TransitionRemoteAccepted = ''remote_accepted''"
| "Transition_string TransitionLocalRejected = ''local_rejected''"
| "Transition_string TransitionRemoteRejected = ''remote_rejected''"
| "Transition_string TransitionMediaConnected = ''media_connected''"
| "Transition_string TransitionTerminated = ''terminated''"
| "Transition_string TransitionHold = ''hold''"
| "Transition_string TransitionResume = ''resume''"
| "Transition_string TransitionAudioMuteChanged = ''audio_mute_changed''"
| "Transition_string TransitionVideoStateChanged = ''video_state_changed''"
| "Transition_string (TransitionUnknown s) = s"

record Transition =
  tr_Type :: TransitionType
  tr_Reason :: EndCallReason
  tr_Muted :: bool
  tr_Off :: bool
  tr_Silenced :: bool

text \<open>\<^verbatim>\<open>Transition{Type: t}\<close> and \<^verbatim>\<open>Transition{Type: t, Reason: r}\<close>.\<close>

definition transition :: "TransitionType \<Rightarrow> EndCallReason \<Rightarrow> Transition" where
  "transition t r = \<lparr>tr_Type = t, tr_Reason = r, tr_Muted = False, tr_Off = False, tr_Silenced = False\<rparr>"

datatype InvalidTransition = InvalidTransition (it_CurrentState: string) (it_Attempted: string)

definition InvalidTransition_Error :: "InvalidTransition \<Rightarrow> string" where
  "InvalidTransition_Error e =
     ''invalid transition '' @ [CHR 39] @ it_Attempted e @ [CHR 39] @ '' in state '' @
     [CHR 39] @ it_CurrentState e @ [CHR 39]"

text \<open>\<^verbatim>\<open>Time.Sub\<close> saturates at the range of a Duration; \<^verbatim>\<open>int(d.Seconds())\<close> truncates towards zero.\<close>

definition time_sub :: "int \<Rightarrow> int \<Rightarrow> int" where
  "time_sub a b = max (- (2 ^ 63)) (min (2 ^ 63 - 1) (a - b))"

definition duration_secs :: "int \<Rightarrow> int" where
  "duration_secs d = sgn d * (\<bar>d\<bar> div 1000000000)"

definition ended :: "int \<Rightarrow> EndCallReason \<Rightarrow> CallStateData \<Rightarrow> CallStateData" where
  "ended now r s = s\<lparr>sd_State := CallStateEnded, sd_EndedAt := Some now, sd_EndReason := r\<rparr>"

definition ApplyTransition :: "int \<Rightarrow> CallInfo \<Rightarrow> Transition \<Rightarrow> InvalidTransition + CallInfo" where
  "ApplyTransition now c t =
     (let s = ci_StateData c;
          invalid = Inl (InvalidTransition (CallState_string (sd_State s)) (Transition_string (tr_Type t)));
          ok = (\<lambda>s'. Inr (c\<lparr>ci_StateData := s'\<rparr>))
      in case tr_Type t of
        TransitionOfferSent \<Rightarrow>
          if sd_State s \<noteq> CallStateInitiating then invalid
          else ok (s\<lparr>sd_State := CallStateRinging\<rparr>)
      | TransitionOfferReceived \<Rightarrow>
          if sd_State s \<noteq> CallStateInitiating then invalid
          else ok (s\<lparr>sd_State := CallStateIncomingRinging, sd_Silenced := tr_Silenced t\<rparr>)
      | TransitionRemoteAccepted \<Rightarrow>
          if sd_State s \<noteq> CallStateRinging then invalid
          else ok (s\<lparr>sd_State := CallStateConnecting, sd_AcceptedAt := Some now\<rparr>)
      | TransitionLocalAccepted \<Rightarrow>
          if sd_State s \<noteq> CallStateIncomingRinging then invalid
          else ok (s\<lparr>sd_State := CallStateConnecting, sd_AcceptedAt := Some now\<rparr>)
      | TransitionRemoteRejected \<Rightarrow>
          if sd_State s \<noteq> CallStateRinging then invalid
          else ok (ended now (tr_Reason t) s)
      | TransitionLocalRejected \<Rightarrow>
          if sd_State s \<noteq> CallStateIncomingRinging then invalid
          else ok (ended now (tr_Reason t) s)
      | TransitionMediaConnected \<Rightarrow>
          if sd_State s \<noteq> CallStateConnecting then invalid
          else ok (s\<lparr>sd_State := CallStateActive, sd_ConnectedAt := Some now,
                     sd_VideoOff := (ci_MediaType c \<noteq> CallMediaTypeVideo)\<rparr>)
      | TransitionTerminated \<Rightarrow>
          if sd_State s = CallStateEnded then invalid
          else
            let s1 = (case sd_ConnectedAt s of
                        Some t0 \<Rightarrow>
                          if sd_State s = CallStateActive \<or> sd_State s = CallStateOnHold
                          then s\<lparr>sd_DurationSecs := duration_secs (time_sub now t0)\<rparr> else s
                      | None \<Rightarrow> s)
            in ok (ended now (tr_Reason t) s1)
      | TransitionHold \<Rightarrow>
          if sd_State s \<noteq> CallStateActive then invalid
          else ok (s\<lparr>sd_State := CallStateOnHold\<rparr>)
      | TransitionResume \<Rightarrow>
          if sd_State s \<noteq> CallStateOnHold then invalid
          else ok (s\<lparr>sd_State := CallStateActive\<rparr>)
      | TransitionAudioMuteChanged \<Rightarrow>
          if sd_State s \<noteq> CallStateActive then invalid
          else ok (s\<lparr>sd_AudioMuted := tr_Muted t\<rparr>)
      | TransitionVideoStateChanged \<Rightarrow>
          if sd_State s \<noteq> CallStateActive then invalid
          else ok (s\<lparr>sd_VideoOff := tr_Off t\<rparr>)
      | TransitionUnknown u \<Rightarrow> invalid)"

text \<open>The callers ignore the error, so an event the state refuses leaves the call as it is.\<close>

definition try_transition :: "CallInfo \<Rightarrow> int \<times> Transition \<Rightarrow> CallInfo" where
  "try_transition c e = (case ApplyTransition (fst e) c (snd e) of Inr c' \<Rightarrow> c' | Inl _ \<Rightarrow> c)"

section \<open>The abstract machine\<close>

text \<open>
  What the code promises of a call, without the record: the table of legal moves. \<open>call_next\<close> is
  the specification; \<open>ApplyTransition\<close> refines it through \<open>call_state\<close>.
\<close>

fun call_next :: "CallState \<Rightarrow> TransitionType \<Rightarrow> CallState option" where
  "call_next s TransitionOfferSent =
     (if s = CallStateInitiating then Some CallStateRinging else None)"
| "call_next s TransitionOfferReceived =
     (if s = CallStateInitiating then Some CallStateIncomingRinging else None)"
| "call_next s TransitionLocalAccepted =
     (if s = CallStateIncomingRinging then Some CallStateConnecting else None)"
| "call_next s TransitionRemoteAccepted =
     (if s = CallStateRinging then Some CallStateConnecting else None)"
| "call_next s TransitionLocalRejected =
     (if s = CallStateIncomingRinging then Some CallStateEnded else None)"
| "call_next s TransitionRemoteRejected =
     (if s = CallStateRinging then Some CallStateEnded else None)"
| "call_next s TransitionMediaConnected =
     (if s = CallStateConnecting then Some CallStateActive else None)"
| "call_next s TransitionTerminated =
     (if s = CallStateEnded then None else Some CallStateEnded)"
| "call_next s TransitionHold =
     (if s = CallStateActive then Some CallStateOnHold else None)"
| "call_next s TransitionResume =
     (if s = CallStateOnHold then Some CallStateActive else None)"
| "call_next s TransitionAudioMuteChanged =
     (if s = CallStateActive then Some CallStateActive else None)"
| "call_next s TransitionVideoStateChanged =
     (if s = CallStateActive then Some CallStateActive else None)"
| "call_next s (TransitionUnknown u) = None"

definition same_call :: "CallInfo \<Rightarrow> CallInfo \<Rightarrow> bool" where
  "same_call c c' \<longleftrightarrow> (\<exists>s. c' = c\<lparr>ci_StateData := s\<rparr>)"

lemma same_call_refl [simp]: "same_call c c"
  by (auto simp: same_call_def intro!: exI [of _ "ci_StateData c"])

lemma same_call_update [simp]: "same_call c (c\<lparr>ci_StateData := s\<rparr>)"
  by (auto simp: same_call_def)

lemma same_call_trans: "same_call a b \<Longrightarrow> same_call b c \<Longrightarrow> same_call a c"
  by (auto simp: same_call_def)

lemma same_call_fields:
  "same_call c c' \<Longrightarrow> ci_CallID c' = ci_CallID c \<and> ci_PeerJid c' = ci_PeerJid c
     \<and> ci_CallCreator c' = ci_CallCreator c \<and> ci_Direction c' = ci_Direction c
     \<and> ci_MediaType c' = ci_MediaType c \<and> ci_CreatedAt c' = ci_CreatedAt c
     \<and> ci_EncryptionKey c' = ci_EncryptionKey c \<and> ci_RelayData c' = ci_RelayData c"
  by (auto simp: same_call_def)

lemma ended_state [simp]: "sd_State (ended now r s) = CallStateEnded"
  by (simp add: ended_def)

lemma ApplyTransition_next:
  "(case ApplyTransition now c t of
      Inl _ \<Rightarrow> call_next (call_state c) (tr_Type t) = None
    | Inr c' \<Rightarrow> call_next (call_state c) (tr_Type t) = Some (call_state c') \<and> same_call c c')"
  by (cases "tr_Type t") (auto simp: ApplyTransition_def Let_def split: option.splits)

lemma ApplyTransition_Inr:
  "ApplyTransition now c t = Inr c' \<Longrightarrow>
     call_next (call_state c) (tr_Type t) = Some (call_state c') \<and> same_call c c'"
  using ApplyTransition_next [where now = now and c = c and t = t] by simp

lemma ApplyTransition_succeeds_iff:
  "(\<exists>c'. ApplyTransition now c t = Inr c') \<longleftrightarrow> call_next (call_state c) (tr_Type t) \<noteq> None"
  using ApplyTransition_next [where now = now and c = c and t = t] by (cases "ApplyTransition now c t") auto

lemma ApplyTransition_error:
  "ApplyTransition now c t = Inl e \<Longrightarrow>
     e = InvalidTransition (CallState_string (call_state c)) (Transition_string (tr_Type t))"
  by (cases "tr_Type t") (auto simp: ApplyTransition_def Let_def split: if_splits option.splits)

lemma call_rank_le: "call_rank s \<le> 4"
  by (cases s) auto

lemma call_rank_3: "3 \<le> call_rank s \<Longrightarrow> s = CallStateActive \<or> s = CallStateOnHold \<or> s = CallStateEnded"
  by (cases s) auto

fun_cases call_next_SomeE: "call_next s t = Some s'"

lemma call_next_rank: "call_next s t = Some s' \<Longrightarrow> call_rank s \<le> call_rank s'"
  by (elim call_next_SomeE) (auto simp: call_rank_le split: if_splits)

lemma call_next_ended: "call_next CallStateEnded t = None"
  by (cases t) auto

lemma try_transition_same: "same_call c (try_transition c e)"
  using ApplyTransition_next [where now = "fst e" and c = c and t = "snd e"]
  by (cases "ApplyTransition (fst e) c (snd e)") (auto simp: try_transition_def)

lemma try_transition_ended: "call_state c = CallStateEnded \<Longrightarrow> try_transition c e = c"
  using ApplyTransition_next [where now = "fst e" and c = c and t = "snd e"]
  by (cases "ApplyTransition (fst e) c (snd e)") (auto simp: try_transition_def call_next_ended)

lemma try_transition_rank: "call_rank (call_state c) \<le> call_rank (call_state (try_transition c e))"
  using ApplyTransition_next [where now = "fst e" and c = c and t = "snd e"]
  by (cases "ApplyTransition (fst e) c (snd e)")
     (auto simp: try_transition_def dest: call_next_rank)

interpretation callm: ranked_machine try_transition "\<lambda>_. True" "\<lambda>c. call_rank (call_state c)"
  by unfold_locales (auto simp: try_transition_rank)

interpretation callf: final_machine try_transition "\<lambda>_. True" "\<lambda>c. c = c0 \<and> call_state c0 = CallStateEnded" for c0
  by unfold_locales (auto simp: try_transition_ended)

section \<open>The clocked machine\<close>

text \<open>
  A run in real time: each event comes some nanoseconds after the one before, and \<open>time.Now()\<close>
  reads the running total. The invariant ties every timestamp and the duration to the state.
\<close>

definition clock_step :: "CallInfo \<times> int \<Rightarrow> nat \<times> Transition \<Rightarrow> CallInfo \<times> int" where
  "clock_step s e =
     (let now = snd s + int (fst e) in (try_transition (fst s) (now, snd e), now))"

definition times_wf :: "int \<Rightarrow> int \<Rightarrow> CallState \<Rightarrow> int option \<Rightarrow> int option \<Rightarrow> int option \<Rightarrow> bool" where
  "times_wf t0 clk st acc con fin \<longleftrightarrow>
     t0 \<le> clk
   \<and> (fin \<noteq> None \<longleftrightarrow> st = CallStateEnded)
   \<and> (st \<in> {CallStateConnecting, CallStateActive, CallStateOnHold} \<longrightarrow> acc \<noteq> None)
   \<and> (st \<in> {CallStateActive, CallStateOnHold} \<longrightarrow> con \<noteq> None)
   \<and> (case acc of None \<Rightarrow> True
      | Some a \<Rightarrow> t0 \<le> a \<and> a \<le> clk \<and> st \<notin> {CallStateInitiating, CallStateRinging, CallStateIncomingRinging})
   \<and> (case con of None \<Rightarrow> True
      | Some b \<Rightarrow> b \<le> clk \<and> st \<in> {CallStateActive, CallStateOnHold, CallStateEnded} \<and>
           (case acc of None \<Rightarrow> False | Some a \<Rightarrow> a \<le> b))
   \<and> (case fin of None \<Rightarrow> True
      | Some z \<Rightarrow> t0 \<le> z \<and> z \<le> clk \<and> (case con of None \<Rightarrow> True | Some b \<Rightarrow> b \<le> z))"

definition duration_wf :: "int option \<Rightarrow> int option \<Rightarrow> int \<Rightarrow> bool" where
  "duration_wf con fin du \<longleftrightarrow>
     du = (case (con, fin) of (Some b, Some z) \<Rightarrow> duration_secs (time_sub z b) | _ \<Rightarrow> 0)"

definition call_wf :: "CallInfo \<times> int \<Rightarrow> bool" where
  "call_wf s \<longleftrightarrow>
     (let d = ci_StateData (fst s)
      in times_wf (ci_CreatedAt (fst s)) (snd s) (sd_State d) (sd_AcceptedAt d) (sd_ConnectedAt d) (sd_EndedAt d)
       \<and> (sd_EndReason d \<noteq> [] \<longrightarrow> sd_State d = CallStateEnded)
       \<and> duration_wf (sd_ConnectedAt d) (sd_EndedAt d) (sd_DurationSecs d))"

lemma call_wf_outgoing: "call_wf (NewOutgoingCall t callID p me m, t)"
  by (simp add: call_wf_def NewOutgoingCall_def times_wf_def duration_wf_def)

lemma call_wf_incoming: "call_wf (NewIncomingCall t callID p cr pn m, t)"
  by (simp add: call_wf_def NewIncomingCall_def times_wf_def duration_wf_def)

lemma times_wf_tick: "times_wf t0 clk st acc con fin \<Longrightarrow> clk \<le> now \<Longrightarrow> times_wf t0 now st acc con fin"
  by (cases acc; cases con; cases fin) (auto simp: times_wf_def)

lemma call_wf_tick: "call_wf (c, clk) \<Longrightarrow> clk \<le> now \<Longrightarrow> call_wf (c, now)"
  by (auto simp: call_wf_def Let_def intro: times_wf_tick)

lemma times_wf_steps:
  assumes "times_wf t0 now st acc con fin"
  shows "st \<noteq> CallStateEnded \<Longrightarrow> times_wf t0 now CallStateEnded acc con (Some now)"
    and "st = CallStateInitiating \<Longrightarrow> times_wf t0 now CallStateRinging acc con fin"
    and "st = CallStateInitiating \<Longrightarrow> times_wf t0 now CallStateIncomingRinging acc con fin"
    and "st = CallStateRinging \<or> st = CallStateIncomingRinging \<Longrightarrow>
           times_wf t0 now CallStateConnecting (Some now) con fin"
    and "st = CallStateConnecting \<Longrightarrow> times_wf t0 now CallStateActive acc (Some now) fin"
    and "st = CallStateActive \<Longrightarrow> times_wf t0 now CallStateOnHold acc con fin"
    and "st = CallStateOnHold \<Longrightarrow> times_wf t0 now CallStateActive acc con fin"
  using assms by (cases acc; cases con; cases fin; cases st; simp add: times_wf_def)+

lemma duration_wf_steps:
  assumes "times_wf t0 now st acc con fin" and "duration_wf con fin du"
  shows "st = CallStateConnecting \<Longrightarrow> duration_wf (Some now) fin du"
    and "st = CallStateRinging \<or> st = CallStateIncomingRinging \<Longrightarrow> duration_wf con (Some now) du"
    and "st \<noteq> CallStateEnded \<Longrightarrow> con = None \<or> \<not> (st = CallStateActive \<or> st = CallStateOnHold) \<Longrightarrow>
           duration_wf con (Some now) du"
    and "con = Some b \<Longrightarrow> duration_wf con (Some now) (duration_secs (time_sub now b))"
  using assms by (auto simp: times_wf_def duration_wf_def split: option.splits)

lemma call_wf_apply:
  assumes wf: "call_wf (c, now)" and ap: "ApplyTransition now c t = Inr c'"
  shows "call_wf (c', now)"
proof -
  let ?d = "ci_StateData c"
  have tw: "times_wf (ci_CreatedAt c) now (sd_State ?d) (sd_AcceptedAt ?d) (sd_ConnectedAt ?d) (sd_EndedAt ?d)"
    and er: "sd_EndReason ?d \<noteq> [] \<longrightarrow> sd_State ?d = CallStateEnded"
    and dw: "duration_wf (sd_ConnectedAt ?d) (sd_EndedAt ?d) (sd_DurationSecs ?d)"
    using wf by (auto simp: call_wf_def Let_def)
  show ?thesis
    using ap tw er dw
    by (cases "tr_Type t")
       (auto simp: ApplyTransition_def Let_def call_wf_def ended_def
         intro: times_wf_steps duration_wf_steps split: if_splits option.splits)
qed

lemma clock_step_wf: "call_wf s \<Longrightarrow> call_wf (clock_step s e)"
proof -
  assume wf: "call_wf s"
  obtain c clk d t where s: "s = (c, clk)" and e: "e = (d, t)" by (cases s; cases e) auto
  have wf': "call_wf (c, clk + int d)" using wf s by (auto intro: call_wf_tick)
  show ?thesis
  proof (cases "ApplyTransition (clk + int d) c t")
    case (Inl x)
    with wf' s e show ?thesis by (simp add: clock_step_def try_transition_def)
  next
    case (Inr c')
    then have "call_wf (c', clk + int d)" by (rule call_wf_apply [OF wf'])
    with Inr s e show ?thesis by (simp add: clock_step_def try_transition_def)
  qed
qed

interpretation clockm: guarded_machine clock_step call_wf
  by unfold_locales (rule clock_step_wf)

section \<open>Properties\<close>

text \<open>
  Property C9. The transitions implement the table \<open>call_next\<close>: an event succeeds exactly when the table has a move for
  it, then leads to that state and touches nothing but the state data; otherwise the error names the state and the
  event, and an ended call refuses every event.
\<close>

theorem ApplyTransition_refines_table:
  "(case ApplyTransition now c t of
      Inl e \<Rightarrow> call_next (call_state c) (tr_Type t) = None
        \<and> e = InvalidTransition (CallState_string (call_state c)) (Transition_string (tr_Type t))
    | Inr c' \<Rightarrow> call_next (call_state c) (tr_Type t) = Some (call_state c') \<and> same_call c c')
   \<and> call_next CallStateEnded (tr_Type t) = None"
  using ApplyTransition_next [where now = now and c = c and t = t] ApplyTransition_error [where now = now and c = c and t = t]
  by (auto simp: call_next_ended split: sum.splits)

end
