(* ===== verification/WaNode.thy ===== *)
theory WaNode
  imports Prelude
begin

text \<open>
  WhatsApp binary nodes and JIDs as this program reads them (\<^verbatim>\<open>internal/voip/wanode\<close>). The types
  \<^verbatim>\<open>waBinary.Node\<close> and \<^verbatim>\<open>types.JID\<close> belong to whatsmeow: a JID is a type variable, its operations are the
  fields of \<open>jid_ops\<close>. An attribute map is an association list, read by \<open>map_of\<close>.
\<close>

datatype 'j attr_value =
    AString string
  | AJid 'j
  | AInt int
  | AUint nat
  | ABool bool
  | ANil
  | AOther string  \<comment> \<open>any other value, with its text in the format percent-v\<close>

type_synonym 'j attrs = "(string \<times> 'j attr_value) list"

datatype 'j node = Node (Tag: string) (Attrs: "'j attrs") (Content: "'j content")
and 'j content = NoContent | Nodes "'j node list" | Bytes bytes | OtherContent

record 'j jid_ops =
  jid_String :: "'j \<Rightarrow> string"
  jid_IsEmpty :: "'j \<Rightarrow> bool"
  jid_Parse :: "string \<Rightarrow> 'j option"
  jid_zero :: 'j

section \<open>jid.go\<close>

definition CleanJID :: "string \<Rightarrow> string" where
  "CleanJID jid =
     (let i = str_index (CHR '':'') jid in
      if 0 \<le> i then
        (let a = str_index (CHR ''@'') jid in
         if i < a then take (nat i) jid @ drop (nat a) jid else jid)
      else jid)"

definition MustJID :: "('j, 'x) jid_ops_scheme \<Rightarrow> string \<Rightarrow> 'j" where
  "MustJID J s = (case jid_Parse J s of None \<Rightarrow> jid_zero J | Some j \<Rightarrow> j)"

section \<open>nodeutil.go\<close>

text \<open>A node pointer may be nil. An absent and an empty list of children read alike.\<close>

definition NodeChildren :: "'j node option \<Rightarrow> 'j node list" where
  "NodeChildren n =
     (case n of None \<Rightarrow> []
      | Some m \<Rightarrow> (case Content m of Nodes children \<Rightarrow> children | _ \<Rightarrow> []))"

definition NodeBytes :: "'j node option \<Rightarrow> bytes option" where
  "NodeBytes n =
     (case n of None \<Rightarrow> None
      | Some m \<Rightarrow> (case Content m of Bytes b \<Rightarrow> Some b | _ \<Rightarrow> None))"

definition AttrString :: "('j, 'x) jid_ops_scheme \<Rightarrow> 'j attrs \<Rightarrow> string \<Rightarrow> string" where
  "AttrString J attrs key =
     (case map_of attrs key of
        None \<Rightarrow> ''''
      | Some v \<Rightarrow>
          (case v of
             ANil \<Rightarrow> ''''
           | AString t \<Rightarrow> t
           | AJid j \<Rightarrow> jid_String J j
           | AInt i \<Rightarrow> itoa i
           | AUint n \<Rightarrow> itoa (int n)
           | ABool b \<Rightarrow> (if b then ''true'' else ''false'')
           | AOther t \<Rightarrow> t))"

definition AttrInt :: "('j, 'x) jid_ops_scheme \<Rightarrow> 'j attrs \<Rightarrow> string \<Rightarrow> int \<Rightarrow> int" where
  "AttrInt J attrs key fallback =
     (let s = AttrString J attrs key in
      if s = '''' then fallback
      else (case atoi s of None \<Rightarrow> fallback | Some n \<Rightarrow> n))"

definition HasAttr :: "('j, 'x) jid_ops_scheme \<Rightarrow> 'j attrs \<Rightarrow> string \<Rightarrow> bool" where
  "HasAttr J attrs key \<longleftrightarrow>
     (case map_of attrs key of None \<Rightarrow> False | Some v \<Rightarrow> v \<noteq> ANil \<and> AttrString J attrs key \<noteq> '''')"

lemma NodeChildren_simps [simp]:
  "NodeChildren None = []"
  "NodeChildren (Some (Node t a (Nodes ns))) = ns"
  "NodeChildren (Some (Node t a (Bytes b))) = []"
  "NodeChildren (Some (Node t a NoContent)) = []"
  by (simp_all add: NodeChildren_def)

lemma NodeBytes_simps [simp]:
  "NodeBytes None = None"
  "NodeBytes (Some (Node t a (Bytes b))) = Some b"
  "NodeBytes (Some (Node t a (Nodes ns))) = None"
  by (simp_all add: NodeBytes_def)

lemma HasAttr_iff: "HasAttr J attrs key \<longleftrightarrow> AttrString J attrs key \<noteq> ''''"
  by (auto simp: HasAttr_def AttrString_def split: option.splits attr_value.splits)

lemma AttrInt_itoa:
  "AttrString J attrs key = itoa i \<Longrightarrow> - (2 ^ 63) \<le> i \<Longrightarrow> i < 2 ^ 63 \<Longrightarrow> AttrInt J attrs key d = i"
proof -
  assume "AttrString J attrs key = itoa i" "- (2 ^ 63) \<le> i" "i < 2 ^ 63"
  moreover have "itoa i \<noteq> ''''" using dec_of_nat_digits by (simp add: itoa_def)
  ultimately show ?thesis by (simp add: AttrInt_def atoi_itoa)
qed

section \<open>Device JIDs\<close>

text \<open>
  A JID with a device has the shape user, colon, device, at sign, server. The two shapes the string
  functions distinguish: a colon before the first at sign, or none.
\<close>

lemma first_occurrence: "c \<in> set s \<Longrightarrow> \<exists>xs ys. s = xs @ c # ys \<and> c \<notin> set xs"
  by (meson split_list_first)

lemma jid_shape:
  obtains (device) u d s where "jid = u @ CHR '':'' # d @ CHR ''@'' # s"
      "CHR '':'' \<notin> set u" "CHR ''@'' \<notin> set u" "CHR ''@'' \<notin> set d"
    | (plain) u s where "jid = u @ CHR ''@'' # s" "CHR '':'' \<notin> set u" "CHR ''@'' \<notin> set u"
    | (other) "CHR ''@'' \<notin> set jid"
proof (cases "CHR ''@'' \<in> set jid")
  case True
  then obtain pre s where j: "jid = pre @ CHR ''@'' # s" and pre: "CHR ''@'' \<notin> set pre"
    using first_occurrence by metis
  show thesis
  proof (cases "CHR '':'' \<in> set pre")
    case True
    then obtain u d where "pre = u @ CHR '':'' # d" "CHR '':'' \<notin> set u"
      using first_occurrence by metis
    with j pre that(1) show thesis by simp
  next
    case False
    with j pre that(2) show thesis by simp
  qed
qed (use that in blast)


end
