(* ===== verification/CallHelpers.thy ===== *)
theory CallHelpers
  imports WaNode CoreTypes
begin

text \<open>
  The helpers of the call engine (\<^verbatim>\<open>internal/voip/call/helpers.go\<close>): device JIDs, choosing the devices
  of a call among its participants, small list functions.
\<close>

definition hasChildTag :: "'j node option \<Rightarrow> string \<Rightarrow> bool" where
  "hasChildTag n tag \<longleftrightarrow> (\<exists>c \<in> set (NodeChildren n). Tag c = tag)"

definition ensureDeviceJid :: "string \<Rightarrow> string" where
  "ensureDeviceJid jid =
     (if str_contains (CHR '':'') jid \<and> str_index (CHR '':'') jid < str_index (CHR ''@'') jid then jid
      else replace_first (CHR ''@'') '':0@'' jid)"

fun findOurDevice :: "string list \<Rightarrow> string \<Rightarrow> string \<Rightarrow> string" where
  "findOurDevice [] ourBase fallback = fallback"
| "findOurDevice (jid # participants) ourBase fallback =
     (if CleanJID jid = ourBase \<and> str_contains (CHR '':'') jid then jid
      else findOurDevice participants ourBase fallback)"

fun firstPeerDevice :: "string list \<Rightarrow> string \<Rightarrow> string" where
  "firstPeerDevice [] ourBase = ''''"
| "firstPeerDevice (jid # participants) ourBase =
     (if CleanJID jid \<noteq> ourBase then jid else firstPeerDevice participants ourBase)"

definition firstSsrc :: "u32 list \<Rightarrow> u32" where
  "firstSsrc s = (case s of [] \<Rightarrow> 0 | x # _ \<Rightarrow> x)"

text \<open>The one-line summary of a node's children that is logged for diagnosis.\<close>

definition childTagSummary :: "'j node option \<Rightarrow> string" where
  "childTagSummary n =
     (case n of
        None \<Rightarrow> ''<nil>''
      | Some _ \<Rightarrow>
          join '' '' (map (\<lambda>c.
            let sub = NodeChildren (Some c)
            in if 0 < length sub then Tag c @ ''['' @ join '','' (map Tag sub) @ '']'' else Tag c)
            (NodeChildren n)))"

definition relayEndpointCount :: "RelayData option \<Rightarrow> nat" where
  "relayEndpointCount rd = (case rd of None \<Rightarrow> 0 | Some d \<Rightarrow> length (rd_Endpoints d))"

fun containsSsrc :: "u32 list \<Rightarrow> u32 \<Rightarrow> bool" where
  "containsSsrc [] v = False"
| "containsSsrc (x # s) v = (x = v \<or> containsSsrc s v)"

definition equalBytes :: "bytes \<Rightarrow> bytes \<Rightarrow> bool" where
  "equalBytes a b = (if length a \<noteq> length b then False else list_all2 (=) a b)"

lemma containsSsrc_iff [simp]: "containsSsrc s v \<longleftrightarrow> v \<in> set s"
  by (induction s) auto

lemma equalBytes_iff [simp]: "equalBytes a b \<longleftrightarrow> a = b"
  by (auto simp: equalBytes_def list.rel_eq)

section \<open>Device JIDs\<close>

lemma str_index_skip: "c \<notin> set xs \<Longrightarrow> c \<notin> set ys \<Longrightarrow> str_index c (xs @ ys) = -1"
proof -
  assume "c \<notin> set xs" "c \<notin> set ys"
  then have "\<not> 0 \<le> str_index c (xs @ ys)" by (simp add: str_index_nonneg_iff)
  with str_index_lower [of c "xs @ ys"] show ?thesis by simp
qed

lemma CleanJID_device:
  assumes "CHR '':'' \<notin> set u" "CHR ''@'' \<notin> set u" "CHR ''@'' \<notin> set d"
  shows "CleanJID (u @ CHR '':'' # d @ CHR ''@'' # s) = u @ CHR ''@'' # s"
proof -
  let ?j = "u @ CHR '':'' # d @ CHR ''@'' # s"
  have i: "str_index (CHR '':'') ?j = int (length u)" by (rule str_index_append) fact
  have a: "str_index (CHR ''@'') ?j = int (length (u @ CHR '':'' # d))"
    using str_index_append [of "CHR ''@''" "u @ CHR '':'' # d" s] assms by simp
  show ?thesis unfolding CleanJID_def i a Let_def nat_int by simp
qed

lemma str_index_before:
  assumes "CHR '':'' \<notin> set u" "CHR ''@'' \<notin> set u"
  shows "str_index (CHR '':'') (u @ CHR ''@'' # s) < 0
       \<or> str_index (CHR ''@'') (u @ CHR ''@'' # s) \<le> str_index (CHR '':'') (u @ CHR ''@'' # s)"
proof -
  have a: "str_index (CHR ''@'') (u @ CHR ''@'' # s) = int (length u)" by (rule str_index_append) fact
  have "str_index c (u @ s') < 0 \<or> int (length u) \<le> str_index c (u @ s')" if "c \<notin> set u" for c s'
    using that by (induction u) auto
  then show ?thesis unfolding a using assms(1) by blast
qed

lemma CleanJID_plain:
  assumes "CHR '':'' \<notin> set u" "CHR ''@'' \<notin> set u"
  shows "CleanJID (u @ CHR ''@'' # s) = u @ CHR ''@'' # s"
  using str_index_before [OF assms, of s] by (auto simp: CleanJID_def Let_def)

lemma CleanJID_other: "CHR ''@'' \<notin> set jid \<Longrightarrow> CleanJID jid = jid"
proof -
  assume "CHR ''@'' \<notin> set jid"
  then have "str_index (CHR ''@'') jid = -1" using str_index_skip [of "CHR ''@''" jid "[]"] by simp
  then show ?thesis using str_index_lower [of "CHR '':''" jid] by (simp add: CleanJID_def Let_def)
qed

lemma ensureDeviceJid_device:
  assumes "CHR '':'' \<notin> set u" "CHR ''@'' \<notin> set u" "CHR ''@'' \<notin> set d"
  shows "ensureDeviceJid (u @ CHR '':'' # d @ CHR ''@'' # s) = u @ CHR '':'' # d @ CHR ''@'' # s"
proof -
  have "str_index (CHR '':'') (u @ CHR '':'' # d @ CHR ''@'' # s) = int (length u)"
    by (rule str_index_append) fact
  moreover have "str_index (CHR ''@'') (u @ CHR '':'' # d @ CHR ''@'' # s) = int (length (u @ CHR '':'' # d))"
    using str_index_append [of "CHR ''@''" "u @ CHR '':'' # d" s] assms by simp
  ultimately show ?thesis by (simp add: ensureDeviceJid_def str_contains_def)
qed

lemma ensureDeviceJid_plain:
  assumes "CHR '':'' \<notin> set u" "CHR ''@'' \<notin> set u"
  shows "ensureDeviceJid (u @ CHR ''@'' # s) = u @ CHR '':'' # ''0'' @ CHR ''@'' # s"
proof -
  have "\<not> (str_contains (CHR '':'') (u @ CHR ''@'' # s)
      \<and> str_index (CHR '':'') (u @ CHR ''@'' # s) < str_index (CHR ''@'') (u @ CHR ''@'' # s))"
  proof
    assume "str_contains (CHR '':'') (u @ CHR ''@'' # s)
      \<and> str_index (CHR '':'') (u @ CHR ''@'' # s) < str_index (CHR ''@'') (u @ CHR ''@'' # s)"
    moreover have "0 \<le> str_index (CHR '':'') (u @ CHR ''@'' # s)"
      using calculation by (simp add: str_index_nonneg_iff str_contains_def)
    ultimately show False using str_index_before [OF assms, of s] by simp
  qed
  then show ?thesis
    unfolding ensureDeviceJid_def using assms replace_first_split [of "CHR ''@''" u "'':0@''" s]
    by (simp only: if_False) simp
qed

lemma ensureDeviceJid_other: "CHR ''@'' \<notin> set jid \<Longrightarrow> ensureDeviceJid jid = jid"
  by (simp add: ensureDeviceJid_def replace_first_absent)

lemma ensureDeviceJid_shape:
  "CHR '':'' \<notin> set u \<Longrightarrow> CHR ''@'' \<notin> set u \<Longrightarrow> jid = u @ CHR ''@'' # s \<Longrightarrow>
     ensureDeviceJid jid = u @ CHR '':'' # ''0'' @ CHR ''@'' # s"
  using ensureDeviceJid_plain [of u s] by simp

lemma CleanJID_ensureDeviceJid: "CleanJID (ensureDeviceJid jid) = CleanJID jid"
proof (cases jid rule: jid_shape)
  case (device u d s)
  then show ?thesis by (simp add: ensureDeviceJid_device)
next
  case (plain u s)
  moreover have "CHR ''@'' \<notin> set ''0''" by simp
  ultimately show ?thesis
    by (metis ensureDeviceJid_shape CleanJID_device CleanJID_plain)
next
  case other
  then show ?thesis by (simp add: ensureDeviceJid_other)
qed

lemma CleanJID_idem: "CleanJID (CleanJID jid) = CleanJID jid"
  by (cases jid rule: jid_shape) (simp_all add: CleanJID_device CleanJID_plain CleanJID_other)

lemma ensureDeviceJid_idem: "ensureDeviceJid (ensureDeviceJid jid) = ensureDeviceJid jid"
proof (cases jid rule: jid_shape)
  case (plain u s)
  moreover have "CHR ''@'' \<notin> set ''0''" by simp
  ultimately show ?thesis
    by (metis ensureDeviceJid_shape ensureDeviceJid_device)
qed (simp_all add: ensureDeviceJid_device ensureDeviceJid_other)

text \<open>
  Device JIDs are normal forms: adding the device is idempotent, stripping it is
  idempotent, and stripping undoes adding, for every string whatsoever.
\<close>

theorem device_jid_normal_forms:
  "ensureDeviceJid (ensureDeviceJid jid) = ensureDeviceJid jid
   \<and> CleanJID (CleanJID jid) = CleanJID jid
   \<and> CleanJID (ensureDeviceJid jid) = CleanJID jid"
  by (simp add: ensureDeviceJid_idem CleanJID_idem CleanJID_ensureDeviceJid)

section \<open>Choosing devices\<close>

lemma findOurDevice_cases:
  "findOurDevice ps b f = f \<and> (\<forall>p \<in> set ps. \<not> (CleanJID p = b \<and> str_contains (CHR '':'') p))
   \<or> (findOurDevice ps b f \<in> set ps \<and> CleanJID (findOurDevice ps b f) = b
      \<and> str_contains (CHR '':'') (findOurDevice ps b f))"
  by (induction ps) auto

lemma firstPeerDevice_cases:
  "firstPeerDevice ps b = '''' \<and> (\<forall>p \<in> set ps. CleanJID p = b \<or> p = '''')
   \<or> (firstPeerDevice ps b \<in> set ps \<and> CleanJID (firstPeerDevice ps b) \<noteq> b)"
  by (induction ps) auto

text \<open>
  The devices chosen among the participants of a call: ours belongs to our account and the
  peer's does not, so, when a peer device is found, the two are never the same and the keys of the two
  directions are derived from different identities.
\<close>

theorem chosen_devices_differ:
  assumes "CleanJID fallback = ourBase" and "firstPeerDevice ps ourBase \<noteq> ''''"
  shows "CleanJID (ensureDeviceJid (findOurDevice ps ourBase fallback)) = ourBase
     \<and> ensureDeviceJid (findOurDevice ps ourBase fallback) \<noteq> ensureDeviceJid (firstPeerDevice ps ourBase)"
proof -
  let ?o = "findOurDevice ps ourBase fallback" and ?p = "firstPeerDevice ps ourBase"
  have "CleanJID ?o = ourBase" using findOurDevice_cases [of ps ourBase fallback] assms(1) by auto
  moreover have "CleanJID ?p \<noteq> ourBase" using firstPeerDevice_cases [of ps ourBase] assms(2) by auto
  ultimately show ?thesis by (metis CleanJID_ensureDeviceJid)
qed

theorem chosen_devices_differ_witness:
  "ensureDeviceJid (findOurDevice [''me:3@lid'', ''you@lid''] ''me@lid'' ''me@lid'')
     \<noteq> ensureDeviceJid (firstPeerDevice [''me:3@lid'', ''you@lid''] ''me@lid'')"
  by (rule chosen_devices_differ [THEN conjunct2]) (simp_all add: CleanJID_def)

end
