(* ===== verification/Signaling.thy ===== *)
theory Signaling
  imports WaNode CoreTypes "HOL-Library.Multiset"
begin

text \<open>
  Call signalling (\<^verbatim>\<open>internal/voip/signaling\<close>): reading call nodes and offer acknowledgements, the call key
  messages, and building the stanzas this program sends. The socket of \<^verbatim>\<open>internal/voip/core/voipsocket.go\<close> is a
  record of functions; random draws are arguments. Base64 of the Go library is written out.
\<close>

section \<open>The socket\<close>

record 'j VoipSocket =
  OwnPN :: 'j
  OwnLID :: 'j
  AccountDeviceIdentityNode :: "'j node option"
  GetUSyncDevices :: "'j list \<Rightarrow> string + 'j list"
  AssertSessions :: "'j list \<Rightarrow> bool \<Rightarrow> string option"
  CreateParticipantNodes :: "'j list \<Rightarrow> bytes \<Rightarrow> 'j attrs \<Rightarrow> string + ('j node list \<times> bool)"
  DecryptCallKey :: "'j \<Rightarrow> 'j node \<Rightarrow> string + bytes option"
  GetTCToken :: "'j \<Rightarrow> string + bytes"
  ResolveLIDForPN :: "'j \<Rightarrow> 'j"

section \<open>Base64\<close>

definition b64_char :: "nat \<Rightarrow> char" where
  "b64_char n =
     (if n < 26 then char_of (65 + n) else if n < 52 then char_of (71 + n)
      else if n < 62 then char_of (n - 4) else if n = 62 then CHR ''+'' else CHR ''/'')"

definition b64_val :: "char \<Rightarrow> nat option" where
  "b64_val c =
     (let k = of_char c in
      if 65 \<le> k \<and> k \<le> 90 then Some (k - 65) else if 97 \<le> k \<and> k \<le> 122 then Some (k - 71)
      else if 48 \<le> k \<and> k \<le> 57 then Some (k + 4) else if k = 43 then Some 62
      else if k = 47 then Some 63 else None)"

fun b64_encode :: "bytes \<Rightarrow> string" where
  "b64_encode [] = []"
| "b64_encode [a] = [b64_char (unat a div 4), b64_char (unat a mod 4 * 16), CHR ''='', CHR ''='']"
| "b64_encode [a, b] =
     [b64_char (unat a div 4), b64_char (unat a mod 4 * 16 + unat b div 16),
      b64_char (unat b mod 16 * 4), CHR ''='']"
| "b64_encode (a # b # c # rest) =
     [b64_char (unat a div 4), b64_char (unat a mod 4 * 16 + unat b div 16),
      b64_char (unat b mod 16 * 4 + unat c div 64), b64_char (unat c mod 64)] @ b64_encode rest"

fun b64_quads :: "string \<Rightarrow> bytes option" where
  "b64_quads [] = Some []"
| "b64_quads (a # b # c # d # rest) =
     (case (b64_val a, b64_val b) of
        (Some x, Some y) \<Rightarrow>
          if rest = [] \<and> c = CHR ''='' \<and> d = CHR ''='' then Some [of_nat (x * 4 + y div 16)]
          else
            (case b64_val c of
               None \<Rightarrow> None
             | Some z \<Rightarrow>
                 if rest = [] \<and> d = CHR ''=''
                 then Some [of_nat (x * 4 + y div 16), of_nat (y mod 16 * 16 + z div 4)]
                 else
                   (case b64_val d of
                      None \<Rightarrow> None
                    | Some w \<Rightarrow>
                        map_option (\<lambda>bs. of_nat (x * 4 + y div 16) # of_nat (y mod 16 * 16 + z div 4)
                          # of_nat (z mod 4 * 64 + w) # bs) (b64_quads rest)))
      | _ \<Rightarrow> None)"
| "b64_quads _ = None"

text \<open>\<^verbatim>\<open>base64.StdEncoding.DecodeString\<close>: carriage returns and newlines are skipped.\<close>

definition b64_decode :: "string \<Rightarrow> bytes option" where
  "b64_decode s = b64_quads (filter (\<lambda>c. (of_char c :: nat) \<noteq> 10 \<and> (of_char c :: nat) \<noteq> 13) s)"

section \<open>signaling\_parse.go\<close>

record 'j NodeInfo =
  ni_Tag :: string
  ni_PeerJid :: string
  ni_CallID :: string
  ni_PeerPlatform :: string
  ni_PeerAppVersion :: string
  ni_EpochID :: string
  ni_Timestamp :: string
  ni_InnerNode :: "'j node"

definition ExtractNodeInfo :: "('j, 'x) jid_ops_scheme \<Rightarrow> 'j node option \<Rightarrow> 'j NodeInfo option" where
  "ExtractNodeInfo J n =
     (case n of
        None \<Rightarrow> None
      | Some node \<Rightarrow>
          (case NodeChildren n of
             [] \<Rightarrow> None
           | inner # _ \<Rightarrow>
               Some \<lparr>ni_Tag = Tag inner, ni_PeerJid = AttrString J (Attrs node) ''from'',
                     ni_CallID = AttrString J (Attrs inner) ''call-id'',
                     ni_PeerPlatform = AttrString J (Attrs node) ''platform'',
                     ni_PeerAppVersion = AttrString J (Attrs node) ''version'',
                     ni_EpochID = AttrString J (Attrs inner) ''e'',
                     ni_Timestamp = AttrString J (Attrs inner) ''t'', ni_InnerNode = inner\<rparr>))"

text \<open>The order of \<^verbatim>\<open>sortRelaysByRtt\<close>: measured round trips ascending, then the relays without one.\<close>

definition rtt_key :: "RelayEndpoint \<Rightarrow> bool \<times> int" where
  "rtt_key r = (case ep_C2RRtt r of None \<Rightarrow> (True, 0) | Some v \<Rightarrow> (False, v))"

definition rtt_less :: "RelayEndpoint \<Rightarrow> RelayEndpoint \<Rightarrow> bool" where
  "rtt_less i j =
     (case (ep_C2RRtt i, ep_C2RRtt j) of
        (None, None) \<Rightarrow> False
      | (None, Some _) \<Rightarrow> False
      | (Some _, None) \<Rightarrow> True
      | (Some a, Some b) \<Rightarrow> a < b)"

text \<open>\<^verbatim>\<open>sort.SliceStable\<close>, as a stable insertion sort on its \<open>less\<close>.\<close>

fun insert_stable :: "('a \<Rightarrow> 'a \<Rightarrow> bool) \<Rightarrow> 'a \<Rightarrow> 'a list \<Rightarrow> 'a list" where
  "insert_stable lt x [] = [x]"
| "insert_stable lt x (y # ys) = (if lt y x then y # insert_stable lt x ys else x # y # ys)"

definition slice_stable :: "('a \<Rightarrow> 'a \<Rightarrow> bool) \<Rightarrow> 'a list \<Rightarrow> 'a list" where
  "slice_stable lt xs = foldr (insert_stable lt) xs []"

definition sortRelaysByRtt :: "RelayEndpoint list \<Rightarrow> RelayEndpoint list" where
  "sortRelaysByRtt relays = slice_stable rtt_less relays"

definition parseRelay :: "('j, 'x) jid_ops_scheme \<Rightarrow> 'j node \<Rightarrow> RelayEndpoint list" where
  "parseRelay J n =
     (let ip = AttrString J (Attrs n) ''ip''; token = AttrString J (Attrs n) ''token''
      in if ip = '''' \<or> token = '''' then []
      else
        let key0 = AttrString J (Attrs n) ''relay-key'';
            key = (if key0 = '''' then AttrString J (Attrs n) ''key'' else key0);
            ep = RelayEndpoint_zero\<lparr>ep_IP := ip, ep_Port := AttrInt J (Attrs n) ''port'' WARelayPort,
                   ep_Token := token, ep_Key := key, ep_RelayID := AttrInt J (Attrs n) ''relay-id'' 0\<rparr>
        in [if HasAttr J (Attrs n) ''c2r-rtt''
            then ep\<lparr>ep_C2RRtt := Some (AttrInt J (Attrs n) ''c2r-rtt'' 0)\<rparr> else ep])"

definition ExtractRelayEndpoints :: "('j, 'x) jid_ops_scheme \<Rightarrow> 'j node option \<Rightarrow> RelayEndpoint list" where
  "ExtractRelayEndpoints J node =
     sortRelaysByRtt (concat (map (\<lambda>child.
       if Tag child = ''relay'' then parseRelay J child
       else if Tag child = ''relays''
       then concat (map (\<lambda>rn. if Tag rn = ''relay'' then parseRelay J rn else []) (NodeChildren (Some child)))
       else []) (NodeChildren node)))"

definition find_enc :: "('j, 'x) jid_ops_scheme \<Rightarrow> 'j node list \<Rightarrow> 'j node option" where
  "find_enc J ns = find (\<lambda>c. Tag c = ''enc'' \<and> HasAttr J (Attrs c) ''type'') ns"

definition findEncNode :: "('j, 'x) jid_ops_scheme \<Rightarrow> 'j node option \<Rightarrow> 'j node option" where
  "findEncNode J inner =
     (case find_enc J (NodeChildren inner) of
        Some c \<Rightarrow> Some c
      | None \<Rightarrow>
          find_enc J (concat (map (\<lambda>c. concat (map (\<lambda>toNode. NodeChildren (Some toNode))
              (filter (\<lambda>toNode. Tag toNode = ''to'') (NodeChildren (Some c)))))
            (filter (\<lambda>c. Tag c = ''destination'') (NodeChildren inner)))))"

section \<open>relayack.go\<close>

record ParsedRelayAck =
  pa_Relays :: "RelayEndpoint list"
  pa_ParticipantJids :: "string list"
  pa_UUID :: string
  pa_SelfPid :: "int option"
  pa_PeerPid :: "int option"
  pa_HbhKey :: "bytes option"

definition ParsedRelayAck_zero :: ParsedRelayAck where
  "ParsedRelayAck_zero = \<lparr>pa_Relays = [], pa_ParticipantJids = [], pa_UUID = '''', pa_SelfPid = None,
     pa_PeerPid = None, pa_HbhKey = None\<rparr>"

definition attrStringOr :: "('j, 'x) jid_ops_scheme \<Rightarrow> 'j attrs \<Rightarrow> string \<Rightarrow> string \<Rightarrow> string" where
  "attrStringOr J attrs key fallback =
     (let s = AttrString J attrs key in if s \<noteq> '''' then s else fallback)"

definition ipv4String :: "bytes \<Rightarrow> string" where
  "ipv4String b = itoa (uint (b ! 0)) @ ''.'' @ itoa (uint (b ! 1)) @ ''.'' @
     itoa (uint (b ! 2)) @ ''.'' @ itoa (uint (b ! 3))"

text \<open>The set \<^verbatim>\<open>participantSeen\<close> holds exactly the JIDs already in the list.\<close>

definition addParticipant :: "string \<Rightarrow> ParsedRelayAck \<Rightarrow> ParsedRelayAck" where
  "addParticipant jid res =
     (if jid \<noteq> '''' \<and> jid \<notin> set (pa_ParticipantJids res)
      then res\<lparr>pa_ParticipantJids := pa_ParticipantJids res @ [jid]\<rparr> else res)"

record relay_keys =
  rk_relayKey :: string
  rk_tokens :: "string \<rightharpoonup> string"
  rk_authTokens :: "string \<rightharpoonup> string"
  rk_rawTokens :: "string \<rightharpoonup> bytes"
  rk_rawAuthTokens :: "string \<rightharpoonup> bytes"

definition read_hbh_key :: "bytes \<Rightarrow> bytes option \<Rightarrow> bytes option" where
  "read_hbh_key b old =
     (if length b = 30 then Some b
      else if 30 < length b then
        (case b64_decode (str_of b) of
           Some decoded \<Rightarrow> if length decoded = 30 then Some decoded else old
         | None \<Rightarrow> old)
      else old)"

definition read_relay_key ::
    "('j, 'x) jid_ops_scheme \<Rightarrow> relay_keys \<times> ParsedRelayAck \<Rightarrow> 'j node \<Rightarrow> relay_keys \<times> ParsedRelayAck" where
  "read_relay_key J s rc =
     (let (k, res) = s in
      case NodeBytes (Some rc) of
        None \<Rightarrow> s
      | Some b \<Rightarrow>
          (let iden = attrStringOr J (Attrs rc) ''id'' ''0'' in
           if Tag rc = ''key'' then (k\<lparr>rk_relayKey := str_of b\<rparr>, res)
           else if Tag rc = ''hbh_key'' then (k, res\<lparr>pa_HbhKey := read_hbh_key b (pa_HbhKey res)\<rparr>)
           else if Tag rc = ''token'' then
             (k\<lparr>rk_tokens := (rk_tokens k)(iden \<mapsto> b64_encode b), rk_rawTokens := (rk_rawTokens k)(iden \<mapsto> b)\<rparr>, res)
           else if Tag rc = ''auth_token'' then
             (k\<lparr>rk_authTokens := (rk_authTokens k)(iden \<mapsto> b64_encode b),
                rk_rawAuthTokens := (rk_rawAuthTokens k)(iden \<mapsto> b)\<rparr>, res)
           else s))"

definition or_empty :: "string option \<Rightarrow> string" where
  "or_empty v = (case v of None \<Rightarrow> '''' | Some s \<Rightarrow> s)"

definition read_te2 :: "('j, 'x) jid_ops_scheme \<Rightarrow> relay_keys \<Rightarrow> 'j node \<Rightarrow> RelayEndpoint list" where
  "read_te2 J k rc =
     (if Tag rc \<noteq> ''te2'' then []
      else
        (case NodeBytes (Some rc) of
           None \<Rightarrow> []
         | Some addrBytes \<Rightarrow>
             if length addrBytes < 6 then []
             else
               let tokenID = attrStringOr J (Attrs rc) ''token_id'' ''0'';
                   authTokenID = AttrString J (Attrs rc) ''auth_token_id'';
                   ep = RelayEndpoint_zero\<lparr>ep_Token := or_empty (rk_tokens k tokenID),
                     ep_RawToken := rk_rawTokens k tokenID, ep_Key := rk_relayKey k,
                     ep_RelayID := AttrInt J (Attrs rc) ''relay_id'' 0,
                     ep_Protocol := AttrInt J (Attrs rc) ''protocol'' 0,
                     ep_RelayName := AttrString J (Attrs rc) ''relay_name'', ep_AddressBytes := addrBytes\<rparr>;
                   ep1 = (if authTokenID \<noteq> '''' then
                       ep\<lparr>ep_AuthToken := or_empty (rk_authTokens k authTokenID),
                          ep_RawAuthToken := rk_rawAuthTokens k authTokenID, ep_AuthTokenID := authTokenID\<rparr>
                     else ep\<lparr>ep_AuthTokenID := tokenID\<rparr>);
                   ep2 = (if HasAttr J (Attrs rc) ''c2r_rtt''
                     then ep1\<lparr>ep_C2RRtt := Some (AttrInt J (Attrs rc) ''c2r_rtt'' 0)\<rparr> else ep1)
               in if length addrBytes = 6
                  then [ep2\<lparr>ep_IP := ipv4String (take 4 addrBytes),
                            ep_Port := push_bit 8 (uint (addrBytes ! 4)) OR uint (addrBytes ! 5)\<rparr>]
                  else []))"

definition read_relay :: "('j, 'x) jid_ops_scheme \<Rightarrow> ParsedRelayAck \<Rightarrow> 'j node \<Rightarrow> ParsedRelayAck" where
  "read_relay J res child =
     (let res1 = res\<lparr>pa_UUID := AttrString J (Attrs child) ''uuid''\<rparr>;
          res2 = (if HasAttr J (Attrs child) ''self_pid''
            then res1\<lparr>pa_SelfPid := Some (AttrInt J (Attrs child) ''self_pid'' 0)\<rparr> else res1);
          res3 = (if HasAttr J (Attrs child) ''peer_pid''
            then res2\<lparr>pa_PeerPid := Some (AttrInt J (Attrs child) ''peer_pid'' 0)\<rparr> else res2);
          relayContent = NodeChildren (Some child);
          res4 = foldl (\<lambda>r rc. if Tag rc = ''participant'' \<and> HasAttr J (Attrs rc) ''jid''
            then addParticipant (AttrString J (Attrs rc) ''jid'') r else r) res3 relayContent;
          (k, res5) = foldl (read_relay_key J) (\<lparr>rk_relayKey = '''', rk_tokens = Map.empty,
            rk_authTokens = Map.empty, rk_rawTokens = Map.empty, rk_rawAuthTokens = Map.empty\<rparr>, res4) relayContent
      in res5\<lparr>pa_Relays := pa_Relays res5 @ concat (map (read_te2 J k) relayContent)\<rparr>)"

definition read_ack_child :: "('j, 'x) jid_ops_scheme \<Rightarrow> ParsedRelayAck \<Rightarrow> 'j node \<Rightarrow> ParsedRelayAck" where
  "read_ack_child J res child =
     (let res1 =
        (if Tag child = ''user'' then
           foldl (\<lambda>r d. if Tag d = ''device'' \<and> HasAttr J (Attrs d) ''jid''
             then addParticipant (AttrString J (Attrs d) ''jid'') r else r) res (NodeChildren (Some child))
         else res)
      in if Tag child \<noteq> ''relay'' then res1 else read_relay J res1 child)"

definition ParseRelayFromAck :: "('j, 'x) jid_ops_scheme \<Rightarrow> 'j node option \<Rightarrow> ParsedRelayAck" where
  "ParseRelayFromAck J ackNode =
     (let res = foldl (read_ack_child J) ParsedRelayAck_zero (NodeChildren ackNode)
      in res\<lparr>pa_Relays := sortRelaysByRtt (pa_Relays res)\<rparr>)"

section \<open>callkey.go\<close>

definition NeedsDecryption :: "string \<Rightarrow> bool" where
  "NeedsDecryption tag \<longleftrightarrow> tag \<in> {''preaccept'', ''accept''}"

text \<open>\<open>b\<close> are the 16 random bytes.\<close>

definition GenerateCallID :: "bytes \<Rightarrow> string" where
  "GenerateCallID b = map upper_char (hex_of b)"

definition GenerateCallStanzaID :: "bytes \<Rightarrow> string" where
  "GenerateCallStanzaID b = map upper_char (hex_of b)"

definition padRandomMax16 :: "u8 \<Rightarrow> bytes \<Rightarrow> bytes" where
  "padRandomMax16 r msg =
     (let padLen = unat (r AND 0x0f) + 1 in msg @ replicate padLen (of_nat padLen))"

definition unpadRandomMax16 :: "bytes \<Rightarrow> string + bytes" where
  "unpadRandomMax16 b =
     (if length b = 0 then Inl ''unpad given empty bytes''
      else
        let pad = unat (b ! (length b - 1))
        in if length b < pad
           then Inl (''unpad given '' @ itoa (int (length b)) @ '' bytes, but pad is '' @ itoa (int pad))
           else Inr (take (length b - pad) b))"

definition DecryptCallKeyInNode ::
    "('j, 'x) jid_ops_scheme \<Rightarrow> ('j, 'y) VoipSocket_scheme \<Rightarrow> 'j node option \<Rightarrow> 'j \<Rightarrow> string + bytes option" where
  "DecryptCallKeyInNode J sock inner peerJid =
     (case findEncNode J inner of
        None \<Rightarrow> Inr None
      | Some encNode \<Rightarrow> DecryptCallKey sock peerJid encNode)"

text \<open>The protobuf decoder is a parameter: it gives the call key field of a message, empty when absent.\<close>

definition DecodeCallKeyPlaintext :: "(bytes \<Rightarrow> string + bytes) \<Rightarrow> bytes \<Rightarrow> string + bytes" where
  "DecodeCallKeyPlaintext unmarshal plaintext =
     (case unmarshal plaintext of
        Inl e \<Rightarrow> Inl e
      | Inr key \<Rightarrow>
          if length key \<noteq> 32
          then Inl (''invalid callKey: expected 32 bytes, got '' @ itoa (int (length key)))
          else Inr key)"


section \<open>Stable sorting\<close>

text \<open>
  The contract of \<^verbatim>\<open>sort.SliceStable\<close>: given a strict weak order, the result is an ordered permutation in
  which elements that compare equal keep their order.
\<close>

locale strict_weak_order =
  fixes lt :: "'a \<Rightarrow> 'a \<Rightarrow> bool"
  assumes lt_asym: "lt x y \<Longrightarrow> \<not> lt y x"
    and lt_negtrans: "\<not> lt x y \<Longrightarrow> \<not> lt y z \<Longrightarrow> \<not> lt x z"
begin

lemma mset_insert: "mset (insert_stable lt x ys) = mset (x # ys)"
  by (induction ys) auto

lemma mset_sort: "mset (slice_stable lt xs) = mset xs"
  by (induction xs) (simp_all add: slice_stable_def mset_insert)

lemma set_insert [simp]: "set (insert_stable lt x ys) = insert x (set ys)"
  by (induction ys) auto

lemma set_sort: "set (slice_stable lt xs) = set xs"
  by (metis mset_sort set_mset_mset)

lemma sorted_insert:
  "sorted_wrt (\<lambda>a b. \<not> lt b a) ys \<Longrightarrow> sorted_wrt (\<lambda>a b. \<not> lt b a) (insert_stable lt x ys)"
proof (induction ys)
  case (Cons y ys)
  show ?case
  proof (cases "lt y x")
    case True
    then have "\<not> lt x y" by (rule lt_asym)
    with True Cons show ?thesis by simp
  next
    case False
    then have "\<not> lt z x" if "z \<in> set ys" for z
      using Cons.prems that lt_negtrans [of z y x] by simp
    with False Cons.prems show ?thesis by simp
  qed
qed simp

lemma sorted_sort: "sorted_wrt (\<lambda>a b. \<not> lt b a) (slice_stable lt xs)"
  by (induction xs) (simp_all add: slice_stable_def sorted_insert)

lemma insert_equal:
  "filter (\<lambda>y. \<not> lt c y \<and> \<not> lt y c) (insert_stable lt x ys) = filter (\<lambda>y. \<not> lt c y \<and> \<not> lt y c) (x # ys)"
proof (induction ys)
  case (Cons y ys)
  have "\<not> lt y x" if "\<not> lt y c" "\<not> lt c x" using that by (rule lt_negtrans)
  with Cons show ?case by auto
qed simp

lemma stable_sort:
  "filter (\<lambda>y. \<not> lt c y \<and> \<not> lt y c) (slice_stable lt xs) = filter (\<lambda>y. \<not> lt c y \<and> \<not> lt y c) xs"
proof (induction xs)
  case (Cons x xs)
  then show ?case using insert_equal [of c x "slice_stable lt xs"] by (simp add: slice_stable_def)
qed (simp add: slice_stable_def)

end

interpretation rtt: strict_weak_order rtt_less
  by unfold_locales (auto simp: rtt_less_def split: option.splits)

text \<open>
  Relays are tried in the right order: whatever form they came in, the list is ordered by
  measured round trip, the relays without a measurement last, and relays that tie stay in the order of the node.
\<close>

theorem relays_in_rtt_order:
  "sorted_wrt (\<lambda>a b. \<not> rtt_less b a) (sortRelaysByRtt rs)
   \<and> mset (sortRelaysByRtt rs) = mset rs
   \<and> filter (\<lambda>r. ep_C2RRtt r = t) (sortRelaysByRtt rs) = filter (\<lambda>r. ep_C2RRtt r = t) rs
   \<and> sorted_wrt (\<lambda>a b. \<not> rtt_less b a) (ExtractRelayEndpoints J n)
   \<and> sorted_wrt (\<lambda>a b. \<not> rtt_less b a) (pa_Relays (ParseRelayFromAck J n))"
proof -
  have "(\<not> rtt_less (RelayEndpoint_zero\<lparr>ep_C2RRtt := t\<rparr>) y \<and> \<not> rtt_less y (RelayEndpoint_zero\<lparr>ep_C2RRtt := t\<rparr>))
      \<longleftrightarrow> ep_C2RRtt y = t" for y
    by (cases t; cases "ep_C2RRtt y") (auto simp: rtt_less_def)
  then have "filter (\<lambda>r. ep_C2RRtt r = t) (slice_stable rtt_less rs) = filter (\<lambda>r. ep_C2RRtt r = t) rs"
    using rtt.stable_sort [of "RelayEndpoint_zero\<lparr>ep_C2RRtt := t\<rparr>" rs] by simp
  then show ?thesis
    by (simp add: sortRelaysByRtt_def rtt.sorted_sort rtt.mset_sort ExtractRelayEndpoints_def
        ParseRelayFromAck_def Let_def)
qed

section \<open>Acknowledgements\<close>

definition ack_wf :: "ParsedRelayAck \<Rightarrow> bool" where
  "ack_wf res \<longleftrightarrow> distinct (pa_ParticipantJids res) \<and> '''' \<notin> set (pa_ParticipantJids res)
     \<and> list_all (\<lambda>ep. length (ep_AddressBytes ep) = 6 \<and> ep_IP ep = ipv4String (take 4 (ep_AddressBytes ep))
          \<and> 0 \<le> ep_Port ep \<and> ep_Port ep < 65536) (pa_Relays res)
     \<and> (case pa_HbhKey res of None \<Rightarrow> True | Some k \<Rightarrow> length k = 30)"

lemma ack_wf_participant: "ack_wf res \<Longrightarrow> ack_wf (addParticipant j res)"
  by (auto simp: ack_wf_def addParticipant_def)

lemma foldl_wf: "(\<And>r x. P r \<Longrightarrow> P (f r x)) \<Longrightarrow> P r \<Longrightarrow> P (foldl f r xs)"
  by (induction xs arbitrary: r) auto

lemma hbh_key_length: "read_hbh_key b old = Some k \<Longrightarrow> old = Some k \<or> length k = 30"
  by (auto simp: read_hbh_key_def split: if_splits option.splits)

lemma ack_wf_relay_key: "ack_wf (snd s) \<Longrightarrow> ack_wf (snd (read_relay_key J s rc))"
proof (cases s)
  case (Pair k res)
  assume wf: "ack_wf (snd s)"
  have key: "ack_wf (res\<lparr>pa_HbhKey := read_hbh_key b (pa_HbhKey res)\<rparr>)" for b
    using wf Pair hbh_key_length [of b "pa_HbhKey res"]
    by (cases "read_hbh_key b (pa_HbhKey res)") (auto simp: ack_wf_def)
  have "snd (read_relay_key J s rc) = res
      \<or> (\<exists>b. snd (read_relay_key J s rc) = res\<lparr>pa_HbhKey := read_hbh_key b (pa_HbhKey res)\<rparr>)"
    by (cases "NodeBytes (Some rc)") (auto simp: read_relay_key_def Pair Let_def)
  with wf key Pair show ?thesis by auto
qed

lemma port_range: "0 \<le> (push_bit 8 (uint (a :: u8)) OR uint (b :: u8)) \<and> (push_bit 8 (uint a) OR uint b) < 65536"
proof -
  have "push_bit 8 (uint a) OR uint b = push_bit 8 (uint a) + uint b"
    by (rule disjunctive_add [symmetric]) (auto simp: bit_simps dest: bit_imp_le_length)
  moreover have "0 \<le> uint a" "uint a < 256" "0 \<le> uint b" "uint b < 256"
    using uint_bounded [of a] uint_bounded [of b] by simp_all
  ultimately show ?thesis by (simp add: push_bit_eq_mult)
qed

lemma read_te2_wf:
  "list_all (\<lambda>ep. length (ep_AddressBytes ep) = 6 \<and> ep_IP ep = ipv4String (take 4 (ep_AddressBytes ep))
      \<and> 0 \<le> ep_Port ep \<and> ep_Port ep < 65536) (read_te2 J k rc)"
  using port_range by (auto simp: read_te2_def Let_def split: option.splits)

lemma list_all_concat_map: "(\<And>x. list_all P (f x)) \<Longrightarrow> list_all P (concat (map f xs))"
  by (induction xs) auto

lemma ack_wf_relay: "ack_wf res \<Longrightarrow> ack_wf (read_relay J res child)"
proof -
  assume wf: "ack_wf res"
  define r3 where "r3 = (let r1 = res\<lparr>pa_UUID := AttrString J (Attrs child) ''uuid''\<rparr>;
      r2 = (if HasAttr J (Attrs child) ''self_pid''
        then r1\<lparr>pa_SelfPid := Some (AttrInt J (Attrs child) ''self_pid'' 0)\<rparr> else r1)
    in (if HasAttr J (Attrs child) ''peer_pid''
        then r2\<lparr>pa_PeerPid := Some (AttrInt J (Attrs child) ''peer_pid'' 0)\<rparr> else r2))"
  define r4 where "r4 = foldl (\<lambda>r rc. if Tag rc = ''participant'' \<and> HasAttr J (Attrs rc) ''jid''
      then addParticipant (AttrString J (Attrs rc) ''jid'') r else r) r3 (NodeChildren (Some child))"
  define s where "s = foldl (read_relay_key J) (\<lparr>rk_relayKey = '''', rk_tokens = Map.empty,
      rk_authTokens = Map.empty, rk_rawTokens = Map.empty, rk_rawAuthTokens = Map.empty\<rparr>, r4)
      (NodeChildren (Some child))"
  have "ack_wf r3" using wf by (simp add: r3_def ack_wf_def Let_def)
  then have "ack_wf r4" unfolding r4_def by (rule foldl_wf [rotated]) (auto intro: ack_wf_participant)
  moreover have "ack_wf (snd (foldl (read_relay_key J) (k, r4) ns))" if "ack_wf r4" for k ns
    using that by (induction ns rule: rev_induct) (simp_all add: ack_wf_relay_key)
  ultimately have "ack_wf (snd s)" unfolding s_def by blast
  moreover have "read_relay J res child = (snd s)\<lparr>pa_Relays := pa_Relays (snd s)
      @ concat (map (read_te2 J (fst s)) (NodeChildren (Some child)))\<rparr>"
    by (simp add: read_relay_def Let_def r3_def r4_def s_def split: prod.splits)
  moreover have "list_all (\<lambda>ep. length (ep_AddressBytes ep) = 6 \<and> ep_IP ep = ipv4String (take 4 (ep_AddressBytes ep))
      \<and> 0 \<le> ep_Port ep \<and> ep_Port ep < 65536)
      (concat (map (read_te2 J (fst s)) (NodeChildren (Some child))))"
    by (rule list_all_concat_map) (rule read_te2_wf)
  ultimately show ?thesis by (simp add: ack_wf_def)
qed

lemma ack_wf_child: "ack_wf res \<Longrightarrow> ack_wf (read_ack_child J res child)"
proof -
  assume "ack_wf res"
  then have "ack_wf (foldl (\<lambda>r d. if Tag d = ''device'' \<and> HasAttr J (Attrs d) ''jid''
      then addParticipant (AttrString J (Attrs d) ''jid'') r else r) res ns)" for ns
    by (rule foldl_wf [rotated]) (auto intro: ack_wf_participant)
  with \<open>ack_wf res\<close> show ?thesis by (auto simp: read_ack_child_def Let_def intro: ack_wf_relay)
qed

text \<open>
  Property C38. Whatever node the server sends, the parsed acknowledgement is well formed: no participant
  twice and none empty, each relay's address and port are those of its six address bytes, the port fits 16 bits,
  and a hop-by-hop key, if any, has its 30 bytes.
\<close>

theorem parsed_ack_wf: "ack_wf (ParseRelayFromAck J n)"
proof -
  have "ack_wf (foldl (read_ack_child J) ParsedRelayAck_zero (NodeChildren n))"
    by (rule foldl_wf) (simp_all add: ack_wf_child, simp add: ack_wf_def ParsedRelayAck_zero_def)
  then show ?thesis
    by (simp add: ParseRelayFromAck_def Let_def ack_wf_def list_all_iff sortRelaysByRtt_def rtt.set_sort)
qed


section \<open>Base64 and call keys\<close>

lemma b64_char_code: "n < 64 \<Longrightarrow> (of_char (b64_char n) :: nat) =
    (if n < 26 then 65 + n else if n < 52 then 71 + n else if n < 62 then n - 4 else if n = 62 then 43 else 47)"
  by (auto simp: b64_char_def of_char_of)

lemma b64_val_char: "n < 64 \<Longrightarrow> b64_val (b64_char n) = Some n"
  unfolding b64_val_def Let_def by (auto simp: b64_char_code)

lemma b64_char_plain:
  assumes "n < 64"
  shows "b64_char n \<noteq> CHR ''=''" "(of_char (b64_char n) :: nat) \<noteq> 10" "(of_char (b64_char n) :: nat) \<noteq> 13"
proof -
  have code: "(of_char (b64_char n) :: nat) \<noteq> 61 \<and> (of_char (b64_char n) :: nat) \<noteq> 10
      \<and> (of_char (b64_char n) :: nat) \<noteq> 13"
    unfolding b64_char_code [OF assms] by auto
  then show "(of_char (b64_char n) :: nat) \<noteq> 10" "(of_char (b64_char n) :: nat) \<noteq> 13" by simp_all
  show "b64_char n \<noteq> CHR ''=''"
  proof
    assume "b64_char n = CHR ''=''"
    then have "(of_char (b64_char n) :: nat) = 61" by simp
    with code show False by simp
  qed
qed

lemma unat_u8: "unat (w :: u8) < 256"
proof -
  have "unat w < 2 ^ LENGTH(8)" by (rule unsigned_less)
  then show ?thesis by simp
qed

lemma of_nat_unat_u8: "n = unat (w :: u8) \<Longrightarrow> of_nat n = w"
  by simp

lemma b64_pieces:
  fixes a b c :: nat
  assumes "a < 256" "b < 256" "c < 256"
  shows "a div 4 < 64" "a mod 4 * 16 + b div 16 < 64" "b mod 16 * 4 + c div 64 < 64" "c mod 64 < 64"
    "a mod 4 * 16 < 64" "b mod 16 * 4 < 64"
    "(a mod 4 * 16 + b div 16) div 16 = a mod 4" "(a mod 4 * 16) div 16 = a mod 4"
    "(a mod 4 * 16 + b div 16) mod 16 = b div 16"
    "(b mod 16 * 4 + c div 64) div 4 = b mod 16" "(b mod 16 * 4) div 4 = b mod 16"
    "(b mod 16 * 4 + c div 64) mod 4 = c div 64"
proof -
  have b: "b div 16 < 16" and c: "c div 64 < 4" using assms by simp_all
  have "a mod 4 < 4" "b mod 16 < 16" by simp_all
  with b c show "a mod 4 * 16 + b div 16 < 64" "b mod 16 * 4 + c div 64 < 64"
    "a mod 4 * 16 < 64" "b mod 16 * 4 < 64" by linarith+
  from b show "(a mod 4 * 16 + b div 16) div 16 = a mod 4" "(a mod 4 * 16 + b div 16) mod 16 = b div 16"
    by simp_all
  from c show "(b mod 16 * 4 + c div 64) div 4 = b mod 16" "(b mod 16 * 4 + c div 64) mod 4 = c div 64"
    by simp_all
qed (use assms in simp_all)

lemma b64_quads_encode: "b64_quads (b64_encode bs) = Some bs"
proof (induction bs rule: b64_encode.induct)
  case (2 a)
  show ?case
    using b64_pieces [OF unat_u8 [of a] unat_u8 unat_u8] by (simp add: b64_val_char)
next
  case (3 a b)
  show ?case
    using b64_pieces [OF unat_u8 [of a] unat_u8 [of b] unat_u8] by (simp add: b64_val_char b64_char_plain)
next
  case (4 a b c rest)
  then show ?case
    using b64_pieces [OF unat_u8 [of a] unat_u8 [of b] unat_u8 [of c]]
    by (simp add: b64_val_char b64_char_plain)
qed simp

lemma b64_encode_plain:
  "list_all (\<lambda>c. (of_char c :: nat) \<noteq> 10 \<and> (of_char c :: nat) \<noteq> 13) (b64_encode bs)"
proof (induction bs rule: b64_encode.induct)
  case (2 a)
  show ?case using b64_pieces [OF unat_u8 [of a] unat_u8 unat_u8] by (simp add: b64_char_plain)
next
  case (3 a b)
  show ?case using b64_pieces [OF unat_u8 [of a] unat_u8 [of b] unat_u8] by (simp add: b64_char_plain)
next
  case (4 a b c rest)
  then show ?case
    using b64_pieces [OF unat_u8 [of a] unat_u8 [of b] unat_u8 [of c]] by (simp add: b64_char_plain)
qed simp

lemma b64_decode_encode: "b64_decode (b64_encode bs) = Some bs"
proof -
  have "filter P xs = xs" if "list_all P xs" for P and xs :: string
    using that by (induction xs) auto
  from this [OF b64_encode_plain] show ?thesis by (simp add: b64_decode_def b64_quads_encode)
qed

lemma length_b64_encode: "length (b64_encode bs) = 4 * ((length bs + 2) div 3)"
proof (induction bs rule: b64_encode.induct)
  case (4 a b c rest)
  have "(length (a # b # c # rest) + 2) div 3 = Suc ((length rest + 2) div 3)" by simp
  with 4 show ?case by simp
qed simp_all

lemma unat_of_nat_u8: "n < 256 \<Longrightarrow> unat (of_nat n :: u8) = n"
  by (simp add: unat_of_nat take_bit_nat_eq_self)

lemma str_of_bytes_of: "str_of (bytes_of s) = s"
proof -
  have "char_of (unat (of_char c :: u8)) = c" for c :: char
  proof -
    have "unat (of_nat (of_char c :: nat) :: u8) = of_char c"
      by (rule unat_of_nat_u8) simp
    then show ?thesis unfolding of_nat_of_char by simp
  qed
  then show ?thesis by (simp add: str_of_def bytes_of_def comp_def map_idI)
qed

text \<open>
  The hop-by-hop key is recovered from either of the two forms it arrives in: the 30 raw
  bytes, or their base64 text; and base64 as written by this program always decodes to what was encoded.
\<close>

theorem hbh_key_both_forms:
  assumes "length k = 30"
  shows "read_hbh_key k old = Some k \<and> read_hbh_key (bytes_of (b64_encode k)) old = Some k
     \<and> b64_decode (b64_encode bs) = Some bs"
  using assms by (simp add: read_hbh_key_def length_b64_encode str_of_bytes_of b64_decode_encode)

theorem hbh_key_both_forms_witness:
  "read_hbh_key (bytes_of (b64_encode (replicate 30 7))) None = Some (replicate 30 7)"
  using hbh_key_both_forms [of "replicate 30 7" None "[]"] by simp

section \<open>Identifiers and padding\<close>

lemma upper_hex_inject:
  assumes "a < 16" "b < 16" "upper_char (hex_digit a) = upper_char (hex_digit b)"
  shows "a = b"
proof -
  have code: "(of_char (upper_char (hex_digit d)) :: nat) = (if d < 10 then 48 + d else 55 + d)" if "d < 16" for d
    using hex_digit_code [OF that] that by (simp add: upper_char_def of_char_of)
  have "(if a < 10 then 48 + a else 55 + a) = (if b < 10 then 48 + b else 55 + b)"
    unfolding code [OF assms(1), symmetric] code [OF assms(2), symmetric] assms(3) ..
  then show ?thesis by (simp split: if_splits)
qed

lemma upper_hex_of_inject: "map upper_char (hex_of a) = map upper_char (hex_of b) \<Longrightarrow> a = b"
proof (induction a arbitrary: b)
  case Nil
  then show ?case by (cases b) (auto simp: hex_of_def)
next
  case (Cons x xs)
  then obtain y ys where b: "b = y # ys" by (cases b) (auto simp: hex_of_def)
  from Cons.prems b have hi: "upper_char (hex_digit (unat x div 16)) = upper_char (hex_digit (unat y div 16))"
    and lo: "upper_char (hex_digit (unat x mod 16)) = upper_char (hex_digit (unat y mod 16))"
    and rest: "map upper_char (hex_of xs) = map upper_char (hex_of ys)"
    by (simp_all add: hex_of_def)
  have d: "unat x div 16 < 16" "unat y div 16 < 16" using unat_u8 [of x] unat_u8 [of y] by linarith+
  have "unat x div 16 = unat y div 16" by (rule upper_hex_inject [OF d hi])
  moreover have "unat x mod 16 = unat y mod 16" by (rule upper_hex_inject [OF _ _ lo]) simp_all
  ultimately have "unat x = unat y" by (metis div_mult_mod_eq)
  then have "x = y" by (simp add: word_unat_eq_iff)
  with b rest Cons.IH show ?case by simp
qed

lemma unpad_replicate:
  assumes "0 < p" "p < 256"
  shows "unpadRandomMax16 (msg @ replicate p (of_nat p)) = Inr msg"
proof -
  have "(msg @ replicate p (of_nat p)) ! (length msg + p - 1) = (of_nat p :: u8)"
    using assms(1) by (cases p) (simp_all add: nth_append nth_Cons')
  moreover have "unat (of_nat p :: u8) = p" using assms(2) by (rule unat_of_nat_u8)
  ultimately show ?thesis using assms(1) by (simp add: unpadRandomMax16_def Let_def)
qed

text \<open>
  A generated call id has 32 characters and no two draws of the 16 random bytes give the
  same id; the padding of the call key message is always undone by the unpadding, whatever was drawn.
\<close>

theorem call_id_and_padding:
  "(length rnd = 16 \<longrightarrow> length (GenerateCallID rnd) = 32)
   \<and> (GenerateCallID rnd = GenerateCallID rnd' \<longleftrightarrow> rnd = rnd')
   \<and> unpadRandomMax16 (padRandomMax16 r msg) = Inr msg"
proof -
  have "unat (r AND 0x0f) < 16"
  proof -
    have "r AND 0x0f = take_bit 4 r" by (simp add: take_bit_eq_mask mask_eq_exp_minus_1)
    then have "unat (r AND 0x0f) = unat r mod 16" by (simp add: take_bit_eq_mod unat_mod)
    then show ?thesis by simp
  qed
  then have "unpadRandomMax16 (padRandomMax16 r msg) = Inr msg"
    unfolding padRandomMax16_def Let_def by (intro unpad_replicate) simp_all
  then show ?thesis
    by (auto simp: GenerateCallID_def length_hex_of dest: upper_hex_of_inject)
qed

theorem call_id_and_padding_witness:
  "length (GenerateCallID (replicate 16 10)) = 32
   \<and> unpadRandomMax16 (padRandomMax16 0x7e [1, 2, 3]) = Inr [1, 2, 3]"
  using call_id_and_padding [of "replicate 16 10"] by simp

end
