(* ===== verification/SignalingBuild.thy ===== *)
theory SignalingBuild
  imports Signaling
begin

text \<open>
  The stanzas the program sends (\<^verbatim>\<open>internal/voip/signaling/signaling_build.go\<close>). Each builder draws a
  fresh stanza id; its 16 random bytes are the argument \<open>rnd\<close>.
\<close>

definition capabilityOffer :: bytes where
  "capabilityOffer = [0x01, 0x05, 0xf7, 0x09, 0xe4, 0xbb, 0x13]"

definition capabilityPreaccept :: bytes where
  "capabilityPreaccept = [0x01, 0x05, 0xf7, 0x09, 0xe4, 0xbb, 0x07]"

definition leaf :: "string \<Rightarrow> (string \<times> string) list \<Rightarrow> 'j node" where
  "leaf t as = Node t (map (\<lambda>(k, v). (k, AString v)) as) NoContent"

definition callWrap :: "bytes \<Rightarrow> 'j \<Rightarrow> 'j node \<Rightarrow> 'j node" where
  "callWrap rnd jid inner =
     Node ''call'' [(''to'', AJid jid), (''id'', AString (GenerateCallStanzaID rnd))] (Nodes [inner])"

definition creator_of :: "('j, 'x) jid_ops_scheme \<Rightarrow> ('j, 'y) VoipSocket_scheme \<Rightarrow> 'j" where
  "creator_of J sock = (if jid_IsEmpty J (OwnLID sock) then OwnPN sock else OwnLID sock)"

definition bare_jid :: "('j, 'x) jid_ops_scheme \<Rightarrow> 'j \<Rightarrow> 'j" where
  "bare_jid J jid = MustJID J (CleanJID (jid_String J jid))"

definition offer_content ::
    "('j, 'x) jid_ops_scheme \<Rightarrow> ('j, 'y) VoipSocket_scheme \<Rightarrow> 'j \<Rightarrow> bool \<Rightarrow> 'j node list \<Rightarrow> bool \<Rightarrow> 'j node list" where
  "offer_content J sock peerJid isVideo destinations includeDeviceIdentity =
     (case GetTCToken sock (bare_jid J peerJid) of
        Inr token \<Rightarrow> if 0 < length token then [Node ''privacy'' [] (Bytes token)] else []
      | Inl _ \<Rightarrow> [])
     @ [leaf ''audio'' [(''enc'', ''opus''), (''rate'', ''8000'')],
        leaf ''audio'' [(''enc'', ''opus''), (''rate'', ''16000'')]]
     @ (if isVideo then
          [leaf ''video'' [(''enc'', ''vp8''), (''dec'', ''vp8''), (''orientation'', ''0''),
             (''screen_width'', ''1920''), (''screen_height'', ''1080''), (''device_orientation'', ''0'')]]
        else [])
     @ [leaf ''net'' [(''medium'', ''3'')],
        Node ''capability'' [(''ver'', AString ''1'')] (Bytes capabilityOffer),
        Node ''destination'' [] (Nodes destinations),
        leaf ''encopt'' [(''keygen'', ''2'')]]
     @ (if includeDeviceIdentity then
          (case AccountDeviceIdentityNode sock of Some di \<Rightarrow> [di] | None \<Rightarrow> [])
        else [])"

definition BuildOfferStanza ::
    "('j, 'x) jid_ops_scheme \<Rightarrow> bytes \<Rightarrow> ('j, 'y) VoipSocket_scheme \<Rightarrow> string \<Rightarrow> bytes \<Rightarrow> 'j \<Rightarrow> bool
     \<Rightarrow> string + 'j node" where
  "BuildOfferStanza J rnd sock callID callKey peerJid isVideo =
     (let creator = creator_of J sock in
      case GetUSyncDevices sock [peerJid] of
        Inl err \<Rightarrow> Inl (''usync devices: '' @ err)
      | Inr rawDevices \<Rightarrow>
          (case AssertSessions sock rawDevices False of
             Some err \<Rightarrow> Inl (''assert sessions: '' @ err)
           | None \<Rightarrow>
               (case CreateParticipantNodes sock rawDevices callKey [(''count'', AString ''0'')] of
                  Inl err \<Rightarrow> Inl (''participant nodes: '' @ err)
                | Inr (destinations, includeDeviceIdentity) \<Rightarrow>
                    Inr (Node ''call''
                      [(''to'', AJid peerJid), (''id'', AString (GenerateCallStanzaID rnd))]
                      (Nodes [Node ''offer'' [(''call-id'', AString callID), (''call-creator'', AJid creator)]
                        (Nodes (offer_content J sock peerJid isVideo destinations includeDeviceIdentity))])))))"

fun extractEncFromParticipant :: "'j node list \<Rightarrow> 'j node option" where
  "extractEncFromParticipant [] = None"
| "extractEncFromParticipant (n # nodes) =
     (if Tag n = ''enc'' then Some n
      else (case find (\<lambda>c. Tag c = ''enc'') (NodeChildren (Some n)) of
              Some c \<Rightarrow> Some c
            | None \<Rightarrow> extractEncFromParticipant nodes))"

definition BuildAcceptStanza ::
    "('j, 'x) jid_ops_scheme \<Rightarrow> bytes \<Rightarrow> ('j, 'y) VoipSocket_scheme \<Rightarrow> string \<Rightarrow> bytes \<Rightarrow> 'j \<Rightarrow> 'j \<Rightarrow> bool
     \<Rightarrow> string + 'j node" where
  "BuildAcceptStanza J rnd sock callID callKey peerJid callCreator isVideo =
     (case AssertSessions sock [callCreator] True of
        Some err \<Rightarrow> Inl (''assert creator session: '' @ err)
      | None \<Rightarrow>
          (case CreateParticipantNodes sock [callCreator] callKey [(''count'', AString ''0'')] of
             Inl err \<Rightarrow> Inl (''encrypt accept: '' @ err)
           | Inr (nodes, includeDeviceIdentity) \<Rightarrow>
               (case extractEncFromParticipant nodes of
                  None \<Rightarrow> Inl ''no enc node produced for accept''
                | Some encNode \<Rightarrow>
                    let acceptContent =
                      [leaf ''audio'' [(''enc'', ''opus''), (''rate'', ''16000'')],
                       leaf ''net'' [(''medium'', ''3'')], encNode, leaf ''encopt'' [(''keygen'', ''2'')]]
                      @ (if includeDeviceIdentity then
                           (case AccountDeviceIdentityNode sock of Some di \<Rightarrow> [di] | None \<Rightarrow> [])
                         else [])
                      @ (if isVideo then [leaf ''video'' [(''enc'', ''vp8'')]] else [])
                    in Inr (Node ''call''
                      [(''to'', AJid (bare_jid J peerJid)), (''id'', AString (GenerateCallStanzaID rnd))]
                      (Nodes [Node ''accept'' [(''call-id'', AString callID), (''call-creator'', AJid callCreator)]
                        (Nodes acceptContent)])))))"

definition BuildTerminateStanza :: "bytes \<Rightarrow> 'j \<Rightarrow> string \<Rightarrow> 'j \<Rightarrow> 'j node" where
  "BuildTerminateStanza rnd peerJid callID callCreator =
     callWrap rnd peerJid
       (Node ''terminate'' [(''call-id'', AString callID), (''call-creator'', AJid callCreator)] NoContent)"

definition BuildRejectStanza :: "bytes \<Rightarrow> 'j \<Rightarrow> string \<Rightarrow> 'j \<Rightarrow> 'j node" where
  "BuildRejectStanza rnd peerJid callID callCreator =
     callWrap rnd peerJid
       (Node ''reject'' [(''call-id'', AString callID), (''call-creator'', AJid callCreator)] NoContent)"

definition BuildPreacceptStanza :: "bytes \<Rightarrow> 'j \<Rightarrow> string \<Rightarrow> 'j \<Rightarrow> 'j node" where
  "BuildPreacceptStanza rnd peerJid callID callCreator =
     Node ''call'' [(''to'', AJid peerJid), (''id'', AString (GenerateCallStanzaID rnd))]
       (Nodes [Node ''preaccept'' [(''call-id'', AString callID), (''call-creator'', AJid callCreator)]
         (Nodes [leaf ''audio'' [(''enc'', ''opus''), (''rate'', ''16000'')],
                 leaf ''encopt'' [(''keygen'', ''2'')],
                 Node ''capability'' [(''ver'', AString ''1'')] (Bytes capabilityPreaccept)])])"

definition CreateCallAck :: "string \<Rightarrow> 'j \<Rightarrow> string \<Rightarrow> 'j node" where
  "CreateCallAck nodeID peerJid typ =
     Node ''ack'' [(''id'', AString nodeID), (''to'', AJid peerJid), (''class'', AString ''call''),
                   (''type'', AString typ)] NoContent"

record RelayLatencyEntry =
  le_RelayName :: string
  le_Latency :: int
  le_AddressBytes :: bytes

fun latency_nodes :: "string list \<Rightarrow> RelayLatencyEntry list \<Rightarrow> 'j node list" where
  "latency_nodes seen [] = []"
| "latency_nodes seen (r # relays) =
     (if le_RelayName r = '''' \<or> le_RelayName r \<in> set seen then latency_nodes seen relays
      else
        Node ''te''
          [(''latency'', AString (itoa (0x2000000 + le_Latency r))), (''relay_name'', AString (le_RelayName r))]
          (if 0 < length (le_AddressBytes r) then Bytes (le_AddressBytes r) else NoContent)
        # latency_nodes (le_RelayName r # seen) relays)"

definition BuildRelayLatencyStanza ::
    "('j, 'x) jid_ops_scheme \<Rightarrow> bytes \<Rightarrow> 'j \<Rightarrow> string \<Rightarrow> 'j \<Rightarrow> RelayLatencyEntry list \<Rightarrow> 'j list \<Rightarrow> 'j node" where
  "BuildRelayLatencyStanza J rnd peerJid callID callCreator relays destinationJids =
     (let content = latency_nodes [] relays
        @ (if 0 < length destinationJids
           then [Node ''destination'' [] (Nodes (map (\<lambda>jid. Node ''to'' [(''jid'', AJid jid)] NoContent) destinationJids))]
           else [])
      in callWrap rnd (bare_jid J peerJid)
           (Node ''relaylatency'' [(''call-id'', AString callID), (''call-creator'', AJid callCreator)] (Nodes content)))"

definition BuildTransportStanza ::
    "('j, 'x) jid_ops_scheme \<Rightarrow> bytes \<Rightarrow> 'j \<Rightarrow> string \<Rightarrow> 'j \<Rightarrow> 'j node" where
  "BuildTransportStanza J rnd peerJid callID callCreator =
     callWrap rnd (bare_jid J peerJid)
       (Node ''transport'' [(''call-id'', AString callID), (''call-creator'', AJid callCreator),
           (''transport-message-type'', AString ''0''), (''p2p-cand-round'', AString ''0'')]
         (Nodes [leaf ''net'' [(''medium'', ''2''), (''protocol'', ''0'')]]))"

definition BuildMuteV2Stanza :: "bytes \<Rightarrow> 'j \<Rightarrow> string \<Rightarrow> 'j \<Rightarrow> int \<Rightarrow> 'j node" where
  "BuildMuteV2Stanza rnd peerDeviceJid callID callCreator muteState =
     Node ''call'' [(''to'', AJid peerDeviceJid), (''id'', AString (GenerateCallStanzaID rnd))]
       (Nodes [Node ''mute_v2'' [(''call-id'', AString callID), (''call-creator'', AJid callCreator),
           (''mute-state'', AString (itoa muteState))] NoContent])"

definition BuildAcceptReceiptStanza :: "'j \<Rightarrow> string \<Rightarrow> string \<Rightarrow> 'j \<Rightarrow> 'j \<Rightarrow> 'j node" where
  "BuildAcceptReceiptStanza peerDeviceJid acceptMsgID callID callCreator ourJid =
     Node ''receipt'' [(''to'', AJid peerDeviceJid), (''id'', AString acceptMsgID), (''from'', AJid ourJid)]
       (Nodes [Node ''accept'' [(''call-id'', AString callID), (''call-creator'', AJid callCreator)] NoContent])"

section \<open>Reading back what is built\<close>

definition names_call :: "('j, 'x) jid_ops_scheme \<Rightarrow> string \<Rightarrow> string \<Rightarrow> 'j node \<Rightarrow> bool" where
  "names_call J tag callID n \<longleftrightarrow>
     map_option (\<lambda>i. (ni_Tag i, ni_CallID i)) (ExtractNodeInfo J (Some n)) = Some (tag, callID)"

lemma names_call_node:
  "names_call J tag callID (Node t a (Nodes (Node tag ((''call-id'', AString callID) # b) c # ns)))"
  by (simp add: names_call_def ExtractNodeInfo_def AttrString_def)

lemma BuildOfferStanza_cases:
  "case BuildOfferStanza J rnd sock callID key peer video of
     Inr n \<Rightarrow> names_call J ''offer'' callID n
   | Inl _ \<Rightarrow> (\<exists>e. GetUSyncDevices sock [peer] = Inl e)
       \<or> (\<exists>ds e. GetUSyncDevices sock [peer] = Inr ds \<and> (AssertSessions sock ds False = Some e
            \<or> CreateParticipantNodes sock ds key [(''count'', AString ''0'')] = Inl e))"
proof (cases "GetUSyncDevices sock [peer]")
  case (Inr ds)
  then show ?thesis
    by (cases "AssertSessions sock ds False"; cases "CreateParticipantNodes sock ds key [(''count'', AString ''0'')]")
      (auto simp: BuildOfferStanza_def names_call_node split: prod.splits)
qed (simp add: BuildOfferStanza_def Let_def)

lemma BuildAcceptStanza_cases:
  "case BuildAcceptStanza J rnd sock callID key peer creator video of
     Inr n \<Rightarrow> names_call J ''accept'' callID n
   | Inl _ \<Rightarrow> (\<exists>e. AssertSessions sock [creator] True = Some e)
       \<or> (\<exists>e. CreateParticipantNodes sock [creator] key [(''count'', AString ''0'')] = Inl e)
       \<or> (\<exists>ns b. CreateParticipantNodes sock [creator] key [(''count'', AString ''0'')] = Inr (ns, b)
            \<and> extractEncFromParticipant ns = None)"
proof (cases "AssertSessions sock [creator] True")
  case None
  then show ?thesis
    by (cases "CreateParticipantNodes sock [creator] key [(''count'', AString ''0'')]")
      (auto simp: BuildAcceptStanza_def names_call_node Let_def split: prod.splits option.splits)
qed (simp add: BuildAcceptStanza_def)


text \<open>
  The offer a phone rings on: whatever the socket answers, its children are, in order, the
  privacy token (under that tag, and only when there is one), the two audio formats, video when asked for, the
  network, the capability blob ending in 13, the destinations, the key generation, and the device identity.
\<close>

theorem offer_shape:
  "map Tag (offer_content J sock peer isVideo destinations identity) =
     (case GetTCToken sock (bare_jid J peer) of
        Inr token \<Rightarrow> if token = [] then [] else [''privacy''] | Inl _ \<Rightarrow> [])
     @ [''audio'', ''audio''] @ (if isVideo then [''video''] else [])
     @ [''net'', ''capability'', ''destination'', ''encopt'']
     @ (if identity then (case AccountDeviceIdentityNode sock of Some di \<Rightarrow> [Tag di] | None \<Rightarrow> []) else [])
   \<and> ''tctoken'' \<notin> set (map Tag (take 6 (offer_content J sock peer isVideo destinations identity)))
   \<and> Node ''capability'' [(''ver'', AString ''1'')] (Bytes capabilityOffer)
       \<in> set (offer_content J sock peer isVideo destinations identity)
   \<and> last capabilityOffer = 0x13 \<and> capabilityOffer ! 4 = 0xe4"
  by (cases "GetTCToken sock (bare_jid J peer)"; cases isVideo; cases identity; cases "AccountDeviceIdentityNode sock")
    (simp_all add: offer_content_def leaf_def capabilityOffer_def)

end
