(* ===== verification/Rtp.thy ===== *)
theory Rtp
  imports CoreTypes
begin

text \<open>
  RTP headers, packets and the packet numbering of a sending session
  (\<^verbatim>\<open>internal/voip/media/rtp.go\<close>). Encoding writes into a caller's buffer and may panic when the
  header lists more CSRCs than its count says; decoding a packet slices at \<open>Header.Size\<close>, which may
  lie behind the end of the buffer. Both are the \<open>Panic\<close> of the result type.
\<close>

definition rtpVersion :: u8 where "rtpVersion = 2"

definition rtpMinHeaderSize :: nat where "rtpMinHeaderSize = 12"

record RtpHeader =
  rh_Version :: u8
  rh_Padding :: bool
  rh_Extension :: bool
  rh_CsrcCount :: u8
  rh_Marker :: bool
  rh_PayloadType :: u8
  rh_SequenceNumber :: u16
  rh_Timestamp :: u32
  rh_Ssrc :: u32
  rh_Csrc :: "u32 list"
  rh_ExtensionProfile :: u16
  rh_ExtensionData :: bytes

definition NewRtpHeader :: "u8 \<Rightarrow> u16 \<Rightarrow> u32 \<Rightarrow> u32 \<Rightarrow> RtpHeader" where
  "NewRtpHeader payloadType seq ts ssrc =
     \<lparr>rh_Version = rtpVersion, rh_Padding = False, rh_Extension = False, rh_CsrcCount = 0,
      rh_Marker = False, rh_PayloadType = payloadType, rh_SequenceNumber = seq,
      rh_Timestamp = ts, rh_Ssrc = ssrc, rh_Csrc = [], rh_ExtensionProfile = 0,
      rh_ExtensionData = []\<rparr>"

definition RtpHeader_Size :: "RtpHeader \<Rightarrow> nat" where
  "RtpHeader_Size h =
     rtpMinHeaderSize + unat (rh_CsrcCount h) * 4
     + (if rh_Extension h then 4 + length (rh_ExtensionData h) else 0)"

definition boolBit :: "bool \<Rightarrow> u8" where
  "boolBit b = (if b then 1 else 0)"

definition rtp_byte0 :: "RtpHeader \<Rightarrow> u8" where
  "rtp_byte0 h = push_bit 6 (rh_Version h AND 0x03) OR push_bit 5 (boolBit (rh_Padding h))
     OR push_bit 4 (boolBit (rh_Extension h)) OR (rh_CsrcCount h AND 0x0f)"

definition rtp_byte1 :: "RtpHeader \<Rightarrow> u8" where
  "rtp_byte1 h = push_bit 7 (boolBit (rh_Marker h)) OR (rh_PayloadType h AND 0x7f)"

fun put_csrcs :: "u32 list \<Rightarrow> nat \<Rightarrow> bytes \<Rightarrow> (nat \<times> bytes) option" where
  "put_csrcs [] offset buf = Some (offset, buf)"
| "put_csrcs (c # cs) offset buf =
     (if length buf < offset + 4 then None
      else put_csrcs cs (offset + 4) (blit offset (put_u32be c) buf))"

definition RtpHeader_Encode :: "RtpHeader \<Rightarrow> bytes \<Rightarrow> (string, bytes \<times> nat) outcome" where
  "RtpHeader_Encode h buf =
     (if length buf < RtpHeader_Size h then Fail ''buffer too small for RTP header''
      else
        let buf1 = blit 0 ([rtp_byte0 h, rtp_byte1 h] @ put_u16be (rh_SequenceNumber h)
                     @ put_u32be (rh_Timestamp h) @ put_u32be (rh_Ssrc h)) buf
        in case put_csrcs (rh_Csrc h) 12 buf1 of
             None \<Rightarrow> Panic
           | Some (offset, buf2) \<Rightarrow>
               if rh_Extension h then
                 if length buf2 < offset + 4 then Panic
                 else
                   let buf3 = blit offset (put_u16be (rh_ExtensionProfile h)
                                @ put_u16be (of_nat (length (rh_ExtensionData h) div 4))) buf2
                   in Ret (blit (offset + 4) (rh_ExtensionData h) buf3, RtpHeader_Size h)
               else Ret (buf2, RtpHeader_Size h))"

fun read_csrcs :: "nat \<Rightarrow> nat \<Rightarrow> bytes \<Rightarrow> u32 list" where
  "read_csrcs 0 offset buf = []"
| "read_csrcs (Suc n) offset buf = get_u32be (drop offset buf) # read_csrcs n (offset + 4) buf"

definition DecodeRtpHeader :: "bytes \<Rightarrow> string + RtpHeader" where
  "DecodeRtpHeader buf =
     (if length buf < rtpMinHeaderSize then Inl ''buffer too small for RTP header''
      else
        let version = drop_bit 6 (buf ! 0) AND 0x03
        in if version \<noteq> rtpVersion then Inl ''invalid RTP version''
        else
          let count = buf ! 0 AND 0x0f;
              h = \<lparr>rh_Version = version, rh_Padding = (drop_bit 5 (buf ! 0) AND 0x01 \<noteq> 0),
                   rh_Extension = (drop_bit 4 (buf ! 0) AND 0x01 \<noteq> 0), rh_CsrcCount = count,
                   rh_Marker = (drop_bit 7 (buf ! 1) AND 0x01 \<noteq> 0),
                   rh_PayloadType = buf ! 1 AND 0x7f,
                   rh_SequenceNumber = get_u16be (drop 2 buf),
                   rh_Timestamp = get_u32be (drop 4 buf), rh_Ssrc = get_u32be (drop 8 buf),
                   rh_Csrc = [], rh_ExtensionProfile = 0, rh_ExtensionData = []\<rparr>;
              headerSize = rtpMinHeaderSize + unat count * 4
          in if length buf < headerSize then Inl ''buffer too small for CSRC list''
          else
            let h1 = h\<lparr>rh_Csrc := read_csrcs (unat count) 12 buf\<rparr>;
                offset = 12 + unat count * 4
            in if rh_Extension h1 \<and> offset + 4 \<le> length buf then
                 let extBytes = unat (get_u16be (drop (offset + 2) buf)) * 4;
                     h2 = h1\<lparr>rh_ExtensionProfile := get_u16be (drop offset buf)\<rparr>
                 in if offset + 4 + extBytes \<le> length buf
                    then Inr (h2\<lparr>rh_ExtensionData := slice (offset + 4) (offset + 4 + extBytes) buf\<rparr>)
                    else Inr h2
               else Inr h1)"

record RtpPacket =
  rp_Header :: RtpHeader
  rp_Payload :: bytes

definition RtpPacket_Size :: "RtpPacket \<Rightarrow> nat" where
  "RtpPacket_Size p = RtpHeader_Size (rp_Header p) + length (rp_Payload p)"

definition RtpPacket_Encode :: "RtpPacket \<Rightarrow> (string, bytes) outcome" where
  "RtpPacket_Encode p =
     (case RtpHeader_Encode (rp_Header p) (replicate (RtpPacket_Size p) 0) of
        Ret (buf, headerSize) \<Rightarrow> Ret (blit headerSize (rp_Payload p) buf)
      | Fail e \<Rightarrow> Fail e
      | Panic \<Rightarrow> Panic)"

definition DecodeRtpPacket :: "bytes \<Rightarrow> (string, RtpPacket) outcome" where
  "DecodeRtpPacket buf =
     (case DecodeRtpHeader buf of
        Inl e \<Rightarrow> Fail e
      | Inr header \<Rightarrow>
          if length buf < RtpHeader_Size header then Panic
          else Ret \<lparr>rp_Header = header, rp_Payload = drop (RtpHeader_Size header) buf\<rparr>)"

section \<open>The sending session\<close>

record RtpSession =
  rs_ssrc :: u32
  rs_payloadType :: u8
  rs_sequenceNumber :: u16
  rs_sampleRate :: int
  rs_timestamp :: u32
  rs_samplesPerPacket :: int

text \<open>The two random draws (below \<open>2 ^ 16\<close> and \<open>2 ^ 32\<close>) are arguments.\<close>

definition NewRtpSession :: "nat \<Rightarrow> nat \<Rightarrow> u32 \<Rightarrow> u8 \<Rightarrow> int \<Rightarrow> int \<Rightarrow> RtpSession" where
  "NewRtpSession rseq rts ssrc payloadType sampleRate samplesPerPacket =
     \<lparr>rs_ssrc = ssrc, rs_payloadType = payloadType, rs_sequenceNumber = of_nat rseq,
      rs_sampleRate = sampleRate, rs_timestamp = of_nat rts, rs_samplesPerPacket = samplesPerPacket\<rparr>"

definition NewWhatsAppOpusSession :: "nat \<Rightarrow> nat \<Rightarrow> u32 \<Rightarrow> RtpSession" where
  "NewWhatsAppOpusSession rseq rts ssrc =
     NewRtpSession rseq rts ssrc PayloadTypeWhatsAppOpus 16000 960"

definition CreatePacketWithDuration ::
    "RtpSession \<Rightarrow> bytes \<Rightarrow> int \<Rightarrow> bool \<Rightarrow> RtpPacket \<times> RtpSession" where
  "CreatePacketWithDuration s payload durationSamples marker =
     (let header = NewRtpHeader (rs_payloadType s) (rs_sequenceNumber s) (rs_timestamp s) (rs_ssrc s)
      in (\<lparr>rp_Header = header\<lparr>rh_Marker := marker\<rparr>, rp_Payload = payload\<rparr>,
          s\<lparr>rs_sequenceNumber := rs_sequenceNumber s + 1,
            rs_timestamp := rs_timestamp s + of_int durationSamples\<rparr>))"

definition CreatePacket :: "RtpSession \<Rightarrow> bytes \<Rightarrow> bool \<Rightarrow> RtpPacket \<times> RtpSession" where
  "CreatePacket s payload marker = CreatePacketWithDuration s payload (rs_samplesPerPacket s) marker"

section \<open>Encoded form\<close>

text \<open>
  A header is consistent when its count is the number of its CSRCs; it is canonical when, besides,
  every field fits its place on the wire (which is what decoding produces).
\<close>

definition csrc_consistent :: "RtpHeader \<Rightarrow> bool" where
  "csrc_consistent h \<longleftrightarrow> length (rh_Csrc h) = unat (rh_CsrcCount h)"

definition rtp_canonical :: "RtpHeader \<Rightarrow> bool" where
  "rtp_canonical h \<longleftrightarrow>
     rh_Version h = rtpVersion \<and> rh_CsrcCount h < 16 \<and> csrc_consistent h \<and> rh_PayloadType h < 128
     \<and> (if rh_Extension h
        then length (rh_ExtensionData h) mod 4 = 0 \<and> length (rh_ExtensionData h) div 4 < 65536
        else rh_ExtensionProfile h = 0 \<and> rh_ExtensionData h = [])"

definition header_bytes :: "RtpHeader \<Rightarrow> bytes" where
  "header_bytes h =
     [rtp_byte0 h, rtp_byte1 h] @ put_u16be (rh_SequenceNumber h) @ put_u32be (rh_Timestamp h)
     @ put_u32be (rh_Ssrc h) @ concat (map put_u32be (rh_Csrc h))
     @ (if rh_Extension h
        then put_u16be (rh_ExtensionProfile h)
             @ put_u16be (of_nat (length (rh_ExtensionData h) div 4)) @ rh_ExtensionData h
        else [])"

lemma length_header_bytes: "csrc_consistent h \<Longrightarrow> length (header_bytes h) = RtpHeader_Size h"
  by (simp add: header_bytes_def RtpHeader_Size_def rtpMinHeaderSize_def csrc_consistent_def
      be32.length_concat_put)

lemma put_csrcs_append:
  "length pre = off \<Longrightarrow> 4 * length cs \<le> length rest \<Longrightarrow>
   put_csrcs cs off (pre @ rest) =
     Some (off + 4 * length cs, pre @ concat (map put_u32be cs) @ drop (4 * length cs) rest)"
proof (induction cs arbitrary: off pre rest)
  case Nil
  then show ?case by simp
next
  case (Cons c cs)
  have "blit off (put_u32be c) (pre @ rest) = (pre @ put_u32be c) @ drop 4 rest"
    using Cons.prems by (simp add: blit_append)
  with Cons.prems Cons.IH [of "pre @ put_u32be c" "off + 4" "drop 4 rest"]
  show ?case by (simp add: add.commute)
qed

lemma RtpHeader_Encode_bytes:
  assumes con: "csrc_consistent h" and len: "RtpHeader_Size h \<le> length buf"
  shows "RtpHeader_Encode h buf = Ret (header_bytes h @ drop (RtpHeader_Size h) buf, RtpHeader_Size h)"
proof -
  let ?fix = "[rtp_byte0 h, rtp_byte1 h] @ put_u16be (rh_SequenceNumber h)
                @ put_u32be (rh_Timestamp h) @ put_u32be (rh_Ssrc h)"
  let ?n = "length (rh_Csrc h)"
  have flen: "length ?fix = 12" by simp
  have sz: "RtpHeader_Size h = 12 + 4 * ?n + (if rh_Extension h then 4 + length (rh_ExtensionData h) else 0)"
    using con by (simp add: RtpHeader_Size_def rtpMinHeaderSize_def csrc_consistent_def)
  have b1: "blit 0 ?fix buf = ?fix @ drop 12 buf"
    using len sz flen by (simp add: blit_zero del: append_Cons append_assoc)
  have b2: "put_csrcs (rh_Csrc h) 12 (?fix @ drop 12 buf) =
      Some (12 + 4 * ?n, (?fix @ concat (map put_u32be (rh_Csrc h))) @ drop (12 + 4 * ?n) buf)"
    using put_csrcs_append [OF flen, of "rh_Csrc h" "drop 12 buf"] len sz
    by (simp add: add.commute split: if_splits)
  have plen: "length (?fix @ concat (map put_u32be (rh_Csrc h))) = 12 + 4 * ?n"
    by (simp add: be32.length_concat_put)
  show ?thesis
  proof (cases "rh_Extension h")
    case False
    with len sz b1 b2 show ?thesis
      by (simp add: RtpHeader_Encode_def Let_def header_bytes_def del: put_csrcs.simps)
  next
    case True
    let ?pre = "?fix @ concat (map put_u32be (rh_Csrc h))"
    let ?x = "put_u16be (rh_ExtensionProfile h) @ put_u16be (of_nat (length (rh_ExtensionData h) div 4))"
    have b3: "blit (12 + 4 * ?n) ?x (?pre @ drop (12 + 4 * ?n) buf) =
        (?pre @ ?x) @ drop (16 + 4 * ?n) buf"
      using blit_append [OF plen, of ?x "drop (12 + 4 * ?n) buf"] len sz True
      by (simp add: add.commute)
    have b4: "blit (16 + 4 * ?n) (rh_ExtensionData h) ((?pre @ ?x) @ drop (16 + 4 * ?n) buf) =
        (?pre @ ?x) @ rh_ExtensionData h @ drop (RtpHeader_Size h) buf"
      using blit_append [of "?pre @ ?x" "16 + 4 * ?n" "rh_ExtensionData h" "drop (16 + 4 * ?n) buf"]
        plen len sz True
      by (simp add: add.commute add.left_commute)
    have hb: "header_bytes h = (?pre @ ?x) @ rh_ExtensionData h"
      using True by (simp add: header_bytes_def)
    show ?thesis
      unfolding RtpHeader_Encode_def Let_def b1 b2 hb
      using True len sz b3 b4 by (simp add: add.commute be32.length_concat_put)
  qed
qed

lemma RtpPacket_Encode_bytes:
  assumes "csrc_consistent (rp_Header p)"
  shows "RtpPacket_Encode p = Ret (header_bytes (rp_Header p) @ rp_Payload p)"
proof -
  have "RtpHeader_Encode (rp_Header p) (replicate (RtpPacket_Size p) 0) =
      Ret (header_bytes (rp_Header p) @ replicate (length (rp_Payload p)) 0, RtpHeader_Size (rp_Header p))"
    using RtpHeader_Encode_bytes [OF assms, of "replicate (RtpPacket_Size p) 0"]
    by (simp add: RtpPacket_Size_def)
  then show ?thesis
    by (simp add: RtpPacket_Encode_def blit_append length_header_bytes assms)
qed

section \<open>Decoding the encoded form\<close>

lemma mask_u8: "(0x03 :: u8) = mask 2" "(0x0f :: u8) = mask 4" "(0x7f :: u8) = mask 7" "(0x01 :: u8) = mask 1"
  by (simp_all add: mask_eq_exp_minus_1)

lemma bit_boolBit: "bit (boolBit b) n \<longleftrightarrow> b \<and> n = 0"
  by (simp add: boolBit_def bit_1_iff)

lemma boolBit_nonzero [simp]: "boolBit b \<noteq> 0 \<longleftrightarrow> b"
  by (simp add: boolBit_def)

lemma rtp_byte0_version: "drop_bit 6 (rtp_byte0 h) AND 0x03 = rh_Version h AND 0x03"
  unfolding rtp_byte0_def mask_u8 by (intro bit_word_eqI) (auto simp: bit_simps bit_boolBit)

lemma rtp_byte0_count: "rtp_byte0 h AND 0x0f = rh_CsrcCount h AND 0x0f"
  unfolding rtp_byte0_def mask_u8 by (intro bit_word_eqI) (auto simp: bit_simps bit_boolBit)

lemma rtp_byte0_padding: "drop_bit 5 (rtp_byte0 h) AND 0x01 = boolBit (rh_Padding h)"
  unfolding rtp_byte0_def mask_u8 by (intro bit_word_eqI) (auto simp: bit_simps bit_boolBit)

lemma rtp_byte0_extension: "drop_bit 4 (rtp_byte0 h) AND 0x01 = boolBit (rh_Extension h)"
  unfolding rtp_byte0_def mask_u8 by (intro bit_word_eqI) (auto simp: bit_simps bit_boolBit)

lemma rtp_byte1_marker: "drop_bit 7 (rtp_byte1 h) AND 0x01 = boolBit (rh_Marker h)"
  unfolding rtp_byte1_def mask_u8 by (intro bit_word_eqI) (auto simp: bit_simps bit_boolBit)

lemma rtp_byte1_type: "rtp_byte1 h AND 0x7f = rh_PayloadType h AND 0x7f"
  unfolding rtp_byte1_def mask_u8 by (intro bit_word_eqI) (auto simp: bit_simps bit_boolBit)

lemma and_low_nibble: "(c :: u8) < 16 \<Longrightarrow> c AND 0x0f = c"
  by (simp add: mask_u8 word_unat_eq_iff unsigned_take_bit_eq take_bit_nat_eq_self_iff
      word_less_nat_alt flip: take_bit_eq_mask)

lemma and_low_seven: "(c :: u8) < 128 \<Longrightarrow> c AND 0x7f = c"
  by (simp add: mask_u8 word_unat_eq_iff unsigned_take_bit_eq take_bit_nat_eq_self_iff
      word_less_nat_alt flip: take_bit_eq_mask)

lemma read_csrcs_concat:
  "length pre = off \<Longrightarrow> read_csrcs (length cs) off (pre @ concat (map put_u32be cs) @ rest) = cs"
proof (induction cs arbitrary: off pre)
  case Nil
  then show ?case by simp
next
  case (Cons c cs)
  from Cons.prems Cons.IH [of "pre @ put_u32be c" "off + 4"]
  show ?case by (simp add: be32.get_put)
qed

lemma unat_of_nat_u16: "n < 65536 \<Longrightarrow> unat (of_nat n :: u16) = n"
  by (simp add: unat_of_nat take_bit_nat_eq_self_iff)

lemma DecodeRtpHeader_bytes:
  assumes can: "rtp_canonical h"
  shows "DecodeRtpHeader (header_bytes h @ rest) = Inr h"
proof -
  let ?fix = "[rtp_byte0 h, rtp_byte1 h] @ put_u16be (rh_SequenceNumber h)
                @ put_u32be (rh_Timestamp h) @ put_u32be (rh_Ssrc h)"
  let ?cs = "concat (map put_u32be (rh_Csrc h))"
  let ?ext = "(if rh_Extension h
        then put_u16be (rh_ExtensionProfile h)
             @ put_u16be (of_nat (length (rh_ExtensionData h) div 4)) @ rh_ExtensionData h
        else [])"
  define buf where "buf = header_bytes h @ rest"
  let ?n = "unat (rh_CsrcCount h)"
  have hb: "header_bytes h = ?fix @ ?cs @ ?ext" by (simp add: header_bytes_def)
  have n: "length (rh_Csrc h) = ?n" using can by (simp add: rtp_canonical_def csrc_consistent_def)
  have len: "length (header_bytes h) = 12 + 4 * ?n + length ?ext"
    unfolding hb using n by (simp add: be32.length_concat_put)
  have at: "buf ! 0 = rtp_byte0 h" "buf ! 1 = rtp_byte1 h"
    "get_u16be (drop 2 buf) = rh_SequenceNumber h" "get_u32be (drop 4 buf) = rh_Timestamp h"
    "get_u32be (drop 8 buf) = rh_Ssrc h"
    by (simp_all add: buf_def hb be16.get_put be32.get_put)
  have cs: "read_csrcs ?n 12 buf = rh_Csrc h"
    using read_csrcs_concat [of ?fix 12 "rh_Csrc h" "?ext @ rest"] n by (simp add: buf_def hb)
  have dr: "drop (12 + ?n * 4) buf = ?ext @ rest"
  proof -
    have "buf = (?fix @ ?cs) @ ?ext @ rest" by (simp add: buf_def hb)
    moreover have "length (?fix @ ?cs) = 12 + ?n * 4"
      using n by (simp add: be32.length_concat_put)
    ultimately show ?thesis by (metis append_eq_conv_conj)
  qed
  have ver: "drop_bit 6 (rtp_byte0 h) AND 0x03 = rtpVersion"
    and cnt: "rtp_byte0 h AND 0x0f = rh_CsrcCount h" and pt: "rtp_byte1 h AND 0x7f = rh_PayloadType h"
    using can by (simp_all add: rtp_byte0_version rtp_byte0_count rtp_byte1_type rtp_canonical_def
        and_low_nibble and_low_seven rtpVersion_def)
  have base: "length buf \<ge> 12" "length buf \<ge> 12 + ?n * 4" using len by (simp_all add: buf_def)
  show ?thesis
  proof (cases "rh_Extension h")
    case False
    show ?thesis
      unfolding buf_def [symmetric] DecodeRtpHeader_def Let_def at ver cnt pt cs rtpMinHeaderSize_def
      using False can base
      by (simp add: rtp_byte0_padding rtp_byte0_extension rtp_byte1_marker rtp_canonical_def cs)
  next
    case True
    let ?d = "rh_ExtensionData h"
    have d4: "length ?d mod 4 = 0" "length ?d div 4 < 65536"
      using can True by (simp_all add: rtp_canonical_def)
    then have words: "unat (of_nat (length ?d div 4) :: u16) * 4 = length ?d"
      by (simp add: unat_of_nat_u16) presburger
    have prof: "get_u16be (drop (12 + ?n * 4) buf) = rh_ExtensionProfile h"
      using dr True by (simp add: be16.get_put)
    have "drop (12 + ?n * 4 + 2) buf = drop 2 (?ext @ rest)"
      using dr by (metis drop_drop add.commute)
    then have extw: "get_u16be (drop (12 + ?n * 4 + 2) buf) = of_nat (length ?d div 4)"
      using True by (simp add: be16.get_put)
    have "drop (12 + ?n * 4 + 4) buf = drop 4 (?ext @ rest)"
      using dr by (metis drop_drop add.commute)
    then have sl: "slice (12 + ?n * 4 + 4) (12 + ?n * 4 + 4 + length ?d) buf = ?d"
      using True by (simp add: slice_def)
    have fits: "12 + ?n * 4 + 4 \<le> length buf" "12 + ?n * 4 + 4 + length ?d \<le> length buf"
      using len True by (simp_all add: buf_def)
    show ?thesis
      unfolding buf_def [symmetric] DecodeRtpHeader_def Let_def at ver cnt pt rtpMinHeaderSize_def
      unfolding extw words prof sl cs
      using True can base fits
      by (simp add: rtp_byte0_padding rtp_byte0_extension rtp_byte1_marker rtp_canonical_def)
  qed
qed

lemma DecodeRtpPacket_bytes:
  assumes "rtp_canonical h"
  shows "DecodeRtpPacket (header_bytes h @ payload) = Ret \<lparr>rp_Header = h, rp_Payload = payload\<rparr>"
  using assms
  by (simp add: DecodeRtpPacket_def DecodeRtpHeader_bytes length_header_bytes rtp_canonical_def)

text \<open>What decoding accepts is itself canonical up to the extension the buffer had no room for.\<close>

lemma length_read_csrcs [simp]: "length (read_csrcs n off buf) = n"
  by (induction n arbitrary: off) auto

lemma DecodeRtpHeader_consistent:
  "DecodeRtpHeader buf = Inr h \<Longrightarrow> csrc_consistent h \<and> rh_Version h = rtpVersion \<and> 12 \<le> length buf"
  by (auto simp: DecodeRtpHeader_def Let_def csrc_consistent_def rtpMinHeaderSize_def split: if_splits)

lemma NewRtpHeader_canonical:
  "pt < 128 \<Longrightarrow> rtp_canonical (NewRtpHeader pt seq ts ssrc\<lparr>rh_Marker := m\<rparr>)"
  by (simp add: rtp_canonical_def NewRtpHeader_def csrc_consistent_def)

section \<open>Sequences of packets\<close>

text \<open>The packets a session makes of a list of payloads, in order.\<close>

fun packetize :: "RtpSession \<Rightarrow> (bytes \<times> bool) list \<Rightarrow> RtpPacket list \<times> RtpSession" where
  "packetize s [] = ([], s)"
| "packetize s ((p, m) # ps) =
     (let (pkt, s1) = CreatePacket s p m; (pkts, s2) = packetize s1 ps in (pkt # pkts, s2))"

lemma packetize_nth:
  "i < length ps \<Longrightarrow>
     rp_Header (fst (packetize s ps) ! i) =
       NewRtpHeader (rs_payloadType s) (rs_sequenceNumber s + of_nat i)
         (rs_timestamp s + of_int (rs_samplesPerPacket s) * of_nat i) (rs_ssrc s)\<lparr>rh_Marker := snd (ps ! i)\<rparr>
     \<and> rp_Payload (fst (packetize s ps) ! i) = fst (ps ! i)"
proof (induction ps arbitrary: s i)
  case Nil
  then show ?case by simp
next
  case (Cons q ps)
  obtain p m where q: "q = (p, m)" by (cases q)
  let ?s1 = "snd (CreatePacket s p m)"
  show ?case
  proof (cases i)
    case 0
    then show ?thesis
      by (simp add: q CreatePacket_def CreatePacketWithDuration_def NewRtpHeader_def Let_def
          split: prod.splits)
  next
    case (Suc j)
    with Cons.prems have "j < length ps" by simp
    from Cons.IH [OF this, of ?s1] Suc show ?thesis
      by (auto simp: q CreatePacket_def CreatePacketWithDuration_def Let_def algebra_simps
          split: prod.splits)
  qed
qed

lemma length_packetize: "length (fst (packetize s ps)) = length ps"
  by (induction s ps rule: packetize.induct) (auto simp: Let_def split: prod.splits)

lemma packetize_header_canonical:
  assumes "i < length ps" "rs_payloadType s < 128"
  shows "rtp_canonical (rp_Header (fst (packetize s ps) ! i))"
  using packetize_nth [OF assms(1), of s] assms(2) by (simp add: NewRtpHeader_canonical)

section \<open>Properties\<close>

text \<open>
  Encoding and decoding are inverse: a packet whose header fits its fields (any number of CSRCs up to 15, with
  or without an extension) encodes to exactly its announced size and decodes back to itself.
\<close>

theorem rtp_packet_roundtrip:
  assumes "rtp_canonical (rp_Header p)"
  shows "\<exists>b. RtpPacket_Encode p = Ret b \<and> length b = RtpPacket_Size p \<and> DecodeRtpPacket b = Ret p"
proof -
  have c: "csrc_consistent (rp_Header p)" using assms by (simp add: rtp_canonical_def)
  show ?thesis
    using RtpPacket_Encode_bytes [OF c] DecodeRtpPacket_bytes [OF assms, of "rp_Payload p"] length_header_bytes [OF c]
    by (intro exI [of _ "header_bytes (rp_Header p) @ rp_Payload p"]) (simp add: RtpPacket_Size_def)
qed

theorem rtp_packet_roundtrip_witness:
  "\<exists>b. RtpPacket_Encode \<lparr>rp_Header = (NewRtpHeader 120 1 2 3)\<lparr>rh_Marker := True\<rparr>, rp_Payload = [7, 8]\<rparr> = Ret b \<and> length b = 14"
proof -
  have can: "rtp_canonical ((NewRtpHeader 120 1 2 3)\<lparr>rh_Marker := True\<rparr>)" by (rule NewRtpHeader_canonical) simp
  have "RtpPacket_Size \<lparr>rp_Header = (NewRtpHeader 120 1 2 3)\<lparr>rh_Marker := True\<rparr>, rp_Payload = [7, 8 :: u8]\<rparr> = 14"
    by (simp add: RtpPacket_Size_def RtpHeader_Size_def NewRtpHeader_def rtpMinHeaderSize_def)
  with rtp_packet_roundtrip [of "\<lparr>rp_Header = (NewRtpHeader 120 1 2 3)\<lparr>rh_Marker := True\<rparr>, rp_Payload = [7, 8]\<rparr>"] can
  show ?thesis by auto
qed

text \<open>
  A packet of twelve bytes that announces an extension makes the packet decoder slice beyond its buffer:
  the header is accepted although the extension's own header is missing from the buffer.
\<close>

theorem truncated_extension_panics:
  "DecodeRtpPacket [0x90, 120, 0, 1, 0, 0, 0, 2, 0, 0, 0, 3] = Panic"
  by (simp add: DecodeRtpPacket_def DecodeRtpHeader_def Let_def rtpMinHeaderSize_def rtpVersion_def RtpHeader_Size_def)

end
