(* ===== verification/Stun.thy ===== *)
theory Stun
  imports Rtp
begin

text \<open>
  The STUN messages exchanged with a relay (\<^verbatim>\<open>internal/voip/transport/stun.go\<close>): building, parsing and
  classifying packets. Random transaction ids and tie breakers are arguments, the HMAC-SHA1 of the Go library is
  a parameter; its CRC-32 (IEEE) is written out bit by bit.
\<close>

type_synonym hmac = "bytes \<Rightarrow> bytes \<Rightarrow> bytes"

section \<open>Constants\<close>

definition stunMagicCookie :: u32 where "stunMagicCookie = 0x2112a442"
definition stunFingerprintXor :: u32 where "stunFingerprintXor = 0x5354554e"
definition stunBindingRequest :: int where "stunBindingRequest = 0x0001"
definition stunAllocateRequest :: int where "stunAllocateRequest = 0x0003"
definition whatsappPing :: int where "whatsappPing = 0x0801"

definition attrUsername :: int where "attrUsername = 0x0006"
definition attrMessageIntegrity :: int where "attrMessageIntegrity = 0x0008"
definition attrXorRelayedAddress :: int where "attrXorRelayedAddress = 0x0016"
definition attrPriority :: int where "attrPriority = 0x0024"
definition attrSenderSubscriptions :: int where "attrSenderSubscriptions = 0x4000"
definition attrSsrcList :: int where "attrSsrcList = 0x4024"
definition attrIceControlling :: int where "attrIceControlling = 0x802a"
definition attrFingerprint :: int where "attrFingerprint = 0x8028"
definition defaultICEPriority :: u32 where "defaultICEPriority = 16777215"

section \<open>Building messages\<close>

definition encodeAttribute :: "int \<Rightarrow> bytes \<Rightarrow> bytes" where
  "encodeAttribute attrType data =
     put_u16be (of_int attrType) @ put_u16be (of_nat (length data)) @ data
     @ replicate ((4 - length data mod 4) mod 4) 0"

text \<open>\<^verbatim>\<open>crc32.ChecksumIEEE\<close>: the reflected polynomial, one bit at a time.\<close>

definition crc32_bit :: "u32 \<Rightarrow> u32" where
  "crc32_bit c = (if c AND 1 = 1 then drop_bit 1 c XOR 0xedb88320 else drop_bit 1 c)"

definition crc32_byte :: "u32 \<Rightarrow> u8 \<Rightarrow> u32" where
  "crc32_byte c b = (crc32_bit ^^ 8) (c XOR ucast b)"

definition crc32stun :: "bytes \<Rightarrow> u32" where
  "crc32stun data = NOT (foldl crc32_byte 0xffffffff data)"

definition stun_header :: "int \<Rightarrow> nat \<Rightarrow> bytes \<Rightarrow> bytes" where
  "stun_header msgType len transactionID =
     blit 8 transactionID (put_u16be (of_int msgType) @ put_u16be (of_nat len)
       @ put_u32be stunMagicCookie @ replicate 12 0)"

definition buildStunMessage :: "hmac \<Rightarrow> int \<Rightarrow> bytes \<Rightarrow> bytes \<Rightarrow> bytes option \<Rightarrow> bool \<Rightarrow> bytes" where
  "buildStunMessage hmac msgType attrs transactionID integrityKey includeFingerprint =
     (let attrsData = attrs;
          attrsData1 =
            (case integrityKey of
               None \<Rightarrow> attrsData
             | Some key \<Rightarrow>
                 let hmacHeader = stun_header msgType (length attrsData + 24) transactionID
                 in attrsData @ encodeAttribute attrMessageIntegrity (hmac key (hmacHeader @ attrsData)));
          attrsData2 =
            (if includeFingerprint then
               let crcHeader = stun_header msgType (length attrsData1 + 8) transactionID;
                   fingerprint = crc32stun (crcHeader @ attrsData1) XOR stunFingerprintXor
               in attrsData1 @ encodeAttribute attrFingerprint (put_u32be fingerprint)
             else attrsData1)
      in stun_header msgType (length attrsData2) transactionID @ attrsData2)"

text \<open>
  \<^verbatim>\<open>fmt.Sscanf(ip, "%d.%d.%d.%d", ...)\<close>: blanks before a number are skipped, scanning stops at the first
  mismatch and leaves the remaining numbers \<open>0\<close>. Only ASCII blanks are considered.
\<close>

definition is_blank :: "char \<Rightarrow> bool" where
  "is_blank c \<longleftrightarrow> (of_char c :: nat) \<in> {9, 11, 12, 13, 32}"

definition scan_int :: "string \<Rightarrow> (int \<times> string) option" where
  "scan_int s =
     (let s1 = dropWhile is_blank s;
          sign = (if s1 \<noteq> [] \<and> hd s1 \<in> {CHR ''+'', CHR ''-''} then [hd s1] else []);
          s2 = drop (length sign) s1;
          digits = takeWhile is_digit s2
      in case atoi (sign @ digits) of None \<Rightarrow> None | Some v \<Rightarrow> Some (v, dropWhile is_digit s2))"

fun scan_dotted :: "nat \<Rightarrow> string \<Rightarrow> int list" where
  "scan_dotted 0 s = []"
| "scan_dotted (Suc n) s =
     (case scan_int s of
        None \<Rightarrow> replicate (Suc n) 0
      | Some (v, rest) \<Rightarrow>
          if n = 0 then [v]
          else if rest \<noteq> [] \<and> hd rest = CHR ''.'' then v # scan_dotted n (tl rest)
          else v # replicate n 0)"

definition encodeXorRelayedAddress :: "string \<Rightarrow> int \<Rightarrow> bytes" where
  "encodeXorRelayedAddress ip port =
     (let p = scan_dotted 4 ip;
          ipNum = (push_bit 24 (of_int (p ! 0)) OR push_bit 16 (of_int (p ! 1))
                   OR push_bit 8 (of_int (p ! 2)) OR of_int (p ! 3) :: u32)
      in [0x00, 0x01] @ put_u16be (of_int port XOR ucast (drop_bit 16 stunMagicCookie))
         @ put_u32be (ipNum XOR stunMagicCookie))"

definition BuildAllocateForRelay ::
    "hmac \<Rightarrow> bytes \<Rightarrow> bytes \<Rightarrow> bytes \<Rightarrow> bytes option \<Rightarrow> string \<Rightarrow> int \<Rightarrow> bytes" where
  "BuildAllocateForRelay hmac txid senderSubscriptions ssrcList hmacKey relayIP relayPort =
     (let parts = [encodeAttribute attrSenderSubscriptions senderSubscriptions,
                   encodeAttribute attrSsrcList ssrcList]
            @ (if relayIP \<noteq> '''' \<and> relayPort \<noteq> 0
               then [encodeAttribute attrXorRelayedAddress (encodeXorRelayedAddress relayIP relayPort)]
               else [])
      in buildStunMessage hmac stunAllocateRequest (concat parts) txid hmacKey False)"

definition BuildBindingRequestWithSubs ::
    "hmac \<Rightarrow> bytes \<Rightarrow> bytes \<Rightarrow> bytes \<Rightarrow> bytes \<Rightarrow> bytes \<Rightarrow> bool \<Rightarrow> bool \<Rightarrow> bytes" where
  "BuildBindingRequestWithSubs hmac txid tieBreaker username hmacKey senderSubscriptions
       includeIceControlling includeFingerprint =
     (let parts = (if username \<noteq> [] then [encodeAttribute attrUsername username] else [])
            @ [encodeAttribute attrPriority (put_u32be defaultICEPriority)]
            @ (if includeIceControlling then [encodeAttribute attrIceControlling tieBreaker] else [])
            @ (if senderSubscriptions \<noteq> []
               then [encodeAttribute attrSenderSubscriptions senderSubscriptions] else []);
          key = (if hmacKey \<noteq> [] then Some hmacKey else None)
      in buildStunMessage hmac stunBindingRequest (concat parts) txid key includeFingerprint)"

definition BuildWhatsAppPing :: "bytes \<Rightarrow> bytes" where
  "BuildWhatsAppPing txid = stun_header whatsappPing 0 txid"

definition IsStunPacket :: "bytes \<Rightarrow> bool" where
  "IsStunPacket data = (if length data < 2 then False else data ! 0 AND 0xc0 = 0)"

definition IsRtpPacket :: "bytes \<Rightarrow> bool" where
  "IsRtpPacket data = (if length data < 2 then False else data ! 0 AND 0xc0 = 0x80)"

section \<open>Parsing responses\<close>

record StunAttribute =
  sa_Type :: int
  sa_TypeName :: string
  sa_Length :: int
  sa_Data :: bytes

record StunResponseInfo =
  si_RawType :: int
  si_Method :: string
  si_StunClass :: string
  si_IsSuccess :: bool
  si_IsError :: bool
  si_ErrorCode :: int
  si_ErrorReason :: string
  si_StableRoutingConnID :: u64
  si_TransactionID :: string
  si_Length :: int
  si_Attributes :: "StunAttribute list"

definition stunAttrNames :: "(int \<times> string) list" where
  "stunAttrNames =
     [(0x0001, ''MAPPED-ADDRESS''), (0x0006, ''USERNAME''), (0x0008, ''MESSAGE-INTEGRITY''),
      (0x0009, ''ERROR-CODE''), (0x000a, ''UNKNOWN-ATTRIBUTES''), (0x0014, ''REALM''),
      (0x0015, ''NONCE''), (0x0019, ''REQUESTED-TRANSPORT''), (0x0020, ''XOR-MAPPED-ADDRESS''),
      (0x0024, ''PRIORITY''), (0x0025, ''USE-CANDIDATE''), (0x4000, ''SENDER-SUBSCRIPTIONS''),
      (0x4001, ''RECEIVER-SUBSCRIPTION''), (0x4002, ''SUBSCRIPTION-ACK''), (0x8022, ''SOFTWARE''),
      (0x8028, ''FINGERPRINT''), (0x8029, ''ICE-CONTROLLED''), (0x802a, ''ICE-CONTROLLING''),
      (0x4033, ''STABLE-ROUTING-CONN-ID'')]"

text \<open>\<^verbatim>\<open>%x\<close> and \<^verbatim>\<open>%04x\<close> of a number that is not negative.\<close>

fun hex_of_nat :: "nat \<Rightarrow> string" where
  "hex_of_nat n =
     (if n < 16 then [hex_digit n] else hex_of_nat (n div 16) @ [hex_digit (n mod 16)])"

declare hex_of_nat.simps [simp del]

definition fmt_x :: "int \<Rightarrow> string" where
  "fmt_x i = hex_of_nat (nat i)"

definition fmt_04x :: "int \<Rightarrow> string" where
  "fmt_04x i = (let s = fmt_x i in replicate (4 - length s) (CHR ''0'') @ s)"

definition attr_name :: "int \<Rightarrow> string" where
  "attr_name attrType =
     (case map_of stunAttrNames attrType of
        Some name \<Rightarrow> name
      | None \<Rightarrow> ''0x'' @ fmt_04x attrType)"

definition add_attr :: "StunResponseInfo \<Rightarrow> int \<Rightarrow> bytes \<Rightarrow> StunResponseInfo" where
  "add_attr info attrType attrData =
     (let attrLength = length attrData;
          info1 = info\<lparr>si_Attributes := si_Attributes info @
            [\<lparr>sa_Type = attrType, sa_TypeName = attr_name attrType, sa_Length = int attrLength,
              sa_Data = attrData\<rparr>]\<rparr>;
          info2 =
            (if attrType = 0x0009 \<and> 4 \<le> attrLength then
               let info' = info1\<lparr>si_ErrorCode := uint (attrData ! 2 AND 0x07) * 100 + uint (attrData ! 3)\<rparr>
               in if 4 < attrLength then info'\<lparr>si_ErrorReason := str_of (drop 4 attrData)\<rparr> else info'
             else info1)
      in if attrType = 0x4033 \<and> si_StunClass info2 = ''success'' \<and> attrLength = 8
         then info2\<lparr>si_StableRoutingConnID := get_u64be attrData\<rparr> else info2)"

function parse_attrs :: "bytes \<Rightarrow> nat \<Rightarrow> nat \<Rightarrow> StunResponseInfo \<Rightarrow> StunResponseInfo" where
  "parse_attrs data msgLength offset info =
     (if offset + 4 \<le> 20 + msgLength \<and> offset + 4 \<le> length data then
        let attrType = uint (get_u16be (drop offset data));
            attrLength = unat (get_u16be (drop (offset + 2) data));
            attrEnd = offset + 4 + attrLength
        in if length data < attrEnd then info
           else parse_attrs data msgLength (attrEnd + (4 - attrLength mod 4) mod 4)
                  (add_attr info attrType (slice (offset + 4) attrEnd data))
      else info)"
  by pat_completeness auto

termination parse_attrs
  by (relation "measure (\<lambda>(data, msgLength, offset, info). length data - offset)") (auto simp: Let_def)

declare parse_attrs.simps [simp del]

definition stun_method :: "int \<Rightarrow> string" where
  "stun_method rawType =
     (let methodBits = (drop_bit 2 (rawType AND 0x3e00)) OR (drop_bit 1 (rawType AND 0x00e0))
            OR (rawType AND 0x000f);
          m = (if methodBits = 0x001 then ''binding'' else if methodBits = 0x003 then ''allocate''
               else if methodBits = 0x004 then ''refresh'' else if methodBits = 0x006 then ''send''
               else if methodBits = 0x007 then ''data'' else if methodBits = 0x008 then ''create-permission''
               else if methodBits = 0x009 then ''channel-bind'' else ''unknown'');
          m1 = (if rawType = 0x0801 then ''wa-ping'' else m)
      in if rawType = 0x0802 then ''wa-pong'' else m1)"

definition stun_class :: "int \<Rightarrow> string" where
  "stun_class rawType =
     (let c0 = drop_bit 4 rawType AND 0x1;
          c1 = drop_bit 8 rawType AND 0x1;
          stunClassNum = push_bit 1 c1 OR c0;
          classes = [''request'', ''indication'', ''success'', ''error'']
      in if nat stunClassNum < length classes then classes ! nat stunClassNum else ''unknown'')"

definition StunResponseInfo_zero :: StunResponseInfo where
  "StunResponseInfo_zero = \<lparr>si_RawType = 0, si_Method = '''', si_StunClass = '''', si_IsSuccess = False,
     si_IsError = False, si_ErrorCode = 0, si_ErrorReason = '''', si_StableRoutingConnID = 0,
     si_TransactionID = '''', si_Length = 0, si_Attributes = []\<rparr>"

definition ParseStunResponse :: "bytes \<Rightarrow> StunResponseInfo option" where
  "ParseStunResponse data =
     (if length data < 20 then None
      else if get_u32be (drop 4 data) \<noteq> stunMagicCookie then
        let msgType = uint (get_u16be data)
        in if msgType = 0x0801 \<or> msgType = 0x0802 then
             Some (StunResponseInfo_zero\<lparr>si_RawType := msgType,
               si_Method := (if msgType = 0x0802 then ''wa-pong'' else ''wa-ping''),
               si_StunClass := ''indication'', si_TransactionID := hex_of (slice 8 20 data),
               si_Length := int (length data)\<rparr>)
           else None
      else
        let rawType = uint (get_u16be data);
            msgLength = unat (get_u16be (drop 2 data));
            stunClass = stun_class rawType;
            info = StunResponseInfo_zero\<lparr>si_RawType := rawType, si_Method := stun_method rawType,
              si_StunClass := stunClass, si_IsSuccess := (stunClass = ''success''),
              si_IsError := (stunClass = ''error''), si_TransactionID := hex_of (slice 8 20 data),
              si_Length := int (length data)\<rparr>
        in Some (parse_attrs data msgLength 20 info))"

definition FormatStunResponse :: "StunResponseInfo \<Rightarrow> string" where
  "FormatStunResponse info =
     (let result = ''STUN '' @ si_Method info @ '' '' @ si_StunClass info @ '' (0x'' @
            fmt_04x (si_RawType info) @ '', '' @ itoa (si_Length info) @ ''B)'';
          result1 = (if si_IsError info \<and> si_ErrorCode info \<noteq> 0 then
              result @ '' ERROR '' @ itoa (si_ErrorCode info)
              @ (if si_ErrorReason info \<noteq> '''' then '': '' @ si_ErrorReason info else '''')
            else result)
      in if 0 < length (si_Attributes info)
         then result1 @ '' ['' @ join '', '' (map sa_TypeName (si_Attributes info)) @ '']''
         else result1)"

definition ClassifyPacket :: "bytes \<Rightarrow> string" where
  "ClassifyPacket data =
     (let len = itoa (int (length data))
      in if length data < 2 then ''tiny('' @ len @ ''B)''
      else
        let twoBits = drop_bit 6 (data ! 0 AND 0xc0)
        in if twoBits = 0 then
             (case ParseStunResponse data of
                Some info \<Rightarrow> FormatStunResponse info
              | None \<Rightarrow> ''STUN? 0x'' @ fmt_x (push_bit 8 (uint (data ! 0)) OR uint (data ! 1))
                  @ '' ('' @ len @ ''B)'')
           else if twoBits = 2 then
             let seq = (if 4 \<le> length data then push_bit 8 (uint (data ! 2)) OR uint (data ! 3) else 0)
             in ''RTP/SRTP PT='' @ itoa (uint (data ! 1 AND 0x7f)) @ '' M='' @
                itoa (uint (drop_bit 7 (data ! 1) AND 1)) @ '' seq='' @ itoa seq @ '' ('' @ len @ ''B)''
           else if twoBits = 1 then ''DTLS? 0x'' @ fmt_x (uint (data ! 0)) @ '' ('' @ len @ ''B)''
           else ''unknown 0x'' @ fmt_x (uint (data ! 0)) @ '' ('' @ len @ ''B)'')"


section \<open>Lengths\<close>

lemma length_stun_header [wire, simp]: "length (stun_header t n txid) = 20"
  by (simp add: stun_header_def)

lemma stun_header_split:
  "length txid = 12 \<Longrightarrow> stun_header t n txid =
     put_u16be (of_int t) @ put_u16be (of_nat n) @ put_u32be stunMagicCookie @ txid"
  using blit_append [of "put_u16be (of_int t) @ put_u16be (of_nat n) @ put_u32be stunMagicCookie" 8 txid
      "replicate 12 0"]
  by (simp add: stun_header_def)

lemma length_encodeAttribute [wire]:
  "length (encodeAttribute t d) = 4 + length d + (4 - length d mod 4) mod 4"
  by (simp add: encodeAttribute_def)

lemma encodeAttribute_aligned: "length (encodeAttribute t d) mod 4 = 0"
proof -
  consider "length d mod 4 = 0" | "length d mod 4 = 1" | "length d mod 4 = 2" | "length d mod 4 = 3"
    by linarith
  then show ?thesis
    by cases (simp_all add: length_encodeAttribute mod_add_left_eq [of "length d", symmetric]
        mod_add_eq [of 4, symmetric] ac_simps)
qed

section \<open>Lists of attributes\<close>

definition encode_attrs :: "(int \<times> bytes) list \<Rightarrow> bytes" where
  "encode_attrs as = concat (map (\<lambda>(t, d). encodeAttribute t d) as)"

definition attr_ok :: "int \<times> bytes \<Rightarrow> bool" where
  "attr_ok a \<longleftrightarrow> 0 \<le> fst a \<and> fst a < 65536 \<and> length (snd a) < 65536"

lemma encode_attrs_simps [simp]:
  "encode_attrs [] = []"
  "encode_attrs (a # as) = encodeAttribute (fst a) (snd a) @ encode_attrs as"
  "encode_attrs (as @ bs) = encode_attrs as @ encode_attrs bs"
  by (simp_all add: encode_attrs_def case_prod_beta)

lemma uint_of_int_u16: "0 \<le> i \<Longrightarrow> i < 65536 \<Longrightarrow> uint (of_int i :: u16) = i"
  by (simp add: unsigned_of_int take_bit_int_eq_self)

lemma parse_attrs_step:
  assumes "attr_ok (t, d)" and off: "off = length pre"
    and lim: "off + length (encodeAttribute t d) \<le> 20 + n"
  shows "parse_attrs (pre @ encodeAttribute t d @ rest) n off info =
     parse_attrs (pre @ encodeAttribute t d @ rest) n (off + length (encodeAttribute t d)) (add_attr info t d)"
proof -
  let ?data = "pre @ encodeAttribute t d @ rest"
  have t: "uint (of_int t :: u16) = t" and l: "unat (of_nat (length d) :: u16) = length d"
    using assms(1) by (simp_all add: attr_ok_def uint_of_int_u16 unat_of_nat_u16)
  have gt: "uint (get_u16be (drop off ?data)) = t"
    using off t by (simp add: encodeAttribute_def be16.get_put)
  have "drop (off + 2) ?data = drop 2 (drop off ?data)" by (metis drop_drop add.commute)
  then have gl: "unat (get_u16be (drop (off + 2) ?data)) = length d"
    using off l by (simp add: encodeAttribute_def be16.get_put)
  have "drop (off + 4) ?data = drop 4 (drop off ?data)" by (metis drop_drop add.commute)
  then have sl: "slice (off + 4) (off + 4 + length d) ?data = d"
    using off by (simp add: encodeAttribute_def slice_def)
  have len: "off + 4 + length d \<le> length ?data" "off + 4 \<le> 20 + n"
    using off lim by (simp_all add: length_encodeAttribute)
  show ?thesis
    unfolding parse_attrs.simps [of ?data n off info] Let_def gt gl sl
    using len by (simp add: length_encodeAttribute add.assoc)
qed

lemma parse_attrs_encoded:
  "list_all attr_ok as \<Longrightarrow> off = length pre \<Longrightarrow> off + length (encode_attrs as) \<le> 20 + n \<Longrightarrow>
   parse_attrs (pre @ encode_attrs as @ rest) n off info =
     parse_attrs (pre @ encode_attrs as @ rest) n (off + length (encode_attrs as))
       (foldl (\<lambda>i a. add_attr i (fst a) (snd a)) info as)"
proof (induction as arbitrary: off pre info)
  case Nil
  then show ?case by simp
next
  case (Cons a as)
  let ?e = "encodeAttribute (fst a) (snd a)"
  have "parse_attrs (pre @ ?e @ (encode_attrs as @ rest)) n off info =
      parse_attrs (pre @ ?e @ (encode_attrs as @ rest)) n (off + length ?e) (add_attr info (fst a) (snd a))"
    using Cons.prems by (intro parse_attrs_step) auto
  also have "\<dots> = parse_attrs ((pre @ ?e) @ encode_attrs as @ rest) n (off + length ?e)
      (add_attr info (fst a) (snd a))" by simp
  also have "\<dots> = parse_attrs ((pre @ ?e) @ encode_attrs as @ rest) n
      (off + length ?e + length (encode_attrs as))
      (foldl (\<lambda>i a. add_attr i (fst a) (snd a)) (add_attr info (fst a) (snd a)) as)"
    using Cons.prems by (intro Cons.IH) auto
  finally show ?case by (simp add: add.assoc)
qed

lemma add_attr_fields [simp]:
  "si_RawType (add_attr info t d) = si_RawType info"
  "si_TransactionID (add_attr info t d) = si_TransactionID info"
  "si_StunClass (add_attr info t d) = si_StunClass info"
  "map (\<lambda>a. (sa_Type a, sa_Data a)) (si_Attributes (add_attr info t d)) =
     map (\<lambda>a. (sa_Type a, sa_Data a)) (si_Attributes info) @ [(t, d)]"
  by (simp_all add: add_attr_def Let_def)

lemma foldl_add_attr [simp]:
  "si_RawType (foldl (\<lambda>i a. add_attr i (fst a) (snd a)) info as) = si_RawType info"
  "si_TransactionID (foldl (\<lambda>i a. add_attr i (fst a) (snd a)) info as) = si_TransactionID info"
  "map (\<lambda>a. (sa_Type a, sa_Data a)) (si_Attributes (foldl (\<lambda>i a. add_attr i (fst a) (snd a)) info as)) =
     map (\<lambda>a. (sa_Type a, sa_Data a)) (si_Attributes info) @ as"
  by (induction as arbitrary: info) auto

lemma ParseStunResponse_encoded:
  assumes as: "list_all attr_ok as" and t: "0 \<le> t" "t < 65536" and txid: "length txid = 12"
    and len: "length (encode_attrs as) < 65536"
  shows "\<exists>info. ParseStunResponse (stun_header t (length (encode_attrs as)) txid @ encode_attrs as) = Some info
     \<and> si_RawType info = t \<and> si_TransactionID info = hex_of txid
     \<and> map (\<lambda>a. (sa_Type a, sa_Data a)) (si_Attributes info) = as"
proof -
  let ?h = "stun_header t (length (encode_attrs as)) txid" and ?n = "length (encode_attrs as)"
  let ?m = "?h @ encode_attrs as"
  have t': "uint (of_int t :: u16) = t" using t by (rule uint_of_int_u16)
  have n': "unat (of_nat ?n :: u16) = ?n" using len by (simp add: unat_of_nat_u16)
  have gets: "get_u16be ?m = of_int t" "get_u16be (drop 2 ?m) = of_nat ?n"
    "get_u32be (drop 4 ?m) = stunMagicCookie" "slice 8 20 ?m = txid" "20 \<le> length ?m"
    using txid by (simp_all add: stun_header_split be16.get_put be32.get_put slice_def)
  have parse: "parse_attrs ?m ?n 20 info = foldl (\<lambda>i a. add_attr i (fst a) (snd a)) info as" for info
    using parse_attrs_encoded [OF as, of 20 ?h ?n "[]" info]
      parse_attrs.simps [of ?m ?n "20 + ?n" "foldl (\<lambda>i a. add_attr i (fst a) (snd a)) info as"]
    by simp
  show ?thesis
    unfolding ParseStunResponse_def gets Let_def n' t'
    using gets(5) parse by (simp add: StunResponseInfo_zero_def)
qed

section \<open>Built messages\<close>

definition stun_ext :: "hmac \<Rightarrow> int \<Rightarrow> bytes \<Rightarrow> bytes \<Rightarrow> bytes option \<Rightarrow> bool \<Rightarrow> (int \<times> bytes) list" where
  "stun_ext hmac t attrs txid key fp =
     (let mi = (case key of None \<Rightarrow> []
           | Some k \<Rightarrow> [(attrMessageIntegrity, hmac k (stun_header t (length attrs + 24) txid @ attrs))]);
          a1 = attrs @ encode_attrs mi
      in mi @ (if fp then [(attrFingerprint, put_u32be
           (crc32stun (stun_header t (length a1 + 8) txid @ a1) XOR stunFingerprintXor))] else []))"

lemma buildStunMessage_ext:
  "buildStunMessage hmac t (encode_attrs as) txid key fp =
     (let e = encode_attrs (as @ stun_ext hmac t (encode_attrs as) txid key fp)
      in stun_header t (length e) txid @ e)"
  by (cases key; cases fp) (simp_all add: buildStunMessage_def stun_ext_def Let_def add.assoc)

lemma stun_ext_types:
  "map fst (stun_ext hmac t attrs txid key fp) =
     (if key = None then [] else [attrMessageIntegrity]) @ (if fp then [attrFingerprint] else [])"
  by (cases key) (auto simp: stun_ext_def Let_def)

lemma stun_ext_ok:
  "\<forall>k m. length (hmac k m) = 20 \<Longrightarrow>
   list_all attr_ok (stun_ext hmac t attrs txid key fp)
   \<and> length (encode_attrs (stun_ext hmac t attrs txid key fp)) \<le> 32"
  by (cases key) (auto simp: stun_ext_def Let_def attr_ok_def attrMessageIntegrity_def attrFingerprint_def
      length_encodeAttribute)


text \<open>
  A message built from any attributes, with or without integrity and fingerprint, parses
  back to its type, its transaction id, and exactly those attributes followed by the added ones.
\<close>

theorem stun_roundtrip:
  assumes as: "list_all attr_ok as" and t: "0 \<le> t" "t < 65536" and txid: "length txid = 12"
    and len: "length (encode_attrs as) + 32 < 65536" and mac: "\<forall>k m. length (hmac k m) = 20"
  shows "\<exists>info ext. ParseStunResponse (buildStunMessage hmac t (encode_attrs as) txid key fp) = Some info
     \<and> si_RawType info = t \<and> si_TransactionID info = hex_of txid
     \<and> map (\<lambda>a. (sa_Type a, sa_Data a)) (si_Attributes info) = as @ ext
     \<and> map fst ext = (if key = None then [] else [0x0008]) @ (if fp then [0x8028] else [])"
proof -
  let ?ext = "stun_ext hmac t (encode_attrs as) txid key fp"
  have "list_all attr_ok (as @ ?ext)" "length (encode_attrs (as @ ?ext)) < 65536"
    using as len stun_ext_ok [OF mac, of t "encode_attrs as" txid key fp] by auto
  from ParseStunResponse_encoded [OF this(1) t txid this(2)]
  show ?thesis
    unfolding buildStunMessage_ext Let_def
    using stun_ext_types [of hmac t "encode_attrs as" txid key fp]
    by (auto simp: attrMessageIntegrity_def attrFingerprint_def)
qed

theorem stun_roundtrip_witness:
  "\<exists>info ext. ParseStunResponse (buildStunMessage (\<lambda>k m. replicate 20 1) 1
       (encode_attrs [(0x0006, [1, 2, 3]), (0x0024, [0, 0, 0, 9])]) (replicate 12 5) (Some [7]) True) = Some info
     \<and> map (\<lambda>a. (sa_Type a, sa_Data a)) (si_Attributes info)
         = [(0x0006, [1, 2, 3]), (0x0024, [0, 0, 0, 9])] @ ext
     \<and> map fst ext = [0x0008, 0x8028]"
  using stun_roundtrip [of "[(0x0006, [1, 2, 3]), (0x0024, [0, 0, 0, 9])]" 1 "replicate 12 5"
      "\<lambda>k m. replicate 20 1" "Some [7]" True]
  by (auto simp: attr_ok_def encodeAttribute_def)

text \<open>
  A relay verifies the MAC and the fingerprint it receives: the integrity attribute holds
  the HMAC of every byte before it, in a message without a fingerprint, and the fingerprint attribute the CRC of
  every byte before it, xored with the constant; so the lengths hashed ahead are those finally sent.
\<close>

theorem stun_integrity:
  assumes mac: "\<forall>k m. length (hmac k m) = 20"
  shows "(let m = buildStunMessage hmac t attrs txid (Some k) False
          in drop (length m - 20) m = hmac k (take (length m - 24) m))
       \<and> (let m = buildStunMessage hmac t attrs txid key True
          in get_u32be (drop (length m - 4) m) = crc32stun (take (length m - 8) m) XOR stunFingerprintXor)"
proof
  have mi: "length (encodeAttribute attrMessageIntegrity (hmac k m)) = 24"
    and mid: "drop 4 (encodeAttribute attrMessageIntegrity (hmac k m)) = hmac k m" for m
    using mac by (simp_all add: encodeAttribute_def)
  show "let m = buildStunMessage hmac t attrs txid (Some k) False
        in drop (length m - 20) m = hmac k (take (length m - 24) m)"
    by (simp add: buildStunMessage_def Let_def mi mid)
next
  have fp: "length (encodeAttribute attrFingerprint (put_u32be f)) = 8"
    and fpd: "get_u32be (drop 4 (encodeAttribute attrFingerprint (put_u32be f))) = f" for f
    by (simp_all add: encodeAttribute_def be32.get_put be32.get_put_only)
  have "get_u32be (drop (length m - 4) m) = crc32stun (take (length m - 8) m) XOR stunFingerprintXor"
    if "m = stun_header t (length (a @ encodeAttribute attrFingerprint (put_u32be f))) txid
          @ a @ encodeAttribute attrFingerprint (put_u32be f)"
      "f = crc32stun (stun_header t (length a + 8) txid @ a) XOR stunFingerprintXor" for m a f
    using that by (simp add: fp fpd)
  then show "let m = buildStunMessage hmac t attrs txid key True
        in get_u32be (drop (length m - 4) m) = crc32stun (take (length m - 8) m) XOR stunFingerprintXor"
    unfolding buildStunMessage_def Let_def by (simp only: if_True)
qed

theorem stun_integrity_witness:
  "(let m = buildStunMessage (\<lambda>k m. replicate 20 1) 1 [] (replicate 12 5) (Some [7]) False
    in drop (length m - 20) m = replicate 20 1)"
  using stun_integrity [of "\<lambda>k m. replicate 20 1" 1 "[]" "replicate 12 5" "[7]" "Some [7]"]
  by (simp only: Let_def length_replicate simp_thms)

section \<open>Relayed addresses\<close>

definition dotted :: "nat \<Rightarrow> nat \<Rightarrow> nat \<Rightarrow> nat \<Rightarrow> string" where
  "dotted a b c d = dec_of_nat a @ ''.'' @ dec_of_nat b @ ''.'' @ dec_of_nat c @ ''.'' @ dec_of_nat d"

lemma takeWhile_digits: "list_all is_digit ds \<Longrightarrow> rest = [] \<or> \<not> is_digit (hd rest) \<Longrightarrow>
    takeWhile is_digit (ds @ rest) = ds \<and> dropWhile is_digit (ds @ rest) = rest"
  by (induction ds; cases rest; auto)

lemma scan_int_dec:
  assumes "int n < 2 ^ 63" "rest = [] \<or> \<not> is_digit (hd rest)"
  shows "scan_int (dec_of_nat n @ rest) = Some (int n, rest)"
proof -
  obtain x xs where ds: "dec_of_nat n = x # xs" and dig: "list_all is_digit (x # xs)"
    using dec_of_nat_digits [of n] by (cases "dec_of_nat n") auto
  then have x: "\<not> is_blank x" "x \<noteq> CHR ''+''" "x \<noteq> CHR ''-''"
    by (auto simp: is_digit_def is_blank_def)
  have "atoi (dec_of_nat n) = Some (int n)"
    using atoi_itoa [of "int n"] assms(1) by (simp add: itoa_def)
  then show ?thesis
    using takeWhile_digits [OF dig assms(2)] x dig
    by (simp add: scan_int_def ds Let_def)
qed

lemma scan_dotted_last: "int n < 2 ^ 63 \<Longrightarrow> scan_dotted (Suc 0) (dec_of_nat n) = [int n]"
  using scan_int_dec [of n "[]"] by simp

lemma scan_dotted_more:
  assumes "int n < 2 ^ 63"
  shows "scan_dotted (Suc (Suc k)) (dec_of_nat n @ CHR ''.'' # rest) = int n # scan_dotted (Suc k) rest"
proof -
  have "scan_int (dec_of_nat n @ CHR ''.'' # rest) = Some (int n, CHR ''.'' # rest)"
    using assms by (intro scan_int_dec) (simp_all add: is_digit_def)
  then show ?thesis by (subst scan_dotted.simps) simp
qed

lemma scan_dotted_dotted:
  assumes "a < 256" "b < 256" "c < 256" "d < 256"
  shows "scan_dotted 4 (dotted a b c d) = [int a, int b, int c, int d]"
proof -
  have four: "(4 :: nat) = Suc (Suc (Suc (Suc 0)))" by simp
  have oct: "int n < 2 ^ 63" if "n < 256" for n using that by simp
  show ?thesis
    unfolding dotted_def append_Cons append_Nil using assms
    by (simp only: scan_dotted_more scan_dotted_last oct four)
qed

text \<open>
  The relayed address sent in an allocation is the relay's: undoing the exclusive or with the
  cookie gives back the port and the four numbers of the dotted address.
\<close>

theorem xor_relayed_address:
  assumes "a < 256" "b < 256" "c < 256" "d < 256" and "0 \<le> port" "port < 65536"
  shows "let x = encodeXorRelayedAddress (dotted a b c d) port
     in length x = 8 \<and> uint (get_u16be (drop 2 x) XOR 0x2112) = port
        \<and> put_u32be (get_u32be (drop 4 x) XOR stunMagicCookie) = [of_nat a, of_nat b, of_nat c, of_nat d]"
proof -
  have hi: "ucast (drop_bit 16 stunMagicCookie) = (0x2112 :: u16)" by (simp add: stunMagicCookie_def)
  have u8: "of_nat n = (ucast (of_nat n :: u8) :: u32)" if "n < 256" for n
    using that by (simp add: word_unat_eq_iff unsigned_ucast_eq unat_of_nat take_bit_nat_eq_self)
  have ip: "put_u32be (push_bit 24 (of_nat a) OR push_bit 16 (of_nat b) OR push_bit 8 (of_nat c) OR of_nat d)
      = [of_nat a, of_nat b, of_nat c, of_nat d]"
  proof -
    have "push_bit 24 (of_nat a) OR push_bit 16 (of_nat b) OR push_bit 8 (of_nat c) OR of_nat d
        = get_u32be [of_nat a, of_nat b, of_nat c, of_nat d]"
      using assms(1-4) by (simp add: get_u32be_def u8 [symmetric])
    then show ?thesis by (simp add: put_get_u32be)
  qed
  show ?thesis
    using assms scan_dotted_dotted [OF assms(1-4)]
    by (simp add: encodeXorRelayedAddress_def Let_def be16.get_put be32.get_put be32.get_put_only xor.assoc hi ip
        uint_of_int_u16)
qed

theorem xor_relayed_address_witness:
  "let x = encodeXorRelayedAddress (dotted 157 240 1 9) 3478
   in length x = 8 \<and> uint (get_u16be (drop 2 x) XOR 0x2112) = 3478"
  using xor_relayed_address [of 157 240 1 9 3478] by (simp add: Let_def)

section \<open>Telling packets apart\<close>

lemma stun_first_byte:
  "0 \<le> t \<Longrightarrow> t < 0x4000 \<Longrightarrow> (stun_header t n txid @ rest) ! 0 AND 0xc0 = 0"
proof -
  assume t: "0 \<le> t" "t < 0x4000"
  have first: "(stun_header t n txid @ rest) ! 0 = ucast (drop_bit 8 (of_int t :: u16))"
    by (simp add: stun_header_def blit_def put_u16be_def)
  have hi: "\<not> bit t k" if "14 \<le> k" for k
  proof -
    have "take_bit 14 t = t" using t by (intro take_bit_int_eq_self) auto
    then show ?thesis using that by (metis bit_take_bit_iff leD)
  qed
  have mask: "(0xc0 :: u8) = push_bit 6 (mask 2)" by (simp add: mask_eq_exp_minus_1)
  show ?thesis
    unfolding first mask by (intro bit_word_eqI) (auto simp: bit_simps hi)
qed

lemma IsStunPacket_build: "0 \<le> t \<Longrightarrow> t < 0x4000 \<Longrightarrow> IsStunPacket (buildStunMessage hmac t attrs txid key fp)"
  using stun_first_byte [of t] by (simp add: IsStunPacket_def buildStunMessage_def Let_def)

lemma IsStunPacket_ping: "IsStunPacket (BuildWhatsAppPing txid)"
  using stun_first_byte [of whatsappPing 0 txid "[]"]
  by (simp add: IsStunPacket_def BuildWhatsAppPing_def whatsappPing_def)

lemma IsRtpPacket_header: "rtp_canonical h \<Longrightarrow> IsRtpPacket (header_bytes h @ payload)"
proof -
  assume can: "rtp_canonical h"
  have mask: "(0xc0 :: u8) = push_bit 6 (mask 2)" "(0x03 :: u8) = mask 2" by (simp_all add: mask_eq_exp_minus_1)
  have "rtp_byte0 h AND 0xc0 = push_bit 6 (drop_bit 6 (rtp_byte0 h) AND 0x03)"
    unfolding mask by (intro bit_word_eqI) (auto simp: bit_simps)
  with can have "rtp_byte0 h AND 0xc0 = 0x80"
    by (simp add: rtp_byte0_version rtp_canonical_def rtpVersion_def)
  then show ?thesis by (simp add: IsRtpPacket_def header_bytes_def)
qed

text \<open>
  The two kinds of packets a relay connection carries are told apart: no packet is both, every
  encoded RTP packet is taken for RTP, and every message this file builds for STUN.
\<close>

theorem packets_demultiplex:
  "\<not> (IsStunPacket data \<and> IsRtpPacket data)
   \<and> (rtp_canonical h \<longrightarrow> IsRtpPacket (header_bytes h @ payload))
   \<and> (0 \<le> t \<and> t < 0x4000 \<longrightarrow> IsStunPacket (buildStunMessage hmac t attrs txid key fp))
   \<and> IsStunPacket (BuildWhatsAppPing txid)"
  by (auto simp: IsStunPacket_build IsStunPacket_ping IsRtpPacket_header)
    (simp add: IsStunPacket_def IsRtpPacket_def split: if_splits)

theorem packets_demultiplex_witness:
  "IsRtpPacket (header_bytes (NewRtpHeader 120 1 2 3\<lparr>rh_Marker := True\<rparr>) @ [9])
   \<and> IsStunPacket (buildStunMessage (\<lambda>k m. replicate 20 1) 3 [] (replicate 12 5) (Some [7]) False)"
  using packets_demultiplex [where h = "NewRtpHeader 120 1 2 3\<lparr>rh_Marker := True\<rparr>" and payload = "[9]" and t = 3
      and hmac = "\<lambda>k m. replicate 20 1" and attrs = "[]" and txid = "replicate 12 5" and key = "Some [7]"
      and fp = False] NewRtpHeader_canonical [where pt = 120 and seq = 1 and ts = 2 and ssrc = 3 and m = True]
  by simp

end
