(* ===== verification/Subscriptions.thy ===== *)
theory Subscriptions
  imports Prelude
begin

text \<open>
  The protobuf payloads of the relay subscriptions (\<^verbatim>\<open>internal/voip/transport/subscriptions.go\<close>) and a
  reference reader of the wire format, against which the writers are proved correct.
\<close>

function encodeVarint :: "u64 \<Rightarrow> bytes" where
  "encodeVarint v =
     (if 0x7f < v then ucast ((v AND 0x7f) OR 0x80) # encodeVarint (drop_bit 7 v)
      else [ucast (v AND 0x7f)])"
  by pat_completeness auto

lemma unat_drop7: "unat (drop_bit 7 (v :: u64)) = unat v div 128"
  by (simp add: drop_bit_eq_div unat_div)

lemma varint_shift: "0x7f < (v :: u64) \<Longrightarrow> unat (drop_bit 7 v) < unat v"
  unfolding unat_drop7 by (simp add: word_less_nat_alt)

termination encodeVarint
  by (relation "measure unat") (auto dest: varint_shift)

declare encodeVarint.simps [simp del]

definition encodeProtobufVarintField :: "int \<Rightarrow> u64 \<Rightarrow> bytes" where
  "encodeProtobufVarintField fieldNumber value =
     encodeVarint (of_int (push_bit 3 fieldNumber)) @ encodeVarint value"

definition encodeProtobufLengthDelimited :: "int \<Rightarrow> bytes \<Rightarrow> bytes" where
  "encodeProtobufLengthDelimited fieldNumber data =
     encodeVarint (of_int (push_bit 3 fieldNumber OR 2)) @ encodeVarint (of_nat (length data)) @ data"

definition BuildSenderSubscriptions :: "u32 \<Rightarrow> bytes" where
  "BuildSenderSubscriptions ssrc =
     (let inner = concat [encodeProtobufVarintField 3 (ucast ssrc), encodeProtobufVarintField 5 0,
                          encodeProtobufVarintField 6 0]
      in encodeProtobufLengthDelimited 1 inner)"

text \<open>The loop over the SSRCs of one participant.\<close>

fun subscription_entries :: "int \<Rightarrow> u32 list \<Rightarrow> bytes list" where
  "subscription_entries pid [] = []"
| "subscription_entries pid (ssrc # ssrcs) =
     (if ssrc = 0 then subscription_entries pid ssrcs
      else
        let inner = concat [encodeProtobufVarintField 1 (of_int pid), encodeProtobufVarintField 2 1,
                            encodeProtobufVarintField 3 (ucast ssrc)]
        in encodeProtobufLengthDelimited 1 inner # subscription_entries pid ssrcs)"

definition BuildSSRCSubscriptionList :: "u32 list \<Rightarrow> u32 list \<Rightarrow> int \<Rightarrow> int \<Rightarrow> bytes" where
  "BuildSSRCSubscriptionList selfSsrcs peerSsrcs selfPid peerPid =
     concat (subscription_entries selfPid selfSsrcs @ subscription_entries peerPid peerSsrcs)"

section \<open>The reference reader\<close>

fun read_varint :: "bytes \<Rightarrow> (nat \<times> bytes) option" where
  "read_varint [] = None"
| "read_varint (b # bs) =
     (if unat b < 128 then Some (unat b, bs)
      else case read_varint bs of
             None \<Rightarrow> None
           | Some (n, rest) \<Rightarrow> Some (unat b - 128 + 128 * n, rest))"

datatype pb_value = Varint nat | Chunk bytes

definition read_field :: "bytes \<Rightarrow> ((nat \<times> pb_value) \<times> bytes) option" where
  "read_field bs =
     (case read_varint bs of None \<Rightarrow> None
      | Some (tag, r) \<Rightarrow>
          (case read_varint r of None \<Rightarrow> None
           | Some (n, r2) \<Rightarrow>
               if tag mod 8 = 0 then Some ((tag div 8, Varint n), r2)
               else if tag mod 8 = 2 \<and> n \<le> length r2 then Some ((tag div 8, Chunk (take n r2)), drop n r2)
               else None))"

text \<open>Reads at most \<open>fuel\<close> fields; a message of \<open>n\<close> bytes has at most \<open>n\<close> of them.\<close>

fun read_fields :: "nat \<Rightarrow> bytes \<Rightarrow> (nat \<times> pb_value) list option" where
  "read_fields fuel [] = Some []"
| "read_fields 0 (b # bs) = None"
| "read_fields (Suc fuel) (b # bs) =
     (case read_field (b # bs) of None \<Rightarrow> None
      | Some (f, rest) \<Rightarrow> map_option ((#) f) (read_fields fuel rest))"

definition read_message :: "bytes \<Rightarrow> (nat \<times> pb_value) list option" where
  "read_message bs = read_fields (length bs) bs"

lemma low7: "(v :: u64) AND 0x7f = take_bit 7 v"
  by (simp add: take_bit_eq_mask mask_eq_exp_minus_1)

lemma unat_low7_high: "unat (ucast ((v AND 0x7f) OR 0x80) :: u8) = unat (v :: u64) mod 128 + 128"
proof -
  have "(v AND 0x7f) OR 0x80 = (v AND 0x7f) + 0x80"
  proof (rule disjunctive_add [symmetric])
    fix n
    have high: "bit (0x80 :: u64) n \<longleftrightarrow> n = 7"
      using bit_exp_iff [where 'a = "64 word", of 7 n] by auto
    show "\<not> bit (v AND 0x7f) n \<or> \<not> bit (0x80 :: u64) n"
      unfolding low7 high by (auto simp: bit_simps)
  qed
  moreover have "unat (v AND 0x7f) = unat v mod 128"
    unfolding low7 by (simp add: take_bit_eq_mod unat_mod)
  ultimately show ?thesis
    by (simp add: unsigned_ucast_eq take_bit_eq_mod unat_word_ariths)
qed

lemma unat_low7: "v \<le> 0x7f \<Longrightarrow> unat (ucast ((v :: u64) AND 0x7f) :: u8) = unat v"
proof -
  assume "v \<le> 0x7f"
  then have "unat v < 128" by (simp add: word_le_nat_alt)
  then show ?thesis
    unfolding low7 by (simp add: unsigned_ucast_eq unsigned_take_bit_eq take_bit_nat_eq_self)
qed

lemma read_varint_encode: "read_varint (encodeVarint v @ rest) = Some (unat v, rest)"
proof (induction v rule: encodeVarint.induct)
  case (1 v)
  show ?case
  proof (cases "0x7f < v")
    case True
    have "unat (drop_bit 7 v) = unat v div 128" by (rule unat_drop7)
    with 1 True show ?thesis
      by (subst encodeVarint.simps) (simp add: unat_low7_high)
  next
    case False
    then have "unat v < 128" by (simp add: word_less_nat_alt)
    moreover have "encodeVarint v = [ucast (v AND 0x7f)]"
      using encodeVarint.simps [of v] by (simp only: False if_False)
    ultimately show ?thesis using False by (simp add: unat_low7 not_less)
  qed
qed

lemma encodeVarint_ne [simp]: "encodeVarint v \<noteq> []"
  by (simp add: encodeVarint.simps [of v])

lemma length_encodeVarint: "unat v < 2 ^ (7 * n) \<Longrightarrow> 0 < n \<Longrightarrow> length (encodeVarint v) \<le> n"
proof (induction n arbitrary: v)
  case 0
  then show ?case by simp
next
  case (Suc n)
  show ?case
  proof (cases "0x7f < v")
    case True
    have "unat (drop_bit 7 v) = unat v div 128" by (rule unat_drop7)
    with Suc.prems have small: "unat (drop_bit 7 v) < 2 ^ (7 * n)" by (simp add: power_add less_mult_imp_div_less mult.commute)
    have "n \<noteq> 0"
    proof
      assume "n = 0"
      with small have "unat (drop_bit 7 v) = 0" by simp
      with True \<open>unat (drop_bit 7 v) = unat v div 128\<close> show False by (simp add: word_less_nat_alt)
    qed
    with Suc.IH [OF small] True show ?thesis by (subst encodeVarint.simps) simp
  next
    case False
    then show ?thesis by (subst encodeVarint.simps) simp
  qed
qed

lemma read_varint_field:
  "unat w mod 8 = 0 \<Longrightarrow>
   read_field (encodeVarint w @ encodeVarint v @ rest) = Some ((unat w div 8, Varint (unat v)), rest)"
  by (simp add: read_field_def read_varint_encode)

lemma read_chunk_field:
  "unat w mod 8 = 2 \<Longrightarrow> length d < 2 ^ 64 \<Longrightarrow>
   read_field (encodeVarint w @ encodeVarint (of_nat (length d)) @ d @ rest) = Some ((unat w div 8, Chunk d), rest)"
  by (simp add: read_field_def read_varint_encode unat_of_nat take_bit_nat_eq_self)

lemma read_fields_step:
  "read_field bs = Some (f, rest) \<Longrightarrow> length rest < length bs \<Longrightarrow>
     read_fields (Suc n) bs = map_option ((#) f) (read_fields n rest)"
  by (cases bs) auto

lemma read_fields_mono: "read_fields n bs = Some fs \<Longrightarrow> n \<le> m \<Longrightarrow> read_fields m bs = Some fs"
proof (induction n bs arbitrary: m fs rule: read_fields.induct)
  case (3 fuel b bs)
  then obtain k where m: "m = Suc k" "fuel \<le> k" by (cases m) auto
  from 3(2) obtain f rest gs where rf: "read_field (b # bs) = Some (f, rest)"
    and gs: "read_fields fuel rest = Some gs" and fs: "fs = f # gs" by (auto split: option.splits)
  have "read_fields k rest = Some gs" using 3(1) [OF rf refl gs m(2)] .
  then show ?case by (simp add: m rf fs)
qed auto


section \<open>Writers against the reader\<close>

fun put_field :: "nat \<times> pb_value \<Rightarrow> bytes" where
  "put_field (f, Varint n) = encodeProtobufVarintField (int f) (of_nat n)"
| "put_field (f, Chunk d) = encodeProtobufLengthDelimited (int f) d"

fun field_ok :: "nat \<times> pb_value \<Rightarrow> bool" where
  "field_ok (f, Varint n) \<longleftrightarrow> f < 2 ^ 60 \<and> n < 2 ^ 64"
| "field_ok (f, Chunk d) \<longleftrightarrow> f < 2 ^ 60 \<and> length d < 2 ^ 64"

lemma unat_of_int_nat: "n < 2 ^ 64 \<Longrightarrow> unat (of_int (int n) :: u64) = n"
  by (simp add: unat_of_nat take_bit_nat_eq_self)

lemma shift3: "push_bit 3 (int f) = int (8 * f)" "push_bit 3 (int f) OR 2 = int (8 * f + 2)"
proof -
  have "push_bit 3 (int f) OR 2 = push_bit 3 (int f) + 2"
  proof (rule disjunctive_add [symmetric])
    fix n
    have "bit (2 :: int) n \<longleftrightarrow> n = 1" using bit_exp_iff [where 'a = int, of 1 n] by auto
    then show "\<not> bit (push_bit 3 (int f)) n \<or> \<not> bit (2 :: int) n" by (auto simp: bit_push_bit_iff)
  qed
  then show "push_bit 3 (int f) = int (8 * f)" "push_bit 3 (int f) OR 2 = int (8 * f + 2)"
    by (simp_all add: push_bit_eq_mult)
qed

lemma read_put_field: "field_ok x \<Longrightarrow> read_field (put_field x @ rest) = Some (x, rest)"
proof (cases x rule: put_field.cases)
  case (1 f n)
  moreover assume "field_ok x"
  ultimately have "f < 2 ^ 60" "n < 2 ^ 64" by simp_all
  moreover have "unat (of_int (int (8 * f)) :: u64) = 8 * f"
    using \<open>f < 2 ^ 60\<close> by (intro unat_of_int_nat) simp
  ultimately show ?thesis
    using 1 read_varint_field [of "of_int (int (8 * f))" "of_nat n" rest]
    by (simp add: encodeProtobufVarintField_def shift3 unat_of_nat take_bit_nat_eq_self del: of_int_of_nat_eq of_nat_mult)
next
  case (2 f d)
  moreover assume "field_ok x"
  ultimately have "f < 2 ^ 60" "length d < 2 ^ 64" by simp_all
  moreover have "unat (of_int (int (8 * f + 2)) :: u64) = 8 * f + 2"
    using \<open>f < 2 ^ 60\<close> by (intro unat_of_int_nat) simp
  moreover have "(8 * f + 2) mod 8 = 2" "(8 * f + 2) div 8 = f" by presburger+
  ultimately show ?thesis
    using read_chunk_field [of "of_int (int (8 * f + 2))" d rest]
    unfolding 2 put_field.simps encodeProtobufLengthDelimited_def shift3(2)
    by (simp only: append_assoc)
qed

lemma put_field_ne: "put_field x \<noteq> []"
  by (cases x rule: put_field.cases)
    (simp_all add: encodeProtobufVarintField_def encodeProtobufLengthDelimited_def)

lemma read_fields_put:
  "list_all field_ok fs \<Longrightarrow> length fs \<le> n \<Longrightarrow> read_fields n (concat (map put_field fs)) = Some fs"
proof (induction fs arbitrary: n)
  case Nil
  then show ?case by (cases n) auto
next
  case (Cons x fs)
  then obtain m where m: "n = Suc m" "length fs \<le> m" by (cases n) auto
  have "read_field (put_field x @ concat (map put_field fs)) = Some (x, concat (map put_field fs))"
    using Cons.prems by (intro read_put_field) simp
  then have "read_fields (Suc m) (put_field x @ concat (map put_field fs)) =
      map_option ((#) x) (read_fields m (concat (map put_field fs)))"
    by (rule read_fields_step) (simp add: put_field_ne)
  with Cons.IH [of m] Cons.prems m show ?case by simp
qed

lemma length_concat_fields: "length fs \<le> length (concat (map put_field fs))"
proof (induction fs)
  case (Cons x fs)
  moreover have "1 \<le> length (put_field x)" using put_field_ne [of x] by (cases "put_field x") auto
  ultimately show ?case by simp
qed simp

lemma read_message_put: "list_all field_ok fs \<Longrightarrow> read_message (concat (map put_field fs)) = Some fs"
  unfolding read_message_def by (rule read_fields_put) (simp_all add: length_concat_fields)

text \<open>Reads a list of subscriptions as pairs of participant and SSRC.\<close>

definition read_subscription :: "nat \<times> pb_value \<Rightarrow> (nat \<times> nat) option" where
  "read_subscription x =
     (case x of
        (k, Chunk d) \<Rightarrow>
          (case read_message d of
             Some [(i, Varint p), (j, Varint e), (l, Varint s)] \<Rightarrow>
               if k = 1 \<and> i = 1 \<and> j = 2 \<and> e = 1 \<and> l = 3 then Some (p, s) else None
           | _ \<Rightarrow> None)
      | _ \<Rightarrow> None)"

definition read_subscriptions :: "bytes \<Rightarrow> (nat \<times> nat) option list option" where
  "read_subscriptions bs = map_option (map read_subscription) (read_message bs)"

definition subscription_fields :: "int \<Rightarrow> u32 \<Rightarrow> (nat \<times> pb_value) list" where
  "subscription_fields pid ssrc = [(1, Varint (unat (of_int pid :: u64))), (2, Varint 1), (3, Varint (unat ssrc))]"

lemma subscription_fields_ok: "list_all field_ok (subscription_fields pid ssrc)"
proof -
  have "unat (of_int pid :: u64) < 2 ^ LENGTH(64)" "unat ssrc < 2 ^ LENGTH(32)"
    by (rule unsigned_less)+
  then show ?thesis by (simp add: subscription_fields_def)
qed

lemma varint_field_length: "length (encodeProtobufVarintField f v) \<le> 20"
proof -
  have "length (encodeVarint w) \<le> 10" for w
  proof (rule length_encodeVarint)
    have "unat w < 2 ^ LENGTH(64)" by (rule unsigned_less)
    then show "unat w < 2 ^ (7 * 10)" by simp
  qed simp
  from this [of "of_int (push_bit 3 f)"] this [of v] show ?thesis
    by (simp add: encodeProtobufVarintField_def)
qed

lemma subscription_entries_fields:
  "subscription_entries pid ssrcs =
     map (\<lambda>s. put_field (1, Chunk (concat (map put_field (subscription_fields pid s))))) (filter (\<lambda>s. s \<noteq> 0) ssrcs)"
  by (induction ssrcs) (simp_all add: subscription_fields_def Let_def)

lemma length_subscription: "length (concat (map put_field (subscription_fields pid s))) < 2 ^ 64"
  using varint_field_length [of 1 "of_int pid"] varint_field_length [of 2 1] varint_field_length [of 3 "ucast s"]
  by (simp add: subscription_fields_def)

lemma read_subscription_field:
  "read_subscription (1, Chunk (concat (map put_field (subscription_fields pid s)))) =
     Some (unat (of_int pid :: u64), unat s)"
  using read_message_put [OF subscription_fields_ok, of pid s]
  by (simp add: read_subscription_def) (simp add: subscription_fields_def)

text \<open>
  The subscription list a relay reads names, in order, each SSRC of the caller and of the
  peer with its participant id, skipping the ones that are zero.
\<close>

theorem subscription_list_read_back:
  "read_subscriptions (BuildSSRCSubscriptionList selfSsrcs peerSsrcs selfPid peerPid) =
     Some (map (\<lambda>s. Some (unat (of_int selfPid :: u64), unat s)) (filter (\<lambda>s. s \<noteq> 0) selfSsrcs)
           @ map (\<lambda>s. Some (unat (of_int peerPid :: u64), unat s)) (filter (\<lambda>s. s \<noteq> 0) peerSsrcs))"
proof -
  let ?f = "\<lambda>pid s. (1, Chunk (concat (map put_field (subscription_fields pid s))))"
  let ?fs = "map (?f selfPid) (filter (\<lambda>s. s \<noteq> 0) selfSsrcs) @ map (?f peerPid) (filter (\<lambda>s. s \<noteq> 0) peerSsrcs)"
  have "BuildSSRCSubscriptionList selfSsrcs peerSsrcs selfPid peerPid = concat (map put_field ?fs)"
    by (simp add: BuildSSRCSubscriptionList_def subscription_entries_fields comp_def)
  moreover have "list_all field_ok ?fs"
    using length_subscription by (auto simp: list_all_iff simp del: concat.simps)
  ultimately have "read_message (BuildSSRCSubscriptionList selfSsrcs peerSsrcs selfPid peerPid) = Some ?fs"
    by (simp only: read_message_put)
  then show ?thesis
    by (simp only: read_subscriptions_def option.map map_append list.map_comp comp_def read_subscription_field)
qed

end
