(* ===== verification/Relay.thy ===== *)
theory Relay
  imports Stun Subscriptions CoreTypes "HOL-Library.AList"
begin

text \<open>
  The relay connections of a call (\<^verbatim>\<open>internal/voip/transport/sctprelay.go\<close>). A connection object is a cell
  of a heap (a list, never shrinking), because the callbacks of a connection keep a pointer to it after it has left
  the manager's map; the map is an association list from connection ids to cells. What WebRTC does is the
  argument of a step: how the set-up of a peer connection went, which callback fires. Messages handed to a data
  channel are appended to a log. The munging of SDP text is not modelled.
\<close>

datatype relayConnState = relayStateConnecting | relayStateOpen | relayStateClosed | relayStateFailed

record RelayConfig =
  rc_IP :: string
  rc_Port :: int
  rc_Token :: string
  rc_AuthToken :: string
  rc_RawAuthToken :: "bytes option"
  rc_RawToken :: "bytes option"
  rc_Key :: string
  rc_RelayID :: int
  rc_Name :: string
  rc_AuthTokenID :: string

record relayConnection =
  cn_state :: relayConnState
  cn_pc :: bool
  cn_channel :: bool
  cn_id :: string
  cn_info :: RelayConfig
  cn_localUfrag :: string
  cn_keepalive :: bool
  cn_stopped :: bool

record SctpRelayManager =
  rm_heap :: "relayConnection list"
  rm_connections :: "(string \<times> nat) list"
  rm_audioSsrc :: u32
  rm_subscriptionSsrc :: u32
  rm_sent :: "(nat \<times> bytes) list"
  rm_connected :: "(string \<times> int) list"
  rm_draws :: nat

text \<open>How far the set-up of a peer connection got; a completed one has the offer's ICE user fragment.\<close>

datatype pc_outcome = PcError | ChannelError | OfferError | RemoteError string | Negotiated string

type_synonym rand = "nat \<Rightarrow> nat \<Rightarrow> bytes"

definition NewSctpRelayManager :: SctpRelayManager where
  "NewSctpRelayManager = \<lparr>rm_heap = [], rm_connections = [], rm_audioSsrc = 0, rm_subscriptionSsrc = 0,
     rm_sent = [], rm_connected = [], rm_draws = 0\<rparr>"

definition SetSsrc :: "SctpRelayManager \<Rightarrow> u32 \<Rightarrow> SctpRelayManager" where
  "SetSsrc m ssrc = m\<lparr>rm_audioSsrc := ssrc\<rparr>"

definition SetSubscriptionSsrc :: "SctpRelayManager \<Rightarrow> u32 \<Rightarrow> SctpRelayManager" where
  "SetSubscriptionSsrc m ssrc = m\<lparr>rm_subscriptionSsrc := ssrc\<rparr>"

definition connID :: "string \<Rightarrow> int \<Rightarrow> string \<Rightarrow> string" where
  "connID ip port authTokenID =
     (let base = ip @ '':'' @ itoa port
      in if authTokenID \<noteq> '''' then base @ ''#'' @ authTokenID else base)"

abbreviation conn_at :: "SctpRelayManager \<Rightarrow> nat \<Rightarrow> relayConnection" where
  "conn_at m r \<equiv> rm_heap m ! r"

definition set_conn :: "SctpRelayManager \<Rightarrow> nat \<Rightarrow> relayConnection \<Rightarrow> SctpRelayManager" where
  "set_conn m r c = m\<lparr>rm_heap := (rm_heap m)[r := c]\<rparr>"

definition teardown :: "SctpRelayManager \<Rightarrow> nat \<Rightarrow> SctpRelayManager" where
  "teardown m r = set_conn m r ((conn_at m r)\<lparr>cn_stopped := True, cn_keepalive := False\<rparr>)"

definition failConnection :: "SctpRelayManager \<Rightarrow> nat \<Rightarrow> SctpRelayManager" where
  "failConnection m r =
     (if cn_state (conn_at m r) = relayStateFailed then m
      else
        let m1 = set_conn m r ((conn_at m r)\<lparr>cn_state := relayStateFailed\<rparr>);
            m2 = m1\<lparr>rm_connections := AList.delete (cn_id (conn_at m r)) (rm_connections m1)\<rparr>
        in teardown m2 r)"

definition closeConnection :: "SctpRelayManager \<Rightarrow> string \<Rightarrow> SctpRelayManager" where
  "closeConnection m i =
     (case map_of (rm_connections m) i of
        None \<Rightarrow> m
      | Some r \<Rightarrow>
          let m1 = set_conn m r ((conn_at m r)\<lparr>cn_state := relayStateClosed\<rparr>);
              m2 = m1\<lparr>rm_connections := AList.delete i (rm_connections m1)\<rparr>
          in teardown m2 r)"

definition connectToRelay :: "SctpRelayManager \<Rightarrow> RelayConfig \<Rightarrow> pc_outcome \<Rightarrow> SctpRelayManager" where
  "connectToRelay m info outc =
     (let i = connID (rc_IP info) (rc_Port info) (rc_AuthTokenID info);
          r = length (rm_heap m);
          conn = \<lparr>cn_state = relayStateConnecting, cn_pc = False, cn_channel = False, cn_id = i, cn_info = info,
                  cn_localUfrag = '''', cn_keepalive = False, cn_stopped = False\<rparr>;
          m1 = m\<lparr>rm_heap := rm_heap m @ [conn], rm_connections := AList.update i r (rm_connections m)\<rparr>
      in case outc of
           PcError \<Rightarrow> failConnection m1 r
         | ChannelError \<Rightarrow> failConnection (set_conn m1 r (conn\<lparr>cn_pc := True\<rparr>)) r
         | OfferError \<Rightarrow> failConnection (set_conn m1 r (conn\<lparr>cn_pc := True, cn_channel := True\<rparr>)) r
         | RemoteError ufrag \<Rightarrow>
             failConnection (set_conn m1 r (conn\<lparr>cn_pc := True, cn_channel := True, cn_localUfrag := ufrag\<rparr>)) r
         | Negotiated ufrag \<Rightarrow>
             set_conn m1 r (conn\<lparr>cn_pc := True, cn_channel := True, cn_localUfrag := ufrag\<rparr>))"

text \<open>
  The membership tests are made before the spawned connections are entered, and all of them are awaited.
\<close>

definition ConfigureRelays :: "SctpRelayManager \<Rightarrow> (RelayConfig \<times> pc_outcome) list \<Rightarrow> SctpRelayManager" where
  "ConfigureRelays m relays =
     (let withPort = map (\<lambda>(r, oc). (r\<lparr>rc_Port := (if rc_Port r = 0 then WARelayPort else rc_Port r)\<rparr>, oc)) relays;
          fresh = filter (\<lambda>(r, oc). map_of (rm_connections m) (connID (rc_IP r) (rc_Port r) (rc_AuthTokenID r)) = None)
                    withPort
      in foldl (\<lambda>m (r, oc). connectToRelay m r oc) m fresh)"

definition sendRaw :: "SctpRelayManager \<Rightarrow> nat \<Rightarrow> bytes \<Rightarrow> SctpRelayManager" where
  "sendRaw m r data =
     (if \<not> cn_channel (conn_at m r) \<or> cn_state (conn_at m r) \<noteq> relayStateOpen then m
      else m\<lparr>rm_sent := rm_sent m @ [(r, data)]\<rparr>)"

text \<open>The messages one registration consists of, drawing random bytes from position \<open>d\<close> on.\<close>

definition registration :: "hmac \<Rightarrow> rand \<Rightarrow> nat \<Rightarrow> u32 \<Rightarrow> u32 \<Rightarrow> RelayConfig \<Rightarrow> string \<Rightarrow> bytes list" where
  "registration hmac rnd d audioSsrc subscriptionSsrc info localUfrag =
     (let remoteUfrag = (if rc_AuthToken info = '''' then rc_Token info else rc_AuthToken info);
          hmacKey = bytes_of (rc_Key info);
          ssrc = (if subscriptionSsrc = 0 then audioSsrc else subscriptionSsrc);
          subs = BuildSenderSubscriptions ssrc
      in if remoteUfrag = '''' \<or> ssrc = 0 then []
      else
        (if localUfrag \<noteq> '''' then
           [BuildBindingRequestWithSubs hmac (rnd d 12) (rnd (d + 1) 8)
              (bytes_of (remoteUfrag @ '':'' @ localUfrag)) hmacKey subs True True]
         else [])
        @ (if rc_Token info \<noteq> '''' \<and> rc_Token info \<noteq> remoteUfrag \<and> localUfrag \<noteq> '''' then
           [BuildBindingRequestWithSubs hmac (rnd (d + 2) 12) (rnd (d + 3) 8)
              (bytes_of (rc_Token info @ '':'' @ localUfrag)) hmacKey subs True True]
         else [])
        @ [BuildBindingRequestWithSubs hmac (rnd (d + 4) 12) [] [] [] subs False False]
        @ (case rc_RawToken info of
             None \<Rightarrow> []
           | Some rawToken \<Rightarrow>
               if 0 < length rawToken then
                 let peerSsrcs = (if subscriptionSsrc \<noteq> 0 then [subscriptionSsrc] else []);
                     ssrcList = BuildSSRCSubscriptionList [audioSsrc] peerSsrcs 0 0
                 in [BuildAllocateForRelay hmac (rnd (d + 5) 12) rawToken ssrcList (Some hmacKey)
                       (rc_IP info) (rc_Port info)]
               else []))"

text \<open>The closure \<^verbatim>\<open>send\<close>: run at once when the channel opens, and again by the delayed timers.\<close>

definition sendRegistration :: "hmac \<Rightarrow> rand \<Rightarrow> SctpRelayManager \<Rightarrow> nat \<Rightarrow> SctpRelayManager" where
  "sendRegistration hmac rnd m r =
     (let c = conn_at m r
      in if cn_state c \<noteq> relayStateOpen \<or> \<not> cn_channel c then m
      else foldl (\<lambda>m b. sendRaw m r b) (m\<lparr>rm_draws := rm_draws m + 6\<rparr>)
             (registration hmac rnd (rm_draws m) (rm_audioSsrc m) (rm_subscriptionSsrc m) (cn_info c) (cn_localUfrag c)))"

definition sendStunRegistration :: "hmac \<Rightarrow> rand \<Rightarrow> SctpRelayManager \<Rightarrow> nat \<Rightarrow> SctpRelayManager" where
  "sendStunRegistration hmac rnd m r = sendRegistration hmac rnd m r"

definition startKeepalive :: "rand \<Rightarrow> SctpRelayManager \<Rightarrow> nat \<Rightarrow> SctpRelayManager" where
  "startKeepalive rnd m r =
     (let m1 = sendRaw (m\<lparr>rm_draws := rm_draws m + 1\<rparr>) r (BuildWhatsAppPing (rnd (rm_draws m) 12))
      in set_conn m1 r ((conn_at m1 r)\<lparr>cn_keepalive := True\<rparr>))"

definition ResendSubscriptions :: "hmac \<Rightarrow> rand \<Rightarrow> SctpRelayManager \<Rightarrow> SctpRelayManager" where
  "ResendSubscriptions hmac rnd m =
     foldl (\<lambda>m r. if cn_state (conn_at m r) = relayStateOpen \<and> cn_channel (conn_at m r)
                  then sendStunRegistration hmac rnd m r else m) m (map snd (rm_connections m))"

definition Broadcast :: "SctpRelayManager \<Rightarrow> bytes \<Rightarrow> SctpRelayManager" where
  "Broadcast m data = foldl (\<lambda>m r. sendRaw m r data) m (map snd (rm_connections m))"

definition HasConnection :: "SctpRelayManager \<Rightarrow> bool" where
  "HasConnection m \<longleftrightarrow> list_ex (\<lambda>(i, r). cn_state (conn_at m r) = relayStateOpen) (rm_connections m)"

definition ConnectedCount :: "SctpRelayManager \<Rightarrow> nat" where
  "ConnectedCount m = length (filter (\<lambda>(i, r). cn_state (conn_at m r) = relayStateOpen) (rm_connections m))"

definition Cleanup :: "SctpRelayManager \<Rightarrow> SctpRelayManager" where
  "Cleanup m =
     foldl teardown (m\<lparr>rm_connections := [], rm_audioSsrc := 0, rm_subscriptionSsrc := 0\<rparr>)
       (map snd (rm_connections m))"

section \<open>The callbacks and timers of a connection\<close>

definition onOpen :: "hmac \<Rightarrow> rand \<Rightarrow> SctpRelayManager \<Rightarrow> nat \<Rightarrow> SctpRelayManager" where
  "onOpen hmac rnd m r =
     (let m1 = set_conn m r ((conn_at m r)\<lparr>cn_state := relayStateOpen\<rparr>);
          m2 = sendStunRegistration hmac rnd m1 r;
          m3 = startKeepalive rnd m2 r;
          info = cn_info (conn_at m r)
      in m3\<lparr>rm_connected := rm_connected m3 @ [(rc_IP info, rc_Port info)]\<rparr>)"

datatype relay_event =
    Configure "(RelayConfig \<times> pc_outcome) list"
  | Opened nat        \<comment> \<open>the channel opens\<close>
  | ChannelClosed nat \<comment> \<open>the channel closes\<close>
  | IceFailed nat     \<comment> \<open>ICE failed or disconnected\<close>
  | ConnectTimeout nat
  | DelayedSend nat   \<comment> \<open>one of the four delayed registrations\<close>
  | KeepaliveTick nat
  | Resend
  | Send bytes
  | CleanUp
  | SetAudio u32
  | SetSubscription u32

text \<open>
  Callbacks exist once the object they are registered on does, and timers stop with their connection.
\<close>

fun relay_step :: "hmac \<Rightarrow> rand \<Rightarrow> SctpRelayManager \<Rightarrow> relay_event \<Rightarrow> SctpRelayManager" where
  "relay_step hmac rnd m (Configure rs) = ConfigureRelays m rs"
| "relay_step hmac rnd m (Opened r) = 
     (if r < length (rm_heap m) \<and> cn_channel (conn_at m r) then onOpen hmac rnd m r else m)"
| "relay_step hmac rnd m (ChannelClosed r) =
     (if r < length (rm_heap m) \<and> cn_channel (conn_at m r) then closeConnection m (cn_id (conn_at m r)) else m)"
| "relay_step hmac rnd m (IceFailed r) = 
     (if r < length (rm_heap m) \<and> cn_pc (conn_at m r) then failConnection m r else m)"
| "relay_step hmac rnd m (ConnectTimeout r) =
     (if r < length (rm_heap m) \<and> \<not> cn_stopped (conn_at m r) \<and> cn_state (conn_at m r) = relayStateConnecting
      then failConnection m r else m)"
| "relay_step hmac rnd m (DelayedSend r) =
     (if r < length (rm_heap m) \<and> \<not> cn_stopped (conn_at m r) \<and> cn_state (conn_at m r) = relayStateOpen
      then sendRegistration hmac rnd m r else m)"
| "relay_step hmac rnd m (KeepaliveTick r) =
     (if r < length (rm_heap m) \<and> cn_keepalive (conn_at m r) \<and> cn_state (conn_at m r) = relayStateOpen
         \<and> cn_channel (conn_at m r)
      then sendRaw (m\<lparr>rm_draws := rm_draws m + 1\<rparr>) r (BuildWhatsAppPing (rnd (rm_draws m) 12)) else m)"
| "relay_step hmac rnd m Resend = ResendSubscriptions hmac rnd m"
| "relay_step hmac rnd m (Send data) = Broadcast m data"
| "relay_step hmac rnd m CleanUp = Cleanup m"
| "relay_step hmac rnd m (SetAudio s) = SetSsrc m s"
| "relay_step hmac rnd m (SetSubscription s) = SetSubscriptionSsrc m s"

section \<open>The invariant\<close>

text \<open>
  Ids are unique, each entry points to an existing cell that carries its id, and a connection that is in the
  map is neither closed nor failed.
\<close>

definition relay_wf :: "SctpRelayManager \<Rightarrow> bool" where
  "relay_wf m \<longleftrightarrow> distinct (map fst (rm_connections m))
     \<and> (\<forall>(i, r) \<in> set (rm_connections m). r < length (rm_heap m) \<and> cn_id (conn_at m r) = i
          \<and> cn_state (conn_at m r) \<in> {relayStateConnecting, relayStateOpen})"

lemma relay_wfI:
  assumes "distinct (map fst (rm_connections m))"
    and "\<And>i r. (i, r) \<in> set (rm_connections m) \<Longrightarrow> r < length (rm_heap m) \<and> cn_id (conn_at m r) = i
          \<and> cn_state (conn_at m r) \<in> {relayStateConnecting, relayStateOpen}"
  shows "relay_wf m"
  using assms by (auto simp: relay_wf_def)

lemma relay_wfD:
  assumes "relay_wf m" "(i, r) \<in> set (rm_connections m)"
  shows "r < length (rm_heap m)" "cn_id (conn_at m r) = i"
    "cn_state (conn_at m r) = relayStateConnecting \<or> cn_state (conn_at m r) = relayStateOpen"
  using assms by (auto simp: relay_wf_def)

lemma relay_wf_unique:
  "relay_wf m \<Longrightarrow> (i, r) \<in> set (rm_connections m) \<Longrightarrow> (j, r) \<in> set (rm_connections m) \<Longrightarrow> i = j"
  using relay_wfD(2) [of m i r] relay_wfD(2) [of m j r] by simp

lemma set_conn_simps [simp]:
  "rm_connections (set_conn m r c) = rm_connections m"
  "rm_sent (set_conn m r c) = rm_sent m"
  "length (rm_heap (set_conn m r c)) = length (rm_heap m)"
  "rm_heap (set_conn m r c) = (rm_heap m)[r := c]"
  by (simp_all add: set_conn_def)

lemma teardown_simps [simp]:
  "rm_connections (teardown m r) = rm_connections m"
  "rm_sent (teardown m r) = rm_sent m"
  "length (rm_heap (teardown m r)) = length (rm_heap m)"
  by (simp_all add: teardown_def)

lemma teardown_conn:
  "cn_state (conn_at (teardown m r) q) = cn_state (conn_at m q)"
  "cn_id (conn_at (teardown m r) q) = cn_id (conn_at m q)"
proof -
  have "cn_state (conn_at (teardown m r) q) = cn_state (conn_at m q)
      \<and> cn_id (conn_at (teardown m r) q) = cn_id (conn_at m q)"
  proof (cases "r < length (rm_heap m)")
    case True
    then show ?thesis by (cases "q = r") (simp_all add: teardown_def)
  next
    case False
    then show ?thesis by (simp add: teardown_def list_update_beyond)
  qed
  then show "cn_state (conn_at (teardown m r) q) = cn_state (conn_at m q)"
    "cn_id (conn_at (teardown m r) q) = cn_id (conn_at m q)" by simp_all
qed

lemma relay_wf_teardown: "relay_wf m \<Longrightarrow> relay_wf (teardown m r)"
  by (simp add: relay_wf_def teardown_conn)

lemma map_fst_delete: "distinct (map fst xs) \<Longrightarrow> distinct (map fst (AList.delete k xs))"
  by (rule AList.distinct_delete)

lemma set_delete: "(i, r) \<in> set (AList.delete k xs) \<longleftrightarrow> (i, r) \<in> set xs \<and> i \<noteq> k"
  by (auto simp: AList.delete_eq)

text \<open>Taking a cell out of the map and then changing its state keeps the invariant.\<close>

lemma relay_wf_drop:
  assumes wf: "relay_wf m" and k: "\<forall>i. (i, r) \<in> set (rm_connections m) \<longrightarrow> i = k"
    and c: "cn_id c = cn_id (conn_at m r)"
  shows "relay_wf ((set_conn m r c)\<lparr>rm_connections := AList.delete k (rm_connections m)\<rparr>)"
proof (rule relay_wfI)
  show "distinct (map fst (rm_connections ((set_conn m r c)\<lparr>rm_connections := AList.delete k (rm_connections m)\<rparr>)))"
    using wf by (simp add: relay_wf_def map_fst_delete)
next
  fix i q assume "(i, q) \<in> set (rm_connections ((set_conn m r c)\<lparr>rm_connections := AList.delete k (rm_connections m)\<rparr>))"
  then have iq: "(i, q) \<in> set (rm_connections m)" "i \<noteq> k" by (simp_all add: set_delete)
  with k have "q \<noteq> r" by auto
  with iq relay_wfD [OF wf iq(1)] show
    "q < length (rm_heap ((set_conn m r c)\<lparr>rm_connections := AList.delete k (rm_connections m)\<rparr>))
     \<and> cn_id (conn_at ((set_conn m r c)\<lparr>rm_connections := AList.delete k (rm_connections m)\<rparr>) q) = i
     \<and> cn_state (conn_at ((set_conn m r c)\<lparr>rm_connections := AList.delete k (rm_connections m)\<rparr>) q)
         \<in> {relayStateConnecting, relayStateOpen}"
    by simp
qed

lemma relay_wf_fail: "relay_wf m \<Longrightarrow> relay_wf (failConnection m r)"
  unfolding failConnection_def Let_def
  by (auto intro!: relay_wf_teardown relay_wf_drop dest: relay_wfD(2))

lemma relay_wf_close: "relay_wf m \<Longrightarrow> relay_wf (closeConnection m i)"
proof (cases "map_of (rm_connections m) i")
  case (Some r)
  assume wf: "relay_wf m"
  have "(i, r) \<in> set (rm_connections m)" using Some by (rule map_of_SomeD)
  with wf have "\<forall>j. (j, r) \<in> set (rm_connections m) \<longrightarrow> j = i" using relay_wf_unique by blast
  with wf Some show ?thesis
    by (auto simp: closeConnection_def Let_def intro!: relay_wf_teardown relay_wf_drop)
qed (simp add: closeConnection_def)

lemma set_update: "(j, q) \<in> set (AList.update i r xs) \<Longrightarrow> (j, q) = (i, r) \<or> ((j, q) \<in> set xs)"
  by (induction xs) (auto split: if_splits)

lemma relay_wf_alloc:
  assumes wf: "relay_wf m" and c: "cn_id c = i" "cn_state c = relayStateConnecting"
  shows "relay_wf (m\<lparr>rm_heap := rm_heap m @ [c], rm_connections := AList.update i (length (rm_heap m)) (rm_connections m)\<rparr>)"
proof (rule relay_wfI)
  show "distinct (map fst (rm_connections (m\<lparr>rm_heap := rm_heap m @ [c],
      rm_connections := AList.update i (length (rm_heap m)) (rm_connections m)\<rparr>)))"
    using wf by (simp add: relay_wf_def AList.distinct_update)
next
  fix j q assume "(j, q) \<in> set (rm_connections (m\<lparr>rm_heap := rm_heap m @ [c],
      rm_connections := AList.update i (length (rm_heap m)) (rm_connections m)\<rparr>))"
  then consider "j = i \<and> q = length (rm_heap m)" | "(j, q) \<in> set (rm_connections m)"
    using set_update by fastforce
  then show "q < length (rm_heap (m\<lparr>rm_heap := rm_heap m @ [c],
        rm_connections := AList.update i (length (rm_heap m)) (rm_connections m)\<rparr>))
     \<and> cn_id (conn_at (m\<lparr>rm_heap := rm_heap m @ [c],
        rm_connections := AList.update i (length (rm_heap m)) (rm_connections m)\<rparr>) q) = j
     \<and> cn_state (conn_at (m\<lparr>rm_heap := rm_heap m @ [c],
        rm_connections := AList.update i (length (rm_heap m)) (rm_connections m)\<rparr>) q)
         \<in> {relayStateConnecting, relayStateOpen}"
  proof cases
    case 1
    then show ?thesis using c by simp
  next
    case 2
    from relay_wfD [OF wf 2] show ?thesis by (auto simp: nth_append)
  qed
qed

lemma relay_wf_set:
  assumes "relay_wf m" "cn_id c = cn_id (conn_at m r)"
    "cn_state c = relayStateConnecting \<or> cn_state c = relayStateOpen"
  shows "relay_wf (set_conn m r c)"
proof (rule relay_wfI)
  fix i q assume "(i, q) \<in> set (rm_connections (set_conn m r c))"
  then have "(i, q) \<in> set (rm_connections m)" by simp
  from relay_wfD [OF assms(1) this] assms(2,3) show
    "q < length (rm_heap (set_conn m r c)) \<and> cn_id (conn_at (set_conn m r c) q) = i
     \<and> cn_state (conn_at (set_conn m r c) q) \<in> {relayStateConnecting, relayStateOpen}"
    by (cases "q = r") auto
qed (use assms(1) in \<open>simp add: relay_wf_def\<close>)

lemma relay_wf_connect: "relay_wf m \<Longrightarrow> relay_wf (connectToRelay m info oc)"
  unfolding connectToRelay_def Let_def
  by (auto intro!: relay_wf_fail relay_wf_set relay_wf_alloc split: pc_outcome.split)

lemma foldl_relay_wf:
  "(\<And>m x. relay_wf m \<Longrightarrow> relay_wf (f m x)) \<Longrightarrow> relay_wf m \<Longrightarrow> relay_wf (foldl f m xs)"
  by (induction xs arbitrary: m) auto

lemma relay_wf_configure: "relay_wf m \<Longrightarrow> relay_wf (ConfigureRelays m rs)"
  unfolding ConfigureRelays_def Let_def
  by (rule foldl_relay_wf) (auto intro: relay_wf_connect)

lemma sendRaw_simps [simp]:
  "rm_connections (sendRaw m r b) = rm_connections m" "rm_heap (sendRaw m r b) = rm_heap m"
  by (simp_all add: sendRaw_def)

lemma foldl_sendRaw [simp]:
  "rm_connections (foldl (\<lambda>m b. sendRaw m r b) m bs) = rm_connections m"
  "rm_heap (foldl (\<lambda>m b. sendRaw m r b) m bs) = rm_heap m"
  by (induction bs arbitrary: m) auto

lemma sendRegistration_simps [simp]:
  "rm_connections (sendRegistration hmac rnd m r) = rm_connections m"
  "rm_heap (sendRegistration hmac rnd m r) = rm_heap m"
  by (simp_all add: sendRegistration_def Let_def)

lemma relay_wf_cong:
  "relay_wf m \<Longrightarrow> rm_connections m' = rm_connections m \<Longrightarrow> rm_heap m' = rm_heap m \<Longrightarrow> relay_wf m'"
  by (simp add: relay_wf_def)

lemma relay_wf_registration: "relay_wf m \<Longrightarrow> relay_wf (sendRegistration hmac rnd m r)"
  by (rule relay_wf_cong [of m]) simp_all

lemma relay_wf_open: "relay_wf m \<Longrightarrow> relay_wf (onOpen hmac rnd m r)"
proof -
  assume "relay_wf m"
  then have "relay_wf (set_conn (set_conn m r ((conn_at m r)\<lparr>cn_state := relayStateOpen\<rparr>)) r
      ((conn_at (set_conn m r ((conn_at m r)\<lparr>cn_state := relayStateOpen\<rparr>)) r)\<lparr>cn_keepalive := True\<rparr>))"
  proof (cases "r < length (rm_heap m)")
    case True
    have "relay_wf (set_conn m r ((conn_at m r)\<lparr>cn_state := relayStateOpen\<rparr>))"
      using \<open>relay_wf m\<close> by (rule relay_wf_set) simp_all
    then show ?thesis by (rule relay_wf_set) (use True in simp_all)
  next
    case False
    have "(rm_heap m)[r := c] = rm_heap m" for c using False by (simp add: list_update_beyond)
    then show ?thesis using \<open>relay_wf m\<close> by (simp add: set_conn_def)
  qed
  then show ?thesis
    by (rule relay_wf_cong) (simp_all add: onOpen_def sendStunRegistration_def startKeepalive_def Let_def set_conn_def)
qed

lemma relay_wf_cleanup: "relay_wf (Cleanup m)"
  unfolding Cleanup_def
  by (rule foldl_relay_wf) (simp_all add: relay_wf_teardown, simp add: relay_wf_def)

lemma relay_step_wf: "relay_wf m \<Longrightarrow> relay_wf (relay_step hmac rnd m e)"
proof (cases e)
  case Resend
  assume "relay_wf m"
  with Resend show ?thesis
    by (auto simp: ResendSubscriptions_def sendStunRegistration_def intro!: foldl_relay_wf relay_wf_registration)
next
  case (Send d)
  assume "relay_wf m"
  moreover have "rm_connections (foldl (\<lambda>m r. sendRaw m r d) m' rs) = rm_connections m'
      \<and> rm_heap (foldl (\<lambda>m r. sendRaw m r d) m' rs) = rm_heap m'" for rs m'
    by (induction rs arbitrary: m') auto
  ultimately show ?thesis using Send by (auto simp: Broadcast_def intro: relay_wf_cong)
qed (auto simp: SetSsrc_def SetSubscriptionSsrc_def intro: relay_wf_configure relay_wf_open relay_wf_close
    relay_wf_fail relay_wf_registration relay_wf_cleanup relay_wf_cong)

interpretation relaym: guarded_machine "relay_step hmac rnd" relay_wf for hmac rnd
  by unfold_locales (rule relay_step_wf)


section \<open>Open connections have a channel\<close>

definition chan_ok :: "relayConnection \<Rightarrow> bool" where
  "chan_ok c \<longleftrightarrow> (cn_state c = relayStateOpen \<longrightarrow> cn_channel c)"

definition chans_ok :: "SctpRelayManager \<Rightarrow> bool" where
  "chans_ok m \<longleftrightarrow> (\<forall>c \<in> set (rm_heap m). chan_ok c)"

lemma chans_set: "chans_ok m \<Longrightarrow> chan_ok c \<Longrightarrow> chans_ok (set_conn m r c)"
  using set_update_subset_insert [of "rm_heap m" r c] by (auto simp: chans_ok_def)

lemma chans_cong: "chans_ok m \<Longrightarrow> rm_heap m' = rm_heap m \<Longrightarrow> chans_ok m'"
  by (simp add: chans_ok_def)

lemma chans_at: "chans_ok m \<Longrightarrow> r < length (rm_heap m) \<Longrightarrow> chan_ok (conn_at m r)"
  by (simp add: chans_ok_def)

lemma chans_teardown: "chans_ok m \<Longrightarrow> chans_ok (teardown m r)"
proof (cases "r < length (rm_heap m)")
  case True
  moreover assume "chans_ok m"
  ultimately show ?thesis
    using chans_at [of m r] by (auto simp: teardown_def chan_ok_def intro: chans_set)
next
  case False
  then have "rm_heap (teardown m r) = rm_heap m" by (simp add: teardown_def list_update_beyond)
  moreover assume "chans_ok m"
  ultimately show ?thesis by (rule chans_cong [rotated])
qed

lemma chans_fail: "chans_ok m \<Longrightarrow> chans_ok (failConnection m r)"
proof -
  assume "chans_ok m"
  then have "chans_ok ((set_conn m r ((conn_at m r)\<lparr>cn_state := relayStateFailed\<rparr>))\<lparr>rm_connections := x\<rparr>)" for x
    by (rule chans_cong [OF chans_set, where c1 = "(conn_at m r)\<lparr>cn_state := relayStateFailed\<rparr>" and r1 = r])
      (simp_all add: chan_ok_def)
  with \<open>chans_ok m\<close> show ?thesis by (simp add: failConnection_def Let_def chans_teardown)
qed

lemma chans_close: "chans_ok m \<Longrightarrow> chans_ok (closeConnection m i)"
proof -
  assume "chans_ok m"
  then have "chans_ok ((set_conn m r ((conn_at m r)\<lparr>cn_state := relayStateClosed\<rparr>))\<lparr>rm_connections := x\<rparr>)" for x r
    by (rule chans_cong [OF chans_set, where c1 = "(conn_at m r)\<lparr>cn_state := relayStateClosed\<rparr>" and r1 = r])
      (simp_all add: chan_ok_def)
  with \<open>chans_ok m\<close> show ?thesis by (simp add: closeConnection_def Let_def chans_teardown split: option.split)
qed

lemma chans_connect: "chans_ok m \<Longrightarrow> chans_ok (connectToRelay m info oc)"
proof -
  assume ok: "chans_ok m"
  have "chans_ok (m\<lparr>rm_heap := rm_heap m @ [c], rm_connections := x\<rparr>)" if "cn_state c = relayStateConnecting" for c x
    using ok that by (simp add: chans_ok_def chan_ok_def)
  then show ?thesis
    unfolding connectToRelay_def Let_def
    by (auto intro!: chans_fail chans_set simp: chan_ok_def split: pc_outcome.split)
qed

lemma chans_foldl: "(\<And>m x. chans_ok m \<Longrightarrow> chans_ok (f m x)) \<Longrightarrow> chans_ok m \<Longrightarrow> chans_ok (foldl f m xs)"
  by (induction xs arbitrary: m) auto

lemma chans_open:
  assumes "chans_ok m" "cn_channel (conn_at m r)"
  shows "chans_ok (onOpen hmac rnd m r)"
proof -
  let ?c = "(conn_at m r)\<lparr>cn_state := relayStateOpen\<rparr>"
  have "chans_ok (set_conn m r ?c)" using assms by (intro chans_set) (simp_all add: chan_ok_def)
  moreover have "chan_ok ((conn_at (set_conn m r ?c) r)\<lparr>cn_keepalive := True\<rparr>)"
    using assms(2) by (cases "r < length (rm_heap m)") (simp_all add: chan_ok_def list_update_beyond)
  ultimately have "chans_ok (set_conn (set_conn m r ?c) r ((conn_at (set_conn m r ?c) r)\<lparr>cn_keepalive := True\<rparr>))"
    by (rule chans_set)
  then show ?thesis
    by (rule chans_cong) (simp_all add: onOpen_def sendStunRegistration_def startKeepalive_def Let_def)
qed

lemma resend_heap: "rm_heap (foldl (\<lambda>m r. if cn_state (conn_at m r) = relayStateOpen \<and> cn_channel (conn_at m r)
      then sendStunRegistration hmac rnd m r else m) m rs) = rm_heap m"
  by (induction rs arbitrary: m) (auto simp: sendStunRegistration_def)

lemma broadcast_heap: "rm_heap (foldl (\<lambda>m r. sendRaw m r d) m rs) = rm_heap m"
  by (induction rs arbitrary: m) auto

lemma relay_step_chans: "chans_ok m \<Longrightarrow> chans_ok (relay_step hmac rnd m e)"
proof (cases e)
  case (Configure rs)
  assume "chans_ok m"
  then have "chans_ok (ConfigureRelays m rs)"
    unfolding ConfigureRelays_def Let_def by (rule chans_foldl [rotated]) (auto intro: chans_connect)
  with Configure show ?thesis by simp
next
  case CleanUp
  assume "chans_ok m"
  then have "chans_ok (m\<lparr>rm_connections := [], rm_audioSsrc := 0, rm_subscriptionSsrc := 0\<rparr>)"
    by (simp add: chans_ok_def)
  then have "chans_ok (Cleanup m)" unfolding Cleanup_def by (rule chans_foldl [rotated]) (rule chans_teardown)
  with CleanUp show ?thesis by simp
next
  case Resend
  assume "chans_ok m"
  with Resend show ?thesis by (auto simp: ResendSubscriptions_def resend_heap intro: chans_cong)
next
  case (Send d)
  assume "chans_ok m"
  with Send show ?thesis by (auto simp: Broadcast_def broadcast_heap intro: chans_cong)
qed (auto simp: SetSsrc_def SetSubscriptionSsrc_def intro: chans_open chans_fail chans_close chans_cong)

section \<open>The interface to the call engine\<close>

text \<open>
  What the engine relies on of its relay transport: it can ask whether and how often it is connected, a
  broadcast hands the packet to each open connection once, and after a cleanup there is none.
\<close>

locale relay_transport =
  fixes rinv :: "'m \<Rightarrow> bool"
    and has :: "'m \<Rightarrow> bool"
    and connected :: "'m \<Rightarrow> nat"
    and cleanup :: "'m \<Rightarrow> 'm"
    and bcast :: "'m \<Rightarrow> bytes \<Rightarrow> 'm"
    and sent :: "'m \<Rightarrow> (nat \<times> bytes) list"
  assumes has_iff: "rinv m \<Longrightarrow> has m \<longleftrightarrow> 0 < connected m"
    and cleanup_inv: "rinv m \<Longrightarrow> rinv (cleanup m)"
    and cleanup_none: "rinv m \<Longrightarrow> connected (cleanup m) = 0"
    and bcast_inv: "rinv m \<Longrightarrow> rinv (bcast m d)"
    and bcast_connected: "rinv m \<Longrightarrow> connected (bcast m d) = connected m"
    and bcast_sends: "rinv m \<Longrightarrow>
      \<exists>rs. distinct rs \<and> length rs = connected m \<and> sent (bcast m d) = sent m @ map (\<lambda>r. (r, d)) rs"
begin

lemma bcast_silent: "rinv m \<Longrightarrow> \<not> has m \<Longrightarrow> sent (bcast m d) = sent m"
  using bcast_sends [of m d] has_iff [of m] by auto

lemma cleanup_silent: "rinv m \<Longrightarrow> sent (bcast (cleanup m) d) = sent (cleanup m)"
  using bcast_silent [of "cleanup m" d] cleanup_inv cleanup_none has_iff by simp

lemma bcast_count: "rinv m \<Longrightarrow> length (sent (foldl bcast m ds)) = length (sent m) + length ds * connected m"
proof (induction ds arbitrary: m)
  case (Cons d ds)
  obtain rs where "length rs = connected m" "sent (bcast m d) = sent m @ map (\<lambda>r. (r, d)) rs"
    using bcast_sends [OF Cons.prems, of d] by auto
  with Cons.IH [OF bcast_inv [OF Cons.prems]] show ?case by (simp add: bcast_connected Cons.prems)
qed simp

end

definition relay_inv :: "SctpRelayManager \<Rightarrow> bool" where
  "relay_inv m \<longleftrightarrow> relay_wf m \<and> chans_ok m"

lemma relay_inv_step: "relay_inv m \<Longrightarrow> relay_inv (relay_step hmac rnd m e)"
  by (simp add: relay_inv_def relay_step_wf relay_step_chans)

interpretation relayi: guarded_machine "relay_step hmac rnd" relay_inv for hmac rnd
  by unfold_locales (rule relay_inv_step)

lemma relay_inv_new: "relay_inv NewSctpRelayManager"
  by (simp add: relay_inv_def relay_wf_def chans_ok_def NewSctpRelayManager_def)

lemma broadcast_sent:
  "rm_sent (foldl (\<lambda>m r. sendRaw m r d) m rs) =
     rm_sent m @ map (\<lambda>r. (r, d)) (filter (\<lambda>r. cn_channel (conn_at m r) \<and> cn_state (conn_at m r) = relayStateOpen) rs)"
  by (induction rs arbitrary: m) (auto simp: sendRaw_def)

definition open_refs :: "SctpRelayManager \<Rightarrow> nat list" where
  "open_refs m = filter (\<lambda>r. cn_state (conn_at m r) = relayStateOpen) (map snd (rm_connections m))"

lemma length_open_refs: "length (open_refs m) = ConnectedCount m"
  by (simp add: open_refs_def ConnectedCount_def filter_map comp_def case_prod_unfold)

lemma relay_wf_refs: "relay_wf m \<Longrightarrow> distinct (map snd (rm_connections m))"
proof -
  assume wf: "relay_wf m"
  then have "inj_on snd (set (rm_connections m))"
    using relay_wf_unique [OF wf] by (auto simp: inj_on_def)
  moreover have "distinct (rm_connections m)" using wf by (simp add: relay_wf_def distinct_map)
  ultimately show ?thesis by (simp add: distinct_map)
qed

lemma Broadcast_sent:
  assumes "relay_inv m"
  shows "rm_sent (Broadcast m d) = rm_sent m @ map (\<lambda>r. (r, d)) (open_refs m) \<and> distinct (open_refs m)"
proof -
  have "cn_channel (conn_at m r)" if "r \<in> set (map snd (rm_connections m))" "cn_state (conn_at m r) = relayStateOpen" for r
  proof -
    from that(1) obtain i where "(i, r) \<in> set (rm_connections m)" by auto
    with assms have "r < length (rm_heap m)" by (auto simp: relay_inv_def dest: relay_wfD)
    with assms that(2) show ?thesis using chans_at [of m r] by (simp add: relay_inv_def chan_ok_def)
  qed
  then have "filter (\<lambda>r. cn_channel (conn_at m r) \<and> cn_state (conn_at m r) = relayStateOpen) (map snd (rm_connections m))
      = open_refs m"
    unfolding open_refs_def by (intro filter_cong) auto
  then show ?thesis
    using assms relay_wf_refs [of m] by (simp add: Broadcast_def broadcast_sent relay_inv_def open_refs_def)
qed

lemma HasConnection_iff: "HasConnection m \<longleftrightarrow> 0 < ConnectedCount m"
  by (auto simp: HasConnection_def ConnectedCount_def list_ex_iff filter_empty_conv)

lemma teardown_connections: "rm_connections (foldl teardown m rs) = rm_connections m"
  by (induction rs arbitrary: m) auto

lemma Cleanup_connections [simp]: "rm_connections (Cleanup m) = []"
  by (simp add: Cleanup_def teardown_connections)

lemma broadcast_connections: "rm_connections (foldl (\<lambda>m r. sendRaw m r d) m rs) = rm_connections m"
  by (induction rs arbitrary: m) auto

interpretation sctp: relay_transport relay_inv HasConnection ConnectedCount Cleanup Broadcast rm_sent
proof unfold_locales
  fix m d assume "relay_inv m"
  show "\<exists>rs. distinct rs \<and> length rs = ConnectedCount m
      \<and> rm_sent (Broadcast m d) = rm_sent m @ map (\<lambda>r. (r, d)) rs"
    using Broadcast_sent [OF \<open>relay_inv m\<close>, of d] length_open_refs by blast
  show "relay_inv (Cleanup m)" using relay_inv_step [OF \<open>relay_inv m\<close>, of _ _ CleanUp] by simp
  show "relay_inv (Broadcast m d)" using relay_inv_step [OF \<open>relay_inv m\<close>, of _ _ "Send d"] by simp
  show "ConnectedCount (Broadcast m d) = ConnectedCount m"
    by (simp add: ConnectedCount_def Broadcast_def broadcast_heap broadcast_connections)
qed (simp_all add: HasConnection_iff ConnectedCount_def)


section \<open>Properties of every run\<close>

definition relay_run :: "hmac \<Rightarrow> rand \<Rightarrow> relay_event list \<Rightarrow> SctpRelayManager" where
  "relay_run hmac rnd es = foldl (relay_step hmac rnd) NewSctpRelayManager es"

lemma relay_run_inv: "relay_inv (relay_run hmac rnd es)"
  unfolding relay_run_def by (rule relayi.run_inv [OF relay_inv_new])

text \<open>
  Property C37. After any sequence of set-ups, callbacks, timers and calls, a broadcast hands the packet to
  every open connection of the manager exactly once and to nothing else; the engine's connectivity test says whether
  there is one; and no two connections of the manager share an id.
\<close>

theorem broadcast_reaches_each_open_connection:
  "let m = relay_run hmac rnd es
   in rm_sent (Broadcast m d) = rm_sent m @ map (\<lambda>r. (r, d)) (open_refs m)
      \<and> distinct (open_refs m) \<and> length (open_refs m) = ConnectedCount m
      \<and> (HasConnection m \<longleftrightarrow> 0 < ConnectedCount m)
      \<and> set (open_refs m) = {r. \<exists>i. (i, r) \<in> set (rm_connections m) \<and> cn_state (conn_at m r) = relayStateOpen}
      \<and> distinct (map fst (rm_connections m))"
proof -
  have inv: "relay_inv (relay_run hmac rnd es)" by (rule relay_run_inv)
  then show ?thesis
    using Broadcast_sent [OF inv, of d] length_open_refs [of "relay_run hmac rnd es"]
      HasConnection_iff [of "relay_run hmac rnd es"]
    by (simp add: Let_def relay_inv_def relay_wf_def) (force simp: open_refs_def)
qed

text \<open>
  A cleanup disconnects: afterwards the manager has no connection, broadcasts send nothing, and
  the timers of every connection it had are stopped for good.
\<close>

lemma teardown_heap_stopped:
  "r < length (rm_heap m) \<Longrightarrow> cn_stopped (conn_at m r) \<or> r \<in> set rs \<Longrightarrow>
     cn_stopped (conn_at (foldl teardown m rs) r)"
proof (induction rs arbitrary: m)
  case (Cons q rs)
  have "cn_stopped (conn_at (teardown m q) r) \<or> r \<in> set rs"
    using Cons.prems by (cases "q = r") (auto simp: teardown_def nth_list_update)
  with Cons.IH [of "teardown m q"] Cons.prems(1) show ?case by simp
qed simp

lemma teardown_heap_keepalive:
  "r < length (rm_heap m) \<Longrightarrow> \<not> cn_keepalive (conn_at m r) \<or> r \<in> set rs \<Longrightarrow>
     \<not> cn_keepalive (conn_at (foldl teardown m rs) r)"
proof (induction rs arbitrary: m)
  case (Cons q rs)
  have "\<not> cn_keepalive (conn_at (teardown m q) r) \<or> r \<in> set rs"
    using Cons.prems by (cases "q = r") (auto simp: teardown_def nth_list_update)
  with Cons.IH [of "teardown m q"] Cons.prems(1) show ?case by simp
qed simp

theorem cleanup_disconnects:
  assumes "(i, r) \<in> set (rm_connections (relay_run hmac rnd es))"
  shows "let m = Cleanup (relay_run hmac rnd es)
     in \<not> HasConnection m \<and> rm_sent (Broadcast m d) = rm_sent m \<and> rm_audioSsrc m = 0
        \<and> relay_step hmac rnd m (KeepaliveTick r) = m \<and> relay_step hmac rnd m (DelayedSend r) = m
        \<and> relay_step hmac rnd m (ConnectTimeout r) = m"
proof -
  let ?m = "relay_run hmac rnd es"
  let ?z = "?m\<lparr>rm_connections := [], rm_audioSsrc := 0, rm_subscriptionSsrc := 0\<rparr>"
  have inv: "relay_inv ?m" by (rule relay_run_inv)
  with assms have r: "r < length (rm_heap ?z)" "r \<in> set (map snd (rm_connections ?m))"
    by (auto simp: relay_inv_def dest: relay_wfD) force
  then have "cn_stopped (conn_at (Cleanup ?m) r)" "\<not> cn_keepalive (conn_at (Cleanup ?m) r)"
    unfolding Cleanup_def using teardown_heap_stopped [of r ?z] teardown_heap_keepalive [of r ?z] by blast+
  moreover have "rm_audioSsrc (foldl teardown n rs) = rm_audioSsrc n" for n rs
    by (induction rs arbitrary: n) (auto simp: teardown_def set_conn_def)
  ultimately show ?thesis
    using sctp.cleanup_silent [OF inv, of d] by (simp add: Let_def HasConnection_def) (simp add: Cleanup_def)
qed

theorem cleanup_disconnects_witness:
  "let m = Cleanup (relay_run (\<lambda>k m. []) (\<lambda>k n. []) [Configure [(\<lparr>rc_IP = ''1.2.3.4'', rc_Port = 3478,
       rc_Token = '''', rc_AuthToken = '''', rc_RawAuthToken = None, rc_RawToken = None, rc_Key = ''k'', rc_RelayID = 0,
       rc_Name = ''r'', rc_AuthTokenID = ''''\<rparr>, Negotiated ''u'')], Opened 0])
   in \<not> HasConnection m"
proof -
  have "(connID ''1.2.3.4'' 3478 '''', 0) \<in> set (rm_connections (relay_run (\<lambda>k m. []) (\<lambda>k n. []) [Configure [(\<lparr>rc_IP = ''1.2.3.4'',
      rc_Port = 3478, rc_Token = '''', rc_AuthToken = '''', rc_RawAuthToken = None, rc_RawToken = None, rc_Key = ''k'',
      rc_RelayID = 0, rc_Name = ''r'', rc_AuthTokenID = ''''\<rparr>, Negotiated ''u'')], Opened 0]))"
    by (simp add: relay_run_def NewSctpRelayManager_def ConfigureRelays_def connectToRelay_def set_conn_def
        onOpen_def sendStunRegistration_def sendRegistration_def registration_def startKeepalive_def sendRaw_def
        Let_def)
  from cleanup_disconnects [OF this] show ?thesis by (simp add: Let_def)
qed

text \<open>
  Besides the packets the engine broadcasts, a manager only ever sends STUN: registrations and
  pings can never be mistaken for media by the relay.
\<close>

definition sent_ok :: "bytes set \<Rightarrow> SctpRelayManager \<Rightarrow> bool" where
  "sent_ok ds m \<longleftrightarrow> (\<forall>(r, b) \<in> set (rm_sent m). IsStunPacket b \<or> b \<in> ds)"

lemma binding_stun: "IsStunPacket (BuildBindingRequestWithSubs hmac txid tb user key subs ctl fp)"
  by (simp add: BuildBindingRequestWithSubs_def Let_def stunBindingRequest_def IsStunPacket_build)

lemma allocate_stun: "IsStunPacket (BuildAllocateForRelay hmac txid subs ssrcs key ip port)"
  by (simp add: BuildAllocateForRelay_def Let_def stunAllocateRequest_def IsStunPacket_build)

lemma registration_stun: "\<forall>b \<in> set (registration hmac rnd d a s info u). IsStunPacket b"
proof -
  have "list_all IsStunPacket (registration hmac rnd d a s info u)"
    by (simp add: registration_def Let_def binding_stun allocate_stun split: option.split)
  then show ?thesis by (simp add: list_all_iff)
qed

lemma sent_ok_raw: "sent_ok ds m \<Longrightarrow> IsStunPacket b \<or> b \<in> ds \<Longrightarrow> sent_ok ds (sendRaw m r b)"
  by (auto simp: sent_ok_def sendRaw_def)

lemma sent_ok_foldl:
  "(\<And>m x. x \<in> set xs \<Longrightarrow> sent_ok ds m \<Longrightarrow> sent_ok ds (f m x)) \<Longrightarrow> sent_ok ds m \<Longrightarrow> sent_ok ds (foldl f m xs)"
  by (induction xs arbitrary: m) auto

lemma sent_ok_cong: "sent_ok ds m \<Longrightarrow> rm_sent m' = rm_sent m \<Longrightarrow> sent_ok ds m'"
  by (simp add: sent_ok_def)

lemma sent_ok_registration: "sent_ok ds m \<Longrightarrow> sent_ok ds (sendRegistration hmac rnd m r)"
proof -
  assume "sent_ok ds m"
  then have "sent_ok ds (m\<lparr>rm_draws := n\<rparr>)" for n by (simp add: sent_ok_def)
  then show ?thesis
    using \<open>sent_ok ds m\<close> registration_stun
    by (auto simp: sendRegistration_def Let_def intro!: sent_ok_foldl sent_ok_raw)
qed

lemma sent_ok_ping: "sent_ok ds m \<Longrightarrow> sent_ok ds (sendRaw (m\<lparr>rm_draws := n\<rparr>) r (BuildWhatsAppPing t))"
  by (rule sent_ok_raw) (simp_all add: sent_ok_def IsStunPacket_ping)

lemma sent_ok_open: "sent_ok ds m \<Longrightarrow> sent_ok ds (onOpen hmac rnd m r)"
proof -
  assume "sent_ok ds m"
  then have "sent_ok ds (set_conn m r c)" for c by (simp add: sent_ok_def)
  then have "sent_ok ds (sendRaw (n\<lparr>rm_draws := k\<rparr>) r (BuildWhatsAppPing t))"
    if "n = sendRegistration hmac rnd (set_conn m r c) r" for c n k t
    using that sent_ok_registration sent_ok_ping by blast
  then show ?thesis
    by (simp add: onOpen_def sendStunRegistration_def startKeepalive_def Let_def sent_ok_def)
qed

lemma fail_sent [simp]: "rm_sent (failConnection m r) = rm_sent m"
  by (simp add: failConnection_def Let_def)

lemma close_sent [simp]: "rm_sent (closeConnection m i) = rm_sent m"
  by (simp add: closeConnection_def Let_def split: option.split)

lemma connect_sent [simp]: "rm_sent (connectToRelay m info oc) = rm_sent m"
  by (simp add: connectToRelay_def Let_def split: pc_outcome.split)

lemma configure_sent [simp]: "rm_sent (ConfigureRelays m rs) = rm_sent m"
proof -
  have "rm_sent (foldl (\<lambda>m (r, oc). connectToRelay m r oc) m xs) = rm_sent m" for xs
    by (induction xs arbitrary: m) auto
  then show ?thesis by (simp add: ConfigureRelays_def Let_def)
qed

lemma cleanup_sent [simp]: "rm_sent (Cleanup m) = rm_sent m"
proof -
  have "rm_sent (foldl teardown n xs) = rm_sent n" for n xs by (induction xs arbitrary: n) auto
  then show ?thesis by (simp add: Cleanup_def)
qed

fun broadcast_of :: "relay_event \<Rightarrow> bytes set" where
  "broadcast_of (Send d) = {d}"
| "broadcast_of _ = {}"

lemma sent_ok_step: "sent_ok ds m \<Longrightarrow> broadcast_of e \<subseteq> ds \<Longrightarrow> sent_ok ds (relay_step hmac rnd m e)"
proof (cases e)
  case Resend
  assume "sent_ok ds m"
  with Resend show ?thesis
    by (auto simp: ResendSubscriptions_def sendStunRegistration_def intro!: sent_ok_foldl sent_ok_registration)
next
  case (Send d)
  assume "sent_ok ds m" "broadcast_of e \<subseteq> ds"
  with Send show ?thesis by (auto simp: Broadcast_def intro!: sent_ok_foldl sent_ok_raw)
qed (auto simp: SetSsrc_def SetSubscriptionSsrc_def
    intro: sent_ok_open sent_ok_registration sent_ok_ping sent_ok_cong)

theorem relay_sends_stun_or_broadcast:
  "(r, b) \<in> set (rm_sent (relay_run hmac rnd es)) \<Longrightarrow> IsStunPacket b \<or> Send b \<in> set es"
proof -
  let ?ds = "{d. Send d \<in> set es}"
  have "sent_ok ?ds (foldl (relay_step hmac rnd) m fs)" if "sent_ok ?ds m" "set fs \<subseteq> set es" for m fs
    using that
  proof (induction fs arbitrary: m)
    case (Cons f fs)
    have "broadcast_of f \<subseteq> ?ds" using Cons.prems by (cases f) auto
    with Cons show ?case by (auto intro: sent_ok_step)
  qed simp
  from this [of NewSctpRelayManager es] have "sent_ok ?ds (relay_run hmac rnd es)"
    by (simp add: relay_run_def) (simp add: sent_ok_def NewSctpRelayManager_def)
  then show "(r, b) \<in> set (rm_sent (relay_run hmac rnd es)) \<Longrightarrow> IsStunPacket b \<or> Send b \<in> set es"
    by (auto simp: sent_ok_def)
qed

theorem relay_sends_stun_or_broadcast_witness:
  "let m = relay_run (\<lambda>k m. []) (\<lambda>k n. []) [Configure [(\<lparr>rc_IP = ''1.2.3.4'', rc_Port = 3478, rc_Token = '''',
       rc_AuthToken = '''', rc_RawAuthToken = None, rc_RawToken = None, rc_Key = ''k'', rc_RelayID = 0, rc_Name = ''r'',
       rc_AuthTokenID = ''''\<rparr>, Negotiated ''u'')], Opened 0]
   in rm_sent m = [(0, BuildWhatsAppPing [])] \<and> IsStunPacket (BuildWhatsAppPing [])"
proof -
  let ?es = "[Configure [(\<lparr>rc_IP = ''1.2.3.4'', rc_Port = 3478, rc_Token = '''',
       rc_AuthToken = '''', rc_RawAuthToken = None, rc_RawToken = None, rc_Key = ''k'', rc_RelayID = 0, rc_Name = ''r'',
       rc_AuthTokenID = ''''\<rparr>, Negotiated ''u'')], Opened 0]"
  have "rm_sent (relay_run (\<lambda>k m. []) (\<lambda>k n. []) ?es) = [(0, BuildWhatsAppPing [])]"
    by (simp add: relay_run_def NewSctpRelayManager_def ConfigureRelays_def connectToRelay_def set_conn_def
        onOpen_def sendStunRegistration_def sendRegistration_def registration_def startKeepalive_def sendRaw_def
        Let_def)
  with relay_sends_stun_or_broadcast [of 0 "BuildWhatsAppPing []" "\<lambda>k m. []" "\<lambda>k n. []" ?es] show ?thesis
    by (simp add: Let_def)
qed

text \<open>
  The close callback of a connection names the connection by id, not by object: after a
  connection to a relay has failed and the relay has been configured and opened again, the late callback of the
  old channel closes the new connection, and the call is left without a relay.
\<close>

theorem late_close_kills_new_connection:
  "let m = relay_run hmac rnd [Configure [(cfg, Negotiated u)], Opened 0, IceFailed 0,
             Configure [(cfg, Negotiated u)], Opened 1]
   in HasConnection m \<and> cn_state (conn_at m 0) = relayStateFailed
      \<and> \<not> HasConnection (relay_step hmac rnd m (ChannelClosed 0))
      \<and> cn_state (conn_at (relay_step hmac rnd m (ChannelClosed 0)) 1) = relayStateClosed"
proof -
  let ?c = "cfg\<lparr>rc_Port := (if rc_Port cfg = 0 then WARelayPort else rc_Port cfg)\<rparr>"
  let ?i = "connID (rc_IP ?c) (rc_Port ?c) (rc_AuthTokenID ?c)"
  have port: "(if rc_Port ?c = 0 then WARelayPort else rc_Port ?c) = rc_Port ?c"
    by (simp add: WARelayPort_def)
  show ?thesis
    by (simp add: relay_run_def NewSctpRelayManager_def ConfigureRelays_def connectToRelay_def set_conn_def
        onOpen_def sendStunRegistration_def startKeepalive_def failConnection_def closeConnection_def teardown_def
        HasConnection_def Let_def case_prod_unfold)
qed

end
