(* ===== verification/Srtp.thy ===== *)
theory Srtp
  imports Rtp
begin

text \<open>
  SRTP protection of RTP packets (\<^verbatim>\<open>internal/voip/media/srtp.go\<close>). The ciphers of the Go library are
  parameters: \<open>ks key iv i\<close> is byte \<open>i\<close> of the AES-CTR key stream, \<open>hmac key msg\<close> the HMAC-SHA1 of a
  message. The key size check of \<^verbatim>\<open>aes.NewCipher\<close> and the exclusive or with the key stream are modelled. A slice beyond the length of
  a salt or of a MAC is taken to panic (byte slices made with exactly that capacity, as the callers
  make them); the session salt of a context is 14 bytes long by construction.
\<close>

type_synonym keystream = "bytes \<Rightarrow> bytes \<Rightarrow> nat \<Rightarrow> u8"
type_synonym mac = "bytes \<Rightarrow> bytes \<Rightarrow> bytes"

datatype SrtpErrorType =
    SrtpErrPacketTooShort
  | SrtpErrAuthFailed
  | SrtpErrEncryption
  | SrtpErrDecryption

datatype SrtpError = SrtpError (se_Type: SrtpErrorType) (se_Msg: string)

record SrtpContext =
  sc_sessionKey :: bytes
  sc_sessionSalt :: bytes
  sc_authKey :: bytes
  sc_roc :: u32
  sc_lastSeq :: u16
  sc_initialized :: bool
  sc_authTagLen :: nat

definition aesCtrXor :: "keystream \<Rightarrow> bytes \<Rightarrow> bytes \<Rightarrow> bytes \<Rightarrow> string + bytes" where
  "aesCtrXor ks key iv src =
     (if length key = 16 \<or> length key = 24 \<or> length key = 32
      then Inr (map (\<lambda>i. src ! i XOR ks key iv i) [0..<length src])
      else Inl (''crypto/aes: invalid key size '' @ itoa (int (length key))))"

text \<open>The loops that xor the bytes of \<open>src\<close> into a buffer from an offset on.\<close>

definition xor_at :: "nat \<Rightarrow> bytes \<Rightarrow> bytes \<Rightarrow> bytes" where
  "xor_at off src buf = blit off (map2 (XOR) (drop off buf) src) buf"

definition deriveSrtpKey ::
    "keystream \<Rightarrow> bytes \<Rightarrow> bytes \<Rightarrow> u8 \<Rightarrow> nat \<Rightarrow> (string, bytes) outcome" where
  "deriveSrtpKey ks masterKey masterSalt label n =
     (if length masterSalt < 14 then Panic
      else
        let iv = xor_at 7 [label] (blit 0 (take 14 masterSalt) (replicate 16 0))
        in case aesCtrXor ks masterKey iv (replicate n 0) of Inl e \<Rightarrow> Fail e | Inr out \<Rightarrow> Ret out)"

definition NewSrtpContext ::
    "keystream \<Rightarrow> SrtpKeyingMaterial \<Rightarrow> int \<Rightarrow> (string, SrtpContext) outcome" where
  "NewSrtpContext ks keying authTagLen =
     (let tagLen = (if authTagLen \<le> 0 then SRTPAuthTagLen else authTagLen)
      in case deriveSrtpKey ks (MasterKey keying) (MasterSalt keying) SRTPLabelEncryption 16 of
           Fail e \<Rightarrow> Fail e | Panic \<Rightarrow> Panic
         | Ret sk \<Rightarrow>
             (case deriveSrtpKey ks (MasterKey keying) (MasterSalt keying) SRTPLabelAuth 20 of
                Fail e \<Rightarrow> Fail e | Panic \<Rightarrow> Panic
              | Ret ak \<Rightarrow>
                  (case deriveSrtpKey ks (MasterKey keying) (MasterSalt keying) SRTPLabelSalt 14 of
                     Fail e \<Rightarrow> Fail e | Panic \<Rightarrow> Panic
                   | Ret ss \<Rightarrow>
                       Ret \<lparr>sc_sessionKey = sk, sc_sessionSalt = ss, sc_authKey = ak, sc_roc = 0,
                            sc_lastSeq = 0, sc_initialized = False, sc_authTagLen = nat tagLen\<rparr>)))"

definition SetAuthKeying ::
    "keystream \<Rightarrow> SrtpContext \<Rightarrow> SrtpKeyingMaterial \<Rightarrow> (string, SrtpContext) outcome" where
  "SetAuthKeying ks c keying =
     (case deriveSrtpKey ks (MasterKey keying) (MasterSalt keying) SRTPLabelAuth 20 of
        Fail e \<Rightarrow> Fail e | Panic \<Rightarrow> Panic | Ret ak \<Rightarrow> Ret (c\<lparr>sc_authKey := ak\<rparr>))"

text \<open>The sequence numbers are compared as \<^verbatim>\<open>int32\<close>, where their difference cannot overflow.\<close>

definition updateRoc :: "SrtpContext \<Rightarrow> u16 \<Rightarrow> SrtpContext" where
  "updateRoc c seq =
     (if \<not> sc_initialized c then c\<lparr>sc_lastSeq := seq, sc_initialized := True\<rparr>
      else
        let diff = int (unat seq) - int (unat (sc_lastSeq c));
            c1 = (if diff < -32768 then c\<lparr>sc_roc := sc_roc c + 1\<rparr> else c)
        in c1\<lparr>sc_lastSeq := seq\<rparr>)"

definition packetIndex :: "SrtpContext \<Rightarrow> u16 \<Rightarrow> u64" where
  "packetIndex c seq = push_bit 16 (ucast (sc_roc c)) OR ucast seq"

definition generateIV :: "SrtpContext \<Rightarrow> u32 \<Rightarrow> u64 \<Rightarrow> bytes" where
  "generateIV c ssrc index =
     (let iv = blit 0 (take 14 (sc_sessionSalt c)) (replicate 16 0);
          iv1 = xor_at 4 (put_u32be ssrc) iv
      in xor_at 8 (drop 2 (put_u64be index)) iv1)"

definition computeAuthTag :: "mac \<Rightarrow> SrtpContext \<Rightarrow> bytes \<Rightarrow> u32 \<Rightarrow> nat \<Rightarrow> bytes option" where
  "computeAuthTag hmac c data roc tagLen =
     (let sum = hmac (sc_authKey c) (data @ put_u32be roc)
      in if length sum < tagLen then None else Some (take tagLen sum))"

definition Protect ::
    "keystream \<Rightarrow> mac \<Rightarrow> SrtpContext \<Rightarrow> RtpPacket \<Rightarrow> (SrtpError, bytes) outcome \<times> SrtpContext" where
  "Protect ks hmac c0 packet =
     (let h = rp_Header packet;
          c = updateRoc c0 (rh_SequenceNumber h);
          index = packetIndex c (rh_SequenceNumber h);
          headerSize = RtpHeader_Size h;
          plen = length (rp_Payload packet);
          output = replicate (headerSize + plen + sc_authTagLen c) 0
      in (case RtpHeader_Encode h output of
            Fail e \<Rightarrow> Fail (SrtpError SrtpErrEncryption e)
          | Panic \<Rightarrow> Panic
          | Ret (out1, _) \<Rightarrow>
              (case aesCtrXor ks (sc_sessionKey c) (generateIV c (rh_Ssrc h) index) (rp_Payload packet) of
                 Inl e \<Rightarrow> Fail (SrtpError SrtpErrEncryption e)
               | Inr enc \<Rightarrow>
                   let out2 = blit headerSize enc out1
                   in if 0 < sc_authTagLen c then
                        (case computeAuthTag hmac c (take (headerSize + plen) out2) (sc_roc c) (sc_authTagLen c) of
                           None \<Rightarrow> Panic
                         | Some tag \<Rightarrow> Ret (blit (headerSize + plen) tag out2))
                      else Ret out2), c))"

definition Unprotect ::
    "keystream \<Rightarrow> SrtpContext \<Rightarrow> bytes \<Rightarrow> (SrtpError, RtpPacket) outcome \<times> SrtpContext" where
  "Unprotect ks c0 data =
     (if length data < 12
      then (Fail (SrtpError SrtpErrPacketTooShort
              (''packet too short: '' @ itoa (int (length data)) @ '' bytes'')), c0)
      else case DecodeRtpHeader data of
        Inl e \<Rightarrow> (Fail (SrtpError SrtpErrDecryption e), c0)
      | Inr header \<Rightarrow>
          let headerSize = RtpHeader_Size header;
              payloadLen = int (length data) - int headerSize - int (sc_authTagLen c0)
          in if payloadLen \<le> 0
             then (Fail (SrtpError SrtpErrPacketTooShort
                     (''no payload: '' @ itoa (int (length data)) @ ''B total, '' @ itoa (int headerSize)
                      @ ''B header, auth='' @ itoa (int (sc_authTagLen c0)))), c0)
             else
               let c = updateRoc c0 (rh_SequenceNumber header);
                   index = packetIndex c (rh_SequenceNumber header);
                   iv = generateIV c (rh_Ssrc header) index
               in (case aesCtrXor ks (sc_sessionKey c) iv
                          (slice headerSize (headerSize + nat payloadLen) data) of
                     Inl e \<Rightarrow> Fail (SrtpError SrtpErrDecryption e)
                   | Inr decrypted \<Rightarrow> Ret \<lparr>rp_Header = header, rp_Payload = decrypted\<rparr>, c))"

record SrtpSession =
  ss_sendCtx :: SrtpContext
  ss_recvCtx :: SrtpContext

definition NewSrtpSession ::
    "keystream \<Rightarrow> SrtpKeyingMaterial \<Rightarrow> SrtpKeyingMaterial \<Rightarrow> int \<Rightarrow> int \<Rightarrow> (string, SrtpSession) outcome" where
  "NewSrtpSession ks sendKey recvKey sendAuthLen recvAuthLen =
     (case NewSrtpContext ks sendKey sendAuthLen of
        Fail e \<Rightarrow> Fail e | Panic \<Rightarrow> Panic
      | Ret sc \<Rightarrow>
          (case NewSrtpContext ks recvKey recvAuthLen of
             Fail e \<Rightarrow> Fail e | Panic \<Rightarrow> Panic
           | Ret rc \<Rightarrow> Ret \<lparr>ss_sendCtx = sc, ss_recvCtx = rc\<rparr>))"

definition SrtpSession_Protect ::
    "keystream \<Rightarrow> mac \<Rightarrow> SrtpSession \<Rightarrow> RtpPacket \<Rightarrow> (SrtpError, bytes) outcome \<times> SrtpSession" where
  "SrtpSession_Protect ks hmac s packet =
     (let (r, c) = Protect ks hmac (ss_sendCtx s) packet in (r, s\<lparr>ss_sendCtx := c\<rparr>))"

definition SrtpSession_Unprotect ::
    "keystream \<Rightarrow> SrtpSession \<Rightarrow> bytes \<Rightarrow> (SrtpError, RtpPacket) outcome \<times> SrtpSession" where
  "SrtpSession_Unprotect ks s data =
     (let (r, c) = Unprotect ks (ss_recvCtx s) data in (r, s\<lparr>ss_recvCtx := c\<rparr>))"

definition SetSendAuthKeying ::
    "keystream \<Rightarrow> SrtpSession \<Rightarrow> SrtpKeyingMaterial \<Rightarrow> (string, SrtpSession) outcome" where
  "SetSendAuthKeying ks s keying =
     map_outcome (\<lambda>c. s\<lparr>ss_sendCtx := c\<rparr>) (SetAuthKeying ks (ss_sendCtx s) keying)"


section \<open>The key stream\<close>

text \<open>The key sizes \<^verbatim>\<open>aes.NewCipher\<close> takes.\<close>

definition aes_key_ok :: "bytes \<Rightarrow> bool" where
  "aes_key_ok key \<longleftrightarrow> length key = 16 \<or> length key = 24 \<or> length key = 32"

lemma aesCtrXor_Inr_iff:
  "aesCtrXor ks key iv src = Inr out \<longleftrightarrow>
     aes_key_ok key \<and> out = map (\<lambda>i. src ! i XOR ks key iv i) [0..<length src]"
  by (auto simp: aesCtrXor_def aes_key_ok_def)

lemma aesCtrXor_involution:
  assumes "aesCtrXor ks key iv src = Inr out"
  shows "aesCtrXor ks key iv out = Inr src"
proof -
  have "src = map (\<lambda>i. out ! i XOR ks key iv i) [0..<length out]"
    using assms by (intro nth_equalityI) (auto simp: aesCtrXor_Inr_iff xor.assoc)
  with assms show ?thesis by (auto simp: aesCtrXor_Inr_iff)
qed

lemma length_aesCtrXor: "aesCtrXor ks key iv src = Inr out \<Longrightarrow> length out = length src"
  by (auto simp: aesCtrXor_Inr_iff)

lemma aesCtrXor_succeeds: "aes_key_ok key \<Longrightarrow> \<exists>out. aesCtrXor ks key iv src = Inr out"
  by (simp add: aesCtrXor_Inr_iff)

section \<open>Initialisation vectors\<close>

lemma map2_xor_inject:
  "length a = n \<Longrightarrow> length b = n \<Longrightarrow> n \<le> length (x :: u8 list) \<Longrightarrow>
   map2 (XOR) x a = map2 (XOR) x b \<Longrightarrow> a = b"
proof (induction n arbitrary: a b x)
  case 0
  then show ?case by simp
next
  case (Suc n)
  then obtain a0 a1 b0 b1 x0 x1 where
    s: "a = a0 # a1" "b = b0 # b1" "x = x0 # x1" by (auto simp: Suc_le_length_iff length_Suc_conv)
  with Suc.prems have "x0 XOR a0 = x0 XOR b0" by simp
  then have "a0 = b0" by (metis xor.assoc xor_self_eq xor.left_neutral)
  with s Suc.prems Suc.IH [of a1 b1 x1] show ?case by simp
qed

lemma xor_at_inject:
  assumes "length a = length b" "off + length a \<le> length buf"
    and eq: "xor_at off a buf = xor_at off b buf"
  shows "a = b"
proof -
  have "take (length a) (drop off (xor_at off c buf)) = map2 (XOR) (drop off buf) c"
    if "length c = length a" for c
    using assms(2) that by (simp add: xor_at_def blit_def min_def)
  from this [of a] this [of b] assms(1) eq
  have "map2 (XOR) (drop off buf) a = map2 (XOR) (drop off buf) b" by simp
  with assms show ?thesis
    by (intro map2_xor_inject [of a "length a" b "drop off buf"]) auto
qed

lemma length_xor_at [simp]: "off \<le> length buf \<Longrightarrow> length (xor_at off src buf) = length buf"
  by (simp add: xor_at_def)

lemma length_generateIV [simp]: "length (generateIV c ssrc i) = 16"
  by (simp add: generateIV_def Let_def)

lemma put_u64be_low6_inject:
  assumes "drop 2 (put_u64be i) = drop 2 (put_u64be j)" "unat i < 2 ^ 48" "unat j < 2 ^ 48"
  shows "i = j"
proof -
  have top: "take 2 (put_u64be k) = [0, 0]" if "unat k < 2 ^ 48" for k :: u64
  proof -
    have "\<not> bit k n" if "48 \<le> n" for n
    proof -
      have "take_bit 48 (unat k) = unat k" by (rule take_bit_nat_eq_self) fact
      then have "bit (unat k) n \<longleftrightarrow> n < 48 \<and> bit (unat k) n" by (metis bit_take_bit_iff)
      with \<open>48 \<le> n\<close> have "\<not> bit (unat k) n" by simp
      then show ?thesis by (simp add: bit_unsigned_iff)
    qed
    then have "ucast (drop_bit 24 (ucast (drop_bit 32 k) :: u32)) = (0 :: u8)"
      and "ucast (drop_bit 16 (ucast (drop_bit 32 k) :: u32)) = (0 :: u8)"
      by (auto intro!: bit_word_eqI simp: bit_simps)
    then show ?thesis by (simp add: put_u64be_def put_u32be_def numeral_2_eq_2)
  qed
  have "put_u64be i = put_u64be j"
    by (metis append_take_drop_id assms top)
  then show ?thesis by (simp add: be64.put_inject)
qed

lemma generateIV_inject:
  assumes "generateIV c ssrc i = generateIV c ssrc j" "unat i < 2 ^ 48" "unat j < 2 ^ 48"
  shows "i = j"
proof -
  have "drop 2 (put_u64be i) = drop 2 (put_u64be j)"
    using assms(1) unfolding generateIV_def Let_def
    by (rule xor_at_inject [rotated 2]) simp_all
  with assms show ?thesis by (intro put_u64be_low6_inject)
qed

lemma generateIV_salt: "sc_sessionSalt c = sc_sessionSalt d \<Longrightarrow> generateIV c = generateIV d"
  by (simp add: generateIV_def fun_eq_iff)

section \<open>Packet indices\<close>

lemma packetIndex_value: "unat (packetIndex c seq) = unat (sc_roc c) * 65536 + unat seq"
proof -
  have "packetIndex c seq = push_bit 16 (ucast (sc_roc c)) + ucast seq"
    unfolding packetIndex_def
    by (rule disjunctive_add [symmetric]) (auto simp: bit_simps dest: bit_imp_le_length)
  moreover have "unat (sc_roc c) < 2 ^ 32" "unat seq < 2 ^ 16"
    using unsigned_less [of "sc_roc c"] unsigned_less [of seq] by simp_all
  ultimately show ?thesis
    by (simp add: unat_word_ariths push_bit_eq_mult unsigned_ucast_eq take_bit_nat_eq_self_iff
        take_bit_nat_eq_self)
qed

lemma packetIndex_bound: "unat (packetIndex c seq) < 2 ^ 48"
proof -
  have "unat (sc_roc c) < 2 ^ 32" "unat seq < 2 ^ 16"
    using unsigned_less [of "sc_roc c"] unsigned_less [of seq] by simp_all
  then show ?thesis by (simp add: packetIndex_value)
qed

text \<open>The 48-bit index of the last packet a context has seen.\<close>

definition ctx_index :: "SrtpContext \<Rightarrow> nat" where
  "ctx_index c = unat (sc_roc c) * 65536 + unat (sc_lastSeq c)"

lemma updateRoc_lastSeq [simp]: "sc_lastSeq (updateRoc c seq) = seq"
  by (simp add: updateRoc_def Let_def)

lemma updateRoc_fields [simp]:
  "sc_initialized (updateRoc c seq)"
  "sc_sessionKey (updateRoc c seq) = sc_sessionKey c"
  "sc_sessionSalt (updateRoc c seq) = sc_sessionSalt c"
  "sc_authKey (updateRoc c seq) = sc_authKey c"
  "sc_authTagLen (updateRoc c seq) = sc_authTagLen c"
  by (simp_all add: updateRoc_def Let_def)

lemma packetIndex_updateRoc: "unat (packetIndex (updateRoc c seq) seq) = ctx_index (updateRoc c seq)"
  by (simp add: packetIndex_value ctx_index_def)

text \<open>A context follows its stream as long as fewer than \<open>2 ^ 15\<close> packets are skipped at a time.\<close>

lemma updateRoc_follow:
  assumes ini: "sc_initialized c" and m: "ctx_index c < m" "m < ctx_index c + 32768" "m < 2 ^ 48"
  shows "ctx_index (updateRoc c (of_nat m)) = m"
proof -
  let ?r = "unat (sc_roc c)" and ?l = "unat (sc_lastSeq c)"
  have l: "?l < 65536" using unsigned_less [of "sc_lastSeq c"] by simp
  have s: "unat (of_nat m :: u16) = m mod 65536"
    by (simp add: unat_of_nat take_bit_eq_mod)
  have mr: "?r * 65536 + ?l < m" "m < ?r * 65536 + ?l + 32768"
    using m by (simp_all add: ctx_index_def)
  show ?thesis
  proof (cases "m < (?r + 1) * 65536")
    case True
    with mr have md: "m mod 65536 = m - ?r * 65536"
      by (intro mod_nat_eqI) (auto simp: dvd_def)
    with mr have "\<not> int (m mod 65536) - int ?l < -32768" by linarith
    with ini s md mr show ?thesis by (simp add: updateRoc_def Let_def ctx_index_def)
  next
    case False
    have md: "m mod 65536 = m - (?r + 1) * 65536"
      using False mr l by (intro mod_nat_eqI) ((simp; linarith)?, auto simp only: diff_diff_cancel not_less dvd_triv_right)
    have "m - (?r + 1) * 65536 + 32768 < ?l" using False mr l by (simp add: not_less)
    then have less: "int (m mod 65536) - int ?l < -32768" unfolding md by linarith
    have "?r + 1 < 2 ^ 32" using False m(3) by simp
    then have "unat (sc_roc c + 1) = ?r + 1"
      by (simp add: unat_word_ariths)
    with ini s less md False show ?thesis by (simp add: updateRoc_def Let_def ctx_index_def)
  qed
qed

lemma updateRoc_first: "\<not> sc_initialized c \<Longrightarrow> sc_roc c = 0 \<Longrightarrow> ctx_index (updateRoc c seq) = unat seq"
  by (simp add: updateRoc_def ctx_index_def)


section \<open>Protected packets\<close>

definition protected_bytes :: "keystream \<Rightarrow> mac \<Rightarrow> SrtpContext \<Rightarrow> RtpPacket \<Rightarrow> bytes" where
  "protected_bytes ks hmac c p =
     (let h = rp_Header p;
          iv = generateIV c (rh_Ssrc h) (packetIndex c (rh_SequenceNumber h));
          enc = map (\<lambda>i. rp_Payload p ! i XOR ks (sc_sessionKey c) iv i) [0..<length (rp_Payload p)];
          body = header_bytes h @ enc
      in body @ take (sc_authTagLen c) (hmac (sc_authKey c) (body @ put_u32be (sc_roc c))))"

text \<open>The contexts the constructor makes: a usable key and a MAC at least as long as the tag.\<close>

definition ctx_ok :: "mac \<Rightarrow> SrtpContext \<Rightarrow> bool" where
  "ctx_ok hmac c \<longleftrightarrow> aes_key_ok (sc_sessionKey c)
     \<and> (\<forall>m. sc_authTagLen c \<le> length (hmac (sc_authKey c) m))"

lemma ctx_ok_updateRoc [simp]: "ctx_ok hmac (updateRoc c seq) = ctx_ok hmac c"
  by (simp add: ctx_ok_def)

lemma Protect_bytes:
  assumes ok: "ctx_ok hmac c" and con: "csrc_consistent (rp_Header p)"
  shows "Protect ks hmac c p =
    (let c1 = updateRoc c (rh_SequenceNumber (rp_Header p)) in (Ret (protected_bytes ks hmac c1 p), c1))"
proof -
  let ?h = "rp_Header p"
  define c1 where "c1 = updateRoc c (rh_SequenceNumber ?h)"
  let ?iv = "generateIV c1 (rh_Ssrc ?h) (packetIndex c1 (rh_SequenceNumber ?h))"
  define enc where
    "enc = map (\<lambda>i. rp_Payload p ! i XOR ks (sc_sessionKey c1) ?iv i) [0..<length (rp_Payload p)]"
  let ?n = "RtpHeader_Size ?h" and ?k = "length (rp_Payload p)" and ?t = "sc_authTagLen c1"
  have ok1: "ctx_ok hmac c1" using ok by (simp add: c1_def)
  have aes: "aesCtrXor ks (sc_sessionKey c1) ?iv (rp_Payload p) = Inr enc"
    using ok1 by (simp add: aesCtrXor_Inr_iff enc_def ctx_ok_def)
  have out1: "RtpHeader_Encode ?h (replicate (?n + ?k + ?t) 0) =
      Ret (header_bytes ?h @ replicate (?k + ?t) 0, ?n)"
    using RtpHeader_Encode_bytes [OF con, of "replicate (?n + ?k + ?t) 0"] by simp
  have len: "length (header_bytes ?h) = ?n" "length enc = ?k"
    using con by (simp_all add: length_header_bytes enc_def)
  have out2: "blit ?n enc (header_bytes ?h @ replicate (?k + ?t) 0) =
      (header_bytes ?h @ enc) @ replicate ?t 0"
    using len by (simp add: blit_append)
  have tag: "computeAuthTag hmac c1 (header_bytes ?h @ enc) (sc_roc c1) ?t =
      Some (take ?t (hmac (sc_authKey c1) ((header_bytes ?h @ enc) @ put_u32be (sc_roc c1))))"
    using ok1 by (simp add: computeAuthTag_def Let_def ctx_ok_def not_less)
  have "length (hmac (sc_authKey c1) m) \<ge> ?t" for m using ok1 by (simp add: ctx_ok_def)
  then have fin: "blit (?n + ?k) (take ?t (hmac (sc_authKey c1) m)) ((header_bytes ?h @ enc) @ replicate ?t 0) =
      (header_bytes ?h @ enc) @ take ?t (hmac (sc_authKey c1) m)" for m
    using len by (subst blit_append) (auto simp: min_absorb2)
  have body: "take (?n + ?k) ((header_bytes ?h @ enc) @ replicate ?t 0) = header_bytes ?h @ enc"
    using len by simp
  have "protected_bytes ks hmac c1 p = (header_bytes ?h @ enc)
      @ take ?t (hmac (sc_authKey c1) ((header_bytes ?h @ enc) @ put_u32be (sc_roc c1)))"
    by (simp add: protected_bytes_def Let_def enc_def)
  then show ?thesis
    unfolding Protect_def Let_def c1_def [symmetric] out1
    by (simp only: outcome.case prod.case aes sum.case out2 body tag option.case fin) simp
qed

text \<open>Two contexts agree on everything decryption looks at.\<close>

definition in_sync :: "SrtpContext \<Rightarrow> SrtpContext \<Rightarrow> bool" where
  "in_sync c d \<longleftrightarrow> sc_sessionKey c = sc_sessionKey d \<and> sc_sessionSalt c = sc_sessionSalt d
     \<and> sc_authTagLen c = sc_authTagLen d \<and> sc_roc c = sc_roc d \<and> sc_lastSeq c = sc_lastSeq d
     \<and> sc_initialized c = sc_initialized d"

lemma in_sync_updateRoc: "in_sync c d \<Longrightarrow> in_sync (updateRoc c seq) (updateRoc d seq)"
  by (simp add: in_sync_def updateRoc_def Let_def)

lemma Unprotect_bytes:
  assumes can: "rtp_canonical h" and enc: "enc \<noteq> []" and tag: "length tag = sc_authTagLen d"
    and key: "aes_key_ok (sc_sessionKey d)"
  shows "Unprotect ks d (header_bytes h @ enc @ tag) =
    (let d1 = updateRoc d (rh_SequenceNumber h);
         iv = generateIV d1 (rh_Ssrc h) (packetIndex d1 (rh_SequenceNumber h))
     in (Ret \<lparr>rp_Header = h,
              rp_Payload = map (\<lambda>i. enc ! i XOR ks (sc_sessionKey d) iv i) [0..<length enc]\<rparr>, d1))"
proof -
  have len: "length (header_bytes h) = RtpHeader_Size h"
    using can by (simp add: length_header_bytes rtp_canonical_def)
  have "12 \<le> RtpHeader_Size h" by (simp add: RtpHeader_Size_def rtpMinHeaderSize_def)
  moreover have "int (length (header_bytes h @ enc @ tag)) - int (RtpHeader_Size h)
      - int (sc_authTagLen d) = int (length enc)" using len tag by simp
  moreover have "slice (RtpHeader_Size h) (RtpHeader_Size h + length enc) (header_bytes h @ enc @ tag) = enc"
    using len by (simp add: slice_def)
  moreover have "aesCtrXor ks (sc_sessionKey d) iv enc =
      Inr (map (\<lambda>i. enc ! i XOR ks (sc_sessionKey d) iv i) [0..<length enc])" for iv
    using key by (simp add: aesCtrXor_Inr_iff)
  ultimately show ?thesis
    using enc len by (simp add: Unprotect_def Let_def DecodeRtpHeader_bytes [OF can])
qed

lemma Unprotect_protected:
  assumes ok: "ctx_ok hmac c" and sync: "in_sync c (updateRoc d (rh_SequenceNumber (rp_Header p)))"
    and can: "rtp_canonical (rp_Header p)" and pay: "rp_Payload p \<noteq> []"
  shows "Unprotect ks d (protected_bytes ks hmac c p) =
           (Ret p, updateRoc d (rh_SequenceNumber (rp_Header p)))"
proof -
  let ?h = "rp_Header p" and ?s = "rh_SequenceNumber (rp_Header p)"
  define d1 where "d1 = updateRoc d ?s"
  let ?iv = "generateIV c (rh_Ssrc ?h) (packetIndex c ?s)"
  define enc where
    "enc = map (\<lambda>i. rp_Payload p ! i XOR ks (sc_sessionKey c) ?iv i) [0..<length (rp_Payload p)]"
  define tag where
    "tag = take (sc_authTagLen c) (hmac (sc_authKey c) (header_bytes ?h @ enc @ put_u32be (sc_roc c)))"
  have pb: "protected_bytes ks hmac c p = header_bytes ?h @ enc @ tag"
    by (simp add: protected_bytes_def Let_def enc_def tag_def)
  have sync1: "in_sync c d1" using sync by (simp add: d1_def)
  have "generateIV d1 = generateIV c" "packetIndex d1 ?s = packetIndex c ?s"
    using sync1 generateIV_salt [of d1 c] by (simp_all add: in_sync_def packetIndex_def)
  moreover have "sc_sessionKey d = sc_sessionKey c" using sync by (simp add: in_sync_def)
  ultimately have same: "generateIV d1 (rh_Ssrc ?h) (packetIndex d1 ?s) = ?iv"
    "sc_sessionKey d = sc_sessionKey c" by simp_all
  have "enc \<noteq> []" using pay by (simp add: enc_def)
  moreover have "length tag = sc_authTagLen d"
    using ok sync by (simp add: tag_def ctx_ok_def in_sync_def min_absorb2)
  moreover have "aes_key_ok (sc_sessionKey d)" using ok sync by (simp add: ctx_ok_def in_sync_def)
  ultimately have "Unprotect ks d (header_bytes ?h @ enc @ tag) =
      (Ret \<lparr>rp_Header = ?h,
            rp_Payload = map (\<lambda>i. enc ! i XOR ks (sc_sessionKey c) ?iv i) [0..<length enc]\<rparr>, d1)"
    using Unprotect_bytes [OF can, of enc tag d ks] by (simp add: Let_def same flip: d1_def)
  moreover have "map (\<lambda>i. enc ! i XOR ks (sc_sessionKey c) ?iv i) [0..<length enc] = rp_Payload p"
    by (intro nth_equalityI) (auto simp: enc_def xor.assoc)
  ultimately show ?thesis by (simp add: pb d1_def)
qed

section \<open>Streams of packets\<close>

fun protect_all :: "keystream \<Rightarrow> mac \<Rightarrow> SrtpContext \<Rightarrow> RtpPacket list \<Rightarrow> (SrtpError, bytes) outcome list" where
  "protect_all ks hmac c [] = []"
| "protect_all ks hmac c (p # ps) =
     (let (r, c1) = Protect ks hmac c p in r # protect_all ks hmac c1 ps)"

fun unprotect_all :: "keystream \<Rightarrow> SrtpContext \<Rightarrow> bytes list \<Rightarrow> (SrtpError, RtpPacket) outcome list" where
  "unprotect_all ks d [] = []"
| "unprotect_all ks d (b # bs) =
     (let (r, d1) = Unprotect ks d b in r # unprotect_all ks d1 bs)"

text \<open>The packets a list of protected packets stands for.\<close>

definition sendable :: "RtpPacket \<Rightarrow> bool" where
  "sendable p \<longleftrightarrow> rtp_canonical (rp_Header p) \<and> rp_Payload p \<noteq> []"

lemma unprotect_all_protect_all:
  "ctx_ok hmac c \<Longrightarrow> in_sync c d \<Longrightarrow> list_all sendable ps \<Longrightarrow>
   \<exists>bs. protect_all ks hmac c ps = map Ret bs \<and> unprotect_all ks d bs = map Ret ps"
proof (induction ps arbitrary: c d)
  case Nil
  then show ?case by simp
next
  case (Cons p ps)
  let ?s = "rh_SequenceNumber (rp_Header p)"
  let ?c1 = "updateRoc c ?s" and ?d1 = "updateRoc d ?s"
  have sync1: "in_sync ?c1 ?d1" using Cons.prems by (simp add: in_sync_updateRoc)
  have can: "rtp_canonical (rp_Header p)" and pay: "rp_Payload p \<noteq> []"
    using Cons.prems by (simp_all add: sendable_def)
  have "Protect ks hmac c p = (Ret (protected_bytes ks hmac ?c1 p), ?c1)"
    using Protect_bytes [OF Cons.prems(1), of p ks] can by (simp add: Let_def rtp_canonical_def)
  moreover have "Unprotect ks d (protected_bytes ks hmac ?c1 p) = (Ret p, ?d1)"
    using Cons.prems(1) by (intro Unprotect_protected sync1 can pay) simp
  moreover obtain bs where "protect_all ks hmac ?c1 ps = map Ret bs" "unprotect_all ks ?d1 bs = map Ret ps"
    using Cons.IH [of ?c1 ?d1] Cons.prems sync1 by auto
  ultimately show ?case
    by (intro exI [of _ "protected_bytes ks hmac ?c1 p # bs"]) simp
qed

text \<open>A context that has seen the packet of index \<open>n\<close> last.\<close>

definition ctx_at :: "SrtpContext \<Rightarrow> nat \<Rightarrow> SrtpContext" where
  "ctx_at c n = c\<lparr>sc_roc := of_nat (n div 65536), sc_lastSeq := of_nat n, sc_initialized := True\<rparr>"

lemma ctx_at_fields [simp]:
  "sc_initialized (ctx_at c n)"
  "sc_sessionKey (ctx_at c n) = sc_sessionKey c"
  "sc_sessionSalt (ctx_at c n) = sc_sessionSalt c"
  "sc_authKey (ctx_at c n) = sc_authKey c"
  "sc_authTagLen (ctx_at c n) = sc_authTagLen c"
  by (simp_all add: ctx_at_def)

lemma ctx_ok_at [simp]: "ctx_ok hmac (ctx_at c n) = ctx_ok hmac c"
  by (simp add: ctx_ok_def)

lemma ctx_index_at: "n < 2 ^ 48 \<Longrightarrow> ctx_index (ctx_at c n) = n"
  by (simp add: ctx_index_def ctx_at_def unat_of_nat take_bit_eq_mod)

lemma ctx_at_index: "sc_initialized c \<Longrightarrow> ctx_at c (ctx_index c) = c"
proof -
  assume ini: "sc_initialized c"
  have "unat (sc_lastSeq c) < 65536" using unsigned_less [of "sc_lastSeq c"] by simp
  then have "ctx_index c div 65536 = unat (sc_roc c)" by (simp add: ctx_index_def)
  moreover have "(of_nat (ctx_index c) :: u16) = sc_lastSeq c"
  proof -
    have wrap: "(65536 :: u16) = 0" by simp
    show ?thesis unfolding ctx_index_def of_nat_add of_nat_mult of_nat_numeral wrap by simp
  qed
  ultimately show ?thesis using ini by (simp add: ctx_at_def)
qed

lemma updateRoc_same_fields:
  "c\<lparr>sc_roc := r, sc_lastSeq := l, sc_initialized := i\<rparr> =
   (updateRoc c s)\<lparr>sc_roc := r, sc_lastSeq := l, sc_initialized := i\<rparr>"
  by (simp add: updateRoc_def Let_def)

lemma ctx_at_updateRoc: "ctx_at (updateRoc c s) n = ctx_at c n"
  by (simp add: ctx_at_def updateRoc_same_fields [symmetric])

lemma ctx_at_at [simp]: "ctx_at (ctx_at c n) m = ctx_at c m"
  by (simp add: ctx_at_def)

lemma updateRoc_ctx_at:
  assumes "n < m" "m < n + 32768" "m < 2 ^ 48"
  shows "updateRoc (ctx_at c n) (of_nat m) = ctx_at c m"
proof -
  have "ctx_index (ctx_at c n) = n" using assms by (intro ctx_index_at) simp
  with assms have "ctx_index (updateRoc (ctx_at c n) (of_nat m)) = m"
    by (intro updateRoc_follow) simp_all
  then show ?thesis
    by (metis ctx_at_index updateRoc_fields(1) ctx_at_updateRoc ctx_at_at)
qed

lemma updateRoc_fresh:
  "\<not> sc_initialized c \<Longrightarrow> sc_roc c = 0 \<Longrightarrow> m < 65536 \<Longrightarrow> updateRoc c (of_nat m) = ctx_at c m"
  by (simp add: updateRoc_def ctx_at_def)


text \<open>What a fresh context sends for packets whose sequence numbers are consecutive.\<close>

definition consecutive :: "nat \<Rightarrow> RtpPacket list \<Rightarrow> bool" where
  "consecutive n ps \<longleftrightarrow> (\<forall>i < length ps. rh_SequenceNumber (rp_Header (ps ! i)) = of_nat (n + i))"

lemma consecutive_Cons:
  "consecutive n (p # ps) \<longleftrightarrow> rh_SequenceNumber (rp_Header p) = of_nat n \<and> consecutive (Suc n) ps"
  by (auto simp: consecutive_def nth_Cons' less_Suc_eq_0_disj algebra_simps split: if_splits)

lemma protect_all_from:
  assumes "ctx_ok hmac c"
  shows "consecutive n ps \<Longrightarrow> n + length ps \<le> 2 ^ 48 \<Longrightarrow> ps \<noteq> [] \<Longrightarrow>
     updateRoc c0 (of_nat n) = ctx_at c n \<Longrightarrow> ctx_ok hmac c0 \<Longrightarrow> list_all sendable ps \<Longrightarrow>
     protect_all ks hmac c0 ps =
       map (\<lambda>i. Ret (protected_bytes ks hmac (ctx_at c (n + i)) (ps ! i))) [0..<length ps]"
proof (induction ps arbitrary: n c0)
  case Nil
  then show ?case by simp
next
  case (Cons p ps)
  have seq: "rh_SequenceNumber (rp_Header p) = of_nat n" and more: "consecutive (Suc n) ps"
    using Cons.prems(1) by (simp_all add: consecutive_Cons)
  have "csrc_consistent (rp_Header p)"
    using Cons.prems(6) by (simp add: sendable_def rtp_canonical_def)
  then have one: "Protect ks hmac c0 p = (Ret (protected_bytes ks hmac (ctx_at c n) p), ctx_at c n)"
    using Protect_bytes [OF Cons.prems(5), of p ks] by (simp add: Let_def seq Cons.prems(4))
  have rest: "protect_all ks hmac (ctx_at c n) ps =
      map (\<lambda>i. Ret (protected_bytes ks hmac (ctx_at c (Suc n + i)) (ps ! i))) [0..<length ps]"
  proof (cases "ps = []")
    case True
    then show ?thesis by simp
  next
    case False
    then have "0 < length ps" by simp
    with Cons.prems(2) have "updateRoc (ctx_at c n) (of_nat (Suc n)) = ctx_at c (Suc n)"
      by (intro updateRoc_ctx_at) (simp_all del: length_greater_0_conv)
    with False Cons.prems more assms show ?thesis by (intro Cons.IH) auto
  qed
  have "[0..<length (p # ps)] = 0 # map Suc [0..<length ps]"
    by (simp add: map_Suc_upt upt_conv_Cons del: upt_Suc)
  then show ?case by (simp add: one rest del: upt_Suc)
qed

lemma protect_all_consecutive:
  assumes "ctx_ok hmac c" "\<not> sc_initialized c" "sc_roc c = 0" "consecutive n ps" "n < 65536"
    "n + length ps \<le> 2 ^ 48" "list_all sendable ps"
  shows "protect_all ks hmac c ps =
     map (\<lambda>i. Ret (protected_bytes ks hmac (ctx_at c (n + i)) (ps ! i))) [0..<length ps]"
proof (cases "ps = []")
  case False
  with assms show ?thesis by (intro protect_all_from) (simp_all add: updateRoc_fresh)
qed simp

text \<open>The contexts of two ends of a stream: the same keys, each at its own place.\<close>

definition same_keys :: "SrtpContext \<Rightarrow> SrtpContext \<Rightarrow> bool" where
  "same_keys c d \<longleftrightarrow> sc_sessionKey c = sc_sessionKey d \<and> sc_sessionSalt c = sc_sessionSalt d
     \<and> sc_authTagLen c = sc_authTagLen d"

lemma in_sync_at: "same_keys c d \<Longrightarrow> in_sync (ctx_at c n) (ctx_at d n)"
  by (simp add: same_keys_def in_sync_def ctx_at_def)

text \<open>The places of the delivered packets: increasing, and without a gap of \<open>2 ^ 15\<close> or more.\<close>

fun deliverable :: "nat list \<Rightarrow> bool" where
  "deliverable [] = True"
| "deliverable [j] = True"
| "deliverable (j # k # js) = (j < k \<and> k < j + 32768 \<and> deliverable (k # js))"

lemma unprotect_all_from:
  assumes "ctx_ok hmac c" "same_keys c d" "consecutive n ps" "n + length ps \<le> 2 ^ 48"
    "list_all sendable ps"
  shows "deliverable js \<Longrightarrow> \<forall>j \<in> set js. j < length ps \<Longrightarrow>
     js = [] \<or> updateRoc d0 (of_nat (n + hd js)) = ctx_at d (n + hd js) \<Longrightarrow>
     unprotect_all ks d0 (map (\<lambda>j. protected_bytes ks hmac (ctx_at c (n + j)) (ps ! j)) js) =
       map (\<lambda>j. Ret (ps ! j)) js"
proof (induction js arbitrary: d0)
  case Nil
  then show ?case by simp
next
  case (Cons j js)
  let ?p = "ps ! j"
  have j: "j < length ps" using Cons.prems(2) by simp
  then have seq: "rh_SequenceNumber (rp_Header ?p) = of_nat (n + j)"
    and snd: "sendable ?p"
    using assms(3,5) by (simp_all add: consecutive_def list_all_length)
  have roc: "updateRoc d0 (of_nat (n + j)) = ctx_at d (n + j)" using Cons.prems(3) by simp
  have one: "Unprotect ks d0 (protected_bytes ks hmac (ctx_at c (n + j)) ?p) = (Ret ?p, ctx_at d (n + j))"
    using Unprotect_protected [of hmac "ctx_at c (n + j)" d0 ?p ks] assms(1,2) snd
    by (simp add: seq roc in_sync_at sendable_def del: of_nat_add)
  have "js = [] \<or> updateRoc (ctx_at d (n + j)) (of_nat (n + hd js)) = ctx_at d (n + hd js)"
  proof (cases js)
    case (Cons k ks')
    with Cons.prems assms(4) have "j < k" "k < j + 32768" "k < length ps" by auto
    with Cons assms(4) show ?thesis by (simp add: updateRoc_ctx_at del: of_nat_add)
  qed simp
  moreover have "deliverable js" using Cons.prems(1) by (cases js) auto
  ultimately show ?case using Cons.IH [of "ctx_at d (n + j)"] Cons.prems(2) one by simp
qed


section \<open>Contexts of a session\<close>

lemma deriveSrtpKey_Ret:
  "deriveSrtpKey ks mk ms label n = Ret out \<Longrightarrow> aes_key_ok mk \<and> 14 \<le> length ms \<and> length out = n"
  by (auto simp: deriveSrtpKey_def Let_def aesCtrXor_Inr_iff split: if_splits sum.splits)

definition tag_len :: "int \<Rightarrow> nat" where
  "tag_len n = nat (if n \<le> 0 then SRTPAuthTagLen else n)"

lemma NewSrtpContext_Ret:
  assumes "NewSrtpContext ks keying n = Ret c"
  shows "\<not> sc_initialized c \<and> sc_roc c = 0 \<and> length (sc_sessionKey c) = 16
     \<and> length (sc_sessionSalt c) = 14 \<and> sc_authTagLen c = tag_len n"
  using assms
  by (auto simp: NewSrtpContext_def Let_def tag_len_def dest: deriveSrtpKey_Ret split: outcome.splits)

lemma NewSrtpContext_succeeds:
  assumes "aes_key_ok (MasterKey k)" "14 \<le> length (MasterSalt k)"
  shows "\<exists>c. NewSrtpContext ks k n = Ret c"
proof -
  have "\<exists>out. deriveSrtpKey ks (MasterKey k) (MasterSalt k) l m = Ret out" for l m
    using assms aesCtrXor_succeeds [OF assms(1), of ks]
    by (auto simp: deriveSrtpKey_def Let_def aesCtrXor_def aes_key_ok_def split: sum.splits)
  then show ?thesis by (auto simp: NewSrtpContext_def Let_def split: outcome.splits; metis outcome.distinct)
qed

lemma ctx_ok_of_length:
  "length (sc_sessionKey c) = 16 \<Longrightarrow> sc_authTagLen c \<le> 20 \<Longrightarrow> \<forall>k m. length (hmac k m) = 20 \<Longrightarrow> ctx_ok hmac c"
  by (simp add: ctx_ok_def aes_key_ok_def)

lemma packetize_consecutive: "consecutive (unat (rs_sequenceNumber s)) (fst (packetize s ps))"
  unfolding consecutive_def length_packetize
proof (intro allI impI)
  fix i assume "i < length ps"
  from packetize_nth [OF this, of s]
  show "rh_SequenceNumber (rp_Header (fst (packetize s ps) ! i)) = of_nat (unat (rs_sequenceNumber s) + i)"
    by (simp add: NewRtpHeader_def)
qed

lemma packetize_sendable:
  assumes "rs_payloadType s < 128" "\<forall>q \<in> set ps. fst q \<noteq> []"
  shows "list_all sendable (fst (packetize s ps))"
  unfolding list_all_length length_packetize
proof (intro allI impI)
  fix i assume i: "i < length ps"
  with assms(2) have "fst (ps ! i) \<noteq> []" by simp
  with packetize_nth [OF i, of s] packetize_header_canonical [OF i assms(1)]
  show "sendable (fst (packetize s ps) ! i)" by (simp add: sendable_def)
qed

fun send_all :: "keystream \<Rightarrow> mac \<Rightarrow> SrtpSession \<Rightarrow> RtpPacket list \<Rightarrow> (SrtpError, bytes) outcome list" where
  "send_all ks hmac s [] = []"
| "send_all ks hmac s (p # ps) =
     (let (r, s1) = SrtpSession_Protect ks hmac s p in r # send_all ks hmac s1 ps)"

fun receive_all :: "keystream \<Rightarrow> SrtpSession \<Rightarrow> bytes list \<Rightarrow> (SrtpError, RtpPacket) outcome list" where
  "receive_all ks s [] = []"
| "receive_all ks s (b # bs) =
     (let (r, s1) = SrtpSession_Unprotect ks s b in r # receive_all ks s1 bs)"

lemma send_all_ctx: "send_all ks hmac s ps = protect_all ks hmac (ss_sendCtx s) ps"
  by (induction ps arbitrary: s) (auto simp: SrtpSession_Protect_def Let_def split: prod.splits)

lemma receive_all_ctx: "receive_all ks s bs = unprotect_all ks (ss_recvCtx s) bs"
  by (induction bs arbitrary: s) (auto simp: SrtpSession_Unprotect_def Let_def split: prod.splits)

lemma NewSrtpSession_Ret:
  "NewSrtpSession ks k1 k2 n1 n2 = Ret s \<longleftrightarrow>
     NewSrtpContext ks k1 n1 = Ret (ss_sendCtx s) \<and> NewSrtpContext ks k2 n2 = Ret (ss_recvCtx s)"
  by (cases s) (auto simp: NewSrtpSession_def split: outcome.splits)

text \<open>
  Property C5. Two sessions made of the same two keys, each sending with the one the other receives
  with: whatever payloads one end packetizes, protects and sends, the other end recovers, although
  packets are lost, as long as fewer than \<open>2 ^ 15\<close> are lost in a row, the first one delivered
  comes before the sender's first wrap of the sequence number, and the stream stays below \<open>2 ^ 48\<close> packets.
  (The output length of HMAC-SHA1 is the only thing assumed of the library.)
\<close>

theorem media_path_delivery:
  assumes mac: "\<forall>k m. length (hmac k m) = 20"
    and A: "NewSrtpSession ks ka kb n n' = Ret a" and B: "NewSrtpSession ks kb ka n' n = Ret b"
    and tag: "n \<le> 20" and pt: "rs_payloadType s < 128" and pay: "\<forall>q \<in> set pls. fst q \<noteq> []"
    and lim: "unat (rs_sequenceNumber s) + length pls \<le> 2 ^ 48"
    and js: "deliverable js" "\<forall>j \<in> set js. j < length pls"
    and first: "js = [] \<or> unat (rs_sequenceNumber s) + hd js < 65536"
  shows "\<exists>bs. send_all ks hmac a (fst (packetize s pls)) = map Ret bs \<and> length bs = length pls
     \<and> receive_all ks b (map ((!) bs) js) = map (\<lambda>j. Ret (fst (packetize s pls) ! j)) js"
proof -
  let ?c = "ss_sendCtx a" and ?d = "ss_recvCtx b" and ?ps = "fst (packetize s pls)"
    and ?n = "unat (rs_sequenceNumber s)"
  have cd: "?c = ?d" and new: "NewSrtpContext ks ka n = Ret ?c"
    using A B by (auto simp: NewSrtpSession_Ret)
  note fresh = NewSrtpContext_Ret [OF new]
  have ok: "ctx_ok hmac ?c"
    using fresh tag mac by (intro ctx_ok_of_length) (auto simp: tag_len_def SRTPAuthTagLen_def)
  have seq: "?n < 65536" using unsigned_less [of "rs_sequenceNumber s"] by simp
  note con = packetize_consecutive [of s pls] and snd = packetize_sendable [OF pt pay]
  define bs where "bs = map (\<lambda>i. protected_bytes ks hmac (ctx_at ?c (?n + i)) (?ps ! i)) [0..<length pls]"
  have "send_all ks hmac a ?ps = map Ret bs"
    unfolding send_all_ctx bs_def
    using protect_all_consecutive [OF ok _ _ con seq, of ks] fresh lim snd by (simp add: length_packetize)
  moreover have "map ((!) bs) js = map (\<lambda>j. protected_bytes ks hmac (ctx_at ?c (?n + j)) (?ps ! j)) js"
    using js(2) by (simp add: bs_def)
  moreover have "unprotect_all ks ?d (map (\<lambda>j. protected_bytes ks hmac (ctx_at ?c (?n + j)) (?ps ! j)) js)
      = map (\<lambda>j. Ret (?ps ! j)) js"
    using unprotect_all_from [OF ok _ con, of ?d js ?d ks] lim snd js first fresh cd
    by (auto simp: length_packetize same_keys_def updateRoc_fresh simp del: of_nat_add)
  moreover have "length bs = length pls" by (simp add: bs_def)
  ultimately show ?thesis by (intro exI [of _ bs]) (simp only: receive_all_ctx simp_thms)
qed


theorem media_path_delivery_witness:
  "\<exists>a b bs. NewSrtpSession (\<lambda>_ _ i. of_nat i) \<lparr>MasterKey = replicate 16 1, MasterSalt = replicate 14 2\<rparr>
      \<lparr>MasterKey = replicate 16 3, MasterSalt = replicate 14 4\<rparr> 4 4 = Ret a
    \<and> NewSrtpSession (\<lambda>_ _ i. of_nat i) \<lparr>MasterKey = replicate 16 3, MasterSalt = replicate 14 4\<rparr>
      \<lparr>MasterKey = replicate 16 1, MasterSalt = replicate 14 2\<rparr> 4 4 = Ret b
    \<and> receive_all (\<lambda>_ _ i. of_nat i) b (map ((!) bs) [0, 2]) =
        map (\<lambda>j. Ret (fst (packetize (NewWhatsAppOpusSession 65535 9 7)
                 [([1, 2], True), ([3], False), ([4], False)]) ! j)) [0, 2]"
proof -
  let ?ks = "\<lambda>_ _ i. of_nat i :: u8"
  let ?ka = "\<lparr>MasterKey = replicate 16 1, MasterSalt = replicate 14 2\<rparr>"
    and ?kb = "\<lparr>MasterKey = replicate 16 3, MasterSalt = replicate 14 4\<rparr>"
  let ?s = "NewWhatsAppOpusSession 65535 9 7" and ?p = "[([1, 2], True), ([3], False), ([4], False)]"
  have k: "aes_key_ok (MasterKey ?ka)" "aes_key_ok (MasterKey ?kb)" by (simp_all add: aes_key_ok_def)
  obtain c d where "NewSrtpContext ?ks ?ka 4 = Ret c" "NewSrtpContext ?ks ?kb 4 = Ret d"
    using NewSrtpContext_succeeds [OF k(1), of ?ks 4] NewSrtpContext_succeeds [OF k(2), of ?ks 4] by auto
  then have A: "NewSrtpSession ?ks ?ka ?kb 4 4 = Ret \<lparr>ss_sendCtx = c, ss_recvCtx = d\<rparr>"
    and B: "NewSrtpSession ?ks ?kb ?ka 4 4 = Ret \<lparr>ss_sendCtx = d, ss_recvCtx = c\<rparr>"
    by (simp_all add: NewSrtpSession_def)
  have "rs_payloadType ?s < 128" "unat (rs_sequenceNumber ?s) = 65535"
    by (simp_all add: NewWhatsAppOpusSession_def NewRtpSession_def PayloadTypeWhatsAppOpus_def)
  then show ?thesis
    using media_path_delivery [where hmac = "\<lambda>_ _. replicate 20 0", OF _ A B, of ?s ?p "[0, 2]"] A B
    by auto
qed

text \<open>The initialisation vectors \<open>Protect\<close> encrypts under, for the packets it accepts in turn.\<close>

fun iv_trace :: "keystream \<Rightarrow> mac \<Rightarrow> SrtpContext \<Rightarrow> RtpPacket list \<Rightarrow> bytes list" where
  "iv_trace ks hmac c [] = []"
| "iv_trace ks hmac c (p # ps) =
     (let c1 = snd (Protect ks hmac c p); h = rp_Header p
      in generateIV c1 (rh_Ssrc h) (packetIndex c1 (rh_SequenceNumber h)) # iv_trace ks hmac c1 ps)"

lemma snd_Protect: "snd (Protect ks hmac c p) = updateRoc c (rh_SequenceNumber (rp_Header p))"
  by (simp add: Protect_def Let_def)

lemma iv_trace_from:
  "consecutive n ps \<Longrightarrow> n + length ps \<le> 2 ^ 48 \<Longrightarrow> ps \<noteq> [] \<Longrightarrow>
     updateRoc c0 (of_nat n) = ctx_at c n \<Longrightarrow>
     iv_trace ks hmac c0 ps =
       map (\<lambda>i. generateIV c (rh_Ssrc (rp_Header (ps ! i)))
                  (packetIndex (ctx_at c (n + i)) (of_nat (n + i)))) [0..<length ps]"
proof (induction ps arbitrary: n c0)
  case Nil
  then show ?case by simp
next
  case (Cons p ps)
  have seq: "rh_SequenceNumber (rp_Header p) = of_nat n" and more: "consecutive (Suc n) ps"
    using Cons.prems(1) by (simp_all add: consecutive_Cons)
  have iv: "generateIV (ctx_at c n) = generateIV c" by (intro generateIV_salt) simp
  have rest: "iv_trace ks hmac (ctx_at c n) ps =
      map (\<lambda>i. generateIV c (rh_Ssrc (rp_Header (ps ! i)))
                 (packetIndex (ctx_at c (Suc n + i)) (of_nat (Suc n + i)))) [0..<length ps]"
  proof (cases "ps = []")
    case False
    then have "0 < length ps" by simp
    with Cons.prems(2) have "updateRoc (ctx_at c n) (of_nat (Suc n)) = ctx_at c (Suc n)"
      by (intro updateRoc_ctx_at) (simp_all del: length_greater_0_conv)
    with False Cons.prems more show ?thesis by (intro Cons.IH) auto
  qed simp
  have "[0..<length (p # ps)] = 0 # map Suc [0..<length ps]"
    by (simp add: map_Suc_upt upt_conv_Cons del: upt_Suc)
  then show ?case by (simp add: snd_Protect seq Cons.prems(4) rest iv Let_def ac_simps del: upt_Suc)
qed

lemma packetIndex_ctx_at: "n < 2 ^ 48 \<Longrightarrow> unat (packetIndex (ctx_at c n) (of_nat n)) = n"
  by (simp add: packetIndex_value ctx_at_def unat_of_nat take_bit_eq_mod)



section \<open>What the receiver does not check\<close>

text \<open>
  The authentication tag never enters \<open>Unprotect\<close>: a packet whose tag is replaced by any
  other bytes of the same length decrypts to the same payload and leaves the same state, with no error.
\<close>

theorem Unprotect_ignores_tag:
  assumes "rtp_canonical h" "enc \<noteq> []" "length tag = sc_authTagLen d" "length tag' = sc_authTagLen d"
    "aes_key_ok (sc_sessionKey d)"
  shows "Unprotect ks d (header_bytes h @ enc @ tag') = Unprotect ks d (header_bytes h @ enc @ tag)
     \<and> returns (fst (Unprotect ks d (header_bytes h @ enc @ tag')))"
  using Unprotect_bytes [OF assms(1,2,3,5), of ks] Unprotect_bytes [OF assms(1,2,4,5), of ks]
  by (simp add: Let_def)

theorem Unprotect_ignores_tag_witness:
  "returns (fst (Unprotect (\<lambda>_ _ i. of_nat i)
      \<lparr>sc_sessionKey = replicate 16 0, sc_sessionSalt = replicate 14 0, sc_authKey = [], sc_roc = 0,
       sc_lastSeq = 0, sc_initialized = False, sc_authTagLen = 4\<rparr>
      (header_bytes (NewRtpHeader 120 1 2 3\<lparr>rh_Marker := True\<rparr>) @ [7] @ [0xde, 0xad, 0xbe, 0xef])))"
  by (rule Unprotect_ignores_tag [where tag = "[0, 0, 0, 0]", THEN conjunct2])
    (simp_all add: aes_key_ok_def NewRtpHeader_canonical)

text \<open>
  The receiver does not survive reordering around the wrap of the sequence number: a
  packet that is late by one place across the wrap makes it count the wrap twice, and from there on its
  index is \<open>65536\<close> ahead of the sender's.
\<close>

theorem late_packet_counts_wrap_twice:
  assumes "sc_initialized c" "sc_lastSeq c = 65535"
  shows "sc_roc (foldl updateRoc c [0, 65535, 1]) = sc_roc c + 2
     \<and> sc_roc (foldl updateRoc c [0, 1]) = sc_roc c + 1"
  using assms by (simp add: updateRoc_def Let_def)

theorem late_packet_counts_wrap_twice_witness:
  "sc_roc (foldl updateRoc \<lparr>sc_sessionKey = replicate 16 0, sc_sessionSalt = replicate 14 0,
     sc_authKey = [], sc_roc = 0, sc_lastSeq = 65535, sc_initialized = True, sc_authTagLen = 4\<rparr>
     [0, 65535, 1]) = 2"
  by (subst late_packet_counts_wrap_twice [THEN conjunct1]) simp_all

end
