(* ===== verification/MediaKeys.thy ===== *)
theory MediaKeys
  imports Srtp
begin

text \<open>
  The keys and stream ids of a call (\<^verbatim>\<open>internal/voip/media/ssrc.go\<close>, \<^verbatim>\<open>encryption.go\<close>) and the resizing of a
  frame (\<^verbatim>\<open>resample.go\<close>). HKDF-SHA256 of the Go library is a parameter: \<open>hkdf secret salt info n\<close> gives \<open>n\<close> bytes
  (both requested lengths are far below its limit, so it does not fail).
\<close>

type_synonym hkdf = "bytes \<Rightarrow> bytes \<Rightarrow> string \<Rightarrow> nat \<Rightarrow> bytes"

definition hkdf_ok :: "hkdf \<Rightarrow> bool" where
  "hkdf_ok hkdf \<longleftrightarrow> (\<forall>secret salt info n. length (hkdf secret salt info n) = n)"

definition GenerateSecureSsrc :: "hkdf \<Rightarrow> string \<Rightarrow> string \<Rightarrow> u32 \<Rightarrow> u32" where
  "GenerateSecureSsrc hkdf callID selfJid counter =
     get_u32le (hkdf (bytes_of callID) (put_u32le counter) selfJid 4)"

definition DerivePerJidSrtpKey :: "hkdf \<Rightarrow> bytes \<Rightarrow> string \<Rightarrow> SrtpKeyingMaterial" where
  "DerivePerJidSrtpKey hkdf callKey deviceJid =
     (let out = hkdf callKey [] deviceJid 46
      in \<lparr>MasterKey = slice 0 16 out, MasterSalt = slice 16 30 out\<rparr>)"

text \<open>The 32 random bytes of a new call key are an argument.\<close>

definition GenerateCallKey :: "bytes \<Rightarrow> bytes" where
  "GenerateCallKey rnd = rnd"

definition NormalizeFrame :: "'p \<Rightarrow> 'p list \<Rightarrow> nat \<Rightarrow> 'p list" where
  "NormalizeFrame zero pcm n =
     (if length pcm = n then pcm else blit 0 (take n pcm) (replicate n zero))"

lemma length_NormalizeFrame: "length (NormalizeFrame zero pcm n) = n"
  by (simp add: NormalizeFrame_def)

lemma derived_key_sizes:
  "hkdf_ok hkdf \<Longrightarrow> length (MasterKey (DerivePerJidSrtpKey hkdf k j)) = 16
     \<and> length (MasterSalt (DerivePerJidSrtpKey hkdf k j)) = 14"
  by (simp add: DerivePerJidSrtpKey_def Let_def slice_def hkdf_ok_def)

lemma derived_session:
  assumes "hkdf_ok hkdf"
  shows "\<exists>s. NewSrtpSession ks (DerivePerJidSrtpKey hkdf k1 j1) (DerivePerJidSrtpKey hkdf k2 j2) n1 n2 = Ret s"
proof -
  have ok: "\<exists>c. NewSrtpContext ks (DerivePerJidSrtpKey hkdf k j) n = Ret c" for k j n
    using derived_key_sizes [OF assms, of k j]
    by (intro NewSrtpContext_succeeds) (simp_all add: aes_key_ok_def)
  obtain c d where "NewSrtpContext ks (DerivePerJidSrtpKey hkdf k1 j1) n1 = Ret c"
    "NewSrtpContext ks (DerivePerJidSrtpKey hkdf k2 j2) n2 = Ret d" using ok by metis
  then show ?thesis by (simp add: NewSrtpSession_def)
qed

end
