(* ===== verification/CallManager.thy ===== *)
theory CallManager
  imports CallStates CallHelpers SignalingBuild Relay MediaKeys
begin

text \<open>
  The call engine (\<^verbatim>\<open>internal/voip/call/callmanager*.go\<close>): one \<open>CallManager\<close> holds one call and its media. Each
  exported method, callback and timer is one function from the state to the state; what it shows to the outside
  (callbacks to the session, stanzas sent or queried) is appended to \<open>cm_events\<close>. Handlers run atomically; goroutines
  that only send are run at the point where they are started. The speech codec is a parameter.
\<close>

datatype ('j, 'p) cm_event =
    StateChanged CallInfo
  | Incoming CallInfo
  | EndedCall CallInfo
  | SentNode "'j node"
  | Queried "'j node"
  | PeerAudio "'p list"

record ('j, 'c, 'p) CallManager =
  cm_currentCall :: "CallInfo option"
  cm_rtpSession :: "RtpSession option"
  cm_srtpSession :: "SrtpSession option"
  cm_codec :: "'c option"
  cm_relay :: SctpRelayManager
  cm_selfSsrc :: u32
  cm_peerSsrcs :: "u32 list"
  cm_actualPeerSet :: bool
  cm_firstPacketSent :: bool
  cm_initialTransportSent :: bool
  cm_outgoingPreacceptSent :: bool
  cm_acceptedByJid :: string
  cm_debeEnabled :: bool
  cm_encodeBuf :: "'p list option"
  cm_encodeBufPos :: nat
  cm_lastCaptureAt :: int
  cm_keepaliveStop :: bool  \<comment> \<open>whether the keepalive goroutine runs\<close>
  cm_events :: "('j, 'p) cm_event list"

text \<open>
  Everything a step takes from outside: the JID operations, the socket, the ciphers, the codec (a state with its
  encoder and decoder, and the zero sample), the clock, the random draws, and how WebRTC set-ups turn out.
\<close>

record ('j, 'c, 'p) Env =
  en_J :: "'j jid_ops"
  en_sock :: "'j VoipSocket"
  en_hkdf :: hkdf
  en_ks :: keystream
  en_hmac :: mac
  en_rand :: rand
  en_codec :: 'c
  en_encode :: "'c \<Rightarrow> 'p list \<Rightarrow> (string + bytes) \<times> 'c"
  en_decode :: "'c \<Rightarrow> bytes \<Rightarrow> (string + 'p list) \<times> 'c"
  en_zero :: 'p
  en_now :: int
  en_callKey :: bytes
  en_rseq :: nat
  en_rts :: nat
  en_stanza :: "nat \<Rightarrow> bytes"
  en_pc :: "RelayConfig \<Rightarrow> pc_outcome"

definition mlowFrameSize :: nat where "mlowFrameSize = 960"

definition NewCallManager :: "('j, 'c, 'p) CallManager" where
  "NewCallManager = \<lparr>cm_currentCall = None, cm_rtpSession = None, cm_srtpSession = None, cm_codec = None,
     cm_relay = NewSctpRelayManager, cm_selfSsrc = 0, cm_peerSsrcs = [], cm_actualPeerSet = False,
     cm_firstPacketSent = False, cm_initialTransportSent = False, cm_outgoingPreacceptSent = False,
     cm_acceptedByJid = '''', cm_debeEnabled = True, cm_encodeBuf = None, cm_encodeBufPos = 0,
     cm_lastCaptureAt = 0, cm_keepaliveStop = False, cm_events = []\<rparr>"

definition emit :: "('j, 'c, 'p) CallManager \<Rightarrow> ('j, 'p) cm_event \<Rightarrow> ('j, 'c, 'p) CallManager" where
  "emit m e = m\<lparr>cm_events := cm_events m @ [e]\<rparr>"

definition emitState :: "('j, 'c, 'p) CallManager \<Rightarrow> ('j, 'c, 'p) CallManager" where
  "emitState m = (case cm_currentCall m of None \<Rightarrow> m | Some c \<Rightarrow> emit m (StateChanged c))"

text \<open>\<^verbatim>\<open>_ = call.ApplyTransition(...)\<close> on the current call.\<close>

definition apply_current :: "int \<Rightarrow> Transition \<Rightarrow> ('j, 'c, 'p) CallManager \<Rightarrow> ('j, 'c, 'p) CallManager" where
  "apply_current now t m = m\<lparr>cm_currentCall := map_option (\<lambda>c. try_transition c (now, t)) (cm_currentCall m)\<rparr>"

definition ownCredJid :: "('j, 'c, 'p) Env \<Rightarrow> string" where
  "ownCredJid en =
     (let lid = OwnLID (en_sock en)
      in if \<not> jid_IsEmpty (en_J en) lid then jid_String (en_J en) lid
         else jid_String (en_J en) (OwnPN (en_sock en)))"

section \<open>Media\<close>

definition initCodec :: "('j, 'c, 'p) Env \<Rightarrow> ('j, 'c, 'p) CallManager \<Rightarrow> ('j, 'c, 'p) CallManager" where
  "initCodec en m = (if cm_codec m \<noteq> None then m else m\<lparr>cm_codec := Some (en_codec en)\<rparr>)"

text \<open>
  A packet that cannot be protected is dropped. (\<open>Protect\<close> panics only on a tag longer than the MAC, which the
  contexts of \<open>NewSrtpSession\<close> with the program's tag lengths never have.)
\<close>

definition sendOpusFrameLocked ::
    "('j, 'c, 'p) Env \<Rightarrow> ('j, 'c, 'p) CallManager \<Rightarrow> bytes \<Rightarrow> ('j, 'c, 'p) CallManager" where
  "sendOpusFrameLocked en m opus =
     (case (cm_rtpSession m, cm_srtpSession m) of
        (Some rtp, Some srtp) \<Rightarrow>
          (let marker = (\<not> cm_firstPacketSent m);
               (pkt, rtp1) = CreatePacketWithDuration rtp opus (int mlowFrameSize) marker;
               pkt1 = (if cm_debeEnabled m
                 then pkt\<lparr>rp_Header := (rp_Header pkt)\<lparr>rh_Extension := True, rh_ExtensionProfile := 0xbede,
                        rh_ExtensionData := []\<rparr>\<rparr>
                 else pkt);
               (r, srtp1) = SrtpSession_Protect (en_ks en) (en_hmac en) srtp pkt1;
               m1 = m\<lparr>cm_rtpSession := Some rtp1, cm_firstPacketSent := True, cm_srtpSession := Some srtp1\<rparr>
           in case r of
                Ret packet \<Rightarrow> m1\<lparr>cm_relay := Broadcast (cm_relay m1) packet\<rparr>
              | _ \<Rightarrow> m1)
      | _ \<Rightarrow> m)"

definition media_ready :: "('j, 'c, 'p) CallManager \<Rightarrow> bool" where
  "media_ready m \<longleftrightarrow> cm_codec m \<noteq> None \<and> cm_rtpSession m \<noteq> None \<and> cm_srtpSession m \<noteq> None
     \<and> HasConnection (cm_relay m)"

definition encode_and_send ::
    "('j, 'c, 'p) Env \<Rightarrow> ('j, 'c, 'p) CallManager \<Rightarrow> 'p list \<Rightarrow> ('j, 'c, 'p) CallManager" where
  "encode_and_send en m frame =
     (case cm_codec m of
        None \<Rightarrow> m
      | Some c \<Rightarrow>
          (case en_encode en c frame of
             (Inl err, c1) \<Rightarrow> m\<lparr>cm_codec := Some c1\<rparr>
           | (Inr opus, c1) \<Rightarrow> sendOpusFrameLocked en (m\<lparr>cm_codec := Some c1\<rparr>) opus))"

text \<open>The loop over the captured samples, on the frame buffer \<open>buf\<close> filled up to \<open>pos\<close>.\<close>

function feed_loop ::
    "('j, 'c, 'p) Env \<Rightarrow> 'p list \<Rightarrow> nat \<Rightarrow> 'p list \<Rightarrow> ('j, 'c, 'p) CallManager \<Rightarrow> ('j, 'c, 'p) CallManager" where
  "feed_loop en buf pos data m =
     (if data = [] then m\<lparr>cm_encodeBuf := Some buf, cm_encodeBufPos := pos\<rparr>
      else
        let toCopy = min (length data) (mlowFrameSize - pos);
            buf1 = blit pos (take toCopy data) buf;
            pos1 = pos + toCopy
        in if pos1 < mlowFrameSize then m\<lparr>cm_encodeBuf := Some buf1, cm_encodeBufPos := pos1\<rparr>
           else feed_loop en buf1 0 (drop toCopy data)
                  (encode_and_send en m (NormalizeFrame (en_zero en) buf1 mlowFrameSize)))"
  by pat_completeness auto

termination feed_loop
proof (relation "measure (\<lambda>(en, buf, pos, data, m). 2 * length data + (if mlowFrameSize \<le> pos then 1 else 0))", goal_cases)
  case (2 en buf pos data m toCopy buf1 pos1)
  then show ?case by (cases "mlowFrameSize \<le> pos") (auto simp: mlowFrameSize_def)
qed simp

declare feed_loop.simps [simp del]

definition FeedCapturedPCM ::
    "('j, 'c, 'p) Env \<Rightarrow> ('j, 'c, 'p) CallManager \<Rightarrow> 'p list \<Rightarrow> ('j, 'c, 'p) CallManager" where
  "FeedCapturedPCM en m data =
     (if \<not> media_ready m then m
      else
        let m1 = m\<lparr>cm_lastCaptureAt := en_now en\<rparr>;
            (buf, pos) = (case cm_encodeBuf m1 of
               None \<Rightarrow> (replicate mlowFrameSize (en_zero en), 0)
             | Some b \<Rightarrow> (b, cm_encodeBufPos m1))
        in feed_loop en buf pos data m1)"

definition startSilenceKeepaliveLocked :: "('j, 'c, 'p) CallManager \<Rightarrow> ('j, 'c, 'p) CallManager" where
  "startSilenceKeepaliveLocked m =
     (if cm_keepaliveStop m \<or> cm_codec m = None then m else m\<lparr>cm_keepaliveStop := True\<rparr>)"

text \<open>One tick of the keepalive goroutine: a frame of silence when nothing was captured for 120 ms.\<close>

definition keepalive_tick :: "('j, 'c, 'p) Env \<Rightarrow> ('j, 'c, 'p) CallManager \<Rightarrow> ('j, 'c, 'p) CallManager" where
  "keepalive_tick en m =
     (if cm_keepaliveStop m \<and> media_ready m \<and> 120000000 < en_now en - cm_lastCaptureAt m
      then encode_and_send en m (replicate mlowFrameSize (en_zero en)) else m)"

definition onRelayData ::
    "('j, 'c, 'p) Env \<Rightarrow> ('j, 'c, 'p) CallManager \<Rightarrow> bytes \<Rightarrow> ('j, 'c, 'p) CallManager" where
  "onRelayData en m data =
     (if IsStunPacket data \<or> \<not> IsRtpPacket data \<or> length data < 12 then m
      else if data ! 1 AND 0x7f \<noteq> PayloadTypeWhatsAppOpus then m
      else
        (case (cm_srtpSession m, cm_codec m) of
           (Some srtp, Some codec) \<Rightarrow>
             (let ssrc = get_u32be (drop 8 data)
              in if ssrc = cm_selfSsrc m then m
              else
                let m1 =
                  (if \<not> cm_actualPeerSet m then
                     let m' = m\<lparr>cm_actualPeerSet := True\<rparr>
                     in if \<not> containsSsrc (cm_peerSsrcs m') ssrc
                        then m'\<lparr>cm_peerSsrcs := [ssrc],
                               cm_relay := ResendSubscriptions (en_hmac en) (en_rand en)
                                             (SetSubscriptionSsrc (cm_relay m') ssrc)\<rparr>
                        else m'
                   else m);
                  (r, srtp1) = SrtpSession_Unprotect (en_ks en) srtp data;
                  m2 = m1\<lparr>cm_srtpSession := Some srtp1\<rparr>
                in (case r of
                      Ret pkt \<Rightarrow>
                        if rp_Payload pkt = [] then m2
                        else
                          (case en_decode en codec (rp_Payload pkt) of
                             (Inl err, c1) \<Rightarrow> m2\<lparr>cm_codec := Some c1\<rparr>
                           | (Inr pcm, c1) \<Rightarrow>
                               emit (m2\<lparr>cm_codec := Some c1\<rparr>)
                                 (PeerAudio (NormalizeFrame (en_zero en) pcm mlowFrameSize)))
                    | _ \<Rightarrow> m2))
         | _ \<Rightarrow> m))"

section \<open>Relays\<close>

fun build_configs :: "string list \<Rightarrow> RelayEndpoint list \<Rightarrow> RelayConfig list" where
  "build_configs seen [] = []"
| "build_configs seen (ep # endpoints) =
     (if ep_Protocol ep \<noteq> 0 then build_configs seen endpoints
      else (case ep_RawToken ep of
        None \<Rightarrow> build_configs seen endpoints
      | Some raw \<Rightarrow>
          if ep_Key ep = '''' \<or> ep_IP ep \<in> set seen then build_configs seen endpoints
          else
            \<lparr>rc_IP = ep_IP ep, rc_Port = 3478, rc_Token = ep_Token ep, rc_AuthToken = ep_AuthToken ep,
             rc_RawAuthToken = ep_RawAuthToken ep, rc_RawToken = Some raw, rc_Key = ep_Key ep,
             rc_RelayID = ep_RelayID ep,
             rc_Name = (if ep_RelayName ep = '''' then ep_IP ep else ep_RelayName ep),
             rc_AuthTokenID = ep_AuthTokenID ep\<rparr>
            # build_configs (ep_IP ep # seen) endpoints))"

definition buildRelayConfigs :: "RelayEndpoint list \<Rightarrow> RelayConfig list" where
  "buildRelayConfigs endpoints = build_configs [] endpoints"

definition onRelayConnected :: "('j, 'c, 'p) Env \<Rightarrow> ('j, 'c, 'p) CallManager \<Rightarrow> ('j, 'c, 'p) CallManager" where
  "onRelayConnected en m =
     (case cm_currentCall m of
        None \<Rightarrow> m
      | Some call \<Rightarrow>
          if call_state call = CallStateConnecting then
            (case ApplyTransition (en_now en) call (transition TransitionMediaConnected []) of
               Inl _ \<Rightarrow> m
             | Inr call1 \<Rightarrow> startSilenceKeepaliveLocked (emitState (m\<lparr>cm_currentCall := Some call1\<rparr>)))
          else m)"

definition connectRelays ::
    "('j, 'c, 'p) Env \<Rightarrow> ('j, 'c, 'p) CallManager \<Rightarrow> RelayEndpoint list \<Rightarrow> ('j, 'c, 'p) CallManager" where
  "connectRelays en m endpoints =
     (let relays = buildRelayConfigs endpoints
      in if length relays = 0 then m
         else m\<lparr>cm_relay :=
           ConfigureRelays (SetSubscriptionSsrc (SetSsrc (cm_relay m) (cm_selfSsrc m)) (firstSsrc (cm_peerSsrcs m)))
             (map (\<lambda>r. (r, en_pc en r)) relays)\<rparr>)"

definition cleanupMedia :: "('j, 'c, 'p) CallManager \<Rightarrow> ('j, 'c, 'p) CallManager" where
  "cleanupMedia m =
     m\<lparr>cm_codec := None, cm_keepaliveStop := False, cm_rtpSession := None, cm_srtpSession := None,
       cm_firstPacketSent := False, cm_initialTransportSent := False, cm_outgoingPreacceptSent := False,
       cm_actualPeerSet := False, cm_encodeBuf := None, cm_encodeBufPos := 0,
       cm_relay := Cleanup (cm_relay m)\<rparr>"

section \<open>SRTP keys\<close>

definition call_participants :: "CallInfo \<Rightarrow> string list" where
  "call_participants call = (case ci_RelayData call of None \<Rightarrow> [] | Some rd \<Rightarrow> rd_ParticipantJids rd)"

definition our_device :: "('j, 'c, 'p) Env \<Rightarrow> string list \<Rightarrow> string" where
  "our_device en participants =
     ensureDeviceJid (findOurDevice participants (CleanJID (ownCredJid en)) (ownCredJid en))"

definition peer_device :: "('j, 'c, 'p) Env \<Rightarrow> ('j, 'c, 'p) CallManager \<Rightarrow> CallInfo \<Rightarrow> string" where
  "peer_device en m call =
     (let rawPeer =
        (if cm_acceptedByJid m = '''' then
           let p = firstPeerDevice (call_participants call) (CleanJID (ownCredJid en))
           in if p \<noteq> '''' then p else ci_PeerJid call
         else cm_acceptedByJid m)
      in ensureDeviceJid rawPeer)"

definition initSrtpKeysLocked :: "('j, 'c, 'p) Env \<Rightarrow> ('j, 'c, 'p) CallManager \<Rightarrow> ('j, 'c, 'p) CallManager" where
  "initSrtpKeysLocked en m =
     (case cm_currentCall m of
        None \<Rightarrow> m
      | Some call \<Rightarrow>
          (case ci_EncryptionKey call of
             None \<Rightarrow> m
           | Some key \<Rightarrow>
               let sendKM = DerivePerJidSrtpKey (en_hkdf en) key (our_device en (call_participants call));
                   recvKM = DerivePerJidSrtpKey (en_hkdf en) key (peer_device en m call)
               in (case NewSrtpSession (en_ks en) sendKM recvKM SRTPSendAuthTagLen SRTPRecvAuthTagLen of
                     Ret sess \<Rightarrow> m\<lparr>cm_srtpSession := Some sess\<rparr>
                   | _ \<Rightarrow> m)))"

definition reinitSrtpLocked ::
    "('j, 'c, 'p) Env \<Rightarrow> ('j, 'c, 'p) CallManager \<Rightarrow> bytes \<Rightarrow> 'j \<Rightarrow> ('j, 'c, 'p) CallManager" where
  "reinitSrtpLocked en m peerKey peerJid =
     (case cm_currentCall m of
        None \<Rightarrow> m
      | Some call \<Rightarrow>
          (case ci_EncryptionKey call of
             None \<Rightarrow> m
           | Some key \<Rightarrow>
               let sendKM = DerivePerJidSrtpKey (en_hkdf en) key (our_device en (call_participants call));
                   recvKM = DerivePerJidSrtpKey (en_hkdf en) peerKey (jid_String (en_J en) peerJid)
               in (case NewSrtpSession (en_ks en) sendKM recvKM SRTPSendAuthTagLen SRTPRecvAuthTagLen of
                     Ret sess \<Rightarrow> m\<lparr>cm_srtpSession := Some sess\<rparr>
                   | _ \<Rightarrow> m)))"


section \<open>Operations of the session\<close>

definition new_rtp :: "('j, 'c, 'p) Env \<Rightarrow> u32 \<Rightarrow> RtpSession" where
  "new_rtp en ssrc = NewWhatsAppOpusSession (en_rseq en) (en_rts en) ssrc"

definition start_new ::
    "('j, 'c, 'p) Env \<Rightarrow> ('j, 'c, 'p) CallManager \<Rightarrow> string \<Rightarrow> 'j \<Rightarrow> bool
     \<Rightarrow> (string + unit) \<times> ('j, 'c, 'p) CallManager" where
  "start_new en m callID peerJid isVideo =
     (let J = en_J en; sock = en_sock en;
          mediaType = (if isVideo then CallMediaTypeVideo else CallMediaTypeAudio);
          creator = creator_of J sock;
          resolved = ResolveLIDForPN sock peerJid;
          callKey = GenerateCallKey (en_callKey en);
          call = (NewOutgoingCall (en_now en) callID (jid_String J resolved) (jid_String J creator) mediaType)
                   \<lparr>ci_EncryptionKey := Some callKey\<rparr>;
          selfSsrc = GenerateSecureSsrc (en_hkdf en) callID (jid_String J creator) 0;
          m1 = initCodec en (m\<lparr>cm_currentCall := Some call, cm_initialTransportSent := False,
                 cm_outgoingPreacceptSent := False, cm_selfSsrc := selfSsrc,
                 cm_rtpSession := Some (new_rtp en selfSsrc),
                 cm_peerSsrcs := [GenerateSecureSsrc (en_hkdf en) callID (jid_String J resolved) 0]\<rparr>)
      in case BuildOfferStanza J (en_stanza en 0) sock callID callKey resolved isVideo of
           Inl err \<Rightarrow> (Inl err, m1)
         | Inr offer \<Rightarrow>
             (Inr (), emit (emitState (apply_current (en_now en) (transition TransitionOfferSent []) m1))
                        (Queried offer)))"

definition StartCall ::
    "('j, 'c, 'p) Env \<Rightarrow> ('j, 'c, 'p) CallManager \<Rightarrow> string \<Rightarrow> 'j \<Rightarrow> bool
     \<Rightarrow> (string + unit) \<times> ('j, 'c, 'p) CallManager" where
  "StartCall en m callID peerJid isVideo =
     (case cm_currentCall m of
        Some c0 \<Rightarrow>
          if \<not> IsEnded c0 then (Inl ''a call is already in progress'', m)
          else start_new en m callID peerJid isVideo
      | None \<Rightarrow> start_new en m callID peerJid isVideo)"

text \<open>The SSRCs and the RTP session for the participants a relay node names.\<close>

definition adopt_participants ::
    "('j, 'c, 'p) Env \<Rightarrow> ('j, 'c, 'p) CallManager \<Rightarrow> string \<Rightarrow> string list \<Rightarrow> bool \<Rightarrow> ('j, 'c, 'p) CallManager" where
  "adopt_participants en m callID participants setActual =
     (if participants = [] then m
      else
        let newSelf = GenerateSecureSsrc (en_hkdf en) callID (our_device en participants) 0;
            m1 = (if newSelf \<noteq> cm_selfSsrc m
                  then m\<lparr>cm_selfSsrc := newSelf, cm_rtpSession := Some (new_rtp en newSelf)\<rparr> else m);
            peer = firstPeerDevice participants (CleanJID (ownCredJid en))
        in if peer \<noteq> '''' then
             m1\<lparr>cm_peerSsrcs := [GenerateSecureSsrc (en_hkdf en) callID (ensureDeviceJid peer) 0],
                cm_actualPeerSet := (setActual \<or> cm_actualPeerSet m1)\<rparr>
           else m1)"

definition setupIncomingMedia ::
    "('j, 'c, 'p) Env \<Rightarrow> ('j, 'c, 'p) CallManager \<Rightarrow> CallInfo \<Rightarrow> RelayData \<Rightarrow> ('j, 'c, 'p) CallManager" where
  "setupIncomingMedia en m call relayData =
     (let m1 = adopt_participants en m (ci_CallID call) (rd_ParticipantJids relayData) True;
          m2 = m1\<lparr>cm_relay := SetSubscriptionSsrc (cm_relay m1) (firstSsrc (cm_peerSsrcs m1))\<rparr>
      in initSrtpKeysLocked en m2)"

definition AcceptCall ::
    "('j, 'c, 'p) Env \<Rightarrow> ('j, 'c, 'p) CallManager \<Rightarrow> string \<Rightarrow> (string + unit) \<times> ('j, 'c, 'p) CallManager" where
  "AcceptCall en m callID =
     (case cm_currentCall m of
        None \<Rightarrow> (Inl (''no incoming call with id '' @ callID), m)
      | Some call0 \<Rightarrow>
          if ci_CallID call0 \<noteq> callID then (Inl (''no incoming call with id '' @ callID), m)
          else if \<not> CanAccept call0
          then (Inl (''call cannot be accepted in state '' @ CallState_string (call_state call0)), m)
          else
            let m1 = emitState (apply_current (en_now en) (transition TransitionLocalAccepted []) m);
                call = the (cm_currentCall m1);
                J = en_J en;
                m2 = (case ci_EncryptionKey call of
                        None \<Rightarrow> m1
                      | Some key \<Rightarrow>
                          (case BuildAcceptStanza J (en_stanza en 0) (en_sock en) callID key
                                  (MustJID J (ci_PeerJid call)) (MustJID J (ci_CallCreator call))
                                  (ci_MediaType call = CallMediaTypeVideo) of
                             Inl err \<Rightarrow> m1
                           | Inr acceptNode \<Rightarrow> emit m1 (SentNode acceptNode)))
            in (Inr (),
                case ci_RelayData call of
                  None \<Rightarrow> m2
                | Some relayData \<Rightarrow> connectRelays en (setupIncomingMedia en m2 call relayData) (rd_Endpoints relayData)))"

definition RejectCall ::
    "('j, 'c, 'p) Env \<Rightarrow> ('j, 'c, 'p) CallManager \<Rightarrow> string \<Rightarrow> EndCallReason
     \<Rightarrow> (string + unit) \<times> ('j, 'c, 'p) CallManager" where
  "RejectCall en m callID reason =
     (case cm_currentCall m of
        None \<Rightarrow> (Inl (''no call with id '' @ callID), m)
      | Some call \<Rightarrow>
          if ci_CallID call \<noteq> callID then (Inl (''no call with id '' @ callID), m)
          else
            let m1 = emitState (apply_current (en_now en) (transition TransitionLocalRejected reason) m);
                node = BuildRejectStanza (en_stanza en 0) (MustJID (en_J en) (ci_PeerJid call)) (ci_CallID call)
                         (MustJID (en_J en) (ci_CallCreator call))
            in (Inr (), cleanupMedia (emit m1 (Queried node))))"

definition EndCall ::
    "('j, 'c, 'p) Env \<Rightarrow> ('j, 'c, 'p) CallManager \<Rightarrow> EndCallReason \<Rightarrow> ('j, 'c, 'p) CallManager" where
  "EndCall en m reason =
     (case cm_currentCall m of
        None \<Rightarrow> m
      | Some call \<Rightarrow>
          if IsEnded call then m
          else
            let m1 = emitState (apply_current (en_now en) (transition TransitionTerminated reason) m);
                node = BuildTerminateStanza (en_stanza en 0) (MustJID (en_J en) (ci_PeerJid call)) (ci_CallID call)
                         (MustJID (en_J en) (ci_CallCreator call))
            in cleanupMedia (emit (emit m1 (Queried node)) (EndedCall (the (cm_currentCall m1)))))"

section \<open>Handlers of incoming nodes\<close>

definition offer_relays ::
    "('j, 'c, 'p) Env \<Rightarrow> 'j node \<Rightarrow> RelayData option" where
  "offer_relays en inner =
     (let relays = ExtractRelayEndpoints (en_J en) (Some inner)
      in if 0 < length relays then Some (RelayData_zero\<lparr>rd_Endpoints := relays\<rparr>)
         else
           let parsed = ParseRelayFromAck (en_J en) (Some inner)
           in if 0 < length (pa_Relays parsed) then
                Some \<lparr>rd_Endpoints = pa_Relays parsed, rd_ParticipantJids = pa_ParticipantJids parsed,
                      rd_UUID = pa_UUID parsed, rd_SelfPid = pa_SelfPid parsed, rd_PeerPid = pa_PeerPid parsed,
                      rd_HbhKey = pa_HbhKey parsed\<rparr>
              else None)"

definition HandleCallOffer ::
    "('j, 'c, 'p) Env \<Rightarrow> ('j, 'c, 'p) CallManager \<Rightarrow> 'j node option \<Rightarrow> 'j \<Rightarrow> ('j, 'c, 'p) CallManager" where
  "HandleCallOffer en m node peerJid =
     (let J = en_J en; sock = en_sock en in
      case ExtractNodeInfo J node of
        None \<Rightarrow> m
      | Some info \<Rightarrow>
          let callID = ni_CallID info;
              inner = ni_InnerNode info;
              creator0 = AttrString J (Attrs inner) ''call-creator'';
              creator = (if creator0 = '''' then jid_String J peerJid else creator0);
              isVideo = hasChildTag (Some inner) ''video'';
              callKey = (case DecryptCallKeyInNode J sock (Some inner) peerJid of Inr k \<Rightarrow> k | Inl _ \<Rightarrow> None);
              mediaType = (if isVideo then CallMediaTypeVideo else CallMediaTypeAudio);
              call = (NewIncomingCall (en_now en) callID (jid_String J peerJid) creator '''' mediaType)
                       \<lparr>ci_EncryptionKey := callKey, ci_RelayData := offer_relays en inner\<rparr>;
              selfSsrc = GenerateSecureSsrc (en_hkdf en) callID (ownCredJid en) 0;
              m1 = initCodec en (m\<lparr>cm_currentCall := Some call, cm_initialTransportSent := False,
                     cm_selfSsrc := selfSsrc, cm_rtpSession := Some (new_rtp en selfSsrc),
                     cm_peerSsrcs := [GenerateSecureSsrc (en_hkdf en) callID (jid_String J peerJid) 0]\<rparr>);
              preaccept = BuildPreacceptStanza (en_stanza en 0) peerJid callID (MustJID J creator)
          in emitState (emit (emit m1 (SentNode preaccept)) (Incoming call)))"

definition accept_transport_node :: "bytes \<Rightarrow> 'j \<Rightarrow> string \<Rightarrow> 'j \<Rightarrow> 'j node" where
  "accept_transport_node rnd peerJid callID creator =
     Node ''call'' [(''to'', AJid peerJid), (''id'', AString (GenerateCallStanzaID rnd))]
       (Nodes [Node ''transport'' [(''call-id'', AString callID), (''call-creator'', AJid creator),
           (''transport-message-type'', AString ''1''), (''p2p-cand-round'', AString ''1'')]
         (Nodes [leaf ''net'' [(''medium'', ''2''), (''protocol'', ''0'')]])])"

definition accept_media ::
    "('j, 'c, 'p) Env \<Rightarrow> ('j, 'c, 'p) CallManager \<Rightarrow> 'j NodeInfo \<Rightarrow> 'j \<Rightarrow> ('j, 'c, 'p) CallManager" where
  "accept_media en m info peerJid =
     (let J = en_J en; sock = en_sock en;
          m1 = (if NeedsDecryption (ni_Tag info) then
                  (case DecryptCallKeyInNode J sock (Some (ni_InnerNode info)) peerJid of
                     Inr (Some peerKey) \<Rightarrow>
                       (case map_option ci_EncryptionKey (cm_currentCall m) of
                          Some (Some key) \<Rightarrow> if \<not> equalBytes key peerKey then reinitSrtpLocked en m peerKey peerJid else m
                        | _ \<Rightarrow> m)
                   | _ \<Rightarrow> m)
                else m);
          m2 = emitState (apply_current (en_now en) (transition TransitionRemoteAccepted []) m1);
          m3 = m2\<lparr>cm_acceptedByJid := jid_String J peerJid\<rparr>;
          callID = (case cm_currentCall m3 of None \<Rightarrow> '''' | Some c \<Rightarrow> ci_CallID c);
          m4 = (if cm_peerSsrcs m3 = [] \<or> \<not> cm_actualPeerSet m3
                then m3\<lparr>cm_peerSsrcs := [GenerateSecureSsrc (en_hkdf en) callID
                                          (ensureDeviceJid (jid_String J peerJid)) 0]\<rparr>
                else m3);
          m5 = m4\<lparr>cm_relay := SetSubscriptionSsrc (cm_relay m4) (firstSsrc (cm_peerSsrcs m4))\<rparr>
      in initSrtpKeysLocked en m5)"

definition HandleCallAccept ::
    "('j, 'c, 'p) Env \<Rightarrow> ('j, 'c, 'p) CallManager \<Rightarrow> 'j node option \<Rightarrow> 'j \<Rightarrow> ('j, 'c, 'p) CallManager" where
  "HandleCallAccept en m node peerJid =
     (case (cm_currentCall m, ExtractNodeInfo (en_J en) node) of
        (Some call0, Some info) \<Rightarrow>
          (let J = en_J en; sock = en_sock en;
               m1 = accept_media en m info peerJid;
               call = the (cm_currentCall m1);
               hasConn = HasConnection (cm_relay m1);
               m2 = m1\<lparr>cm_relay := ResendSubscriptions (en_hmac en) (en_rand en) (cm_relay m1)\<rparr>;
               callID = ci_CallID call;
               creator = MustJID J (ci_CallCreator call);
               m3 = emit (emit m2 (SentNode (accept_transport_node (en_stanza en 0) peerJid callID creator)))
                      (SentNode (BuildMuteV2Stanza (en_stanza en 1) peerJid callID creator 0));
               acceptMsgID = (case node of None \<Rightarrow> '''' | Some n \<Rightarrow> AttrString J (Attrs n) ''id'');
               m4 = (if acceptMsgID \<noteq> ''''
                     then emit m3 (SentNode (BuildAcceptReceiptStanza peerJid acceptMsgID callID creator (creator_of J sock)))
                     else m3)
           in if hasConn then
                (case ApplyTransition (en_now en) call (transition TransitionMediaConnected []) of
                   Inl _ \<Rightarrow> m4
                 | Inr call1 \<Rightarrow> startSilenceKeepaliveLocked (emitState (m4\<lparr>cm_currentCall := Some call1\<rparr>)))
              else (case ci_RelayData call of
                      Some rd \<Rightarrow> connectRelays en m4 (rd_Endpoints rd)
                    | None \<Rightarrow> m4))
      | _ \<Rightarrow> m)"

definition HandleCallTransport ::
    "('j, 'c, 'p) Env \<Rightarrow> ('j, 'c, 'p) CallManager \<Rightarrow> 'j node option \<Rightarrow> ('j, 'c, 'p) CallManager" where
  "HandleCallTransport en m node =
     (case (cm_currentCall m, ExtractNodeInfo (en_J en) node) of
        (Some call, Some info) \<Rightarrow>
          (let relays = ExtractRelayEndpoints (en_J en) (Some (ni_InnerNode info))
           in if 0 < length relays \<and> \<not> HasConnection (cm_relay m) then
                let rd = (case ci_RelayData call of None \<Rightarrow> RelayData_zero | Some rd \<Rightarrow> rd)
                in connectRelays en (m\<lparr>cm_currentCall := Some (call\<lparr>ci_RelayData := Some (rd\<lparr>rd_Endpoints := relays\<rparr>)\<rparr>)\<rparr>) relays
              else m)
      | _ \<Rightarrow> m)"

definition HandleCallAck ::
    "('j, 'c, 'p) Env \<Rightarrow> ('j, 'c, 'p) CallManager \<Rightarrow> 'j node \<Rightarrow> ('j, 'c, 'p) CallManager" where
  "HandleCallAck en m node =
     (let J = en_J en in
      if AttrString J (Attrs node) ''type'' \<noteq> ''offer'' then m
      else if AttrString J (Attrs node) ''error'' \<noteq> '''' then m
      else
        let parsed = ParseRelayFromAck J (Some node)
        in if length (pa_Relays parsed) = 0 then m
        else (case cm_currentCall m of
          None \<Rightarrow> m
        | Some call0 \<Rightarrow>
            let call = call0\<lparr>ci_RelayData := Some \<lparr>rd_Endpoints = pa_Relays parsed,
                   rd_ParticipantJids = pa_ParticipantJids parsed, rd_UUID = pa_UUID parsed,
                   rd_SelfPid = pa_SelfPid parsed, rd_PeerPid = pa_PeerPid parsed, rd_HbhKey = pa_HbhKey parsed\<rparr>\<rparr>;
                m1 = m\<lparr>cm_currentCall := Some call\<rparr>;
                m2 = (if 0 < length (pa_ParticipantJids parsed) then
                        let m' = adopt_participants en m1 (ci_CallID call) (pa_ParticipantJids parsed) False
                        in if ci_EncryptionKey call \<noteq> None then initSrtpKeysLocked en m' else m'
                      else m1);
                m3 = (if IsInitiator call \<and> \<not> cm_outgoingPreacceptSent m2 then
                        emit (m2\<lparr>cm_outgoingPreacceptSent := True\<rparr>)
                          (SentNode (BuildPreacceptStanza (en_stanza en 0) (MustJID J (ci_PeerJid call)) (ci_CallID call)
                             (MustJID J (ci_CallCreator call))))
                      else m2)
            in connectRelays en m3 (pa_Relays parsed)))"

definition HandleCallTerminate ::
    "('j, 'c, 'p) Env \<Rightarrow> ('j, 'c, 'p) CallManager \<Rightarrow> 'j node option \<Rightarrow> ('j, 'c, 'p) CallManager" where
  "HandleCallTerminate en m node =
     (case cm_currentCall m of
        None \<Rightarrow> m
      | Some call \<Rightarrow>
          let reason = (case ExtractNodeInfo (en_J en) node of
                 None \<Rightarrow> EndCallReasonUserEnded
               | Some info \<Rightarrow>
                   let r = AttrString (en_J en) (Attrs (ni_InnerNode info)) ''reason''
                   in if r \<noteq> '''' then r else EndCallReasonUserEnded);
              m1 = emitState (apply_current (en_now en) (transition TransitionTerminated reason) m)
          in cleanupMedia (emit m1 (EndedCall (the (cm_currentCall m1)))))"

section \<open>Runs of the engine\<close>

datatype ('j, 'p) cm_input =
    DoStart string 'j bool
  | DoAccept string
  | DoReject string EndCallReason
  | DoEnd EndCallReason
  | OnOffer "'j node option" 'j
  | OnAccept "'j node option" 'j
  | OnTransport "'j node option"
  | OnAck "'j node"
  | OnTerminate "'j node option"
  | Feed "'p list"
  | SilenceTick
  | FromRelay bytes
  | RelayCallback relay_event  \<comment> \<open>a callback or timer of a relay connection\<close>

definition relay_connected :: "SctpRelayManager \<Rightarrow> SctpRelayManager \<Rightarrow> bool" where
  "relay_connected r r' \<longleftrightarrow> length (rm_connected r) < length (rm_connected r')"

text \<open>A relay that opens calls \<open>onRelayConnected\<close>; only callbacks and timers come from the relay side.\<close>

fun is_callback :: "relay_event \<Rightarrow> bool" where
  "is_callback (Opened r) = True"
| "is_callback (ChannelClosed r) = True"
| "is_callback (IceFailed r) = True"
| "is_callback (ConnectTimeout r) = True"
| "is_callback (DelayedSend r) = True"
| "is_callback (KeepaliveTick r) = True"
| "is_callback _ = False"

definition on_callback ::
    "('j, 'c, 'p) Env \<Rightarrow> ('j, 'c, 'p) CallManager \<Rightarrow> relay_event \<Rightarrow> ('j, 'c, 'p) CallManager" where
  "on_callback en m e =
     (if \<not> is_callback e then m
      else
        let r = relay_step (en_hmac en) (en_rand en) (cm_relay m) e;
            m1 = m\<lparr>cm_relay := r\<rparr>
        in if relay_connected (cm_relay m) r then onRelayConnected en m1 else m1)"

fun cm_step :: "('j, 'c, 'p) CallManager \<Rightarrow> ('j, 'c, 'p) Env \<times> ('j, 'p) cm_input \<Rightarrow> ('j, 'c, 'p) CallManager" where
  "cm_step m (en, DoStart i j v) = snd (StartCall en m i j v)"
| "cm_step m (en, DoAccept i) = snd (AcceptCall en m i)"
| "cm_step m (en, DoReject i r) = snd (RejectCall en m i r)"
| "cm_step m (en, DoEnd r) = EndCall en m r"
| "cm_step m (en, OnOffer n j) = HandleCallOffer en m n j"
| "cm_step m (en, OnAccept n j) = HandleCallAccept en m n j"
| "cm_step m (en, OnTransport n) = HandleCallTransport en m n"
| "cm_step m (en, OnAck n) = HandleCallAck en m n"
| "cm_step m (en, OnTerminate n) = HandleCallTerminate en m n"
| "cm_step m (en, Feed d) = FeedCapturedPCM en m d"
| "cm_step m (en, SilenceTick) = keepalive_tick en m"
| "cm_step m (en, FromRelay d) = onRelayData en m d"
| "cm_step m (en, RelayCallback e) = on_callback en m e"

end
