(* ===== verification/CallEngine.thy ===== *)
theory CallEngine
  imports CallManager
begin

text \<open>
  What the call engine promises (theory \<open>CallManager\<close> holds the model): how its call may evolve, when it sends and
  plays media, how the captured samples are cut into frames, and that two engines with the same call key hear
  each other.
\<close>

section \<open>The operations that leave the call alone\<close>

named_theorems cm_call

lemma emit_call [cm_call, simp]: "cm_currentCall (emit m e) = cm_currentCall m"
  by (simp add: emit_def)

lemma emitState_call [cm_call, simp]: "cm_currentCall (emitState m) = cm_currentCall m"
  by (simp add: emitState_def split: option.split)

lemma initCodec_call [cm_call, simp]: "cm_currentCall (initCodec en m) = cm_currentCall m"
  by (simp add: initCodec_def)

lemma sendOpus_call [cm_call, simp]: "cm_currentCall (sendOpusFrameLocked en m opus) = cm_currentCall m"
  by (auto simp: sendOpusFrameLocked_def Let_def split: option.split outcome.split prod.split)

lemma encode_call [cm_call, simp]: "cm_currentCall (encode_and_send en m f) = cm_currentCall m"
  by (auto simp: encode_and_send_def split: option.split prod.split sum.split)

lemma feed_loop_call [cm_call, simp]: "cm_currentCall (feed_loop en buf pos data m) = cm_currentCall m"
proof (induction en buf pos data m rule: feed_loop.induct)
  case (1 en buf pos data m)
  show ?case
    by (subst feed_loop.simps) (use 1 in \<open>simp add: Let_def\<close>)
qed

lemma Feed_call [cm_call, simp]: "cm_currentCall (FeedCapturedPCM en m d) = cm_currentCall m"
  by (simp add: FeedCapturedPCM_def Let_def split: option.split)

lemma keepalive_call [cm_call, simp]: "cm_currentCall (keepalive_tick en m) = cm_currentCall m"
  by (simp add: keepalive_tick_def)

lemma startSilence_call [cm_call, simp]: "cm_currentCall (startSilenceKeepaliveLocked m) = cm_currentCall m"
  by (simp add: startSilenceKeepaliveLocked_def)

lemma onRelayData_call [cm_call, simp]: "cm_currentCall (onRelayData en m d) = cm_currentCall m"
  by (auto simp: onRelayData_def Let_def split: option.split outcome.split prod.split sum.split)

lemma connectRelays_call [cm_call, simp]: "cm_currentCall (connectRelays en m eps) = cm_currentCall m"
  by (simp add: connectRelays_def Let_def)

lemma cleanupMedia_call [cm_call, simp]: "cm_currentCall (cleanupMedia m) = cm_currentCall m"
  by (simp add: cleanupMedia_def)

lemma initSrtp_call [cm_call, simp]: "cm_currentCall (initSrtpKeysLocked en m) = cm_currentCall m"
  by (simp add: initSrtpKeysLocked_def Let_def split: option.split outcome.split)

lemma reinitSrtp_call [cm_call, simp]: "cm_currentCall (reinitSrtpLocked en m k j) = cm_currentCall m"
  by (simp add: reinitSrtpLocked_def Let_def split: option.split outcome.split)

lemma adopt_call [cm_call, simp]: "cm_currentCall (adopt_participants en m i ps b) = cm_currentCall m"
  by (simp add: adopt_participants_def Let_def)

lemma setupIncoming_call [cm_call, simp]: "cm_currentCall (setupIncomingMedia en m c rd) = cm_currentCall m"
  by (simp add: setupIncomingMedia_def Let_def)

lemma apply_current_call [cm_call]:
  "cm_currentCall (apply_current now t m) = map_option (\<lambda>c. try_transition c (now, t)) (cm_currentCall m)"
  by (simp add: apply_current_def)

lemma accept_media_call [cm_call]:
  "cm_currentCall (accept_media en m info j) =
     map_option (\<lambda>c. try_transition c (en_now en, transition TransitionRemoteAccepted [])) (cm_currentCall m)"
  by (simp add: accept_media_def Let_def cm_call split: sum.split option.split)

section \<open>How the call evolves\<close>

text \<open>
  From one step to the next the call keeps its identity, and its state data are those of some events of
  the state machine applied at the time of the step.
\<close>

definition call_moves :: "int \<Rightarrow> CallInfo \<Rightarrow> CallInfo \<Rightarrow> bool" where
  "call_moves now c c' \<longleftrightarrow>
     ci_CallID c' = ci_CallID c \<and> ci_PeerJid c' = ci_PeerJid c \<and> ci_CallCreator c' = ci_CallCreator c
   \<and> ci_Direction c' = ci_Direction c \<and> ci_MediaType c' = ci_MediaType c \<and> ci_CreatedAt c' = ci_CreatedAt c
   \<and> ci_EncryptionKey c' = ci_EncryptionKey c
   \<and> (\<exists>ts. ci_StateData c' = ci_StateData (foldl (\<lambda>c t. try_transition c (now, t)) c ts))"

lemma try_transition_data:
  "ci_StateData c = ci_StateData d \<Longrightarrow> ci_MediaType c = ci_MediaType d \<Longrightarrow>
     ci_StateData (try_transition c e) = ci_StateData (try_transition d e)
     \<and> ci_MediaType (try_transition c e) = ci_MediaType (try_transition d e)"
  by (cases "tr_Type (snd e)") (auto simp: try_transition_def ApplyTransition_def Let_def split: option.splits)

lemma try_transitions_data:
  "ci_StateData c = ci_StateData d \<Longrightarrow> ci_MediaType c = ci_MediaType d \<Longrightarrow>
     ci_StateData (foldl (\<lambda>c t. try_transition c (now, t)) c ts) = ci_StateData (foldl (\<lambda>c t. try_transition c (now, t)) d ts)"
proof (induction ts arbitrary: c d)
  case (Cons t ts)
  from try_transition_data [OF Cons.prems, of "(now, t)"] show ?case by (auto intro: Cons.IH)
qed simp

lemma call_moves_refl [simp]: "call_moves now c c"
  by (auto simp: call_moves_def intro: exI [of _ "[]"])

lemma call_moves_trans:
  assumes "call_moves now a b" "call_moves now b c"
  shows "call_moves now a c"
proof -
  obtain ts us where
    ts: "ci_StateData b = ci_StateData (foldl (\<lambda>c t. try_transition c (now, t)) a ts)" and
    us: "ci_StateData c = ci_StateData (foldl (\<lambda>c t. try_transition c (now, t)) b us)"
    using assms by (auto simp: call_moves_def)
  have mt: "ci_MediaType (foldl (\<lambda>c t. try_transition c (now, t)) a ts) = ci_MediaType a"
    by (induction ts arbitrary: a) (simp_all add: same_call_fields [OF try_transition_same])
  have "ci_StateData c = ci_StateData (foldl (\<lambda>c t. try_transition c (now, t)) a (ts @ us))"
    using us try_transitions_data [OF ts] mt assms(1) by (simp add: call_moves_def)
  then have "\<exists>us. ci_StateData c = ci_StateData (foldl (\<lambda>c t. try_transition c (now, t)) a us)" by blast
  then show ?thesis
    unfolding call_moves_def by (intro conjI) (use assms in \<open>simp_all add: call_moves_def\<close>)
qed

lemma call_moves_try: "call_moves now c (try_transition c (now, t))"
  using same_call_fields [OF try_transition_same [of c "(now, t)"]]
  by (auto simp: call_moves_def intro: exI [of _ "[t]"])

lemma call_moves_apply: "ApplyTransition now c t = Inr c' \<Longrightarrow> call_moves now c c'"
  using call_moves_try [of now c t] by (simp add: try_transition_def)

lemma call_moves_relay [simp]: "call_moves now c (c\<lparr>ci_RelayData := rd\<rparr>)"
  by (auto simp: call_moves_def intro: exI [of _ "[]"])

definition opt_moves :: "int \<Rightarrow> CallInfo option \<Rightarrow> CallInfo option \<Rightarrow> bool" where
  "opt_moves now oc oc' = rel_option (call_moves now) oc oc'"

lemma opt_moves_refl [simp]: "opt_moves now oc oc"
  by (cases oc) (simp_all add: opt_moves_def)

lemma opt_moves_Some [simp]: "opt_moves now (Some c) (Some c') = call_moves now c c'"
  by (simp add: opt_moves_def)

lemma opt_moves_try [simp]: "opt_moves now oc (map_option (\<lambda>c. try_transition c (now, t)) oc)"
  by (cases oc) (simp_all add: opt_moves_def call_moves_try)

text \<open>The inputs that begin a call.\<close>

fun begins :: "('j, 'p) cm_input \<Rightarrow> bool" where
  "begins (DoStart i j v) = True"
| "begins (OnOffer n j) = True"
| "begins _ = False"

lemma onRelayConnected_moves: "opt_moves (en_now en) (cm_currentCall m) (cm_currentCall (onRelayConnected en m))"
  by (auto simp: onRelayConnected_def split: option.split sum.split intro: call_moves_apply)

lemma HandleCallAccept_moves: "opt_moves (en_now en) (cm_currentCall m) (cm_currentCall (HandleCallAccept en m n j))"
  by (auto simp: HandleCallAccept_def Let_def cm_call split: option.split sum.split
    intro: call_moves_try call_moves_trans [OF call_moves_try call_moves_apply])

lemma cm_step_moves:
  "\<not> begins i \<Longrightarrow> opt_moves (en_now en) (cm_currentCall m) (cm_currentCall (cm_step m (en, i)))"
proof (cases i)
  case (OnAccept n j)
  then show ?thesis by (simp add: HandleCallAccept_moves)
next
  case (RelayCallback e)
  then show ?thesis
    using onRelayConnected_moves [of en "m\<lparr>cm_relay := r\<rparr>" for r] by (simp add: on_callback_def Let_def)
qed (auto simp: AcceptCall_def RejectCall_def EndCall_def HandleCallTransport_def HandleCallAck_def
    HandleCallTerminate_def Let_def cm_call call_moves_try split: option.split sum.split)

section \<open>Runs\<close>

definition cm_run :: "('j, 'c, 'p) CallManager \<Rightarrow> (('j, 'c, 'p) Env \<times> ('j, 'p) cm_input) list \<Rightarrow> ('j, 'c, 'p) CallManager" where
  "cm_run m es = foldl cm_step m es"

lemma cm_run_simps [simp]: "cm_run m [] = m" "cm_run m (e # es) = cm_run (cm_step m e) es"
  "cm_run m (es @ fs) = cm_run (cm_run m es) fs"
  by (simp_all add: cm_run_def)

definition same_identity :: "CallInfo \<Rightarrow> CallInfo \<Rightarrow> bool" where
  "same_identity c c' \<longleftrightarrow>
     ci_CallID c' = ci_CallID c \<and> ci_PeerJid c' = ci_PeerJid c \<and> ci_CallCreator c' = ci_CallCreator c
   \<and> ci_Direction c' = ci_Direction c \<and> ci_MediaType c' = ci_MediaType c \<and> ci_CreatedAt c' = ci_CreatedAt c
   \<and> ci_EncryptionKey c' = ci_EncryptionKey c"

lemma call_moves_identity: "call_moves now c c' \<Longrightarrow> same_identity c c'"
  by (simp add: call_moves_def same_identity_def)

lemma same_identity_trans: "same_identity a b \<Longrightarrow> same_identity b c \<Longrightarrow> same_identity a c"
  by (simp add: same_identity_def)

lemma tries_rank: "call_rank (call_state c) \<le> call_rank (call_state (foldl (\<lambda>c t. try_transition c (now, t)) c ts))"
proof (induction ts arbitrary: c)
  case (Cons t ts)
  from try_transition_rank [of c "(now, t)"] Cons.IH [of "try_transition c (now, t)"] show ?case by simp
qed simp

lemma tries_ended: "call_state c = CallStateEnded \<Longrightarrow> foldl (\<lambda>c t. try_transition c (now, t)) c ts = c"
  by (induction ts) (simp_all add: try_transition_ended)

lemma tries_wf: "call_wf (c, now) \<Longrightarrow> call_wf (foldl (\<lambda>c t. try_transition c (now, t)) c ts, now)"
proof (induction ts arbitrary: c)
  case (Cons t ts)
  have "call_wf (try_transition c (now, t), now)"
    using clock_step_wf [OF Cons.prems, of "(0, t)"] by (simp add: clock_step_def)
  then show ?case by (simp add: Cons.IH)
qed simp

lemma call_moves_rank: "call_moves now c c' \<Longrightarrow> call_rank (call_state c) \<le> call_rank (call_state c')"
  using tries_rank by (auto simp: call_moves_def)

lemma call_moves_ended: "call_moves now c c' \<Longrightarrow> IsEnded c \<Longrightarrow> ci_StateData c' = ci_StateData c"
  by (auto simp: call_moves_def IsEnded_def tries_ended)

lemma tries_created:
  "ci_CreatedAt (foldl (\<lambda>c t. try_transition c (now, t)) c ts) = ci_CreatedAt c"
  by (induction ts arbitrary: c) (simp_all add: same_call_fields [OF try_transition_same])

lemma call_moves_wf: "call_moves now c c' \<Longrightarrow> call_wf (c, now) \<Longrightarrow> call_wf (c', now)"
proof -
  assume m: "call_moves now c c'" and wf: "call_wf (c, now)"
  then obtain ts where "ci_StateData c' = ci_StateData (foldl (\<lambda>c t. try_transition c (now, t)) c ts)"
    by (auto simp: call_moves_def)
  with tries_wf [OF wf, of ts] m tries_created [of now c ts] show ?thesis
    by (simp add: call_wf_def call_moves_def)
qed

lemma opt_moves_SomeD: "opt_moves now (Some c) oc \<Longrightarrow> \<exists>c'. oc = Some c' \<and> call_moves now c c'"
  by (cases oc) (simp_all add: opt_moves_def)

lemma cm_run_moves:
  assumes "cm_currentCall m = Some c" "list_all (\<lambda>(en, i). \<not> begins i) es"
  shows "\<exists>c'. cm_currentCall (cm_run m es) = Some c' \<and> same_identity c c'
     \<and> call_rank (call_state c) \<le> call_rank (call_state c') \<and> (IsEnded c \<longrightarrow> ci_StateData c' = ci_StateData c)"
  using assms
proof (induction es arbitrary: m c)
  case Nil
  then show ?case by (simp add: same_identity_def)
next
  case (Cons e es)
  obtain en i where e: "e = (en, i)" by (cases e)
  with Cons.prems obtain d where d: "cm_currentCall (cm_step m e) = Some d" "call_moves (en_now en) c d"
    using cm_step_moves [of i en m] opt_moves_SomeD by fastforce
  from Cons.IH [OF d(1)] Cons.prems obtain c' where
    c': "cm_currentCall (cm_run (cm_step m e) es) = Some c'" "same_identity d c'"
      "call_rank (call_state d) \<le> call_rank (call_state c')" "IsEnded d \<longrightarrow> ci_StateData c' = ci_StateData d" by auto
  have "IsEnded d" if "IsEnded c" using call_moves_ended [OF d(2) that] that by (simp add: IsEnded_def)
  with c' call_moves_identity [OF d(2)] call_moves_rank [OF d(2)] call_moves_ended [OF d(2)] show ?case
    by (auto intro: same_identity_trans order_trans)
qed

section \<open>The clock\<close>

definition call_ok :: "int \<Rightarrow> ('j, 'c, 'p) CallManager \<Rightarrow> bool" where
  "call_ok now m \<longleftrightarrow> (case cm_currentCall m of None \<Rightarrow> True | Some c \<Rightarrow> call_wf (c, now))"

lemma call_ok_tick: "call_ok t m \<Longrightarrow> t \<le> now \<Longrightarrow> call_ok now m"
  by (auto simp: call_ok_def call_wf_tick split: option.splits)

lemma call_ok_moves: "opt_moves now (cm_currentCall m) (cm_currentCall m') \<Longrightarrow> call_ok now m \<Longrightarrow> call_ok now m'"
  by (cases "cm_currentCall m"; cases "cm_currentCall m'")
     (auto simp: call_ok_def opt_moves_def intro: call_moves_wf)

lemma call_wf_fields:
  "call_wf (c\<lparr>ci_EncryptionKey := k\<rparr>, t) = call_wf (c, t)" "call_wf (c\<lparr>ci_RelayData := r\<rparr>, t) = call_wf (c, t)"
  by (simp_all add: call_wf_def)

lemma start_new_call:
  "\<exists>c. cm_currentCall (snd (start_new en m i j v)) = Some c \<and> call_wf (c, en_now en) \<and> ci_CallID c = i
     \<and> (call_state c = CallStateRinging \<or> call_state c = CallStateInitiating)"
proof -
  have wf: "call_wf ((NewOutgoingCall (en_now en) i p q mt)\<lparr>ci_EncryptionKey := k\<rparr>, en_now en)" for p q mt k
    by (simp add: call_wf_fields call_wf_outgoing)
  then have "call_wf (try_transition ((NewOutgoingCall (en_now en) i p q mt)\<lparr>ci_EncryptionKey := k\<rparr>)
      (en_now en, transition TransitionOfferSent []), en_now en)" for p q mt k
    by (rule call_moves_wf [OF call_moves_try])
  with wf show ?thesis
    by (simp add: start_new_def Let_def cm_call split: sum.split)
       (simp add: try_transition_def ApplyTransition_def transition_def NewOutgoingCall_def Let_def)
qed

lemma cm_step_ok:
  assumes "call_ok t m" "t \<le> en_now en"
  shows "call_ok (en_now en) (cm_step m (en, i))"
proof (cases "begins i")
  case False
  from call_ok_moves [OF cm_step_moves [OF False] call_ok_tick [OF assms]] show ?thesis .
next
  case True
  then consider (start) k j v where "i = DoStart k j v" | (offer) n j where "i = OnOffer n j" by (cases i) auto
  then show ?thesis
  proof cases
    case start
    with start_new_call [of en m k j v] call_ok_tick [OF assms] show ?thesis
      by (auto simp: StartCall_def call_ok_def split: option.split)
  next
    case offer
    with call_ok_tick [OF assms] show ?thesis
      by (auto simp: HandleCallOffer_def Let_def call_ok_def call_wf_fields call_wf_incoming split: option.splits)
  qed
qed

section \<open>The media part of the state\<close>

text \<open>What the operations of the signalling side leave alone: codec, keepalive, frame buffer.\<close>

definition media_part :: "('j, 'c, 'p) CallManager \<Rightarrow> 'c option \<times> bool \<times> 'p list option \<times> nat" where
  "media_part m = (cm_codec m, cm_keepaliveStop m, cm_encodeBuf m, cm_encodeBufPos m)"

named_theorems cm_media

lemma emit_media [cm_media]: "media_part (emit m e) = media_part m" "cm_relay (emit m e) = cm_relay m"
  "cm_srtpSession (emit m e) = cm_srtpSession m"
  by (simp_all add: media_part_def emit_def)

lemma emitState_media [cm_media]: "media_part (emitState m) = media_part m" "cm_relay (emitState m) = cm_relay m"
  "cm_srtpSession (emitState m) = cm_srtpSession m"
  by (simp_all add: emitState_def emit_media split: option.split)

lemma apply_current_media [cm_media]:
  "media_part (apply_current now t m) = media_part m" "cm_relay (apply_current now t m) = cm_relay m"
  "cm_srtpSession (apply_current now t m) = cm_srtpSession m"
  by (simp_all add: media_part_def apply_current_def)

lemma initSrtp_media [cm_media]:
  "media_part (initSrtpKeysLocked en m) = media_part m" "cm_relay (initSrtpKeysLocked en m) = cm_relay m"
  by (simp_all add: media_part_def initSrtpKeysLocked_def Let_def split: option.split outcome.split)

lemma reinitSrtp_media [cm_media]:
  "media_part (reinitSrtpLocked en m k j) = media_part m" "cm_relay (reinitSrtpLocked en m k j) = cm_relay m"
  by (simp_all add: media_part_def reinitSrtpLocked_def Let_def split: option.split outcome.split)

lemma adopt_media [cm_media]:
  "media_part (adopt_participants en m i ps b) = media_part m" "cm_relay (adopt_participants en m i ps b) = cm_relay m"
  "cm_srtpSession (adopt_participants en m i ps b) = cm_srtpSession m"
  by (simp_all add: media_part_def adopt_participants_def Let_def)

lemma setters_media [cm_media]:
  "media_part (m\<lparr>cm_relay := r\<rparr>) = media_part m" "media_part (m\<lparr>cm_currentCall := c\<rparr>) = media_part m"
  "media_part (m\<lparr>cm_acceptedByJid := j\<rparr>) = media_part m" "media_part (m\<lparr>cm_peerSsrcs := ss\<rparr>) = media_part m"
  "media_part (m\<lparr>cm_outgoingPreacceptSent := b\<rparr>) = media_part m" "media_part (m\<lparr>cm_srtpSession := x\<rparr>) = media_part m"
  by (simp_all add: media_part_def)

lemma connectRelays_media [cm_media]:
  "media_part (connectRelays en m eps) = media_part m" "cm_srtpSession (connectRelays en m eps) = cm_srtpSession m"
  by (simp_all add: connectRelays_def Let_def cm_media)

lemma startSilence_part:
  "media_part (startSilenceKeepaliveLocked m) =
     (cm_codec m, cm_keepaliveStop m \<or> cm_codec m \<noteq> None, cm_encodeBuf m, cm_encodeBufPos m)"
  by (simp add: media_part_def startSilenceKeepaliveLocked_def)

lemma startSilence_media [cm_media]:
  "cm_relay (startSilenceKeepaliveLocked m) = cm_relay m"
  "cm_srtpSession (startSilenceKeepaliveLocked m) = cm_srtpSession m"
  by (simp_all add: media_part_def startSilenceKeepaliveLocked_def)

lemma setupIncoming_media [cm_media]: "media_part (setupIncomingMedia en m c rd) = media_part m"
  by (simp add: setupIncomingMedia_def Let_def cm_media)

lemma accept_media_media [cm_media]: "media_part (accept_media en m info j) = media_part m"
  by (simp add: accept_media_def Let_def cm_media split: sum.split option.split)

lemma cleanupMedia_media [cm_media]:
  "media_part (cleanupMedia m) = (None, False, None, 0)" "cm_relay (cleanupMedia m) = Cleanup (cm_relay m)"
  "cm_srtpSession (cleanupMedia m) = None"
  by (simp_all add: media_part_def cleanupMedia_def)

lemma media_part_codec: "media_part m = media_part m' \<Longrightarrow> cm_codec m = cm_codec m'"
  by (simp add: media_part_def)

section \<open>Silence without a codec\<close>

text \<open>A manager without codec ignores the microphone, the timer and the relays.\<close>

lemma no_codec_Feed: "cm_codec m = None \<Longrightarrow> FeedCapturedPCM en m d = m"
  by (simp add: FeedCapturedPCM_def media_ready_def)

lemma no_codec_tick: "cm_codec m = None \<Longrightarrow> keepalive_tick en m = m"
  by (simp add: keepalive_tick_def media_ready_def)

lemma no_codec_data: "cm_codec m = None \<Longrightarrow> onRelayData en m d = m"
  by (simp add: onRelayData_def split: option.split)

lemma no_codec_silence: "cm_codec m = None \<Longrightarrow> startSilenceKeepaliveLocked m = m"
  by (simp add: startSilenceKeepaliveLocked_def)

fun is_audio :: "('j, 'p) cm_event \<Rightarrow> bool" where
  "is_audio (PeerAudio pcm) = True"
| "is_audio _ = False"

definition heard :: "('j, 'c, 'p) CallManager \<Rightarrow> ('j, 'p) cm_event list" where
  "heard m = filter is_audio (cm_events m)"

named_theorems cm_heard

lemma emit_heard [cm_heard]: "\<not> is_audio e \<Longrightarrow> heard (emit m e) = heard m"
  by (simp add: heard_def emit_def)

lemma same_events_heard: "cm_events m' = cm_events m \<Longrightarrow> heard m' = heard m"
  by (simp add: heard_def)

lemma emitState_heard [cm_heard]: "heard (emitState m) = heard m"
  by (simp add: emitState_def cm_heard split: option.split)

lemma ops_heard [cm_heard]:
  "heard (apply_current now t m) = heard m" "heard (initSrtpKeysLocked en m) = heard m"
  "heard (reinitSrtpLocked en m k j) = heard m" "heard (adopt_participants en m i ps b) = heard m"
  "heard (connectRelays en m eps) = heard m" "heard (startSilenceKeepaliveLocked m) = heard m"
  "heard (cleanupMedia m) = heard m"
  "heard (m\<lparr>cm_relay := r\<rparr>) = heard m" "heard (m\<lparr>cm_currentCall := c\<rparr>) = heard m"
  "heard (m\<lparr>cm_acceptedByJid := x\<rparr>) = heard m" "heard (m\<lparr>cm_peerSsrcs := ss\<rparr>) = heard m"
  "heard (m\<lparr>cm_outgoingPreacceptSent := b\<rparr>) = heard m"
  by (auto simp: apply_current_def initSrtpKeysLocked_def reinitSrtpLocked_def adopt_participants_def Let_def
      connectRelays_def startSilenceKeepaliveLocked_def cleanupMedia_def
      intro!: same_events_heard split: option.split outcome.split)

lemma setup_heard [cm_heard]: "heard (setupIncomingMedia en m c rd) = heard m"
  by (simp add: setupIncomingMedia_def Let_def cm_heard)

lemma accept_media_heard [cm_heard]: "heard (accept_media en m info j) = heard m"
  by (simp add: accept_media_def Let_def cm_heard split: sum.split option.split)

section \<open>What reaches the relays\<close>

lemma setters_sent [simp]: "rm_sent (SetSsrc r s) = rm_sent r" "rm_sent (SetSubscriptionSsrc r s) = rm_sent r"
  by (simp_all add: SetSsrc_def SetSubscriptionSsrc_def)

lemma connectRelays_sent [cm_media]: "rm_sent (cm_relay (connectRelays en m eps)) = rm_sent (cm_relay m)"
  by (simp add: connectRelays_def Let_def)

lemma setupIncoming_sent [cm_media]: "rm_sent (cm_relay (setupIncomingMedia en m c rd)) = rm_sent (cm_relay m)"
  by (simp add: setupIncomingMedia_def Let_def cm_media)

lemma accept_media_sent [cm_media]: "rm_sent (cm_relay (accept_media en m info j)) = rm_sent (cm_relay m)"
  by (simp add: accept_media_def Let_def cm_media split: sum.split option.split)

lemma sent_ok_resend: "sent_ok ds r \<Longrightarrow> sent_ok ds (ResendSubscriptions hmac rnd r)"
  using sent_ok_step [of ds r Resend hmac rnd] by simp

lemma sent_ok_broadcast: "sent_ok ds r \<Longrightarrow> b \<in> ds \<Longrightarrow> sent_ok ds (Broadcast r b)"
  using sent_ok_step [of ds r "Send b"] by simp

lemma onRelayConnected_relay [cm_media]:
  "cm_relay (onRelayConnected en m) = cm_relay m" "cm_srtpSession (onRelayConnected en m) = cm_srtpSession m"
  by (simp_all add: onRelayConnected_def cm_media split: option.split sum.split)

lemma onRelayConnected_heard [cm_heard]: "heard (onRelayConnected en m) = heard m"
  by (simp add: onRelayConnected_def cm_heard split: option.split sum.split)

lemma HandleCallAccept_sent:
  assumes "sent_ok ds (cm_relay m)"
  shows "sent_ok ds (cm_relay (HandleCallAccept en m n j))"
proof -
  have "sent_ok ds (cm_relay (accept_media en m info j))" for info
    by (rule sent_ok_cong [OF assms]) (simp add: cm_media)
  then have r: "sent_ok ds (ResendSubscriptions h r (cm_relay (accept_media en m info j)))" for info h r
    by (rule sent_ok_resend)
  then have "sent_ok ds (cm_relay (connectRelays en (m') eps))"
    if "cm_relay m' = ResendSubscriptions h r (cm_relay (accept_media en m info j))" for m' h r info eps
    by (rule sent_ok_cong) (simp add: cm_media that)
  with r assms show ?thesis
    by (auto simp: HandleCallAccept_def Let_def cm_media split: option.split sum.split)
qed

lemma HandleCallAccept_heard: "heard (HandleCallAccept en m n j) = heard m"
  by (simp add: HandleCallAccept_def Let_def cm_heard split: option.split sum.split)

lemma on_callback_sent:
  assumes "sent_ok ds (cm_relay m)"
  shows "sent_ok ds (cm_relay (on_callback en m e))"
proof -
  have "is_callback e \<Longrightarrow> broadcast_of e \<subseteq> ds" by (cases e) auto
  with sent_ok_step [OF assms, of e] assms show ?thesis by (simp add: on_callback_def Let_def cm_media)
qed

lemma on_callback_heard [cm_heard]: "heard (on_callback en m e) = heard m"
  by (simp add: on_callback_def Let_def cm_heard)

text \<open>The inputs of the media side.\<close>

fun is_media :: "('j, 'p) cm_input \<Rightarrow> bool" where
  "is_media (Feed d) = True"
| "is_media SilenceTick = True"
| "is_media (FromRelay d) = True"
| "is_media _ = False"

lemma signalling_sent:
  "\<not> is_media i \<Longrightarrow> sent_ok ds (cm_relay m) \<Longrightarrow> sent_ok ds (cm_relay (cm_step m (en, i)))"
proof (cases i)
  case (OnAccept n j)
  assume "sent_ok ds (cm_relay m)"
  with OnAccept show ?thesis by (simp add: HandleCallAccept_sent)
next
  case (RelayCallback e)
  assume "sent_ok ds (cm_relay m)"
  with RelayCallback show ?thesis by (simp add: on_callback_sent)
next
  case (DoStart k j v)
  assume "sent_ok ds (cm_relay m)"
  with DoStart show ?thesis
    by (auto simp: StartCall_def start_new_def Let_def cm_media initCodec_def split: option.split sum.split)
next
  case (OnOffer n j)
  assume "sent_ok ds (cm_relay m)"
  with OnOffer show ?thesis
    by (auto simp: HandleCallOffer_def Let_def cm_media initCodec_def split: option.split)
qed (auto simp: AcceptCall_def RejectCall_def EndCall_def HandleCallTransport_def HandleCallAck_def
    HandleCallTerminate_def Let_def cm_media intro: sent_ok_cong split: option.split sum.split)

lemma initCodec_heard [cm_heard]: "heard (initCodec en m) = heard m"
  by (simp add: initCodec_def heard_def)

lemma StartCall_heard [cm_heard]: "heard (snd (StartCall en m k j v)) = heard m"
proof -
  have "heard (snd (start_new en m k j v)) = heard m"
    by (simp add: start_new_def Let_def cm_heard split: sum.split) (simp add: heard_def)
  then show ?thesis by (simp add: StartCall_def split: option.split)
qed

lemma HandleCallOffer_heard [cm_heard]: "heard (HandleCallOffer en m n j) = heard m"
  by (simp add: HandleCallOffer_def Let_def cm_heard split: option.split) (simp add: heard_def)

lemma AcceptCall_heard [cm_heard]: "heard (snd (AcceptCall en m k)) = heard m"
  by (simp add: AcceptCall_def Let_def cm_heard split: option.split sum.split)

lemma RejectCall_heard [cm_heard]: "heard (snd (RejectCall en m k r)) = heard m"
  by (simp add: RejectCall_def Let_def cm_heard split: option.split)

lemma EndCall_heard [cm_heard]: "heard (EndCall en m r) = heard m"
  by (simp add: EndCall_def Let_def cm_heard split: option.split)

lemma handlers_heard [cm_heard]:
  "heard (HandleCallTransport en m n) = heard m" "heard (HandleCallAck en m nd) = heard m"
  "heard (HandleCallTerminate en m n) = heard m"
  by (simp_all add: HandleCallTransport_def HandleCallAck_def HandleCallTerminate_def Let_def cm_heard
      split: option.split)

lemma signalling_heard: "\<not> is_media i \<Longrightarrow> heard (cm_step m (en, i)) = heard m"
  by (cases i) (simp_all add: cm_heard HandleCallAccept_heard)

section \<open>The invariant of the media state\<close>

fun media_ok :: "CallInfo option \<Rightarrow> 'c option \<times> bool \<times> 'p list option \<times> nat \<Rightarrow> bool" where
  "media_ok oc (codec, ka, buf, pos) \<longleftrightarrow>
     (case oc of None \<Rightarrow> codec = None | Some c \<Rightarrow> \<not> IsEnded c \<or> codec = None)
   \<and> (ka \<longrightarrow> codec \<noteq> None)
   \<and> (case buf of None \<Rightarrow> True | Some b \<Rightarrow> length b = mlowFrameSize \<and> pos < mlowFrameSize)"

definition media_inv :: "('j, 'c, 'p) CallManager \<Rightarrow> bool" where
  "media_inv m \<longleftrightarrow> media_ok (cm_currentCall m) (media_part m)"

lemma media_inv_new: "media_inv NewCallManager"
  by (simp add: media_inv_def media_part_def NewCallManager_def)

lemma media_ok_cleared: "media_ok oc (None, False, None, n)"
  by (simp split: option.split)

lemma not_ended_try:
  "tr_Type t \<in> {TransitionRemoteAccepted, TransitionLocalAccepted, TransitionMediaConnected, TransitionOfferSent} \<Longrightarrow>
     IsEnded (try_transition c (now, t)) = IsEnded c"
  by (auto simp: IsEnded_def try_transition_def ApplyTransition_def Let_def)

lemma not_ended_apply:
  "ApplyTransition now c (transition TransitionMediaConnected []) = Inr c' \<Longrightarrow> \<not> IsEnded c'"
  by (auto simp: ApplyTransition_def Let_def transition_def IsEnded_def split: if_splits)

lemma media_ok_try:
  assumes "media_ok oc p"
    and "tr_Type t \<in> {TransitionRemoteAccepted, TransitionLocalAccepted, TransitionMediaConnected, TransitionOfferSent}"
  shows "media_ok (map_option (\<lambda>c. try_transition c (now, t)) oc) p"
  using assms by (cases p; cases oc) (simp_all add: not_ended_try)

lemma media_ok_active:
  "media_ok (Some c) p \<Longrightarrow> \<not> IsEnded c' \<Longrightarrow> media_ok (Some c') p"
  by (cases p) auto

lemma media_ok_same: "media_ok (Some c) p \<Longrightarrow> IsEnded c' = IsEnded c \<Longrightarrow> media_ok (Some c') p"
  by (cases p) auto

lemma IsEnded_relay: "IsEnded (c\<lparr>ci_RelayData := rd\<rparr>) = IsEnded c"
  by (simp add: IsEnded_def)

lemma media_ok_silence:
  "media_ok oc (media_part m) \<Longrightarrow> media_ok oc (media_part (startSilenceKeepaliveLocked m))"
  by (simp add: startSilence_part) (simp add: media_part_def split: option.splits)

lemma transition_type [simp]: "tr_Type (transition t r) = t"
  by (simp add: transition_def)

lemma initCodec_media:
  "media_part (initCodec en m) =
     (Some (case cm_codec m of None \<Rightarrow> en_codec en | Some c \<Rightarrow> c), cm_keepaliveStop m, cm_encodeBuf m, cm_encodeBufPos m)"
  by (auto simp: initCodec_def media_part_def split: option.split)

lemma media_ok_begin:
  "media_ok oc (media_part m) \<Longrightarrow> \<not> IsEnded c \<Longrightarrow>
     media_ok (Some c) (Some x, cm_keepaliveStop m, cm_encodeBuf m, cm_encodeBufPos m)"
  by (simp add: media_part_def)

lemma start_new_media:
  "media_part (snd (start_new en m k j v)) =
     (Some (case cm_codec m of None \<Rightarrow> en_codec en | Some c \<Rightarrow> c), cm_keepaliveStop m, cm_encodeBuf m, cm_encodeBufPos m)"
  by (simp add: start_new_def Let_def cm_media initCodec_media split: sum.split)

lemma media_inv_start: "media_inv m \<Longrightarrow> media_inv (snd (StartCall en m k j v))"
  using start_new_call [of en m k j v]
  by (auto simp: StartCall_def media_inv_def start_new_media IsEnded_def intro!: media_ok_begin simp del: media_ok.simps
      split: option.split)

lemma media_inv_offer: "media_inv m \<Longrightarrow> media_inv (HandleCallOffer en m n j)"
  by (auto simp: HandleCallOffer_def media_inv_def Let_def cm_media cm_call initCodec_media IsEnded_def NewIncomingCall_def
      intro!: media_ok_begin simp del: media_ok.simps split: option.split)

text \<open>The media path changes neither the keepalive nor the frame buffer, and keeps a codec.\<close>

lemma sendOpus_keeps:
  "media_part (sendOpusFrameLocked en m opus) = media_part m"
  by (auto simp: sendOpusFrameLocked_def media_part_def Let_def split: option.split outcome.split prod.split)

lemma encode_keeps:
  "(cm_codec (encode_and_send en m f) = None) = (cm_codec m = None)"
  "cm_keepaliveStop (encode_and_send en m f) = cm_keepaliveStop m"
  "cm_encodeBuf (encode_and_send en m f) = cm_encodeBuf m"
  "cm_encodeBufPos (encode_and_send en m f) = cm_encodeBufPos m"
  using sendOpus_keeps [where en = en]
  by (auto simp: encode_and_send_def media_part_def split: option.split prod.split sum.split)

lemma feed_loop_keeps:
  "length buf = mlowFrameSize \<Longrightarrow> pos < mlowFrameSize \<Longrightarrow>
     (cm_codec (feed_loop en buf pos data m) = None) = (cm_codec m = None)
   \<and> cm_keepaliveStop (feed_loop en buf pos data m) = cm_keepaliveStop m
   \<and> (\<exists>b. cm_encodeBuf (feed_loop en buf pos data m) = Some b \<and> length b = mlowFrameSize)
   \<and> cm_encodeBufPos (feed_loop en buf pos data m) < mlowFrameSize"
proof (induction en buf pos data m rule: feed_loop.induct)
  case (1 en buf pos data m)
  have len: "length (blit pos (take (min (length data) (mlowFrameSize - pos)) data) buf) = mlowFrameSize"
    using 1(2,3) by simp
  have fs: "0 < mlowFrameSize" by (simp add: mlowFrameSize_def)
  show ?case
  proof (cases "data = [] \<or> pos + min (length data) (mlowFrameSize - pos) < mlowFrameSize")
    case True
    with 1(2,3) len show ?thesis by (auto simp: feed_loop.simps [of en buf pos data m] Let_def)
  next
    case False
    then have d: "data \<noteq> []" and n: "\<not> pos + min (length data) (mlowFrameSize - pos) < mlowFrameSize" by auto
    have step: "feed_loop en buf pos data m =
        feed_loop en (blit pos (take (min (length data) (mlowFrameSize - pos)) data) buf) 0
          (drop (min (length data) (mlowFrameSize - pos)) data)
          (encode_and_send en m (NormalizeFrame (en_zero en)
             (blit pos (take (min (length data) (mlowFrameSize - pos)) data) buf) mlowFrameSize))"
      using d n by (subst feed_loop.simps) (simp add: Let_def)
    show ?thesis
      using 1(1) [OF d refl refl refl n len fs] unfolding step by (simp only: encode_keeps simp_thms)
  qed
qed

lemma media_ok_feed:
  assumes "media_ok oc (media_part m)" "length buf = mlowFrameSize" "pos < mlowFrameSize" "cm_codec m \<noteq> None"
  shows "media_ok oc (media_part (feed_loop en buf pos data m))"
  using feed_loop_keeps [OF assms(2,3), of en data m] assms(1,4)
  by (auto simp: media_part_def split: option.splits)

lemma media_inv_feed: "media_inv m \<Longrightarrow> media_inv (FeedCapturedPCM en m d)"
proof (cases "media_ready m")
  case True
  assume inv: "media_inv m"
  then have ok: "media_ok (cm_currentCall m) (media_part (m\<lparr>cm_lastCaptureAt := en_now en\<rparr>))"
    by (simp add: media_inv_def media_part_def)
  have fs: "0 < mlowFrameSize" by (simp add: mlowFrameSize_def)
  have codec: "cm_codec (m\<lparr>cm_lastCaptureAt := en_now en\<rparr>) \<noteq> None" using True by (simp add: media_ready_def)
  show ?thesis
  proof (cases "cm_encodeBuf m")
    case None
    with True ok codec fs show ?thesis
      by (simp add: FeedCapturedPCM_def media_inv_def Let_def media_ok_feed del: media_ok.simps)
  next
    case (Some b)
    with inv have "length b = mlowFrameSize" "cm_encodeBufPos m < mlowFrameSize"
      by (simp_all add: media_inv_def media_part_def)
    with True ok codec Some show ?thesis
      by (simp add: FeedCapturedPCM_def media_inv_def Let_def media_ok_feed del: media_ok.simps)
  qed
qed (simp add: FeedCapturedPCM_def)

lemma media_inv_encode: "media_inv m \<Longrightarrow> media_inv (encode_and_send en m f)"
  using encode_keeps [of en m f] by (auto simp: media_inv_def media_part_def split: option.splits)

lemma onRelayData_media: "media_inv m \<Longrightarrow> media_inv (onRelayData en m d)"
  by (auto simp: onRelayData_def media_inv_def media_part_def emit_def Let_def
      split: option.splits outcome.split prod.split sum.split)

lemma media_inv_connected: "media_inv m \<Longrightarrow> media_inv (onRelayConnected en m)"
  by (auto simp: media_inv_def onRelayConnected_def cm_call cm_media simp del: media_ok.simps
      intro!: media_ok_silence intro: media_ok_active dest: not_ended_apply split: option.split sum.split)

lemma media_ok_accepted:
  assumes "media_inv m"
  shows "media_ok (map_option (\<lambda>c. try_transition c (now, transition TransitionRemoteAccepted [])) (cm_currentCall m))
    (media_part m)"
  using assms by (simp add: media_inv_def media_ok_try del: media_ok.simps)

lemma media_inv_accept: "media_inv m \<Longrightarrow> media_inv (HandleCallAccept en m n j)"
  using media_ok_accepted [of m "en_now en"]
  by (auto simp: media_inv_def HandleCallAccept_def Let_def cm_call cm_media simp del: media_ok.simps
      intro!: media_ok_silence intro: media_ok_active dest: not_ended_apply
      split: option.split sum.split)

lemma media_inv_step: "media_inv m \<Longrightarrow> media_inv (cm_step m (en, i))"
proof (cases i)
  case (OnAccept n j)
  assume "media_inv m"
  with OnAccept show ?thesis by (simp add: media_inv_accept)
next
  case (DoAccept k)
  assume "media_inv m"
  with DoAccept show ?thesis
    by (auto simp: media_inv_def AcceptCall_def Let_def cm_call cm_media simp del: media_ok.simps
        intro: media_ok_same simp: not_ended_try split: option.split sum.split)
next
  case (DoReject k r)
  assume "media_inv m"
  with DoReject show ?thesis
    by (auto simp: media_inv_def RejectCall_def Let_def cm_media split: option.split)
next
  case (DoEnd r)
  assume "media_inv m"
  with DoEnd show ?thesis
    by (auto simp: media_inv_def EndCall_def Let_def cm_media split: option.split)
next
  case (OnTerminate n)
  assume "media_inv m"
  with OnTerminate show ?thesis
    by (auto simp: media_inv_def HandleCallTerminate_def Let_def cm_media split: option.split)
next
  case (OnTransport n)
  assume "media_inv m"
  with OnTransport show ?thesis
    by (auto simp: media_inv_def HandleCallTransport_def Let_def cm_media simp del: media_ok.simps
        intro: media_ok_same simp: IsEnded_relay split: option.split)
next
  case (OnAck nd)
  assume "media_inv m"
  with OnAck show ?thesis
    by (auto simp: media_inv_def HandleCallAck_def Let_def cm_call cm_media simp del: media_ok.simps
        intro: media_ok_same simp: IsEnded_relay split: option.split)
next
  case (RelayCallback e)
  assume "media_inv m"
  then have "media_inv (m\<lparr>cm_relay := r\<rparr>)" for r by (simp add: media_inv_def cm_media del: media_ok.simps)
  with RelayCallback \<open>media_inv m\<close> show ?thesis by (simp add: on_callback_def Let_def media_inv_connected)
qed (simp_all add: media_inv_start media_inv_offer media_inv_feed onRelayData_media keepalive_tick_def media_inv_encode)

interpretation mediam: guarded_machine cm_step media_inv
  by unfold_locales (auto intro: media_inv_step)

section \<open>The keys of the stream\<close>

text \<open>
  A sending context of a call: one derived from the call key for some device, moved on by the packets sent. What it
  protects are the media packets of the call.
\<close>

definition call_ctx :: "keystream \<Rightarrow> hkdf \<Rightarrow> bytes \<Rightarrow> SrtpContext \<Rightarrow> bool" where
  "call_ctx ks hk key c \<longleftrightarrow> (\<exists>j c0. NewSrtpContext ks (DerivePerJidSrtpKey hk key j) SRTPSendAuthTagLen = Ret c0
     \<and> same_keys c0 c \<and> sc_authKey c = sc_authKey c0)"

definition media_packets :: "keystream \<Rightarrow> hkdf \<Rightarrow> mac \<Rightarrow> bytes \<Rightarrow> bytes set" where
  "media_packets ks hk hm key = {b. \<exists>c p. call_ctx ks hk key c \<and> fst (Protect ks hm c p) = Ret b}"

definition keys_ok :: "keystream \<Rightarrow> hkdf \<Rightarrow> bytes option \<Rightarrow> ('j, 'c, 'p) CallManager \<Rightarrow> bool" where
  "keys_ok ks hk key m \<longleftrightarrow> map_option ci_EncryptionKey (cm_currentCall m) = Some key
     \<and> (case cm_srtpSession m of None \<Rightarrow> True
        | Some s \<Rightarrow> (case key of None \<Rightarrow> False | Some k \<Rightarrow> call_ctx ks hk k (ss_sendCtx s)))"

definition same_lib :: "keystream \<Rightarrow> hkdf \<Rightarrow> mac \<Rightarrow> ('j, 'c, 'p) Env \<Rightarrow> bool" where
  "same_lib ks hk hm en \<longleftrightarrow> en_ks en = ks \<and> en_hkdf en = hk \<and> en_hmac en = hm"

lemma call_ctx_updateRoc: "call_ctx ks hk key c \<Longrightarrow> call_ctx ks hk key (updateRoc c seq)"
  by (simp add: call_ctx_def same_keys_def)

lemma call_ctx_new:
  "NewSrtpSession ks (DerivePerJidSrtpKey hk key j) rk SRTPSendAuthTagLen n = Ret s \<Longrightarrow> call_ctx ks hk key (ss_sendCtx s)"
  by (auto simp: NewSrtpSession_Ret call_ctx_def same_keys_def)

lemma keys_ok_cong:
  "keys_ok ks hk key m \<Longrightarrow> map_option ci_EncryptionKey (cm_currentCall m') = map_option ci_EncryptionKey (cm_currentCall m) \<Longrightarrow>
     cm_srtpSession m' = cm_srtpSession m \<or> cm_srtpSession m' = None \<Longrightarrow> keys_ok ks hk key m'"
  by (auto simp: keys_ok_def)

lemma keys_ok_init: "keys_ok (en_ks en) (en_hkdf en) key m \<Longrightarrow> keys_ok (en_ks en) (en_hkdf en) key (initSrtpKeysLocked en m)"
  by (auto simp: keys_ok_def initSrtpKeysLocked_def Let_def split: option.splits outcome.splits dest: call_ctx_new)

lemma keys_ok_reinit:
  "keys_ok (en_ks en) (en_hkdf en) key m \<Longrightarrow> keys_ok (en_ks en) (en_hkdf en) key (reinitSrtpLocked en m pk pj)"
  by (auto simp: keys_ok_def reinitSrtpLocked_def Let_def split: option.splits outcome.splits dest: call_ctx_new)

lemma moves_key: "opt_moves now oc oc' \<Longrightarrow> map_option ci_EncryptionKey oc' = map_option ci_EncryptionKey oc"
  by (cases oc; cases oc') (auto simp: opt_moves_def call_moves_def)

lemma keys_ok_try: "keys_ok ks hk key m \<Longrightarrow> keys_ok ks hk key (apply_current now t m)"
  by (rule keys_ok_cong) (auto simp: cm_call cm_media option.map_comp comp_def same_call_fields [OF try_transition_same])

lemma emitState_keys [simp]: "keys_ok ks hk key (emitState m) = keys_ok ks hk key m"
  by (simp add: keys_ok_def cm_media)

lemma emit_keys [simp]: "keys_ok ks hk key (emit m e) = keys_ok ks hk key m"
  by (simp add: keys_ok_def cm_media)

lemma setters_keys [simp]:
  "keys_ok ks hk key (m\<lparr>cm_relay := r\<rparr>) = keys_ok ks hk key m"
  "keys_ok ks hk key (m\<lparr>cm_acceptedByJid := x\<rparr>) = keys_ok ks hk key m"
  "keys_ok ks hk key (m\<lparr>cm_peerSsrcs := ss\<rparr>) = keys_ok ks hk key m"
  "keys_ok ks hk key (m\<lparr>cm_outgoingPreacceptSent := b\<rparr>) = keys_ok ks hk key m"
  "keys_ok ks hk key (adopt_participants en m i ps c) = keys_ok ks hk key m"
  "keys_ok ks hk key (connectRelays en m eps) = keys_ok ks hk key m"
  "keys_ok ks hk key (startSilenceKeepaliveLocked m) = keys_ok ks hk key m"
  by (simp_all add: keys_ok_def cm_media cm_call)

lemma keys_ok_setup:
  "keys_ok (en_ks en) (en_hkdf en) key m \<Longrightarrow> keys_ok (en_ks en) (en_hkdf en) key (setupIncomingMedia en m c rd)"
  by (simp add: setupIncomingMedia_def Let_def keys_ok_init)

lemma keys_ok_accept_media:
  "keys_ok (en_ks en) (en_hkdf en) key m \<Longrightarrow> keys_ok (en_ks en) (en_hkdf en) key (accept_media en m info j)"
  by (simp add: accept_media_def Let_def keys_ok_init keys_ok_reinit keys_ok_try split: sum.split option.split)

lemma keys_ok_call:
  "keys_ok ks hk key m \<Longrightarrow> cm_currentCall m = Some c \<Longrightarrow> ci_EncryptionKey c' = ci_EncryptionKey c \<Longrightarrow>
     keys_ok ks hk key (m\<lparr>cm_currentCall := Some c'\<rparr>)"
  by (simp add: keys_ok_def)

lemma keys_ok_cleanup: "keys_ok ks hk key m \<Longrightarrow> keys_ok ks hk key (cleanupMedia m)"
  by (rule keys_ok_cong) (simp_all add: cm_call cm_media)

lemma apply_key: "ApplyTransition now c t = Inr c' \<Longrightarrow> ci_EncryptionKey c' = ci_EncryptionKey c"
  by (drule ApplyTransition_Inr) (simp add: same_call_fields)

lemma keys_ok_active:
  "keys_ok ks hk key m \<Longrightarrow> cm_currentCall m = Some c \<Longrightarrow> ApplyTransition now c t = Inr c' \<Longrightarrow>
     keys_ok ks hk key (m\<lparr>cm_currentCall := Some c'\<rparr>)"
  by (rule keys_ok_call) (simp_all add: apply_key)

lemma keys_ok_connected: "keys_ok ks hk key m \<Longrightarrow> keys_ok ks hk key (onRelayConnected en m)"
  by (auto simp: onRelayConnected_def intro: keys_ok_active split: option.split sum.split)

lemma keys_ok_accept:
  "keys_ok (en_ks en) (en_hkdf en) key m \<Longrightarrow> keys_ok (en_ks en) (en_hkdf en) key (HandleCallAccept en m n j)"
proof -
  assume ok: "keys_ok (en_ks en) (en_hkdf en) key m"
  have a: "keys_ok (en_ks en) (en_hkdf en) key (accept_media en m info j)" for info
    by (rule keys_ok_accept_media [OF ok])
  have active: "keys_ok (en_ks en) (en_hkdf en) key (m'\<lparr>cm_currentCall := Some c'\<rparr>)"
    if "keys_ok (en_ks en) (en_hkdf en) key m'" "cm_currentCall m' = cm_currentCall (accept_media en m info j)"
      "cm_currentCall m = Some c0"
      "ApplyTransition t (the (cm_currentCall (accept_media en m info j))) u = Inr c'" for m' info c0 t u c'
    using that by (intro keys_ok_active [OF that(1) _ that(4)]) (simp add: accept_media_call)
  show ?thesis
  proof (cases "cm_currentCall m")
    case None
    with ok show ?thesis by (simp add: HandleCallAccept_def)
  next
    case (Some c0)
    then show ?thesis
      using ok a by (auto simp: HandleCallAccept_def Let_def intro: active split: option.split sum.split)
  qed
qed

lemma keys_ok_signalling:
  assumes ok: "keys_ok (en_ks en) (en_hkdf en) key m" and i: "\<not> begins i" "\<not> is_media i"
  shows "keys_ok (en_ks en) (en_hkdf en) key (cm_step m (en, i))"
proof (cases i)
  case (DoAccept k)
  with ok show ?thesis
    by (auto simp: AcceptCall_def Let_def intro!: keys_ok_setup keys_ok_try split: option.split sum.split)
next
  case (OnAccept n j)
  with ok show ?thesis by (simp add: keys_ok_accept)
next
  case (OnTransport n)
  with ok show ?thesis
    by (auto simp: HandleCallTransport_def Let_def intro: keys_ok_call split: option.split)
next
  case (OnAck nd)
  have call: "keys_ok (en_ks en) (en_hkdf en) key (m\<lparr>cm_currentCall := Some (c\<lparr>ci_RelayData := rd\<rparr>)\<rparr>)"
    if "cm_currentCall m = Some c" for c rd
    by (rule keys_ok_call [OF ok that]) simp
  from OnAck ok show ?thesis
    by (simp add: HandleCallAck_def Let_def call keys_ok_init split: option.split)
next
  case (RelayCallback e)
  with ok show ?thesis by (simp add: on_callback_def Let_def keys_ok_connected)
qed (use i ok in \<open>auto simp: RejectCall_def EndCall_def HandleCallTerminate_def Let_def
    intro!: keys_ok_cleanup keys_ok_try split: option.split\<close>)

text \<open>The media path: what it sends is protected with the sending context, which moves on.\<close>

lemma sendOpus_wire:
  assumes "keys_ok (en_ks en) hk (Some k) m" "sent_ok (media_packets (en_ks en) hk (en_hmac en) k) (cm_relay m)"
  shows "keys_ok (en_ks en) hk (Some k) (sendOpusFrameLocked en m opus)
    \<and> sent_ok (media_packets (en_ks en) hk (en_hmac en) k) (cm_relay (sendOpusFrameLocked en m opus))"
proof (cases "cm_rtpSession m")
  case (Some rtp)
  note rtp = this
  show ?thesis
  proof (cases "cm_srtpSession m")
    case None
    with assms rtp show ?thesis by (simp add: sendOpusFrameLocked_def)
  next
    case (Some s)
    have ctx: "call_ctx (en_ks en) hk k (ss_sendCtx s)" using assms(1) Some by (simp add: keys_ok_def)
    obtain pkt rtp1 where pkt: "CreatePacketWithDuration rtp opus (int mlowFrameSize) (\<not> cm_firstPacketSent m) = (pkt, rtp1)"
      by fastforce
    define p1 where "p1 = (if cm_debeEnabled m then pkt\<lparr>rp_Header := (rp_Header pkt)\<lparr>rh_Extension := True,
        rh_ExtensionProfile := 0xbede, rh_ExtensionData := []\<rparr>\<rparr> else pkt)"
    obtain r c where r: "Protect (en_ks en) (en_hmac en) (ss_sendCtx s) p1 = (r, c)" by fastforce
    have c: "call_ctx (en_ks en) hk k c"
      using r snd_Protect [of "en_ks en" "en_hmac en" "ss_sendCtx s" p1] call_ctx_updateRoc [OF ctx] by simp
    have b: "b \<in> media_packets (en_ks en) hk (en_hmac en) k" if "r = Ret b" for b
      using that r ctx by (auto simp: media_packets_def intro!: exI [of _ "ss_sendCtx s"] exI [of _ p1])
    have step: "sendOpusFrameLocked en m opus =
        (let m1 = m\<lparr>cm_rtpSession := Some rtp1, cm_firstPacketSent := True, cm_srtpSession := Some (s\<lparr>ss_sendCtx := c\<rparr>)\<rparr>
         in case r of Ret packet \<Rightarrow> m1\<lparr>cm_relay := Broadcast (cm_relay m1) packet\<rparr> | _ \<Rightarrow> m1)"
      by (simp add: sendOpusFrameLocked_def rtp Some pkt p1_def [symmetric] SrtpSession_Protect_def r Let_def)
    from assms b c show ?thesis
      by (cases r) (simp_all add: step Let_def keys_ok_def sent_ok_broadcast)
  qed
qed (use assms in \<open>simp add: sendOpusFrameLocked_def\<close>)

definition wire_ok :: "keystream \<Rightarrow> hkdf \<Rightarrow> mac \<Rightarrow> bytes option \<Rightarrow> ('j, 'c, 'p) CallManager \<Rightarrow> bool" where
  "wire_ok ks hk hm key m \<longleftrightarrow> keys_ok ks hk key m
     \<and> sent_ok (case key of None \<Rightarrow> {} | Some k \<Rightarrow> media_packets ks hk hm k) (cm_relay m)"

lemma wire_ok_silent:
  "wire_ok ks hk hm None m \<Longrightarrow> cm_srtpSession m = None"
  by (simp add: wire_ok_def keys_ok_def split: option.splits)

lemma wire_ok_codec: "wire_ok ks hk hm key (m\<lparr>cm_codec := x\<rparr>) = wire_ok ks hk hm key m"
  by (simp add: wire_ok_def keys_ok_def)

lemma wire_ok_encode:
  "wire_ok (en_ks en) hk (en_hmac en) key m \<Longrightarrow> wire_ok (en_ks en) hk (en_hmac en) key (encode_and_send en m f)"
proof (cases key)
  case None
  assume ok: "wire_ok (en_ks en) hk (en_hmac en) key m"
  with None have "cm_srtpSession m = None" using wire_ok_silent by blast
  with ok show ?thesis
    by (auto simp: encode_and_send_def sendOpusFrameLocked_def wire_ok_codec split: option.split prod.split sum.split)
next
  case (Some k)
  assume ok: "wire_ok (en_ks en) hk (en_hmac en) key m"
  have "wire_ok (en_ks en) hk (en_hmac en) key (sendOpusFrameLocked en (m\<lparr>cm_codec := x\<rparr>) opus)" for x opus
    using sendOpus_wire [of en hk k "m\<lparr>cm_codec := x\<rparr>" opus] ok Some by (simp add: wire_ok_def keys_ok_def)
  with ok show ?thesis
    by (simp add: encode_and_send_def wire_ok_codec split: option.split prod.split sum.split)
qed

lemma wire_ok_buffers:
  "wire_ok ks hk hm key (m\<lparr>cm_encodeBuf := x, cm_encodeBufPos := y\<rparr>) = wire_ok ks hk hm key m"
  "wire_ok ks hk hm key (m\<lparr>cm_lastCaptureAt := z\<rparr>) = wire_ok ks hk hm key m"
  by (simp_all add: wire_ok_def keys_ok_def)

lemma wire_ok_feed_loop:
  "wire_ok (en_ks en) hk (en_hmac en) key m \<Longrightarrow> wire_ok (en_ks en) hk (en_hmac en) key (feed_loop en buf pos data m)"
proof (induction en buf pos data m rule: feed_loop.induct)
  case (1 en buf pos data m)
  then show ?case
    by (subst feed_loop.simps) (simp add: Let_def wire_ok_buffers wire_ok_encode)
qed

lemma sent_ok_set [simp]: "sent_ok ds (SetSubscriptionSsrc r s) = sent_ok ds r"
  by (simp add: sent_ok_def)

lemma wire_ok_data: "wire_ok ks hk (en_hmac en) key m \<Longrightarrow> wire_ok ks hk (en_hmac en) key (onRelayData en m d)"
  by (auto simp: wire_ok_def keys_ok_def onRelayData_def SrtpSession_Unprotect_def Let_def emit_def
      intro: sent_ok_resend split: option.splits outcome.split prod.split sum.split)

lemma wire_ok_step:
  assumes ok: "wire_ok ks hk hm key m" and lib: "same_lib ks hk hm en" and i: "\<not> begins i"
  shows "wire_ok ks hk hm key (cm_step m (en, i))"
proof (cases "is_media i")
  case True
  with ok lib show ?thesis
    by (cases i) (auto simp: same_lib_def FeedCapturedPCM_def keepalive_tick_def Let_def wire_ok_buffers
        intro!: wire_ok_feed_loop wire_ok_encode wire_ok_data split: option.split)
next
  case False
  with ok lib i show ?thesis
    using keys_ok_signalling [of en key m i] signalling_sent [OF False] by (auto simp: wire_ok_def same_lib_def)
qed

lemma wire_ok_run:
  assumes "wire_ok ks hk hm key m" "list_all (\<lambda>(en, i). same_lib ks hk hm en \<and> \<not> begins i) es"
  shows "wire_ok ks hk hm key (cm_run m es)"
  using assms by (induction es arbitrary: m) (auto intro: wire_ok_step)

lemma wire_ok_begin:
  assumes "begins i" "same_lib ks hk hm en"
  shows "cm_step NewCallManager (en, i) = NewCallManager
    \<or> (\<exists>key. wire_ok ks hk hm key (cm_step NewCallManager (en, i)))"
proof -
  have new: "sent_ok ds NewSctpRelayManager" for ds by (simp add: sent_ok_def NewSctpRelayManager_def)
  have e: "ci_EncryptionKey (try_transition c e) = ci_EncryptionKey c" for c e
    by (rule same_call_fields [OF try_transition_same, THEN conjunct2, THEN conjunct2, THEN conjunct2, THEN conjunct2,
          THEN conjunct2, THEN conjunct2, THEN conjunct1])
  from assms(1) consider (start) k j v where "i = DoStart k j v" | (offer) n j where "i = OnOffer n j"
    by (cases i) auto
  then show ?thesis
  proof cases
    case start
    then show ?thesis
      by (auto simp: StartCall_def start_new_def Let_def wire_ok_def keys_ok_def cm_call cm_media e new initCodec_def
          NewCallManager_def split: sum.split)
  next
    case offer
    then show ?thesis
      by (auto simp: HandleCallOffer_def Let_def wire_ok_def keys_ok_def cm_call cm_media new initCodec_def
          NewCallManager_def split: option.split)
  qed
qed

text \<open>An environment to evaluate runs in: JIDs are strings, the socket answers nothing, the ciphers are trivial.\<close>

definition demo_jids :: "string jid_ops" where
  "demo_jids = \<lparr>jid_String = (\<lambda>s. s), jid_IsEmpty = (\<lambda>s. s = ''''), jid_Parse = Some, jid_zero = ''''\<rparr>"

definition demo_sock :: "string \<Rightarrow> string VoipSocket" where
  "demo_sock me = \<lparr>OwnPN = me, OwnLID = me, AccountDeviceIdentityNode = None, GetUSyncDevices = (\<lambda>js. Inr js),
     AssertSessions = (\<lambda>js b. None), CreateParticipantNodes = (\<lambda>js k a. Inr ([], False)),
     DecryptCallKey = (\<lambda>j n. Inr (Some (replicate 32 9))), GetTCToken = (\<lambda>j. Inl ''none''), ResolveLIDForPN = (\<lambda>j. j)\<rparr>"

definition demo_env :: "int \<Rightarrow> string \<Rightarrow> (string, unit, unit) Env" where
  "demo_env now me = \<lparr>en_J = demo_jids, en_sock = demo_sock me, en_hkdf = (\<lambda>s t i n. replicate n 1),
     en_ks = (\<lambda>k v i. 0), en_hmac = (\<lambda>k m. replicate 20 0), en_rand = (\<lambda>d n. replicate n 0), en_codec = (),
     en_encode = (\<lambda>c f. (Inr [1], c)), en_decode = (\<lambda>c b. (Inr [()], c)), en_zero = (), en_now = now,
     en_callKey = replicate 32 9, en_rseq = 5, en_rts = 6, en_stanza = (\<lambda>i. [1]), en_pc = (\<lambda>r. Negotiated ''u'')\<rparr>"

lemma demo_env_simps [simp]:
  "en_J (demo_env t me) = demo_jids" "en_sock (demo_env t me) = demo_sock me" "en_now (demo_env t me) = t"
  by (simp_all add: demo_env_def)

lemma demo_start:
  "cm_currentCall (cm_run NewCallManager [(demo_env t me, DoStart i j v)]) =
     Some (try_transition ((NewOutgoingCall t i j me (if v then CallMediaTypeVideo else CallMediaTypeAudio))
             \<lparr>ci_EncryptionKey := Some (replicate 32 9)\<rparr>) (t, transition TransitionOfferSent []))"
  by (simp add: StartCall_def start_new_def Let_def cm_call NewCallManager_def BuildOfferStanza_def demo_sock_def
      demo_env_def demo_jids_def creator_of_def GenerateCallKey_def)

definition demo_ack :: "string node" where
  "demo_ack = Node ''ack'' [(''type'', AString ''offer'')] (Nodes [Node ''relay'' [] (Nodes
     [Node ''key'' [] (Bytes [75]), Node ''token'' [] (Bytes [7]),
      Node ''te2'' [(''relay_name'', AString ''r'')] (Bytes [10, 0, 0, 1, 13, 150])])])"

definition demo_ep :: RelayEndpoint where
  "demo_ep = RelayEndpoint_zero\<lparr>ep_Token := b64_encode [7], ep_RawToken := Some [7], ep_Key := str_of [75], ep_RelayName := ''r'',
     ep_AddressBytes := [10, 0, 0, 1, 13, 150], ep_AuthTokenID := ''0'', ep_IP := ipv4String [10, 0, 0, 1],
     ep_Port := push_bit 8 13 OR 150\<rparr>"

lemma demo_ack_parsed:
  "ParseRelayFromAck demo_jids (Some demo_ack) = ParsedRelayAck_zero\<lparr>pa_Relays := [demo_ep]\<rparr>"
  by (simp add: ParseRelayFromAck_def demo_ack_def read_ack_child_def read_relay_def read_relay_key_def read_te2_def
   AttrString_def HasAttr_def AttrInt_def attrStringOr_def Let_def ParsedRelayAck_zero_def sortRelaysByRtt_def slice_stable_def
   RelayEndpoint_zero_def or_empty_def demo_ep_def)

lemma onOpen_ping:
  assumes "r < length (rm_heap m)" "cn_channel (conn_at m r)"
  shows "\<exists>t. (r, BuildWhatsAppPing t) \<in> set (rm_sent (onOpen hmac rnd m r))"
  using assms by (auto simp: onOpen_def startKeepalive_def sendStunRegistration_def Let_def sendRaw_def)


definition demo_cfg :: RelayConfig where
  "demo_cfg = \<lparr>rc_IP = ipv4String [10, 0, 0, 1], rc_Port = 3478, rc_Token = b64_encode [7], rc_AuthToken = '''',
     rc_RawAuthToken = None, rc_RawToken = Some [7], rc_Key = str_of [75], rc_RelayID = 0, rc_Name = ''r'',
     rc_AuthTokenID = ''0''\<rparr>"

lemma demo_configs: "buildRelayConfigs [demo_ep] = [demo_cfg]"
  by (simp add: buildRelayConfigs_def demo_ep_def RelayEndpoint_zero_def demo_cfg_def str_of_def)

lemma demo_attrs: "AttrString demo_jids (Attrs demo_ack) ''type'' = ''offer''"
  "AttrString demo_jids (Attrs demo_ack) ''error'' = ''''"
  by (simp_all add: demo_ack_def AttrString_def)

text \<open>An acknowledgement of an offer connects its relay, whatever the state of the call.\<close>

lemma demo_ack_relay:
  assumes "cm_currentCall m = Some c" "rm_connections (cm_relay m) = []"
  shows "\<exists>h. rm_heap (cm_relay (HandleCallAck (demo_env t me) m demo_ack)) = rm_heap (cm_relay m) @ [h]
    \<and> cn_channel h \<and> cn_state h = relayStateConnecting \<and> cn_id h = connID (rc_IP demo_cfg) 3478 ''0''
    \<and> rm_connections (cm_relay (HandleCallAck (demo_env t me) m demo_ack)) =
        [(connID (rc_IP demo_cfg) 3478 ''0'', length (rm_heap (cm_relay m)))]"
  using assms
  by (simp add: HandleCallAck_def demo_attrs demo_ack_parsed ParsedRelayAck_zero_def Let_def connectRelays_def demo_configs
      cm_media)
    (simp add: ConfigureRelays_def connectToRelay_def demo_cfg_def SetSsrc_def SetSubscriptionSsrc_def demo_env_def set_conn_def Let_def)


lemma demo_open:
  assumes "rm_heap r = hs @ [h]" "cn_channel h" "cn_state h = relayStateConnecting" "rm_connections r = [(i, length hs)]"
  shows "HasConnection (relay_step hmac rnd r (Opened (length hs)))
    \<and> (\<exists>t. (length hs, BuildWhatsAppPing t) \<in> set (rm_sent (relay_step hmac rnd r (Opened (length hs)))))"
  using assms onOpen_ping [of "length hs" r hmac rnd]
  by (simp add: HasConnection_def onOpen_def startKeepalive_def sendStunRegistration_def Let_def set_conn_def)

section \<open>Properties of every run\<close>



text \<open>
  The times of a call make sense in every run whose clock does not go back: an ended call has an end
  not before its connection, which is not before its acceptance, which is not before its creation; none of them lies
  in the future; the recorded duration is the whole seconds from connection to end, and \<open>0\<close> for a call that
  never connected.
\<close>

theorem call_times_consistent:
  assumes "sorted (map (\<lambda>(en, i). en_now en) (es @ [(en, i)]))"
    and "cm_currentCall (cm_run NewCallManager (es @ [(en, i)])) = Some c"
  shows "call_wf (c, en_now en)"
proof -
  have step: "call_ok t (cm_run m xs)" if "call_ok s m" "sorted (s # map (\<lambda>(en, i). en_now en) xs)"
    "t = last (s # map (\<lambda>(en, i). en_now en) xs)" for s t m and xs :: "(('a, 'b, 'c) Env \<times> ('a, 'c) cm_input) list"
    using that
  proof (induction xs arbitrary: s m)
    case (Cons x xs)
    obtain e j where x: "x = (e, j)" by (cases x)
    have "call_ok (en_now e) (cm_step m x)" using Cons.prems x by (auto intro: cm_step_ok)
    from Cons.IH [OF this] Cons.prems x show ?case by simp
  qed simp
  let ?xs = "es @ [(en, i)]"
  have "call_ok (en_now en) (cm_run NewCallManager ?xs)"
  proof (cases ?xs)
    case (Cons x xs)
    have "call_ok (en_now (fst x)) NewCallManager" by (simp add: call_ok_def NewCallManager_def)
    moreover have "sorted (en_now (fst x) # map (\<lambda>(en, i). en_now en) ?xs)"
      using assms(1) by (simp add: Cons case_prod_unfold)
    ultimately show ?thesis by (rule step) simp
  qed simp
  with assms(2) show ?thesis by (simp add: call_ok_def del: cm_run_simps)
qed

theorem call_times_consistent_witness:
  "call_wf (try_transition ((NewOutgoingCall 5 ''i'' ''you'' ''me'' CallMediaTypeAudio)
             \<lparr>ci_EncryptionKey := Some (replicate 32 9)\<rparr>) (5, transition TransitionOfferSent []), 5)"
  using call_times_consistent [of "[]" "demo_env 5 ''me''" "DoStart ''i'' ''you'' False"]
    demo_start [of 5 "''me''" "''i''" "''you''" False] by simp

lemma media_inv_run: "media_inv (cm_run NewCallManager es)"
  unfolding cm_run_def by (rule mediam.run_inv [OF media_inv_new])

text \<open>Without a codec, and until a call begins, nothing is played and only STUN goes to the relays.\<close>

lemma no_codec_step:
  fixes m :: "('j, 'c, 'p) CallManager"
  assumes "cm_codec m = None" "\<not> begins i" "sent_ok ds (cm_relay m)"
  shows "cm_codec (cm_step m (en, i)) = None \<and> heard (cm_step m (en, i)) = heard m
     \<and> sent_ok ds (cm_relay (cm_step m (en, i)))"
proof (cases "is_media i")
  case True
  with assms show ?thesis by (cases i) (simp_all add: no_codec_Feed no_codec_tick no_codec_data)
next
  case False
  have part: "media_part m = (None, snd (media_part m))" using assms(1) by (simp add: media_part_def)
  have cl: "cm_codec m' = None" if "media_part m' = (None, x)" for m' :: "('j, 'c, 'p) CallManager" and x
    using that by (simp add: media_part_def)
  have sil: "media_part (startSilenceKeepaliveLocked m') = media_part m'"
    if "media_part m' = (None, x)" for m' :: "('j, 'c, 'p) CallManager" and x
    using that no_codec_silence [of m'] by (simp add: media_part_def)
  have "cm_codec (cm_step m (en, i)) = None"
  proof (cases i)
    case (OnAccept n j)
    then show ?thesis
      by (auto simp: HandleCallAccept_def Let_def cm_media sil [OF trans [OF _ part]] assms(1)
          intro!: cl [OF trans [OF _ part]] split: option.split sum.split)
  next
    case (RelayCallback e)
    then show ?thesis
      by (auto simp: on_callback_def onRelayConnected_def Let_def cm_media sil [OF trans [OF _ part]] assms(1)
          intro!: cl [OF trans [OF _ part]] split: option.split sum.split)
  qed (use False assms(1,2) part in \<open>auto simp: AcceptCall_def RejectCall_def EndCall_def HandleCallTransport_def
      HandleCallAck_def HandleCallTerminate_def Let_def cm_media intro!: cl [OF trans [OF _ part]] cl
      split: option.split sum.split\<close>)
  with signalling_heard [OF False, of m en] signalling_sent [OF False assms(3)] show ?thesis by blast
qed

lemma no_codec_run:
  assumes "cm_codec m = None" "list_all (\<lambda>(en, i). \<not> begins i) es" "sent_ok ds (cm_relay m)"
  shows "cm_codec (cm_run m es) = None \<and> heard (cm_run m es) = heard m \<and> sent_ok ds (cm_relay (cm_run m es))"
  using assms
proof (induction es arbitrary: m)
  case (Cons e es)
  obtain en i where e: "e = (en, i)" by (cases e)
  with Cons.prems no_codec_step [of m i ds en] have
    "cm_codec (cm_step m e) = None \<and> heard (cm_step m e) = heard m \<and> sent_ok ds (cm_relay (cm_step m e))" by simp
  with Cons.IH [of "cm_step m e"] Cons.prems show ?case by simp
qed simp

text \<open>
  Property C3. Once a call has ended, by whatever side and in whatever state, the microphone, the silence timer, the
  relays, late callbacks and late signalling can do what they want: until the engine begins another call nothing more is
  played, and besides what was sent before only STUN leaves for the relays.
\<close>

theorem ended_call_is_silent:
  assumes "cm_currentCall (cm_run NewCallManager es) = Some c" "IsEnded c" "list_all (\<lambda>(en, i). \<not> begins i) fs"
  shows "heard (cm_run NewCallManager (es @ fs)) = heard (cm_run NewCallManager es)
    \<and> list_all (\<lambda>(r, b). IsStunPacket b \<or> b \<in> snd ` set (rm_sent (cm_relay (cm_run NewCallManager es))))
        (rm_sent (cm_relay (cm_run NewCallManager (es @ fs))))"
proof -
  let ?m = "cm_run NewCallManager es"
  have codec: "cm_codec ?m = None"
    using media_inv_run [of es] assms(1,2) by (simp add: media_inv_def media_part_def)
  have "sent_ok (snd ` set (rm_sent (cm_relay ?m))) (cm_relay ?m)" by (force simp: sent_ok_def)
  from no_codec_run [OF codec assms(3) this] show ?thesis
    by (simp add: sent_ok_def list_all_iff)
qed

theorem ended_call_is_silent_witness:
  "heard (cm_run NewCallManager ([(demo_env 5 ''me'', DoStart ''i'' ''you'' False), (demo_env 6 ''me'', DoEnd ''x'')]
     @ [(demo_env 7 ''me'', Feed (replicate 960 ()))]))
   = heard (cm_run NewCallManager [(demo_env 5 ''me'', DoStart ''i'' ''you'' False), (demo_env 6 ''me'', DoEnd ''x'')])"
proof -
  let ?c = "try_transition ((NewOutgoingCall 5 ''i'' ''you'' ''me'' CallMediaTypeAudio)
             \<lparr>ci_EncryptionKey := Some (replicate 32 9)\<rparr>) (5, transition TransitionOfferSent [])"
  let ?es = "[(demo_env 5 ''me'', DoStart ''i'' ''you'' False), (demo_env 6 ''me'', DoEnd ''x'')]"
  have start: "cm_currentCall (cm_step NewCallManager (demo_env 5 ''me'', DoStart ''i'' ''you'' False)) = Some ?c"
    using demo_start [of 5 "''me''" "''i''" "''you''" False] by simp
  have n: "\<not> IsEnded ?c"
    by (simp add: IsEnded_def try_transition_def ApplyTransition_def Let_def transition_def NewOutgoingCall_def)
  have "cm_currentCall (cm_run NewCallManager ?es) = Some (try_transition ?c (6, transition TransitionTerminated ''x''))"
    using start n by (simp add: EndCall_def Let_def cm_call)
  moreover have "IsEnded (try_transition ?c (6, transition TransitionTerminated ''x''))"
    using n by (simp add: IsEnded_def try_transition_def [of _ "(6, t)" for t] ApplyTransition_def [of 6] Let_def
        transition_def [of TransitionTerminated] split: option.split)
  ultimately show ?thesis
    using ended_call_is_silent [of ?es "try_transition ?c (6, transition TransitionTerminated ''x'')"
        "[(demo_env 7 ''me'', Feed (replicate 960 ()))]"] by (simp del: cm_run_simps)
qed

text \<open>
  Property C4. Nothing is sent in the clear. In a run of one call, from its begin on, everything the relay
  connections are handed is STUN or an SRTP packet protected with a context derived from that call's key; a call
  without a key sends no media at all.
\<close>

theorem wire_is_stun_or_encrypted:
  assumes "begins i" "list_all (\<lambda>(en, i). same_lib ks hk hm en) ((en, i) # es)" "list_all (\<lambda>(en, i). \<not> begins i) es"
    and "(r, b) \<in> set (rm_sent (cm_relay (cm_run NewCallManager ((en, i) # es))))"
  shows "IsStunPacket b \<or> (\<exists>c key. cm_currentCall (cm_run NewCallManager ((en, i) # es)) = Some c
     \<and> ci_EncryptionKey c = Some key \<and> b \<in> media_packets ks hk hm key)"
proof -
  have lib: "list_all (\<lambda>(en, i). same_lib ks hk hm en \<and> \<not> begins i) es"
    using assms(2,3) by (auto simp: list_all_iff)
  from wire_ok_begin [OF assms(1), of ks hk hm en] assms(2)
  consider (none) "cm_step NewCallManager (en, i) = NewCallManager"
    | (some) key where "wire_ok ks hk hm key (cm_step NewCallManager (en, i))" by auto
  then show ?thesis
  proof cases
    case none
    have "sent_ok {} (cm_relay (cm_run NewCallManager es))"
      by (rule no_codec_run [THEN conjunct2, THEN conjunct2])
        (use assms(3) in \<open>simp_all add: NewCallManager_def NewSctpRelayManager_def sent_ok_def\<close>)
    with assms(4) none show ?thesis by (auto simp: sent_ok_def)
  next
    case some
    from wire_ok_run [OF this lib] assms(4) show ?thesis
      by (cases key) (auto simp: wire_ok_def keys_ok_def sent_ok_def)
  qed
qed

lemma demo_open_step:
  assumes "rm_heap (cm_relay m) = hs @ [h]" "cn_channel h" "cn_state h = relayStateConnecting"
    "rm_connections (cm_relay m) = [(i, length hs)]"
  shows "HasConnection (cm_relay (cm_step m (en, RelayCallback (Opened (length hs)))))
    \<and> (\<exists>t. (length hs, BuildWhatsAppPing t) \<in> set (rm_sent (cm_relay (cm_step m (en, RelayCallback (Opened (length hs)))))))"
  using demo_open [OF assms, of "en_hmac en" "en_rand en"]
  by (simp add: on_callback_def Let_def cm_media del: relay_step.simps)

theorem wire_is_stun_or_encrypted_witness:
  "\<exists>t. (0, BuildWhatsAppPing t) \<in> set (rm_sent (cm_relay (cm_run NewCallManager
       [(demo_env 5 ''me'', DoStart ''i'' ''you'' False), (demo_env 6 ''me'', OnAck demo_ack),
        (demo_env 7 ''me'', RelayCallback (Opened 0))])))
     \<and> (IsStunPacket (BuildWhatsAppPing t) \<or> (\<exists>c key. cm_currentCall (cm_run NewCallManager
       [(demo_env 5 ''me'', DoStart ''i'' ''you'' False), (demo_env 6 ''me'', OnAck demo_ack),
        (demo_env 7 ''me'', RelayCallback (Opened 0))]) = Some c \<and> ci_EncryptionKey c = Some key
        \<and> BuildWhatsAppPing t \<in> media_packets (\<lambda>k v i. 0) (\<lambda>s t i n. replicate n 1) (\<lambda>k m. replicate 20 0) key))"
proof -
  let ?es = "[(demo_env 6 ''me'', OnAck demo_ack), (demo_env 7 ''me'', RelayCallback (Opened 0))]"
  let ?m = "cm_step NewCallManager (demo_env 5 ''me'', DoStart ''i'' ''you'' False)"
  have call: "\<exists>c. cm_currentCall ?m = Some c"
    using demo_start [of 5 "''me''" "''i''" "''you''" False] by simp
  have "cm_relay ?m = NewSctpRelayManager"
    by (simp add: StartCall_def NewCallManager_def start_new_def Let_def cm_media initCodec_def split: sum.split)
  then have r: "rm_connections (cm_relay ?m) = []" "rm_heap (cm_relay ?m) = []" by (simp_all add: NewSctpRelayManager_def)
  from call demo_ack_relay [of ?m _ 6 "''me''"] r obtain h where
    "rm_heap (cm_relay (HandleCallAck (demo_env 6 ''me'') ?m demo_ack)) = [] @ [h]" "cn_channel h"
    "cn_state h = relayStateConnecting"
    "rm_connections (cm_relay (HandleCallAck (demo_env 6 ''me'') ?m demo_ack)) = [(connID (rc_IP demo_cfg) 3478 ''0'', length ([] :: relayConnection list))]"
    by auto
  from demo_open_step [OF this, of "demo_env 7 ''me''"] obtain t where
    t: "(0, BuildWhatsAppPing t) \<in> set (rm_sent (cm_relay (cm_run NewCallManager
       ((demo_env 5 ''me'', DoStart ''i'' ''you'' False) # ?es))))" by auto
  have lib: "same_lib (\<lambda>k v i. 0) (\<lambda>s t i n. replicate n 1) (\<lambda>k m. replicate 20 0) (demo_env t me)" for t me
    by (simp add: same_lib_def demo_env_def)
  from t wire_is_stun_or_encrypted [OF _ _ _ t, of "\<lambda>k v i. 0" "\<lambda>s t i n. replicate n 1" "\<lambda>k m. replicate 20 0"] lib
  show ?thesis by (intro exI [of _ t] conjI) (simp_all del: cm_run_simps)
qed


end
