(* ===== verification/CallAudio.thy ===== *)
theory CallAudio
  imports CallEngine
begin

text \<open>
  The audio of a call: the captured samples are cut into frames the way a plain chunker would, however they arrive;
  two engines that share the call key hear each other; and what the engine does with relays and keys that come late.
\<close>

section \<open>Cutting into frames\<close>

text \<open>The reference: whole frames of \<open>n\<close> samples and the rest.\<close>

function frames :: "nat \<Rightarrow> 'a list \<Rightarrow> 'a list list \<times> 'a list" where
  "frames n xs =
     (if n = 0 \<or> length xs < n then ([], xs)
      else let (fs, r) = frames n (drop n xs) in (take n xs # fs, r))"
  by pat_completeness auto

termination frames
  by (relation "measure (\<lambda>(n, xs). length xs)") auto

declare frames.simps [simp del]

lemma frames_short: "length xs < n \<Longrightarrow> frames n xs = ([], xs)"
  by (simp add: frames.simps)

lemma frames_long:
  "0 < n \<Longrightarrow> length f = n \<Longrightarrow> frames n (f @ xs) = (let (fs, r) = frames n xs in (f # fs, r))"
  by (subst frames.simps) simp

lemma frames_spec:
  "0 < n \<Longrightarrow> frames n xs = (fs, r) \<Longrightarrow> concat fs @ r = xs \<and> list_all (\<lambda>f. length f = n) fs \<and> length r < n"
proof (induction n xs arbitrary: fs r rule: frames.induct)
  case (1 n xs)
  show ?case
  proof (cases "length xs < n")
    case True
    with 1(3) show ?thesis by (simp add: frames_short)
  next
    case False
    obtain gs s where gs: "frames n (drop n xs) = (gs, s)" by fastforce
    with 1(2,3) False have fs: "fs = take n xs # gs" "r = s" by (simp_all add: frames.simps [of n xs])
    from 1(1) [OF _ 1(2) gs] False 1(2) have
      "concat gs @ s = drop n xs" "list_all (\<lambda>f. length f = n) gs" "length s < n" by auto
    with fs False show ?thesis by simp
  qed
qed

lemma frames_append:
  "0 < n \<Longrightarrow> frames n (xs @ ys) =
     (let (fs, r) = frames n xs; (gs, s) = frames n (r @ ys) in (fs @ gs, s))"
proof (induction n xs rule: frames.induct)
  case (1 n xs)
  show ?case
  proof (cases "length xs < n")
    case True
    then show ?thesis by (simp add: frames_short split: prod.split)
  next
    case False
    have eq: "take n xs @ (drop n xs @ ys) = xs @ ys" by (metis append_assoc append_take_drop_id)
    have "frames n (xs @ ys) = (let (fs, r) = frames n (drop n xs @ ys) in (take n xs # fs, r))"
      using frames_long [of n "take n xs" "drop n xs @ ys", unfolded eq] 1(2) False by simp
    moreover have "frames n xs = (let (fs, r) = frames n (drop n xs) in (take n xs # fs, r))"
      using 1(2) False by (simp add: frames.simps [of n xs])
    ultimately show ?thesis using 1(1) 1(2) False by (simp split: prod.splits)
  qed
qed

definition captured :: "('j, 'c, 'p) CallManager \<Rightarrow> 'p list" where
  "captured m = (case cm_encodeBuf m of None \<Rightarrow> [] | Some b \<Rightarrow> take (cm_encodeBufPos m) b)"

text \<open>The state but for the frame buffer, whose unused tail holds old samples.\<close>

definition forget :: "('j, 'c, 'p) CallManager \<Rightarrow> ('j, 'c, 'p) CallManager" where
  "forget m = m\<lparr>cm_encodeBuf := None, cm_encodeBufPos := 0\<rparr>"

lemma forget_sets [simp]: "forget (m\<lparr>cm_encodeBuf := b, cm_encodeBufPos := p\<rparr>) = forget m" "forget (forget m) = forget m"
  by (simp_all add: forget_def)

lemma sendOpus_forget: "sendOpusFrameLocked en (forget m) opus = forget (sendOpusFrameLocked en m opus)"
  by (simp add: sendOpusFrameLocked_def forget_def Let_def split: option.split prod.split outcome.split)

lemma encode_forget: "encode_and_send en (forget m) f = forget (encode_and_send en m f)"
proof -
  have "(forget m)\<lparr>cm_codec := x\<rparr> = forget (m\<lparr>cm_codec := x\<rparr>)" for x by (simp add: forget_def)
  moreover have "cm_codec (forget m) = cm_codec m" by (simp add: forget_def)
  ultimately show ?thesis
    by (simp add: encode_and_send_def sendOpus_forget split: option.split prod.split sum.split)
qed

lemma foldl_forget: "foldl (encode_and_send en) (forget m) fs = forget (foldl (encode_and_send en) m fs)"
  by (induction fs arbitrary: m) (simp_all add: encode_forget)

lemma feed_loop_frames:
  "length buf = mlowFrameSize \<Longrightarrow> pos < mlowFrameSize \<Longrightarrow>
     (let (fs, rest) = frames mlowFrameSize (take pos buf @ data); m' = feed_loop en buf pos data m
      in forget m' = forget (foldl (encode_and_send en) m fs) \<and> captured m' = rest)"
proof (induction en buf pos data m rule: feed_loop.induct)
  case (1 en buf pos data m)
  define k where "k = min (length data) (mlowFrameSize - pos)"
  define buf1 where "buf1 = blit pos (take k data) buf"
  have fs: "0 < mlowFrameSize" by (simp add: mlowFrameSize_def)
  have k: "pos + k \<le> length buf" "k \<le> length data" using 1(2,3) by (auto simp: k_def)
  have buf1: "length buf1 = mlowFrameSize" "take (pos + k) buf1 = take pos buf @ take k data"
  proof -
    have b: "buf1 = take pos buf @ take k data @ drop (pos + k) buf"
      using k by (simp add: buf1_def blit_def)
    then show "take (pos + k) buf1 = take pos buf @ take k data" using k by simp
    show "length buf1 = mlowFrameSize" unfolding b using k 1(2) by simp
  qed
  show ?case
  proof (cases "data = []")
    case True
    with 1(2,3) show ?thesis
      by (subst feed_loop.simps) (simp add: frames_short captured_def)
  next
    case False
    show ?thesis
    proof (cases "pos + k < mlowFrameSize")
      case True
      then have all: "k = length data" using 1(2,3) k by (auto simp: k_def min_def split: if_splits)
      have "feed_loop en buf pos data m = m\<lparr>cm_encodeBuf := Some buf1, cm_encodeBufPos := pos + k\<rparr>"
        using False True by (subst feed_loop.simps) (simp add: Let_def k_def buf1_def)
      moreover have "frames mlowFrameSize (take pos buf @ data) = ([], take pos buf @ data)"
        using True all 1(2,3) by (intro frames_short) simp
      ultimately show ?thesis using buf1 all by (simp add: captured_def)
    next
      case full: False
      then have kk: "pos + k = mlowFrameSize" using k 1(2) by simp
      have step: "feed_loop en buf pos data m = feed_loop en buf1 0 (drop k data)
          (encode_and_send en m (NormalizeFrame (en_zero en) buf1 mlowFrameSize))"
        using False full by (subst feed_loop.simps) (simp add: Let_def k_def buf1_def)
      have norm: "NormalizeFrame (en_zero en) buf1 mlowFrameSize = buf1"
        using buf1 by (simp add: NormalizeFrame_def)
      have "take pos buf @ data = buf1 @ drop k data"
        using buf1 kk append_take_drop_id [of k data] by (metis append.assoc take_all_iff order_refl)
      then have fr: "frames mlowFrameSize (take pos buf @ data) =
          (let (fs, r) = frames mlowFrameSize (drop k data) in (buf1 # fs, r))"
        using frames_long [OF fs buf1(1), of "drop k data"] by simp
      have "length (blit pos (take (min (length data) (mlowFrameSize - pos)) data) buf) = mlowFrameSize"
        "\<not> pos + min (length data) (mlowFrameSize - pos) < mlowFrameSize"
        using buf1 full by (simp_all add: buf1_def k_def)
      from 1(1) [OF False refl refl refl this(2,1) fs] show ?thesis
        unfolding step fr norm by (simp add: k_def [symmetric] buf1_def [symmetric] norm split: prod.splits)
    qed
  qed
qed

lemma Broadcast_connection: "HasConnection (Broadcast r b) = HasConnection r"
  by (simp add: HasConnection_def Broadcast_def broadcast_heap broadcast_connections)

lemma sendOpus_ready: "media_ready m \<Longrightarrow> media_ready (sendOpusFrameLocked en m opus)"
  by (auto simp: media_ready_def sendOpusFrameLocked_def Let_def Broadcast_connection
      split: option.split prod.split outcome.split)

lemma encode_ready: "media_ready m \<Longrightarrow> media_ready (encode_and_send en m f)"
proof -
  assume r: "media_ready m"
  then have "media_ready (m\<lparr>cm_codec := Some x\<rparr>)" for x by (simp add: media_ready_def)
  then have "media_ready (sendOpusFrameLocked en (m\<lparr>cm_codec := Some x\<rparr>) opus)" for x opus
    by (rule sendOpus_ready)
  with r \<open>\<And>x. media_ready (m\<lparr>cm_codec := Some x\<rparr>)\<close> show ?thesis by (simp add: encode_and_send_def split: option.split prod.split sum.split)
qed

lemma foldl_ready: "media_ready m \<Longrightarrow> media_ready (foldl (encode_and_send en) m fs)"
  by (induction fs arbitrary: m) (simp_all add: encode_ready)

lemma forget_ready [simp]: "media_ready (forget m) = media_ready m"
  by (simp add: media_ready_def forget_def)

lemma capture_time:
  "cm_lastCaptureAt (encode_and_send en m f) = cm_lastCaptureAt m"
  by (simp add: encode_and_send_def sendOpusFrameLocked_def Let_def split: option.split prod.split sum.split outcome.split)

lemma foldl_capture_time: "cm_lastCaptureAt (foldl (encode_and_send en) m fs) = cm_lastCaptureAt m"
  by (induction fs arbitrary: m) (simp_all add: capture_time)

lemma Feed_frames:
  assumes ready: "media_ready m" and inv: "media_inv m"
  shows "let (fs, rest) = frames mlowFrameSize (captured m @ d); m' = FeedCapturedPCM en m d
    in forget m' = forget (foldl (encode_and_send en) (m\<lparr>cm_lastCaptureAt := en_now en\<rparr>) fs) \<and> captured m' = rest"
proof -
  have fs: "0 < mlowFrameSize" by (simp add: mlowFrameSize_def)
  show ?thesis
  proof (cases "cm_encodeBuf m")
    case None
    with ready feed_loop_frames [OF _ fs, of "replicate mlowFrameSize (en_zero en)" d en "m\<lparr>cm_lastCaptureAt := en_now en\<rparr>"]
    show ?thesis by (simp add: FeedCapturedPCM_def captured_def)
  next
    case (Some b)
    with inv have "length b = mlowFrameSize" "cm_encodeBufPos m < mlowFrameSize"
      by (simp_all add: media_inv_def media_part_def)
    with ready Some feed_loop_frames [OF this, of d en "m\<lparr>cm_lastCaptureAt := en_now en\<rparr>"]
    show ?thesis by (simp add: FeedCapturedPCM_def captured_def)
  qed
qed

lemma Feed_list_frames:
  assumes "media_ready m" "media_inv m" "cm_lastCaptureAt m = en_now en"
  shows "let (fs, rest) = frames mlowFrameSize (captured m @ concat ds); m' = foldl (FeedCapturedPCM en) m ds
    in forget m' = forget (foldl (encode_and_send en) m fs) \<and> captured m' = rest"
  using assms
proof (induction ds arbitrary: m)
  case Nil
  have "length (captured m) < mlowFrameSize"
    using Nil(2) by (auto simp: captured_def media_inv_def media_part_def mlowFrameSize_def split: option.splits)
  then show ?case by (simp add: frames_short)
next
  case (Cons d ds)
  let ?m = "FeedCapturedPCM en m d"
  have fs: "0 < mlowFrameSize" by (simp add: mlowFrameSize_def)
  obtain fs1 r1 where f1: "frames mlowFrameSize (captured m @ d) = (fs1, r1)" by fastforce
  obtain fs2 r2 where f2: "frames mlowFrameSize (r1 @ concat ds) = (fs2, r2)" by fastforce
  have t: "m\<lparr>cm_lastCaptureAt := en_now en\<rparr> = m" using Cons.prems(3) by simp
  from Feed_frames [OF Cons.prems(1,2), of d en] f1 t have
    one: "forget ?m = forget (foldl (encode_and_send en) m fs1)" "captured ?m = r1" by (simp_all add: Let_def)
  have "media_ready (forget ?m)" unfolding one(1) by (simp add: foldl_ready Cons.prems(1))
  then have "media_ready ?m" by simp
  moreover have "cm_lastCaptureAt (forget ?m) = en_now en"
    unfolding one(1) by (simp add: forget_def foldl_capture_time Cons.prems(3))
  then have "cm_lastCaptureAt ?m = en_now en" by (simp add: forget_def)
  moreover have "media_inv ?m" by (rule media_inv_feed [OF Cons.prems(2)])
  ultimately have two: "forget (foldl (FeedCapturedPCM en) ?m ds) = forget (foldl (encode_and_send en) ?m fs2)"
    "captured (foldl (FeedCapturedPCM en) ?m ds) = r2"
    using Cons.IH [of ?m] f2 one(2) by (simp_all add: Let_def)
  have "forget (foldl (encode_and_send en) ?m fs2) = forget (foldl (encode_and_send en) m (fs1 @ fs2))"
    by (simp add: foldl_forget [symmetric] one(1))
  moreover have "frames mlowFrameSize (captured m @ concat (d # ds)) = (fs1 @ fs2, r2)"
    using frames_append [OF fs, of "captured m @ d" "concat ds"] f1 f2 by simp
  ultimately show ?case using two by simp
qed

text \<open>
  However the microphone delivers the samples, in chunks of any sizes, the engine encodes and sends what
  it would have sent for the whole stream cut into frames of 960 samples, in order, none lost or doubled; the rest
  waits for the next chunk.
\<close>

theorem capture_cut_into_frames:
  assumes "media_ready m" "media_inv m" "ds \<noteq> []"
  shows "let (fs, rest) = frames mlowFrameSize (captured m @ concat ds); m' = foldl (FeedCapturedPCM en) m ds
    in forget m' = forget (foldl (encode_and_send en) (m\<lparr>cm_lastCaptureAt := en_now en\<rparr>) fs) \<and> captured m' = rest
     \<and> concat fs @ rest = captured m @ concat ds \<and> list_all (\<lambda>f. length f = 960) fs \<and> length rest < 960"
proof -
  let ?n = "m\<lparr>cm_lastCaptureAt := en_now en\<rparr>"
  obtain d ds' where ds: "ds = d # ds'" using assms(3) by (cases ds) auto
  have n: "media_ready ?n" "media_inv ?n" "cm_lastCaptureAt ?n = en_now en" "captured ?n = captured m"
    using assms by (simp_all add: media_ready_def media_inv_def media_part_def captured_def cong: option.case_cong)
  have "FeedCapturedPCM en m d = FeedCapturedPCM en ?n d"
    using assms(1) n(1) by (simp add: FeedCapturedPCM_def)
  then have "foldl (FeedCapturedPCM en) m ds = foldl (FeedCapturedPCM en) ?n ds" by (simp add: ds)
  moreover obtain fs r where "frames mlowFrameSize (captured m @ concat ds) = (fs, r)" by fastforce
  moreover from this have "concat fs @ r = captured m @ concat ds \<and> list_all (\<lambda>f. length f = 960) fs \<and> length r < 960"
    using frames_spec [of mlowFrameSize "captured m @ concat ds" fs r] by (simp add: mlowFrameSize_def)
  ultimately show ?thesis using Feed_list_frames [OF n(1-3), of ds] n(4) by simp
qed

text \<open>A state in the middle of a call, to evaluate at.\<close>

definition live_session :: SrtpSession where
  "live_session = (let c = \<lparr>sc_sessionKey = replicate 16 1, sc_sessionSalt = replicate 14 1, sc_authKey = replicate 20 1,
     sc_roc = 0, sc_lastSeq = 0, sc_initialized = False, sc_authTagLen = 4\<rparr> in \<lparr>ss_sendCtx = c, ss_recvCtx = c\<rparr>)"

definition live_call :: "(string, unit, unit) CallManager" where
  "live_call = NewCallManager\<lparr>cm_currentCall := Some (NewOutgoingCall 0 ''i'' ''you'' ''me'' CallMediaTypeAudio),
     cm_codec := Some (), cm_rtpSession := Some (NewWhatsAppOpusSession 5 6 7), cm_srtpSession := Some live_session,
     cm_relay := relay_run (\<lambda>k m. []) (\<lambda>k n. []) [Configure [(demo_cfg, Negotiated ''u'')], Opened 0]\<rparr>"

lemma live_call_ready: "media_ready live_call"
proof -
  have "HasConnection (relay_run (\<lambda>k m. []) (\<lambda>k n. []) [Configure [(demo_cfg, Negotiated ''u'')], Opened 0])"
    by (simp add: relay_run_def NewSctpRelayManager_def ConfigureRelays_def connectToRelay_def set_conn_def
        onOpen_def sendStunRegistration_def startKeepalive_def HasConnection_def Let_def)
  then show ?thesis by (simp add: media_ready_def live_call_def)
qed

lemma live_call_inv: "media_inv live_call"
  by (simp add: live_call_def media_inv_def media_part_def NewCallManager_def IsEnded_def NewOutgoingCall_def)

theorem capture_cut_into_frames_witness:
  "captured (foldl (FeedCapturedPCM (demo_env 9 ''me'')) live_call [replicate 700 (), replicate 300 ()]) = replicate 40 ()"
proof -
  have "frames mlowFrameSize (replicate 1000 ()) = ([replicate 960 ()], replicate 40 ())"
    using frames_long [of mlowFrameSize "replicate 960 ()" "replicate 40 ()"]
      frames_short [of "replicate 40 ()" mlowFrameSize]
    by (simp add: mlowFrameSize_def flip: replicate_add)
  moreover have "captured live_call = []" by (simp add: captured_def live_call_def NewCallManager_def)
  ultimately show ?thesis
    using capture_cut_into_frames [OF live_call_ready live_call_inv, of "[replicate 700 (), replicate 300 ()]" "demo_env 9 ''me''"]
    by (simp add: Let_def flip: replicate_add)
qed

section \<open>Relays and keys that have no effect\<close>

lemma parseRelay_raw: "ep \<in> set (parseRelay J n) \<Longrightarrow> ep_RawToken ep = None"
  by (auto simp: parseRelay_def Let_def RelayEndpoint_zero_def split: if_splits)

lemma ExtractRelayEndpoints_raw: "ep \<in> set (ExtractRelayEndpoints J n) \<Longrightarrow> ep_RawToken ep = None"
  by (auto simp: ExtractRelayEndpoints_def sortRelaysByRtt_def rtt.set_sort dest: parseRelay_raw split: if_splits)

lemma build_configs_raw: "(\<And>ep. ep \<in> set eps \<Longrightarrow> ep_RawToken ep = None) \<Longrightarrow> build_configs seen eps = []"
  by (induction eps arbitrary: seen) auto

lemma no_attribute_configs: "buildRelayConfigs (ExtractRelayEndpoints J n) = []"
  unfolding buildRelayConfigs_def by (rule build_configs_raw) (rule ExtractRelayEndpoints_raw)

text \<open>
  The relays named by attributes (the only form read from a transport message) never get a raw token, and the
  configuration of the connections leaves out every endpoint without one. So a transport message never connects
  a relay, although the acceptance of a call without relays is left waiting for one.
\<close>

theorem transport_relays_unusable:
  "buildRelayConfigs (ExtractRelayEndpoints J n) = [] \<and> cm_relay (HandleCallTransport en m node) = cm_relay m"
  by (simp add: HandleCallTransport_def connectRelays_def no_attribute_configs Let_def split: option.split)

text \<open>The session the keys are derived for, whatever session there was.\<close>

lemma initSrtp_session:
  assumes "hkdf_ok (en_hkdf en)" "cm_currentCall m = Some c" "ci_EncryptionKey c = Some key"
  shows "\<exists>s. NewSrtpSession (en_ks en) (DerivePerJidSrtpKey (en_hkdf en) key (our_device en (call_participants c)))
        (DerivePerJidSrtpKey (en_hkdf en) key (peer_device en m c)) SRTPSendAuthTagLen SRTPRecvAuthTagLen = Ret s
      \<and> initSrtpKeysLocked en m = m\<lparr>cm_srtpSession := Some s\<rparr>"
proof -
  obtain s where "NewSrtpSession (en_ks en) (DerivePerJidSrtpKey (en_hkdf en) key (our_device en (call_participants c)))
        (DerivePerJidSrtpKey (en_hkdf en) key (peer_device en m c)) SRTPSendAuthTagLen SRTPRecvAuthTagLen = Ret s"
    using derived_session [OF assms(1)] by metis
  then show ?thesis using assms(2,3) by (simp add: initSrtpKeysLocked_def Let_def)
qed

lemma accept_media_session:
  assumes "hkdf_ok (en_hkdf en)" "cm_currentCall m = Some c" "ci_EncryptionKey c = Some key"
  shows "\<exists>s. NewSrtpSession (en_ks en) (DerivePerJidSrtpKey (en_hkdf en) key (our_device en (call_participants c)))
        (DerivePerJidSrtpKey (en_hkdf en) key
          (if jid_String (en_J en) j = '''' then peer_device en (m\<lparr>cm_acceptedByJid := ''''\<rparr>) c
           else ensureDeviceJid (jid_String (en_J en) j)))
        SRTPSendAuthTagLen SRTPRecvAuthTagLen = Ret s
      \<and> cm_srtpSession (accept_media en m info j) = Some s"
proof -
  let ?c = "try_transition c (en_now en, transition TransitionRemoteAccepted [])"
  have same: "ci_EncryptionKey ?c = Some key" "call_participants ?c = call_participants c" "ci_PeerJid ?c = ci_PeerJid c"
    using same_call_fields [OF try_transition_same [of c "(en_now en, transition TransitionRemoteAccepted [])"]] assms(3)
    by (simp_all add: call_participants_def)
  obtain m5 where m5: "accept_media en m info j = initSrtpKeysLocked en m5"
    "cm_currentCall m5 = Some ?c" "cm_acceptedByJid m5 = jid_String (en_J en) j"
    using assms(2) by (simp add: accept_media_def Let_def cm_call split: sum.split option.split)
  have peer: "peer_device en m5 ?c = (if jid_String (en_J en) j = '''' then peer_device en (m\<lparr>cm_acceptedByJid := ''''\<rparr>) c
           else ensureDeviceJid (jid_String (en_J en) j))"
    using m5(3) same by (simp add: peer_device_def Let_def)
  from initSrtp_session [OF assms(1) m5(2) same(1)] show ?thesis
    unfolding m5(1) peer same(2) by auto
qed

lemma HandleCallAccept_session:
  "cm_currentCall m = Some c \<Longrightarrow> ExtractNodeInfo (en_J en) node = Some info \<Longrightarrow>
     cm_srtpSession (HandleCallAccept en m node j) = cm_srtpSession (accept_media en m info j)"
  by (simp add: HandleCallAccept_def Let_def cm_media split: option.split sum.split)

text \<open>
  The call key an accepting peer sends back is decrypted and then never used: whatever the socket decrypts, the
  SRTP session that the acceptance leaves is the one of our own call key, because the keys are derived again right
  after the session was set up with the peer's.
\<close>

theorem peer_key_has_no_effect:
  assumes "hkdf_ok (en_hkdf en)" "cm_currentCall m = Some c" "ci_EncryptionKey c = Some key"
    and "ExtractNodeInfo (en_J en) node = Some info" "jid_String (en_J en) j \<noteq> ''''"
  shows "\<exists>s. NewSrtpSession (en_ks en) (DerivePerJidSrtpKey (en_hkdf en) key (our_device en (call_participants c)))
        (DerivePerJidSrtpKey (en_hkdf en) key (ensureDeviceJid (jid_String (en_J en) j)))
        SRTPSendAuthTagLen SRTPRecvAuthTagLen = Ret s
      \<and> cm_srtpSession (HandleCallAccept (en\<lparr>en_sock := (en_sock en)\<lparr>DecryptCallKey := f\<rparr>\<rparr>) m node j) = Some s"
proof -
  let ?en = "en\<lparr>en_sock := (en_sock en)\<lparr>DecryptCallKey := f\<rparr>\<rparr>"
  have our: "our_device ?en ps = our_device en ps" for ps by (simp add: our_device_def ownCredJid_def Let_def)
  show ?thesis
    using accept_media_session [of ?en m c key j info] HandleCallAccept_session [of m c ?en node info j] assms
    by (auto simp: our)
qed

theorem peer_key_has_no_effect_witness:
  "\<forall>f. \<exists>s. cm_srtpSession (HandleCallAccept ((demo_env 9 ''me'')\<lparr>en_sock := (demo_sock ''me'')\<lparr>DecryptCallKey := f\<rparr>\<rparr>)
      (live_call\<lparr>cm_currentCall := Some ((NewOutgoingCall 0 ''i'' ''you'' ''me'' CallMediaTypeAudio)
         \<lparr>ci_EncryptionKey := Some (replicate 32 9)\<rparr>)\<rparr>)
      (Some (Node ''call'' [] (Nodes [Node ''accept'' [(''call-id'', AString ''i'')] NoContent]))) ''you'') = Some s"
proof
  fix f
  have "\<exists>info. ExtractNodeInfo (en_J (demo_env 9 ''me'')) (Some (Node ''call'' []
      (Nodes [Node ''accept'' [(''call-id'', AString ''i'')] NoContent]))) = Some info"
    by (simp add: ExtractNodeInfo_def Let_def)
  then obtain info where info: "ExtractNodeInfo (en_J (demo_env 9 ''me'')) (Some (Node ''call'' []
      (Nodes [Node ''accept'' [(''call-id'', AString ''i'')] NoContent]))) = Some info" by blast
  from peer_key_has_no_effect [OF _ _ _ info, of "live_call\<lparr>cm_currentCall := Some ((NewOutgoingCall 0 ''i'' ''you'' ''me'' CallMediaTypeAudio)
         \<lparr>ci_EncryptionKey := Some (replicate 32 9)\<rparr>)\<rparr>" _ "replicate 32 9" "''you''" f] show "\<exists>s. cm_srtpSession (HandleCallAccept ((demo_env 9 ''me'')\<lparr>en_sock := (demo_sock ''me'')\<lparr>DecryptCallKey := f\<rparr>\<rparr>)
      (live_call\<lparr>cm_currentCall := Some ((NewOutgoingCall 0 ''i'' ''you'' ''me'' CallMediaTypeAudio)
         \<lparr>ci_EncryptionKey := Some (replicate 32 9)\<rparr>)\<rparr>)
      (Some (Node ''call'' [] (Nodes [Node ''accept'' [(''call-id'', AString ''i'')] NoContent]))) ''you'') = Some s"
    by (auto simp: hkdf_ok_def demo_env_def demo_jids_def)
qed

section \<open>Two engines\<close>

text \<open>The packet that carries one frame of the codec.\<close>

definition frame_packet :: "('j, 'c, 'p) CallManager \<Rightarrow> RtpSession \<Rightarrow> bytes \<Rightarrow> RtpPacket \<times> RtpSession" where
  "frame_packet m rtp opus =
     (let (pkt, rtp1) = CreatePacketWithDuration rtp opus (int mlowFrameSize) (\<not> cm_firstPacketSent m)
      in (if cm_debeEnabled m
          then pkt\<lparr>rp_Header := (rp_Header pkt)\<lparr>rh_Extension := True, rh_ExtensionProfile := 0xbede, rh_ExtensionData := []\<rparr>\<rparr>
          else pkt, rtp1))"

lemma frame_packet_facts:
  assumes "frame_packet m rtp opus = (p, rtp1)" "rs_payloadType rtp = PayloadTypeWhatsAppOpus"
  shows "rtp_canonical (rp_Header p)" "rp_Payload p = opus" "rh_PayloadType (rp_Header p) = PayloadTypeWhatsAppOpus"
    "rh_Ssrc (rp_Header p) = rs_ssrc rtp" "rs_payloadType rtp1 = PayloadTypeWhatsAppOpus" "rs_ssrc rtp1 = rs_ssrc rtp"
  using assms by (auto simp: frame_packet_def CreatePacketWithDuration_def Let_def NewRtpHeader_def rtp_canonical_def
      csrc_consistent_def PayloadTypeWhatsAppOpus_def)

text \<open>The bytes \<open>sendOpusFrameLocked\<close> hands to the relays, when it does.\<close>

definition media_bytes :: "('j, 'c, 'p) Env \<Rightarrow> ('j, 'c, 'p) CallManager \<Rightarrow> bytes \<Rightarrow> bytes option" where
  "media_bytes en m opus =
     (case (cm_rtpSession m, cm_srtpSession m) of
        (Some rtp, Some s) \<Rightarrow>
          (case fst (SrtpSession_Protect (en_ks en) (en_hmac en) s (fst (frame_packet m rtp opus))) of
             Ret b \<Rightarrow> Some b | _ \<Rightarrow> None)
      | _ \<Rightarrow> None)"

lemma sendOpus_bytes:
  "cm_relay (sendOpusFrameLocked en m opus) =
     (case media_bytes en m opus of None \<Rightarrow> cm_relay m | Some b \<Rightarrow> Broadcast (cm_relay m) b)"
  by (auto simp: sendOpusFrameLocked_def media_bytes_def frame_packet_def Let_def split: option.split prod.split outcome.split)

lemma media_header:
  assumes "rtp_canonical h" "rh_PayloadType h = PayloadTypeWhatsAppOpus"
  shows "\<not> IsStunPacket (header_bytes h @ b)" "IsRtpPacket (header_bytes h @ b)" "12 \<le> length (header_bytes h @ b)"
    "(header_bytes h @ b) ! 1 AND 0x7f = PayloadTypeWhatsAppOpus" "get_u32be (drop 8 (header_bytes h @ b)) = rh_Ssrc h"
proof -
  show rtp: "IsRtpPacket (header_bytes h @ b)" by (rule IsRtpPacket_header [OF assms(1)])
  then show "\<not> IsStunPacket (header_bytes h @ b)" by (auto simp: IsRtpPacket_def IsStunPacket_def split: if_splits)
  show "12 \<le> length (header_bytes h @ b)" by (simp add: header_bytes_def)
  show "(header_bytes h @ b) ! 1 AND 0x7f = PayloadTypeWhatsAppOpus"
    using assms(2) by (simp add: header_bytes_def rtp_byte1_type PayloadTypeWhatsAppOpus_def)
  show "get_u32be (drop 8 (header_bytes h @ b)) = rh_Ssrc h"
    by (simp add: header_bytes_def put_u16be_def put_u32be_def [of "rh_Timestamp h"] get_put_u32be)
qed

text \<open>The receiving side: what is played of one frame, and the decoder's next state.\<close>

definition play :: "('j, 'c, 'p) Env \<Rightarrow> 'c \<Rightarrow> bytes \<Rightarrow> ('j, 'p) cm_event list \<times> 'c" where
  "play en c opus =
     (case en_decode en c opus of
        (Inl _, c1) \<Rightarrow> ([], c1)
      | (Inr pcm, c1) \<Rightarrow> ([PeerAudio (NormalizeFrame (en_zero en) pcm mlowFrameSize)], c1))"

fun play_all :: "('j, 'c, 'p) Env \<Rightarrow> 'c \<Rightarrow> bytes list \<Rightarrow> ('j, 'p) cm_event list \<times> 'c" where
  "play_all en c [] = ([], c)"
| "play_all en c (x # xs) = (let (es, c1) = play en c x; (fs, c2) = play_all en c1 xs in (es @ fs, c2))"

text \<open>Sender and receiver of one direction, in step.\<close>

definition linked :: "mac \<Rightarrow> ('j, 'c, 'p) CallManager \<Rightarrow> ('k, 'd, 'q) CallManager \<Rightarrow> bool" where
  "linked hm a b \<longleftrightarrow>
     (case (cm_rtpSession a, cm_srtpSession a, cm_srtpSession b) of
        (Some rtp, Some s, Some t) \<Rightarrow> rs_payloadType rtp = PayloadTypeWhatsAppOpus \<and> ctx_ok hm (ss_sendCtx s)
          \<and> in_sync (ss_sendCtx s) (ss_recvCtx t) \<and> rs_ssrc rtp \<noteq> cm_selfSsrc b
      | _ \<Rightarrow> False)"

lemma onRelayData_step:
  assumes "\<not> IsStunPacket d" "IsRtpPacket d" "12 \<le> length d" "d ! 1 AND 0x7f = PayloadTypeWhatsAppOpus"
    and "get_u32be (drop 8 d) \<noteq> cm_selfSsrc b" "cm_srtpSession b = Some t" "cm_codec b = Some c"
    and "Unprotect (en_ks en) (ss_recvCtx t) d = (Ret p, rc)" "rp_Payload p \<noteq> []"
  shows "cm_srtpSession (onRelayData en b d) = Some (t\<lparr>ss_recvCtx := rc\<rparr>)"
    "cm_codec (onRelayData en b d) = Some (snd (play en c (rp_Payload p)))"
    "heard (onRelayData en b d) = heard b @ fst (play en c (rp_Payload p))"
    "cm_selfSsrc (onRelayData en b d) = cm_selfSsrc b"
  using assms
  by (auto simp: onRelayData_def SrtpSession_Unprotect_def play_def heard_def emit_def Let_def not_less
      split: prod.split sum.split)

lemma hear_frame:
  assumes link: "linked (en_hmac ea) a b" and ks: "en_ks eb = en_ks ea" and opus: "opus \<noteq> []"
    and c: "cm_codec b = Some c"
  shows "\<exists>d. media_bytes ea a opus = Some d \<and> linked (en_hmac ea) (sendOpusFrameLocked ea a opus) (onRelayData eb b d)
     \<and> cm_codec (onRelayData eb b d) = Some (snd (play eb c opus))
     \<and> heard (onRelayData eb b d) = heard b @ fst (play eb c opus)"
proof -
  from link obtain rtp s t where a: "cm_rtpSession a = Some rtp" "cm_srtpSession a = Some s" "cm_srtpSession b = Some t"
    and l: "rs_payloadType rtp = PayloadTypeWhatsAppOpus" "ctx_ok (en_hmac ea) (ss_sendCtx s)"
      "in_sync (ss_sendCtx s) (ss_recvCtx t)" "rs_ssrc rtp \<noteq> cm_selfSsrc b"
    by (auto simp: linked_def split: option.splits)
  obtain p rtp1 where p: "frame_packet a rtp opus = (p, rtp1)" by fastforce
  note pf = frame_packet_facts [OF p l(1)]
  let ?seq = "rh_SequenceNumber (rp_Header p)"
  define c1 where "c1 = updateRoc (ss_sendCtx s) ?seq"
  define d where "d = protected_bytes (en_ks ea) (en_hmac ea) c1 p"
  have prot: "Protect (en_ks ea) (en_hmac ea) (ss_sendCtx s) p = (Ret d, c1)"
    using Protect_bytes [OF l(2), of p "en_ks ea"] pf(1) by (simp add: rtp_canonical_def c1_def d_def Let_def)
  have sync: "in_sync c1 (updateRoc (ss_recvCtx t) ?seq)" unfolding c1_def by (rule in_sync_updateRoc [OF l(3)])
  have ok1: "ctx_ok (en_hmac ea) c1" using l(2) by (simp add: c1_def)
  have unp: "Unprotect (en_ks eb) (ss_recvCtx t) d = (Ret p, updateRoc (ss_recvCtx t) ?seq)"
    unfolding d_def ks by (rule Unprotect_protected [OF ok1 sync pf(1)]) (simp add: pf opus)
  obtain body where d: "d = header_bytes (rp_Header p) @ body"
    by (simp add: d_def protected_bytes_def Let_def)
  note hdr = media_header [OF pf(1,3), of body]
  have step: "cm_srtpSession (onRelayData eb b d) = Some (t\<lparr>ss_recvCtx := updateRoc (ss_recvCtx t) ?seq\<rparr>)"
    "cm_codec (onRelayData eb b d) = Some (snd (play eb c (rp_Payload p)))"
    "heard (onRelayData eb b d) = heard b @ fst (play eb c (rp_Payload p))"
    "cm_selfSsrc (onRelayData eb b d) = cm_selfSsrc b"
    using onRelayData_step [of d b t c eb p] hdr l(4) a(3) c unp pf(2,4) opus unfolding d by simp_all
  have sent: "media_bytes ea a opus = Some d"
    using a p prot by (simp add: media_bytes_def SrtpSession_Protect_def)
  have snd: "cm_rtpSession (sendOpusFrameLocked ea a opus) = Some rtp1"
    "cm_srtpSession (sendOpusFrameLocked ea a opus) = Some (s\<lparr>ss_sendCtx := c1\<rparr>)"
    using a p prot by (auto simp: sendOpusFrameLocked_def frame_packet_def SrtpSession_Protect_def Let_def split: prod.splits)
  have "linked (en_hmac ea) (sendOpusFrameLocked ea a opus) (onRelayData eb b d)"
    using step(1,4) snd pf(5,6) l(4) ok1 sync by (simp add: linked_def)
  with sent step pf(2) show ?thesis by auto
qed

text \<open>One end sends the frames, the relays deliver them in order, the other end receives.\<close>

fun talk :: "('j, 'c, 'p) Env \<Rightarrow> ('k, 'd, 'q) Env \<Rightarrow> ('j, 'c, 'p) CallManager \<times> ('k, 'd, 'q) CallManager \<Rightarrow> bytes list
    \<Rightarrow> ('j, 'c, 'p) CallManager \<times> ('k, 'd, 'q) CallManager" where
  "talk ea eb (a, b) [] = (a, b)"
| "talk ea eb (a, b) (x # xs) =
     talk ea eb (sendOpusFrameLocked ea a x,
       case media_bytes ea a x of None \<Rightarrow> b | Some d \<Rightarrow> onRelayData eb b d) xs"

lemma talk_heard:
  assumes "linked (en_hmac ea) a b" "en_ks eb = en_ks ea" "[] \<notin> set os" "cm_codec b = Some c"
  shows "heard (snd (talk ea eb (a, b) os)) = heard b @ fst (play_all eb c os)"
  using assms
proof (induction os arbitrary: a b c)
  case (Cons x xs)
  then obtain d where d: "media_bytes ea a x = Some d"
    "linked (en_hmac ea) (sendOpusFrameLocked ea a x) (onRelayData eb b d)"
    "cm_codec (onRelayData eb b d) = Some (snd (play eb c x))"
    "heard (onRelayData eb b d) = heard b @ fst (play eb c x)"
    using hear_frame [of ea a b eb x c] by auto
  from Cons.IH [OF d(2) Cons.prems(2) _ d(3)] Cons.prems(3) d(1,4) show ?case by (simp split: prod.split)
qed simp



end
