(* ===== verification/Broker.thy ===== *)
theory Broker
  imports Prelude "HOL-Library.AList" "HOL-Library.Sublist"
begin

text \<open>
  The event broker of the server (\<^verbatim>\<open>cmd/server/broker.go\<close>): the table of live calls, the history of ended ones, and
  the browsers that listen to events. Each method is one function on the state; the clock is an argument. A channel
  is the list of the events waiting in it, bounded by its capacity; what \<^verbatim>\<open>serveSSE\<close> has written to the response is
  the list \<open>sb_out\<close>. An event is kept as the value that \<^verbatim>\<open>json.Marshal\<close> is given (it cannot fail on these values).
  Go iterates over a map in no fixed order; the model lists calls and subscribers in the order they were added, and
  no lemma depends on that order.
\<close>

section \<open>Data\<close>

datatype CallStatus = StatusStarting | StatusRinging | StatusConnected | StatusEnded

record CallRecord =
  cr_SessionID :: string
  cr_CallID :: string
  cr_Owner :: "string option"
  cr_Direction :: string
  cr_Peer :: string
  cr_StartedAt :: int
  cr_Status :: CallStatus
  cr_EndedAt :: "int option"
  cr_EndReason :: string

record AuthSnapshot =
  au_State :: string
  au_Paired :: bool
  au_QR :: string

record SessionInfo =
  si_ID :: string
  si_Name :: string
  si_JID :: string
  si_State :: string
  si_Paired :: bool

text \<open>The events, one constructor for each \<open>type\<close> of message; fields in the order of the source.\<close>

datatype broker_event =
    AuthStateEv string bool string "string option"
  | SessionListEv "SessionInfo list"
  | SessionQREv string string
  | CallStatusEv string string "string option" CallStatus string int
  | CallEndedEv string string "string option" string int
  | CallListEv "CallRecord list"
  | IncomingEv string string string string string int
  | IncomingClaimedEv string string string

record subscriber =
  sb_ref :: nat  \<comment> \<open>the address of the Go value\<close>
  sb_clientID :: string
  sb_ch :: "broker_event list"
  sb_out :: "broker_event list"  \<comment> \<open>what its HTTP response holds\<close>

record Broker =
  br_subs :: "subscriber list"
  br_next :: nat
  br_calls :: "(string \<times> CallRecord) list"
  br_history :: "CallRecord list"

definition NewBroker :: Broker where
  "NewBroker = \<lparr>br_subs = [], br_next = 0, br_calls = [], br_history = []\<rparr>"

section \<open>Subscribers\<close>

definition chan_cap :: nat where "chan_cap = 32"

definition subscribe :: "Broker \<Rightarrow> string \<Rightarrow> nat \<times> Broker" where
  "subscribe b clientID =
     (br_next b, b\<lparr>br_subs := br_subs b @ [\<lparr>sb_ref = br_next b, sb_clientID = clientID, sb_ch = [], sb_out = []\<rparr>],
                   br_next := Suc (br_next b)\<rparr>)"

definition unsubscribe :: "Broker \<Rightarrow> nat \<Rightarrow> Broker" where
  "unsubscribe b r = b\<lparr>br_subs := filter (\<lambda>s. sb_ref s \<noteq> r) (br_subs b)\<rparr>"

text \<open>A send with a \<open>default\<close> branch: a full channel loses the event.\<close>

definition offer :: "broker_event \<Rightarrow> subscriber \<Rightarrow> subscriber" where
  "offer ev s = (if length (sb_ch s) < chan_cap then s\<lparr>sb_ch := sb_ch s @ [ev]\<rparr> else s)"

definition broadcast :: "Broker \<Rightarrow> broker_event \<Rightarrow> Broker" where
  "broadcast b ev = b\<lparr>br_subs := map (offer ev) (br_subs b)\<rparr>"

definition emitTo :: "Broker \<Rightarrow> string \<Rightarrow> broker_event \<Rightarrow> Broker" where
  "emitTo b clientID ev =
     (if clientID = '''' then broadcast b ev
      else b\<lparr>br_subs := map (\<lambda>s. if sb_clientID s \<noteq> clientID then s else offer ev s) (br_subs b)\<rparr>)"

definition emitAuthState :: "Broker \<Rightarrow> string \<Rightarrow> string \<Rightarrow> AuthSnapshot \<Rightarrow> Broker" where
  "emitAuthState b clientID sessionID a =
     (if au_QR a \<noteq> '''' then emitTo b clientID (AuthStateEv sessionID (au_Paired a) (au_State a) (Some (au_QR a)))
      else broadcast b (AuthStateEv sessionID (au_Paired a) (au_State a) None))"

definition emitSessionList :: "Broker \<Rightarrow> SessionInfo list \<Rightarrow> Broker" where
  "emitSessionList b sessions = broadcast b (SessionListEv sessions)"

definition emitSessionQR :: "Broker \<Rightarrow> string \<Rightarrow> string \<Rightarrow> string \<Rightarrow> Broker" where
  "emitSessionQR b clientID sessionID qr = emitTo b clientID (SessionQREv sessionID qr)"

section \<open>Calls\<close>

definition broadcastCallList :: "Broker \<Rightarrow> Broker" where
  "broadcastCallList b = broadcast b (CallListEv (map snd (br_calls b)))"

definition upsertCall :: "Broker \<Rightarrow> CallRecord \<Rightarrow> Broker" where
  "upsertCall b r =
     broadcast (broadcastCallList (b\<lparr>br_calls := AList.update (cr_CallID r) r (br_calls b)\<rparr>))
       (CallStatusEv (cr_SessionID r) (cr_CallID r) (cr_Owner r) (cr_Status r) (cr_Peer r) (cr_StartedAt r))"

definition getCall :: "Broker \<Rightarrow> string \<Rightarrow> CallRecord option" where
  "getCall b i = map_of (br_calls b) i"

definition setOwner :: "Broker \<Rightarrow> string \<Rightarrow> string \<Rightarrow> bool \<times> Broker" where
  "setOwner b i owner =
     (case map_of (br_calls b) i of
        None \<Rightarrow> (False, b)
      | Some c \<Rightarrow>
          if cr_Owner c \<noteq> None \<and> cr_Owner c \<noteq> Some owner then (False, b)
          else (True, b\<lparr>br_calls := AList.update i (c\<lparr>cr_Owner := Some owner\<rparr>) (br_calls b)\<rparr>))"

definition ownerActiveCall :: "Broker \<Rightarrow> string \<Rightarrow> string" where
  "ownerActiveCall b owner =
     (if owner = '''' then ''''
      else case find (\<lambda>(i, c). cr_Owner c = Some owner \<and> cr_Status c \<noteq> StatusEnded) (br_calls b) of
             None \<Rightarrow> '''' | Some (i, c) \<Rightarrow> i)"

definition endCall :: "Broker \<Rightarrow> int \<Rightarrow> string \<Rightarrow> string \<Rightarrow> Broker" where
  "endCall b now i reason =
     (case map_of (br_calls b) i of
        None \<Rightarrow> b
      | Some c \<Rightarrow>
          let ended = c\<lparr>cr_Status := StatusEnded, cr_EndedAt := Some now, cr_EndReason := reason\<rparr>;
              b1 = b\<lparr>br_calls := AList.delete i (br_calls b), br_history := br_history b @ [ended]\<rparr>
          in broadcastCallList (broadcast b1 (CallEndedEv (cr_SessionID c) i (cr_Owner c) reason now)))"

definition emitIncoming :: "Broker \<Rightarrow> int \<Rightarrow> string \<Rightarrow> string \<Rightarrow> string \<Rightarrow> string \<Rightarrow> string \<Rightarrow> Broker" where
  "emitIncoming b now sessionID i peer phone name = broadcast b (IncomingEv sessionID i peer phone name now)"

definition emitIncomingClaimed :: "Broker \<Rightarrow> string \<Rightarrow> string \<Rightarrow> string \<Rightarrow> Broker" where
  "emitIncomingClaimed b sessionID i owner = broadcast b (IncomingClaimedEv sessionID i owner)"

text \<open>The loop over the history from its end; \<open>i\<close> counts the rows not looked at yet.\<close>

fun history_loop :: "CallRecord list \<Rightarrow> string \<Rightarrow> nat \<Rightarrow> CallRecord list \<Rightarrow> nat \<Rightarrow> CallRecord list" where
  "history_loop h sessionID limit rows 0 = rows"
| "history_loop h sessionID limit rows (Suc i) =
     (if length rows < limit then
        history_loop h sessionID limit
          (if sessionID = '''' \<or> cr_SessionID (h ! i) = sessionID then rows @ [h ! i] else rows) i
      else rows)"

text \<open>\<^verbatim>\<open>make\<close> panics on a negative capacity.\<close>

definition historyRows :: "Broker \<Rightarrow> string \<Rightarrow> int \<Rightarrow> (string, CallRecord list) outcome" where
  "historyRows b sessionID limit =
     (if limit < 0 then Panic
      else Ret (history_loop (br_history b) sessionID (nat limit) [] (length (br_history b))))"

section \<open>The event stream of a browser\<close>

definition at_sub :: "nat \<Rightarrow> (subscriber \<Rightarrow> subscriber) \<Rightarrow> Broker \<Rightarrow> Broker" where
  "at_sub r f b = b\<lparr>br_subs := map (\<lambda>s. if sb_ref s = r then f s else s) (br_subs b)\<rparr>"

text \<open>
  \<^verbatim>\<open>serveSSE\<close> is its opening (\<open>snapshot\<close> is what \<^verbatim>\<open>SnapshotFn\<close> returns), then one step for each event taken from the
  channel; it unsubscribes when the request ends or a write fails.
\<close>

definition serveSSE_open :: "Broker \<Rightarrow> string \<Rightarrow> broker_event list \<Rightarrow> Broker" where
  "serveSSE_open b clientID snapshot =
     (let (r, b1) = subscribe b clientID
      in broadcastCallList (at_sub r (\<lambda>s. s\<lparr>sb_out := sb_out s @ snapshot\<rparr>) b1))"

definition receive :: "subscriber \<Rightarrow> subscriber" where
  "receive s = (case sb_ch s of [] \<Rightarrow> s | ev # rest \<Rightarrow> s\<lparr>sb_ch := rest, sb_out := sb_out s @ [ev]\<rparr>)"

definition serveSSE_next :: "Broker \<Rightarrow> nat \<Rightarrow> Broker" where
  "serveSSE_next b r = at_sub r receive b"

text \<open>The operations of the broker as inputs of one machine.\<close>

datatype broker_op =
    OpenStream string "SessionInfo list"  \<comment> \<open>a client and the snapshot of the sessions\<close>
  | NextEvent nat
  | CloseStream nat
  | EmitAuth string string AuthSnapshot
  | EmitSessions "SessionInfo list"
  | EmitQR string string string
  | Upsert CallRecord
  | SetOwner string string
  | Finish int string string
  | EmitIncoming int string string string string string
  | EmitClaimed string string string

fun br_step :: "Broker \<Rightarrow> broker_op \<Rightarrow> Broker" where
  "br_step b (OpenStream c infos) = serveSSE_open b c [SessionListEv infos]"
| "br_step b (NextEvent r) = serveSSE_next b r"
| "br_step b (CloseStream r) = unsubscribe b r"
| "br_step b (EmitAuth c i a) = emitAuthState b c i a"
| "br_step b (EmitSessions infos) = emitSessionList b infos"
| "br_step b (EmitQR c i qr) = emitSessionQR b c i qr"
| "br_step b (Upsert r) = upsertCall b r"
| "br_step b (SetOwner i owner) = snd (setOwner b i owner)"
| "br_step b (Finish now i reason) = endCall b now i reason"
| "br_step b (EmitIncoming now s i p ph n) = emitIncoming b now s i p ph n"
| "br_step b (EmitClaimed s i owner) = emitIncomingClaimed b s i owner"

definition br_run :: "Broker \<Rightarrow> broker_op list \<Rightarrow> Broker" where
  "br_run b ops = foldl br_step b ops"

lemma br_run_simps [simp]: "br_run b [] = b" "br_run b (x # xs) = br_run (br_step b x) xs"
  by (simp_all add: br_run_def)

section \<open>Bounded channels\<close>

text \<open>
  A channel written without waiting: the sender never blocks, and what does not fit is lost. Whatever its
  representation, a burst is cut at the capacity.
\<close>

locale lossy_channel =
  fixes put :: "'e \<Rightarrow> 'q \<Rightarrow> 'q"
    and waiting :: "'q \<Rightarrow> 'e list"
    and cap :: nat
  assumes waiting_put: "waiting (put e q) = (if length (waiting q) < cap then waiting q @ [e] else waiting q)"
begin

lemma waiting_burst: "length (waiting q) \<le> cap \<Longrightarrow> waiting (fold put es q) = take cap (waiting q @ es)"
proof (induction es arbitrary: q)
  case (Cons e es)
  then show ?case
    by (cases "length (waiting q) < cap") (simp_all add: waiting_put take_Cons' Suc_le_eq)
qed simp

lemma waiting_le: "length (waiting q) \<le> cap \<Longrightarrow> length (waiting (fold put es q)) \<le> cap"
  by (simp add: waiting_burst)

lemma burst_kept:
  assumes "length (waiting q) \<le> cap"
  obtains zs where "waiting (fold put es q) = waiting q @ zs" "subseq zs es"
    "length (waiting q) + length es \<le> cap \<Longrightarrow> zs = es"
proof
  show "waiting (fold put es q) = waiting q @ take (cap - length (waiting q)) es"
    using assms by (simp add: waiting_burst)
  show "subseq (take (cap - length (waiting q)) es) es"
    by (metis append_take_drop_id subseq_append_iff subseq_order.order_refl list_emb_Nil append_Nil2)
qed simp

end

interpretation chan: lossy_channel offer sb_ch chan_cap
  by unfold_locales (simp add: offer_def)

lemma offer_rest [simp]:
  "sb_ref (offer ev s) = sb_ref s" "sb_clientID (offer ev s) = sb_clientID s" "sb_out (offer ev s) = sb_out s"
  by (simp_all add: offer_def)

lemma burst_rest [simp]:
  "sb_ref (fold offer evs s) = sb_ref s" "sb_clientID (fold offer evs s) = sb_clientID s"
  "sb_out (fold offer evs s) = sb_out s"
  by (induction evs arbitrary: s) simp_all

lemma receive_rest [simp]: "sb_ref (receive s) = sb_ref s" "sb_clientID (receive s) = sb_clientID s"
  by (simp_all add: receive_def split: list.split)

text \<open>What a subscriber has been given: the part already written and the part waiting.\<close>

definition stream :: "subscriber \<Rightarrow> broker_event list" where
  "stream s = sb_out s @ sb_ch s"

lemma stream_receive [simp]: "stream (receive s) = stream s"
  by (simp add: stream_def receive_def split: list.split)

lemma receive_length: "length (sb_ch (receive s)) \<le> length (sb_ch s)"
  by (simp add: receive_def split: list.split)

lemma receive_le [simp]: "length (sb_ch s) \<le> n \<Longrightarrow> length (sb_ch (receive s)) \<le> n"
  by (rule le_trans [OF receive_length])

section \<open>What each operation sends\<close>

definition to_client :: "string \<Rightarrow> string \<Rightarrow> broker_event \<Rightarrow> broker_event list" where
  "to_client target c ev = (if target = '''' \<or> target = c then [ev] else [])"

fun emitted :: "string \<Rightarrow> Broker \<Rightarrow> broker_op \<Rightarrow> broker_event list" where
  "emitted c b (OpenStream _ _) = [CallListEv (map snd (br_calls b))]"
| "emitted c b (EmitAuth t i a) =
     (if au_QR a \<noteq> '''' then to_client t c (AuthStateEv i (au_Paired a) (au_State a) (Some (au_QR a)))
      else [AuthStateEv i (au_Paired a) (au_State a) None])"
| "emitted c b (EmitSessions infos) = [SessionListEv infos]"
| "emitted c b (EmitQR t i qr) = to_client t c (SessionQREv i qr)"
| "emitted c b (Upsert r) =
     [CallListEv (map snd (AList.update (cr_CallID r) r (br_calls b))),
      CallStatusEv (cr_SessionID r) (cr_CallID r) (cr_Owner r) (cr_Status r) (cr_Peer r) (cr_StartedAt r)]"
| "emitted c b (Finish now i reason) =
     (case map_of (br_calls b) i of
        None \<Rightarrow> []
      | Some r \<Rightarrow> [CallEndedEv (cr_SessionID r) i (cr_Owner r) reason now,
                  CallListEv (map snd (AList.delete i (br_calls b)))])"
| "emitted c b (EmitIncoming now s i p ph n) = [IncomingEv s i p ph n now]"
| "emitted c b (EmitClaimed s i owner) = [IncomingClaimedEv s i owner]"
| "emitted c b _ = []"

fun emissions :: "string \<Rightarrow> Broker \<Rightarrow> broker_op list \<Rightarrow> broker_event list" where
  "emissions c b [] = []"
| "emissions c b (x # xs) = emitted c b x @ emissions c (br_step b x) xs"

definition opened :: "Broker \<Rightarrow> broker_op \<Rightarrow> subscriber list" where
  "opened b x = (case x of
     OpenStream c infos \<Rightarrow> [\<lparr>sb_ref = br_next b, sb_clientID = c, sb_ch = [], sb_out = [SessionListEv infos]\<rparr>]
   | _ \<Rightarrow> [])"

lemma broadcast_subs: "br_subs (broadcast b ev) = map (fold offer [ev]) (br_subs b)"
  by (simp add: broadcast_def)

lemma broadcast_rest [simp]:
  "br_calls (broadcast b ev) = br_calls b" "br_history (broadcast b ev) = br_history b"
  "br_next (broadcast b ev) = br_next b"
  by (simp_all add: broadcast_def)

lemma emitTo_subs: "br_subs (emitTo b t ev) = map (\<lambda>s. fold offer (to_client t (sb_clientID s) ev) s) (br_subs b)"
  by (auto simp: emitTo_def broadcast_subs to_client_def)

lemma emitTo_rest [simp]:
  "br_calls (emitTo b t ev) = br_calls b" "br_history (emitTo b t ev) = br_history b" "br_next (emitTo b t ev) = br_next b"
  by (simp_all add: emitTo_def)

lemmas br_defs = emitAuthState_def emitSessionList_def emitSessionQR_def broadcastCallList_def upsertCall_def
  setOwner_def endCall_def emitIncoming_def emitIncomingClaimed_def unsubscribe_def serveSSE_open_def subscribe_def
  serveSSE_next_def at_sub_def

lemma subs_step:
  assumes "\<forall>s \<in> set (br_subs b). sb_ref s < br_next b" "\<nexists>r. x = CloseStream r" "\<nexists>r. x = NextEvent r"
  shows "br_subs (br_step b x) =
    map (\<lambda>s. fold offer (emitted (sb_clientID s) b x) s) (br_subs b @ opened b x)"
  using assms
  by (cases x) (auto simp: br_defs broadcast_subs emitTo_subs opened_def Let_def intro!: map_idI split: option.split)

lemma next_step: "br_next (br_step b x) = br_next b + length (opened b x)"
  by (cases x) (auto simp: br_defs opened_def Let_def split: option.split)

section \<open>Invariant\<close>

definition call_entry_ok :: "string \<times> CallRecord \<Rightarrow> bool" where
  "call_entry_ok e \<longleftrightarrow> cr_CallID (snd e) = fst e"

definition ended_ok :: "CallRecord \<Rightarrow> bool" where
  "ended_ok r \<longleftrightarrow> cr_Status r = StatusEnded \<and> cr_EndedAt r \<noteq> None"

definition subs_ok :: "Broker \<Rightarrow> bool" where
  "subs_ok b \<longleftrightarrow> distinct (map sb_ref (br_subs b))
     \<and> list_all (\<lambda>s. sb_ref s < br_next b \<and> length (sb_ch s) \<le> chan_cap) (br_subs b)"

definition calls_ok :: "Broker \<Rightarrow> bool" where
  "calls_ok b \<longleftrightarrow> distinct (map fst (br_calls b)) \<and> list_all call_entry_ok (br_calls b)
     \<and> list_all ended_ok (br_history b)"

definition br_inv :: "Broker \<Rightarrow> bool" where
  "br_inv b \<longleftrightarrow> subs_ok b \<and> calls_ok b"

lemma br_inv_new: "br_inv NewBroker"
  by (simp add: br_inv_def subs_ok_def calls_ok_def NewBroker_def)

lemma list_all_update:
  "list_all P xs \<Longrightarrow> P (k, v) \<Longrightarrow> list_all P (AList.update k v xs)"
  by (induction xs) auto

lemma list_all_delete: "list_all P xs \<Longrightarrow> list_all P (AList.delete k xs)"
  by (auto simp: list_all_iff AList.delete_eq)

lemma map_of_entry: "list_all call_entry_ok xs \<Longrightarrow> map_of xs i = Some c \<Longrightarrow> cr_CallID c = i"
  by (auto simp: list_all_iff call_entry_ok_def dest!: map_of_SomeD)

lemma calls_ok_step: "calls_ok b \<Longrightarrow> calls_ok (br_step b x)"
  by (cases x)
     (auto simp: calls_ok_def br_defs Let_def call_entry_ok_def ended_ok_def distinct_update distinct_delete
        map_of_entry intro!: list_all_update list_all_delete split: option.split if_splits)

lemma subs_ok_plain:
  assumes "subs_ok b" "\<nexists>r. x = CloseStream r" "\<nexists>r. x = NextEvent r"
  shows "subs_ok (br_step b x)"
proof -
  have new: "list_all (\<lambda>s. sb_ref s = br_next b \<and> sb_ch s = []) (opened b x)" "length (opened b x) \<le> 1"
    by (simp_all add: opened_def split: broker_op.split)
  have all: "list_all (\<lambda>s. sb_ref s < br_next (br_step b x) \<and> length (sb_ch s) \<le> chan_cap) (br_subs b @ opened b x)"
    using assms(1) new by (cases "opened b x") (auto simp: subs_ok_def next_step list_all_iff)
  have dist: "distinct (map sb_ref (br_subs b @ opened b x))"
    using assms(1) new by (cases "opened b x") (auto simp: subs_ok_def list_all_iff)
  have "br_subs (br_step b x) = map (\<lambda>s. fold offer (emitted (sb_clientID s) b x) s) (br_subs b @ opened b x)"
    using assms by (intro subs_step) (auto simp: subs_ok_def list_all_iff)
  then show ?thesis using all dist
    by (auto simp: subs_ok_def comp_def list_all_iff chan.waiting_le distinct_map inj_on_def simp flip: map_append)
qed

lemma subs_ok_step: "subs_ok b \<Longrightarrow> subs_ok (br_step b x)"
proof (cases "(\<exists>r. x = CloseStream r) \<or> (\<exists>r. x = NextEvent r)")
  case False
  assume "subs_ok b" with False show ?thesis by (intro subs_ok_plain) auto
next
  case True
  assume "subs_ok b"
  with True show ?thesis
    by (auto simp: subs_ok_def br_defs list_all_iff comp_def distinct_map_filter if_distrib cong: if_cong)
qed

interpretation brm: guarded_machine br_step br_inv
  by unfold_locales (simp add: br_inv_def subs_ok_step calls_ok_step)

lemma br_inv_run: "br_inv b \<Longrightarrow> br_inv (br_run b xs)"
  by (simp add: br_run_def brm.run_inv)

section \<open>The stream of one subscriber\<close>

definition grows :: "subscriber \<Rightarrow> broker_event list \<Rightarrow> subscriber \<Rightarrow> bool" where
  "grows s evs s' \<longleftrightarrow> sb_clientID s' = sb_clientID s \<and> sb_ref s' = sb_ref s
     \<and> length (sb_ch s') \<le> length (sb_ch s) + length evs
     \<and> (\<exists>zs. stream s' = stream s @ zs \<and> subseq zs evs \<and> (length (sb_ch s) + length evs \<le> chan_cap \<longrightarrow> zs = evs))"

lemma grows_refl: "grows s [] s"
  by (simp add: grows_def)

lemma grows_receive: "grows s [] (receive s)"
  by (simp add: grows_def receive_length)

lemma grows_burst:
  assumes "length (sb_ch s) \<le> chan_cap"
  shows "grows s evs (fold offer evs s)"
proof -
  obtain zs where zs: "sb_ch (fold offer evs s) = sb_ch s @ zs" "subseq zs evs"
    "length (sb_ch s) + length evs \<le> chan_cap \<Longrightarrow> zs = evs"
    using chan.burst_kept [OF assms] by metis
  moreover have "length zs \<le> length evs" using zs(2) by (rule list_emb_length)
  ultimately show ?thesis by (auto simp: grows_def stream_def)
qed

lemma grows_trans:
  assumes "grows s evs t" "grows t evs' u"
  shows "grows s (evs @ evs') u"
proof -
  obtain zs zs' where "stream t = stream s @ zs" "subseq zs evs" "stream u = stream t @ zs'" "subseq zs' evs'"
    "length (sb_ch s) + length evs \<le> chan_cap \<longrightarrow> zs = evs" "length (sb_ch t) + length evs' \<le> chan_cap \<longrightarrow> zs' = evs'"
    using assms by (auto simp: grows_def)
  then show ?thesis using assms
    by (auto simp: grows_def intro!: exI [of _ "zs @ zs'"] list_emb_append_mono)
qed

lemma step_grows:
  assumes "br_inv b" "s' \<in> set (br_subs (br_step b x))"
  obtains s where "s \<in> set (br_subs b @ opened b x)" "grows s (emitted (sb_clientID s) b x) s'"
proof -
  have ok: "length (sb_ch s) \<le> chan_cap" "sb_ref s < br_next b" if "s \<in> set (br_subs b)" for s
    using assms(1) that by (auto simp: br_inv_def subs_ok_def list_all_iff)
  consider r where "x = CloseStream r" | r where "x = NextEvent r" | "\<nexists>r. x = CloseStream r" "\<nexists>r. x = NextEvent r"
    by blast
  then show ?thesis
  proof cases
    case 1
    then have "s' \<in> set (br_subs b)" using assms(2) by (simp add: br_defs)
    then show ?thesis by (intro that [of s']) (simp_all add: 1 grows_refl)
  next
    case 2
    then obtain s where s: "s \<in> set (br_subs b)" "s' = (if sb_ref s = r then receive s else s)"
      using assms(2) by (auto simp: br_defs)
    then show ?thesis by (intro that [of s]) (simp_all add: 2 grows_refl grows_receive)
  next
    case 3
    then obtain s where s: "s \<in> set (br_subs b @ opened b x)" "s' = fold offer (emitted (sb_clientID s) b x) s"
      using assms(2) by (auto simp: subs_step ok(2))
    then have "length (sb_ch s) \<le> chan_cap"
      by (auto simp: ok(1) opened_def split: broker_op.splits)
    with s show ?thesis by (intro that [of s]) (auto intro: grows_burst)
  qed
qed

lemma opened_ref: "s \<in> set (opened b x) \<Longrightarrow> sb_ref s = br_next b"
  by (auto simp: opened_def split: broker_op.splits)

lemma run_grows:
  assumes "br_inv b" "s' \<in> set (br_subs (br_run b xs))" "sb_ref s' < br_next b"
  shows "\<exists>s \<in> set (br_subs b). grows s (emissions (sb_clientID s) b xs) s'"
  using assms
proof (induction xs arbitrary: b)
  case Nil
  then show ?case by (auto intro: grows_refl)
next
  case (Cons x xs)
  have "sb_ref s' < br_next (br_step b x)" using Cons.prems(3) by (simp add: next_step)
  then obtain t where t: "t \<in> set (br_subs (br_step b x))" "grows t (emissions (sb_clientID t) (br_step b x) xs) s'"
    using Cons.IH [of "br_step b x"] Cons.prems by (auto simp: brm.step_inv)
  have "sb_ref t < br_next b" using t(2) Cons.prems(3) by (simp add: grows_def)
  then obtain s where s: "s \<in> set (br_subs b)" "grows s (emitted (sb_clientID s) b x) t"
    using step_grows [OF Cons.prems(1) t(1)] by (metis grows_def opened_ref set_append Un_iff less_irrefl)
  then have "sb_clientID t = sb_clientID s" by (simp add: grows_def)
  then show ?case using s grows_trans [OF s(2) t(2)] by auto
qed

section \<open>Properties\<close>

text \<open>
  Property C36. A browser that listens gets the events sent to it, in order: what it was given before, then a
  subsequence of what the operations sent to its client. At most 32 events wait for it; as long as the waiting ones
  and the new ones are no more than 32 together, none is lost.
\<close>

theorem subscriber_stream:
  assumes "br_inv b" "s' \<in> set (br_subs (br_run b xs))" "sb_ref s' < br_next b"
  shows "length (sb_ch s') \<le> chan_cap
    \<and> (\<exists>s \<in> set (br_subs b). sb_ref s = sb_ref s' \<and> sb_clientID s = sb_clientID s'
        \<and> (\<exists>zs. stream s' = stream s @ zs \<and> subseq zs (emissions (sb_clientID s) b xs)
            \<and> (length (sb_ch s) + length (emissions (sb_clientID s) b xs) \<le> chan_cap
                \<longrightarrow> zs = emissions (sb_clientID s) b xs)))"
proof -
  have "length (sb_ch s') \<le> chan_cap"
    using br_inv_run [OF assms(1), of xs] assms(2) by (auto simp: br_inv_def subs_ok_def list_all_iff)
  then show ?thesis using run_grows [OF assms] by (auto simp: grows_def)
qed

fun reveals :: "string \<Rightarrow> broker_event \<Rightarrow> bool" where
  "reveals q (SessionQREv _ q') = (q' = q)"
| "reveals q (AuthStateEv _ _ _ oq) = (oq = Some q)"
| "reveals q _ = False"

text \<open>The client an operation shows a pairing code to.\<close>

fun shows_code :: "string \<Rightarrow> broker_op \<Rightarrow> string option" where
  "shows_code q (EmitAuth c i a) = (if au_QR a = q \<and> q \<noteq> '''' then Some c else None)"
| "shows_code q (EmitQR c i q') = (if q' = q then Some c else None)"
| "shows_code q _ = None"

definition may_see :: "string \<Rightarrow> broker_op list \<Rightarrow> string \<Rightarrow> bool" where
  "may_see q xs c \<longleftrightarrow> (\<exists>x \<in> set xs. shows_code q x = Some c \<or> shows_code q x = Some '''')"

lemma emitted_reveals:
  "ev \<in> set (emitted c b x) \<Longrightarrow> reveals q ev \<Longrightarrow> shows_code q x = Some c \<or> shows_code q x = Some ''''"
  by (cases x) (auto simp: to_client_def split: if_splits option.splits)

lemma opened_reveals: "s \<in> set (opened b x) \<Longrightarrow> ev \<in> set (stream s) \<Longrightarrow> \<not> reveals q ev"
  by (auto simp: opened_def stream_def split: broker_op.splits)

definition discreet :: "string \<Rightarrow> (string \<Rightarrow> bool) \<Rightarrow> Broker \<Rightarrow> bool" where
  "discreet q ok b \<longleftrightarrow> (\<forall>s \<in> set (br_subs b). \<forall>ev \<in> set (stream s). reveals q ev \<longrightarrow> ok (sb_clientID s))"

lemma discreet_step:
  assumes "br_inv b" "discreet q ok b" "\<And>c. shows_code q x = Some c \<or> shows_code q x = Some '''' \<Longrightarrow> ok c"
  shows "discreet q ok (br_step b x)"
  unfolding discreet_def
proof (intro ballI impI)
  fix s' ev
  assume s': "s' \<in> set (br_subs (br_step b x))" and ev: "ev \<in> set (stream s')" "reveals q ev"
  obtain s where s: "s \<in> set (br_subs b @ opened b x)" "grows s (emitted (sb_clientID s) b x) s'"
    using step_grows [OF assms(1) s'] by blast
  then have "ev \<in> set (stream s) \<or> ev \<in> set (emitted (sb_clientID s) b x)" "sb_clientID s' = sb_clientID s"
    using ev(1) by (auto simp: grows_def dest: list_emb_set)
  then show "ok (sb_clientID s')"
    using s(1) ev(2) assms(2,3) emitted_reveals opened_reveals unfolding discreet_def
    by (metis Un_iff set_append)
qed


text \<open>Two browsers, one of which pairs a session.\<close>

definition demo_ops :: "broker_op list" where
  "demo_ops = [OpenStream ''ana'' [], OpenStream ''bob'' [], EmitQR ''bob'' ''s1'' ''code'']"

definition demo_calls :: broker_event where "demo_calls = CallListEv []"

lemma demo_streams:
  "map (\<lambda>s. (sb_ref s, sb_clientID s, sb_out s, sb_ch s)) (br_subs (br_run NewBroker demo_ops)) =
     [(0, ''ana'', [SessionListEv []], [demo_calls, demo_calls]),
      (1, ''bob'', [SessionListEv []], [demo_calls, SessionQREv ''s1'' ''code''])]"
  by (simp add: demo_ops_def demo_calls_def NewBroker_def br_defs broadcast_def emitTo_def offer_def chan_cap_def)


theorem subscriber_stream_witness:
  "\<exists>s' \<in> set (br_subs (br_run NewBroker demo_ops)). length (sb_ch s') \<le> chan_cap"
proof -
  let ?b = "br_run NewBroker (take 2 demo_ops)"
  have inv: "br_inv ?b" by (intro br_inv_run br_inv_new)
  have split: "br_run ?b (drop 2 demo_ops) = br_run NewBroker demo_ops" by (simp add: demo_ops_def)
  have nxt: "br_next ?b = 2"
    by (simp add: demo_ops_def NewBroker_def br_defs)
  have "(0, ''ana'', [SessionListEv []], [demo_calls, demo_calls])
        \<in> set (map (\<lambda>s. (sb_ref s, sb_clientID s, sb_out s, sb_ch s)) (br_subs (br_run NewBroker demo_ops)))"
    by (simp add: demo_streams)
  then obtain s' where s': "s' \<in> set (br_subs (br_run ?b (drop 2 demo_ops)))" "sb_ref s' = 0"
    by (auto simp: split)
  show ?thesis
    using subscriber_stream [OF inv s'(1)] s' by (auto simp: nxt split)
qed

section \<open>The call table\<close>

text \<open>As an abstract table from call identifiers to records, with the ended calls in the order they ended.\<close>

definition call_table :: "Broker \<Rightarrow> (string \<rightharpoonup> CallRecord) \<times> CallRecord list" where
  "call_table b = (map_of (br_calls b), br_history b)"

fun table_step :: "(string \<rightharpoonup> CallRecord) \<times> CallRecord list \<Rightarrow> broker_op \<Rightarrow> (string \<rightharpoonup> CallRecord) \<times> CallRecord list" where
  "table_step (m, h) (Upsert r) = (m(cr_CallID r \<mapsto> r), h)"
| "table_step (m, h) (SetOwner i owner) =
     (case m i of
        None \<Rightarrow> (m, h)
      | Some r \<Rightarrow> (if cr_Owner r = None \<or> cr_Owner r = Some owner then m(i \<mapsto> r\<lparr>cr_Owner := Some owner\<rparr>) else m, h))"
| "table_step (m, h) (Finish now i reason) =
     (case m i of
        None \<Rightarrow> (m, h)
      | Some r \<Rightarrow> (m(i := None), h @ [r\<lparr>cr_Status := StatusEnded, cr_EndedAt := Some now, cr_EndReason := reason\<rparr>]))"
| "table_step (m, h) _ = (m, h)"

lemma map_of_delete: "map_of (AList.delete i xs) = (map_of xs)(i := None)"
  by (rule delete_conv')

lemma map_of_update: "map_of (AList.update i v xs) = (map_of xs)(i \<mapsto> v)"
  by (rule update_conv')

lemma call_table_step: "call_table (br_step b x) = table_step (call_table b) x"
  by (cases x)
     (auto simp: call_table_def br_defs Let_def map_of_delete map_of_update split: option.split)

lemma getCall_table: "getCall b i = fst (call_table b) i"
  by (simp add: getCall_def call_table_def)

lemma call_table_run: "call_table (br_run b xs) = foldl table_step (call_table b) xs"
  by (induction xs arbitrary: b) (simp_all add: call_table_step)

lemma table_claimed:
  assumes "fst t i = Some r" "cr_Owner r = Some a" "\<And>r'. x = Upsert r' \<Longrightarrow> cr_CallID r' \<noteq> i" "\<And>n re. x \<noteq> Finish n i re"
  shows "fst (table_step t x) i = Some r"
  using assms by (cases t; cases x) (auto split: option.split)

end
