(* ===== verification/Recorder.thy ===== *)
theory Recorder
  imports Prelude
begin

text \<open>
  Recording of a call (\<^verbatim>\<open>cmd/server/recorder.go\<close>): the samples of both sides are collected until the call ends, mixed
  and written as a WAV file. Samples are \<^verbatim>\<open>float32\<close>; their arithmetic is the parameter \<open>float_ops\<close>. The recorder of a
  session that does not record is \<open>None\<close> (the nil pointer).
\<close>

record 'p float_ops =
  fl_zero :: 'p
  fl_add :: "'p \<Rightarrow> 'p \<Rightarrow> 'p"
  fl_above_one :: "'p \<Rightarrow> bool"
  fl_below_minus_one :: "'p \<Rightarrow> bool"
  fl_one :: 'p
  fl_minus_one :: 'p
  fl_to_i16 :: "'p \<Rightarrow> u16"  \<comment> \<open>\<^verbatim>\<open>int16(s * 32767)\<close>\<close>

definition recSampleRate :: nat where "recSampleRate = 16000"
definition recMinSeconds :: nat where "recMinSeconds = 3"
definition recMaxSamples :: nat where "recMaxSamples = recSampleRate * 60 * 60"

record 'p callRecorder =
  rec_peer :: "'p list"
  rec_browser :: "'p list"
  rec_closed :: bool

definition newCallRecorder :: "'p callRecorder" where
  "newCallRecorder = \<lparr>rec_peer = [], rec_browser = [], rec_closed = False\<rparr>"

definition appendSide :: "bool \<Rightarrow> 'p list \<Rightarrow> 'p list \<Rightarrow> 'p list" where
  "appendSide closed dst pcm =
     (if length pcm = 0 then dst
      else if closed \<or> recMaxSamples \<le> length dst then dst
      else dst @ pcm)"

definition writePeer :: "'p callRecorder option \<Rightarrow> 'p list \<Rightarrow> 'p callRecorder option" where
  "writePeer r pcm = map_option (\<lambda>r. r\<lparr>rec_peer := appendSide (rec_closed r) (rec_peer r) pcm\<rparr>) r"

definition writeBrowser :: "'p callRecorder option \<Rightarrow> 'p list \<Rightarrow> 'p callRecorder option" where
  "writeBrowser r pcm = map_option (\<lambda>r. r\<lparr>rec_browser := appendSide (rec_closed r) (rec_browser r) pcm\<rparr>) r"

definition mix_sample :: "'p float_ops \<Rightarrow> 'p list \<Rightarrow> 'p list \<Rightarrow> nat \<Rightarrow> u16" where
  "mix_sample F peer browser i =
     (let s0 = fl_zero F;
          s1 = (if i < length peer then fl_add F s0 (peer ! i) else s0);
          s2 = (if i < length browser then fl_add F s1 (browser ! i) else s1);
          s3 = (if fl_above_one F s2 then fl_one F else if fl_below_minus_one F s2 then fl_minus_one F else s2)
      in fl_to_i16 F s3)"

definition encodeWAV :: "u16 list \<Rightarrow> int \<Rightarrow> bytes" where
  "encodeWAV samples sampleRate =
     (let bitsPerSample = 16; numChannels = 1;
          byteRate = sampleRate * numChannels * bitsPerSample div 8;
          blockAlign = numChannels * bitsPerSample div 8;
          dataSize = int (length samples) * 2
      in bytes_of ''RIFF'' @ put_u32le (word_of_int (36 + dataSize)) @ bytes_of ''WAVE''
         @ bytes_of ''fmt '' @ put_u32le 16 @ put_u16le 1 @ put_u16le (word_of_int numChannels)
         @ put_u32le (word_of_int sampleRate) @ put_u32le (word_of_int byteRate)
         @ put_u16le (word_of_int blockAlign) @ put_u16le (word_of_int bitsPerSample)
         @ bytes_of ''data'' @ put_u32le (word_of_int dataSize)
         @ concat (map put_u16le samples))"

text \<open>The WAV and its length in seconds, or \<open>None\<close> for a call that is too short; the recorder closes.\<close>

definition finishWAV :: "'p float_ops \<Rightarrow> 'p callRecorder \<Rightarrow> (bytes \<times> nat) option \<times> 'p callRecorder" where
  "finishWAV F r =
     (let n = max (length (rec_peer r)) (length (rec_browser r));
          r1 = r\<lparr>rec_closed := True\<rparr>
      in if n < recSampleRate * recMinSeconds then (None, r1)
         else (Some (encodeWAV (map (mix_sample F (rec_peer r) (rec_browser r)) [0..<n]) (int recSampleRate),
                     n div recSampleRate), r1))"

text \<open>\<^verbatim>\<open>Sprintf("%d:%02d", ...)\<close>\<close>

definition pad2 :: "nat \<Rightarrow> string" where
  "pad2 n = (if n < 10 then ''0'' @ itoa (int n) else itoa (int n))"

definition fmtDuration :: "nat \<Rightarrow> string" where
  "fmtDuration seconds = itoa (int (seconds div 60)) @ '':'' @ pad2 (seconds mod 60)"

section \<open>Properties\<close>

text \<open>Reading a WAV file back: the sizes in its header, its format, and the samples of its data chunk.\<close>

fun samples16 :: "bytes \<Rightarrow> u16 list" where
  "samples16 (a # b # rest) = get_u16le (a # b # rest) # samples16 rest"
| "samples16 _ = []"

lemma samples16_put: "samples16 (put_u16le x @ rest) = x # samples16 rest"
  using get_put_u16le [of x rest] by (simp add: put_u16le_def)

lemma samples16_concat: "samples16 (concat (map put_u16le xs)) = xs"
  by (induction xs) (simp_all add: samples16_put)

text \<open>Where the fields of the header stand.\<close>

lemma drop_step: "drop n w = x @ r \<Longrightarrow> length x = k \<Longrightarrow> n + k = n' \<Longrightarrow> drop n' w = r"
  by (metis add.commute append_eq_conv_conj drop_drop)

lemma wav_fields:
  fixes a b c d e f g h i j k l m rest w :: bytes
  assumes w: "w = a @ b @ c @ d @ e @ f @ g @ h @ i @ j @ k @ l @ m @ rest"
    and len: "length a = 4" "length b = 4" "length c = 4" "length d = 4" "length e = 4" "length f = 2" "length g = 2"
    "length h = 4" "length i = 4" "length j = 2" "length k = 2" "length l = 4" "length m = 4"
  shows "length w = 44 + length rest" "\<exists>r. drop 4 w = b @ r" "\<exists>r. drop 22 w = g @ r" "\<exists>r. drop 24 w = h @ r"
    "\<exists>r. drop 28 w = i @ r" "\<exists>r. drop 34 w = k @ r" "\<exists>r. drop 40 w = m @ r" "drop 44 w = rest"
proof -
  have "drop 0 w = a @ b @ c @ d @ e @ f @ g @ h @ i @ j @ k @ l @ m @ rest" using w by simp
  note d4 = drop_step [OF this len(1), of 4, simplified] note d8 = drop_step [OF d4 len(2), of 8, simplified]
  note d12 = drop_step [OF d8 len(3), of 12, simplified] note d16 = drop_step [OF d12 len(4), of 16, simplified]
  note d20 = drop_step [OF d16 len(5), of 20, simplified] note d22 = drop_step [OF d20 len(6), of 22, simplified]
  note d24 = drop_step [OF d22 len(7), of 24, simplified] note d28 = drop_step [OF d24 len(8), of 28, simplified]
  note d32 = drop_step [OF d28 len(9), of 32, simplified] note d34 = drop_step [OF d32 len(10), of 34, simplified]
  note d36 = drop_step [OF d34 len(11), of 36, simplified] note d40 = drop_step [OF d36 len(12), of 40, simplified]
  note d44 = drop_step [OF d40 len(13), of 44, simplified]
  show "length w = 44 + length rest" using w len by simp
  show "\<exists>r. drop 4 w = b @ r" "\<exists>r. drop 22 w = g @ r" "\<exists>r. drop 24 w = h @ r" "\<exists>r. drop 28 w = i @ r"
    "\<exists>r. drop 34 w = k @ r" "\<exists>r. drop 40 w = m @ r" "drop 44 w = rest"
    using d4 d22 d24 d28 d34 d40 d44 by blast+
qed

text \<open>
  A recording reads back: for fewer than \<open>2 ^ 30\<close> samples the WAV file holds 44 header bytes and two
  bytes for each sample, its two size fields say so, its format is one channel of 16-bit samples at the given rate
  (below \<open>2 ^ 31\<close>, so that the byte rate fits), and its data chunk holds exactly the samples.
\<close>

theorem wav_reads_back:
  assumes "length samples < 2 ^ 30" "0 \<le> rate" "rate < 2 ^ 31"
  shows "let w = encodeWAV samples rate
    in length w = 44 + 2 * length samples
     \<and> unat (get_u32le (drop 4 w)) = length w - 8
     \<and> get_u16le (drop 22 w) = 1 \<and> get_u16le (drop 34 w) = 16
     \<and> uint (get_u32le (drop 24 w)) = rate \<and> uint (get_u32le (drop 28 w)) = 2 * rate
     \<and> unat (get_u32le (drop 40 w)) = 2 * length samples
     \<and> samples16 (drop 44 w) = samples"
proof -
  have concat: "length (concat (map put_u16le samples)) = length samples * 2"
    using le16.length_concat_put [of samples] by simp
  have bound: "length samples * 2 < 2 ^ 32" and bound36: "36 + length samples * 2 < 2 ^ 32"
    using assms(1) by simp_all
  have eq36: "36 + int (length samples) * 2 = int (36 + length samples * 2)" by simp
  have eq0: "int (length samples) * 2 = int (length samples * 2)" by simp
  have small: "unat (word_of_int (36 + int (length samples) * 2) :: u32) = 36 + length samples * 2"
    "unat (word_of_int (int (length samples) * 2) :: u32) = length samples * 2"
    using unat_u32_small [OF bound36, folded eq36] unat_u32_small [OF bound, folded eq0] by blast+
  have "rate * 16 div 8 = 2 * rate" by simp
  then have rates: "uint (word_of_int rate :: u32) = rate" "uint (word_of_int (rate * 16 div 8) :: u32) = 2 * rate"
    using uint_u32_small [of rate] uint_u32_small [of "rate * 16 div 8"] assms(2,3) by simp_all
  let ?w = "encodeWAV samples rate"
  have "?w = bytes_of ''RIFF'' @ put_u32le (word_of_int (36 + int (length samples) * 2)) @ bytes_of ''WAVE''
     @ bytes_of ''fmt '' @ put_u32le 16 @ put_u16le 1 @ put_u16le (word_of_int 1)
     @ put_u32le (word_of_int rate) @ put_u32le (word_of_int (rate * 16 div 8))
     @ put_u16le (word_of_int (16 div 8)) @ put_u16le (word_of_int 16)
     @ bytes_of ''data'' @ put_u32le (word_of_int (int (length samples) * 2)) @ concat (map put_u16le samples)"
    by (simp add: encodeWAV_def Let_def)
  note fields = wav_fields [OF this, simplified length_bytes_of length_put_u32le length_put_u16le, simplified]
  from fields obtain r4 r22 r24 r28 r34 r40 where
    "drop 4 ?w = put_u32le (word_of_int (36 + int (length samples) * 2)) @ r4" "drop 22 ?w = put_u16le 1 @ r22"
    "drop 24 ?w = put_u32le (word_of_int rate) @ r24" "drop 28 ?w = put_u32le (word_of_int (rate * 16 div 8)) @ r28"
    "drop 34 ?w = put_u16le 16 @ r34" "drop 40 ?w = put_u32le (word_of_int (int (length samples) * 2)) @ r40"
    by auto
  then show ?thesis using fields(1,8) concat small rates
    by (simp add: Let_def get_put_u16le get_put_u32le samples16_concat)
qed

text \<open>A file of three samples at the rate of the recorder.\<close>

theorem wav_reads_back_witness:
  "samples16 (drop 44 (encodeWAV [1, 2, 0xffff] 16000)) = [1, 2, 0xffff]
   \<and> uint (get_u32le (drop 24 (encodeWAV [1, 2, 0xffff] 16000))) = 16000"
  using wav_reads_back [of "[1, 2, 0xffff]" 16000] by (simp add: Let_def)

section \<open>Bounds of a recording\<close>

definition rec_ok :: "nat \<Rightarrow> 'p callRecorder \<Rightarrow> bool" where
  "rec_ok n r \<longleftrightarrow> length (rec_peer r) < recMaxSamples + n \<and> length (rec_browser r) < recMaxSamples + n"

lemma appendSide_length: "length pcm \<le> n \<Longrightarrow> length dst < recMaxSamples + n \<Longrightarrow> length (appendSide c dst pcm) < recMaxSamples + n"
  by (simp add: appendSide_def)

text \<open>One side at a time, with frames of at most \<open>n\<close> samples, no side exceeds an hour by a whole frame.\<close>

lemma rec_ok_write:
  "rec_ok n r \<Longrightarrow> length pcm \<le> n \<Longrightarrow> rec_ok n (the (writePeer (Some r) pcm)) \<and> rec_ok n (the (writeBrowser (Some r) pcm))"
  by (simp add: rec_ok_def writePeer_def writeBrowser_def appendSide_length)

text \<open>A finished recorder takes nothing more.\<close>

lemma finished_is_closed:
  "writePeer (Some (snd (finishWAV F r))) pcm = Some (snd (finishWAV F r))
   \<and> writeBrowser (Some (snd (finishWAV F r))) pcm = Some (snd (finishWAV F r))"
  by (simp add: finishWAV_def writePeer_def writeBrowser_def appendSide_def Let_def)

end
