(* ===== verification/Sessions.thy ===== *)
theory Sessions
  imports CallEngine Broker Recorder
begin

text \<open>
  A session of the server (\<^verbatim>\<open>cmd/server/session.go\<close>, \<^verbatim>\<open>callregistry.go\<close>, \<^verbatim>\<open>callrouting.go\<close>) and the call operations of
  its HTTP interface (\<^verbatim>\<open>httpapi.go\<close>): the live calls of one WhatsApp number, each an engine of theory \<open>CallManager\<close>
  whose callbacks write the call table of theory \<open>Broker\<close>. Every operation is a function on the pair of the session
  and the broker.

  Go keeps an active call behind a pointer, and closures hold that pointer after the call has left the registry; here
  the calls ever created are the list \<open>se_calls\<close>, a pointer is an index into it, and the registry maps call ids to
  indices. A callback of an engine runs when the operation that emitted it ends: callbacks only touch the registry, the
  recorder and the broker, which no engine reads. Goroutines (a note about a missed call, the upload of a recording,
  the ring timer) are recorded in \<open>se_jobs\<close> where they start.
\<close>

section \<open>Data\<close>

record ('j, 'c, 'p) activeCall =
  ac_callID :: string  \<comment> \<open>the id that the callbacks of \<^verbatim>\<open>wireCall\<close> captured\<close>
  ac_cm :: "('j, 'c, 'p) CallManager"
  ac_bridge :: "nat option"
  ac_recorder :: "'p callRecorder option"
  ac_peerFrames :: nat
  ac_peerWriteErrs :: nat
  ac_inbound :: bool
  ac_answered :: bool

datatype ('j, 'p) job =
    FinalizeRecording "'p callRecorder" string
  | NoteMissedCall string
  | WatchRing string
  | CloseBridge nat
  | WritePCM nat "'p list"
  | SendReject "'j node"

record ('j, 'c, 'p) Session =
  se_id :: string
  se_name :: string
  se_jid :: string  \<comment> \<open>\<^verbatim>\<open>client.Store.ID\<close>, empty when not paired\<close>
  se_calls :: "('j, 'c, 'p) activeCall list"
  se_reg :: "(string \<times> nat) list"
  se_auth :: AuthSnapshot
  se_pairClientID :: string
  se_sentIDs :: "(string \<times> int) list"
  se_seenIDs :: "(string \<times> int) list"
  se_jobs :: "('j, 'p) job list"

type_synonym ('j, 'c, 'p) served = "('j, 'c, 'p) Session \<times> Broker"

text \<open>
  What a step takes from outside: the environment of the engine, the clock of the server (\<^verbatim>\<open>UnixMilli\<close>), the recording
  switch of the session, the identity the contact store has for a peer, the outcome of a write to the browser, the
  limit of concurrent calls (zero for none), and \<^verbatim>\<open>types.NewJID\<close> on a phone number.
\<close>

record ('j, 'c, 'p) served_env =
  sv_en :: "('j, 'c, 'p) Env"
  sv_now :: int
  sv_recording :: bool
  sv_identity :: "string \<Rightarrow> string \<times> string"
  sv_write_ok :: bool
  sv_maxCalls :: int
  sv_phone_jid :: "string \<Rightarrow> 'j"

definition newSession :: "string \<Rightarrow> string \<Rightarrow> string \<Rightarrow> ('j, 'c, 'p) Session" where
  "newSession i name jid =
     \<lparr>se_id = i, se_name = name, se_jid = jid, se_calls = [], se_reg = [],
      se_auth = \<lparr>au_State = ''connecting'', au_Paired = False, au_QR = ''''\<rparr>, se_pairClientID = '''',
      se_sentIDs = [], se_seenIDs = [], se_jobs = []\<rparr>"

section \<open>Message ids\<close>

definition prune :: "int \<Rightarrow> (string \<times> int) list \<Rightarrow> (string \<times> int) list" where
  "prune now ids = filter (\<lambda>(i, t). \<not> 10 * 60 * 1000 < now - t) ids"

definition alreadySeen :: "int \<Rightarrow> string \<Rightarrow> ('j, 'c, 'p) Session \<Rightarrow> bool \<times> ('j, 'c, 'p) Session" where
  "alreadySeen now i s =
     (if i = '''' then (False, s)
      else if map_of (se_seenIDs s) i \<noteq> None then (True, s)
      else (False, s\<lparr>se_seenIDs := prune now (AList.update i now (se_seenIDs s))\<rparr>))"

definition markSelfSent :: "int \<Rightarrow> string \<Rightarrow> ('j, 'c, 'p) Session \<Rightarrow> ('j, 'c, 'p) Session" where
  "markSelfSent now i s =
     (if i = '''' then s else s\<lparr>se_sentIDs := prune now (AList.update i now (se_sentIDs s))\<rparr>)"

definition isSelfSent :: "string \<Rightarrow> ('j, 'c, 'p) Session \<Rightarrow> bool" where
  "isSelfSent i s \<longleftrightarrow> map_of (se_sentIDs s) i \<noteq> None"

section \<open>The registry of calls\<close>

definition reg_add :: "string \<Rightarrow> nat \<Rightarrow> ('j, 'c, 'p) Session \<Rightarrow> ('j, 'c, 'p) Session" where
  "reg_add i r s = s\<lparr>se_reg := AList.update i r (se_reg s)\<rparr>"

definition reg_get :: "string \<Rightarrow> ('j, 'c, 'p) Session \<Rightarrow> nat option" where
  "reg_get i s = map_of (se_reg s) i"

definition reg_remove :: "string \<Rightarrow> ('j, 'c, 'p) Session \<Rightarrow> nat option \<times> ('j, 'c, 'p) Session" where
  "reg_remove i s =
     (case map_of (se_reg s) i of
        None \<Rightarrow> (None, s)
      | Some r \<Rightarrow> (Some r, s\<lparr>se_reg := AList.delete i (se_reg s)\<rparr>))"

definition reg_count :: "('j, 'c, 'p) Session \<Rightarrow> int" where
  "reg_count s = int (length (se_reg s))"

definition at_call :: "nat \<Rightarrow> (('j, 'c, 'p) activeCall \<Rightarrow> ('j, 'c, 'p) activeCall) \<Rightarrow> ('j, 'c, 'p) Session \<Rightarrow> ('j, 'c, 'p) Session" where
  "at_call r f s = s\<lparr>se_calls := (se_calls s)[r := f (se_calls s ! r)]\<rparr>"

text \<open>The old bridge and whether the call was found.\<close>

definition reg_setBridge :: "string \<Rightarrow> nat \<Rightarrow> ('j, 'c, 'p) Session \<Rightarrow> (nat option \<times> bool) \<times> ('j, 'c, 'p) Session" where
  "reg_setBridge i b s =
     (case map_of (se_reg s) i of
        None \<Rightarrow> ((None, False), s)
      | Some r \<Rightarrow> ((ac_bridge (se_calls s ! r), True), at_call r (\<lambda>ac. ac\<lparr>ac_bridge := Some b\<rparr>) s))"

definition reg_drain :: "('j, 'c, 'p) Session \<Rightarrow> nat list \<times> ('j, 'c, 'p) Session" where
  "reg_drain s = (map snd (se_reg s), s\<lparr>se_reg := []\<rparr>)"

section \<open>Callbacks of the engine\<close>

definition spawn :: "('j, 'p) job list \<Rightarrow> ('j, 'c, 'p) Session \<Rightarrow> ('j, 'c, 'p) Session" where
  "spawn js s = s\<lparr>se_jobs := se_jobs s @ js\<rparr>"

definition close_bridge :: "nat option \<Rightarrow> ('j, 'p) job list" where
  "close_bridge b = (case b of None \<Rightarrow> [] | Some i \<Rightarrow> [CloseBridge i])"

definition removeCall :: "string \<Rightarrow> ('j, 'c, 'p) served \<Rightarrow> ('j, 'c, 'p) served" where
  "removeCall i st =
     (case st of (s, b) \<Rightarrow>
       (case reg_remove i s of
          (None, s1) \<Rightarrow> (s1, b)
        | (Some r, s1) \<Rightarrow>
            let ac = se_calls s1 ! r;
                peer = (case getCall b i of None \<Rightarrow> '''' | Some rc \<Rightarrow> cr_Peer rc)
            in (spawn ((case ac_recorder ac of None \<Rightarrow> [] | Some rc \<Rightarrow> [FinalizeRecording rc peer])
                  @ (if peer \<noteq> '''' \<and> ac_inbound ac \<and> \<not> ac_answered ac then [NoteMissedCall peer] else [])
                  @ close_bridge (ac_bridge ac)) s1, b)))"

fun mapStatus :: "CallState \<Rightarrow> CallStatus" where
  "mapStatus CallStateActive = StatusConnected"
| "mapStatus CallStateEnded = StatusEnded"
| "mapStatus CallStateInitiating = StatusStarting"
| "mapStatus _ = StatusRinging"

definition onIncoming :: "('j, 'c, 'p) served_env \<Rightarrow> CallInfo \<Rightarrow> ('j, 'c, 'p) served \<Rightarrow> ('j, 'c, 'p) served" where
  "onIncoming v c st =
     (case st of (s, b) \<Rightarrow>
       let i = ci_CallID c;
           b1 = upsertCall b \<lparr>cr_SessionID = se_id s, cr_CallID = i, cr_Owner = None, cr_Direction = ''inbound'',
                  cr_Peer = ci_PeerJid c, cr_StartedAt = sv_now v, cr_Status = StatusRinging, cr_EndedAt = None,
                  cr_EndReason = ''''\<rparr>;
           s1 = (case reg_get i s of None \<Rightarrow> s | Some r \<Rightarrow> at_call r (\<lambda>ac. ac\<lparr>ac_inbound := True\<rparr>) s);
           (phone, name) = sv_identity v (ci_PeerJid c)
       in (s1, emitIncoming b1 (sv_now v) (se_id s) i (ci_PeerJid c) phone name))"

definition onEnded :: "('j, 'c, 'p) served_env \<Rightarrow> CallInfo \<Rightarrow> ('j, 'c, 'p) served \<Rightarrow> ('j, 'c, 'p) served" where
  "onEnded v c st =
     (case removeCall (ci_CallID c) st of
        (s1, b1) \<Rightarrow> (s1, endCall b1 (sv_now v) (ci_CallID c) (sd_EndReason (ci_StateData c))))"

definition onStateChange :: "('j, 'c, 'p) served_env \<Rightarrow> CallInfo \<Rightarrow> ('j, 'c, 'p) served \<Rightarrow> ('j, 'c, 'p) served" where
  "onStateChange v c st =
     (if IsEnded c then onEnded v c st
      else case st of (s, b) \<Rightarrow>
        let i = ci_CallID c;
            dir = (if ci_Direction c = CallDirectionIncoming then ''inbound'' else ''outbound'');
            s1 = (if call_state c = CallStateActive then
                    (case reg_get i s of None \<Rightarrow> s | Some r \<Rightarrow> at_call r (\<lambda>ac. ac\<lparr>ac_answered := True\<rparr>) s)
                  else s);
            existing = getCall b i;
            rc = \<lparr>cr_SessionID = se_id s, cr_CallID = i, cr_Owner = None, cr_Direction = dir, cr_Peer = ci_PeerJid c,
                  cr_StartedAt = sv_now v, cr_Status = mapStatus (call_state c), cr_EndedAt = None, cr_EndReason = ''''\<rparr>;
            rc1 = (case existing of None \<Rightarrow> rc | Some e \<Rightarrow> rc\<lparr>cr_Owner := cr_Owner e, cr_StartedAt := cr_StartedAt e\<rparr>)
        in (s1, upsertCall b rc1))"

definition onPeerAudio :: "('j, 'c, 'p) served_env \<Rightarrow> string \<Rightarrow> 'p list \<Rightarrow> ('j, 'c, 'p) served \<Rightarrow> ('j, 'c, 'p) served" where
  "onPeerAudio v callID pcm st =
     (case st of (s, b) \<Rightarrow>
       (case reg_get callID s of
          None \<Rightarrow> (s, b)
        | Some r \<Rightarrow>
            let s1 = at_call r (\<lambda>ac. ac\<lparr>ac_recorder := writePeer (ac_recorder ac) pcm\<rparr>) s
            in (case ac_bridge (se_calls s1 ! r) of
                  None \<Rightarrow> (s1, b)
                | Some br \<Rightarrow>
                    (spawn [WritePCM br pcm]
                       (at_call r (\<lambda>ac. ac\<lparr>ac_peerFrames := ac_peerFrames ac + 1,
                                        ac_peerWriteErrs := ac_peerWriteErrs ac + (if sv_write_ok v then 0 else 1)\<rparr>) s1), b))))"

fun on_event :: "('j, 'c, 'p) served_env \<Rightarrow> string \<Rightarrow> ('j, 'p) cm_event \<Rightarrow> ('j, 'c, 'p) served \<Rightarrow> ('j, 'c, 'p) served" where
  "on_event v callID (Incoming c) st = onIncoming v c st"
| "on_event v callID (StateChanged c) st = onStateChange v c st"
| "on_event v callID (EndedCall c) st = onEnded v c st"
| "on_event v callID (PeerAudio pcm) st = onPeerAudio v callID pcm st"
| "on_event v callID _ st = st"

definition new_events :: "('j, 'c, 'p) CallManager \<Rightarrow> ('j, 'c, 'p) CallManager \<Rightarrow> ('j, 'p) cm_event list" where
  "new_events m m' = drop (length (cm_events m)) (cm_events m')"

text \<open>An operation of the engine of call \<open>r\<close>, with the callbacks it makes.\<close>

definition run_cm ::
    "('j, 'c, 'p) served_env \<Rightarrow> nat \<Rightarrow> (('j, 'c, 'p) CallManager \<Rightarrow> ('j, 'c, 'p) CallManager)
     \<Rightarrow> ('j, 'c, 'p) served \<Rightarrow> ('j, 'c, 'p) served" where
  "run_cm v r f st =
     (case st of (s, b) \<Rightarrow>
       let ac = se_calls s ! r; m' = f (ac_cm ac)
       in fold (on_event v (ac_callID ac)) (new_events (ac_cm ac) m') (at_call r (\<lambda>ac. ac\<lparr>ac_cm := m'\<rparr>) s, b))"

section \<open>Operations of the session\<close>

definition createCall :: "('j, 'c, 'p) served_env \<Rightarrow> string \<Rightarrow> ('j, 'c, 'p) Session \<Rightarrow> nat \<times> ('j, 'c, 'p) Session" where
  "createCall v i s =
     (let r = length (se_calls s);
          ac = \<lparr>ac_callID = i, ac_cm = NewCallManager, ac_bridge = None,
                ac_recorder = (if sv_recording v then Some newCallRecorder else None), ac_peerFrames = 0,
                ac_peerWriteErrs = 0, ac_inbound = False, ac_answered = False\<rparr>
      in (r, reg_add i r (s\<lparr>se_calls := se_calls s @ [ac]\<rparr>)))"

text \<open>\<open>draw\<close> are the random bytes of the call id.\<close>

definition startOutgoing ::
    "('j, 'c, 'p) served_env \<Rightarrow> bytes \<Rightarrow> 'j \<Rightarrow> bool \<Rightarrow> ('j, 'c, 'p) served \<Rightarrow> (string + string) \<times> ('j, 'c, 'p) served" where
  "startOutgoing v draw peer isVideo st =
     (case st of (s, b) \<Rightarrow>
       let i = GenerateCallID draw;
           (r, s1) = createCall v i s;
           m = ac_cm (se_calls s1 ! r);
           st1 = run_cm v r (\<lambda>m. snd (StartCall (sv_en v) m i peer isVideo)) (s1, b)
       in case fst (StartCall (sv_en v) m i peer isVideo) of
            Inl err \<Rightarrow> (Inl err, removeCall i st1)
          | Inr _ \<Rightarrow> (Inr i, (spawn [WatchRing i] (fst st1), snd st1)))"

definition terminateCall :: "('j, 'c, 'p) served_env \<Rightarrow> string \<Rightarrow> EndCallReason \<Rightarrow> ('j, 'c, 'p) served \<Rightarrow> ('j, 'c, 'p) served" where
  "terminateCall v i reason st =
     (case reg_get i (fst st) of
        None \<Rightarrow> st
      | Some r \<Rightarrow> run_cm v r (\<lambda>m. EndCall (sv_en v) m reason) st)"

text \<open>What the ring timer does when it fires.\<close>

definition cutIfStillRinging :: "('j, 'c, 'p) served_env \<Rightarrow> string \<Rightarrow> ('j, 'c, 'p) served \<Rightarrow> ('j, 'c, 'p) served" where
  "cutIfStillRinging v i st =
     (case getCall (snd st) i of
        None \<Rightarrow> st
      | Some rc \<Rightarrow> if cr_Status rc = StatusRinging then terminateCall v i EndCallReasonTimeout st else st)"

definition wrapCall :: "'j \<Rightarrow> 'j node option \<Rightarrow> 'j node" where
  "wrapCall from inner =
     Node ''call'' [(''from'', AJid from)] (Nodes (case inner of None \<Rightarrow> [] | Some n \<Rightarrow> [n]))"

definition callIDFromNode :: "'j jid_ops \<Rightarrow> 'j node \<Rightarrow> string" where
  "callIDFromNode J node = (case ExtractNodeInfo J (Some node) of None \<Rightarrow> '''' | Some info \<Rightarrow> ni_CallID info)"

definition callForEvent :: "('j, 'c, 'p) served_env \<Rightarrow> 'j \<Rightarrow> 'j node option \<Rightarrow> ('j, 'c, 'p) Session \<Rightarrow> nat option" where
  "callForEvent v from data s =
     (let i = callIDFromNode (en_J (sv_en v)) (wrapCall from data)
      in if i = '''' then None else reg_get i s)"

definition rejectOffer :: "('j, 'c, 'p) served_env \<Rightarrow> 'j node \<Rightarrow> 'j \<Rightarrow> ('j, 'c, 'p) Session \<Rightarrow> ('j, 'c, 'p) Session" where
  "rejectOffer v node from s =
     (let J = en_J (sv_en v) in
      case ExtractNodeInfo J (Some node) of
        None \<Rightarrow> s
      | Some info \<Rightarrow>
          let creator0 = AttrString J (Attrs (ni_InnerNode info)) ''call-creator'';
              creator = (if creator0 = '''' then jid_String J from else creator0)
          in spawn [SendReject (BuildRejectStanza (en_stanza (sv_en v) 0) from (ni_CallID info) (MustJID J creator))] s)"

definition onIncomingOffer ::
    "('j, 'c, 'p) served_env \<Rightarrow> 'j \<Rightarrow> 'j node option \<Rightarrow> ('j, 'c, 'p) served \<Rightarrow> ('j, 'c, 'p) served" where
  "onIncomingOffer v from data st =
     (case st of (s, b) \<Rightarrow>
       let node = wrapCall from data;
           i = callIDFromNode (en_J (sv_en v)) node
       in if i = '''' then st
          else if 0 < sv_maxCalls v \<and> sv_maxCalls v \<le> reg_count s then (rejectOffer v node from s, b)
          else let (r, s1) = createCall v i s
               in run_cm v r (\<lambda>m. HandleCallOffer (sv_en v) m (Some node) from) (s1, b))"

datatype 'j wa_call_event =
    CallOffer 'j "'j node option"
  | CallAccept 'j "'j node option"
  | CallTransport 'j "'j node option"
  | CallTerminate 'j "'j node option"
  | CallReject 'j "'j node option"

definition to_call ::
    "('j, 'c, 'p) served_env \<Rightarrow> 'j \<Rightarrow> 'j node option \<Rightarrow> ('j node \<Rightarrow> ('j, 'c, 'p) CallManager \<Rightarrow> ('j, 'c, 'p) CallManager)
     \<Rightarrow> ('j, 'c, 'p) served \<Rightarrow> ('j, 'c, 'p) served" where
  "to_call v from data h st =
     (case callForEvent v from data (fst st) of
        None \<Rightarrow> st
      | Some r \<Rightarrow> run_cm v r (h (wrapCall from data)) st)"

text \<open>The call events of \<^verbatim>\<open>handleEvent\<close>.\<close>

fun handle_call_event :: "('j, 'c, 'p) served_env \<Rightarrow> 'j wa_call_event \<Rightarrow> ('j, 'c, 'p) served \<Rightarrow> ('j, 'c, 'p) served" where
  "handle_call_event v (CallOffer from data) st = onIncomingOffer v from data st"
| "handle_call_event v (CallAccept from data) st =
     to_call v from data (\<lambda>n m. HandleCallAccept (sv_en v) m (Some n) from) st"
| "handle_call_event v (CallTransport from data) st =
     to_call v from data (\<lambda>n m. HandleCallTransport (sv_en v) m (Some n)) st"
| "handle_call_event v (CallTerminate from data) st =
     to_call v from data (\<lambda>n m. HandleCallTerminate (sv_en v) m (Some n)) st"
| "handle_call_event v (CallReject from data) st =
     to_call v from data (\<lambda>n m. HandleCallTerminate (sv_en v) m (Some n)) st"

definition setBridge :: "string \<Rightarrow> nat \<Rightarrow> ('j, 'c, 'p) Session \<Rightarrow> ('j, 'c, 'p) Session" where
  "setBridge i br s =
     (case reg_setBridge i br s of
        ((_, False), s1) \<Rightarrow> spawn [CloseBridge br] s1
      | ((oldB, True), s1) \<Rightarrow> spawn (close_bridge oldB) s1)"

text \<open>The drained calls are ended one by one; they have left the registry before.\<close>

definition teardownAllCalls :: "('j, 'c, 'p) served_env \<Rightarrow> ('j, 'c, 'p) served \<Rightarrow> ('j, 'c, 'p) served" where
  "teardownAllCalls v st =
     (case st of (s, b) \<Rightarrow>
       let (rs, s1) = reg_drain s
       in fold (\<lambda>r st. let (s2, b2) = run_cm v r (\<lambda>m. EndCall (sv_en v) m EndCallReasonUserEnded) st
                       in (spawn (close_bridge (ac_bridge (se_calls s2 ! r))) s2, b2))
            rs (s1, b))"

end
