(* ===== verification/HttpApi.thy ===== *)
theory HttpApi
  imports Sessions
begin

text \<open>
  The HTTP interface of the server (\<^verbatim>\<open>cmd/server/httpapi.go\<close>): which requests the keys let through, the routes, and
  the operations on calls with their replies. A request carries the segments of its path already decoded, as the
  patterns of the Go router see them; \<^verbatim>\<open>r.URL.Path\<close> is these segments joined by slashes. Redirections of unclean
  paths are not modelled. White space is the ASCII one.
\<close>

section \<open>Requests and routes\<close>

record request =
  rq_Method :: string
  rq_Segments :: "string list"
  rq_HeaderKey :: string
  rq_QueryKey :: string
  rq_HeaderClient :: string
  rq_QueryClient :: string

definition rq_Path :: "request \<Rightarrow> string" where
  "rq_Path r = concat (map (\<lambda>s. ''/'' @ s) (rq_Segments r))"

definition clientID :: "request \<Rightarrow> string" where
  "clientID r = (if rq_HeaderClient r \<noteq> '''' then rq_HeaderClient r else rq_QueryClient r)"

text \<open>\<^verbatim>\<open>strings.Contains\<close>\<close>

fun str_within :: "string \<Rightarrow> string \<Rightarrow> bool" where
  "str_within sub [] = (sub = [])"
| "str_within sub (c # s) = (prefix sub (c # s) \<or> str_within sub s)"

datatype endpoint =
    SessionList | SessionCreate | SessionDelete string | SessionLogout string | SessionPair string
  | StartCallAt string | WebRTCAt string string | AcceptAt string string | RejectAt string string
  | EndCallAt string string | HistoryAt string
  | SetChatwootAt string | GetChatwootAt string | DeleteChatwootAt string | WebhookAt string | ChatwootResolve
  | SetRecordingAt string | GetRecordingAt string | WidgetJS | EventsAt

text \<open>A pattern with the method GET also matches HEAD.\<close>

definition gets :: "string \<Rightarrow> bool" where
  "gets method \<longleftrightarrow> method = ''GET'' \<or> method = ''HEAD''"

text \<open>The patterns registered by \<open>routes\<close>, the static files aside; a wildcard does not match an empty last segment.\<close>

definition api_session_routes :: "string \<Rightarrow> string \<Rightarrow> string list \<Rightarrow> endpoint option" where
  "api_session_routes method sid rest =
     (if rest = [] then (if method = ''DELETE'' then Some (SessionDelete sid) else None)
      else if rest = [''logout''] then (if method = ''POST'' then Some (SessionLogout sid) else None)
      else if rest = [''pair''] then (if method = ''POST'' then Some (SessionPair sid) else None)
      else if rest = [''calls''] then (if method = ''POST'' then Some (StartCallAt sid) else None)
      else if rest = [''history''] then (if gets method then Some (HistoryAt sid) else None)
      else if rest = [''chatwoot''] then
        (if method = ''POST'' then Some (SetChatwootAt sid) else if gets method then Some (GetChatwootAt sid)
         else if method = ''DELETE'' then Some (DeleteChatwootAt sid) else None)
      else if rest = [''recording''] then
        (if method = ''PUT'' then Some (SetRecordingAt sid) else if gets method then Some (GetRecordingAt sid) else None)
      else if rest = [''chatwoot'', ''webhook''] then (if method = ''POST'' then Some (WebhookAt sid) else None)
      else if length rest = 2 \<and> hd rest = ''calls'' then
        (if method = ''DELETE'' then Some (EndCallAt sid (rest ! 1)) else None)
      else if length rest = 3 \<and> hd rest = ''calls'' \<and> method = ''POST'' then
        (if rest ! 2 = ''webrtc'' then Some (WebRTCAt sid (rest ! 1))
         else if rest ! 2 = ''accept'' then Some (AcceptAt sid (rest ! 1))
         else if rest ! 2 = ''reject'' then Some (RejectAt sid (rest ! 1)) else None)
      else None)"

definition routes :: "request \<Rightarrow> endpoint option" where
  "routes r =
     (let segs = rq_Segments r; method = rq_Method r in
      if segs = [''widget.js''] then (if gets method then Some WidgetJS else None)
      else if segs = [''api'', ''events''] then (if gets method then Some EventsAt else None)
      else if segs = [''api'', ''sessions''] then
        (if gets method then Some SessionList else if method = ''POST'' then Some SessionCreate else None)
      else if segs = [''api'', ''chatwoot'', ''resolve''] then (if gets method then Some ChatwootResolve else None)
      else if take 2 segs = [''api'', ''sessions''] \<and> last segs \<noteq> '''' then api_session_routes method (segs ! 2) (drop 3 segs)
      else None)"

section \<open>Keys\<close>

definition widgetAllowed :: "request \<Rightarrow> bool" where
  "widgetAllowed r \<longleftrightarrow>
     rq_Method r = ''GET'' \<and> rq_Path r = ''/api/chatwoot/resolve''
   \<or> rq_Method r = ''GET'' \<and> rq_Path r = ''/api/events''
   \<or> prefix ''/api/sessions/'' (rq_Path r) \<and> str_within ''/calls'' (rq_Path r)"

definition withAuth :: "string \<Rightarrow> string \<Rightarrow> request \<Rightarrow> bool" where
  "withAuth apiKey widgetKey r \<longleftrightarrow>
     (if apiKey = '''' then True
      else let p = rq_Path r in
        if \<not> prefix ''/api/'' p \<or> suffix ''/chatwoot/webhook'' p then True
        else
          let key = (if rq_HeaderKey r = '''' then rq_QueryKey r else rq_HeaderKey r)
          in if key = apiKey then True
             else widgetKey \<noteq> '''' \<and> key = widgetKey \<and> widgetAllowed r)"

section \<open>Operations on calls\<close>

definition is_space :: "char \<Rightarrow> bool" where
  "is_space c \<longleftrightarrow> c \<in> {CHR '' '', CHR 0x09, CHR 0x0A, CHR 0x0B, CHR 0x0C, CHR 0x0D}"

definition TrimSpace :: "string \<Rightarrow> string" where
  "TrimSpace s = rev (dropWhile is_space (rev (dropWhile is_space s)))"

definition TrimPrefix :: "string \<Rightarrow> string \<Rightarrow> string" where
  "TrimPrefix p s = (if prefix p s then drop (length p) s else s)"

definition normalizePhone :: "string \<Rightarrow> string" where
  "normalizePhone p = filter is_digit (TrimPrefix ''+'' (TrimSpace p))"

datatype reply =
    Started string CallStatus
  | Accepted string
  | SdpAnswer string
  | Ok
  | NoContentReply
  | Failed nat string

type_synonym ('j, 'c, 'p) handled = "reply \<times> ('j, 'c, 'p) served"

text \<open>\<open>phone\<close> is the field of the body, \<open>None\<close> when the body cannot be decoded.\<close>

definition doStartCall ::
    "('j, 'c, 'p) served_env \<Rightarrow> bytes \<Rightarrow> string \<Rightarrow> string option \<Rightarrow> ('j, 'c, 'p) served \<Rightarrow> ('j, 'c, 'p) handled" where
  "doStartCall v draw owner phone st =
     (case st of (s, b) \<Rightarrow>
       if se_jid s = '''' then (Failed 503 ''not paired'', st)
       else case phone of
         None \<Rightarrow> (Failed 400 ''phone required'', st)
       | Some p \<Rightarrow>
         if TrimSpace p = '''' then (Failed 400 ''phone required'', st)
         else if ownerActiveCall b owner \<noteq> '''' then (Failed 409 ''operator already on a call'', st)
         else if 0 < sv_maxCalls v \<and> sv_maxCalls v \<le> reg_count s then (Failed 429 ''max concurrent calls'', st)
         else
           let peer = sv_phone_jid v (normalizePhone p)
           in case startOutgoing v draw peer False st of
                (Inl err, st1) \<Rightarrow> (Failed 500 err, st1)
              | (Inr i, (s1, b1)) \<Rightarrow>
                  (Started i StatusRinging,
                   (s1, upsertCall b1 \<lparr>cr_SessionID = se_id s, cr_CallID = i, cr_Owner = Some owner,
                      cr_Direction = ''outbound'', cr_Peer = jid_String (en_J (sv_en v)) peer, cr_StartedAt = sv_now v,
                      cr_Status = StatusRinging, cr_EndedAt = None, cr_EndReason = ''''\<rparr>)))"

text \<open>\<open>made\<close> is what \<^verbatim>\<open>NewBridge\<close> returns on the offer: an error, or the bridge and its answer.\<close>

definition doWebRTC ::
    "string \<Rightarrow> string option \<Rightarrow> (string + nat \<times> string) \<Rightarrow> ('j, 'c, 'p) served \<Rightarrow> ('j, 'c, 'p) handled" where
  "doWebRTC i sdp made st =
     (case st of (s, b) \<Rightarrow>
       if reg_get i s = None then (Failed 404 ''no such call'', st)
       else if sdp = None \<or> sdp = Some '''' then (Failed 400 ''sdp_offer required'', st)
       else case made of
              Inl err \<Rightarrow> (Failed 500 err, st)
            | Inr (br, answer) \<Rightarrow> (SdpAnswer answer, (setBridge i br s, b)))"

text \<open>The callbacks of a bridge: samples from the browser (for the call whose pointer was captured), and its end.\<close>

definition OnBrowserPCM ::
    "('j, 'c, 'p) served_env \<Rightarrow> nat \<Rightarrow> 'p list \<Rightarrow> ('j, 'c, 'p) served \<Rightarrow> ('j, 'c, 'p) served" where
  "OnBrowserPCM v r pcm st =
     (case run_cm v r (\<lambda>m. FeedCapturedPCM (sv_en v) m pcm) st of
        (s, b) \<Rightarrow> (at_call r (\<lambda>ac. ac\<lparr>ac_recorder := writeBrowser (ac_recorder ac) pcm\<rparr>) s, b))"

definition OnTerminalICE :: "('j, 'c, 'p) served_env \<Rightarrow> string \<Rightarrow> ('j, 'c, 'p) served \<Rightarrow> ('j, 'c, 'p) served" where
  "OnTerminalICE v i st = terminateCall v i EndCallReasonUserEnded st"

definition doAccept ::
    "('j, 'c, 'p) served_env \<Rightarrow> string \<Rightarrow> string \<Rightarrow> ('j, 'c, 'p) served \<Rightarrow> ('j, 'c, 'p) handled" where
  "doAccept v owner i st =
     (case st of (s, b) \<Rightarrow>
       case reg_get i s of
         None \<Rightarrow> (Failed 404 ''no such call'', st)
       | Some r \<Rightarrow>
           let other = ownerActiveCall b owner in
           if other \<noteq> '''' \<and> other \<noteq> i then (Failed 409 ''operator already on a call'', st)
           else case setOwner b i owner of
                  (False, b1) \<Rightarrow> (Failed 409 ''claimed by another client'', (s, b1))
                | (True, b1) \<Rightarrow>
                    let b2 = emitIncomingClaimed b1 (se_id s) i owner;
                        st1 = run_cm v r (\<lambda>m. snd (AcceptCall (sv_en v) m i)) (s, b2)
                    in (case fst (AcceptCall (sv_en v) (ac_cm (se_calls s ! r)) i) of
                          Inl err \<Rightarrow> (Failed 500 err, st1)
                        | Inr _ \<Rightarrow> (Accepted i, st1)))"

definition finish :: "('j, 'c, 'p) served_env \<Rightarrow> string \<Rightarrow> EndCallReason \<Rightarrow> ('j, 'c, 'p) served \<Rightarrow> ('j, 'c, 'p) served" where
  "finish v i reason st = (case removeCall i st of (s, b) \<Rightarrow> (s, endCall b (sv_now v) i reason))"

definition doReject :: "('j, 'c, 'p) served_env \<Rightarrow> string \<Rightarrow> ('j, 'c, 'p) served \<Rightarrow> ('j, 'c, 'p) handled" where
  "doReject v i st =
     (let st1 = (case reg_get i (fst st) of
                   None \<Rightarrow> st
                 | Some r \<Rightarrow> run_cm v r (\<lambda>m. snd (RejectCall (sv_en v) m i EndCallReasonDeclined)) st)
      in (Ok, finish v i EndCallReasonDeclined st1))"

definition doEndCall :: "('j, 'c, 'p) served_env \<Rightarrow> string \<Rightarrow> ('j, 'c, 'p) served \<Rightarrow> ('j, 'c, 'p) handled" where
  "doEndCall v i st =
     (let st1 = (case reg_get i (fst st) of
                   None \<Rightarrow> st
                 | Some r \<Rightarrow> run_cm v r (\<lambda>m. EndCall (sv_en v) m EndCallReasonUserEnded) st)
      in (NoContentReply, finish v i EndCallReasonUserEnded st1))"

section \<open>Runs of a session\<close>

datatype ('j, 'p) served_op =
    HStart bytes string "string option"
  | HWebRTC string "string option" "string + nat \<times> string"
  | HAccept string string
  | HReject string
  | HEnd string
  | Browser nat "'p list"
  | IceEnded string
  | WhatsApp "'j wa_call_event"
  | Engine nat "('j, 'p) cm_input"  \<comment> \<open>a timer or a relay callback of an engine\<close>
  | RingTimer string
  | Teardown

fun from_relay :: "('j, 'p) cm_input \<Rightarrow> bool" where
  "from_relay SilenceTick = True"
| "from_relay (FromRelay d) = True"
| "from_relay (RelayCallback e) = True"
| "from_relay (OnAck n) = True"
| "from_relay _ = False"

definition engine_step ::
    "('j, 'c, 'p) served_env \<Rightarrow> nat \<Rightarrow> ('j, 'p) cm_input \<Rightarrow> ('j, 'c, 'p) served \<Rightarrow> ('j, 'c, 'p) served" where
  "engine_step v r x st =
     (if from_relay x \<and> r < length (se_calls (fst st)) then run_cm v r (\<lambda>m. cm_step m (sv_en v, x)) st else st)"

fun served_step :: "('j, 'c, 'p) served_env \<Rightarrow> ('j, 'p) served_op \<Rightarrow> ('j, 'c, 'p) served \<Rightarrow> ('j, 'c, 'p) handled" where
  "served_step v (HStart draw owner phone) st = doStartCall v draw owner phone st"
| "served_step v (HWebRTC i off made) st = doWebRTC i off made st"
| "served_step v (HAccept owner i) st = doAccept v owner i st"
| "served_step v (HReject i) st = doReject v i st"
| "served_step v (HEnd i) st = doEndCall v i st"
| "served_step v (Browser r pcm) st =
     (NoContentReply, if r < length (se_calls (fst st)) then OnBrowserPCM v r pcm st else st)"
| "served_step v (IceEnded i) st = (NoContentReply, OnTerminalICE v i st)"
| "served_step v (WhatsApp e) st = (NoContentReply, handle_call_event v e st)"
| "served_step v (Engine r x) st = (NoContentReply, engine_step v r x st)"
| "served_step v (RingTimer i) st = (NoContentReply, cutIfStillRinging v i st)"
| "served_step v Teardown st = (NoContentReply, teardownAllCalls v st)"

definition served_run ::
    "(('j, 'c, 'p) served_env \<times> ('j, 'p) served_op) list \<Rightarrow> ('j, 'c, 'p) served \<Rightarrow> ('j, 'c, 'p) served" where
  "served_run ops st = fold (\<lambda>(v, x) st. snd (served_step v x st)) ops st"

lemma served_run_simps [simp]:
  "served_run [] st = st" "served_run ((v, x) # ops) st = served_run ops (snd (served_step v x st))"
  by (simp_all add: served_run_def)

end
