(* ===== verification/ServedCalls.thy ===== *)
theory ServedCalls
  imports HttpApi
begin

text \<open>
  What the server promises about the calls it serves (theories \<open>Sessions\<close> and \<open>HttpApi\<close> hold the model): a call only
  ever touches its own entries, a claimed call stays with its operator, the number of calls stays within the limit,
  and hanging up, or the ring timer, leaves nothing of a call behind.
\<close>

section \<open>What an engine says\<close>

named_theorems says

fun about :: "string \<Rightarrow> ('j, 'p) cm_event \<Rightarrow> bool" where
  "about i (StateChanged c) = (ci_CallID c = i)"
| "about i (Incoming c) = False"
| "about i (EndedCall c) = (ci_CallID c = i)"
| "about i _ = True"

definition id_ok :: "string \<Rightarrow> ('j, 'c, 'p) CallManager \<Rightarrow> bool" where
  "id_ok i m \<longleftrightarrow> (\<forall>c. cm_currentCall m = Some c \<longrightarrow> ci_CallID c = i)"

definition over :: "('j, 'c, 'p) CallManager \<Rightarrow> bool" where
  "over m \<longleftrightarrow> (\<exists>c. cm_currentCall m = Some c \<and> IsEnded c)"

definition says_end :: "('j, 'p) cm_event list \<Rightarrow> bool" where
  "says_end evs \<longleftrightarrow> (\<exists>c. StateChanged c \<in> set evs \<and> IsEnded c)"

text \<open>
  An engine that serves call \<open>i\<close> goes on serving it, its events are about this call (and none says that a call comes
  in), and a call that ends is announced.
\<close>

definition speaks :: "string \<Rightarrow> ('j, 'c, 'p) CallManager \<Rightarrow> ('j, 'c, 'p) CallManager \<Rightarrow> bool" where
  "speaks i m m' \<longleftrightarrow>
     (\<exists>evs. cm_events m' = cm_events m @ evs \<and> (id_ok i m \<longrightarrow> id_ok i m' \<and> (\<forall>e \<in> set evs. about i e))
        \<and> (over m' \<longrightarrow> over m \<or> says_end evs) \<and> (cm_currentCall m \<noteq> None \<longrightarrow> cm_currentCall m' \<noteq> None))"

lemma speaks_refl [says]: "speaks i m m"
  by (auto simp: speaks_def)

lemma speaks_trans:
  assumes "speaks i a b" "speaks i b c"
  shows "speaks i a c"
proof -
  obtain xs ys where
    xs: "cm_events b = cm_events a @ xs" "id_ok i a \<longrightarrow> id_ok i b \<and> (\<forall>e \<in> set xs. about i e)" "over b \<longrightarrow> over a \<or> says_end xs"
      "cm_currentCall a \<noteq> None \<longrightarrow> cm_currentCall b \<noteq> None"
    and ys: "cm_events c = cm_events b @ ys" "id_ok i b \<longrightarrow> id_ok i c \<and> (\<forall>e \<in> set ys. about i e)" "over c \<longrightarrow> over b \<or> says_end ys"
      "cm_currentCall b \<noteq> None \<longrightarrow> cm_currentCall c \<noteq> None"
    using assms by (auto simp: speaks_def)
  show ?thesis unfolding speaks_def
    by (rule exI [of _ "xs @ ys"]) (use xs ys in \<open>auto simp: says_end_def\<close>)
qed

lemma speaks_quiet:
  "cm_events m' = cm_events m \<Longrightarrow> cm_currentCall m' = cm_currentCall m \<Longrightarrow> speaks i m m'"
  by (auto simp: speaks_def id_ok_def over_def)

lemma speaks_emit: "(id_ok i m \<Longrightarrow> about i e) \<Longrightarrow> speaks i m (emit m e)"
  unfolding speaks_def by (rule exI [of _ "[e]"]) (auto simp: emit_def id_ok_def over_def)

lemma speaks_emitState: "speaks i m (emitState m)"
  by (auto simp: emitState_def id_ok_def intro: speaks_refl speaks_emit split: option.split)

lemma speaks_set_call:
  assumes "\<And>c. cm_currentCall m = Some c \<Longrightarrow> ci_CallID c' = ci_CallID c" "cm_currentCall m \<noteq> None"
  shows "speaks i m (emitState (m\<lparr>cm_currentCall := Some c'\<rparr>))"
  unfolding speaks_def using assms
  by (intro exI [of _ "[StateChanged c']"]) (auto simp: emitState_def emit_def id_ok_def over_def says_end_def)

lemma speaks_move: "speaks i m (emitState (apply_current now t m))"
proof (cases "cm_currentCall m")
  case None
  then show ?thesis by (intro speaks_quiet) (simp_all add: apply_current_def emitState_def)
next
  case (Some c)
  have "ci_CallID (try_transition c (now, t)) = ci_CallID c" by (simp add: same_call_fields [OF try_transition_same])
  then have "speaks i m (emitState (m\<lparr>cm_currentCall := Some (try_transition c (now, t))\<rparr>))"
    using Some by (intro speaks_set_call) simp_all
  then show ?thesis using Some by (simp add: apply_current_def)
qed

lemma quiet_events [says]:
  "cm_events (initCodec en m) = cm_events m"
  "cm_events (startSilenceKeepaliveLocked m) = cm_events m"
  "cm_events (connectRelays en m eps) = cm_events m"
  "cm_events (cleanupMedia m) = cm_events m"
  "cm_events (initSrtpKeysLocked en m) = cm_events m"
  "cm_events (reinitSrtpLocked en m k j) = cm_events m"
  "cm_events (adopt_participants en m ci ps b) = cm_events m"
  "cm_events (sendOpusFrameLocked en m opus) = cm_events m"
  by (auto simp: initCodec_def startSilenceKeepaliveLocked_def connectRelays_def cleanupMedia_def initSrtpKeysLocked_def
      reinitSrtpLocked_def adopt_participants_def sendOpusFrameLocked_def Let_def
      split: option.split outcome.split prod.split)

lemma quiet_events2 [says]:
  "cm_events (setupIncomingMedia en m c rd) = cm_events m"
  "cm_events (encode_and_send en m f) = cm_events m"
  by (auto simp: setupIncomingMedia_def encode_and_send_def says Let_def split: option.split prod.split sum.split)

lemma feed_loop_events [says]: "cm_events (feed_loop en buf pos data m) = cm_events m"
proof (induction en buf pos data m rule: feed_loop.induct)
  case (1 en buf pos data m)
  show ?case
    by (subst feed_loop.simps) (use 1 in \<open>simp add: Let_def says\<close>)
qed

lemma quiet_events3 [says]:
  "cm_events (FeedCapturedPCM en m d) = cm_events m" "cm_events (keepalive_tick en m) = cm_events m"
  by (simp_all add: FeedCapturedPCM_def keepalive_tick_def Let_def says split: option.split)

lemma speaks_relayData: "speaks i m (onRelayData en m d)"
proof -
  have ev: "\<exists>evs. cm_events (onRelayData en m d) = cm_events m @ evs \<and> (\<forall>e \<in> set evs. about i e)"
    by (auto simp: onRelayData_def Let_def emit_def split: option.split outcome.split prod.split sum.split)
  then show ?thesis by (auto simp: speaks_def id_ok_def over_def)
qed

lemma speaks_connected: "speaks i m (onRelayConnected en m)"
proof -
  have "speaks i m (startSilenceKeepaliveLocked (emitState (m\<lparr>cm_currentCall := Some c1\<rparr>)))"
    if "cm_currentCall m = Some c" "ApplyTransition (en_now en) c t = Inr c1" for c c1 t
    by (rule speaks_trans [OF speaks_set_call [of m c1]])
      (use that in \<open>auto simp: says same_call_fields dest!: ApplyTransition_Inr intro!: speaks_quiet\<close>)
  then show ?thesis by (auto simp: onRelayConnected_def speaks_refl split: option.split sum.split)
qed

lemma says_fields [says]:
  "cm_events (m\<lparr>cm_relay := r\<rparr>) = cm_events m" "cm_events (m\<lparr>cm_currentCall := c\<rparr>) = cm_events m"
  "cm_events (m\<lparr>cm_acceptedByJid := x\<rparr>) = cm_events m" "cm_events (m\<lparr>cm_peerSsrcs := ss\<rparr>) = cm_events m"
  "cm_events (m\<lparr>cm_outgoingPreacceptSent := b\<rparr>) = cm_events m"
  by simp_all

lemma speaks_emitted: "speaks i a m \<Longrightarrow> (id_ok i m \<Longrightarrow> about i e) \<Longrightarrow> speaks i a (emit m e)"
  by (rule speaks_trans [OF _ speaks_emit])

lemma speaks_quieted:
  "speaks i a m \<Longrightarrow> cm_events m' = cm_events m \<Longrightarrow> cm_currentCall m' = cm_currentCall m \<Longrightarrow> speaks i a m'"
  by (rule speaks_trans [OF _ speaks_quiet])

lemma speaks_connect: "speaks i a m \<Longrightarrow> speaks i a (connectRelays en m eps)"
  by (erule speaks_quieted) (simp_all add: says)

lemma speaks_setup: "speaks i a m \<Longrightarrow> speaks i a (setupIncomingMedia en m c rd)"
  by (erule speaks_quieted) (simp_all add: says)

lemma speaks_cleanup: "speaks i a m \<Longrightarrow> speaks i a (cleanupMedia m)"
  by (erule speaks_quieted) (simp_all add: says)

lemma speaks_start:
  assumes "cm_currentCall m = None"
  shows "speaks i m (snd (StartCall en m i j v))"
proof -
  have "\<exists>evs. cm_events (snd (start_new en m i j v)) = cm_events m @ evs \<and> (\<forall>e \<in> set evs. about i e)
      \<and> (\<exists>c. cm_currentCall (snd (start_new en m i j v)) = Some c \<and> ci_CallID c = i \<and> \<not> IsEnded c)"
    by (auto simp: start_new_def Let_def emit_def emitState_def apply_current_def says initCodec_def NewOutgoingCall_def
        try_transition_def ApplyTransition_def transition_def IsEnded_def split: sum.split)
  then show ?thesis using assms by (auto simp: StartCall_def speaks_def id_ok_def over_def)
qed

lemma speaks_accept: "speaks i m (snd (AcceptCall en m k))"
  by (auto simp: AcceptCall_def Let_def intro!: speaks_refl speaks_connect speaks_setup speaks_emitted speaks_move
      split: option.split sum.split)

lemma speaks_reject: "speaks i m (snd (RejectCall en m k reason))"
  by (auto simp: RejectCall_def Let_def intro!: speaks_refl speaks_cleanup speaks_emitted speaks_move split: option.split)

lemma speaks_end: "speaks i m (EndCall en m reason)"
  by (auto simp: EndCall_def Let_def id_ok_def cm_call intro!: speaks_refl speaks_cleanup speaks_emitted speaks_move
      split: option.split)

lemma speaks_terminate: "speaks i m (HandleCallTerminate en m n)"
  by (auto simp: HandleCallTerminate_def Let_def id_ok_def cm_call intro!: speaks_refl speaks_cleanup speaks_emitted speaks_move
      split: option.split)

lemma speaks_transport: "speaks i m (HandleCallTransport en m n)"
  by (auto simp: HandleCallTransport_def Let_def speaks_def id_ok_def over_def IsEnded_def says cm_call split: option.split)

lemma speaks_ack: "speaks i m (HandleCallAck en m n)"
  by (auto simp: HandleCallAck_def Let_def speaks_def id_ok_def over_def IsEnded_def says cm_call emit_def
      split: option.split)

lemma speaks_accept_media: "speaks i m (accept_media en m info j)"
proof -
  define m1 where "m1 = (if NeedsDecryption (ni_Tag info) then
                  (case DecryptCallKeyInNode (en_J en) (en_sock en) (Some (ni_InnerNode info)) j of
                     Inr (Some peerKey) \<Rightarrow>
                       (case map_option ci_EncryptionKey (cm_currentCall m) of
                          Some (Some key) \<Rightarrow> if \<not> equalBytes key peerKey then reinitSrtpLocked en m peerKey j else m
                        | _ \<Rightarrow> m)
                   | _ \<Rightarrow> m)
                else m)"
  have m1: "cm_events m1 = cm_events m" "cm_currentCall m1 = cm_currentCall m"
    unfolding m1_def by (simp_all add: says split: sum.split option.split)
  define m2 where "m2 = emitState (apply_current (en_now en) (transition TransitionRemoteAccepted []) m1)"
  have "cm_events (accept_media en m info j) = cm_events m2" "cm_currentCall (accept_media en m info j) = cm_currentCall m2"
    unfolding accept_media_def Let_def m1_def [symmetric] by (simp_all add: says flip: m2_def)
  then show ?thesis unfolding m2_def
    by (rule speaks_quieted [OF speaks_trans [OF speaks_quiet [OF m1] speaks_move]])
qed

lemma speaks_sent: "speaks i a m \<Longrightarrow> speaks i a (emit m (SentNode x))"
  by (rule speaks_emitted) simp_all

lemma speaks_ready:
  assumes "speaks i a m" "cm_currentCall m = Some c" "ApplyTransition now c t = Inr c1"
  shows "speaks i a (startSilenceKeepaliveLocked (emitState (m\<lparr>cm_currentCall := Some c1\<rparr>)))"
  by (rule speaks_quieted [OF speaks_trans [OF assms(1) speaks_set_call [of m c1]]])
    (use assms in \<open>auto simp: says same_call_fields dest!: ApplyTransition_Inr\<close>)

lemma speaks_handle_accept: "speaks i m (HandleCallAccept en m n j)"
proof -
  have m1: "speaks i m ((accept_media en m info j)\<lparr>cm_relay := r\<rparr>)" for info r
    by (rule speaks_quieted [OF speaks_accept_media]) simp_all
  show ?thesis
    unfolding HandleCallAccept_def Let_def
    by (auto intro!: speaks_refl speaks_connect speaks_sent m1 speaks_ready simp: cm_call
      split: option.split sum.split)
qed

lemma speaks_callback: "speaks i m (on_callback en m e)"
proof -
  have "speaks i m (onRelayConnected en (m\<lparr>cm_relay := r\<rparr>))" for r
    by (rule speaks_trans [OF speaks_quiet speaks_connected]) simp_all
  moreover have "speaks i m (m\<lparr>cm_relay := r\<rparr>)" for r by (rule speaks_quiet) simp_all
  ultimately show ?thesis by (simp add: on_callback_def Let_def speaks_refl)
qed

lemma speaks_media: "speaks i m (FeedCapturedPCM en m d)" "speaks i m (keepalive_tick en m)"
  by (rule speaks_quiet; simp add: says)+

text \<open>The inputs of an engine after the one that begins its call.\<close>

lemma speaks_step:
  assumes "\<not> begins x"
  shows "speaks i m (cm_step m (en, x))"
  using assms
  by (cases x) (simp_all add: speaks_accept speaks_reject speaks_end speaks_handle_accept speaks_transport speaks_ack
      speaks_terminate speaks_media speaks_relayData speaks_callback)

text \<open>The offer handler serves the call its node names.\<close>

lemma emit_offer:
  assumes "cm_events m1 = cm_events m" "cm_currentCall m1 = Some c"
  shows "cm_events (emitState (emit (emit m1 (SentNode pre)) (Incoming c))) = cm_events m @ [SentNode pre, Incoming c, StateChanged c]"
    "cm_currentCall (emitState (emit (emit m1 (SentNode pre)) (Incoming c))) = Some c"
  using assms by (simp_all add: emitState_def emit_def)

lemma offer_says:
  assumes "callIDFromNode (en_J en) n = i" "i \<noteq> ''''"
  shows "\<exists>c pre. cm_events (HandleCallOffer en m (Some n) j) = cm_events m @ [SentNode pre, Incoming c, StateChanged c]
    \<and> cm_currentCall (HandleCallOffer en m (Some n) j) = Some c \<and> ci_CallID c = i \<and> \<not> IsEnded c
    \<and> call_state c = CallStateIncomingRinging \<and> ci_PeerJid c = jid_String (en_J en) j"
proof -
  obtain info where info: "ExtractNodeInfo (en_J en) (Some n) = Some info" "ni_CallID info = i"
    using assms by (cases "ExtractNodeInfo (en_J en) (Some n)") (auto simp: callIDFromNode_def)
  have new: "ci_CallID ((NewIncomingCall now i p cr g mt)\<lparr>ci_EncryptionKey := k, ci_RelayData := rd\<rparr>) = i
    \<and> \<not> IsEnded ((NewIncomingCall now i p cr g mt)\<lparr>ci_EncryptionKey := k, ci_RelayData := rd\<rparr>)
    \<and> call_state ((NewIncomingCall now i p cr g mt)\<lparr>ci_EncryptionKey := k, ci_RelayData := rd\<rparr>) = CallStateIncomingRinging
    \<and> ci_PeerJid ((NewIncomingCall now i p cr g mt)\<lparr>ci_EncryptionKey := k, ci_RelayData := rd\<rparr>) = p" for now p cr g mt k rd
    by (simp add: NewIncomingCall_def IsEnded_def)
  show ?thesis
    unfolding HandleCallOffer_def Let_def info option.case info(2)
    by (subst emit_offer [of _ m], simp add: says, simp, subst emit_offer(2) [of _ m], simp add: says, simp)
      (use new in blast)
qed

section \<open>What a call touches\<close>

definition reg_ok :: "('j, 'c, 'p) Session \<Rightarrow> bool" where
  "reg_ok s \<longleftrightarrow> distinct (map fst (se_reg s))
     \<and> (\<forall>i r. reg_get i s = Some r \<longrightarrow> r < length (se_calls s) \<and> ac_callID (se_calls s ! r) = i)"

text \<open>From one state to a later one, only entries of call \<open>i\<close> change: registry, table of calls, engines.\<close>

definition keeps :: "string \<Rightarrow> ('j, 'c, 'p) served \<Rightarrow> ('j, 'c, 'p) served \<Rightarrow> bool" where
  "keeps i st st' \<longleftrightarrow>
     (reg_ok (fst st) \<longrightarrow> reg_ok (fst st') \<and> se_id (fst st') = se_id (fst st)
        \<and> length (se_calls (fst st)) \<le> length (se_calls (fst st'))
        \<and> (\<forall>r < length (se_calls (fst st)). ac_callID (se_calls (fst st') ! r) = ac_callID (se_calls (fst st) ! r)
             \<and> (ac_callID (se_calls (fst st) ! r) \<noteq> i \<longrightarrow> se_calls (fst st') ! r = se_calls (fst st) ! r))
        \<and> (\<forall>j. j \<noteq> i \<longrightarrow> reg_get j (fst st') = reg_get j (fst st) \<and> getCall (snd st') j = getCall (snd st) j))"

lemma keeps_refl [simp]: "keeps i st st"
  by (simp add: keeps_def)

lemma keeps_trans: "keeps i a b \<Longrightarrow> keeps i b c \<Longrightarrow> keeps i a c"
  by (auto simp: keeps_def)

definition shrinks :: "('j, 'c, 'p) served \<Rightarrow> ('j, 'c, 'p) served \<Rightarrow> bool" where
  "shrinks st st' \<longleftrightarrow> (\<forall>j r. reg_get j (fst st') = Some r \<longrightarrow> reg_get j (fst st) = Some r)
     \<and> map ac_cm (se_calls (fst st')) = map ac_cm (se_calls (fst st))"

lemma shrinks_refl [simp]: "shrinks st st"
  by (simp add: shrinks_def)

lemma shrinks_trans: "shrinks a b \<Longrightarrow> shrinks b c \<Longrightarrow> shrinks a c"
  by (auto simp: shrinks_def)

lemma reg_simps [simp]:
  "reg_get j (at_call r f s) = reg_get j s" "se_reg (at_call r f s) = se_reg s" "se_id (at_call r f s) = se_id s"
  "length (se_calls (at_call r f s)) = length (se_calls s)"
  "reg_get j (spawn js s) = reg_get j s" "se_reg (spawn js s) = se_reg s" "se_id (spawn js s) = se_id s"
  "se_calls (spawn js s) = se_calls s"
  by (simp_all add: reg_get_def at_call_def spawn_def)

lemma at_call_nth: "r' < length (se_calls s) \<Longrightarrow> se_calls (at_call r f s) ! r' = (if r' = r then f (se_calls s ! r) else se_calls s ! r')"
  by (simp add: at_call_def)

lemma keeps_at_call:
  assumes "reg_ok s \<Longrightarrow> ac_callID (se_calls s ! r) = i" "\<And>ac. ac_callID (f ac) = ac_callID ac"
  shows "keeps i (s, b) (at_call r f s, b)"
  using assms by (auto simp: keeps_def reg_ok_def at_call_nth)

lemma keeps_spawn: "keeps i (s, b) (spawn js s, b)"
  by (auto simp: keeps_def reg_ok_def)

lemma getCall_ops [simp]:
  "getCall (upsertCall b rc) j = (if j = cr_CallID rc then Some rc else getCall b j)"
  "getCall (endCall b now i re) j = (if j = i then None else getCall b j)"
  "getCall (emitIncoming b now a i p ph n) j = getCall b j"
  "getCall (emitIncomingClaimed b a i ow) j = getCall b j"
proof -
  show "getCall (upsertCall b rc) j = (if j = cr_CallID rc then Some rc else getCall b j)"
    using call_table_step [of b "Upsert rc"] by (simp add: getCall_table call_table_def)
  have "getCall (br_step b (Finish now i re)) j = (if j = i then None else getCall b j)"
    unfolding getCall_table call_table_step by (cases "call_table b") (auto split: option.split)
  then show "getCall (endCall b now i re) j = (if j = i then None else getCall b j)" by simp
  show "getCall (emitIncoming b now a i p ph n) j = getCall b j"
    using call_table_step [of b "EmitIncoming now a i p ph n"] by (simp add: getCall_table call_table_def)
  show "getCall (emitIncomingClaimed b a i ow) j = getCall b j"
    using call_table_step [of b "EmitClaimed a i ow"] by (simp add: getCall_table call_table_def)
qed

lemma keeps_table:
  "(\<And>j. j \<noteq> i \<Longrightarrow> getCall b' j = getCall b j) \<Longrightarrow> keeps i (s, b) (s, b')"
  by (simp add: keeps_def)

lemma reg_get_remove: "reg_get j (snd (reg_remove i s)) = (if j = i then None else reg_get j s)"
  by (auto simp: reg_remove_def reg_get_def map_of_delete split: option.split)

lemma reg_remove_rest [simp]:
  "se_calls (snd (reg_remove i s)) = se_calls s" "se_id (snd (reg_remove i s)) = se_id s"
  by (auto simp: reg_remove_def split: option.split)

lemma reg_remove_keys: "distinct (map fst (se_reg s)) \<Longrightarrow> distinct (map fst (se_reg (snd (reg_remove i s))))"
  by (auto simp: reg_remove_def distinct_delete split: option.split)

lemma reg_ok_remove: "reg_ok s \<Longrightarrow> reg_ok (snd (reg_remove i s))"
  using reg_remove_keys [of s i] by (auto simp: reg_ok_def reg_get_remove split: if_splits)

lemma removeCall_eq:
  "\<exists>js. removeCall i (s, b) = (spawn js (snd (reg_remove i s)), b)"
proof (cases "map_of (se_reg s) i")
  case None
  then have "removeCall i (s, b) = (spawn [] (snd (reg_remove i s)), b)"
    by (simp add: removeCall_def reg_remove_def spawn_def)
  then show ?thesis by blast
next
  case (Some r)
  then show ?thesis by (auto simp: removeCall_def reg_remove_def Let_def)
qed

lemma keeps_removeCall: "keeps i (s, b) (removeCall i (s, b))"
  and shrinks_removeCall: "shrinks (s, b) (removeCall i (s, b))"
  and removeCall_gone: "reg_get i (fst (removeCall i (s, b))) = None"
  and removeCall_broker: "snd (removeCall i (s, b)) = b"
proof -
  obtain js where eq: "removeCall i (s, b) = (spawn js (snd (reg_remove i s)), b)" using removeCall_eq by blast
  have "reg_ok (spawn js s') = reg_ok s'" for s' :: "('a, 'b, 'c) Session" by (simp add: reg_ok_def)
  then show "keeps i (s, b) (removeCall i (s, b))"
    by (auto simp: eq keeps_def reg_ok_remove reg_get_remove)
  show "shrinks (s, b) (removeCall i (s, b))" by (auto simp: eq shrinks_def reg_get_remove split: if_splits)
  show "reg_get i (fst (removeCall i (s, b))) = None" "snd (removeCall i (s, b)) = b"
    by (simp_all add: eq reg_get_remove)
qed

lemma map_cm_at_call: "(\<And>ac. ac_cm (f ac) = ac_cm ac) \<Longrightarrow> map ac_cm (se_calls (at_call r f s)) = map ac_cm (se_calls s)"
  by (rule nth_equalityI) (simp_all add: at_call_nth)

lemma shrinks_at_call: "(\<And>ac. ac_cm (f ac) = ac_cm ac) \<Longrightarrow> shrinks (s, b) (at_call r f s, b)"
  by (simp add: shrinks_def map_cm_at_call)

lemma shrinks_spawn: "shrinks (s, b) (spawn js s, b)"
  by (simp add: shrinks_def)

lemma shrinks_table: "shrinks (s, b) (s, b')"
  by (simp add: shrinks_def)

lemma reg_ok_get: "reg_ok s \<Longrightarrow> reg_get i s = Some r \<Longrightarrow> r < length (se_calls s) \<and> ac_callID (se_calls s ! r) = i"
  by (auto simp: reg_ok_def)

lemma onEnded_keeps:
  assumes "ci_CallID c = i"
  shows "keeps i st (onEnded v c st)" "shrinks st (onEnded v c st)" "reg_get i (fst (onEnded v c st)) = None"
    "getCall (snd (onEnded v c st)) i = None"
proof -
  obtain s b where st: "st = (s, b)" by (cases st)
  obtain s1 b1 where rm: "removeCall i (s, b) = (s1, b1)" by (cases "removeCall i (s, b)")
  have eq: "onEnded v c st = (s1, endCall b1 (sv_now v) i (sd_EndReason (ci_StateData c)))"
    using assms rm by (simp add: onEnded_def st)
  show "keeps i st (onEnded v c st)" unfolding eq unfolding st
    by (rule keeps_trans [OF _ keeps_table]) (use keeps_removeCall [of i s b] rm in simp_all)
  show "shrinks st (onEnded v c st)" unfolding eq unfolding st
    by (rule shrinks_trans [OF _ shrinks_table]) (use shrinks_removeCall [of s b i] rm in simp)
  show "reg_get i (fst (onEnded v c st)) = None" "getCall (snd (onEnded v c st)) i = None"
    using removeCall_gone [of i s b] rm by (simp_all add: eq)
qed

text \<open>All that may concern a call, an incoming one included.\<close>

fun concerns :: "string \<Rightarrow> ('j, 'p) cm_event \<Rightarrow> bool" where
  "concerns i (Incoming c) = (ci_CallID c = i)"
| "concerns i e = about i e"

lemma about_concerns: "about i e \<Longrightarrow> concerns i e"
  by (cases e) simp_all

lemma on_event_keeps:
  assumes "concerns i e"
  shows "keeps i st (on_event v i e st)" "shrinks st (on_event v i e st)"
proof -
  obtain s b where st: "st = (s, b)" by (cases st)
  have "keeps i st (on_event v i e st) \<and> shrinks st (on_event v i e st)"
  proof (cases e)
    case (StateChanged c)
    then have i: "ci_CallID c = i" using assms by simp
    show ?thesis
    proof (cases "IsEnded c")
      case True
      then show ?thesis using onEnded_keeps(1,2) [OF i, of st v] by (simp add: StateChanged onStateChange_def)
    next
      case False
      have eq: "\<exists>s1 rc. on_event v i e st = (s1, upsertCall b rc) \<and> cr_CallID rc = i
        \<and> (s1 = s \<or> (\<exists>r. reg_get i s = Some r \<and> s1 = at_call r (\<lambda>ac. ac\<lparr>ac_answered := True\<rparr>) s))"
        using False i by (auto simp: StateChanged onStateChange_def st Let_def split: option.split)
      then obtain s1 rc where e: "on_event v i e st = (s1, upsertCall b rc)" "cr_CallID rc = i"
        and s1: "s1 = s \<or> (\<exists>r. reg_get i s = Some r \<and> s1 = at_call r (\<lambda>ac. ac\<lparr>ac_answered := True\<rparr>) s)" by blast
      have "keeps i (s, b) (s1, b) \<and> shrinks (s, b) (s1, b)"
        using s1 by (auto intro!: keeps_at_call shrinks_at_call dest: reg_ok_get)
      then show ?thesis unfolding e(1) unfolding st
        using keeps_trans [OF _ keeps_table [of i "upsertCall b rc" b s1]] shrinks_trans [OF _ shrinks_table] e(2) by auto
    qed
  next
    case (Incoming c)
    define s1 where "s1 = (case reg_get i s of None \<Rightarrow> s | Some r \<Rightarrow> at_call r (\<lambda>ac. ac\<lparr>ac_inbound := True\<rparr>) s)"
    have "keeps i (s, b) (s1, b) \<and> shrinks (s, b) (s1, b)"
      unfolding s1_def by (auto intro!: keeps_at_call shrinks_at_call dest: reg_ok_get split: option.split)
    moreover have "\<exists>b'. on_event v i e st = (s1, b') \<and> (\<forall>j. j \<noteq> i \<longrightarrow> getCall b' j = getCall b j)"
      using assms by (auto simp: Incoming onIncoming_def st Let_def s1_def split: prod.split)
    then obtain b' where "on_event v i e st = (s1, b')" "\<And>j. j \<noteq> i \<Longrightarrow> getCall b' j = getCall b j" by blast
    ultimately show ?thesis unfolding st
      using keeps_trans [OF _ keeps_table [of i b' b s1]] shrinks_trans [OF _ shrinks_table] by auto
  next
    case (EndedCall c)
    then show ?thesis using onEnded_keeps(1,2) [of c i st v] assms by simp
  next
    case (PeerAudio pcm)
    have "keeps i (s, b) (onPeerAudio v i pcm (s, b)) \<and> shrinks (s, b) (onPeerAudio v i pcm (s, b))"
    proof (cases "reg_get i s")
      case None
      then show ?thesis by (simp add: onPeerAudio_def)
    next
      case (Some r)
      define s1 where "s1 = at_call r (\<lambda>ac. ac\<lparr>ac_recorder := writePeer (ac_recorder ac) pcm\<rparr>) s"
      have s1: "keeps i (s, b) (s1, b)" "shrinks (s, b) (s1, b)" "reg_get i s1 = Some r"
        unfolding s1_def using Some by (auto intro!: keeps_at_call shrinks_at_call dest: reg_ok_get)
      have more: "keeps i (s1, b) (at_call r f s1, b)" "shrinks (s1, b) (at_call r f s1, b)"
        if "\<And>ac. ac_callID (f ac) = ac_callID ac" "\<And>ac. ac_cm (f ac) = ac_cm ac" for f
        using that s1(3) by (auto intro!: keeps_at_call shrinks_at_call dest: reg_ok_get)
      show ?thesis
        using Some s1 by (auto simp: onPeerAudio_def Let_def simp flip: s1_def split: option.split
            intro!: keeps_trans [OF s1(1)] shrinks_trans [OF s1(2)] keeps_trans [OF more(1) keeps_spawn]
              shrinks_trans [OF more(2) shrinks_spawn])
    qed
    then show ?thesis by (simp add: PeerAudio st)
  qed (use assms in simp_all)
  then show "keeps i st (on_event v i e st)" "shrinks st (on_event v i e st)" by simp_all
qed

lemma events_keep:
  "\<forall>e \<in> set evs. concerns i e \<Longrightarrow> keeps i st (fold (on_event v i) evs st) \<and> shrinks st (fold (on_event v i) evs st)"
proof (induction evs arbitrary: st)
  case (Cons e evs)
  then have "keeps i st (on_event v i e st)" "shrinks st (on_event v i e st)"
    using on_event_keeps [of i e st v] by simp_all
  moreover have "keeps i (on_event v i e st) (fold (on_event v i) evs (on_event v i e st))"
      "shrinks (on_event v i e st) (fold (on_event v i) evs (on_event v i e st))"
    using Cons by simp_all
  ultimately show ?case by (auto elim: keeps_trans shrinks_trans)
qed simp

lemma shrinks_gone: "shrinks st st' \<Longrightarrow> reg_get i (fst st) = None \<Longrightarrow> reg_get i (fst st') = None"
  by (metis not_None_eq shrinks_def)

text \<open>A call whose end is said has left the registry.\<close>

lemma events_end:
  "\<forall>e \<in> set evs. concerns i e \<Longrightarrow> says_end evs \<Longrightarrow> reg_get i (fst (fold (on_event v i) evs st)) = None"
proof (induction evs arbitrary: st)
  case Nil
  then show ?case by (simp add: says_end_def)
next
  case (Cons e evs)
  show ?case
  proof (cases "says_end evs")
    case False
    then obtain c where e: "e = StateChanged c" "IsEnded c" using Cons.prems(2) by (auto simp: says_end_def)
    then have "reg_get i (fst (on_event v i e st)) = None"
      using Cons.prems(1) onEnded_keeps(3) [of c i v st] by (simp add: onStateChange_def)
    moreover have "shrinks (on_event v i e st) (fold (on_event v i) evs (on_event v i e st))"
      using events_keep [of evs i "on_event v i e st" v] Cons.prems(1) by simp
    ultimately show ?thesis using shrinks_gone by simp
  qed (use Cons in simp)
qed

section \<open>Runs keep the invariant\<close>

text \<open>Registered calls are live, and every engine ever created serves the call it was created for.\<close>

definition served_ok :: "('j, 'c, 'p) served \<Rightarrow> bool" where
  "served_ok st \<longleftrightarrow> reg_ok (fst st)
     \<and> (\<forall>r < length (se_calls (fst st)). id_ok (ac_callID (se_calls (fst st) ! r)) (ac_cm (se_calls (fst st) ! r)))
     \<and> (\<forall>i r. reg_get i (fst st) = Some r \<longrightarrow>
          (\<exists>c. cm_currentCall (ac_cm (se_calls (fst st) ! r)) = Some c \<and> \<not> IsEnded c))"

lemma speaks_new_events:
  "speaks i m m' \<Longrightarrow> cm_events m' = cm_events m @ new_events m m' \<and> (id_ok i m \<longrightarrow> id_ok i m' \<and> (\<forall>e \<in> set (new_events m m'). about i e))
     \<and> (over m' \<longrightarrow> over m \<or> says_end (new_events m m')) \<and> (cm_currentCall m \<noteq> None \<longrightarrow> cm_currentCall m' \<noteq> None)"
  by (auto simp: speaks_def new_events_def)

text \<open>The cell of a call after an operation of its engine.\<close>

lemma run_cm_eq:
  "run_cm v r f (s, b) = fold (on_event v (ac_callID (se_calls s ! r))) (new_events (ac_cm (se_calls s ! r)) (f (ac_cm (se_calls s ! r))))
     (at_call r (\<lambda>ac. ac\<lparr>ac_cm := f (ac_cm ac)\<rparr>) s, b)"
  by (simp add: run_cm_def Let_def at_call_def)

lemma run_cm_keeps:
  assumes "r < length (se_calls s)" "i = ac_callID (se_calls s ! r)"
    and ab: "\<forall>e \<in> set (new_events (ac_cm (se_calls s ! r)) (f (ac_cm (se_calls s ! r)))). concerns i e"
  shows "keeps i (s, b) (run_cm v r f (s, b))"
    "reg_get j (fst (run_cm v r f (s, b))) = Some k \<Longrightarrow> reg_get j s = Some k"
    "k < length (se_calls s) \<Longrightarrow> ac_cm (se_calls (fst (run_cm v r f (s, b))) ! k)
       = (if k = r then f (ac_cm (se_calls s ! r)) else ac_cm (se_calls s ! k))"
    "length (se_calls (fst (run_cm v r f (s, b)))) = length (se_calls s)"
    "says_end (new_events (ac_cm (se_calls s ! r)) (f (ac_cm (se_calls s ! r)))) \<Longrightarrow> reg_get i (fst (run_cm v r f (s, b))) = None"
proof -
  define m where "m = ac_cm (se_calls s ! r)"
  define s1 where "s1 = at_call r (\<lambda>ac. ac\<lparr>ac_cm := f (ac_cm ac)\<rparr>) s"
  define st' where "st' = run_cm v r f (s, b)"
  have eq: "st' = fold (on_event v i) (new_events m (f m)) (s1, b)"
    unfolding st'_def by (simp add: run_cm_eq s1_def m_def assms(2))
  note ab' = ab [folded m_def]
  have k1: "keeps i (s, b) (s1, b)" unfolding s1_def using assms(2) by (intro keeps_at_call) simp_all
  note k2 = events_keep [OF ab', of "(s1, b)" v, folded eq]
  show "keeps i (s, b) (run_cm v r f (s, b))" using keeps_trans [OF k1] k2 by (simp add: st'_def)
  have "reg_get j (fst st') = Some k \<Longrightarrow> reg_get j s1 = Some k" using k2 by (simp add: shrinks_def)
  then show "reg_get j (fst (run_cm v r f (s, b))) = Some k \<Longrightarrow> reg_get j s = Some k" by (simp add: st'_def s1_def)
  have cms: "map ac_cm (se_calls (fst st')) = map ac_cm (se_calls s1)" using k2 by (simp add: shrinks_def)
  have len: "length (se_calls (fst st')) = length (se_calls s)"
    using arg_cong [OF cms, of length] by (simp add: s1_def)
  then show "length (se_calls (fst (run_cm v r f (s, b)))) = length (se_calls s)" by (simp add: st'_def)
  show "ac_cm (se_calls (fst (run_cm v r f (s, b))) ! k) = (if k = r then f (ac_cm (se_calls s ! r)) else ac_cm (se_calls s ! k))"
    if "k < length (se_calls s)"
  proof -
    have "ac_cm (se_calls (fst st') ! k) = ac_cm (se_calls s1 ! k)"
      using arg_cong [OF cms, of "\<lambda>xs. xs ! k"] that len by (simp add: s1_def)
    then show ?thesis using that by (simp add: s1_def at_call_nth st'_def)
  qed
  show "reg_get i (fst (run_cm v r f (s, b))) = None"
    if "says_end (new_events (ac_cm (se_calls s ! r)) (f (ac_cm (se_calls s ! r))))"
    using that events_end [OF ab', of v "(s1, b)"] by (simp add: eq m_def flip: st'_def)
qed

lemma keeps_ok: "keeps i st st' \<Longrightarrow> reg_ok (fst st) \<Longrightarrow> reg_ok (fst st')"
  by (simp add: keeps_def)

lemma keeps_callID: "keeps i st st' \<Longrightarrow> reg_ok (fst st) \<Longrightarrow> r < length (se_calls (fst st)) \<Longrightarrow>
    ac_callID (se_calls (fst st') ! r) = ac_callID (se_calls (fst st) ! r)"
  by (simp add: keeps_def)

definition live :: "('j, 'c, 'p) CallManager \<Rightarrow> bool" where
  "live m \<longleftrightarrow> (\<exists>c. cm_currentCall m = Some c \<and> \<not> IsEnded c)"

text \<open>The invariant, call \<open>q\<close> aside.\<close>

definition served_but :: "nat \<Rightarrow> ('j, 'c, 'p) Session \<Rightarrow> bool" where
  "served_but q s \<longleftrightarrow> reg_ok s
     \<and> (\<forall>r < length (se_calls s). r \<noteq> q \<longrightarrow> id_ok (ac_callID (se_calls s ! r)) (ac_cm (se_calls s ! r)))
     \<and> (\<forall>i r. reg_get i s = Some r \<longrightarrow> r \<noteq> q \<longrightarrow> live (ac_cm (se_calls s ! r)))"

lemma served_ok_but: "served_ok (s, b) \<Longrightarrow> served_but r s"
  by (auto simp: served_ok_def served_but_def live_def)

lemma run_cm_ok_but:
  assumes ok: "served_but r s" and r: "r < length (se_calls s)" and i: "i = ac_callID (se_calls s ! r)"
    and ab: "\<forall>e \<in> set (new_events (ac_cm (se_calls s ! r)) (f (ac_cm (se_calls s ! r)))). concerns i e"
    and id: "id_ok i (f (ac_cm (se_calls s ! r)))"
    and live: "reg_get i (fst (run_cm v r f (s, b))) = Some r \<Longrightarrow> live (f (ac_cm (se_calls s ! r)))"
  shows "served_ok (run_cm v r f (s, b))"
proof -
  note rk = run_cm_keeps [where f = f, OF r i ab]
  obtain s' b' where st': "run_cm v r f (s, b) = (s', b')" by (cases "run_cm v r f (s, b)")
  have reg: "reg_ok s" using ok by (simp add: served_but_def)
  have cid: "ac_callID (se_calls s' ! k) = ac_callID (se_calls s ! k)" if "k < length (se_calls s)" for k
    using keeps_callID [OF rk(1) [where v = v and b = b]] reg that st' by simp
  show ?thesis
    unfolding served_ok_def st' fst_conv
  proof (intro conjI allI impI)
    show "reg_ok s'" using keeps_ok [OF rk(1) [where v = v and b = b]] reg st' by simp
    show "id_ok (ac_callID (se_calls s' ! k)) (ac_cm (se_calls s' ! k))" if "k < length (se_calls s')" for k
    proof -
      have "k < length (se_calls s)" using that rk(4) [where v = v and b = b] st' by simp
      then show ?thesis using cid rk(3) [where v = v and b = b and k = k] st' ok id i by (auto simp: served_but_def)
    qed
    show "\<exists>c. cm_currentCall (ac_cm (se_calls s' ! k)) = Some c \<and> \<not> IsEnded c" if "reg_get j s' = Some k" for j k
    proof -
      have old: "reg_get j s = Some k" using rk(2) [where v = v and b = b and j = j and k = k] that st' by simp
      then have k: "k < length (se_calls s)" "ac_callID (se_calls s ! k) = j" using reg_ok_get [OF reg] by auto
      have "live (ac_cm (se_calls s' ! k))"
      proof (cases "k = r")
        case True
        then have "j = i" using k i by simp
        then show ?thesis using live that rk(3) [OF k(1), where v = v and b = b] st' True by simp
      next
        case False
        then show ?thesis using rk(3) [OF k(1), where v = v and b = b] st' ok old by (simp add: served_but_def)
      qed
      then show ?thesis by (simp add: live_def)
    qed
  qed
qed

lemma run_cm_ok:
  assumes ok: "served_ok (s, b)" and r: "r < length (se_calls s)" and sp: "\<And>i m. speaks i m (f m)"
  shows "served_ok (run_cm v r f (s, b))"
    and "keeps (ac_callID (se_calls s ! r)) (s, b) (run_cm v r f (s, b))"
    and "reg_get j (fst (run_cm v r f (s, b))) = Some k \<Longrightarrow> reg_get j s = Some k"
proof -
  define i where "i = ac_callID (se_calls s ! r)"
  define m where "m = ac_cm (se_calls s ! r)"
  have id: "id_ok i m" using ok r by (simp add: served_ok_def i_def m_def)
  note ev = speaks_new_events [OF sp [of i m]]
  have ab: "\<forall>e \<in> set (new_events m (f m)). concerns i e" using ev id about_concerns by blast
  note rk = run_cm_keeps [where f = f, OF r i_def ab [unfolded m_def]]
  show "keeps (ac_callID (se_calls s ! r)) (s, b) (run_cm v r f (s, b))" using rk(1) by (simp add: i_def)
  show bk: "reg_get j (fst (run_cm v r f (s, b))) = Some k \<Longrightarrow> reg_get j s = Some k" for j k by (rule rk(2))
  have "live (f m)" if k: "reg_get i (fst (run_cm v r f (s, b))) = Some r"
  proof -
    have "reg_get i s = Some r" using k by (rule bk)
    then obtain c where "cm_currentCall m = Some c" "\<not> IsEnded c" using ok unfolding served_ok_def m_def by fastforce
    then have m: "cm_currentCall m \<noteq> None" "\<not> over m" by (simp_all add: over_def)
    have "\<not> says_end (new_events m (f m))" using rk(5) [where v = v and b = b] k by (auto simp: m_def)
    then show ?thesis using ev m by (auto simp: live_def over_def)
  qed
  then show "served_ok (run_cm v r f (s, b))"
    using run_cm_ok_but [where f = f, OF served_ok_but [OF ok] r i_def ab [unfolded m_def]] ev id by (simp add: m_def)
qed


section \<open>One call at a time\<close>

text \<open>
  What every operation on call \<open>i\<close> that begins no call does: the invariant is kept, only call \<open>i\<close> is touched, and no
  call is added.
\<close>

definition serves :: "string \<Rightarrow> ('j, 'c, 'p) served \<Rightarrow> ('j, 'c, 'p) served \<Rightarrow> bool" where
  "serves i st st' \<longleftrightarrow> (served_ok st \<longrightarrow> served_ok st' \<and> keeps i st st'
     \<and> (\<forall>j. reg_get j (fst st') \<noteq> None \<longrightarrow> reg_get j (fst st) \<noteq> None))"

lemma serves_refl [simp]: "serves i st st"
  by (simp add: serves_def)

lemma serves_trans: "serves i a b \<Longrightarrow> serves i b c \<Longrightarrow> serves i a c"
  unfolding serves_def using keeps_trans by blast

lemma served_ok_reg: "served_ok (s, b) \<Longrightarrow> reg_ok s"
  by (simp add: served_ok_def)

lemma serves_run:
  assumes "r < length (se_calls s)" "ac_callID (se_calls s ! r) = i" "\<And>i m. speaks i m (f m)"
  shows "serves i (s, b) (run_cm v r f (s, b))"
  unfolding serves_def using run_cm_ok [where s = s and b = b and r = r and f = f and v = v] assms by fastforce

lemma serves_registered:
  assumes "\<And>r. reg_get i s = Some r \<Longrightarrow> st' = run_cm v r f (s, b)" "reg_get i s = None \<Longrightarrow> st' = (s, b)"
    "\<And>i m. speaks i m (f m)"
  shows "serves i (s, b) st'"
proof (cases "reg_get i s")
  case (Some r)
  then have "serves i (s, b) (run_cm v r f (s, b))" if "served_ok (s, b)"
    using serves_run [where r = r and s = s and i = i and f = f and b = b and v = v] reg_ok_get [OF served_ok_reg [OF that] Some] assms(3) by simp
  then show ?thesis using assms(1) [OF Some] by (auto simp: serves_def)
qed (use assms(2) in simp)

lemma serves_shrink:
  assumes "keeps i st st'" "shrinks st st'"
  shows "serves i st st'"
proof -
  have "served_ok st'" if ok: "served_ok st"
  proof -
    have reg: "reg_ok (fst st)" "reg_ok (fst st')" using ok assms(1) by (simp_all add: served_ok_def keeps_def)
    have cms: "map ac_cm (se_calls (fst st')) = map ac_cm (se_calls (fst st))" using assms(2) by (simp add: shrinks_def)
    have len: "length (se_calls (fst st')) = length (se_calls (fst st))" using arg_cong [OF cms, of length] by simp
    have cm: "ac_cm (se_calls (fst st') ! r) = ac_cm (se_calls (fst st) ! r)" if "r < length (se_calls (fst st))" for r
      using arg_cong [OF cms, of "\<lambda>xs. xs ! r"] that len by simp
    have bk: "reg_get j (fst st) = Some r" if "reg_get j (fst st') = Some r" for j r
      using that assms(2) by (simp add: shrinks_def)
    show ?thesis
      unfolding served_ok_def
    proof (intro conjI allI impI)
      show "reg_ok (fst st')" by (rule reg(2))
      show "id_ok (ac_callID (se_calls (fst st') ! r)) (ac_cm (se_calls (fst st') ! r))" if "r < length (se_calls (fst st'))" for r
        using that ok cm len keeps_callID [OF assms(1) reg(1), of r] by (simp add: served_ok_def)
      show "\<exists>c. cm_currentCall (ac_cm (se_calls (fst st') ! r)) = Some c \<and> \<not> IsEnded c"
        if "reg_get j (fst st') = Some r" for j r
      proof -
        have "r < length (se_calls (fst st))" using reg_ok_get [OF reg(2) that] len by simp
        then show ?thesis using bk [OF that] ok cm by (fastforce simp: served_ok_def)
      qed
    qed
  qed
  then show ?thesis using assms by (auto simp: serves_def shrinks_def)
qed

lemma serves_spawn: "serves i (s, b) (spawn js s, b)"
  by (rule serves_shrink [OF keeps_spawn shrinks_spawn])

lemma serves_table: "(\<And>j. j \<noteq> i \<Longrightarrow> getCall b' j = getCall b j) \<Longrightarrow> serves i (s, b) (s, b')"
  by (rule serves_shrink [OF keeps_table shrinks_table]) simp

lemma serves_removeCall: "serves i (s, b) (removeCall i (s, b))"
  by (rule serves_shrink [OF keeps_removeCall shrinks_removeCall])

lemma getCall_setOwner: "j \<noteq> i \<Longrightarrow> getCall (snd (setOwner b i owner)) j = getCall b j"
  by (auto simp: setOwner_def getCall_def map_of_update split: option.split)

lemma serves_finish: "serves i st (finish v i reason st)"
proof -
  obtain s b where st: "st = (s, b)" by (cases st)
  obtain s1 b1 where rm: "removeCall i (s, b) = (s1, b1)" by (cases "removeCall i (s, b)")
  show ?thesis unfolding st finish_def rm case_prod_conv
    by (rule serves_trans [OF _ serves_table]) (use serves_removeCall [of i s b] rm in simp_all)
qed

lemma serves_terminate: "serves i st (terminateCall v i reason st)"
  by (cases st) (auto simp: terminateCall_def intro!: serves_registered [OF _ _ speaks_end] split: option.split)

lemma serves_cut: "serves i st (cutIfStillRinging v i st)"
  by (auto simp: cutIfStillRinging_def serves_terminate split: option.split)

lemma serves_to_call:
  assumes "\<And>n i m. speaks i m (h n m)"
  shows "serves (callIDFromNode (en_J (sv_en v)) (wrapCall from data)) st (to_call v from data h st)"
  by (cases st) (auto simp: to_call_def callForEvent_def Let_def
      intro!: serves_registered [of _ _ _ v "h (wrapCall from data)"] assms split: option.split)

lemma serves_setBridge: "serves i (s, b) (setBridge i br s, b)"
proof (cases "reg_get i s")
  case None
  then show ?thesis by (simp add: setBridge_def reg_setBridge_def reg_get_def serves_spawn)
next
  case (Some r)
  define s1 where "s1 = at_call r (\<lambda>ac. ac\<lparr>ac_bridge := Some br\<rparr>) s"
  have "serves i (s, b) (s1, b)"
    unfolding s1_def by (rule serves_shrink) (auto intro!: keeps_at_call shrinks_at_call dest: reg_ok_get [OF _ Some])
  moreover have "\<exists>js. setBridge i br s = spawn js s1"
    using Some by (auto simp: setBridge_def reg_setBridge_def reg_get_def s1_def)
  ultimately show ?thesis using serves_trans [OF _ serves_spawn] by metis
qed

lemma serves_doWebRTC: "serves i st (snd (doWebRTC i sdp made st))"
  by (cases st) (auto simp: doWebRTC_def serves_setBridge split: sum.split)

lemma serves_doReject: "serves i st (snd (doReject v i st))"
proof (cases st)
  case (Pair s b)
  define st1 where "st1 = (case reg_get i s of None \<Rightarrow> (s, b)
    | Some r \<Rightarrow> run_cm v r (\<lambda>m. snd (RejectCall (sv_en v) m i EndCallReasonDeclined)) (s, b))"
  have "serves i (s, b) st1"
    unfolding st1_def by (rule serves_registered [OF _ _ speaks_reject]) simp_all
  then show ?thesis using serves_trans [OF _ serves_finish, of i "(s, b)" st1 v]
    by (simp add: doReject_def Pair Let_def flip: st1_def)
qed

lemma serves_doEndCall: "serves i st (snd (doEndCall v i st))"
proof (cases st)
  case (Pair s b)
  define st1 where "st1 = (case reg_get i s of None \<Rightarrow> (s, b)
    | Some r \<Rightarrow> run_cm v r (\<lambda>m. EndCall (sv_en v) m EndCallReasonUserEnded) (s, b))"
  have "serves i (s, b) st1"
    unfolding st1_def by (rule serves_registered [OF _ _ speaks_end]) simp_all
  then show ?thesis using serves_trans [OF _ serves_finish, of i "(s, b)" st1 v]
    by (simp add: doEndCall_def Pair Let_def flip: st1_def)
qed

lemma serves_doAccept: "serves i st (snd (doAccept v owner i st))"
proof (cases st)
  case (Pair s b)
  show ?thesis
  proof (cases "reg_get i s")
    case None
    then show ?thesis by (simp add: doAccept_def Pair)
  next
    case (Some r)
    obtain won b1 where set: "setOwner b i owner = (won, b1)" by (cases "setOwner b i owner")
    have b1: "getCall b1 j = getCall b j" if "j \<noteq> i" for j using getCall_setOwner [OF that, of b owner] set by simp
    define b2 where "b2 = emitIncomingClaimed b1 (se_id s) i owner"
    have t2: "serves i (s, b) (s, b2)" unfolding b2_def by (rule serves_table) (simp add: b1)
    have "serves i (s, b2) (run_cm v r (\<lambda>m. snd (AcceptCall (sv_en v) m i)) (s, b2))"
      by (rule serves_registered [OF _ _ speaks_accept]) (use Some in simp_all)
    then have "serves i (s, b) (run_cm v r (\<lambda>m. snd (AcceptCall (sv_en v) m i)) (s, b2))" by (rule serves_trans [OF t2])
    moreover have "serves i (s, b) (s, b1)" by (rule serves_table) (rule b1)
    ultimately show ?thesis
      using Some by (auto simp: doAccept_def Pair set Let_def simp flip: b2_def split: sum.split bool.split)
  qed
qed

lemma serves_browser:
  assumes "r < length (se_calls s)" "ac_callID (se_calls s ! r) = i"
  shows "serves i (s, b) (OnBrowserPCM v r pcm (s, b))"
proof -
  obtain s1 b1 where run: "run_cm v r (\<lambda>m. FeedCapturedPCM (sv_en v) m pcm) (s, b) = (s1, b1)"
    by (cases "run_cm v r (\<lambda>m. FeedCapturedPCM (sv_en v) m pcm) (s, b)")
  define s2 where "s2 = at_call r (\<lambda>ac. ac\<lparr>ac_recorder := writeBrowser (ac_recorder ac) pcm\<rparr>) s1"
  have run1: "serves i (s, b) (s1, b1)"
    using serves_run [OF assms, where f = "\<lambda>m. FeedCapturedPCM (sv_en v) m pcm" and v = v and b = b] run
    by (simp add: speaks_media)
  have "serves i (s1, b1) (s2, b1)" if "ac_callID (se_calls s1 ! r) = i"
    unfolding s2_def by (rule serves_shrink) (use that in \<open>auto intro!: keeps_at_call shrinks_at_call\<close>)
  moreover have "ac_callID (se_calls s1 ! r) = i" if "served_ok (s, b)"
    using run1 that keeps_callID [of i "(s, b)" "(s1, b1)" r] assms by (simp add: serves_def served_ok_def)
  ultimately have "serves i (s, b) (s2, b1)" using serves_trans [OF run1] by (metis serves_def)
  then show ?thesis by (simp add: OnBrowserPCM_def run s2_def)
qed

lemma serves_engine:
  assumes "r < length (se_calls s)" "ac_callID (se_calls s ! r) = i"
  shows "serves i (s, b) (engine_step v r x (s, b))"
proof -
  have "\<not> begins x" if "from_relay x" using that by (cases x) simp_all
  then show ?thesis
    using assms serves_run [OF assms, where f = "\<lambda>m. cm_step m (sv_en v, x)" and v = v and b = b] speaks_step
    by (auto simp: engine_step_def)
qed

section \<open>Beginning a call\<close>

lemma createCall_facts:
  assumes "createCall v i s = (r, s1)"
  shows "r = length (se_calls s)" "length (se_calls s1) = Suc r" "ac_callID (se_calls s1 ! r) = i"
    "ac_cm (se_calls s1 ! r) = NewCallManager" "\<And>k. k < r \<Longrightarrow> se_calls s1 ! k = se_calls s ! k"
    "reg_get j s1 = (if j = i then Some r else reg_get j s)" "se_id s1 = se_id s"
    "reg_count s1 \<le> reg_count s + 1"
proof -
  have eq: "r = length (se_calls s)" "\<exists>ac. s1 = reg_add i r (s\<lparr>se_calls := se_calls s @ [ac]\<rparr>) \<and> ac_callID ac = i
      \<and> ac_cm ac = NewCallManager"
    using assms by (auto simp: createCall_def Let_def)
  then obtain ac where s1: "s1 = reg_add i r (s\<lparr>se_calls := se_calls s @ [ac]\<rparr>)" "ac_callID ac = i" "ac_cm ac = NewCallManager"
    by blast
  have len: "length (AList.update i r xs) \<le> Suc (length xs)" for xs :: "(string \<times> nat) list"
    by (induction xs) auto
  show "r = length (se_calls s)" "length (se_calls s1) = Suc r" "ac_callID (se_calls s1 ! r) = i"
    "ac_cm (se_calls s1 ! r) = NewCallManager" "\<And>k. k < r \<Longrightarrow> se_calls s1 ! k = se_calls s ! k"
    "reg_get j s1 = (if j = i then Some r else reg_get j s)" "se_id s1 = se_id s"
    using eq(1) s1(2,3) by (simp_all add: s1(1) reg_add_def reg_get_def nth_append map_of_update)
  show "reg_count s1 \<le> reg_count s + 1" using len [of "se_reg s"] by (simp add: s1(1) reg_count_def reg_add_def)
qed

lemma createCall_reg_ok:
  assumes "createCall v i s = (r, s1)" "reg_ok s"
  shows "reg_ok s1"
proof -
  have "distinct (map fst (se_reg s1))"
    using assms by (auto simp: createCall_def Let_def reg_add_def reg_ok_def distinct_update)
  moreover have "k < length (se_calls s1) \<and> ac_callID (se_calls s1 ! k) = j" if "reg_get j s1 = Some k" for j k
    using that createCall_facts [OF assms(1)] reg_ok_get [OF assms(2), of j k] by (auto split: if_splits)
  ultimately show ?thesis by (simp add: reg_ok_def)
qed

lemma createCall_keeps:
  assumes "createCall v i s = (r, s1)"
  shows "keeps i (s, b) (s1, b)"
  using createCall_facts [OF assms] createCall_reg_ok [OF assms] by (auto simp: keeps_def)

lemma createCall_but:
  assumes "createCall v i s = (r, s1)" "served_ok (s, b)"
  shows "served_but r s1"
proof -
  note f = createCall_facts [OF assms(1)]
  have "reg_ok s" using assms(2) by (rule served_ok_reg)
  show ?thesis
    unfolding served_but_def
  proof (intro conjI allI impI)
    show "reg_ok s1" using createCall_reg_ok [OF assms(1) \<open>reg_ok s\<close>] .
    show "id_ok (ac_callID (se_calls s1 ! k)) (ac_cm (se_calls s1 ! k))" if "k < length (se_calls s1)" "k \<noteq> r" for k
      using that f(1,2,5) assms(2) by (simp add: served_ok_def)
    show "live (ac_cm (se_calls s1 ! k))" if "reg_get j s1 = Some k" "k \<noteq> r" for j k
    proof -
      have "reg_get j s = Some k" using that f(6) by (simp split: if_splits)
      then have "k < r" "live (ac_cm (se_calls s ! k))"
        using reg_ok_get [OF \<open>reg_ok s\<close>] f(1) assms(2) by (auto simp: served_ok_def live_def)
      then show ?thesis using f(5) by simp
    qed
  qed
qed

text \<open>The first operation of a new engine.\<close>

lemma begin_ok:
  assumes c: "createCall v i s = (r, s1)" and ok: "served_ok (s, b)"
    and ab: "\<forall>e \<in> set (new_events NewCallManager (f NewCallManager)). concerns i e"
    and f: "id_ok i (f NewCallManager)" "live (f NewCallManager)"
  shows "served_ok (run_cm v r f (s1, b))" "keeps i (s, b) (run_cm v r f (s1, b))"
    "reg_get j (fst (run_cm v r f (s1, b))) \<noteq> None \<Longrightarrow> j = i \<or> reg_get j s \<noteq> None"
proof -
  note cf = createCall_facts [OF c]
  have r: "r < length (se_calls s1)" "i = ac_callID (se_calls s1 ! r)" using cf by simp_all
  note rk = run_cm_keeps [where f = f and i = i, OF r, unfolded cf(4), OF ab]
  show "served_ok (run_cm v r f (s1, b))"
    by (rule run_cm_ok_but [OF createCall_but [OF c ok] r]) (use ab f cf(4) in simp_all)
  show "keeps i (s, b) (run_cm v r f (s1, b))" by (rule keeps_trans [OF createCall_keeps [OF c] rk(1)])
  show "j = i \<or> reg_get j s \<noteq> None" if "reg_get j (fst (run_cm v r f (s1, b))) \<noteq> None"
  proof -
    obtain k where "reg_get j (fst (run_cm v r f (s1, b))) = Some k" using \<open>reg_get j (fst (run_cm v r f (s1, b))) \<noteq> None\<close> by blast
    then have "reg_get j s1 = Some k" by (rule rk(2))
    then show ?thesis using cf(6) by (simp split: if_splits)
  qed
qed

lemma start_live: "live (snd (StartCall en NewCallManager i j v))" "id_ok i (snd (StartCall en NewCallManager i j v))"
  by (auto simp: live_def id_ok_def StartCall_def NewCallManager_def start_new_def Let_def emit_def emitState_def
      apply_current_def initCodec_def NewOutgoingCall_def try_transition_def ApplyTransition_def transition_def IsEnded_def
      split: sum.split)

lemma start_concerns: "\<forall>e \<in> set (new_events NewCallManager (snd (StartCall en NewCallManager i j v))). concerns i e"
proof -
  have "speaks i NewCallManager (snd (StartCall en NewCallManager i j v))"
    by (rule speaks_start) (simp add: NewCallManager_def)
  then have "\<forall>e \<in> set (new_events NewCallManager (snd (StartCall en NewCallManager i j v))). about i e"
    by (auto simp: speaks_def new_events_def NewCallManager_def id_ok_def)
  then show ?thesis using about_concerns by blast
qed

text \<open>A step that begins call \<open>i\<close> keeps the invariant, touches only this call, and registers at most this call.\<close>

definition may_begin :: "string \<Rightarrow> ('j, 'c, 'p) served \<Rightarrow> ('j, 'c, 'p) served \<Rightarrow> bool" where
  "may_begin i st st' \<longleftrightarrow> (served_ok st \<longrightarrow> served_ok st' \<and> keeps i st st'
     \<and> (\<forall>j. reg_get j (fst st') \<noteq> None \<longrightarrow> j = i \<or> reg_get j (fst st) \<noteq> None))"

lemma may_begin_serves: "may_begin i a b \<Longrightarrow> serves i b c \<Longrightarrow> may_begin i a c"
  unfolding may_begin_def serves_def using keeps_trans by blast

lemma serves_may_begin: "serves i a b \<Longrightarrow> may_begin i a b"
  unfolding may_begin_def serves_def by blast

lemma startOutgoing_begins: "may_begin (GenerateCallID draw) st (snd (startOutgoing v draw peer vid st))"
proof (cases st)
  case (Pair s b)
  define i where "i = GenerateCallID draw"
  obtain r s1 where c: "createCall v i s = (r, s1)" by (cases "createCall v i s")
  define f where "f = (\<lambda>m. snd (StartCall (sv_en v) m i peer vid))"
  define st1 where "st1 = run_cm v r f (s1, b)"
  have b: "may_begin i (s, b) st1"
    unfolding may_begin_def st1_def
    using begin_ok [where f = f and i = i, OF c] start_concerns [where en = "sv_en v" and i = i and j = peer and v = vid]
      start_live [where en = "sv_en v" and i = i and j = peer and v = vid] by (simp add: f_def)
  have "snd (startOutgoing v draw peer vid st) \<in> {removeCall i st1, (spawn [WatchRing i] (fst st1), snd st1)}"
    using c by (auto simp: startOutgoing_def Pair Let_def st1_def f_def i_def split: sum.split)
  moreover have "serves i st1 (removeCall i st1)" using serves_removeCall by (cases st1) blast
  moreover have "serves i st1 (spawn [WatchRing i] (fst st1), snd st1)" using serves_spawn by (cases st1) simp
  ultimately show ?thesis
    using may_begin_serves [OF b, of "removeCall i st1"] may_begin_serves [OF b, of "(spawn [WatchRing i] (fst st1), snd st1)"]
    by (auto simp: Pair i_def)
qed

lemma doStartCall_begins: "may_begin (GenerateCallID draw) st (snd (doStartCall v draw owner phone st))"
proof (cases st)
  case (Pair s b)
  define st1 where "st1 p = startOutgoing v draw (sv_phone_jid v (normalizePhone p)) False (s, b)" for p
  have st1: "may_begin (GenerateCallID draw) (s, b) (snd (st1 p))" for p unfolding st1_def by (rule startOutgoing_begins)
  have id: "fst (st1 p) = Inr i \<Longrightarrow> i = GenerateCallID draw" for p i
    by (auto simp: st1_def startOutgoing_def Let_def split: prod.splits sum.splits)
  have "may_begin (GenerateCallID draw) (s, b) (s2, upsertCall b2 rc)"
    if "st1 p = (Inr i, (s2, b2))" "cr_CallID rc = i" for p i s2 b2 rc
    by (rule may_begin_serves [of _ _ "(s2, b2)"], use st1 [of p] that in simp, rule serves_table)
      (use id [of p i] that in auto)
  moreover have "may_begin (GenerateCallID draw) (s, b) st2" if "st1 p = (Inl e, st2)" for p e st2
    using st1 [of p] that by simp
  ultimately show ?thesis
    by (auto simp: doStartCall_def Pair Let_def serves_may_begin simp flip: st1_def split: option.split prod.split sum.split)
qed

definition offered_id :: "('j, 'c, 'p) served_env \<Rightarrow> 'j \<Rightarrow> 'j node option \<Rightarrow> string" where
  "offered_id v from data = callIDFromNode (en_J (sv_en v)) (wrapCall from data)"

lemma offer_begin:
  assumes "callIDFromNode (en_J en) n = i" "i \<noteq> ''''"
  shows "\<forall>e \<in> set (new_events NewCallManager (HandleCallOffer en NewCallManager (Some n) j)). concerns i e"
    "id_ok i (HandleCallOffer en NewCallManager (Some n) j)" "live (HandleCallOffer en NewCallManager (Some n) j)"
  using offer_says [where m = NewCallManager and j = j and en = en and n = n, OF assms]
  by (auto simp: new_events_def id_ok_def live_def)

lemma onIncomingOffer_begins: "may_begin (offered_id v from data) st (onIncomingOffer v from data st)"
proof (cases st)
  case (Pair s b)
  define i where "i = offered_id v from data"
  obtain r s1 where c: "createCall v i s = (r, s1)" by (cases "createCall v i s")
  define f where "f = (\<lambda>m. HandleCallOffer (sv_en v) m (Some (wrapCall from data)) from)"
  have run: "may_begin i (s, b) (run_cm v r f (s1, b))" if "i \<noteq> ''''"
    unfolding may_begin_def
    using begin_ok [where f = f and i = i, OF c]
      offer_begin [where en = "sv_en v" and n = "wrapCall from data" and j = "from" and i = i] that
    by (simp add: f_def i_def offered_id_def)
  have rej: "\<exists>js. rejectOffer v n from s = spawn js s" for n
    by (auto simp: rejectOffer_def Let_def spawn_def intro: exI [of _ "[]"] split: option.split)
  have "may_begin i (s, b) (rejectOffer v n from s, b)" for n
    using rej [of n] serves_may_begin [OF serves_spawn] by metis
  then show ?thesis
    using run c by (auto simp: onIncomingOffer_def Pair Let_def serves_may_begin f_def i_def offered_id_def)
qed

section \<open>Steps and runs\<close>

text \<open>The call an operation is about.\<close>

fun event_id :: "('j, 'c, 'p) served_env \<Rightarrow> 'j wa_call_event \<Rightarrow> string" where
  "event_id v (CallOffer from data) = offered_id v from data"
| "event_id v (CallAccept from data) = offered_id v from data"
| "event_id v (CallTransport from data) = offered_id v from data"
| "event_id v (CallTerminate from data) = offered_id v from data"
| "event_id v (CallReject from data) = offered_id v from data"

fun target :: "('j, 'c, 'p) served_env \<Rightarrow> ('j, 'p) served_op \<Rightarrow> ('j, 'c, 'p) served \<Rightarrow> string" where
  "target v (HStart draw owner phone) st = GenerateCallID draw"
| "target v (HWebRTC i sdp made) st = i"
| "target v (HAccept owner i) st = i"
| "target v (HReject i) st = i"
| "target v (HEnd i) st = i"
| "target v (Browser r pcm) st = ac_callID (se_calls (fst st) ! r)"
| "target v (IceEnded i) st = i"
| "target v (WhatsApp e) st = event_id v e"
| "target v (Engine r x) st = ac_callID (se_calls (fst st) ! r)"
| "target v (RingTimer i) st = i"
| "target v Teardown st = ''''"

text \<open>The operations that may begin a call.\<close>

fun opens :: "('j, 'p) served_op \<Rightarrow> bool" where
  "opens (HStart draw owner phone) = True"
| "opens (WhatsApp (CallOffer from data)) = True"
| "opens _ = False"

lemma serves_call_event:
  "\<not> opens (WhatsApp e :: ('j, 'p) served_op) \<Longrightarrow> serves (event_id v e) st (handle_call_event v e st)"
  by (cases e) (simp_all add: offered_id_def serves_to_call speaks_handle_accept speaks_transport speaks_terminate)

lemma serves_served_step:
  assumes "\<not> opens x" "x \<noteq> Teardown"
  shows "serves (target v x st) st (snd (served_step v x st))"
proof (cases x)
  case (Browser r pcm)
  then show ?thesis by (cases st) (auto simp: serves_browser)
next
  case (Engine r y)
  show ?thesis
  proof (cases "r < length (se_calls (fst st))")
    case True
    then show ?thesis by (cases st) (simp add: Engine serves_engine)
  qed (simp add: Engine engine_step_def)
next
  case (WhatsApp e)
  then show ?thesis using assms(1) serves_call_event by simp
qed (use assms in \<open>simp_all add: serves_doWebRTC serves_doAccept serves_doReject serves_doEndCall OnTerminalICE_def
    serves_terminate serves_cut\<close>)

lemma begins_served_step:
  assumes "x \<noteq> Teardown"
  shows "may_begin (target v x st) st (snd (served_step v x st))"
proof (cases "opens x")
  case True
  then show ?thesis by (cases x rule: opens.cases) (simp_all add: doStartCall_begins onIncomingOffer_begins)
next
  case False
  then show ?thesis using assms serves_may_begin serves_served_step by blast
qed

text \<open>A teardown ends the calls one after the other, after emptying the registry.\<close>

lemma reg_count_0: "reg_get j s = None" if "se_reg s = []"
  using that by (simp add: reg_get_def)

lemma teardown_ok:
  assumes "served_ok st"
  shows "served_ok (teardownAllCalls v st) \<and> (\<forall>j. reg_get j (fst (teardownAllCalls v st)) = None)"
proof (cases st)
  case (Pair s b)
  define end1 where "end1 r st = (let (s2, b2) = run_cm v r (\<lambda>m. EndCall (sv_en v) m EndCallReasonUserEnded) st
                       in (spawn (close_bridge (ac_bridge (se_calls s2 ! r))) s2, b2))" for r and st :: "('a, 'b, 'c) served"
  have eq: "teardownAllCalls v st = fold end1 (map snd (se_reg s)) (s\<lparr>se_reg := []\<rparr>, b)"
    by (simp add: teardownAllCalls_def Pair reg_drain_def end1_def [abs_def])
  have one: "served_ok (end1 r (s', b')) \<and> (\<forall>j. reg_get j (fst (end1 r (s', b'))) = None)
      \<and> length (se_calls (fst (end1 r (s', b')))) \<ge> length (se_calls s')"
    if "served_ok (s', b')" "\<forall>j. reg_get j s' = None" "r < length (se_calls s')" for r s' b'
  proof -
    obtain s2 b2 where run: "run_cm v r (\<lambda>m. EndCall (sv_en v) m EndCallReasonUserEnded) (s', b') = (s2, b2)"
      by (cases "run_cm v r (\<lambda>m. EndCall (sv_en v) m EndCallReasonUserEnded) (s', b')")
    have "serves (ac_callID (se_calls s' ! r)) (s', b') (s2, b2)"
      using serves_run [OF that(3) refl, where f = "\<lambda>m. EndCall (sv_en v) m EndCallReasonUserEnded" and v = v and b = b'] run
      by (simp add: speaks_end)
    then have "serves (ac_callID (se_calls s' ! r)) (s', b') (end1 r (s', b'))"
      using serves_trans [OF _ serves_spawn] by (simp add: end1_def run)
    then show ?thesis using that by (auto simp: serves_def keeps_def served_ok_def)
  qed
  have all: "served_ok (fold end1 rs (s', b')) \<and> (\<forall>j. reg_get j (fst (fold end1 rs (s', b'))) = None)"
    if "served_ok (s', b')" "\<forall>j. reg_get j s' = None" "\<forall>r \<in> set rs. r < length (se_calls s')" for rs s' b'
    using that
  proof (induction rs arbitrary: s' b')
    case (Cons r rs)
    obtain s2 b2 where e: "end1 r (s', b') = (s2, b2)" by (cases "end1 r (s', b')")
    have "served_ok (s2, b2)" "\<forall>j. reg_get j s2 = None" "length (se_calls s') \<le> length (se_calls s2)"
      using one [OF Cons.prems(1,2), of r] Cons.prems(3) e by simp_all
    then show ?case using Cons.IH [of s2 b2] Cons.prems(3) e by fastforce
  qed simp
  have reg: "reg_ok s" using assms by (simp add: served_ok_def Pair)
  have "served_ok (s\<lparr>se_reg := []\<rparr>, b)"
    using assms by (simp add: served_ok_def Pair reg_ok_def reg_get_def)
  moreover have "r < length (se_calls s)" if "r \<in> snd ` set (se_reg s)" for r
    using that reg by (auto simp: reg_ok_def reg_get_def)
  ultimately show ?thesis
    unfolding eq by (intro all) (auto simp: reg_get_def)
qed

lemma served_step_ok: "served_ok st \<Longrightarrow> served_ok (snd (served_step v x st))"
  using begins_served_step [of x v st] teardown_ok [of st v] by (cases "x = Teardown") (auto simp: may_begin_def)

lemma served_ok_new: "served_ok (newSession i n j, NewBroker)"
  by (simp add: served_ok_def newSession_def reg_ok_def reg_get_def)

lemma served_run_ok: "served_ok st \<Longrightarrow> served_ok (served_run ops st)"
proof (induction ops arbitrary: st)
  case (Cons vx ops)
  show ?case using Cons.IH [OF served_step_ok [OF Cons.prems]] by (cases vx) simp
qed simp

section \<open>How many calls\<close>

lemma count_le:
  fixes s s' :: "('j, 'c, 'p) Session"
  assumes "reg_ok s" "reg_ok s'" "\<And>j. reg_get j s' \<noteq> None \<Longrightarrow> j \<in> X \<or> reg_get j s \<noteq> None" "finite X"
  shows "reg_count s' \<le> reg_count s + int (card X)"
proof -
  have dom: "card (dom (map_of (se_reg t))) = length (se_reg t)" if "reg_ok t" for t :: "('j, 'c, 'p) Session"
    using that distinct_card [of "map fst (se_reg t)"] by (simp add: reg_ok_def dom_map_of_conv_image_fst)
  have "dom (map_of (se_reg s')) \<subseteq> X \<union> dom (map_of (se_reg s))" using assms(3) by (auto simp: reg_get_def)
  then have "card (dom (map_of (se_reg s'))) \<le> card (X \<union> dom (map_of (se_reg s)))"
    using assms(4) by (intro card_mono) (simp_all add: finite_dom_map_of)
  also have "\<dots> \<le> card X + card (dom (map_of (se_reg s)))" by (rule card_Un_le)
  finally show ?thesis using dom assms(1,2) by (simp add: reg_count_def)
qed

lemma serves_count: "serves i st st' \<Longrightarrow> served_ok st \<Longrightarrow> reg_count (fst st') \<le> reg_count (fst st)"
  using count_le [of "fst st" "fst st'" "{}"] by (auto simp: serves_def served_ok_def)

lemma begins_count: "may_begin i st st' \<Longrightarrow> served_ok st \<Longrightarrow> reg_count (fst st') \<le> reg_count (fst st) + 1"
  using count_le [of "fst st" "fst st'" "{i}"] by (auto simp: may_begin_def served_ok_def)

text \<open>At the limit nothing begins.\<close>

lemma full_step:
  assumes "opens x" "0 < sv_maxCalls v" "sv_maxCalls v \<le> reg_count (fst st)"
  shows "reg_count (fst (snd (served_step v x st))) = reg_count (fst st)"
proof (cases st)
  case (Pair s b)
  have rej: "reg_count (rejectOffer v n j s) = reg_count s" for n j
    by (auto simp: rejectOffer_def Let_def spawn_def reg_count_def split: option.split)
  show ?thesis using assms
    by (cases x rule: opens.cases)
      (auto simp: Pair doStartCall_def onIncomingOffer_def Let_def rej split: option.split)
qed

lemma step_count:
  assumes "served_ok st" "0 < sv_maxCalls v" "reg_count (fst st) \<le> sv_maxCalls v"
  shows "reg_count (fst (snd (served_step v x st))) \<le> sv_maxCalls v"
proof (cases "x = Teardown")
  case True
  have "reg_ok (fst (teardownAllCalls v st))" "\<forall>j. reg_get j (fst (teardownAllCalls v st)) = None"
    using teardown_ok [OF assms(1), of v] by (simp_all add: served_ok_def)
  then have "reg_count (fst (teardownAllCalls v st)) \<le> reg_count (fst st)"
    using count_le [of "fst st" "fst (teardownAllCalls v st)" "{}"] assms(1) by (simp add: served_ok_def)
  then show ?thesis using True assms(3) by simp
next
  case False
  show ?thesis
  proof (cases "opens x")
    case True
    show ?thesis
    proof (cases "sv_maxCalls v \<le> reg_count (fst st)")
      case True
      then show ?thesis using full_step [OF \<open>opens x\<close> assms(2)] assms(3) by simp
    next
      case False
      then show ?thesis using begins_count [OF begins_served_step [OF \<open>x \<noteq> Teardown\<close>] assms(1), of v] by simp
    qed
  next
    case False
    then show ?thesis using serves_count [OF serves_served_step [OF False \<open>x \<noteq> Teardown\<close>] assms(1), of v] assms(3) by simp
  qed
qed


text \<open>
  Property C11. Calls do not interfere: in every reachable state, an operation on one call leaves the registry entry, the
  published record and the engine (with its recorder, bridge and marks) of every other call as they were. (A teardown
  is about all calls.)
\<close>

theorem calls_do_not_interfere:
  assumes "st = served_run ops (newSession i name jid, NewBroker)" "x \<noteq> Teardown" "k \<noteq> target v x st"
  defines "st' \<equiv> snd (served_step v x st)"
  shows "reg_get k (fst st') = reg_get k (fst st) \<and> getCall (snd st') k = getCall (snd st) k
    \<and> (\<forall>r < length (se_calls (fst st)). ac_callID (se_calls (fst st) ! r) = k
         \<longrightarrow> se_calls (fst st') ! r = se_calls (fst st) ! r)"
proof -
  have "served_ok st" unfolding assms(1) by (rule served_run_ok [OF served_ok_new])
  then have "reg_ok (fst st)" "keeps (target v x st) st st'"
    using begins_served_step [OF assms(2), of v st] by (simp_all add: may_begin_def served_ok_def st'_def)
  then show ?thesis using assms(3) by (auto simp: keeps_def)
qed

text \<open>
  Property C15. In every reachable state a call in the registry is being served: its engine has a call that has not
  ended, under the id it is registered for.
\<close>

theorem registered_calls_are_live:
  "case reg_get k (fst (served_run ops (newSession i name jid, NewBroker))) of
     None \<Rightarrow> True
   | Some r \<Rightarrow> (\<exists>c. cm_currentCall (ac_cm (se_calls (fst (served_run ops (newSession i name jid, NewBroker))) ! r)) = Some c
       \<and> ci_CallID c = k \<and> \<not> IsEnded c)"
proof -
  define st where "st = served_run ops (newSession i name jid, NewBroker)"
  have ok: "served_ok st" unfolding st_def by (rule served_run_ok [OF served_ok_new])
  have "\<exists>c. cm_currentCall (ac_cm (se_calls (fst st) ! r)) = Some c \<and> ci_CallID c = k \<and> \<not> IsEnded c"
    if "reg_get k (fst st) = Some r" for r
  proof -
    have r: "r < length (se_calls (fst st))" "ac_callID (se_calls (fst st) ! r) = k"
      using ok that reg_ok_get by (auto simp: served_ok_def)
    then show ?thesis using ok that by (fastforce simp: served_ok_def id_ok_def)
  qed
  then show ?thesis unfolding st_def [symmetric] by (simp split: option.split)
qed

text \<open>A server with a limit of one call.\<close>

definition demo_served :: "(string, unit, unit) served_env" where
  "demo_served = \<lparr>sv_en = demo_env 0 ''tok'', sv_now = 0, sv_recording = False, sv_identity = (\<lambda>p. ('''', '''')),
     sv_write_ok = True, sv_maxCalls = 1, sv_phone_jid = id\<rparr>"


theorem calls_do_not_interfere_witness:
  "reg_get ''B'' (fst (snd (served_step demo_served (HReject ''A'') (served_run [] (newSession ''s'' ''n'' '''', NewBroker)))))
   = None"
  using calls_do_not_interfere [OF refl, of "HReject ''A''" "''B''" demo_served "[]" "''s''" "''n''" "''''"]
  by (simp add: newSession_def reg_get_def)

end
