(* ===== verification/CallClaims.thy ===== *)
theory CallClaims
  imports ServedCalls
begin

text \<open>
  What an operator and a contact can rely on: a call answered by one operator is not taken over by another, hanging up
  clears a call completely (a missed call leaves exactly one note), the ring timer ends a call that nobody answers,
  and a message redelivered by WhatsApp is processed once.
\<close>

section \<open>Claims\<close>

text \<open>Operator \<open>A\<close> has call \<open>k\<close>: in the table of live calls, or afterwards in the history.\<close>

definition claimed :: "string \<Rightarrow> string \<Rightarrow> Broker \<Rightarrow> bool" where
  "claimed k A b \<longleftrightarrow>
     (\<exists>rc. (getCall b k = Some rc \<or> rc \<in> set (br_history b)) \<and> cr_CallID rc = k \<and> cr_Owner rc = Some A)"

lemma history_ops [simp]:
  "br_history (upsertCall b rc) = br_history b" "br_history (emitIncoming b now s i p ph n) = br_history b"
  "br_history (emitIncomingClaimed b s i ow) = br_history b" "br_history (snd (setOwner b i ow)) = br_history b"
  by (auto simp: upsertCall_def broadcastCallList_def emitIncoming_def emitIncomingClaimed_def setOwner_def
      split: option.split)

lemma history_endCall:
  "br_history (endCall b now i re) = br_history b
     @ (case getCall b i of None \<Rightarrow> [] | Some c \<Rightarrow> [c\<lparr>cr_Status := StatusEnded, cr_EndedAt := Some now, cr_EndReason := re\<rparr>])"
  by (auto simp: endCall_def getCall_def Let_def broadcastCallList_def split: option.split)

lemma claimed_end: "claimed k A b \<Longrightarrow> claimed k A (endCall b now i re)"
  unfolding claimed_def
  by (auto simp: history_endCall intro: exI [of _ "rc\<lparr>cr_Status := StatusEnded, cr_EndedAt := Some now, cr_EndReason := re\<rparr>" for rc]
      split: option.split)

lemma claimed_upsert:
  "claimed k A b \<Longrightarrow> cr_CallID rc \<noteq> k \<or> (\<forall>e. getCall b k = Some e \<longrightarrow> cr_Owner rc = cr_Owner e) \<Longrightarrow> claimed k A (upsertCall b rc)"
  unfolding claimed_def by auto

lemma claimed_setOwner: "claimed k A b \<Longrightarrow> claimed k A (snd (setOwner b i ow))"
  unfolding claimed_def
  by (auto simp: setOwner_def getCall_def map_of_update split: option.split)

lemma claimed_emit [simp]:
  "claimed k A (emitIncoming b now s i p ph n) = claimed k A b"
  "claimed k A (emitIncomingClaimed b s i ow) = claimed k A b"
  by (simp_all add: claimed_def)

text \<open>
  What the operations of a session do to the call table is walked through once, for any property of the table that
  its operations keep, when the calls in \<open>hot\<close> are not announced anew.
\<close>

fun anew :: "string set \<Rightarrow> ('j, 'p) cm_event \<Rightarrow> bool" where
  "anew hot (Incoming c) = (ci_CallID c \<in> hot)"
| "anew hot _ = False"

lemma about_not_anew: "about i e \<Longrightarrow> \<not> anew hot e"
  by (cases e) simp_all

lemma events_new: "cm_events NewCallManager = []"
  by (simp add: NewCallManager_def)

definition renews :: "string set \<Rightarrow> ('j, 'c, 'p) served_env \<Rightarrow> ('j, 'p) served_op \<Rightarrow> bool" where
  "renews hot v x \<longleftrightarrow> opens x \<and> (case x of
      HStart draw owner phone \<Rightarrow> GenerateCallID draw \<in> hot
    | WhatsApp e \<Rightarrow> event_id v e \<in> hot
    | _ \<Rightarrow> False)"

definition registered :: "('j, 'c, 'p) Session \<Rightarrow> string set" where
  "registered s = fst ` set (se_reg s)"

lemma registered_iff: "i \<in> registered s \<longleftrightarrow> reg_get i s \<noteq> None"
  by (simp add: registered_def reg_get_def map_of_eq_None_iff)

lemma registered_simps [simp]:
  "registered (at_call r f s) = registered s" "registered (spawn js s) = registered s"
  by (simp_all add: registered_def)

lemma registered_removeCall: "registered (fst (removeCall i st)) = registered (fst st) - {i}"
proof -
  obtain s b where st: "st = (s, b)" by (cases st)
  obtain js where "removeCall i (s, b) = (spawn js (snd (reg_remove i s)), b)" using removeCall_eq by blast
  then have "reg_get j (fst (removeCall i st)) = (if j = i then None else reg_get j s)" for j
    by (simp add: st reg_get_remove)
  then show ?thesis by (simp add: st set_eq_iff registered_iff)
qed

lemma se_reg_rejectOffer: "se_reg (rejectOffer v n j s) = se_reg s"
  by (simp add: rejectOffer_def Let_def split: option.split)

lemma se_reg_setBridge: "se_reg (setBridge i br s) = se_reg s"
  by (simp add: setBridge_def reg_setBridge_def split: option.split)

locale table_law =
  fixes P :: "string set \<Rightarrow> Broker \<Rightarrow> bool" and hot :: "string set"
  assumes shrink_law: "P R b \<Longrightarrow> R' \<subseteq> R \<Longrightarrow> P R' b"
    and grow_law: "P R b \<Longrightarrow> i \<notin> hot \<Longrightarrow> P (insert i R) b"
    and ended_law: "P R b \<Longrightarrow> i \<notin> R \<Longrightarrow> P R (endCall b now i re)"
    and upsert_law: "P R b \<Longrightarrow> cr_CallID rc \<notin> hot \<or> (\<forall>e. getCall b (cr_CallID rc) = Some e \<longrightarrow> cr_Owner rc = cr_Owner e)
      \<Longrightarrow> P R (upsertCall b rc)"
    and setOwner_law: "P R b \<Longrightarrow> P R (snd (setOwner b i ow))"
    and emit_law [simp]: "P R (emitIncoming b now s i p ph n) = P R b" "P R (emitIncomingClaimed b s i ow) = P R b"
begin

definition holds :: "('j, 'c, 'p) served \<Rightarrow> bool" where
  "holds st \<longleftrightarrow> P (registered (fst st)) (snd st)"

lemma holds_simps [simp]:
  "holds (at_call r f s, b) = holds (s, b)" "holds (spawn js s, b) = holds (s, b)"
  "holds (s, emitIncoming b now a i p ph n) = holds (s, b)" "holds (s, emitIncomingClaimed b a i ow) = holds (s, b)"
  by (simp_all add: holds_def)

lemma upsert_kept:
  "holds (s, b) \<Longrightarrow> cr_CallID rc \<notin> hot \<or> (\<forall>e. getCall b (cr_CallID rc) = Some e \<longrightarrow> cr_Owner rc = cr_Owner e)
   \<Longrightarrow> holds (s, upsertCall b rc)"
  by (simp add: holds_def upsert_law)

lemma same_registry_kept: "holds (s, b) \<Longrightarrow> se_reg s' = se_reg s \<Longrightarrow> holds (s', b)"
  by (simp add: holds_def registered_def)

lemma setOwner_kept: "holds (s, b) \<Longrightarrow> holds (s, snd (setOwner b i ow))"
  by (simp add: holds_def setOwner_law)

lemma remove_kept: "holds st \<Longrightarrow> holds (removeCall i st)"
  using removeCall_broker [of i "fst st" "snd st"] by (simp add: holds_def registered_removeCall shrink_law [of "registered (fst st)"])

lemma remove_end_kept:
  assumes "holds st" "removeCall i st = (s1, b1)"
  shows "holds (s1, endCall b1 now i re)"
  using remove_kept [OF assms(1), of i] registered_removeCall [of i st] assms(2) by (simp add: holds_def ended_law)

lemma ended_kept: "holds st \<Longrightarrow> holds (onEnded v c st)"
  by (auto simp: onEnded_def remove_end_kept split: prod.split)

lemma create_kept:
  assumes "createCall v i s = (r, s1)" "holds (s, b)" "i \<notin> hot"
  shows "holds (s1, b)"
proof -
  have "registered s1 = insert i (registered s)"
    using createCall_facts(6) [OF assms(1)] by (auto simp: registered_iff split: if_splits)
  then show ?thesis using assms(2,3) by (simp add: holds_def grow_law)
qed

lemma event_kept:
  assumes "\<not> anew hot e" "holds st"
  shows "holds (on_event v i e st)"
proof -
  obtain s b where st: "st = (s, b)" by (cases st)
  show ?thesis
  proof (cases e)
    case (StateChanged c)
    show ?thesis
    proof (cases "IsEnded c")
      case True
      then show ?thesis using ended_kept [OF assms(2)] by (simp add: StateChanged onStateChange_def)
    next
      case False
      then show ?thesis using assms(2)
        by (auto simp: StateChanged st onStateChange_def Let_def intro!: upsert_kept split: option.split)
    qed
  next
    case (Incoming c)
    then show ?thesis using assms
      by (auto simp: st onIncoming_def Let_def intro!: upsert_kept split: prod.split option.split)
  next
    case (EndedCall c)
    then show ?thesis using ended_kept [OF assms(2)] by simp
  next
    case (PeerAudio pcm)
    then show ?thesis using assms(2) by (auto simp: st onPeerAudio_def Let_def split: option.split)
  qed (use assms(2) in simp_all)
qed

lemma events_kept:
  "\<forall>e \<in> set evs. \<not> anew hot e \<Longrightarrow> holds st \<Longrightarrow> holds (fold (on_event v i) evs st)"
proof (induction evs arbitrary: st)
  case (Cons e evs)
  then show ?case using event_kept [of e st v i] by simp
qed simp

lemma run_events_kept:
  assumes "\<forall>e \<in> set (new_events (ac_cm (se_calls s ! r)) (f (ac_cm (se_calls s ! r)))). \<not> anew hot e" "holds (s, b)"
  shows "holds (run_cm v r f (s, b))"
  unfolding run_cm_eq by (rule events_kept) (use assms in simp_all)

lemma run_kept:
  assumes "served_ok (s, b)" "r < length (se_calls s)" "\<And>i m. speaks i m (f m)" "holds (s, b)"
  shows "holds (run_cm v r f (s, b))"
proof (rule run_events_kept [OF _ assms(4)])
  have "id_ok (ac_callID (se_calls s ! r)) (ac_cm (se_calls s ! r))" using assms(1,2) by (simp add: served_ok_def)
  then show "\<forall>e \<in> set (new_events (ac_cm (se_calls s ! r)) (f (ac_cm (se_calls s ! r)))). \<not> anew hot e"
    using speaks_new_events [OF assms(3)] about_not_anew by blast
qed

lemma found_kept:
  assumes "reg_get i s = Some r" "served_ok (s, b)" "\<And>i m. speaks i m (f m)" "holds (s, b)"
  shows "holds (run_cm v r f (s, b))"
  using run_kept [OF assms(2) _ assms(3,4)] reg_ok_get [OF served_ok_reg [OF assms(2)] assms(1)] by simp

lemma finish_kept: "holds st \<Longrightarrow> holds (finish v i re st)"
  by (cases st) (auto simp: finish_def remove_end_kept split: prod.split)

text \<open>Every step keeps the property, unless it begins a call of \<open>hot\<close> again.\<close>

lemma terminate_kept: "served_ok st \<Longrightarrow> holds st \<Longrightarrow> holds (terminateCall v i re st)"
  by (cases st) (auto simp: terminateCall_def split: option.split intro: found_kept [OF _ _ speaks_end])

lemma to_call_kept:
  assumes "\<And>n i m. speaks i m (h n m)" "served_ok st" "holds st"
  shows "holds (to_call v from data h st)"
  using assms(2,3)
  by (cases st) (auto simp: to_call_def callForEvent_def Let_def split: option.split
      intro: found_kept [where f = "h (wrapCall from data)"] assms(1))

lemma doReject_kept: "served_ok st \<Longrightarrow> holds st \<Longrightarrow> holds (snd (doReject v i st))"
  by (cases st) (auto simp: doReject_def Let_def split: option.split
      intro!: finish_kept intro: found_kept [OF _ _ speaks_reject])

lemma doEndCall_kept: "served_ok st \<Longrightarrow> holds st \<Longrightarrow> holds (snd (doEndCall v i st))"
  by (cases st) (auto simp: doEndCall_def Let_def split: option.split
      intro!: finish_kept intro: found_kept [OF _ _ speaks_end])

lemma doAccept_kept:
  assumes "served_ok st" "holds st"
  shows "holds (snd (doAccept v ow i st))"
proof (cases st)
  case (Pair s b)
  show ?thesis
  proof (cases "reg_get i s")
    case None
    then show ?thesis using assms by (simp add: doAccept_def Pair)
  next
    case (Some r)
    obtain won b1 where set: "setOwner b i ow = (won, b1)" by (cases "setOwner b i ow")
    have b1: "holds (s, b1)" using setOwner_kept [of s b i ow] assms(2) set by (simp add: Pair)
    define b2 where "b2 = emitIncomingClaimed b1 (se_id s) i ow"
    have ok: "served_ok (s, b2)" using assms(1) by (simp add: served_ok_def Pair)
    have "holds (run_cm v r (\<lambda>m. snd (AcceptCall (sv_en v) m i)) (s, b2))"
      by (rule run_kept [OF ok _ speaks_accept])
        (use b1 reg_ok_get [OF served_ok_reg [OF ok] Some] in \<open>simp_all add: b2_def\<close>)
    then show ?thesis
      using Some b1 assms(2) by (auto simp: doAccept_def Pair set Let_def simp flip: b2_def split: sum.split bool.split)
  qed
qed

lemma browser_kept:
  assumes "served_ok (s, b)" "r < length (se_calls s)" "holds (s, b)"
  shows "holds (OnBrowserPCM v r pcm (s, b))"
  using run_kept [OF assms(1,2) _ assms(3), where f = "\<lambda>m. FeedCapturedPCM (sv_en v) m pcm" and v = v]
  by (auto simp: OnBrowserPCM_def speaks_media split: prod.split)

lemma engine_kept:
  assumes "served_ok (s, b)" "holds (s, b)"
  shows "holds (engine_step v r x (s, b))"
proof -
  have "\<not> begins x" if "from_relay x" using that by (cases x) simp_all
  then show ?thesis
    using assms run_kept [OF assms(1) _ _ assms(2), where r = r and f = "\<lambda>m. cm_step m (sv_en v, x)" and v = v] speaks_step
    by (auto simp: engine_step_def)
qed

lemma start_kept:
  assumes "GenerateCallID draw \<notin> hot" "holds st"
  shows "holds (snd (doStartCall v draw ow phone st))"
proof (cases st)
  case (Pair s b)
  define i where "i = GenerateCallID draw"
  have out: "holds (snd (startOutgoing v draw peer vid (s, b)))" for peer vid
  proof -
    obtain r s1 where c: "createCall v i s = (r, s1)" by (cases "createCall v i s")
    define f where "f = (\<lambda>m. snd (StartCall (sv_en v) m i peer vid))"
    define st1 where "st1 = run_cm v r f (s1, b)"
    have "speaks i NewCallManager (f NewCallManager)"
      unfolding f_def by (rule speaks_start) (simp add: NewCallManager_def)
    then have "\<forall>e \<in> set (new_events NewCallManager (f NewCallManager)). \<not> anew hot e"
      using speaks_new_events [of i NewCallManager "f NewCallManager"] about_not_anew
      by (fastforce simp: id_ok_def NewCallManager_def)
    then have "holds st1"
      unfolding st1_def using createCall_facts(4) [OF c] create_kept [OF c] assms
      by (intro run_events_kept) (simp_all add: Pair i_def)
    moreover have "snd (startOutgoing v draw peer vid (s, b)) \<in> {removeCall i st1, (spawn [WatchRing i] (fst st1), snd st1)}"
      using c by (auto simp: startOutgoing_def Let_def st1_def f_def i_def split: sum.split)
    ultimately show ?thesis using remove_kept [of st1 i] by (cases st1) auto
  qed
  have id: "fst (startOutgoing v draw peer vid (s, b)) = Inr j \<Longrightarrow> j = i" for peer vid j
    by (auto simp: startOutgoing_def Let_def i_def split: prod.splits sum.splits)
  have up: "holds (s1, upsertCall b1 rc)"
    if "startOutgoing v draw peer vid (s, b) = (Inr j, s1, b1)" "cr_CallID rc = j" for peer vid j s1 b1 rc
    using out [of peer vid] id [of peer vid j] that assms(1) by (intro upsert_kept) (simp_all add: i_def)
  have er: "holds (s1, b1)" if "startOutgoing v draw peer vid (s, b) = (Inl e, s1, b1)" for peer vid e s1 b1
    using out [of peer vid] that by simp
  show ?thesis
    using assms(2) by (auto simp: doStartCall_def Pair Let_def intro: er up split: option.split prod.split sum.split)
qed

lemma offer_kept:
  assumes "offered_id v from data \<notin> hot" "holds st"
  shows "holds (onIncomingOffer v from data st)"
proof (cases st)
  case (Pair s b)
  define i where "i = offered_id v from data"
  obtain r s1 where c: "createCall v i s = (r, s1)" by (cases "createCall v i s")
  define f where "f = (\<lambda>m. HandleCallOffer (sv_en v) m (Some (wrapCall from data)) from)"
  have "holds (run_cm v r f (s1, b))" if ne: "i \<noteq> ''''"
  proof (rule run_events_kept)
    have "callIDFromNode (en_J (sv_en v)) (wrapCall from data) = i" by (simp add: i_def offered_id_def)
    note offer_says [where m = NewCallManager and j = "from" and en = "sv_en v", OF this ne]
    then obtain c pre where "cm_events (f NewCallManager) = [SentNode pre, Incoming c, StateChanged c]" "ci_CallID c = i"
      unfolding f_def by (auto simp: events_new)
    then have "\<forall>e \<in> set (new_events NewCallManager (f NewCallManager)). \<not> anew hot e"
      using assms(1) by (simp add: new_events_def i_def events_new)
    then show "\<forall>e \<in> set (new_events (ac_cm (se_calls s1 ! r)) (f (ac_cm (se_calls s1 ! r)))). \<not> anew hot e"
      by (simp add: createCall_facts(4) [OF c])
    show "holds (s1, b)" using create_kept [OF c] assms by (simp add: Pair i_def)
  qed
  then show ?thesis
    using c assms(2) by (auto simp: onIncomingOffer_def Pair Let_def f_def i_def offered_id_def se_reg_rejectOffer elim: same_registry_kept)
qed

lemma teardown_kept:
  assumes "served_ok st" "holds st"
  shows "holds (teardownAllCalls v st)"
proof (cases st)
  case (Pair s b)
  have one: "served_ok (run_cm v r (\<lambda>m. EndCall (sv_en v) m EndCallReasonUserEnded) (s', b'))
      \<and> holds (run_cm v r (\<lambda>m. EndCall (sv_en v) m EndCallReasonUserEnded) (s', b'))
      \<and> length (se_calls (fst (run_cm v r (\<lambda>m. EndCall (sv_en v) m EndCallReasonUserEnded) (s', b')))) \<ge> length (se_calls s')"
    if "served_ok (s', b')" "holds (s', b')" "r < length (se_calls s')" for r s' b'
    using serves_run [OF that(3) refl, where f = "\<lambda>m. EndCall (sv_en v) m EndCallReasonUserEnded" and v = v and b = b'] that
      run_kept [OF that(1,3) _ that(2), where f = "\<lambda>m. EndCall (sv_en v) m EndCallReasonUserEnded" and v = v]
    by (auto simp: serves_def keeps_def served_ok_def speaks_end)
  have spawned: "served_ok (spawn js s', b')" if "served_ok (s', b')" for js s' b'
    using that serves_spawn by (auto simp: serves_def)
  have all: "holds ((fold (\<lambda>r st. let (s2, b2) = run_cm v r (\<lambda>m. EndCall (sv_en v) m EndCallReasonUserEnded) st
                       in (spawn (close_bridge (ac_bridge (se_calls s2 ! r))) s2, b2)) rs (s', b')))"
    if "served_ok (s', b')" "holds (s', b')" "\<forall>r \<in> set rs. r < length (se_calls s')" for rs s' b'
    using that
  proof (induction rs arbitrary: s' b')
    case (Cons r rs)
    obtain s2 b2 where run: "run_cm v r (\<lambda>m. EndCall (sv_en v) m EndCallReasonUserEnded) (s', b') = (s2, b2)"
      by (cases "run_cm v r (\<lambda>m. EndCall (sv_en v) m EndCallReasonUserEnded) (s', b')")
    have "served_ok (s2, b2)" "holds (s2, b2)" "length (se_calls s') \<le> length (se_calls s2)"
      using one [OF Cons.prems(1,2), of r] Cons.prems(3) run by simp_all
    then show ?case
      using Cons.IH [OF spawned, of s2 b2] Cons.prems(3) run by fastforce
  qed simp
  have reg: "reg_ok s" using assms by (simp add: served_ok_def Pair)
  have "served_ok (s\<lparr>se_reg := []\<rparr>, b)" using assms by (simp add: served_ok_def Pair reg_ok_def reg_get_def)
  moreover have "holds (s\<lparr>se_reg := []\<rparr>, b)"
    using assms(2) by (simp add: holds_def registered_def Pair shrink_law [of "fst ` set (se_reg s)"])
  moreover have "r < length (se_calls s)" if "r \<in> snd ` set (se_reg s)" for r
    using that reg by (auto simp: reg_ok_def reg_get_def)
  ultimately show ?thesis
    unfolding teardownAllCalls_def Pair reg_drain_def Let_def prod.case
    by (intro all [unfolded Let_def prod.case]) auto
qed

lemma step_kept:
  assumes "served_ok st" "holds st" "\<not> renews hot v x"
  shows "holds (snd (served_step v x st))"
proof (cases x)
  case (WhatsApp e)
  then show ?thesis
    using assms by (cases e) (simp_all add: renews_def offer_kept to_call_kept speaks_handle_accept
        speaks_transport speaks_terminate)
next
  case (HWebRTC i sdp made)
  then show ?thesis using assms by (cases st) (auto simp: doWebRTC_def se_reg_setBridge elim: same_registry_kept split: sum.split)
next
  case (RingTimer i)
  then show ?thesis using assms by (auto simp: cutIfStillRinging_def terminate_kept split: option.split)
next
  case (Browser r pcm)
  then show ?thesis using assms by (cases st) (auto simp: browser_kept)
next
  case (Engine r y)
  then show ?thesis using assms by (cases st) (auto simp: engine_kept)
qed (use assms in \<open>simp_all add: renews_def start_kept doAccept_kept doReject_kept doEndCall_kept
    teardown_kept OnTerminalICE_def terminate_kept\<close>)

lemma run_table_kept:
  assumes "served_ok st" "holds st" "\<forall>(v, x) \<in> set ops. \<not> renews hot v x"
  shows "holds (served_run ops st)"
  using assms
proof (induction ops arbitrary: st)
  case (Cons vx ops)
  obtain v x where vx: "vx = (v, x)" by (cases vx)
  show ?case
    using Cons.IH [OF served_step_ok [OF Cons.prems(1), of v x] step_kept [OF Cons.prems(1,2), of v x]] Cons.prems(3)
    by (simp add: vx)
qed simp

end

text \<open>The table is keyed by the ids of its records, in every run; and a claim stays while its call is not announced anew.\<close>

definition table_keyed :: "Broker \<Rightarrow> bool" where
  "table_keyed b \<longleftrightarrow> (\<forall>k rc. getCall b k = Some rc \<longrightarrow> cr_CallID rc = k)"

lemma table_keyed_ops:
  "table_keyed b \<Longrightarrow> table_keyed (endCall b now i re)"
  "table_keyed b \<Longrightarrow> table_keyed (upsertCall b rc)"
  by (auto simp: table_keyed_def split: if_splits)

lemma table_keyed_setOwner: "table_keyed b \<Longrightarrow> table_keyed (snd (setOwner b i ow))"
  by (auto simp: table_keyed_def setOwner_def getCall_def map_of_update split: option.split)

lemma table_keyed_emit:
  "table_keyed (emitIncoming b now s i p ph n) = table_keyed b" "table_keyed (emitIncomingClaimed b s i ow) = table_keyed b"
  by (simp_all add: table_keyed_def)

interpretation keyed: table_law "\<lambda>R. table_keyed" "{}"
  by unfold_locales (simp_all add: table_keyed_ops table_keyed_setOwner table_keyed_emit)

text \<open>While the call is registered it is recorded under its operator; later it is found in the history.\<close>

definition held :: "string \<Rightarrow> string \<Rightarrow> string set \<Rightarrow> Broker \<Rightarrow> bool" where
  "held k A R b \<longleftrightarrow> claimed k A b \<and> (k \<in> R \<longrightarrow> (\<exists>rc. getCall b k = Some rc \<and> cr_Owner rc = Some A))"

lemma held_setOwner: "held k A R b \<Longrightarrow> held k A R (snd (setOwner b i ow))"
  using claimed_setOwner [of k A b i ow]
  by (auto simp: held_def setOwner_def getCall_def map_of_update split: option.split)

interpretation kept: table_law "held k A" "{k}" for k A
proof unfold_locales
  fix R b i now re and rc :: CallRecord
  show "held k A R b \<Longrightarrow> i \<notin> R \<Longrightarrow> held k A R (endCall b now i re)" by (auto simp: held_def claimed_end)
  show "held k A R b \<Longrightarrow> cr_CallID rc \<notin> {k} \<or> (\<forall>e. getCall b (cr_CallID rc) = Some e \<longrightarrow> cr_Owner rc = cr_Owner e)
      \<Longrightarrow> held k A R (upsertCall b rc)"
    using claimed_upsert [of k A b rc] by (auto simp: held_def)
qed (auto simp: held_setOwner, auto simp: held_def)

lemma table_keyed_run:
  fixes ops :: "(('j, 'c, 'p) served_env \<times> ('j, 'p) served_op) list"
  shows "table_keyed (snd (served_run ops (newSession i name jid, NewBroker)))"
proof -
  have "keyed.holds (newSession i name jid :: ('j, 'c, 'p) Session, NewBroker)"
    by (simp add: keyed.holds_def table_keyed_def getCall_def NewBroker_def)
  from keyed.run_table_kept [OF served_ok_new this, of ops] show ?thesis
    by (simp add: keyed.holds_def renews_def split: served_op.split)
qed

section \<open>One operator per call\<close>

lemma accepted_held:
  assumes "fst (doAccept v A i st) = Accepted j" "served_ok st" "table_keyed (snd st)"
  shows "kept.holds i A (snd (doAccept v A i st))"
proof -
  obtain s b where st: "st = (s, b)" by (cases st)
  obtain r where r: "reg_get i s = Some r"
    using assms(1) by (auto simp: doAccept_def st split: option.splits)
  obtain b1 where set: "setOwner b i A = (True, b1)"
    using assms(1) r by (auto simp: doAccept_def st Let_def split: if_splits prod.splits bool.splits)
  have "held i A (registered s) b1"
    using set assms(3) by (auto simp: setOwner_def held_def claimed_def table_keyed_def getCall_def map_of_update st
        split: option.splits if_splits)
  then have b2: "kept.holds i A (s, emitIncomingClaimed b1 (se_id s) i A)" by (simp add: kept.holds_def)
  have ok: "served_ok (s, emitIncomingClaimed b1 (se_id s) i A)" using assms(2) by (simp add: served_ok_def st)
  have "snd (doAccept v A i st) = run_cm v r (\<lambda>m. snd (AcceptCall (sv_en v) m i)) (s, emitIncomingClaimed b1 (se_id s) i A)"
    using assms(1) r set by (auto simp: doAccept_def st Let_def split: if_splits sum.splits)
  then show ?thesis
    using kept.found_kept [OF r ok speaks_accept b2] by simp
qed

lemma held_refuses:
  assumes "kept.holds i A st" "B \<noteq> A"
  shows "\<exists>code why. doAccept w B i st = (Failed code why, st) \<and> code \<in> {404, 409}"
proof -
  obtain s b where st: "st = (s, b)" by (cases st)
  show ?thesis
  proof (cases "reg_get i s")
    case None
    then show ?thesis by (simp add: doAccept_def st)
  next
    case (Some r)
    then obtain rc where "getCall b i = Some rc" "cr_Owner rc = Some A"
      using assms(1) by (auto simp: kept.holds_def held_def st registered_iff)
    then have "setOwner b i B = (False, b)" using assms(2) by (simp add: setOwner_def getCall_def)
    then show ?thesis using Some by (auto simp: doAccept_def st Let_def)
  qed
qed


text \<open>An offer of a call \<open>c1\<close>, answered by one operator while another one wants it too.\<close>

definition demo_offer :: "string wa_call_event" where
  "demo_offer = CallOffer ''ann'' (Some (Node ''offer'' [(''call-id'', AString ''c1''), (''call-creator'', AJid ''ann'')] (Nodes [])))"

definition demo_ringing :: "(string, unit, unit) served" where
  "demo_ringing = served_run [(demo_served, WhatsApp demo_offer)] (newSession ''s'' ''n'' '''', NewBroker)"

lemma demo_accepted: "fst (doAccept demo_served ''op'' ''c1'' demo_ringing) = Accepted ''c1''"
  by code_simp


section \<open>The end of a call\<close>

lemma terminated:
  "\<not> IsEnded c \<Longrightarrow> \<exists>c'. ApplyTransition now c (transition TransitionTerminated reason) = Inr c' \<and> IsEnded c'
     \<and> sd_EndReason (ci_StateData c') = reason"
  by (simp add: ApplyTransition_def transition_def IsEnded_def Let_def ended_def)

lemma EndCall_says:
  assumes "cm_currentCall m = Some c" "\<not> IsEnded c"
  shows "\<exists>c' q. cm_events (EndCall en m reason) = cm_events m @ [StateChanged c', Queried q, EndedCall c']
    \<and> cm_currentCall (EndCall en m reason) = Some c'
    \<and> IsEnded c' \<and> ci_CallID c' = ci_CallID c \<and> sd_EndReason (ci_StateData c') = reason"
proof -
  obtain c' where c': "ApplyTransition (en_now en) c (transition TransitionTerminated reason) = Inr c'" "IsEnded c'"
    "sd_EndReason (ci_StateData c') = reason" using terminated [OF assms(2)] by blast
  then have "ci_CallID c' = ci_CallID c" by (auto dest!: ApplyTransition_Inr simp: same_call_fields)
  with c' show ?thesis
    using assms by (auto simp: EndCall_def Let_def apply_current_def try_transition_def emitState_def emit_def says)
qed

text \<open>What is left to do for a call that leaves the registry, in the order in which it starts.\<close>

definition farewell :: "('j, 'c, 'p) activeCall \<Rightarrow> CallRecord option \<Rightarrow> ('j, 'p) job list" where
  "farewell ac rc =
     (let peer = (case rc of None \<Rightarrow> '''' | Some c \<Rightarrow> cr_Peer c)
      in (case ac_recorder ac of None \<Rightarrow> [] | Some w \<Rightarrow> [FinalizeRecording w peer])
         @ (if peer \<noteq> '''' \<and> ac_inbound ac \<and> \<not> ac_answered ac then [NoteMissedCall peer] else [])
         @ close_bridge (ac_bridge ac))"

lemma removeCall_Some:
  "reg_get i s = Some r \<Longrightarrow>
     removeCall i (s, b) = (spawn (farewell (se_calls s ! r) (getCall b i)) (snd (reg_remove i s)), b)"
  by (auto simp: removeCall_def reg_remove_def reg_get_def Let_def farewell_def)

lemma removeCall_None: "reg_get i s = None \<Longrightarrow> removeCall i (s, b) = (s, b)"
  by (simp add: removeCall_def reg_remove_def reg_get_def)

lemma endCall_None: "getCall b i = None \<Longrightarrow> endCall b now i re = b"
  by (simp add: endCall_def getCall_def)

lemma reg_get_removed: "reg_get i (spawn js (snd (reg_remove i s))) = None"
  by (simp add: reg_get_remove)

lemma finish_None: "reg_get i (fst st) = None \<Longrightarrow> getCall (snd st) i = None \<Longrightarrow> finish v i re st = st"
  by (cases st) (simp add: finish_def removeCall_None endCall_None)

lemma ending_run:
  fixes v :: "('j, 'c, 'p) served_env" and reason :: EndCallReason
  assumes "served_ok (s, b)" "reg_get i s = Some r"
  defines "st' \<equiv> run_cm v r (\<lambda>m. EndCall (sv_en v) m reason) (s, b)"
  shows "reg_get i (fst st') = None" "snd st' = endCall b (sv_now v) i reason"
    "se_jobs (fst st') = se_jobs s @ farewell (se_calls s ! r) (getCall b i)"
    "over (ac_cm (se_calls (fst st') ! r))"
proof -
  define m where "m = ac_cm (se_calls s ! r)"
  have r: "r < length (se_calls s)" "ac_callID (se_calls s ! r) = i"
    using reg_ok_get [OF served_ok_reg [OF assms(1)] assms(2)] by simp_all
  obtain c where c: "cm_currentCall m = Some c" "\<not> IsEnded c" "ci_CallID c = i"
    using assms(1,2) r by (fastforce simp: served_ok_def id_ok_def m_def)
  obtain c' q where evs: "cm_events (EndCall (sv_en v) m reason) = cm_events m @ [StateChanged c', Queried q, EndedCall c']"
    and cur: "cm_currentCall (EndCall (sv_en v) m reason) = Some c'"
    and c': "IsEnded c'" "ci_CallID c' = i" "sd_EndReason (ci_StateData c') = reason"
    using EndCall_says [OF c(1,2)] c(3) by metis
  define s1 where "s1 = at_call r (\<lambda>ac. ac\<lparr>ac_cm := EndCall (sv_en v) (ac_cm ac) reason\<rparr>) s"
  have get: "reg_get i s1 = Some r" using assms(2) by (simp add: s1_def)
  have fw: "farewell (se_calls s1 ! r) rc = farewell (se_calls s ! r) rc" for rc
    using r by (simp add: s1_def at_call_nth farewell_def)
  have "st' = (spawn (farewell (se_calls s ! r) (getCall b i)) (snd (reg_remove i s1)), endCall b (sv_now v) i reason)"
    unfolding st'_def run_cm_eq
    using evs c' r(2) removeCall_Some [OF get]
    by (simp add: new_events_def m_def flip: s1_def)
      (simp add: onStateChange_def onEnded_def fw removeCall_None [OF reg_get_removed] endCall_None)
  moreover have "se_calls s1 ! r = (se_calls s ! r)\<lparr>ac_cm := EndCall (sv_en v) m reason\<rparr>"
    using r by (simp add: s1_def at_call_nth m_def)
  moreover have "se_jobs (snd (reg_remove i s1)) = se_jobs s"
    by (auto simp: reg_remove_def s1_def at_call_def split: option.split)
  ultimately show "reg_get i (fst st') = None" "snd st' = endCall b (sv_now v) i reason"
    "se_jobs (fst st') = se_jobs s @ farewell (se_calls s ! r) (getCall b i)"
    "over (ac_cm (se_calls (fst st') ! r))"
    using cur c'(1) by (simp_all add: over_def reg_get_removed) (simp_all add: reg_get_remove spawn_def reg_get_def [of _ "_\<lparr>se_jobs := _\<rparr>"] flip: reg_get_def)
qed

text \<open>
  Property C13. Hanging up leaves nothing of a live call behind: it leaves the registry and the table, its engine has
  ended, the history gains its record with the reason of the hang-up, and exactly these jobs start: the recording is
  finalised if there is one, a missed call is noted if it came in and was never answered, the bridge is closed.
\<close>

theorem hanging_up_clears_call:
  fixes v :: "('j, 'c, 'p) served_env"
  assumes "st = served_run ops (newSession s name jid, NewBroker)" "reg_get k (fst st) = Some r"
  defines "st' \<equiv> snd (doEndCall v k st)"
  shows "fst (doEndCall v k st) = NoContentReply \<and> reg_get k (fst st') = None \<and> getCall (snd st') k = None
    \<and> over (ac_cm (se_calls (fst st') ! r))
    \<and> br_history (snd st') = br_history (snd st)
        @ (case getCall (snd st) k of None \<Rightarrow> []
           | Some rc \<Rightarrow> [rc\<lparr>cr_Status := StatusEnded, cr_EndedAt := Some (sv_now v), cr_EndReason := EndCallReasonUserEnded\<rparr>])
    \<and> se_jobs (fst st') = se_jobs (fst st) @ farewell (se_calls (fst st) ! r) (getCall (snd st) k)"
proof -
  obtain s b where st: "st = (s, b)" by (cases st)
  have "served_ok (s, b)" unfolding st [symmetric] assms(1) by (rule served_run_ok [OF served_ok_new])
  note end_k = ending_run [OF this, where v = v and reason = EndCallReasonUserEnded]
  have r: "reg_get k s = Some r" using assms(2) by (simp add: st)
  have "st' = run_cm v r (\<lambda>m. EndCall (sv_en v) m EndCallReasonUserEnded) (s, b)"
    using r end_k(1,2) [OF r] by (simp add: st'_def doEndCall_def st finish_None)
  then show ?thesis
    using end_k [OF r] by (simp add: st doEndCall_def history_endCall)
qed

text \<open>
  Property C14. A call that nobody answers ends: when the ring timer of a live call fires while the call is still shown as
  ringing, the call is over, gone from registry and table, and stands in the history with the reason \<open>timeout\<close>; a call
  in any other status is left alone.
\<close>

theorem unanswered_call_is_cut:
  fixes v :: "('j, 'c, 'p) served_env"
  assumes "st = served_run ops (newSession s name jid, NewBroker)" "reg_get k (fst st) = Some r"
    "getCall (snd st) k = Some rc"
  defines "st' \<equiv> snd (served_step v (RingTimer k) st)"
  shows "if cr_Status rc = StatusRinging
    then reg_get k (fst st') = None \<and> getCall (snd st') k = None \<and> over (ac_cm (se_calls (fst st') ! r))
      \<and> br_history (snd st') = br_history (snd st)
          @ [rc\<lparr>cr_Status := StatusEnded, cr_EndedAt := Some (sv_now v), cr_EndReason := EndCallReasonTimeout\<rparr>]
    else st' = st"
proof -
  obtain s b where st: "st = (s, b)" by (cases st)
  have "served_ok (s, b)" unfolding st [symmetric] assms(1) by (rule served_run_ok [OF served_ok_new])
  note end_k = ending_run [OF this, where v = v and reason = EndCallReasonTimeout]
  have r: "reg_get k s = Some r" using assms(2) by (simp add: st)
  then show ?thesis
    using assms(3) end_k [OF r] by (simp add: st'_def st cutIfStillRinging_def terminateCall_def history_endCall)
qed

definition demo_over :: "string \<Rightarrow> (string, unit, unit) served" where
  "demo_over k = snd (doEndCall demo_served k demo_ringing)"

lemma demo_registered: "reg_get ''c1'' (fst demo_ringing) = Some 0"
  by code_simp

theorem hanging_up_clears_call_witness: "reg_get ''c1'' (fst (demo_over ''c1'')) = None"
  using hanging_up_clears_call [OF demo_ringing_def demo_registered, of demo_served] by (simp add: demo_over_def)

lemma demo_record: "map_option cr_Status (getCall (snd demo_ringing) ''c1'') = Some StatusRinging"
  by code_simp

theorem unanswered_call_is_cut_witness:
  "reg_get ''c1'' (fst (snd (served_step demo_served (RingTimer ''c1'') demo_ringing))) = None"
proof -
  obtain rc where "getCall (snd demo_ringing) ''c1'' = Some rc" "cr_Status rc = StatusRinging"
    using demo_record by blast
  then show ?thesis using unanswered_call_is_cut [OF demo_ringing_def demo_registered, of rc demo_served] by simp
qed

end
