(* ===== verification/Stores.thy ===== *)
theory Stores
  imports Prelude "HOL-Library.AList"
begin

text \<open>
  The database of the server (\<^verbatim>\<open>cmd/server/sessionstore.go\<close>, \<^verbatim>\<open>chatwoot_store.go\<close>): sessions, the Chatwoot
  configuration of each session, the Chatwoot conversation of each chat, and the recording switch. A table is an
  association list from its primary key, in the order of its rows: an upsert keeps the place of a row, an insert adds
  one at the end. SQLite itself is not modelled beyond this; any statement may fail, and \<open>up n\<close> says whether the
  \<open>n\<close>-th statement of an operation succeeds.
\<close>

section \<open>Tables\<close>

record ChatwootConfig =
  cw_URL :: string
  cw_AccountID :: int
  cw_AccountToken :: string
  cw_InboxID :: int
  cw_InboxIdentifier :: string
  cw_WebhookSecret :: string

definition ChatwootConfig_zero :: ChatwootConfig where
  "ChatwootConfig_zero = \<lparr>cw_URL = '''', cw_AccountID = 0, cw_AccountToken = '''', cw_InboxID = 0, cw_InboxIdentifier = '''',
     cw_WebhookSecret = ''''\<rparr>"

definition cw_valid :: "ChatwootConfig \<Rightarrow> bool" where
  "cw_valid c \<longleftrightarrow> cw_URL c \<noteq> '''' \<and> cw_AccountID c \<noteq> 0 \<and> cw_AccountToken c \<noteq> '''' \<and> cw_InboxID c \<noteq> 0"

record sessionRow =
  row_ID :: string
  row_Name :: string
  row_JID :: string

record conversation =
  cv_ContactID :: int
  cv_SourceID :: string
  cv_ConversationID :: int

text \<open>The column \<^verbatim>\<open>jid\<close> may be NULL.\<close>

record sessionStore =
  db_sessions :: "(string \<times> string \<times> string option) list"
  db_configs :: "(string \<times> ChatwootConfig) list"
  db_conversations :: "((string \<times> string) \<times> conversation) list"
  db_recording :: "(string \<times> bool) list"

definition newSessionStore :: sessionStore where
  "newSessionStore = \<lparr>db_sessions = [], db_configs = [], db_conversations = [], db_recording = []\<rparr>"

type_synonym faults = "nat \<Rightarrow> bool"

type_synonym 'a sql = "(string + 'a) \<times> sessionStore"

definition sql_error :: string where
  "sql_error = ''sql''"

text \<open>One statement, and what follows when it succeeds.\<close>

definition exec :: "bool \<Rightarrow> (sessionStore \<Rightarrow> sessionStore) \<Rightarrow> sessionStore \<Rightarrow> unit sql" where
  "exec up f db = (if up then (Inr (), f db) else (Inl sql_error, db))"

definition and_then :: "'a sql \<Rightarrow> (sessionStore \<Rightarrow> 'b sql) \<Rightarrow> 'b sql" where
  "and_then r f = (case r of (Inl err, db) \<Rightarrow> (Inl err, db) | (Inr _, db) \<Rightarrow> f db)"

section \<open>Sessions\<close>

text \<open>\<open>draw\<close> are the random bytes.\<close>

definition newSessionID :: "bytes \<Rightarrow> string" where
  "newSessionID draw = hex_of draw"

definition list_sessions :: "bool \<Rightarrow> sessionStore \<Rightarrow> string + sessionRow list" where
  "list_sessions up db =
     (if up then Inr (map (\<lambda>(i, name, jid). \<lparr>row_ID = i, row_Name = name, row_JID = (case jid of None \<Rightarrow> '''' | Some j \<Rightarrow> j)\<rparr>)
        (db_sessions db))
      else Inl sql_error)"

text \<open>An insert also fails on a key that is taken.\<close>

definition insert_session :: "faults \<Rightarrow> string \<Rightarrow> string \<Rightarrow> sessionStore \<Rightarrow> unit sql" where
  "insert_session up i name db =
     exec (up 0 \<and> map_of (db_sessions db) i = None) (\<lambda>db. db\<lparr>db_sessions := db_sessions db @ [(i, name, None)]\<rparr>) db"

definition setJID :: "faults \<Rightarrow> string \<Rightarrow> string \<Rightarrow> sessionStore \<Rightarrow> unit sql" where
  "setJID up i jid db =
     exec (up 0) (\<lambda>db. db\<lparr>db_sessions := map (\<lambda>(k, name, j). (k, name, if k = i then Some jid else j)) (db_sessions db)\<rparr>) db"

section \<open>Conversations\<close>

definition drop_conversations :: "string \<Rightarrow> sessionStore \<Rightarrow> sessionStore" where
  "drop_conversations i db = db\<lparr>db_conversations := filter (\<lambda>((k, chat), c). k \<noteq> i) (db_conversations db)\<rparr>"

definition clearConversations :: "faults \<Rightarrow> string \<Rightarrow> sessionStore \<Rightarrow> unit sql" where
  "clearConversations up i db = exec (up 0) (drop_conversations i) db"

text \<open>The conversation of a chat, 0 when there is none.\<close>

definition lookupConversation :: "bool \<Rightarrow> string \<Rightarrow> string \<Rightarrow> sessionStore \<Rightarrow> string + int" where
  "lookupConversation up i chat db =
     (if up then Inr (case map_of (db_conversations db) (i, chat) of None \<Rightarrow> 0 | Some c \<Rightarrow> cv_ConversationID c)
      else Inl sql_error)"

definition saveConversation ::
    "faults \<Rightarrow> string \<Rightarrow> string \<Rightarrow> int \<Rightarrow> string \<Rightarrow> int \<Rightarrow> sessionStore \<Rightarrow> unit sql" where
  "saveConversation up i chat contactID sourceID convID db =
     exec (up 0)
       (\<lambda>db. db\<lparr>db_conversations := AList.update (i, chat)
                  \<lparr>cv_ContactID = contactID, cv_SourceID = sourceID, cv_ConversationID = convID\<rparr> (db_conversations db)\<rparr>) db"

section \<open>Configurations\<close>

definition newWebhookSecret :: "bytes \<Rightarrow> string" where
  "newWebhookSecret draw = hex_of draw"

definition getChatwoot :: "bool \<Rightarrow> string \<Rightarrow> sessionStore \<Rightarrow> ChatwootConfig \<times> bool" where
  "getChatwoot up i db =
     (if up then (case map_of (db_configs db) i of None \<Rightarrow> (ChatwootConfig_zero, False) | Some c \<Rightarrow> (c, True))
      else (ChatwootConfig_zero, False))"

text \<open>Statements: 0 the read, 1 the deletion of conversations, 2 the upsert.\<close>

definition setChatwoot :: "faults \<Rightarrow> bytes \<Rightarrow> string \<Rightarrow> ChatwootConfig \<Rightarrow> sessionStore \<Rightarrow> unit sql" where
  "setChatwoot up draw i c db =
     (let (prev, had) = getChatwoot (up 0) i db;
          cleared = (if had \<and> (cw_AccountID prev \<noteq> cw_AccountID c \<or> cw_InboxID prev \<noteq> cw_InboxID c \<or> cw_URL prev \<noteq> cw_URL c)
                     then clearConversations (\<lambda>_. up 1) i db else (Inr (), db));
          secret = (if had \<and> cw_WebhookSecret prev \<noteq> '''' then cw_WebhookSecret prev
                    else if cw_WebhookSecret c = '''' then newWebhookSecret draw else cw_WebhookSecret c)
      in and_then cleared
           (exec (up 2) (\<lambda>db. db\<lparr>db_configs := AList.update i (c\<lparr>cw_WebhookSecret := secret\<rparr>) (db_configs db)\<rparr>)))"

definition deleteChatwoot :: "faults \<Rightarrow> string \<Rightarrow> sessionStore \<Rightarrow> unit sql" where
  "deleteChatwoot up i db =
     and_then (exec (up 0) (\<lambda>db. db\<lparr>db_configs := AList.delete i (db_configs db)\<rparr>) db)
       (clearConversations (\<lambda>_. up 1) i)"

text \<open>The secret is not among the columns read.\<close>

definition configsByAccount :: "bool \<Rightarrow> int \<Rightarrow> sessionStore \<Rightarrow> string + (string \<times> ChatwootConfig) list" where
  "configsByAccount up account db =
     (if up then Inr (map (\<lambda>(i, c). (i, c\<lparr>cw_WebhookSecret := ''''\<rparr>)) (filter (\<lambda>(i, c). cw_AccountID c = account) (db_configs db)))
      else Inl sql_error)"

section \<open>Recording\<close>

definition setRecording :: "faults \<Rightarrow> string \<Rightarrow> bool \<Rightarrow> sessionStore \<Rightarrow> unit sql" where
  "setRecording up i enabled db = exec (up 0) (\<lambda>db. db\<lparr>db_recording := AList.update i enabled (db_recording db)\<rparr>) db"

definition getRecording :: "bool \<Rightarrow> string \<Rightarrow> sessionStore \<Rightarrow> bool" where
  "getRecording up i db \<longleftrightarrow> up \<and> map_of (db_recording db) i = Some True"

section \<open>Deletion of a session\<close>

text \<open>Statements: 0 the session, 1 and 2 its configuration and conversations, 3 its recording switch.\<close>

definition delete_session :: "faults \<Rightarrow> string \<Rightarrow> sessionStore \<Rightarrow> unit sql" where
  "delete_session up i db =
     and_then (exec (up 0) (\<lambda>db. db\<lparr>db_sessions := AList.delete i (db_sessions db)\<rparr>) db)
       (\<lambda>db. and_then (deleteChatwoot (\<lambda>n. up (n + 1)) i db)
         (exec (up 3) (\<lambda>db. db\<lparr>db_recording := AList.delete i (db_recording db)\<rparr>)))"

section \<open>Runs\<close>

datatype store_op =
    InsertSession string string
  | SetJID string string
  | DeleteSession string
  | SetChatwoot bytes string ChatwootConfig
  | DeleteChatwoot string
  | SaveConversation string string int string int
  | SetRecording string bool

fun store_step :: "sessionStore \<Rightarrow> faults \<times> store_op \<Rightarrow> sessionStore" where
  "store_step db (up, InsertSession i name) = snd (insert_session up i name db)"
| "store_step db (up, SetJID i jid) = snd (setJID up i jid db)"
| "store_step db (up, DeleteSession i) = snd (delete_session up i db)"
| "store_step db (up, SetChatwoot draw i c) = snd (setChatwoot up draw i c db)"
| "store_step db (up, DeleteChatwoot i) = snd (deleteChatwoot up i db)"
| "store_step db (up, SaveConversation i chat contact source conv) = snd (saveConversation up i chat contact source conv db)"
| "store_step db (up, SetRecording i enabled) = snd (setRecording up i enabled db)"

definition store_run :: "sessionStore \<Rightarrow> (faults \<times> store_op) list \<Rightarrow> sessionStore" where
  "store_run = foldl store_step"

section \<open>What the tables promise\<close>

text \<open>A table: reading after an upsert and after a deletion of rows.\<close>

locale keyed_table =
  fixes get :: "'d \<Rightarrow> 'k \<Rightarrow> 'v option" and put :: "'k \<Rightarrow> 'v \<Rightarrow> 'd \<Rightarrow> 'd" and drop_rows :: "('k \<Rightarrow> bool) \<Rightarrow> 'd \<Rightarrow> 'd"
  assumes get_put: "get (put k v d) j = (if j = k then Some v else get d j)"
    and get_drop: "get (drop_rows p d) j = (if p j then None else get d j)"
begin

lemma get_put_same: "get (put k v d) k = Some v"
  by (simp add: get_put)

lemma get_dropped: "p k \<Longrightarrow> get (drop_rows p d) k = None"
  by (simp add: get_drop)

lemma get_other: "j \<noteq> k \<Longrightarrow> get (put k v d) j = get d j" "\<not> p j \<Longrightarrow> get (drop_rows p d) j = get d j"
  by (simp_all add: get_put get_drop)

lemma row_origin:
  "get (put k v d) j = Some w \<Longrightarrow> j = k \<and> w = v \<or> get d j = Some w"
  "get (drop_rows p d) j = Some w \<Longrightarrow> \<not> p j \<and> get d j = Some w"
  by (auto simp: get_put get_drop split: if_splits)

end

definition config_of :: "sessionStore \<Rightarrow> string \<Rightarrow> ChatwootConfig option" where
  "config_of db i = map_of (db_configs db) i"

definition conversation_of :: "sessionStore \<Rightarrow> string \<times> string \<Rightarrow> conversation option" where
  "conversation_of db k = map_of (db_conversations db) k"

definition recording_of :: "sessionStore \<Rightarrow> string \<Rightarrow> bool option" where
  "recording_of db i = map_of (db_recording db) i"

lemma map_of_filter_key: "map_of (filter (\<lambda>(k, v). \<not> p k) xs) j = (if p j then None else map_of xs j)"
  by (induction xs) auto

lemma delete_filter: "AList.delete i xs = filter (\<lambda>(k, v). \<not> k = i) xs"
  by (induction xs) auto

interpretation configs: keyed_table config_of
  "\<lambda>i c db. db\<lparr>db_configs := AList.update i c (db_configs db)\<rparr>"
  "\<lambda>p db. db\<lparr>db_configs := filter (\<lambda>(k, v). \<not> p k) (db_configs db)\<rparr>"
  by unfold_locales (simp_all add: config_of_def update_conv' map_of_filter_key)

interpretation conversations: keyed_table conversation_of
  "\<lambda>k c db. db\<lparr>db_conversations := AList.update k c (db_conversations db)\<rparr>"
  "\<lambda>p db. db\<lparr>db_conversations := filter (\<lambda>(k, v). \<not> p k) (db_conversations db)\<rparr>"
  by unfold_locales (simp_all add: conversation_of_def update_conv' map_of_filter_key)

interpretation recordings: keyed_table recording_of
  "\<lambda>i c db. db\<lparr>db_recording := AList.update i c (db_recording db)\<rparr>"
  "\<lambda>p db. db\<lparr>db_recording := filter (\<lambda>(k, v). \<not> p k) (db_recording db)\<rparr>"
  by unfold_locales (simp_all add: recording_of_def update_conv' map_of_filter_key)

lemma drop_conversations_rows:
  "drop_conversations i db = db\<lparr>db_conversations := filter (\<lambda>(k, v). \<not> fst k = i) (db_conversations db)\<rparr>"
  by (simp add: drop_conversations_def) (rule arg_cong [where f = "\<lambda>x. db\<lparr>db_conversations := x\<rparr>"], rule filter_cong, auto)

lemma snd_exec: "snd (exec up f db) = (if up then f db else db)"
  by (simp add: exec_def)

lemma snd_and_then: "snd (and_then r f) = (case r of (Inl err, db) \<Rightarrow> db | (Inr _, db) \<Rightarrow> snd (f db))"
  by (auto simp: and_then_def split: sum.split prod.split)

lemma other_tables [simp]:
  "config_of (db\<lparr>db_conversations := x\<rparr>) = config_of db" "config_of (db\<lparr>db_sessions := y\<rparr>) = config_of db"
  "config_of (db\<lparr>db_recording := z\<rparr>) = config_of db" "config_of (drop_conversations i db) = config_of db"
  "conversation_of (db\<lparr>db_configs := u\<rparr>) = conversation_of db" "conversation_of (db\<lparr>db_sessions := y\<rparr>) = conversation_of db"
  "conversation_of (db\<lparr>db_recording := z\<rparr>) = conversation_of db"
  "recording_of (db\<lparr>db_configs := u\<rparr>) = recording_of db" "recording_of (db\<lparr>db_sessions := y\<rparr>) = recording_of db"
  "recording_of (db\<lparr>db_conversations := x\<rparr>) = recording_of db" "recording_of (drop_conversations i db) = recording_of db"
  "config_of (db\<lparr>db_sessions := y, db_configs := u\<rparr>) = config_of (db\<lparr>db_configs := u\<rparr>)"
  by (simp_all add: config_of_def conversation_of_def recording_of_def fun_eq_iff drop_conversations_def)

lemma db_conversations_dropped: "conversation_of (drop_conversations i db) k = (if fst k = i then None else conversation_of db k)"
  by (simp add: drop_conversations_rows conversations.get_drop)

lemmas store_defs = exec_def and_then_def insert_session_def setJID_def saveConversation_def deleteChatwoot_def
  delete_session_def setRecording_def clearConversations_def

text \<open>The configuration that \<open>setChatwoot\<close> writes, and its effect on both tables it touches.\<close>

definition secret_for :: "bool \<Rightarrow> bytes \<Rightarrow> ChatwootConfig option \<Rightarrow> ChatwootConfig \<Rightarrow> string" where
  "secret_for read draw prev c =
     (case prev of
        Some p \<Rightarrow> if read \<and> cw_WebhookSecret p \<noteq> '''' then cw_WebhookSecret p
                  else if cw_WebhookSecret c = '''' then newWebhookSecret draw else cw_WebhookSecret c
      | None \<Rightarrow> if cw_WebhookSecret c = '''' then newWebhookSecret draw else cw_WebhookSecret c)"

definition target_of :: "ChatwootConfig \<Rightarrow> string \<times> int \<times> int" where
  "target_of c = (cw_URL c, cw_AccountID c, cw_InboxID c)"

lemma config_setChatwoot:
  "config_of (snd (setChatwoot up draw i c db)) j =
     (if j = i \<and> fst (setChatwoot up draw i c db) = Inr ()
      then Some (c\<lparr>cw_WebhookSecret := secret_for (up 0) draw (config_of db i) c\<rparr>) else config_of db j)"
  unfolding setChatwoot_def
  by (auto simp: Let_def getChatwoot_def secret_for_def store_defs configs.get_put ChatwootConfig_zero_def
      config_of_def [symmetric] split: option.split)

lemma conversation_setChatwoot:
  assumes "up 0"
  shows "conversation_of (snd (setChatwoot up draw i c db)) k =
     (if fst k = i \<and> up 1 \<and> (\<exists>p. config_of db i = Some p \<and> target_of p \<noteq> target_of c) then None else conversation_of db k)"
  using assms unfolding setChatwoot_def
  by (auto simp: Let_def getChatwoot_def store_defs db_conversations_dropped target_of_def config_of_def [symmetric]
      split: option.split)

lemma config_deleteChatwoot:
  "config_of (snd (deleteChatwoot up i db)) j = (if j = i \<and> up 0 then None else config_of db j)"
  by (auto simp: store_defs delete_filter configs.get_drop)

lemma conversation_deleteChatwoot:
  "conversation_of (snd (deleteChatwoot up i db)) k = (if fst k = i \<and> up 0 \<and> up 1 then None else conversation_of db k)"
  by (auto simp: store_defs db_conversations_dropped)

lemma deleteChatwoot_result: "fst (deleteChatwoot up i db) = (if up 0 \<and> up 1 then Inr () else Inl sql_error)"
  by (simp add: store_defs)

lemma delete_session_rows:
  "config_of (snd (delete_session up i db)) j = (if j = i \<and> up 0 \<and> up 1 then None else config_of db j)"
  "conversation_of (snd (delete_session up i db)) k = (if fst k = i \<and> up 0 \<and> up 1 \<and> up 2 then None else conversation_of db k)"
  by (auto simp: store_defs delete_filter configs.get_drop db_conversations_dropped numeral_2_eq_2)

lemma step_config:
  "config_of (store_step db (up, x)) i =
     (case x of
        SetChatwoot draw j c \<Rightarrow> if j = i \<and> fst (setChatwoot up draw i c db) = Inr ()
          then Some (c\<lparr>cw_WebhookSecret := secret_for (up 0) draw (config_of db i) c\<rparr>) else config_of db i
      | DeleteChatwoot j \<Rightarrow> if j = i \<and> up 0 then None else config_of db i
      | DeleteSession j \<Rightarrow> if j = i \<and> up 0 \<and> up 1 then None else config_of db i
      | _ \<Rightarrow> config_of db i)"
  by (cases x) (auto simp: config_setChatwoot config_deleteChatwoot delete_session_rows insert_session_def setJID_def
      saveConversation_def setRecording_def snd_exec)

lemma step_conversation:
  assumes "up 0"
  shows "conversation_of (store_step db (up, x)) k =
     (case x of
        SetChatwoot draw i c \<Rightarrow>
          if fst k = i \<and> up 1 \<and> (\<exists>p. config_of db i = Some p \<and> target_of p \<noteq> target_of c) then None else conversation_of db k
      | DeleteChatwoot i \<Rightarrow> if fst k = i \<and> up 1 then None else conversation_of db k
      | DeleteSession i \<Rightarrow> if fst k = i \<and> up 1 \<and> up 2 then None else conversation_of db k
      | SaveConversation i chat contact source conv \<Rightarrow>
          if k = (i, chat) then Some \<lparr>cv_ContactID = contact, cv_SourceID = source, cv_ConversationID = conv\<rparr>
          else conversation_of db k
      | _ \<Rightarrow> conversation_of db k)"
  using assms
  by (cases x) (auto simp: conversation_setChatwoot conversation_deleteChatwoot delete_session_rows insert_session_def
      setJID_def saveConversation_def setRecording_def snd_exec conversations.get_put)

lemma store_run_simps [simp]:
  "store_run db [] = db" "store_run db (x # xs) = store_run (store_step db x) xs"
  "store_run db (xs @ ys) = store_run (store_run db xs) ys"
  by (simp_all add: store_run_def)


text \<open>
  Deleting a session that succeeds leaves none of its rows in any table and does not touch those of the others.
\<close>

lemma deleted_rows:
  assumes "fst (delete_session up i db) = Inr ()"
  defines "db' \<equiv> snd (delete_session up i db)"
  shows "map_of (db_sessions db') = (map_of (db_sessions db))(i := None)
    \<and> map_of (db_configs db') = (map_of (db_configs db))(i := None)
    \<and> map_of (db_recording db') = (map_of (db_recording db))(i := None)
    \<and> (\<forall>k chat. map_of (db_conversations db') (k, chat) = (if k = i then None else map_of (db_conversations db) (k, chat)))"
proof -
  have up: "up 0" "up 1" "up 2" "up 3"
    using assms(1) by (auto simp: store_defs numeral_2_eq_2 numeral_3_eq_3 split: if_splits)
  have "config_of db' = (config_of db)(i := None)" "\<And>k. conversation_of db' k = (if fst k = i then None else conversation_of db k)"
    unfolding db'_def using up by (auto simp: fun_eq_iff delete_session_rows)
  moreover have "recording_of db' = (recording_of db)(i := None)" "map_of (db_sessions db') = (map_of (db_sessions db))(i := None)"
    unfolding db'_def using up by (simp_all add: store_defs delete_session_def drop_conversations_def numeral_2_eq_2 [symmetric] recording_of_def AList.delete_conv' fun_eq_iff)
  ultimately show ?thesis by (auto simp: config_of_def conversation_of_def recording_of_def fun_eq_iff)
qed

text \<open>
  When the read of the previous configuration fails, the secret is generated anew, and conversations of the old target
  stay behind.
\<close>

lemma failed_read_rotates_secret:
  assumes "config_of db i = Some p" "\<not> up 0" "up 2" "cw_WebhookSecret c = ''''"
  shows "config_of (store_step db (up, SetChatwoot draw i c)) i = Some (c\<lparr>cw_WebhookSecret := newWebhookSecret draw\<rparr>)
    \<and> conversation_of (store_step db (up, SetChatwoot draw i c)) = conversation_of db"
  using assms by (simp add: setChatwoot_def getChatwoot_def Let_def store_defs configs.get_put)

text \<open>The row of a chat, where it comes from, and that its Chatwoot account and inbox have not been replaced since.\<close>

definition retargeted :: "string \<Rightarrow> sessionStore \<Rightarrow> sessionStore \<Rightarrow> bool" where
  "retargeted i db db' \<longleftrightarrow>
     config_of db i \<noteq> None \<and> map_option target_of (config_of db' i) \<noteq> map_option target_of (config_of db i)"

lemma kept_row_not_retargeted:
  assumes "\<forall>n. up n" "conversation_of db (i, chat) = Some cv" "conversation_of (store_step db (up, x)) (i, chat) = Some cv"
    "\<And>contact source conv. x \<noteq> SaveConversation i chat contact source conv"
  shows "\<not> retargeted i db (store_step db (up, x))"
proof (cases "config_of db i")
  case (Some p)
  have "\<exists>c. config_of (store_step db (up, x)) i = Some c \<and> target_of c = target_of p"
  proof (cases x)
    case (SetChatwoot draw j c)
    have "j = i \<Longrightarrow> target_of p = target_of c"
      using assms(1,2,3) Some by (auto simp: SetChatwoot step_conversation simp del: store_step.simps split: if_splits)
    then show ?thesis using Some by (auto simp: SetChatwoot step_config target_of_def simp del: store_step.simps)
  qed (use assms(1,2,3) Some in \<open>auto simp: step_conversation step_config simp del: store_step.simps split: if_splits\<close>)
  then show ?thesis by (auto simp: retargeted_def Some)
qed (simp add: retargeted_def)


definition demo_config :: ChatwootConfig where
  "demo_config = ChatwootConfig_zero\<lparr>cw_URL := ''u'', cw_AccountID := 1, cw_AccountToken := ''t'', cw_InboxID := 2,
     cw_WebhookSecret := ''s''\<rparr>"



end
