(* ===== verification/SessionManager.thy ===== *)
theory SessionManager
  imports HttpApi Stores
begin

text \<open>
  The sessions of the server (\<^verbatim>\<open>cmd/server/sessionmanager.go\<close>, the pairing part of \<^verbatim>\<open>session.go\<close>, \<^verbatim>\<open>chatwoot_env.go\<close> and
  the session handlers of \<^verbatim>\<open>httpapi.go\<close>): which sessions there are, in memory and in the database, their restoration
  at a start, creation, pairing, logout and deletion, and the configuration that environment variables give them.

  A Go map of sessions is an association list here; where the code ranges over the map, the order is that of the list.
  The pairing goroutine of a session is driven by the events of type \<open>pairing_event\<close>; it may outlive the session, and
  then only its broadcasts remain visible.
\<close>

section \<open>Data\<close>

record ('j, 'c, 'p) SessionManager =
  sm_store :: sessionStore
  sm_sessions :: "(string \<times> ('j, 'c, 'p) Session) list"
  sm_order :: "string list"
  sm_broker :: Broker

datatype store_call = OnList | OnInsert | OnDelete | OnSetJID | OnChatwoot | OnRecording

text \<open>
  What the operations take from outside: the environment of the calls, the outcome of the statements of each call to the
  store (for a session), the environment variables, random bytes, and the answers of whatsmeow: whether a JID can be
  parsed and has a stored device, and the errors of \<^verbatim>\<open>GetQRChannel\<close> and \<^verbatim>\<open>Connect\<close> for a session.
\<close>

record ('j, 'c, 'p) mgr_env =
  me_served :: "('j, 'c, 'p) served_env"
  me_up :: "store_call \<Rightarrow> string \<Rightarrow> faults"
  me_getenv :: "string \<Rightarrow> string"
  me_secret :: "string \<Rightarrow> bytes"
  me_ParseJID_ok :: "string \<Rightarrow> bool"
  me_device :: "string \<Rightarrow> bool"
  me_qr_error :: "string \<Rightarrow> string option"
  me_connect_error :: "string \<Rightarrow> string option"

type_synonym ('j, 'c, 'p) mgr = "('j, 'c, 'p) SessionManager"

definition newSessionManager :: "sessionStore \<Rightarrow> Broker \<Rightarrow> ('j, 'c, 'p) mgr" where
  "newSessionManager store b = \<lparr>sm_store = store, sm_sessions = [], sm_order = [], sm_broker = b\<rparr>"

definition register :: "('j, 'c, 'p) Session \<Rightarrow> ('j, 'c, 'p) mgr \<Rightarrow> ('j, 'c, 'p) mgr" where
  "register s m = m\<lparr>sm_sessions := AList.update (se_id s) s (sm_sessions m), sm_order := sm_order m @ [se_id s]\<rparr>"

definition unregister :: "string \<Rightarrow> ('j, 'c, 'p) mgr \<Rightarrow> ('j, 'c, 'p) mgr" where
  "unregister i m = m\<lparr>sm_sessions := AList.delete i (sm_sessions m), sm_order := remove1 i (sm_order m)\<rparr>"

definition Get :: "string \<Rightarrow> ('j, 'c, 'p) mgr \<Rightarrow> ('j, 'c, 'p) Session option" where
  "Get i m = map_of (sm_sessions m) i"

definition all_sessions :: "('j, 'c, 'p) mgr \<Rightarrow> ('j, 'c, 'p) Session list" where
  "all_sessions m = map snd (sm_sessions m)"

definition info :: "('j, 'c, 'p) Session \<Rightarrow> SessionInfo" where
  "info s = \<lparr>si_ID = se_id s, si_Name = se_name s, si_JID = se_jid s, si_State = au_State (se_auth s),
     si_Paired = (au_Paired (se_auth s) \<or> se_jid s \<noteq> '''')\<rparr>"

definition infos :: "('j, 'c, 'p) mgr \<Rightarrow> SessionInfo list" where
  "infos m = map info (List.map_filter (\<lambda>i. Get i m) (sm_order m))"

definition snapshotEvents :: "('j, 'c, 'p) mgr \<Rightarrow> broker_event list" where
  "snapshotEvents m = [SessionListEv (infos m)]"

definition announce :: "('j, 'c, 'p) mgr \<Rightarrow> ('j, 'c, 'p) mgr" where
  "announce m = m\<lparr>sm_broker := emitSessionList (sm_broker m) (infos m)\<rparr>"

text \<open>A session is changed through the pointer that the map holds.\<close>

definition at_session :: "string \<Rightarrow> (('j, 'c, 'p) Session \<Rightarrow> ('j, 'c, 'p) Session) \<Rightarrow> ('j, 'c, 'p) mgr \<Rightarrow> ('j, 'c, 'p) mgr" where
  "at_session i f m = m\<lparr>sm_sessions := map (\<lambda>(k, s). (k, if k = i then f s else s)) (sm_sessions m)\<rparr>"

text \<open>An operation on the calls of a session.\<close>

definition on_calls :: "string \<Rightarrow> (('j, 'c, 'p) served \<Rightarrow> ('j, 'c, 'p) served) \<Rightarrow> ('j, 'c, 'p) mgr \<Rightarrow> ('j, 'c, 'p) mgr" where
  "on_calls i f m =
     (case Get i m of
        None \<Rightarrow> m
      | Some s \<Rightarrow> (case f (s, sm_broker m) of (s1, b1) \<Rightarrow> (at_session i (\<lambda>_. s1) m)\<lparr>sm_broker := b1\<rparr>))"

section \<open>Pairing\<close>

definition setAuth :: "string \<Rightarrow> string \<Rightarrow> AuthSnapshot \<Rightarrow> ('j, 'c, 'p) mgr \<Rightarrow> ('j, 'c, 'p) mgr" where
  "setAuth i pairClientID a m =
     (let m1 = at_session i (\<lambda>s. s\<lparr>se_auth := a, se_pairClientID := pairClientID\<rparr>) m
      in announce (m1\<lparr>sm_broker := emitAuthState (sm_broker m1) pairClientID i a\<rparr>))"

definition startPairing :: "('j, 'c, 'p) mgr_env \<Rightarrow> string \<Rightarrow> string + unit" where
  "startPairing me i =
     (case me_qr_error me i of
        Some err \<Rightarrow> Inl err
      | None \<Rightarrow> (case me_connect_error me i of Some err \<Rightarrow> Inl err | None \<Rightarrow> Inr ()))"

definition connect :: "('j, 'c, 'p) mgr_env \<Rightarrow> ('j, 'c, 'p) Session \<Rightarrow> string + unit" where
  "connect me s =
     (if se_jid s \<noteq> '''' then (case me_connect_error me (se_id s) of Some err \<Rightarrow> Inl err | None \<Rightarrow> Inr ())
      else startPairing me (se_id s))"

text \<open>The events of the QR channel; \<open>Paired\<close> is the moment at which whatsmeow stores the id of the device.\<close>

datatype pairing_event = Paired string | QRCode string | QRSuccess | QRTimeout

fun on_pairing :: "('j, 'c, 'p) mgr_env \<Rightarrow> string \<Rightarrow> string \<Rightarrow> pairing_event \<Rightarrow> ('j, 'c, 'p) mgr \<Rightarrow> ('j, 'c, 'p) mgr" where
  "on_pairing me i pairClientID (Paired jid) m = at_session i (\<lambda>s. s\<lparr>se_jid := jid\<rparr>) m"
| "on_pairing me i pairClientID (QRCode code) m =
     (let m1 = setAuth i pairClientID \<lparr>au_State = ''qr'', au_Paired = False, au_QR = code\<rparr> m
      in m1\<lparr>sm_broker := emitSessionQR (sm_broker m1) pairClientID i code\<rparr>)"
| "on_pairing me i pairClientID QRSuccess m =
     (let m1 = (case Get i m of
                  None \<Rightarrow> m
                | Some s \<Rightarrow> if se_jid s = '''' then m
                            else m\<lparr>sm_store := snd (setJID (me_up me OnSetJID i) i (se_jid s) (sm_store m))\<rparr>)
      in setAuth i pairClientID \<lparr>au_State = ''open'', au_Paired = True, au_QR = ''''\<rparr> m1)"
| "on_pairing me i pairClientID QRTimeout m =
     setAuth i pairClientID \<lparr>au_State = ''logged_out'', au_Paired = False, au_QR = ''''\<rparr> m"

text \<open>A fresh client has no device id.\<close>

definition replaceClient :: "('j, 'c, 'p) mgr_env \<Rightarrow> string \<Rightarrow> ('j, 'c, 'p) mgr \<Rightarrow> ('j, 'c, 'p) mgr" where
  "replaceClient me i m = at_session i (\<lambda>s. s\<lparr>se_jid := ''''\<rparr>) (on_calls i (teardownAllCalls (me_served me)) m)"

section \<open>Configuration from the environment\<close>

text \<open>The first result of \<^verbatim>\<open>strconv.Atoi\<close>: 0 on a syntax error, the nearest \<^verbatim>\<open>int\<close> when out of range.\<close>

definition Atoi :: "string \<Rightarrow> int" where
  "Atoi s =
     (let neg = (s \<noteq> [] \<and> hd s = CHR ''-'');
          body = (if s \<noteq> [] \<and> (hd s = CHR ''-'' \<or> hd s = CHR ''+'') then tl s else s);
          v = (if neg then - int (nat_of_dec body) else int (nat_of_dec body))
      in if body = [] \<or> \<not> list_all is_digit body then 0 else max (- (2 ^ 63)) (min (2 ^ 63 - 1) v))"

definition ParseBool :: "string \<Rightarrow> bool option" where
  "ParseBool s =
     (if s \<in> {''1'', ''t'', ''T'', ''TRUE'', ''true'', ''True''} then Some True
      else if s \<in> {''0'', ''f'', ''F'', ''FALSE'', ''false'', ''False''} then Some False else None)"

definition chatwootFromEnv :: "(string \<Rightarrow> string) \<Rightarrow> ChatwootConfig \<times> string \<times> bool" where
  "chatwootFromEnv getenv =
     (let cfg = \<lparr>cw_URL = TrimSpace (getenv ''WACALLS_CHATWOOT_URL''),
            cw_AccountID = Atoi (TrimSpace (getenv ''WACALLS_CHATWOOT_ACCOUNT_ID'')),
            cw_AccountToken = TrimSpace (getenv ''WACALLS_CHATWOOT_TOKEN''),
            cw_InboxID = Atoi (TrimSpace (getenv ''WACALLS_CHATWOOT_INBOX_ID'')),
            cw_InboxIdentifier = TrimSpace (getenv ''WACALLS_CHATWOOT_INBOX_IDENTIFIER''), cw_WebhookSecret = ''''\<rparr>;
          name0 = TrimSpace (getenv ''WACALLS_CHATWOOT_SESSION'');
          name = (if name0 = '''' then ''inbox-b'' else name0)
      in if cw_URL cfg = '''' \<and> cw_AccountToken cfg = '''' \<and> cw_AccountID cfg = 0 \<and> cw_InboxID cfg = 0
         then (ChatwootConfig_zero, name, False) else (cfg, name, True))"

definition apply_config :: "('j, 'c, 'p) mgr_env \<Rightarrow> ChatwootConfig \<Rightarrow> string \<Rightarrow> sessionStore \<Rightarrow> sessionStore" where
  "apply_config me cfg i db =
     (let up = me_up me OnChatwoot i; (prev, had) = getChatwoot (up 0) i db
      in if had \<and> prev\<lparr>cw_WebhookSecret := ''''\<rparr> = cfg then db
         else snd (setChatwoot (\<lambda>n. up (n + 1)) (me_secret me i) i cfg db))"

text \<open>A single session is configured whatever its name is.\<close>

definition env_session :: "string \<Rightarrow> ('j, 'c, 'p) Session list \<Rightarrow> string" where
  "env_session name sessions = (if length sessions = 1 then se_name (hd sessions) else name)"

definition applyChatwootEnv :: "('j, 'c, 'p) mgr_env \<Rightarrow> ('j, 'c, 'p) mgr \<Rightarrow> ('j, 'c, 'p) mgr" where
  "applyChatwootEnv me m =
     (case chatwootFromEnv (me_getenv me) of (cfg, name, ok) \<Rightarrow>
       if \<not> ok \<or> \<not> cw_valid cfg then m
       else m\<lparr>sm_store := fold (\<lambda>s db. if se_name s = env_session name (all_sessions m) then apply_config me cfg (se_id s) db else db)
                (all_sessions m) (sm_store m)\<rparr>)"

definition applyRecordingEnv :: "('j, 'c, 'p) mgr_env \<Rightarrow> ('j, 'c, 'p) mgr \<Rightarrow> ('j, 'c, 'p) mgr" where
  "applyRecordingEnv me m =
     (let raw = TrimSpace (me_getenv me ''WACALLS_RECORDING'') in
      if raw = '''' then m
      else case ParseBool raw of
             None \<Rightarrow> m
           | Some want \<Rightarrow>
               m\<lparr>sm_store := fold (\<lambda>s db. let up = me_up me OnRecording (se_id s) in
                    if getRecording (up 0) (se_id s) db = want then db
                    else snd (setRecording (\<lambda>n. up (n + 1)) (se_id s) want db)) (all_sessions m) (sm_store m)\<rparr>)"

section \<open>Operations\<close>

definition drop_row :: "('j, 'c, 'p) mgr_env \<Rightarrow> string \<Rightarrow> ('j, 'c, 'p) mgr \<Rightarrow> ('j, 'c, 'p) mgr" where
  "drop_row me i m = m\<lparr>sm_store := snd (delete_session (me_up me OnDelete i) i (sm_store m))\<rparr>"

definition restore_row :: "('j, 'c, 'p) mgr_env \<Rightarrow> sessionRow \<Rightarrow> ('j, 'c, 'p) mgr \<Rightarrow> ('j, 'c, 'p) mgr" where
  "restore_row me row m =
     (if row_JID row = '''' then drop_row me (row_ID row) m
      else if \<not> me_ParseJID_ok me (row_JID row) then drop_row me (row_ID row) m
      else if \<not> me_device me (row_JID row) then drop_row me (row_ID row) m
      else register (newSession (row_ID row) (row_Name row) (row_JID row)) m)"

definition Restore :: "('j, 'c, 'p) mgr_env \<Rightarrow> ('j, 'c, 'p) mgr \<Rightarrow> (string + unit) \<times> ('j, 'c, 'p) mgr" where
  "Restore me m =
     (case list_sessions (me_up me OnList '''' 0) (sm_store m) of
        Inl err \<Rightarrow> (Inl err, m)
      | Inr rows \<Rightarrow> (Inr (), announce (fold (restore_row me) rows m)))"

definition Create :: "('j, 'c, 'p) mgr_env \<Rightarrow> bytes \<Rightarrow> string \<Rightarrow> ('j, 'c, 'p) mgr \<Rightarrow> (string + string) \<times> ('j, 'c, 'p) mgr" where
  "Create me draw name m =
     (let i = newSessionID draw in
      case insert_session (me_up me OnInsert i) i name (sm_store m) of
        (Inl err, db) \<Rightarrow> (Inl err, m\<lparr>sm_store := db\<rparr>)
      | (Inr _, db) \<Rightarrow>
          let m1 = register (newSession i name '''') (m\<lparr>sm_store := db\<rparr>);
              m2 = announce (applyRecordingEnv me (applyChatwootEnv me m1))
          in (case startPairing me i of
                Inl err \<Rightarrow> (Inl (''start pairing: '' @ err), m2)
              | Inr _ \<Rightarrow> (Inr i, m2)))"

definition Delete :: "('j, 'c, 'p) mgr_env \<Rightarrow> string \<Rightarrow> ('j, 'c, 'p) mgr \<Rightarrow> (string + unit) \<times> ('j, 'c, 'p) mgr" where
  "Delete me i m =
     (case Get i m of
        None \<Rightarrow> (Inl (''no session '' @ i), m)
      | Some s \<Rightarrow>
          let m1 = on_calls i (teardownAllCalls (me_served me)) m
          in (Inr (), announce (drop_row me i (unregister i m1))))"

definition Logout :: "('j, 'c, 'p) mgr_env \<Rightarrow> string \<Rightarrow> ('j, 'c, 'p) mgr \<Rightarrow> (string + unit) \<times> ('j, 'c, 'p) mgr" where
  "Logout me i m =
     (case Get i m of
        None \<Rightarrow> (Inl (''no session '' @ i), m)
      | Some s \<Rightarrow>
          let m1 = replaceClient me i m;
              m2 = m1\<lparr>sm_store := snd (setJID (me_up me OnSetJID i) i '''' (sm_store m1))\<rparr>
          in (Inr (), setAuth i '''' \<lparr>au_State = ''logged_out'', au_Paired = False, au_QR = ''''\<rparr> m2))"

definition Pair_session :: "('j, 'c, 'p) mgr_env \<Rightarrow> string \<Rightarrow> ('j, 'c, 'p) mgr \<Rightarrow> (string + unit) \<times> ('j, 'c, 'p) mgr" where
  "Pair_session me i m =
     (case Get i m of
        None \<Rightarrow> (Inl (''no session '' @ i), m)
      | Some s \<Rightarrow>
          if se_jid s \<noteq> '''' then (Inl ''session already paired'', m)
          else
            let m1 = replaceClient me i m
            in (case startPairing me i of
                  Inl err \<Rightarrow> (Inl (''start pairing: '' @ err), m1)
                | Inr _ \<Rightarrow> (Inr (), announce m1)))"

definition disconnectAll :: "('j, 'c, 'p) mgr_env \<Rightarrow> ('j, 'c, 'p) mgr \<Rightarrow> ('j, 'c, 'p) mgr" where
  "disconnectAll me m = fold (\<lambda>i. on_calls i (teardownAllCalls (me_served me))) (map fst (sm_sessions m)) m"

section \<open>Handlers and runs\<close>

datatype session_reply = SessionCreated string | SessionGone | SessionFailed nat string

definition handleSessionCreate ::
    "('j, 'c, 'p) mgr_env \<Rightarrow> bytes \<Rightarrow> string \<Rightarrow> ('j, 'c, 'p) mgr \<Rightarrow> session_reply \<times> ('j, 'c, 'p) mgr" where
  "handleSessionCreate me draw name m =
     (let n = (if TrimSpace name = '''' then ''Session'' else TrimSpace name)
      in case Create me draw n m of
           (Inl err, m1) \<Rightarrow> (SessionFailed 500 err, m1)
         | (Inr i, m1) \<Rightarrow> (SessionCreated i, m1))"

definition no_content :: "nat \<Rightarrow> (string + unit) \<times> ('j, 'c, 'p) mgr \<Rightarrow> session_reply \<times> ('j, 'c, 'p) mgr" where
  "no_content code r = (case r of (Inl err, m) \<Rightarrow> (SessionFailed code err, m) | (Inr _, m) \<Rightarrow> (SessionGone, m))"

datatype ('j, 'p) mgr_op =
    HCreate bytes string
  | HDelete string
  | HLogout string
  | HPair string
  | Pairing string string pairing_event
  | OnSession string "('j, 'p) served_op"
  | StoreOp faults store_op  \<comment> \<open>a Chatwoot or recording setting of a session\<close>

fun settings_op :: "store_op \<Rightarrow> bool" where
  "settings_op (InsertSession i name) = False"
| "settings_op (SetJID i jid) = False"
| "settings_op (DeleteSession i) = False"
| "settings_op _ = True"

fun mgr_step :: "('j, 'c, 'p) mgr_env \<Rightarrow> ('j, 'p) mgr_op \<Rightarrow> ('j, 'c, 'p) mgr \<Rightarrow> ('j, 'c, 'p) mgr" where
  "mgr_step me (HCreate draw name) m = snd (handleSessionCreate me draw name m)"
| "mgr_step me (HDelete i) m = snd (no_content 404 (Delete me i m))"
| "mgr_step me (HLogout i) m = snd (no_content 404 (Logout me i m))"
| "mgr_step me (HPair i) m = snd (no_content 400 (Pair_session me i m))"
| "mgr_step me (Pairing i client e) m = on_pairing me i client e m"
| "mgr_step me (OnSession i x) m =
     on_calls i (\<lambda>st. snd (served_step
       ((me_served me)\<lparr>sv_recording := getRecording (me_up me OnRecording i 0) i (sm_store m)\<rparr>) x st)) m"
| "mgr_step me (StoreOp up x) m = (if settings_op x then m\<lparr>sm_store := store_step (sm_store m) (up, x)\<rparr> else m)"

definition mgr_event :: "('j, 'c, 'p) mgr \<Rightarrow> ('j, 'c, 'p) mgr_env \<times> ('j, 'p) mgr_op \<Rightarrow> ('j, 'c, 'p) mgr" where
  "mgr_event m e = mgr_step (fst e) (snd e) m"

definition mgr_run :: "('j, 'c, 'p) mgr \<Rightarrow> (('j, 'c, 'p) mgr_env \<times> ('j, 'p) mgr_op) list \<Rightarrow> ('j, 'c, 'p) mgr" where
  "mgr_run = foldl mgr_event"

text \<open>The start of the server on a database; without its sessions it does not start.\<close>

definition boot :: "('j, 'c, 'p) mgr_env \<Rightarrow> sessionStore \<Rightarrow> string + ('j, 'c, 'p) mgr" where
  "boot me db =
     (case Restore me (newSessionManager db NewBroker) of
        (Inl err, m) \<Rightarrow> Inl err
      | (Inr _, m) \<Rightarrow> Inr (applyRecordingEnv me (applyChatwootEnv me m)))"

end
