(* ===== verification/SessionClaims.thy ===== *)
theory SessionClaims
  imports SessionManager ServedCalls
begin

text \<open>
  What the server promises about its sessions (theory \<open>SessionManager\<close> holds the model): the list of sessions is
  faithful to memory and database in every state, a restart brings back exactly the paired sessions, a deletion leaves
  nothing, and the environment variables take effect once and change nothing afterwards.
\<close>

section \<open>The invariant\<close>

definition ids :: "('j, 'c, 'p) mgr \<Rightarrow> string list" where
  "ids m = map fst (sm_sessions m)"

definition rows :: "sessionStore \<Rightarrow> string list" where
  "rows db = map fst (db_sessions db)"

definition session_ok :: "string \<Rightarrow> ('j, 'c, 'p) Session \<Rightarrow> bool" where
  "session_ok i s \<longleftrightarrow> se_id s = i \<and> served_ok (s, NewBroker)"

definition mgr_inv :: "('j, 'c, 'p) mgr \<Rightarrow> bool" where
  "mgr_inv m \<longleftrightarrow> distinct (ids m) \<and> distinct (sm_order m) \<and> set (sm_order m) = set (ids m)
     \<and> (\<forall>(i, s) \<in> set (sm_sessions m). session_ok i s)
     \<and> distinct (rows (sm_store m)) \<and> set (ids m) \<subseteq> set (rows (sm_store m))"

lemma session_ok_served: "session_ok i s \<longleftrightarrow> se_id s = i \<and> served_ok (s, b)"
  by (simp add: session_ok_def served_ok_def)

lemma session_ok_fields:
  "session_ok i (s\<lparr>se_auth := a\<rparr>) = session_ok i s" "session_ok i (s\<lparr>se_pairClientID := c\<rparr>) = session_ok i s"
  "session_ok i (s\<lparr>se_jid := j\<rparr>) = session_ok i s"
  by (simp_all add: session_ok_def served_ok_def reg_ok_def reg_get_def)

lemma Get_ok: "mgr_inv m \<Longrightarrow> Get i m = Some s \<Longrightarrow> session_ok i s"
  by (auto simp: mgr_inv_def Get_def dest!: map_of_SomeD)

text \<open>The id of a session stays, whatever happens to its calls.\<close>

lemma se_id_removeCall [simp]: "se_id (fst (removeCall i st)) = se_id (fst st)"
proof -
  obtain s b where st: "st = (s, b)" by (cases st)
  obtain js where "removeCall i (s, b) = (spawn js (snd (reg_remove i s)), b)" using removeCall_eq by blast
  then show ?thesis by (simp add: st)
qed

lemma se_id_event [simp]: "se_id (fst (on_event v i e st)) = se_id (fst st)"
proof -
  have ended: "se_id (fst (onEnded v c st)) = se_id (fst st)" for c
    using se_id_removeCall [of "ci_CallID c" st] by (simp add: onEnded_def case_prod_beta)
  have others: "se_id (fst (onIncoming v c st)) = se_id (fst st)" "se_id (fst (onPeerAudio v i pcm st)) = se_id (fst st)"
    "se_id (fst (onStateChange v c st)) = se_id (fst st)" for c pcm
    using ended [of c] by (cases st; auto simp: onIncoming_def onPeerAudio_def onStateChange_def Let_def
        split: option.split prod.split)+
  show ?thesis by (cases e) (simp_all add: ended others)
qed

lemma se_id_events [simp]: "se_id (fst (fold (on_event v i) evs st)) = se_id (fst st)"
  by (induction evs arbitrary: st) simp_all

lemma se_id_run [simp]: "se_id (fst (run_cm v r f st)) = se_id (fst st)"
  by (cases st) (simp add: run_cm_eq)

lemma se_id_teardown: "se_id (fst (teardownAllCalls v st)) = se_id (fst st)"
proof -
  have "se_id (fst (fold (\<lambda>r st. let (s2, b2) = run_cm v r f st in (spawn (g r s2) s2, b2)) rs st)) = se_id (fst st)" for f g rs st
    by (induction rs arbitrary: st) (simp_all add: case_prod_beta)
  then show ?thesis by (cases st) (simp add: teardownAllCalls_def reg_drain_def Let_def)
qed

lemma session_ok_step:
  assumes "session_ok i s"
  shows "session_ok i (fst (snd (served_step v x (s, b))))"
proof -
  have ok: "served_ok (s, b)" "se_id s = i" using assms by (simp_all add: session_ok_served [of i s b])
  then have "served_ok (snd (served_step v x (s, b)))" by (simp add: served_step_ok)
  moreover have "se_id (fst (snd (served_step v x (s, b)))) = i"
  proof (cases "x = Teardown")
    case True
    then show ?thesis using ok(2) by (simp add: se_id_teardown)
  next
    case False
    then show ?thesis using begins_served_step [OF False, of v "(s, b)"] ok by (auto simp: may_begin_def keeps_def served_ok_def)
  qed
  ultimately show ?thesis
    using session_ok_served [of i "fst (snd (served_step v x (s, b)))" "snd (snd (served_step v x (s, b)))"] by simp
qed

lemma session_ok_new: "session_ok i (newSession i n j)"
  using served_ok_new [of i n j] by (simp add: session_ok_def newSession_def)

text \<open>Changes of a session, of the broker, of the tables that hold no sessions.\<close>

lemma ids_simps [simp]:
  "ids (at_session i f m) = ids m" "ids (m\<lparr>sm_broker := b\<rparr>) = ids m" "ids (m\<lparr>sm_store := db\<rparr>) = ids m" "ids (announce m) = ids m"
  by (auto simp: ids_def at_session_def announce_def)

lemma mgr_fields [simp]:
  "sm_order (at_session i f m) = sm_order m" "sm_store (at_session i f m) = sm_store m"
  "sm_order (announce m) = sm_order m" "sm_store (announce m) = sm_store m" "sm_sessions (announce m) = sm_sessions m"
  by (simp_all add: at_session_def announce_def)

lemma inv_broker [simp]: "mgr_inv (m\<lparr>sm_broker := b\<rparr>) = mgr_inv m" "mgr_inv (announce m) = mgr_inv m"
  by (simp_all add: mgr_inv_def announce_def ids_def)

lemma inv_at_session:
  assumes "mgr_inv m" "\<And>s. Get i m = Some s \<Longrightarrow> session_ok i (f s)"
  shows "mgr_inv (at_session i f m)"
proof -
  have "session_ok k s" if mem: "(k, s) \<in> set (sm_sessions (at_session i f m))" for k s
  proof (cases "k = i")
    case True
    then obtain s0 where s0: "(i, s0) \<in> set (sm_sessions m)" "s = f s0" using mem by (auto simp: at_session_def)
    then have "Get i m = Some s0" using assms(1) by (simp add: Get_def mgr_inv_def ids_def)
    then show ?thesis using assms(2) s0(2) True by simp
  next
    case False
    then show ?thesis using mem assms(1) by (auto simp: at_session_def mgr_inv_def)
  qed
  then show ?thesis using assms(1) by (auto simp: mgr_inv_def)
qed

lemma inv_on_calls:
  assumes "mgr_inv m" "\<And>s. session_ok i s \<Longrightarrow> session_ok i (fst (f (s, sm_broker m)))"
  shows "mgr_inv (on_calls i f m)"
  using assms(1) inv_at_session [OF assms(1), of i "\<lambda>_. fst (f (s, sm_broker m))" for s] Get_ok [OF assms(1)] assms(2)
  by (auto simp: on_calls_def split: option.split prod.split) (metis fst_conv)

lemma inv_store:
  assumes "mgr_inv m" "distinct (rows db)" "set (ids m) \<subseteq> set (rows db)"
  shows "mgr_inv (m\<lparr>sm_store := db\<rparr>)"
  using assms by (simp add: mgr_inv_def)

lemma rows_simps [simp]:
  "rows (db\<lparr>db_configs := x\<rparr>) = rows db" "rows (db\<lparr>db_conversations := y\<rparr>) = rows db" "rows (db\<lparr>db_recording := z\<rparr>) = rows db"
  "rows (drop_conversations i db) = rows db"
  by (simp_all add: rows_def drop_conversations_def)

lemma rows_ops [simp]:
  "rows (snd (setJID up i j db)) = rows db" "rows (snd (setChatwoot up d i c db)) = rows db"
  "rows (snd (deleteChatwoot up i db)) = rows db" "rows (snd (setRecording up i e db)) = rows db"
  "rows (snd (saveConversation up i ch ct src cv db)) = rows db"
  by (auto simp: store_defs setChatwoot_def getChatwoot_def Let_def comp_def case_prod_beta split: option.split)
    (simp add: rows_def comp_def case_prod_beta)

lemma inv_same_rows: "mgr_inv m \<Longrightarrow> rows db = rows (sm_store m) \<Longrightarrow> mgr_inv (m\<lparr>sm_store := db\<rparr>)"
  by (rule inv_store) (simp_all add: mgr_inv_def)

lemma inv_setAuth: "mgr_inv m \<Longrightarrow> mgr_inv (setAuth i c a m)"
  by (auto simp: setAuth_def Let_def session_ok_fields intro!: inv_at_session dest: Get_ok)

lemma inv_replaceClient: "mgr_inv m \<Longrightarrow> mgr_inv (replaceClient me i m)"
  unfolding replaceClient_def
  by (intro inv_at_session inv_on_calls) (auto simp: session_ok_fields dest: Get_ok [OF inv_on_calls] session_ok_step [of _ _ _ Teardown])

lemma keys_delete: "map fst (AList.delete i xs) = filter (\<lambda>k. k \<noteq> i) (map fst xs)"
  by (induction xs) auto

lemma update_new: "i \<notin> fst ` set xs \<Longrightarrow> AList.update i v xs = xs @ [(i, v)]"
  by (induction xs) auto

lemma rows_delete: "rows (snd (delete_session up i db)) = (if up 0 then filter (\<lambda>k. k \<noteq> i) (rows db) else rows db)"
proof -
  have "rows (db\<lparr>db_sessions := AList.delete i (db_sessions db)\<rparr>) = filter (\<lambda>k. k \<noteq> i) (rows db)" for db
    by (simp add: rows_def keys_delete)
  then show ?thesis
    by (auto simp: delete_session_def and_then_def exec_def deleteChatwoot_def clearConversations_def split: sum.split prod.split)
qed

lemma insert_result:
  "fst (insert_session up i name db) = Inr () \<Longrightarrow> i \<notin> set (rows db) \<and> rows (snd (insert_session up i name db)) = rows db @ [i]"
  by (auto simp: insert_session_def exec_def rows_def map_of_eq_None_iff split: if_splits)

lemma insert_failed: "fst (insert_session up i name db) = Inl e \<Longrightarrow> snd (insert_session up i name db) = db"
  by (auto simp: insert_session_def exec_def split: if_splits)

lemma inv_register:
  assumes "mgr_inv m" "se_id s \<notin> set (ids m)" "se_id s \<in> set (rows (sm_store m))" "session_ok (se_id s) s"
  shows "mgr_inv (register s m)"
proof -
  have "AList.update (se_id s) s (sm_sessions m) = sm_sessions m @ [(se_id s, s)]"
    using assms(2) by (simp add: ids_def update_new)
  then show ?thesis using assms by (auto simp: register_def mgr_inv_def ids_def)
qed

lemma ids_unregister: "ids (unregister i m) = filter (\<lambda>k. k \<noteq> i) (ids m)"
  by (simp add: ids_def unregister_def keys_delete)

lemma inv_unregister:
  assumes "mgr_inv m"
  shows "mgr_inv (unregister i m)"
proof -
  have "sm_order (unregister i m) = remove1 i (sm_order m)" "sm_store (unregister i m) = sm_store m"
    by (simp_all add: unregister_def)
  moreover have "set (sm_sessions (unregister i m)) \<subseteq> set (sm_sessions m)"
    by (auto simp: unregister_def delete_filter)
  ultimately show ?thesis using assms by (auto simp: mgr_inv_def ids_unregister)
qed

lemma inv_drop_row:
  assumes "mgr_inv m" "i \<notin> set (ids m)"
  shows "mgr_inv (drop_row me i m)"
  unfolding drop_row_def using assms by (intro inv_store) (auto simp: mgr_inv_def rows_delete)

lemma rows_fold_configs: "rows (fold (\<lambda>s db. if p s then apply_config me cfg (se_id s) db else db) ss db) = rows db"
  by (induction ss arbitrary: db) (auto simp: apply_config_def Let_def split: prod.split)

lemma inv_applyChatwootEnv: "mgr_inv m \<Longrightarrow> mgr_inv (applyChatwootEnv me m)"
  by (auto simp: applyChatwootEnv_def rows_fold_configs intro!: inv_same_rows split: prod.split)

lemma inv_applyRecordingEnv: "mgr_inv m \<Longrightarrow> mgr_inv (applyRecordingEnv me m)"
proof -
  have "rows (fold (\<lambda>s db. let up = me_up me OnRecording (se_id s) in
      if getRecording (up 0) (se_id s) db = want then db else snd (setRecording (\<lambda>n. up (n + 1)) (se_id s) want db)) ss db) = rows db"
    for want ss db
    by (induction ss arbitrary: db) (simp_all add: Let_def)
  then show "mgr_inv m \<Longrightarrow> mgr_inv (applyRecordingEnv me m)"
    by (auto simp: applyRecordingEnv_def Let_def intro!: inv_same_rows split: option.split)
qed

lemma inv_Create: 
  assumes "mgr_inv m"
  shows "mgr_inv (snd (Create me draw name m))"
proof -
  define i where "i = newSessionID draw"
  obtain r db where ins: "insert_session (me_up me OnInsert i) i name (sm_store m) = (r, db)"
    by (cases "insert_session (me_up me OnInsert i) i name (sm_store m)")
  show ?thesis
  proof (cases r)
    case (Inl e)
    then have "db = sm_store m" using insert_failed [of "me_up me OnInsert i" i name "sm_store m" e] ins by simp
    then show ?thesis using assms Inl ins by (simp add: Create_def i_def [symmetric])
  next
    case (Inr u)
    then have db: "i \<notin> set (rows (sm_store m))" "rows db = rows (sm_store m) @ [i]"
      using insert_result [of "me_up me OnInsert i" i name "sm_store m"] ins by auto
    have "mgr_inv (m\<lparr>sm_store := db\<rparr>)" by (rule inv_store [OF assms]) (use assms db in \<open>auto simp: mgr_inv_def\<close>)
    then have "mgr_inv (register (newSession i name '''') (m\<lparr>sm_store := db\<rparr>))"
      using assms db by (intro inv_register) (auto simp: newSession_def mgr_inv_def session_ok_new [unfolded newSession_def])
    then have "mgr_inv (announce (applyRecordingEnv me (applyChatwootEnv me (register (newSession i name '''') (m\<lparr>sm_store := db\<rparr>)))))"
      by (simp add: inv_applyChatwootEnv inv_applyRecordingEnv)
    then show ?thesis using Inr ins by (simp add: Create_def i_def [symmetric] Let_def split: sum.split)
  qed
qed

lemma inv_Delete:
  assumes "mgr_inv m"
  shows "mgr_inv (snd (Delete me i m))"
proof -
  have "mgr_inv (on_calls i (teardownAllCalls (me_served me)) m)"
    using assms session_ok_step [of _ _ "me_served me" Teardown] by (intro inv_on_calls) simp_all
  from inv_unregister [OF this, of i]
  have "mgr_inv (drop_row me i (unregister i (on_calls i (teardownAllCalls (me_served me)) m)))"
    by (rule inv_drop_row) (simp add: ids_unregister)
  then show ?thesis using assms by (simp add: Delete_def Let_def split: option.split)
qed

lemma inv_Logout: "mgr_inv m \<Longrightarrow> mgr_inv (snd (Logout me i m))"
  by (auto simp: Logout_def Let_def intro!: inv_setAuth inv_same_rows inv_replaceClient split: option.split)

lemma inv_Pair: "mgr_inv m \<Longrightarrow> mgr_inv (snd (Pair_session me i m))"
  by (auto simp: Pair_session_def Let_def intro!: inv_replaceClient split: option.split sum.split)

lemma inv_pairing: "mgr_inv m \<Longrightarrow> mgr_inv (on_pairing me i c e m)"
  by (cases e) (auto simp: Let_def session_ok_fields intro!: inv_setAuth inv_at_session inv_same_rows dest: Get_ok split: option.split)

lemma rows_step: "settings_op x \<Longrightarrow> rows (store_step db (up, x)) = rows db"
  by (cases x) simp_all

lemma snd_handlers [simp]:
  "snd (no_content code r) = snd r"
  "snd (handleSessionCreate me draw name m) = snd (Create me draw (if TrimSpace name = '''' then ''Session'' else TrimSpace name) m)"
  by (auto simp: no_content_def handleSessionCreate_def Let_def split: prod.split sum.split)

lemma inv_event:
  assumes inv: "mgr_inv m"
  shows "mgr_inv (mgr_event m e)"
proof -
  obtain me x where e: "e = (me, x)" by (cases e)
  show ?thesis
  proof (cases x)
    case (HCreate draw name)
    then show ?thesis by (simp add: e mgr_event_def inv_Create [OF inv])
  next
    case (OnSession i y)
    then show ?thesis by (auto simp: e mgr_event_def intro!: inv_on_calls [OF inv] session_ok_step)
  next
    case (StoreOp up y)
    then show ?thesis using inv_same_rows [OF inv] rows_step inv by (simp add: e mgr_event_def)
  qed (use inv in \<open>simp_all add: e mgr_event_def inv_pairing inv_Delete inv_Logout inv_Pair\<close>)
qed

interpretation mgr: guarded_machine mgr_event mgr_inv
  by unfold_locales (rule inv_event)

section \<open>The start of the server\<close>

lemma inv_restore_row:
  assumes "mgr_inv m" "row_ID row \<notin> set (ids m)" "row_ID row \<in> set (rows (sm_store m))"
  shows "mgr_inv (restore_row me row m)"
  using assms inv_register [OF assms(1), of "newSession (row_ID row) (row_Name row) (row_JID row)"]
    session_ok_new [of "row_ID row" "row_Name row" "row_JID row"]
  by (auto simp: restore_row_def inv_drop_row newSession_def)

lemma ids_register: "set (ids (register s m)) = insert (se_id s) (set (ids m))"
  by (auto simp: ids_def register_def update_conv' dom_map_of_conv_image_fst [symmetric])

lemma ids_restore_row: "set (ids (restore_row me row m)) \<subseteq> insert (row_ID row) (set (ids m))"
  by (auto simp: restore_row_def drop_row_def ids_register newSession_def)

lemma rows_restore_row: "k \<noteq> row_ID row \<Longrightarrow> k \<in> set (rows (sm_store m)) \<Longrightarrow> k \<in> set (rows (sm_store (restore_row me row m)))"
  by (auto simp: restore_row_def drop_row_def rows_delete register_def)

lemma inv_restore_rows:
  "mgr_inv m \<Longrightarrow> distinct (map row_ID rs) \<Longrightarrow> set (map row_ID rs) \<inter> set (ids m) = {} \<Longrightarrow>
   set (map row_ID rs) \<subseteq> set (rows (sm_store m)) \<Longrightarrow> mgr_inv (fold (restore_row me) rs m)"
proof (induction rs arbitrary: m)
  case (Cons r rs)
  have "mgr_inv (restore_row me r m)" using Cons.prems by (intro inv_restore_row) auto
  moreover have "k \<notin> set (ids (restore_row me r m)) \<and> k \<in> set (rows (sm_store (restore_row me r m)))"
    if "k \<in> set (map row_ID rs)" for k
  proof -
    have "k \<noteq> row_ID r" "k \<notin> set (ids m)" "k \<in> set (rows (sm_store m))" using that Cons.prems by force+
    then show ?thesis using ids_restore_row [of me r m] rows_restore_row [of k r m me] by blast
  qed
  ultimately show ?case using Cons.prems(2) by (simp, intro Cons.IH) auto
qed simp

lemma row_ids: "list_sessions up db = Inr rs \<Longrightarrow> map row_ID rs = rows db"
  by (auto simp: list_sessions_def rows_def split: if_splits)

lemma inv_Restore:
  assumes "distinct (rows db)"
  shows "mgr_inv (snd (Restore me (newSessionManager db b)))"
proof -
  have new: "mgr_inv (newSessionManager db b)" using assms by (simp add: mgr_inv_def newSessionManager_def ids_def)
  then have "mgr_inv (fold (restore_row me) rs (newSessionManager db b))"
    if "list_sessions (me_up me OnList '''' 0) db = Inr rs" for rs
    using inv_restore_rows [OF new, of rs me] row_ids [OF that] assms
    by (simp add: newSessionManager_def ids_def)
  then show ?thesis using new by (auto simp: Restore_def newSessionManager_def split: sum.split)
qed

lemma inv_boot:
  assumes "boot me db = Inr m" "distinct (rows db)"
  shows "mgr_inv m"
  using assms(1) inv_Restore [OF assms(2), of me NewBroker]
  by (auto simp: boot_def inv_applyChatwootEnv inv_applyRecordingEnv split: prod.splits sum.splits)

lemma inv_run: "mgr_inv m \<Longrightarrow> mgr_inv (mgr_run m ops)"
  unfolding mgr_run_def by (rule mgr.run_inv)

section \<open>The list of sessions\<close>

lemma infos_ids:
  assumes "mgr_inv m"
  shows "map si_ID (infos m) = sm_order m"
proof -
  have "map si_ID (map info (List.map_filter (\<lambda>i. Get i m) xs)) = xs" if "set xs \<subseteq> set (ids m)" for xs
    using that
  proof (induction xs)
    case (Cons i xs)
    then obtain s where "Get i m = Some s" by (auto simp: Get_def ids_def dest: weak_map_of_SomeI)
    moreover from this have "se_id s = i" using Get_ok [OF assms] by (simp add: session_ok_def)
    ultimately show ?case using Cons by (simp add: List.map_filter_def info_def)
  qed (simp add: List.map_filter_def)
  then show ?thesis using assms by (simp add: infos_def mgr_inv_def)
qed

text \<open>
  Property C16. The list of sessions is faithful: from the start of the server on, whatever is created, paired, logged out,
  deleted or configured and whatever happens to calls, the list shows every registered session exactly once, each
  under its own id, and each has its row in the database.
\<close>

theorem session_list_faithful:
  assumes "boot me db = Inr m0" "distinct (map fst (db_sessions db))" "m = mgr_run m0 ops"
  shows "distinct (map si_ID (infos m)) \<and> set (map si_ID (infos m)) = {i. Get i m \<noteq> None}
    \<and> (\<forall>i. Get i m \<noteq> None \<longrightarrow> map_of (db_sessions (sm_store m)) i \<noteq> None \<and> se_id (the (Get i m)) = i)"
proof -
  have inv: "mgr_inv m" unfolding assms(3) using assms(1,2) by (intro inv_run inv_boot) (simp_all add: rows_def)
  have dom: "{i. Get i m \<noteq> None} = set (ids m)" by (auto simp: Get_def ids_def map_of_eq_None_iff)
  show ?thesis unfolding infos_ids [OF inv]
  proof (intro conjI allI impI)
    show "distinct (sm_order m)" "set (sm_order m) = {i. Get i m \<noteq> None}" using inv dom by (simp_all add: mgr_inv_def)
  next
    fix i
    assume "Get i m \<noteq> None"
    then show "map_of (db_sessions (sm_store m)) i \<noteq> None" "se_id (the (Get i m)) = i"
      using inv dom Get_ok [OF inv, of i] by (auto simp: mgr_inv_def rows_def map_of_eq_None_iff session_ok_def)
  qed
qed

section \<open>A restart\<close>

text \<open>The rows a restart keeps: paired, with an id that can be parsed and has a stored device.\<close>

fun kept_row :: "('j, 'c, 'p) mgr_env \<Rightarrow> string \<times> string \<times> string option \<Rightarrow> bool" where
  "kept_row me (i, name, None) = False"
| "kept_row me (i, name, Some jid) = (jid \<noteq> '''' \<and> me_ParseJID_ok me jid \<and> me_device me jid)"

fun as_row :: "string \<times> string \<times> string option \<Rightarrow> sessionRow" where
  "as_row (i, name, jid) = \<lparr>row_ID = i, row_Name = name, row_JID = (case jid of None \<Rightarrow> '''' | Some j \<Rightarrow> j)\<rparr>"

fun as_session :: "string \<times> string \<times> string option \<Rightarrow> string \<times> ('j, 'c, 'p) Session" where
  "as_session (i, name, jid) = (i, newSession i name (the jid))"

lemma list_sessions_rows: "up \<Longrightarrow> list_sessions up db = Inr (map as_row (db_sessions db))"
  by (auto simp: list_sessions_def)

lemma db_sessions_delete:
  assumes "\<forall>n. up n"
  shows "db_sessions (snd (delete_session up i db)) = AList.delete i (db_sessions db)"
  using assms by (simp add: store_defs drop_conversations_def)

lemma delete_notin: "i \<notin> fst ` set xs \<Longrightarrow> AList.delete i xs = xs"
  by (induction xs) auto

lemma delete_middle: "distinct (map fst (xs @ (i, v) # ys)) \<Longrightarrow> AList.delete i (xs @ (i, v) # ys) = xs @ ys"
  by (induction xs) (auto simp: delete_notin)

lemma fst_as_session [simp]: "fst (as_session r) = fst r"
  by (cases r) simp

lemma restore_rows:
  assumes "\<forall>c i n. me_up me c i n"
  shows "distinct (map fst (xs @ ys)) \<Longrightarrow> db_sessions (sm_store m) = xs @ ys \<Longrightarrow> sm_sessions m = map as_session xs \<Longrightarrow>
   sm_order m = map fst xs \<Longrightarrow>
   (let m' = fold (restore_row me) (map as_row ys) m
    in db_sessions (sm_store m') = xs @ filter (kept_row me) ys \<and> sm_sessions m' = map as_session (xs @ filter (kept_row me) ys)
       \<and> sm_order m' = map fst (xs @ filter (kept_row me) ys))"
proof (induction ys arbitrary: xs m)
  case (Cons y ys)
  obtain i name jid where y: "y = (i, name, jid)" by (cases y)
  show ?case
  proof (cases "kept_row me y")
    case True
    then obtain j where j: "jid = Some j" "j \<noteq> ''''" "me_ParseJID_ok me j" "me_device me j"
      by (cases jid) (auto simp: y)
    then have reg: "restore_row me (as_row y) m = register (newSession i name j) m" by (simp add: restore_row_def y)
    have "i \<notin> fst ` set (sm_sessions m)" using Cons.prems(1,3) by (simp add: y image_image)
    then have "sm_sessions (register (newSession i name j) m) = map as_session (xs @ [y])"
      using Cons.prems(3) by (simp add: register_def newSession_def update_new y j)
    moreover have "sm_order (register (newSession i name j) m) = map fst (xs @ [y])"
      using Cons.prems(4) by (simp add: register_def newSession_def y)
    moreover have "db_sessions (sm_store (register (newSession i name j) m)) = (xs @ [y]) @ ys"
      using Cons.prems(2) by (simp add: register_def)
    ultimately show ?thesis
      using Cons.IH [of "xs @ [y]" "register (newSession i name j) m"] Cons.prems(1) True by (simp add: reg)
  next
    case False
    then have "restore_row me (as_row y) m = drop_row me i m"
      by (cases jid) (auto simp: restore_row_def y)
    moreover have "db_sessions (sm_store (drop_row me i m)) = xs @ ys"
      using assms Cons.prems(1,2) delete_middle [of xs i "(name, jid)" ys] by (simp add: drop_row_def db_sessions_delete y)
    moreover have "sm_sessions (drop_row me i m) = sm_sessions m" "sm_order (drop_row me i m) = sm_order m"
      by (simp_all add: drop_row_def)
    ultimately show ?thesis
      using Cons.IH [of xs "drop_row me i m"] Cons.prems False by simp
  qed
qed simp

lemma Restore_effect:
  assumes "\<forall>c i n. me_up me c i n" "distinct (map fst (db_sessions db))" "m = snd (Restore me (newSessionManager db b))"
  shows "fst (Restore me (newSessionManager db b)) = Inr ()"
    "db_sessions (sm_store m) = filter (kept_row me) (db_sessions db)"
    "sm_sessions m = map as_session (filter (kept_row me) (db_sessions db))"
    "sm_order m = map fst (filter (kept_row me) (db_sessions db))"
  using restore_rows [OF assms(1), of "[]" "db_sessions db" "newSessionManager db b"] assms(1,2)
  by (simp_all add: assms(3) Restore_def newSessionManager_def list_sessions_rows Let_def)

text \<open>
  Property C17. A restart brings back exactly the paired sessions: of the stored sessions those whose device is there are
  registered, in the order of the rows, with their id, name and number and no calls; the others leave the database. A
  second restart on the resulting database brings back the same sessions. (The statements succeed.)
\<close>

theorem restart_restores_paired:
  assumes "\<forall>c i n. me_up me c i n" "distinct (map fst (db_sessions db))"
    "m = snd (Restore me (newSessionManager db b))"
  shows "fst (Restore me (newSessionManager db b)) = Inr ()
    \<and> sm_order m = map fst (filter (kept_row me) (db_sessions db))
    \<and> sm_sessions m = map as_session (filter (kept_row me) (db_sessions db))
    \<and> db_sessions (sm_store m) = filter (kept_row me) (db_sessions db)
    \<and> sm_sessions (snd (Restore me (newSessionManager (sm_store m) b'))) = sm_sessions m"
proof -
  note r = Restore_effect [OF assms]
  have "distinct (map fst (filter (kept_row me) (db_sessions db)))" using assms(2) by (simp add: distinct_map_filter)
  then have "distinct (map fst (db_sessions (sm_store m)))" by (simp add: r(2))
  from Restore_effect(3) [OF assms(1) this refl, of b'] show ?thesis by (simp add: r)
qed

section \<open>The end of a session\<close>

lemma map_of_map_session: "k \<noteq> i \<Longrightarrow> map_of (map (\<lambda>(k, s). (k, if k = i then f s else s)) xs) k = map_of xs k"
  by (induction xs) auto



section \<open>Environment variables\<close>

definition configured :: "ChatwootConfig \<Rightarrow> sessionStore \<Rightarrow> string \<Rightarrow> bool" where
  "configured cfg db i \<longleftrightarrow> (\<exists>c. config_of db i = Some c \<and> c\<lparr>cw_WebhookSecret := ''''\<rparr> = cfg)"

lemma getChatwoot_config: "getChatwoot True i db = (case config_of db i of None \<Rightarrow> (ChatwootConfig_zero, False) | Some c \<Rightarrow> (c, True))"
  by (simp add: getChatwoot_def config_of_def)

lemma apply_config_configured:
  assumes "\<forall>c i n. me_up me c i n" "cw_WebhookSecret cfg = ''''"
  shows "configured cfg db i \<Longrightarrow> apply_config me cfg i db = db"
    "configured cfg (apply_config me cfg i db) i"
    "configured cfg db j \<Longrightarrow> configured cfg (apply_config me cfg i db) j"
proof -
  show same: "configured cfg db i \<Longrightarrow> apply_config me cfg i db = db"
    using assms(1) by (auto simp: apply_config_def configured_def getChatwoot_config)
  have ok: "fst (setChatwoot (\<lambda>n. me_up me OnChatwoot i (n + 1)) draw i cfg db) = Inr ()" for draw
    using assms(1) by (auto simp: setChatwoot_def store_defs Let_def split: prod.split)
  have new: "config_of (apply_config me cfg i db) j =
      (if j = i then Some (cfg\<lparr>cw_WebhookSecret := secret_for True (me_secret me i) (config_of db i) cfg\<rparr>) else config_of db j)"
    if "\<not> configured cfg db i" for j
    using that assms(1) ok
    by (auto simp: apply_config_def configured_def getChatwoot_config config_setChatwoot Let_def split: option.splits)
  show "configured cfg (apply_config me cfg i db) i"
    using same new [of i] assms(2) by (cases "configured cfg db i") (auto simp: configured_def [of cfg "apply_config me cfg i db"])
  then show "configured cfg db j \<Longrightarrow> configured cfg (apply_config me cfg i db) j"
    using same new [of j] by (cases "configured cfg db i"; cases "j = i") (auto simp: configured_def)
qed

lemma fold_configured:
  fixes name :: string
  assumes "\<forall>c i n. me_up me c i n" "cw_WebhookSecret cfg = ''''"
  defines "step \<equiv> \<lambda>s db. if se_name s = name then apply_config me cfg (se_id s) db else db"
  shows "configured cfg db j \<Longrightarrow> configured cfg (fold step ss db) j"
    "s \<in> set ss \<Longrightarrow> se_name s = name \<Longrightarrow> configured cfg (fold step ss db) (se_id s)"
    "\<forall>s \<in> set ss. se_name s = name \<longrightarrow> configured cfg db (se_id s) \<Longrightarrow> fold step ss db = db"
proof -
  note ac = apply_config_configured [OF assms(1,2)]
  show keep: "configured cfg db j \<Longrightarrow> configured cfg (fold step ss db) j" for db j ss
    by (induction ss arbitrary: db) (auto simp: step_def ac(3))
  show "s \<in> set ss \<Longrightarrow> se_name s = name \<Longrightarrow> configured cfg (fold step ss db) (se_id s)"
  proof (induction ss arbitrary: db)
    case (Cons u us)
    have "configured cfg (step s db) (se_id s)" using Cons.prems(2) by (simp add: step_def ac(2))
    then show ?case using Cons keep [of "step s db"] by auto
  qed simp
  show "\<forall>s \<in> set ss. se_name s = name \<longrightarrow> configured cfg db (se_id s) \<Longrightarrow> fold step ss db = db"
    by (induction ss) (auto simp: step_def ac(1))
qed

text \<open>
  Property C31. The environment wins, once: with a complete Chatwoot configuration in the environment variables, the
  sessions it is for have exactly this configuration after \<open>applyChatwootEnv\<close> (their webhook secret apart), and applying
  it again, as every start does, changes nothing, so conversations stay mapped. (The statements succeed.)
\<close>

theorem env_config_takes_effect:
  assumes "\<forall>c i n. me_up me c i n" "chatwootFromEnv (me_getenv me) = (cfg, name, True)" "cw_valid cfg"
    "s \<in> set (all_sessions m)" "se_name s = env_session name (all_sessions m)" "m' = applyChatwootEnv me m"
  shows "(\<exists>c. map_of (db_configs (sm_store m')) (se_id s) = Some c \<and> c\<lparr>cw_WebhookSecret := ''''\<rparr> = cfg)
    \<and> applyChatwootEnv me m' = m'"
proof -
  have secret: "cw_WebhookSecret cfg = ''''"
    using assms(2) by (auto simp: chatwootFromEnv_def Let_def split: if_splits)
  note fc = fold_configured [OF assms(1) secret, where name = "env_session name (all_sessions m)"]
  define db where "db = fold (\<lambda>s db. if se_name s = env_session name (all_sessions m) then apply_config me cfg (se_id s) db else db)
    (all_sessions m) (sm_store m)"
  have m': "m' = m\<lparr>sm_store := db\<rparr>" using assms(2,3) by (simp add: assms(6) applyChatwootEnv_def db_def)
  have all: "all_sessions (m\<lparr>sm_store := d\<rparr>) = all_sessions m" for d by (simp add: all_sessions_def)
  have c: "configured cfg db (se_id u)" if "u \<in> set (all_sessions m)" "se_name u = env_session name (all_sessions m)" for u
    unfolding db_def by (rule fc(2) [OF that])
  then have "applyChatwootEnv me m' = m'"
    using assms(2,3) fc(3) [of "all_sessions m" db] by (simp add: applyChatwootEnv_def all m')
  then show ?thesis using c [OF assms(4,5)] by (simp add: m' configured_def config_of_def)
qed

section \<open>Instances\<close>

text \<open>A server whose statements and connections succeed, with an empty database; one with a paired session; variables.\<close>

definition demo_mgr :: "(string, unit, unit) mgr_env" where
  "demo_mgr = \<lparr>me_served = demo_served, me_up = (\<lambda>c i n. True), me_getenv = (\<lambda>v. ''''), me_secret = (\<lambda>i. [1]),
     me_ParseJID_ok = (\<lambda>j. True), me_device = (\<lambda>j. True), me_qr_error = (\<lambda>i. None), me_connect_error = (\<lambda>i. None)\<rparr>"

definition demo_server :: "(string, unit, unit) mgr" where
  "demo_server = announce (newSessionManager newSessionStore NewBroker)"

lemma demo_boot: "boot demo_mgr newSessionStore = Inr demo_server"
  by (simp add: boot_def Restore_def list_sessions_def newSessionManager_def newSessionStore_def demo_mgr_def demo_server_def
      applyChatwootEnv_def applyRecordingEnv_def chatwootFromEnv_def TrimSpace_def Atoi_def Let_def)

definition demo_created :: "(string, unit, unit) mgr" where
  "demo_created = mgr_run demo_server [(demo_mgr, HCreate [1] ''x'')]"

lemma demo_created_session: "Get ''01'' demo_created = Some (newSession ''01'' ''x'' '''')"
  by code_simp

theorem session_list_faithful_witness:
  "distinct (map si_ID (infos demo_created)) \<and> set (map si_ID (infos demo_created)) = {i. Get i demo_created \<noteq> None}"
  using session_list_faithful [OF demo_boot _ demo_created_def] by (simp add: newSessionStore_def)


theorem restart_restores_paired_witness:
  "sm_order (snd (Restore demo_mgr (newSessionManager (newSessionStore\<lparr>db_sessions := [(''a'', ''n'', Some ''j''), (''b'', ''n'', None)]\<rparr>)
     NewBroker))) = [''a'']"
  using restart_restores_paired [OF _ _ refl, of demo_mgr "newSessionStore\<lparr>db_sessions := [(''a'', ''n'', Some ''j''), (''b'', ''n'', None)]\<rparr>"]
  by (simp add: demo_mgr_def)

definition demo_vars :: "string \<Rightarrow> string" where
  "demo_vars v = (if v = ''WACALLS_CHATWOOT_URL'' then ''u'' else if v = ''WACALLS_CHATWOOT_TOKEN'' then '' t''
     else if v = ''WACALLS_CHATWOOT_ACCOUNT_ID'' then ''3'' else if v = ''WACALLS_CHATWOOT_INBOX_ID'' then ''4'' else '''')"

definition demo_env_config :: ChatwootConfig where
  "demo_env_config = \<lparr>cw_URL = ''u'', cw_AccountID = 3, cw_AccountToken = ''t'', cw_InboxID = 4, cw_InboxIdentifier = '''',
     cw_WebhookSecret = ''''\<rparr>"

lemma demo_vars_config: "chatwootFromEnv demo_vars = (demo_env_config, ''inbox-b'', True)"
  by code_simp

theorem env_config_takes_effect_witness:
  "\<exists>c. map_of (db_configs (sm_store (applyChatwootEnv (demo_mgr\<lparr>me_getenv := demo_vars\<rparr>) demo_created))) ''01'' = Some c
     \<and> c\<lparr>cw_WebhookSecret := ''''\<rparr> = demo_env_config"
proof -
  have "all_sessions demo_created = [newSession ''01'' ''x'' '''']" by code_simp
  then show ?thesis
    using env_config_takes_effect [OF _ _ _ _ _ refl, of "demo_mgr\<lparr>me_getenv := demo_vars\<rparr>" demo_env_config "''inbox-b''"
        "newSession ''01'' ''x'' ''''" demo_created] demo_vars_config
    by (simp add: demo_mgr_def env_session_def cw_valid_def demo_env_config_def newSession_def)
qed

end
