(* ===== verification/Formatting.thy ===== *)
theory Formatting
  imports HttpApi
begin

text \<open>
  The text of a Chatwoot message as WhatsApp shows it (\<^verbatim>\<open>cmd/server/format.go\<close>). The three regular expressions have
  the same form: a delimiter, a shortest non-empty run of characters that are neither a line break nor the delimiter's,
  and the delimiter again. As the run excludes the character of the delimiter, it is the longest one as well, and
  \<open>replace_marked\<close> is \<^verbatim>\<open>ReplaceAllString\<close>: the leftmost match is replaced and the search goes on behind it.
\<close>

section \<open>Translation\<close>

definition newline :: char where
  "newline = CHR 0x0A"

definition boldSentinel :: char where
  "boldSentinel = CHR 0x01"

definition run_of :: "char \<Rightarrow> string \<Rightarrow> string" where
  "run_of d s = takeWhile (\<lambda>x. x \<noteq> newline \<and> x \<noteq> d) s"

text \<open>The match of the expression at the start of a text: its group and what follows. \<open>n\<close> is the length of the delimiter.\<close>

definition match_marked :: "nat \<Rightarrow> char \<Rightarrow> string \<Rightarrow> (string \<times> string) option" where
  "match_marked n d s =
     (let body = run_of d (drop n s); rest = drop (length body) (drop n s) in
      if prefix (replicate n d) s \<and> body \<noteq> [] \<and> prefix (replicate n d) rest then Some (body, drop n rest) else None)"

lemma match_marked_shorter: "match_marked n d s = Some (body, rest) \<Longrightarrow> length rest < length s"
proof -
  assume m: "match_marked n d s = Some (body, rest)"
  then have b: "body = run_of d (drop n s)" "body \<noteq> []" "rest = drop n (drop (length body) (drop n s))"
    by (auto simp: match_marked_def Let_def split: if_splits)
  have "length body \<le> length (drop n s)" unfolding b(1) run_of_def by (rule length_takeWhile_le)
  moreover have "0 < length body" using b(2) by simp
  ultimately show ?thesis unfolding b(3) length_drop by linarith
qed

function replace_marked :: "nat \<Rightarrow> char \<Rightarrow> char \<Rightarrow> string \<Rightarrow> string" where
  "replace_marked n d m [] = []"
| "replace_marked n d m (c # s) =
     (case match_marked n d (c # s) of
        None \<Rightarrow> c # replace_marked n d m s
      | Some (body, rest) \<Rightarrow> m # body @ m # replace_marked n d m rest)"
  by pat_completeness auto

termination
  by (relation "measure (\<lambda>(n, d, m, s). length s)") (auto dest: match_marked_shorter)

definition chatwootToWhatsApp :: "string \<Rightarrow> string" where
  "chatwootToWhatsApp text =
     (if text = '''' then text
      else let out1 = replace_marked 2 (CHR ''*'') boldSentinel text;
               out2 = replace_marked 2 (CHR ''_'') boldSentinel out1;
               out3 = replace_marked 1 (CHR ''*'') (CHR ''_'') out2;
               out4 = map (\<lambda>c. if c = boldSentinel then CHR ''*'' else c) out3
           in TrimSpace out4)"

section \<open>Messages of the editor\<close>

text \<open>
  What the editor composes: marked words, each with the unmarked text after it. Bodies hold no character that marks,
  and two marked words are apart.
\<close>

datatype mark = Stars2 | Unders2 | Star1 | Under1

type_synonym marked_text = "string \<times> (mark \<times> string \<times> string) list"

fun delim :: "mark \<Rightarrow> string" where
  "delim Stars2 = ''**''" | "delim Unders2 = ''__''" | "delim Star1 = ''*''" | "delim Under1 = ''_''"

fun shown_delim :: "mark \<Rightarrow> string" where
  "shown_delim Stars2 = ''*''" | "shown_delim Unders2 = ''*''" | "shown_delim Star1 = ''_''" | "shown_delim Under1 = ''_''"

definition render :: "(mark \<Rightarrow> string) \<Rightarrow> marked_text \<Rightarrow> string" where
  "render d t = fst t @ concat (map (\<lambda>(k, body, after). d k @ body @ d k @ after) (snd t))"

definition unmarked :: "string \<Rightarrow> bool" where
  "unmarked s \<longleftrightarrow> CHR ''*'' \<notin> set s \<and> CHR ''_'' \<notin> set s \<and> boldSentinel \<notin> set s"

definition composed :: "marked_text \<Rightarrow> bool" where
  "composed t \<longleftrightarrow> unmarked (fst t)
     \<and> (\<forall>(k, body, after)\<in>set (snd t). body \<noteq> '''' \<and> unmarked body \<and> newline \<notin> set body \<and> unmarked after)
     \<and> (\<forall>(k, body, after)\<in>set (butlast (snd t)). after \<noteq> '''')"

text \<open>What each pass leaves of a delimiter.\<close>

fun pass1 :: "mark \<Rightarrow> string" where
  "pass1 Stars2 = [boldSentinel]" | "pass1 k = delim k"

fun pass2 :: "mark \<Rightarrow> string" where
  "pass2 Unders2 = [boldSentinel]" | "pass2 k = pass1 k"

fun pass3 :: "mark \<Rightarrow> string" where
  "pass3 Star1 = ''_''" | "pass3 k = pass2 k"

text \<open>A text free of the delimiter's character is passed over.\<close>

lemma match_none: "0 < n \<Longrightarrow> c \<noteq> d \<Longrightarrow> match_marked n d (c # s) = None"
  by (cases n) (auto simp: match_marked_def Let_def)

lemma replace_plain: "0 < n \<Longrightarrow> d \<notin> set p \<Longrightarrow> replace_marked n d m (p @ s) = p @ replace_marked n d m s"
  by (induction p) (auto simp: match_none)

lemma run_body: "newline \<notin> set body \<Longrightarrow> d \<notin> set body \<Longrightarrow> run_of d (body @ d # s) = body"
  unfolding run_of_def by (subst takeWhile_append2) auto

lemma match_found:
  "newline \<notin> set body \<Longrightarrow> d \<notin> set body \<Longrightarrow> body \<noteq> [] \<Longrightarrow> 0 < n \<Longrightarrow>
   match_marked n d (replicate n d @ body @ replicate n d @ s) = Some (body, s)"
  by (cases n) (simp_all add: match_marked_def run_body)

lemma replace_found:
  assumes "newline \<notin> set body" "d \<notin> set body" "body \<noteq> []" "0 < n"
  shows "replace_marked n d m (replicate n d @ body @ replicate n d @ s) = m # body @ m # replace_marked n d m s"
proof -
  have "replicate n d @ body @ replicate n d @ s = d # (replicate (n - 1) d @ body @ replicate n d @ s)"
    using assms(4) by (cases n) simp_all
  then show ?thesis using match_found [OF assms, of s] by simp
qed

text \<open>A single mark before an unmarked character is not the start of a double one.\<close>

lemma match_single: "x \<noteq> d \<Longrightarrow> match_marked 2 d (d # x # s) = None" "match_marked 2 d [d] = None"
  by (simp_all add: match_marked_def Let_def numeral_2_eq_2)

lemma replace_single:
  "s = [] \<or> hd s \<noteq> d \<Longrightarrow> replace_marked 2 d m (d # s) = d # replace_marked 2 d m s"
  by (cases s) (auto simp: match_single)

text \<open>One pass: a delimiter is the pass's own, or free of its character, or its single form in a double pass.\<close>

definition passes :: "nat \<Rightarrow> char \<Rightarrow> char \<Rightarrow> string \<Rightarrow> string \<Rightarrow> bool" where
  "passes n d m x y \<longleftrightarrow> x = replicate n d \<and> y = [m] \<or> d \<notin> set x \<and> y = x \<or> n = 2 \<and> x = [d] \<and> y = [d]"

definition word_ok :: "mark \<times> string \<times> string \<Rightarrow> bool" where
  "word_ok w \<longleftrightarrow> (case w of (k, body, after) \<Rightarrow> body \<noteq> '''' \<and> unmarked body \<and> newline \<notin> set body \<and> unmarked after)"

definition words_of :: "(mark \<Rightarrow> string) \<Rightarrow> (mark \<times> string \<times> string) list \<Rightarrow> string" where
  "words_of D ms = concat (map (\<lambda>(k, body, after). D k @ body @ D k @ after) ms)"

lemma words_of_simps [simp]:
  "words_of D [] = ''''" "words_of D ((k, body, after) # ms) = D k @ body @ D k @ after @ words_of D ms"
  by (simp_all add: words_of_def)

lemma pass_word:
  assumes p: "passes n d m x y" and n: "0 < n" "n \<le> 2" and w: "newline \<notin> set body" "d \<notin> set body" "body \<noteq> []" "d \<notin> set after"
    and s: "after \<noteq> [] \<or> s = []"
  shows "replace_marked n d m (x @ body @ x @ after @ s) = y @ body @ y @ after @ replace_marked n d m s"
proof -
  consider "x = replicate n d" "y = [m]" | "d \<notin> set x" "y = x" | "n = 2" "x = [d]" "y = [d]"
    using p by (auto simp: passes_def)
  then show ?thesis
  proof cases
    case 1
    then show ?thesis using replace_found [OF w(1-3) n(1), of m "after @ s"] n(1) w(4) by (simp add: replace_plain)
  next
    case 2
    then show ?thesis using replace_plain [of n d "x @ body @ x @ after" m s] n(1) w by auto
  next
    case 3
    have "replace_marked 2 d m (d # after @ s) = d # replace_marked 2 d m (after @ s)"
      using s w(4) by (intro replace_single) (cases after; auto)
    moreover have "replace_marked 2 d m (d # body @ d # after @ s) = d # replace_marked 2 d m (body @ d # after @ s)"
      using w(2,3) by (intro replace_single) (cases body; auto)
    ultimately show ?thesis using 3 w(2,4) by (simp add: replace_plain)
  qed
qed

lemma pass_words:
  assumes "\<And>k. passes n d m (D k) (D' k)" "0 < n" "n \<le> 2" "d = CHR ''*'' \<or> d = CHR ''_''"
  shows "list_all word_ok ms \<Longrightarrow> (\<forall>(k, body, after)\<in>set (butlast ms). after \<noteq> '''') \<Longrightarrow>
    replace_marked n d m (words_of D ms) = words_of D' ms"
proof (induction ms)
  case (Cons w ms)
  obtain k body after where w: "w = (k, body, after)" by (cases w)
  have free: "d \<notin> set body" "d \<notin> set after" using Cons.prems(1) assms(4) by (auto simp: w word_ok_def unmarked_def)
  have "after \<noteq> [] \<or> ms = []" using Cons.prems(2) by (auto simp: w split: if_splits)
  then have "after \<noteq> [] \<or> words_of D ms = []" by auto
  moreover have "replace_marked n d m (words_of D ms) = words_of D' ms"
    using Cons.prems by (intro Cons.IH) (auto split: if_splits)
  ultimately show ?case
    using pass_word [OF assms(1) [of k] assms(2,3) _ free(1) _ free(2), of "words_of D ms"] Cons.prems(1)
    by (simp add: w word_ok_def)
qed simp

lemma render_words: "render D (p, ms) = p @ words_of D ms"
  by (simp add: render_def words_of_def)

lemma pass_render:
  assumes "composed (p, ms)" "\<And>k. passes n d m (D k) (D' k)" "0 < n" "n \<le> 2" "d = CHR ''*'' \<or> d = CHR ''_''"
  shows "replace_marked n d m (render D (p, ms)) = render D' (p, ms)"
proof -
  have "d \<notin> set p" "list_all word_ok ms" "\<forall>(k, body, after)\<in>set (butlast ms). after \<noteq> ''''"
    using assms(1,5) by (auto simp: composed_def unmarked_def word_ok_def list_all_iff)
  then show ?thesis using pass_words [OF assms(2-5)] assms(3) by (simp add: render_words replace_plain)
qed

definition shown :: "char \<Rightarrow> char" where
  "shown c = (if c = boldSentinel then CHR ''*'' else c)"

lemma shown_unmarked: "unmarked s \<Longrightarrow> map shown s = s"
  by (induction s) (auto simp: unmarked_def shown_def)

lemma shown_words: "list_all word_ok ms \<Longrightarrow> map shown (words_of pass3 ms) = words_of shown_delim ms"
proof (induction ms)
  case (Cons w ms)
  obtain k body after where w: "w = (k, body, after)" by (cases w)
  have "map shown (pass3 k) = shown_delim k" by (cases k) (simp_all add: boldSentinel_def shown_def)
  then show ?case using Cons by (simp add: w word_ok_def shown_unmarked)
qed simp

lemma pass_delims:
  "passes 2 (CHR ''*'') boldSentinel (delim k) (pass1 k)"
  "passes 2 (CHR ''_'') boldSentinel (pass1 k) (pass2 k)"
  "passes 1 (CHR ''*'') (CHR ''_'') (pass2 k) (pass3 k)"
  by (cases k; simp add: passes_def numeral_2_eq_2 boldSentinel_def)+

text \<open>
  Property C29. What an agent composes reaches WhatsApp with the marks WhatsApp understands: bold words between single
  stars, italic words between underscores, everything else as written, and the white space at both ends cut off.
\<close>

theorem formatting_translated:
  assumes "composed t"
  shows "chatwootToWhatsApp (render delim t) = TrimSpace (render shown_delim t)"
proof (cases t)
  case (Pair p ms)
  note c = assms [unfolded Pair]
  have "replace_marked 2 (CHR ''*'') boldSentinel (render delim t) = render pass1 t"
    unfolding Pair by (rule pass_render [OF c pass_delims(1)]) simp_all
  moreover have "replace_marked 2 (CHR ''_'') boldSentinel (render pass1 t) = render pass2 t"
    unfolding Pair by (rule pass_render [OF c pass_delims(2)]) simp_all
  moreover have "replace_marked 1 (CHR ''*'') (CHR ''_'') (render pass2 t) = render pass3 t"
    unfolding Pair by (rule pass_render [OF c pass_delims(3)]) simp_all
  moreover have "map shown (render pass3 t) = render shown_delim t"
    using c by (simp add: Pair render_words shown_unmarked composed_def, intro shown_words)
      (auto simp: word_ok_def list_all_iff composed_def)
  moreover have "render shown_delim t = ''''" if "render delim t = ''''"
    using that by (cases ms) (auto simp: Pair render_words elim: delim.elims)
  ultimately show ?thesis by (simp add: chatwootToWhatsApp_def TrimSpace_def shown_def [abs_def])
qed

definition demo_text :: marked_text where
  "demo_text = (''Ana: '', [(Stars2, ''hola'', '' y ''), (Star1, ''chau'', [newline])])"

theorem formatting_translated_witness:
  "chatwootToWhatsApp (''Ana: **hola** y *chau*'' @ [newline]) = ''Ana: *hola* y _chau_''"
  using formatting_translated [of demo_text]
  by (simp add: demo_text_def composed_def unmarked_def newline_def boldSentinel_def render_def TrimSpace_def is_space_def)

end
