(* ===== verification/ChatwootApi.thy ===== *)
theory ChatwootApi
  imports SessionManager
begin

text \<open>
  The calls to the Chatwoot API (the client part of \<^verbatim>\<open>cmd/server/chatwoot.go\<close> and of \<^verbatim>\<open>chatwoot_media.go\<close>). Chatwoot is a
  parameter: a function from the calls made so far and the next one to its answer, so that it may keep state of its own.
  An answer is a failure to reach it or a status with the JSON value of the body, \<open>None\<close> when the body is not JSON. What
  \<^verbatim>\<open>json.Unmarshal\<close> reads into the structures of the code is written out. An operation takes the calls made before it and
  returns them with its own appended.
\<close>

section \<open>JSON\<close>

text \<open>\<open>JNumber\<close> is a number written with a fraction or an exponent.\<close>

datatype json = JNull | JBool bool | JInt int | JNumber string | JString string | JArray "json list"
  | JObject "(string \<times> json) list"

definition lower_char :: "char \<Rightarrow> char" where
  "lower_char c = (let n = of_char c :: nat in if 65 \<le> n \<and> n \<le> 90 then char_of (n + 32) else c)"

text \<open>The value a field of a structure is read from: the last one whose key differs in case at most.\<close>

definition json_field :: "string \<Rightarrow> (string \<times> json) list \<Rightarrow> json option" where
  "json_field f kv = map_of (rev (map (\<lambda>(k, v). (map lower_char k, v)) kv)) (map lower_char f)"

definition dec_field :: "string \<Rightarrow> (json \<Rightarrow> 'a option) \<Rightarrow> json \<Rightarrow> 'a option" where
  "dec_field f d j =
     (case j of
        JNull \<Rightarrow> d JNull
      | JObject kv \<Rightarrow> (case json_field f kv of None \<Rightarrow> d JNull | Some v \<Rightarrow> d v)
      | _ \<Rightarrow> None)"

fun dec_int :: "json \<Rightarrow> int option" where
  "dec_int JNull = Some 0"
| "dec_int (JInt i) = (if - (2 ^ 63) \<le> i \<and> i < 2 ^ 63 then Some i else None)"
| "dec_int _ = None"

fun dec_string :: "json \<Rightarrow> string option" where
  "dec_string JNull = Some ''''" | "dec_string (JString s) = Some s" | "dec_string _ = None"

fun dec_bool :: "json \<Rightarrow> bool option" where
  "dec_bool JNull = Some False" | "dec_bool (JBool b) = Some b" | "dec_bool _ = None"

fun dec_map :: "json \<Rightarrow> (string \<times> json) list option" where
  "dec_map JNull = Some []" | "dec_map (JObject kv) = Some kv" | "dec_map _ = None"

definition dec_list :: "(json \<Rightarrow> 'a option) \<Rightarrow> json \<Rightarrow> 'a list option" where
  "dec_list d j = (case j of JNull \<Rightarrow> Some [] | JArray js \<Rightarrow> those (map d js) | _ \<Rightarrow> None)"

text \<open>Two fields of a structure.\<close>

definition dec_both :: "(json \<Rightarrow> 'a option) \<Rightarrow> (json \<Rightarrow> 'b option) \<Rightarrow> json \<Rightarrow> ('a \<times> 'b) option" where
  "dec_both d e j = (case (d j, e j) of (Some a, Some b) \<Rightarrow> Some (a, b) | _ \<Rightarrow> None)"

section \<open>Calls\<close>

text \<open>A multipart message: its text fields, and the name, the type and the bytes of the file.\<close>

datatype http_body = NoBody | JsonBody json | Multipart "(string \<times> string) list" string string bytes

record http_call =
  hq_Method :: string
  hq_URL :: string
  hq_Token :: string
  hq_Body :: http_body

datatype cw_error = Unreached | Status nat | BadJson | NoId | NoSourceID int | DbError string

type_synonym cw_net = "http_call list \<Rightarrow> http_call \<Rightarrow> (nat \<times> json option) option"

type_synonym 'a cw = "(cw_error + 'a) \<times> http_call list"

definition TrimRight :: "char \<Rightarrow> string \<Rightarrow> string" where
  "TrimRight c s = rev (dropWhile (\<lambda>x. x = c) (rev s))"

definition cw_base :: "ChatwootConfig \<Rightarrow> string" where
  "cw_base c = TrimRight (CHR ''/'') (cw_URL c) @ ''/api/v1/accounts/'' @ itoa (cw_AccountID c)"

definition cw_call :: "ChatwootConfig \<Rightarrow> string \<Rightarrow> string \<Rightarrow> http_body \<Rightarrow> http_call" where
  "cw_call c method path body = \<lparr>hq_Method = method, hq_URL = cw_base c @ path, hq_Token = cw_AccountToken c, hq_Body = body\<rparr>"

definition req ::
    "cw_net \<Rightarrow> ChatwootConfig \<Rightarrow> string \<Rightarrow> string \<Rightarrow> http_body \<Rightarrow> http_call list \<Rightarrow> (nat \<times> json option) cw" where
  "req net c method path body log =
     (let q = cw_call c method path body
      in (case net log q of None \<Rightarrow> Inl Unreached | Some answer \<Rightarrow> Inr answer, log @ [q]))"

definition ok_status :: "nat \<Rightarrow> bool" where
  "ok_status code \<longleftrightarrow> 200 \<le> code \<and> code < 300"

text \<open>What follows a call that was answered.\<close>

definition answered :: "(nat \<times> json option) cw \<Rightarrow> (nat \<Rightarrow> json option \<Rightarrow> http_call list \<Rightarrow> 'a cw) \<Rightarrow> 'a cw" where
  "answered r f = (case r of (Inl e, log) \<Rightarrow> (Inl e, log) | (Inr (code, data), log) \<Rightarrow> f code data log)"

definition decoded :: "(json \<Rightarrow> 'a option) \<Rightarrow> json option \<Rightarrow> 'a option" where
  "decoded d data = (case data of None \<Rightarrow> None | Some j \<Rightarrow> d j)"

section \<open>Contacts\<close>

definition onlyDigits :: "string \<Rightarrow> string" where
  "onlyDigits s = filter is_digit s"

definition cwChatIDAttr :: string where
  "cwChatIDAttr = ''wacalls_chat_id''"

definition QueryEscape :: "string \<Rightarrow> string" where
  "QueryEscape s = concat (map (\<lambda>c.
     let n = of_char c :: nat in
     if 48 \<le> n \<and> n \<le> 57 \<or> 65 \<le> n \<and> n \<le> 90 \<or> 97 \<le> n \<and> n \<le> 122 \<or> c \<in> set ''-_.~'' then [c]
     else if c = CHR '' '' then ''+''
     else CHR ''%'' # map upper_char (hex_of [of_nat n])) s)"

text \<open>The entries \<^verbatim>\<open>source_id\<close>, \<^verbatim>\<open>inbox.id\<close> of a contact.\<close>

definition dec_inboxes :: "json \<Rightarrow> (string \<times> int) list option" where
  "dec_inboxes = dec_field ''contact_inboxes''
     (dec_list (dec_both (dec_field ''source_id'' dec_string) (dec_field ''inbox'' (dec_field ''id'' dec_int))))"

definition source_for :: "ChatwootConfig \<Rightarrow> (string \<times> int) list \<Rightarrow> string option" where
  "source_for c inboxes = map_option fst (find (\<lambda>(source, inbox). inbox = cw_InboxID c \<and> source \<noteq> '''') inboxes)"

text \<open>0 when there is none.\<close>

definition searchContact ::
    "cw_net \<Rightarrow> ChatwootConfig \<Rightarrow> string \<Rightarrow> string \<Rightarrow> http_call list \<Rightarrow> int \<times> http_call list" where
  "searchContact net c phone chatID log =
     (let byIdentifier = (phone = ''''); q = (if byIdentifier then chatID else phone) in
      if q = '''' then (0, log)
      else case req net c ''GET'' (''/contacts/search?q='' @ QueryEscape q) NoBody log of
             (Inl e, log1) \<Rightarrow> (0, log1)
           | (Inr (code, data), log1) \<Rightarrow>
               if \<not> ok_status code then (0, log1)
               else case decoded (dec_field ''payload'' (dec_list (dec_both (dec_field ''id'' dec_int)
                        (dec_both (dec_field ''phone_number'' dec_string) (dec_field ''identifier'' dec_string))))) data of
                      None \<Rightarrow> (0, log1)
                    | Some cts \<Rightarrow>
                        (case find (\<lambda>(i, ph, ident). if byIdentifier then ident = chatID else onlyDigits ph = onlyDigits phone) cts of
                           None \<Rightarrow> (0, log1)
                         | Some ct \<Rightarrow> (fst ct, log1)))"

definition contact_payload :: "ChatwootConfig \<Rightarrow> string \<Rightarrow> string \<Rightarrow> string \<Rightarrow> string \<Rightarrow> json" where
  "contact_payload c chatID phone name avatar = JObject
     ([(''inbox_id'', JInt (cw_InboxID c)), (''name'', JString name), (''identifier'', JString chatID),
       (''custom_attributes'', JObject [(cwChatIDAttr, JString chatID)])]
      @ (if phone \<noteq> '''' then [(''phone_number'', JString (''+'' @ phone))] else [])
      @ (if avatar \<noteq> '''' then [(''avatar_url'', JString avatar)] else []))"

definition ensureContact ::
    "cw_net \<Rightarrow> ChatwootConfig \<Rightarrow> string \<Rightarrow> string \<Rightarrow> string \<Rightarrow> string \<Rightarrow> http_call list \<Rightarrow> (int \<times> string) cw" where
  "ensureContact net c chatID phone name avatar log =
     (case searchContact net c phone chatID log of (found, log1) \<Rightarrow>
       if found \<noteq> 0 then (Inr (found, ''''), log1)
       else answered (req net c ''POST'' ''/contacts'' (JsonBody (contact_payload c chatID phone name avatar)) log1)
         (\<lambda>code data log2.
           if \<not> ok_status code then (Inl (Status code), log2)
           else case decoded (dec_field ''payload'' (dec_field ''contact'' (dec_both (dec_field ''id'' dec_int) dec_inboxes))) data of
                  None \<Rightarrow> (Inl BadJson, log2)
                | Some (contactID, inboxes) \<Rightarrow>
                    if contactID = 0 then (Inl NoId, log2)
                    else (Inr (contactID, case source_for c inboxes of None \<Rightarrow> '''' | Some source \<Rightarrow> source), log2)))"

definition contact_path :: "int \<Rightarrow> string \<Rightarrow> string" where
  "contact_path contactID rest = ''/contacts/'' @ itoa contactID @ rest"

text \<open>The source id of a contact inbox that exists already.\<close>

definition getSourceID :: "cw_net \<Rightarrow> ChatwootConfig \<Rightarrow> int \<Rightarrow> http_call list \<Rightarrow> string cw" where
  "getSourceID net c contactID log =
     answered (req net c ''GET'' (contact_path contactID '''') NoBody log)
       (\<lambda>code data log1.
         if \<not> ok_status code then (Inl (Status code), log1)
         else case decoded (dec_field ''payload'' dec_inboxes) data of
                None \<Rightarrow> (Inl BadJson, log1)
              | Some inboxes \<Rightarrow> (case source_for c inboxes of None \<Rightarrow> Inl (NoSourceID (cw_InboxID c)) | Some source \<Rightarrow> Inr source, log1))"

definition ensureSourceID :: "cw_net \<Rightarrow> ChatwootConfig \<Rightarrow> int \<Rightarrow> http_call list \<Rightarrow> string cw" where
  "ensureSourceID net c contactID log =
     answered (req net c ''POST'' (contact_path contactID ''/contact_inboxes'') (JsonBody (JObject [(''inbox_id'', JInt (cw_InboxID c))])) log)
       (\<lambda>code data log1.
         case (if ok_status code then decoded (dec_field ''source_id'' dec_string) data else None) of
           Some source \<Rightarrow> if source \<noteq> '''' then (Inr source, log1) else getSourceID net c contactID log1
         | None \<Rightarrow> getSourceID net c contactID log1)"

section \<open>Conversations\<close>

text \<open>0 when there is none.\<close>

definition findOpenConversation :: "cw_net \<Rightarrow> ChatwootConfig \<Rightarrow> int \<Rightarrow> http_call list \<Rightarrow> int \<times> http_call list" where
  "findOpenConversation net c contactID log =
     (case req net c ''GET'' (contact_path contactID ''/conversations'') NoBody log of
        (Inl e, log1) \<Rightarrow> (0, log1)
      | (Inr (code, data), log1) \<Rightarrow>
          if \<not> ok_status code then (0, log1)
          else case decoded (dec_field ''payload'' (dec_list (dec_both (dec_field ''id'' dec_int)
                   (dec_both (dec_field ''inbox_id'' dec_int) (dec_field ''status'' dec_string))))) data of
                 None \<Rightarrow> (0, log1)
               | Some convs \<Rightarrow>
                   (case find (\<lambda>(i, inbox, status). inbox = cw_InboxID c \<and> status \<in> {''open'', ''pending'', ''snoozed''}) convs of
                      None \<Rightarrow> (0, log1)
                    | Some conv \<Rightarrow> (fst conv, log1)))"

definition createConversation :: "cw_net \<Rightarrow> ChatwootConfig \<Rightarrow> string \<Rightarrow> http_call list \<Rightarrow> int cw" where
  "createConversation net c sourceID log =
     answered (req net c ''POST'' ''/conversations''
         (JsonBody (JObject [(''source_id'', JString sourceID), (''inbox_id'', JInt (cw_InboxID c)), (''status'', JString ''open'')])) log)
       (\<lambda>code data log1.
         if \<not> ok_status code then (Inl (Status code), log1)
         else case decoded (dec_field ''id'' dec_int) data of
                None \<Rightarrow> (Inl BadJson, log1)
              | Some i \<Rightarrow> (if i = 0 then Inl NoId else Inr i, log1))"

text \<open>The inbox, the phone and the name of the contact.\<close>

definition getConversation :: "cw_net \<Rightarrow> ChatwootConfig \<Rightarrow> int \<Rightarrow> http_call list \<Rightarrow> (int \<times> string \<times> string) cw" where
  "getConversation net c convID log =
     answered (req net c ''GET'' (''/conversations/'' @ itoa convID) NoBody log)
       (\<lambda>code data log1.
         if \<not> ok_status code then (Inl (Status code), log1)
         else case decoded (dec_both (dec_field ''inbox_id'' dec_int) (dec_field ''meta'' (dec_field ''sender''
                  (dec_both (dec_field ''phone_number'' dec_string) (dec_field ''name'' dec_string))))) data of
                None \<Rightarrow> (Inl BadJson, log1)
              | Some r \<Rightarrow> (Inr r, log1))"

section \<open>Messages\<close>

definition messages_path :: "int \<Rightarrow> string" where
  "messages_path convID = ''/conversations/'' @ itoa convID @ ''/messages''"

definition posted :: "(nat \<times> json option) cw \<Rightarrow> unit cw" where
  "posted r = answered r (\<lambda>code data log. (if ok_status code then Inr () else Inl (Status code), log))"

definition postMessage ::
    "cw_net \<Rightarrow> ChatwootConfig \<Rightarrow> int \<Rightarrow> string \<Rightarrow> string \<Rightarrow> string \<Rightarrow> http_call list \<Rightarrow> unit cw" where
  "postMessage net c convID content dir sourceID log =
     posted (req net c ''POST'' (messages_path convID)
       (JsonBody (JObject ([(''content'', JString content), (''message_type'', JString dir)]
          @ (if sourceID \<noteq> '''' then [(''source_id'', JString sourceID)] else [])))) log)"

definition postTextNote :: "cw_net \<Rightarrow> ChatwootConfig \<Rightarrow> int \<Rightarrow> string \<Rightarrow> http_call list \<Rightarrow> unit cw" where
  "postTextNote net c convID content log =
     posted (req net c ''POST'' (messages_path convID)
       (JsonBody (JObject [(''content'', JString content), (''message_type'', JString ''outgoing''), (''private'', JBool True)])) log)"

definition postMultipartMessage ::
    "cw_net \<Rightarrow> ChatwootConfig \<Rightarrow> int \<Rightarrow> string \<Rightarrow> string \<Rightarrow> string \<Rightarrow> bytes \<Rightarrow> string \<Rightarrow> bool \<Rightarrow> http_call list \<Rightarrow> unit cw" where
  "postMultipartMessage net c convID content filename mimetype data dir private log =
     posted (req net c ''POST'' (messages_path convID)
       (Multipart ([(''message_type'', dir)] @ (if private then [(''private'', ''true'')] else [])
          @ (if TrimSpace content \<noteq> '''' then [(''content'', content)] else [])) filename mimetype data) log)"

definition postAttachment ::
    "cw_net \<Rightarrow> ChatwootConfig \<Rightarrow> int \<Rightarrow> string \<Rightarrow> string \<Rightarrow> string \<Rightarrow> bytes \<Rightarrow> string \<Rightarrow> http_call list \<Rightarrow> unit cw" where
  "postAttachment net c convID content filename mimetype data dir log =
     postMultipartMessage net c convID content filename mimetype data dir False log"

definition postPrivateNote ::
    "cw_net \<Rightarrow> ChatwootConfig \<Rightarrow> int \<Rightarrow> string \<Rightarrow> string \<Rightarrow> string \<Rightarrow> bytes \<Rightarrow> http_call list \<Rightarrow> unit cw" where
  "postPrivateNote net c convID content filename mimetype data log =
     postMultipartMessage net c convID content filename mimetype data ''outgoing'' True log"

end
