(* ===== verification/Downloads.thy ===== *)
theory Downloads
  imports ChatwootApi
begin

text \<open>
  The download of the attachments of an agent (\<^verbatim>\<open>downloadURL\<close> and its guard against requests into the own network,
  \<^verbatim>\<open>cmd/server/chatwoot_media.go\<close>), and the names and types of files. An address is a \<^verbatim>\<open>net.IP\<close>, its bytes. The URL
  parser, the resolver and the server at the other end are parameters: the resolver may answer differently each time it
  is asked, and the \<open>n\<close>-th request of a download meets the \<open>n\<close>-th of the given hops. When they run out the request
  is still unanswered and the client's time limit ends it; only that limit bounds the number of redirects.
\<close>

section \<open>Addresses\<close>

definition To4 :: "bytes \<Rightarrow> bytes option" where
  "To4 ip =
     (if length ip = 4 then Some ip
      else if length ip = 16 \<and> take 10 ip = replicate 10 0 \<and> ip ! 10 = 0xff \<and> ip ! 11 = 0xff then Some (drop 12 ip)
      else None)"

definition IPv6loopback :: bytes where
  "IPv6loopback = replicate 15 0 @ [1]"

text \<open>\<^verbatim>\<open>ip.Equal\<close> with an address that has no IPv4 form, and with \<open>0.0.0.0\<close>.\<close>

definition IsLoopback :: "bytes \<Rightarrow> bool" where
  "IsLoopback ip = (case To4 ip of Some b \<Rightarrow> b ! 0 = 127 | None \<Rightarrow> ip = IPv6loopback)"

definition IsLinkLocalUnicast :: "bytes \<Rightarrow> bool" where
  "IsLinkLocalUnicast ip =
     (case To4 ip of
        Some b \<Rightarrow> b ! 0 = 169 \<and> b ! 1 = 254
      | None \<Rightarrow> length ip = 16 \<and> ip ! 0 = 0xfe \<and> ip ! 1 AND 0xc0 = 0x80)"

definition IsLinkLocalMulticast :: "bytes \<Rightarrow> bool" where
  "IsLinkLocalMulticast ip =
     (case To4 ip of
        Some b \<Rightarrow> b ! 0 = 224 \<and> b ! 1 = 0 \<and> b ! 2 = 0
      | None \<Rightarrow> length ip = 16 \<and> ip ! 0 = 0xff \<and> ip ! 1 AND 0x0f = 0x02)"

definition IsMulticast :: "bytes \<Rightarrow> bool" where
  "IsMulticast ip =
     (case To4 ip of Some b \<Rightarrow> b ! 0 AND 0xf0 = 0xe0 | None \<Rightarrow> length ip = 16 \<and> ip ! 0 = 0xff)"

definition IsUnspecified :: "bytes \<Rightarrow> bool" where
  "IsUnspecified ip = (case To4 ip of Some b \<Rightarrow> b = [0, 0, 0, 0] | None \<Rightarrow> ip = replicate 16 0)"

definition IsPrivate :: "bytes \<Rightarrow> bool" where
  "IsPrivate ip =
     (case To4 ip of
        Some b \<Rightarrow> b ! 0 = 10 \<or> b ! 0 = 172 \<and> b ! 1 AND 0xf0 = 16 \<or> b ! 0 = 192 \<and> b ! 1 = 168
      | None \<Rightarrow> length ip = 16 \<and> ip ! 0 AND 0xfe = 0xfc)"

section \<open>The guard\<close>

definition parseBoolEnv :: "(string \<Rightarrow> string) \<Rightarrow> string \<Rightarrow> bool" where
  "parseBoolEnv getenv key =
     (let raw = TrimSpace (getenv key)
      in if raw = '''' then False else (case ParseBool raw of None \<Rightarrow> False | Some v \<Rightarrow> v))"

definition allowLoopbackDownload :: "(string \<Rightarrow> string) \<Rightarrow> bool" where
  "allowLoopbackDownload getenv = parseBoolEnv getenv ''WACALLS_SSRF_ALLOW_LOOPBACK''"

definition allowPrivateDownload :: "(string \<Rightarrow> string) \<Rightarrow> bool" where
  "allowPrivateDownload getenv =
     (let raw = TrimSpace (getenv ''WACALLS_SSRF_ALLOW_PRIVATE'')
      in if raw = '''' then True else (case ParseBool raw of None \<Rightarrow> True | Some v \<Rightarrow> v))"

definition ssrfDisallowed :: "(string \<Rightarrow> string) \<Rightarrow> bytes \<Rightarrow> bool" where
  "ssrfDisallowed getenv ip =
     (if ip = [] then True
      else if IsLoopback ip \<and> \<not> allowLoopbackDownload getenv then True
      else if IsLinkLocalUnicast ip \<or> IsLinkLocalMulticast ip \<or> IsMulticast ip \<or> IsUnspecified ip then True
      else if allowPrivateDownload getenv then False
      else IsPrivate ip)"

datatype dl_error = BadURL | BadScheme string | NoHost | Unresolved string | Forbidden string | Unanswered | BadStatus nat
  | Unread | TooLarge

record dl_env =
  dl_getenv :: "string \<Rightarrow> string"
  dl_Parse :: "string \<Rightarrow> (string \<times> string) option"  \<comment> \<open>scheme and host name\<close>
  dl_LookupIP :: "nat \<Rightarrow> string \<Rightarrow> bytes list option"

definition validateDownloadHost :: "dl_env \<Rightarrow> nat \<Rightarrow> string \<Rightarrow> dl_error + unit" where
  "validateDownloadHost e n host =
     (if host = '''' then Inl NoHost
      else case dl_LookupIP e n host of
             None \<Rightarrow> Inl (Unresolved host)
           | Some addrs \<Rightarrow> if list_ex (ssrfDisallowed (dl_getenv e)) addrs then Inl (Forbidden host) else Inr ())"

section \<open>Downloads\<close>

text \<open>A redirect to a scheme and a host, or the end: status, content type, body, and whether it could be read.\<close>

datatype hop = Redirect string string | Answer nat string bytes bool

definition http_scheme :: "string \<Rightarrow> bool" where
  "http_scheme s \<longleftrightarrow> s = ''http'' \<or> s = ''https''"

text \<open>
  \<^verbatim>\<open>downloadHTTP.Do\<close>: each request resolves its host once more to connect; \<open>log\<close> is what it could connect to. The
  lookups made so far are counted.
\<close>

fun follow ::
    "dl_env \<Rightarrow> hop list \<Rightarrow> string \<Rightarrow> nat \<Rightarrow> (string \<times> bytes list) list
     \<Rightarrow> (dl_error + (nat \<times> string \<times> bytes \<times> bool)) \<times> (string \<times> bytes list) list" where
  "follow e hops host n log =
     (case dl_LookupIP e n host of
        None \<Rightarrow> (Inl (Unresolved host), log)
      | Some ips \<Rightarrow>
          (case hops of
             [] \<Rightarrow> (Inl Unanswered, log @ [(host, ips)])
           | Answer code ctype body readable # _ \<Rightarrow> (Inr (code, ctype, body, readable), log @ [(host, ips)])
           | Redirect scheme target # rest \<Rightarrow>
               if \<not> http_scheme scheme then (Inl (BadScheme scheme), log @ [(host, ips)])
               else (case validateDownloadHost e (n + 1) target of
                       Inl err \<Rightarrow> (Inl err, log @ [(host, ips)])
                     | Inr _ \<Rightarrow> follow e rest target (n + 2) (log @ [(host, ips)]))))"

declare follow.simps [simp del]

definition maxAttachmentBytes :: nat where
  "maxAttachmentBytes = 25 * 2 ^ 20"

text \<open>\<^verbatim>\<open>path.Base\<close>\<close>

definition path_Base :: "string \<Rightarrow> string" where
  "path_Base p =
     (if p = '''' then ''.''
      else let s = TrimRight (CHR ''/'') p
           in if s = '''' then ''/'' else rev (takeWhile (\<lambda>c. c \<noteq> CHR ''/'') (rev s)))"

definition file_name :: "string \<Rightarrow> string" where
  "file_name rawURL =
     (let name = takeWhile (\<lambda>c. c \<noteq> CHR ''?'' \<and> c \<noteq> CHR ''#'') (path_Base rawURL)
      in if name = '''' \<or> name = ''.'' \<or> name = ''/'' then ''archivo'' else name)"

definition content_type :: "string \<Rightarrow> string" where
  "content_type ct = (if CHR '';'' \<in> set ct then TrimSpace (takeWhile (\<lambda>c. c \<noteq> CHR '';'') ct) else ct)"

definition downloadURL ::
    "dl_env \<Rightarrow> hop list \<Rightarrow> string \<Rightarrow> (dl_error + (bytes \<times> string \<times> string)) \<times> (string \<times> bytes list) list" where
  "downloadURL e hops rawURL =
     (case dl_Parse e rawURL of
        None \<Rightarrow> (Inl BadURL, [])
      | Some (scheme, host) \<Rightarrow>
          if \<not> http_scheme scheme then (Inl (BadScheme scheme), [])
          else (case validateDownloadHost e 0 host of
                  Inl err \<Rightarrow> (Inl err, [])
                | Inr _ \<Rightarrow>
                    (case follow e hops host 1 [] of
                       (Inl err, log) \<Rightarrow> (Inl err, log)
                     | (Inr (code, ctype, body, readable), log) \<Rightarrow>
                         (if \<not> ok_status code then Inl (BadStatus code)
                          else let data = take (maxAttachmentBytes + 1) body in
                            if \<not> readable then Inl Unread
                            else if maxAttachmentBytes < length data then Inl TooLarge
                            else Inr (data, content_type ctype, file_name rawURL), log))))"

section \<open>Names and types of files\<close>

definition cleanMimetype :: "string \<Rightarrow> string" where
  "cleanMimetype m = TrimSpace (takeWhile (\<lambda>c. c \<noteq> CHR '';'') m)"

definition canonicalExt :: "(string \<times> string) list" where
  "canonicalExt =
     [(''audio/ogg'', ''.ogg''), (''audio/mpeg'', ''.mp3''), (''audio/mp4'', ''.m4a''), (''audio/aac'', ''.aac''),
      (''audio/wav'', ''.wav''), (''image/jpeg'', ''.jpg''), (''image/png'', ''.png''), (''image/webp'', ''.webp''),
      (''image/gif'', ''.gif''), (''video/mp4'', ''.mp4''), (''video/3gpp'', ''.3gp''), (''application/pdf'', ''.pdf'')]"

text \<open>\<open>types\<close> is the table of types of the system, \<^verbatim>\<open>mime.ExtensionsByType\<close>.\<close>

definition mediaFilename :: "(string \<Rightarrow> string list) \<Rightarrow> string \<Rightarrow> string \<Rightarrow> string \<Rightarrow> string" where
  "mediaFilename types kind mimetype stem0 =
     (let stem = (if stem0 = '''' then kind else stem0) in
      case map_of canonicalExt (cleanMimetype mimetype) of
        Some ext \<Rightarrow> stem @ ext
      | None \<Rightarrow>
          if types mimetype \<noteq> [] then stem @ hd (types mimetype)
          else if kind = ''image'' then stem @ ''.jpg''
          else if kind = ''video'' then stem @ ''.mp4''
          else if kind = ''audio'' then stem @ ''.ogg''
          else stem @ ''.bin'')"

section \<open>Where downloads go\<close>

text \<open>The number of an IPv4 address, and the network of the addresses that share its first \<open>bits\<close> bits.\<close>

definition address :: "bytes \<Rightarrow> nat" where
  "address b = ((unat (b ! 0) * 256 + unat (b ! 1)) * 256 + unat (b ! 2)) * 256 + unat (b ! 3)"

definition in_net :: "bytes \<Rightarrow> nat \<Rightarrow> bytes \<Rightarrow> bool" where
  "in_net net bits b \<longleftrightarrow> address b div 2 ^ (32 - bits) = address net div 2 ^ (32 - bits)"

lemma byte_eq: "b = (c :: u8) \<longleftrightarrow> unat b = unat c"
  by (simp add: word_unat_eq_iff)

lemma high_nibble: "b AND 0xf0 = (c :: u8) \<longleftrightarrow> unat c mod 16 = 0 \<and> unat b div 16 = unat c div 16"
proof -
  have f0: "(0xf0 :: u8) = push_bit 4 (mask 4)" by (simp add: mask_eq_exp_minus_1 push_bit_eq_mult)
  have "(b AND 0xf0) = push_bit 4 (drop_bit 4 b)"
    unfolding f0 by (rule bit_word_eqI) (auto simp: bit_simps)
  moreover have "unat (push_bit 4 (drop_bit 4 b)) = 16 * (unat b div 16)"
    using unsigned_less [of b, where 'a = nat] by (simp add: unat_word_ariths unat_drop_bit_eq drop_bit_eq_div push_bit_eq_mult)
  ultimately have "b AND 0xf0 = c \<longleftrightarrow> 16 * (unat b div 16) = unat c" by (simp add: byte_eq)
  moreover have "16 * q = n \<longleftrightarrow> n mod 16 = 0 \<and> q = n div 16" for q n :: nat
    by (metis mult.commute mod_mult_self1_is_0 nonzero_mult_div_cancel_left div_mult_mod_eq add.right_neutral zero_neq_numeral)
  ultimately show ?thesis by simp
qed

lemma To4_length: "To4 ip = Some b \<Longrightarrow> length b = 4 \<and> ip \<noteq> []"
  by (auto simp: To4_def split: if_splits)

lemma address_parts:
  assumes "length b = 4"
  shows "address b div 2 ^ 24 = unat (b ! 0)" "address b div 2 ^ 16 = unat (b ! 0) * 256 + unat (b ! 1)"
    "address b div 2 ^ 20 = unat (b ! 0) * 16 + unat (b ! 1) div 16" "address b div 2 ^ 28 = unat (b ! 0) div 16"
    "address b = 0 \<longleftrightarrow> b = [0, 0, 0, 0]"
proof -
  have lt: "unat (b ! i) < 256" for i using unsigned_less [of "b ! i"] by simp
  define n where "n = (unat (b ! 2)) * 256 + unat (b ! 3)"
  have n: "n < 2 ^ 16" using lt [of 2] lt [of 3] by (simp add: n_def)
  have a: "address b = (unat (b ! 0) * 256 + unat (b ! 1)) * 2 ^ 16 + n" by (simp add: address_def n_def)
  show two: "address b div 2 ^ 16 = unat (b ! 0) * 256 + unat (b ! 1)" unfolding a using n by simp
  have "address b div 2 ^ 24 = address b div 2 ^ 16 div 2 ^ 8" "address b div 2 ^ 20 = address b div 2 ^ 16 div 2 ^ 4"
    "address b div 2 ^ 28 = address b div 2 ^ 16 div 2 ^ 12" by (simp_all add: div_mult2_eq [symmetric])
  then show "address b div 2 ^ 24 = unat (b ! 0)" "address b div 2 ^ 20 = unat (b ! 0) * 16 + unat (b ! 1) div 16"
    "address b div 2 ^ 28 = unat (b ! 0) div 16"
    unfolding two using lt [of 1] by simp_all
  have "b = [b ! 0, b ! 1, b ! 2, b ! 3]" using assms by (auto simp: list_eq_iff_nth_eq less_Suc_eq numeral_eq_Suc)
  then show "address b = 0 \<longleftrightarrow> b = [0, 0, 0, 0]"
    by (auto simp: address_def unat_eq_0)
qed

lemma guard_ranges:
  assumes "To4 ip = Some b"
  shows "ssrfDisallowed getenv ip \<longleftrightarrow>
      in_net [127, 0, 0, 0] 8 b \<and> \<not> allowLoopbackDownload getenv
    \<or> in_net [169, 254, 0, 0] 16 b \<or> in_net [224, 0, 0, 0] 4 b \<or> in_net [0, 0, 0, 0] 32 b
    \<or> \<not> allowPrivateDownload getenv
        \<and> (in_net [10, 0, 0, 0] 8 b \<or> in_net [172, 16, 0, 0] 12 b \<or> in_net [192, 168, 0, 0] 16 b)"
proof -
  have b: "length b = 4" "ip \<noteq> []" using To4_length [OF assms] by auto
  have lt: "unat (b ! i) < 256" for i using unsigned_less [of "b ! i"] by simp
  note parts = address_parts [OF b(1)]
  have "w = x \<and> y = z" if "w * m + y = x * m + z" "y < m" "z < m" for w x y z m :: nat
    using arg_cong [OF that(1), of "\<lambda>t. t div m"] arg_cong [OF that(1), of "\<lambda>t. t mod m"] that(2,3) by simp
  then have digits: "w * m + y = x * m + z \<longleftrightarrow> w = x \<and> y = z" if "y < m" "z < m" for w x y z m :: nat
    using that by blast
  have lo: "unat (b ! i) div 16 < 16" for i using lt [of i] by (simp add: less_mult_imp_div_less)
  have "IsLoopback ip \<longleftrightarrow> in_net [127, 0, 0, 0] 8 b"
    using assms parts(1) by (simp add: IsLoopback_def in_net_def byte_eq address_def [of "[_, _, _, _]"])
  moreover have "IsLinkLocalUnicast ip \<longleftrightarrow> in_net [169, 254, 0, 0] 16 b"
    using assms parts(2) lt digits [of "unat (b ! 1)" 256 254 "unat (b ! 0)" 169]
    by (simp add: IsLinkLocalUnicast_def in_net_def byte_eq address_def [of "[_, _, _, _]"])
  moreover have "IsMulticast ip \<longleftrightarrow> in_net [224, 0, 0, 0] 4 b"
    using assms parts(4) by (simp add: IsMulticast_def in_net_def high_nibble address_def [of "[_, _, _, _]"])
  moreover have "IsLinkLocalMulticast ip \<Longrightarrow> in_net [224, 0, 0, 0] 4 b"
    using assms parts(4) by (simp add: IsLinkLocalMulticast_def in_net_def address_def [of "[_, _, _, _]"])
  moreover have "IsUnspecified ip \<longleftrightarrow> in_net [0, 0, 0, 0] 32 b"
    using assms parts(5) by (simp add: IsUnspecified_def in_net_def address_def [of "[_, _, _, _]"])
  moreover have "IsPrivate ip \<longleftrightarrow> in_net [10, 0, 0, 0] 8 b \<or> in_net [172, 16, 0, 0] 12 b \<or> in_net [192, 168, 0, 0] 16 b"
    using assms parts(1-3) lt lo digits [of "unat (b ! 1)" 256 168 "unat (b ! 0)" 192]
      digits [of "unat (b ! 1) div 16" 16 1 "unat (b ! 0)" 172]
    by (simp add: IsPrivate_def in_net_def high_nibble byte_eq [of "b ! 0"] byte_eq [of _ 168] address_def [of "[_, _, _, _]"])
  ultimately show ?thesis using b(2) by (auto simp: ssrfDisallowed_def)
qed

text \<open>Every request of a download goes to a host that the guard has passed, when the resolver keeps to its answers.\<close>

definition checked :: "dl_env \<Rightarrow> string \<Rightarrow> bool" where
  "checked e h \<longleftrightarrow> (\<forall>ips. dl_LookupIP e 0 h = Some ips \<longrightarrow> (\<forall>ip\<in>set ips. \<not> ssrfDisallowed (dl_getenv e) ip))"

lemma validated_checked:
  assumes "\<And>m n h. dl_LookupIP e m h = dl_LookupIP e n h" "validateDownloadHost e n h = Inr ()"
  shows "checked e h"
  using assms(2) assms(1) [of 0 h n]
  by (auto simp: validateDownloadHost_def checked_def list_ex_iff split: option.splits if_splits)

lemma follow_checked:
  "(\<And>m n h. dl_LookupIP e m h = dl_LookupIP e n h) \<Longrightarrow> checked e host \<Longrightarrow>
    \<forall>(h, ips)\<in>set log. checked e h \<and> dl_LookupIP e 0 h = Some ips \<Longrightarrow>
    \<forall>(h, ips)\<in>set (snd (follow e hops host n log)). checked e h \<and> dl_LookupIP e 0 h = Some ips"
proof (induction e hops host n log rule: follow.induct)
  case (1 e hops host n log)
  note stable = "1.prems"(1)
  show ?case
  proof (cases "dl_LookupIP e n host")
    case None
    then show ?thesis using "1.prems"(3) by (simp add: follow.simps)
  next
    case (Some ips)
    have here: "\<forall>(h, ips)\<in>set (log @ [(host, ips)]). checked e h \<and> dl_LookupIP e 0 h = Some ips"
      using "1.prems"(2,3) trans [OF stable [of 0 host n] Some] by auto
    show ?thesis
    proof (cases hops)
      case Nil
      then show ?thesis using here Some by (simp add: follow.simps)
    next
      case (Cons hop rest)
      show ?thesis
      proof (cases hop)
        case (Redirect scheme target)
        then show ?thesis
          using here Some Cons "1.IH" [OF Some Cons Redirect _ _ stable] validated_checked [OF stable]
          by (simp add: follow.simps [of e "Redirect scheme target # rest"] split: sum.split)
      next
        case (Answer code ctype body readable)
        then show ?thesis using here Some Cons by (simp add: follow.simps)
      qed
    qed
  qed
qed

lemma file_name_nonempty: "file_name u \<noteq> ''''"
  by (simp add: file_name_def Let_def)

lemma downloadURL_Inr:
  "fst (downloadURL e hops rawURL) = Inr (data, ct, name) \<Longrightarrow> length data \<le> maxAttachmentBytes \<and> name \<noteq> ''''"
  using file_name_nonempty [of rawURL]
  by (auto simp: downloadURL_def Let_def split: option.splits sum.splits if_splits prod.splits)

lemma downloadURL_checked:
  assumes "\<And>m n h. dl_LookupIP e m h = dl_LookupIP e n h" "(h, ips) \<in> set (snd (downloadURL e hops rawURL))"
  shows "checked e h \<and> dl_LookupIP e 0 h = Some ips"
proof -
  obtain scheme host where h: "dl_Parse e rawURL = Some (scheme, host)" "validateDownloadHost e 0 host = Inr ()"
      "(h, ips) \<in> set (snd (follow e hops host 1 []))"
    using assms(2) by (auto simp: downloadURL_def split: option.splits sum.splits if_splits prod.splits)
  show ?thesis
    using follow_checked [OF assms(1) validated_checked [OF assms(1) h(2)], of "[]" hops 1] h(3) by auto
qed


text \<open>A download from a host that redirects to a second one.\<close>

definition demo_downloads :: dl_env where
  "demo_downloads = \<lparr>dl_getenv = (\<lambda>_. ''''), dl_Parse = (\<lambda>u. Some (''https'', ''chat.example'')),
     dl_LookupIP = (\<lambda>n h. if h = ''chat.example'' then Some [[93, 184, 216, 34]] else Some [[172, 18, 0, 5]])\<rparr>"

definition demo_hops :: "hop list" where
  "demo_hops = [Redirect ''http'' ''rails'', Answer 200 ''image/png'' [1, 2, 3] True]"

lemmas demo_defs = demo_downloads_def demo_hops_def downloadURL_def follow.simps http_scheme_def validateDownloadHost_def
  ssrfDisallowed_def IsLoopback_def IsLinkLocalUnicast_def IsLinkLocalMulticast_def IsMulticast_def IsUnspecified_def To4_def
  allowPrivateDownload_def allowLoopbackDownload_def parseBoolEnv_def TrimSpace_def maxAttachmentBytes_def ok_status_def
  content_type_def file_name_def path_Base_def TrimRight_def

lemma demo_downloads_log:
  "downloadURL demo_downloads demo_hops ''https://chat.example/f/foto.png?x=1'' =
     (Inr ([1, 2, 3], ''image/png'', ''foto.png''), [(''chat.example'', [[93, 184, 216, 34]]), (''rails'', [[172, 18, 0, 5]])])"
  by (simp add: demo_defs)


text \<open>The transport resolves the host again: a resolver that changes its answer in between leads a download to the own host.\<close>

lemma rebinding_reaches_loopback:
  "let e = demo_downloads\<lparr>dl_LookupIP := (\<lambda>n h. Some [if n = 0 then [93, 184, 216, 34] else [127, 0, 0, 1]])\<rparr> in
     \<not> allowLoopbackDownload (dl_getenv e)
   \<and> (''chat.example'', [[127, 0, 0, 1]]) \<in> set (snd (downloadURL e [Answer 200 ''image/png'' [1, 2, 3] True] ''https://chat.example/f/foto.png''))"
  by (simp add: demo_defs)

end
