(* ===== verification/Chatwoot.thy ===== *)
theory Chatwoot
  imports Formatting Downloads
begin

text \<open>
  The bridge between WhatsApp chats and Chatwoot conversations (\<^verbatim>\<open>cmd/server/chatwoot.go\<close>, \<^verbatim>\<open>chatwoot_media.go\<close>,
  \<^verbatim>\<open>chatwoot_http.go\<close>, and the notes about calls in \<^verbatim>\<open>session.go\<close>): what a message from WhatsApp does to the session, the
  database and Chatwoot; what a webhook of Chatwoot sends to WhatsApp; and the handlers of the Chatwoot routes. The
  answers of whatsmeow are parameters. A client always has a store, as every session of the server has one. Log lines
  are not modelled. A call of an operation that sends to WhatsApp records the attempt, whatever its outcome.
\<close>

section \<open>What comes from outside\<close>

record 'j jid_parts = "'j jid_ops" +
  jid_User :: "'j \<Rightarrow> string"
  jid_Server :: "'j \<Rightarrow> string"
  jid_New :: "string \<Rightarrow> string \<Rightarrow> 'j"

text \<open>
  The parts of a message that the bridge reads; an absent message has none. A picture and a video have a type and a
  caption, a document a type, a name and a caption.
\<close>

record wa_message =
  ms_Conversation :: string
  ms_Extended :: "string option"
  ms_Image :: "(string \<times> string) option"
  ms_Video :: "(string \<times> string) option"
  ms_Audio :: "string option"
  ms_Document :: "(string \<times> string \<times> string) option"
  ms_Sticker :: "string option"

record 'j message_event =
  ev_ID :: string
  ev_Chat :: 'j
  ev_Sender :: 'j
  ev_SenderAlt :: 'j
  ev_RecipientAlt :: 'j
  ev_IsFromMe :: bool
  ev_PushName :: string
  ev_Message :: wa_message

datatype media_type = MediaImage | MediaVideo | MediaAudio | MediaDocument

record UploadResponse =
  up_URL :: string
  up_DirectPath :: string
  up_MediaKey :: bytes
  up_FileEncSHA256 :: bytes
  up_FileSHA256 :: bytes

record out_media =
  om_Caption :: "string option"
  om_Mimetype :: string
  om_FileName :: "string option"
  om_Upload :: UploadResponse
  om_FileLength :: nat

datatype out_message = TextOut string | ImageOut out_media | VideoOut out_media | AudioOut out_media | DocumentOut out_media

text \<open>
  \<open>ce_now\<close> and \<open>ce_SendMessage\<close> depend on the messages that the operation has sent before; \<open>ce_SendMessage\<close> is the id of
  the message, \<open>None\<close> for an error. \<open>ce_hops\<close> is what a download from a URL meets, \<open>ce_text_time\<close> and \<open>ce_file_time\<close> the
  time in the two formats the code uses.
\<close>

record 'j cw_env =
  ce_J :: "'j jid_parts"
  ce_net :: cw_net
  ce_config_up :: bool
  ce_lookup_up :: bool
  ce_save_up :: faults
  ce_now :: "nat \<Rightarrow> int"
  ce_GroupName :: "'j \<Rightarrow> string option"
  ce_Picture :: "'j \<Rightarrow> string option"
  ce_PushName :: string
  ce_PNForLID :: "'j \<Rightarrow> 'j option"
  ce_GetContact :: "'j \<Rightarrow> (string \<times> string \<times> string) option"
  ce_DownloadAny :: "wa_message \<Rightarrow> bytes option"
  ce_Upload :: "bytes \<Rightarrow> media_type \<Rightarrow> UploadResponse option"
  ce_SendMessage :: "('j \<times> out_message) list \<Rightarrow> 'j \<Rightarrow> out_message \<Rightarrow> string option"
  ce_types :: "string \<Rightarrow> string list"
  ce_dl :: dl_env
  ce_hops :: "string \<Rightarrow> hop list"
  ce_text_time :: string
  ce_file_time :: string

definition DefaultUserServer :: string where
  "DefaultUserServer = ''s.whatsapp.net''"

definition HiddenUserServer :: string where
  "HiddenUserServer = ''lid''"

definition GroupServer :: string where
  "GroupServer = ''g.us''"

section \<open>Identities\<close>

definition firstNonEmpty :: "string list \<Rightarrow> string" where
  "firstNonEmpty vals = (case find (\<lambda>v. v \<noteq> '''') vals of None \<Rightarrow> '''' | Some v \<Rightarrow> v)"

definition realPhone :: "'j cw_env \<Rightarrow> 'j \<Rightarrow> string" where
  "realPhone e jid =
     (let J = ce_J e in
      if jid_User J jid = '''' then ''''
      else if jid_Server J jid = DefaultUserServer then jid_User J jid
      else case ce_PNForLID e jid of
             Some pn \<Rightarrow> if jid_User J pn \<noteq> '''' then jid_User J pn else jid_User J jid
           | None \<Rightarrow> jid_User J jid)"

definition peerPhone :: "'j cw_env \<Rightarrow> 'j message_event \<Rightarrow> string" where
  "peerPhone e ev =
     (let J = ce_J e; alt = (if ev_IsFromMe ev then ev_RecipientAlt ev else ev_SenderAlt ev) in
      if jid_Server J (ev_Chat ev) = DefaultUserServer then jid_User J (ev_Chat ev)
      else if jid_Server J alt = DefaultUserServer \<and> jid_User J alt \<noteq> '''' then jid_User J alt
      else realPhone e (ev_Chat ev))"

text \<open>The name is the JID for a group without a known subject; an empty subject counts as unknown.\<close>

definition groupIdentity :: "'j cw_env \<Rightarrow> 'j \<Rightarrow> string \<times> string" where
  "groupIdentity e grp =
     (let name = jid_String (ce_J e) grp in
      (case ce_GroupName e grp of Some n \<Rightarrow> if n \<noteq> '''' then n else name | None \<Rightarrow> name,
       case ce_Picture e grp of Some url \<Rightarrow> url | None \<Rightarrow> ''''))"

text \<open>The telephone with its arrow, in UTF-8.\<close>

definition deviceMirrorPrefix :: string where
  "deviceMirrorPrefix = [CHR 0xF0, CHR 0x9F, CHR 0x93, CHR 0xB2] @ '' Enviado desde WhatsApp:'' @ [newline]"

record chatTarget =
  ct_chatID :: string
  ct_phone :: string
  ct_name :: string
  ct_avatar :: string
  ct_prefix :: string

definition chatTarget_of :: "'j cw_env \<Rightarrow> 'j message_event \<Rightarrow> bool \<Rightarrow> bool \<Rightarrow> chatTarget option" where
  "chatTarget_of e ev isGroup own =
     (if isGroup then
        (let (name, avatar) = groupIdentity e (ev_Chat ev);
             author = (if own then firstNonEmpty [ce_PushName e, ''yo'']
                       else if ev_PushName ev = '''' then realPhone e (ev_Sender ev) else ev_PushName ev)
         in Some \<lparr>ct_chatID = jid_String (ce_J e) (ev_Chat ev), ct_phone = '''', ct_name = name, ct_avatar = avatar,
              ct_prefix = (if own then deviceMirrorPrefix else '''') @ ''*'' @ author @ ''*:'' @ [newline]\<rparr>)
      else
        (let phone = peerPhone e ev in
         if phone = '''' then None
         else Some \<lparr>ct_chatID = phone @ ''@'' @ DefaultUserServer, ct_phone = phone,
                ct_name = (if \<not> own \<and> ev_PushName ev \<noteq> '''' then ev_PushName ev else phone), ct_avatar = '''',
                ct_prefix = (if own then deviceMirrorPrefix else '''')\<rparr>))"

definition resolveRecipient :: "('j, 'x) jid_parts_scheme \<Rightarrow> string \<Rightarrow> 'j option" where
  "resolveRecipient J chatID =
     (if CHR ''@'' \<in> set chatID then jid_Parse J chatID
      else let d = onlyDigits chatID in
        if d = '''' then None
        else if length d < 7 \<or> 15 < length d then None
        else Some (jid_New J d DefaultUserServer))"

definition resolvePeerIdentity :: "'j cw_env \<Rightarrow> string \<Rightarrow> string \<times> string" where
  "resolvePeerIdentity e jidStr =
     (case resolveRecipient (ce_J e) jidStr of
        None \<Rightarrow> ('''', '''')
      | Some jid \<Rightarrow>
          let phone = onlyDigits (realPhone e jid);
              lookup = [jid] @ (if phone \<noteq> '''' then [jid_New (ce_J e) phone DefaultUserServer] else []);
              names = map (\<lambda>j. case ce_GetContact e j of None \<Rightarrow> '''' | Some (full, push, business) \<Rightarrow> firstNonEmpty [full, push, business]) lookup
          in (phone, firstNonEmpty names))"

section \<open>From WhatsApp to Chatwoot\<close>

definition messageText :: "wa_message \<Rightarrow> string" where
  "messageText m =
     (if ms_Conversation m \<noteq> '''' then ms_Conversation m
      else case ms_Extended m of Some t \<Rightarrow> t | None \<Rightarrow> '''')"

record incomingMedia =
  im_kind :: string
  im_mimetype :: string
  im_filename :: string
  im_caption :: string

definition extractIncomingMedia :: "(string \<Rightarrow> string list) \<Rightarrow> wa_message \<Rightarrow> incomingMedia option" where
  "extractIncomingMedia types m =
     (case ms_Image m of
        Some (t, caption) \<Rightarrow> let mt = cleanMimetype t in
          Some \<lparr>im_kind = ''image'', im_mimetype = mt, im_filename = mediaFilename types ''image'' mt ''imagen'', im_caption = caption\<rparr>
      | None \<Rightarrow> (case ms_Video m of
        Some (t, caption) \<Rightarrow> let mt = cleanMimetype t in
          Some \<lparr>im_kind = ''video'', im_mimetype = mt, im_filename = mediaFilename types ''video'' mt ''video'', im_caption = caption\<rparr>
      | None \<Rightarrow> (case ms_Audio m of
        Some t \<Rightarrow> let mt = cleanMimetype t in
          Some \<lparr>im_kind = ''audio'', im_mimetype = mt, im_filename = mediaFilename types ''audio'' mt ''audio'', im_caption = ''''\<rparr>
      | None \<Rightarrow> (case ms_Document m of
        Some (t, name, caption) \<Rightarrow> let mt = cleanMimetype t in
          Some \<lparr>im_kind = ''document'', im_mimetype = mt,
                im_filename = firstNonEmpty [name, mediaFilename types ''document'' mt ''documento''], im_caption = caption\<rparr>
      | None \<Rightarrow> (case ms_Sticker m of
        Some t \<Rightarrow> let mt = cleanMimetype t in
          Some \<lparr>im_kind = ''image'', im_mimetype = mt, im_filename = mediaFilename types ''image'' mt ''sticker'', im_caption = ''''\<rparr>
      | None \<Rightarrow> None)))))"

text \<open>The database and the calls to Chatwoot.\<close>

type_synonym books = "sessionStore \<times> http_call list"

definition ensureChatwootConversation ::
    "'j cw_env \<Rightarrow> string \<Rightarrow> ChatwootConfig \<Rightarrow> string \<Rightarrow> string \<Rightarrow> string \<Rightarrow> string \<Rightarrow> books \<Rightarrow> (cw_error + int) \<times> books" where
  "ensureChatwootConversation e i c chatID phone name avatar bk =
     (case bk of (db, log) \<Rightarrow>
       (case ensureContact (ce_net e) c chatID phone name avatar log of
          (Inl err, log1) \<Rightarrow> (Inl err, db, log1)
        | (Inr (contactID, source0), log1) \<Rightarrow>
            (case (if source0 = '''' then ensureSourceID (ce_net e) c contactID log1 else (Inr source0, log1)) of
               (Inl err, log2) \<Rightarrow> (Inl err, db, log2)
             | (Inr source, log2) \<Rightarrow>
                 (case findOpenConversation (ce_net e) c contactID log2 of (found, log3) \<Rightarrow>
                   (case (if found = 0 then createConversation (ce_net e) c source log3 else (Inr found, log3)) of
                      (Inl err, log4) \<Rightarrow> (Inl err, db, log4)
                    | (Inr conv, log4) \<Rightarrow>
                        (case saveConversation (ce_save_up e) i chatID contactID source conv db of
                           (Inl err, db1) \<Rightarrow> (Inl (DbError err), db1, log4)
                         | (Inr _, db1) \<Rightarrow> (Inr conv, db1, log4)))))))"

text \<open>The known conversation of a chat, or the one that is found or opened for it.\<close>

definition chat_conversation ::
    "'j cw_env \<Rightarrow> string \<Rightarrow> ChatwootConfig \<Rightarrow> string \<Rightarrow> string \<Rightarrow> string \<Rightarrow> string \<Rightarrow> books \<Rightarrow> (cw_error + int) \<times> books" where
  "chat_conversation e i c chatID phone name avatar bk =
     (case lookupConversation (ce_lookup_up e) i chatID (fst bk) of
        Inl err \<Rightarrow> (Inl (DbError err), bk)
      | Inr conv \<Rightarrow> if conv = 0 then ensureChatwootConversation e i c chatID phone name avatar bk else (Inr conv, bk))"

text \<open>Posting the message; when it has an attachment, its text is the caption.\<close>

definition post_from_chat ::
    "'j cw_env \<Rightarrow> ChatwootConfig \<Rightarrow> 'j message_event \<Rightarrow> bool \<Rightarrow> string \<Rightarrow> incomingMedia option \<Rightarrow> string \<Rightarrow> int
     \<Rightarrow> http_call list \<Rightarrow> http_call list" where
  "post_from_chat e c ev own pre media text conv log =
     (case media of
        Some m \<Rightarrow>
          (case ce_DownloadAny e (ev_Message ev) of
             None \<Rightarrow> log
           | Some data \<Rightarrow>
               let caption = pre @ im_caption m in
               snd (if own then postPrivateNote (ce_net e) c conv caption (im_filename m) (im_mimetype m) data log
                    else postAttachment (ce_net e) c conv caption (im_filename m) (im_mimetype m) data ''incoming'' log))
      | None \<Rightarrow>
          snd (if own then postTextNote (ce_net e) c conv (pre @ text) log
               else postMessage (ce_net e) c conv (pre @ text) ''incoming'' (ev_ID ev) log))"

definition handleIncomingMessage ::
    "'j cw_env \<Rightarrow> 'j message_event \<Rightarrow> ('j, 'c, 'p) Session \<times> books \<Rightarrow> ('j, 'c, 'p) Session \<times> books" where
  "handleIncomingMessage e ev st =
     (case st of (s, db, log) \<Rightarrow>
       let chat_server = jid_Server (ce_J e) (ev_Chat ev); isGroup = (chat_server = GroupServer); own = ev_IsFromMe ev in
       if \<not> isGroup \<and> chat_server \<noteq> DefaultUserServer \<and> chat_server \<noteq> HiddenUserServer then st
       else if own \<and> isSelfSent (ev_ID ev) s then st
       else
         let text = messageText (ev_Message ev); media = extractIncomingMedia (ce_types e) (ev_Message ev) in
         if media = None \<and> text = '''' then st
         else (case getChatwoot (ce_config_up e) (se_id s) db of (c, ok) \<Rightarrow>
           if \<not> ok \<or> \<not> cw_valid c then st
           else (case alreadySeen (ce_now e 0) (ev_ID ev) s of (dup, s1) \<Rightarrow>
             if dup then (s1, db, log)
             else (case chatTarget_of e ev isGroup own of
                     None \<Rightarrow> (s1, db, log)
                   | Some t \<Rightarrow>
                       (case chat_conversation e (se_id s) c (ct_chatID t) (ct_phone t) (ct_name t) (ct_avatar t) (db, log) of
                          (Inl err, db1, log1) \<Rightarrow> (s1, db1, log1)
                        | (Inr conv, db1, log1) \<Rightarrow> (s1, db1, post_from_chat e c ev own (ct_prefix t) media text conv log1))))))"

section \<open>Notes about calls\<close>

definition callConversation ::
    "'j cw_env \<Rightarrow> string \<Rightarrow> string \<Rightarrow> books \<Rightarrow> (ChatwootConfig \<times> int \<times> string) option \<times> books" where
  "callConversation e i peerJID bk =
     (case getChatwoot (ce_config_up e) i (fst bk) of (c, ok) \<Rightarrow>
       if \<not> ok \<or> \<not> cw_valid c then (None, bk)
       else (case resolveRecipient (ce_J e) peerJID of
               None \<Rightarrow> (None, bk)
             | Some jid \<Rightarrow>
                 let phone = onlyDigits (realPhone e jid) in
                 if phone = '''' then (None, bk)
                 else (case chat_conversation e i c (phone @ ''@'' @ DefaultUserServer) phone phone '''' bk of
                         (Inl err, bk1) \<Rightarrow> (None, bk1)
                       | (Inr conv, bk1) \<Rightarrow> (Some (c, conv, phone), bk1))))"

text \<open>Two letters in UTF-8.\<close>

definition o_acute :: string where
  "o_acute = [CHR 0xC3, CHR 0xB3]"

definition e_acute :: string where
  "e_acute = [CHR 0xC3, CHR 0xA9]"

text \<open>The microphone and the telephone receiver, in UTF-8; the dot between the words is U+00B7.\<close>

definition middle_dot :: string where
  "middle_dot = [CHR '' '', CHR 0xC2, CHR 0xB7, CHR '' '']"

definition finalizeRecording ::
    "'p float_ops \<Rightarrow> 'j cw_env \<Rightarrow> string \<Rightarrow> 'p callRecorder \<Rightarrow> string \<Rightarrow> books \<Rightarrow> books" where
  "finalizeRecording F e i rec peerJID bk =
     (case fst (finishWAV F rec) of
        None \<Rightarrow> bk
      | Some (wav, seconds) \<Rightarrow>
          (case callConversation e i peerJID bk of
             (None, bk1) \<Rightarrow> bk1
           | (Some (c, conv, phone), db1, log1) \<Rightarrow>
               let content = [CHR 0xF0, CHR 0x9F, CHR 0x8E, CHR 0x99, CHR 0xEF, CHR 0xB8, CHR 0x8F]
                     @ '' Grabaci'' @ o_acute @ ''n de llamada'' @ middle_dot @ fmtDuration seconds
               in (db1, snd (postPrivateNote (ce_net e) c conv content (''llamada-'' @ ce_file_time e @ ''.wav'') ''audio/wav'' wav log1))))"

definition noteMissedCall :: "'j cw_env \<Rightarrow> string \<Rightarrow> string \<Rightarrow> books \<Rightarrow> books" where
  "noteMissedCall e i peerJID bk =
     (case callConversation e i peerJID bk of
        (None, bk1) \<Rightarrow> bk1
      | (Some (c, conv, phone), db1, log1) \<Rightarrow>
          (db1, snd (postTextNote (ce_net e) c conv
             ([CHR 0xF0, CHR 0x9F, CHR 0x93, CHR 0x9E] @ '' Llamada perdida de '' @ phone @ middle_dot @ ce_text_time e) log1)))"

section \<open>From Chatwoot to WhatsApp\<close>

record cwAttachment =
  at_DataURL :: string
  at_FileType :: string

record chatwootWebhookPayload =
  wp_Event :: string
  wp_MessageType :: string
  wp_Content :: string
  wp_Private :: bool
  wp_SourceID :: string
  wp_Attachments :: "cwAttachment list"
  wp_PhoneNumber :: string
  wp_Identifier :: string
  wp_CustomAttributes :: "(string \<times> json) list"

text \<open>The body of a webhook, as it is decoded.\<close>

definition dec_sender :: "string \<Rightarrow> (json \<Rightarrow> 'a option) \<Rightarrow> json \<Rightarrow> 'a option" where
  "dec_sender f d = dec_field ''conversation'' (dec_field ''meta'' (dec_field ''sender'' (dec_field f d)))"

definition dec_webhook :: "json \<Rightarrow> chatwootWebhookPayload option" where
  "dec_webhook j =
     (case (dec_field ''event'' dec_string j, dec_field ''message_type'' dec_string j, dec_field ''content'' dec_string j,
            dec_field ''private'' dec_bool j, dec_field ''source_id'' dec_string j) of
        (Some event, Some mt, Some content, Some private, Some source) \<Rightarrow>
          (case (dec_field ''attachments'' (dec_list (dec_both (dec_field ''data_url'' dec_string) (dec_field ''file_type'' dec_string))) j,
                 dec_sender ''phone_number'' dec_string j, dec_sender ''identifier'' dec_string j,
                 dec_sender ''custom_attributes'' dec_map j) of
             (Some atts, Some phone, Some ident, Some attrs) \<Rightarrow>
               Some \<lparr>wp_Event = event, wp_MessageType = mt, wp_Content = content, wp_Private = private, wp_SourceID = source,
                 wp_Attachments = map (\<lambda>(u, t). \<lparr>at_DataURL = u, at_FileType = t\<rparr>) atts, wp_PhoneNumber = phone,
                 wp_Identifier = ident, wp_CustomAttributes = attrs\<rparr>
           | _ \<Rightarrow> None)
      | _ \<Rightarrow> None)"

definition shouldRelay :: "chatwootWebhookPayload \<Rightarrow> bool" where
  "shouldRelay p \<longleftrightarrow> wp_Event p = ''message_created'' \<and> wp_MessageType p = ''outgoing'' \<and> \<not> wp_Private p \<and> wp_SourceID p = ''''"

text \<open>In a map of the attributes the last entry of a key counts.\<close>

definition webhookChatID :: "chatwootWebhookPayload \<Rightarrow> string" where
  "webhookChatID p =
     (let fallback = (if CHR ''@'' \<in> set (wp_Identifier p) then wp_Identifier p else TrimPrefix ''+'' (wp_PhoneNumber p)) in
      case map_of (rev (wp_CustomAttributes p)) cwChatIDAttr of
        Some (JString v) \<Rightarrow> if v \<noteq> '''' then v else fallback
      | _ \<Rightarrow> fallback)"

text \<open>The session and the messages sent to WhatsApp.\<close>

type_synonym ('j, 'c, 'p) outbox = "('j, 'c, 'p) Session \<times> ('j \<times> out_message) list"

datatype deliver_error = NoRecipient | DownloadFailed dl_error | UploadFailed | SendFailed

definition send_message ::
    "'j cw_env \<Rightarrow> 'j \<Rightarrow> out_message \<Rightarrow> ('j, 'c, 'p) outbox \<Rightarrow> (deliver_error + unit) \<times> ('j, 'c, 'p) outbox" where
  "send_message e jid msg ob =
     (case ob of (s, sent) \<Rightarrow>
       (case ce_SendMessage e sent jid msg of
          None \<Rightarrow> (Inl SendFailed, s, sent @ [(jid, msg)])
        | Some i \<Rightarrow> (Inr (), markSelfSent (ce_now e (length sent)) i s, sent @ [(jid, msg)])))"

definition chatwootFileTypeToMedia :: "string \<Rightarrow> media_type" where
  "chatwootFileTypeToMedia t =
     (if t = ''image'' then MediaImage else if t = ''video'' then MediaVideo else if t = ''audio'' then MediaAudio else MediaDocument)"

definition optString :: "string \<Rightarrow> string option" where
  "optString s = (if s = '''' then None else Some s)"

definition buildOutgoingMedia :: "string \<Rightarrow> string \<Rightarrow> string \<Rightarrow> string \<Rightarrow> nat \<Rightarrow> UploadResponse \<Rightarrow> out_message" where
  "buildOutgoingMedia fileType mimetype filename caption fileSize up =
     (let om = \<lparr>om_Caption = optString caption, om_Mimetype = mimetype, om_FileName = None, om_Upload = up, om_FileLength = fileSize\<rparr> in
      if fileType = ''image'' then ImageOut om
      else if fileType = ''video'' then VideoOut om
      else if fileType = ''audio'' then AudioOut (om\<lparr>om_Caption := None\<rparr>)
      else DocumentOut (om\<lparr>om_FileName := Some filename\<rparr>))"

definition sendChatwootAttachment ::
    "'j cw_env \<Rightarrow> 'j \<Rightarrow> cwAttachment \<Rightarrow> string \<Rightarrow> ('j, 'c, 'p) outbox \<Rightarrow> (deliver_error + unit) \<times> ('j, 'c, 'p) outbox" where
  "sendChatwootAttachment e jid att caption ob =
     (case fst (downloadURL (ce_dl e) (ce_hops e (at_DataURL att)) (at_DataURL att)) of
        Inl err \<Rightarrow> (Inl (DownloadFailed err), ob)
      | Inr (data, ctype, filename) \<Rightarrow>
          let mimetype = firstNonEmpty [ctype, ''application/octet-stream''] in
          (case ce_Upload e data (chatwootFileTypeToMedia (at_FileType att)) of
             None \<Rightarrow> (Inl UploadFailed, ob)
           | Some up \<Rightarrow>
               send_message e jid (buildOutgoingMedia (at_FileType att) mimetype filename caption (length data) up) ob))"

text \<open>The attachments in order, up to the first that fails.\<close>

fun send_attachments ::
    "'j cw_env \<Rightarrow> 'j \<Rightarrow> (cwAttachment \<times> string) list \<Rightarrow> ('j, 'c, 'p) outbox \<Rightarrow> (deliver_error + unit) \<times> ('j, 'c, 'p) outbox" where
  "send_attachments e jid [] ob = (Inr (), ob)"
| "send_attachments e jid ((att, caption) # rest) ob =
     (case sendChatwootAttachment e jid att caption ob of
        (Inl err, ob1) \<Rightarrow> (Inl err, ob1)
      | (Inr _, ob1) \<Rightarrow> send_attachments e jid rest ob1)"

text \<open>The text goes with the first attachment.\<close>

definition captioned :: "string \<Rightarrow> cwAttachment list \<Rightarrow> (cwAttachment \<times> string) list" where
  "captioned content atts = (case atts of [] \<Rightarrow> [] | a # rest \<Rightarrow> (a, content) # map (\<lambda>b. (b, '''')) rest)"

definition deliverToWhatsApp ::
    "'j cw_env \<Rightarrow> chatwootWebhookPayload \<Rightarrow> ('j, 'c, 'p) outbox \<Rightarrow> (deliver_error + unit) \<times> ('j, 'c, 'p) outbox" where
  "deliverToWhatsApp e p ob =
     (if \<not> shouldRelay p then (Inr (), ob)
      else let content = chatwootToWhatsApp (wp_Content p); hasText = (TrimSpace content \<noteq> '''') in
        if wp_Attachments p = [] \<and> \<not> hasText then (Inr (), ob)
        else (case resolveRecipient (ce_J e) (webhookChatID p) of
                None \<Rightarrow> (Inl NoRecipient, ob)
              | Some jid \<Rightarrow>
                  if wp_Attachments p \<noteq> [] then
                    send_attachments e jid (captioned (if hasText then content else '''') (wp_Attachments p)) ob
                  else send_message e jid (TextOut content) ob))"

section \<open>Handlers\<close>

type_synonym http_reply = "nat \<times> json"

definition error_reply :: "nat \<Rightarrow> string \<Rightarrow> http_reply" where
  "error_reply code msg = (code, JObject [(''error'', JString msg)])"

definition secretMatches :: "string \<Rightarrow> string \<Rightarrow> bool" where
  "secretMatches got want \<longleftrightarrow> want \<noteq> '''' \<and> got = want"

definition redactChatwoot :: "ChatwootConfig \<Rightarrow> ChatwootConfig" where
  "redactChatwoot c = (if cw_AccountToken c \<noteq> '''' then c\<lparr>cw_AccountToken := ''''\<rparr> else c)"

text \<open>A configuration as JSON, in and out; the secret is not part of it.\<close>

definition enc_config :: "ChatwootConfig \<Rightarrow> json" where
  "enc_config c = JObject [(''url'', JString (cw_URL c)), (''account_id'', JInt (cw_AccountID c)),
     (''account_token'', JString (cw_AccountToken c)), (''inbox_id'', JInt (cw_InboxID c)),
     (''inbox_identifier'', JString (cw_InboxIdentifier c))]"

definition dec_config :: "json \<Rightarrow> ChatwootConfig option" where
  "dec_config j =
     (case (dec_field ''url'' dec_string j, dec_field ''account_id'' dec_int j, dec_field ''account_token'' dec_string j,
            dec_field ''inbox_id'' dec_int j, dec_field ''inbox_identifier'' dec_string j) of
        (Some url, Some account, Some token, Some inbox, Some ident) \<Rightarrow>
          Some \<lparr>cw_URL = url, cw_AccountID = account, cw_AccountToken = token, cw_InboxID = inbox, cw_InboxIdentifier = ident,
            cw_WebhookSecret = ''''\<rparr>
      | _ \<Rightarrow> None)"

definition webhookHintPath :: "string \<Rightarrow> string" where
  "webhookHintPath sid = ''/api/sessions/'' @ sid @ ''/chatwoot/webhook''"

definition webhookHint :: "string \<Rightarrow> string \<Rightarrow> string" where
  "webhookHint sid secret = webhookHintPath sid @ (if secret \<noteq> '''' then ''?secret='' @ secret else '''')"

text \<open>\<open>up\<close> are the statements of the upsert, \<open>ce_config_up\<close> that of the read behind it; \<open>draw\<close> the random bytes of a secret.\<close>

definition handleSetChatwoot ::
    "'j cw_env \<Rightarrow> faults \<Rightarrow> bytes \<Rightarrow> string \<Rightarrow> json option \<Rightarrow> ('j, 'c, 'p) mgr \<Rightarrow> http_reply \<times> ('j, 'c, 'p) mgr" where
  "handleSetChatwoot e up draw sid body m =
     (case Get sid m of
        None \<Rightarrow> (error_reply 404 ''no such session'', m)
      | Some s \<Rightarrow>
          (case decoded dec_config body of
             None \<Rightarrow> (error_reply 400 ''invalid json'', m)
           | Some c \<Rightarrow>
               if \<not> cw_valid c then (error_reply 400 ''url, account_id, account_token e inbox_id son obligatorios'', m)
               else (case setChatwoot up draw (se_id s) c (sm_store m) of
                       (Inl err, db) \<Rightarrow> (error_reply 500 err, m\<lparr>sm_store := db\<rparr>)
                     | (Inr _, db) \<Rightarrow>
                         let applied = fst (getChatwoot (ce_config_up e) (se_id s) db)
                         in ((200, JObject [(''chatwoot'', enc_config (redactChatwoot c)), (''enabled'', JBool True),
                               (''webhook_url'', JString (webhookHint (se_id s) (cw_WebhookSecret applied)))]),
                             m\<lparr>sm_store := db\<rparr>))))"

definition handleGetChatwoot :: "'j cw_env \<Rightarrow> string \<Rightarrow> ('j, 'c, 'p) mgr \<Rightarrow> http_reply" where
  "handleGetChatwoot e sid m =
     (case Get sid m of
        None \<Rightarrow> error_reply 404 ''no such session''
      | Some s \<Rightarrow>
          (case getChatwoot (ce_config_up e) (se_id s) (sm_store m) of (c, ok) \<Rightarrow>
             (200, JObject [(''chatwoot'', enc_config (redactChatwoot c)), (''enabled'', JBool ok)])))"

definition handleDeleteChatwoot :: "faults \<Rightarrow> string \<Rightarrow> ('j, 'c, 'p) mgr \<Rightarrow> http_reply \<times> ('j, 'c, 'p) mgr" where
  "handleDeleteChatwoot up sid m =
     (case Get sid m of
        None \<Rightarrow> (error_reply 404 ''no such session'', m)
      | Some s \<Rightarrow>
          (case deleteChatwoot up (se_id s) (sm_store m) of
             (Inl err, db) \<Rightarrow> (error_reply 500 err, m\<lparr>sm_store := db\<rparr>)
           | (Inr _, db) \<Rightarrow> ((204, JNull), m\<lparr>sm_store := db\<rparr>)))"

text \<open>\<open>secret\<close> is the one of the query; the reply is 200 whether the delivery succeeds or not.\<close>

definition handleChatwootWebhook ::
    "'j cw_env \<Rightarrow> string \<Rightarrow> string \<Rightarrow> json option \<Rightarrow> ('j, 'c, 'p) mgr \<times> ('j \<times> out_message) list
     \<Rightarrow> http_reply \<times> ('j, 'c, 'p) mgr \<times> ('j \<times> out_message) list" where
  "handleChatwootWebhook e sid secret body st =
     (case st of (m, sent) \<Rightarrow>
       (case Get sid m of
          None \<Rightarrow> (error_reply 404 ''no such session'', st)
        | Some s \<Rightarrow>
            (case getChatwoot (ce_config_up e) (se_id s) (sm_store m) of (c, ok) \<Rightarrow>
              if \<not> ok \<or> cw_WebhookSecret c = '''' then (error_reply 401 ''unauthorized'', st)
              else if \<not> secretMatches secret (cw_WebhookSecret c) then (error_reply 401 ''unauthorized'', st)
              else (case decoded dec_webhook body of
                      None \<Rightarrow> (error_reply 400 ''invalid json'', st)
                    | Some p \<Rightarrow>
                        if se_jid s = '''' then ((200, JObject [(''status'', JString ''session not paired'')]), st)
                        else (case snd (deliverToWhatsApp e p (s, sent)) of (s1, sent1) \<Rightarrow>
                          ((200, JObject [(''status'', JString ''ok'')]), at_session sid (\<lambda>_. s1) m, sent1))))))"

text \<open>The configurations of an account, tried in turn.\<close>

fun resolve_configs ::
    "cw_net \<Rightarrow> int \<Rightarrow> ('j, 'c, 'p) mgr \<Rightarrow> (string \<times> ChatwootConfig) list \<Rightarrow> http_call list \<Rightarrow> http_reply \<times> http_call list" where
  "resolve_configs net convID m [] log = (error_reply 404 (''sin sesi'' @ o_acute @ ''n para esa conversaci'' @ o_acute @ ''n''), log)"
| "resolve_configs net convID m ((sid, c) # rest) log =
     (if Get sid m = None then resolve_configs net convID m rest log
      else (case getConversation net c convID log of
              (Inl err, log1) \<Rightarrow> resolve_configs net convID m rest log1
            | (Inr (inbox, phone, name), log1) \<Rightarrow>
                if inbox \<noteq> cw_InboxID c then resolve_configs net convID m rest log1
                else let digits = onlyDigits phone in
                  if digits = '''' then (error_reply 422 (''el contacto no tiene tel'' @ e_acute @ ''fono''), log1)
                  else ((200, JObject [(''session_id'', JString sid), (''inbox_id'', JInt inbox), (''phone'', JString digits),
                          (''name'', JString name)]), log1)))"

text \<open>\<open>accountQ\<close> and \<open>convQ\<close> are the parameters of the query.\<close>

definition handleChatwootResolve ::
    "'j cw_env \<Rightarrow> string \<Rightarrow> string \<Rightarrow> ('j, 'c, 'p) mgr \<Rightarrow> http_call list \<Rightarrow> http_reply \<times> http_call list" where
  "handleChatwootResolve e accountQ convQ m log =
     (let accountID = Atoi accountQ; convID = Atoi convQ in
      if accountID = 0 \<or> convID = 0 then (error_reply 400 ''account_id y conversation_id requeridos'', log)
      else (case configsByAccount (ce_config_up e) accountID (sm_store m) of
              Inl err \<Rightarrow> (error_reply 500 err, log)
            | Inr configs \<Rightarrow>
                if configs = [] then (error_reply 404 (''sin sesi'' @ o_acute @ ''n para esa cuenta de Chatwoot''), log)
                else resolve_configs (ce_net e) convID m configs log))"

definition handleSetRecording :: "faults \<Rightarrow> string \<Rightarrow> bool option \<Rightarrow> ('j, 'c, 'p) mgr \<Rightarrow> http_reply \<times> ('j, 'c, 'p) mgr" where
  "handleSetRecording up sid enabled m =
     (case Get sid m of
        None \<Rightarrow> (error_reply 404 ''no such session'', m)
      | Some s \<Rightarrow>
          (case enabled of
             None \<Rightarrow> (error_reply 400 ''enabled requerido'', m)
           | Some b \<Rightarrow>
               (case setRecording up (se_id s) b (sm_store m) of
                  (Inl err, db) \<Rightarrow> (error_reply 500 err, m\<lparr>sm_store := db\<rparr>)
                | (Inr _, db) \<Rightarrow> ((200, JObject [(''enabled'', JBool b)]), m\<lparr>sm_store := db\<rparr>))))"

definition handleGetRecording :: "bool \<Rightarrow> string \<Rightarrow> ('j, 'c, 'p) mgr \<Rightarrow> http_reply" where
  "handleGetRecording up sid m =
     (case Get sid m of
        None \<Rightarrow> error_reply 404 ''no such session''
      | Some s \<Rightarrow> (200, JObject [(''enabled'', JBool (getRecording up (se_id s) (sm_store m)))]))"

end
