(* ===== verification/Access.thy ===== *)
theory Access
  imports HttpApi
begin

text \<open>
  Who may do what through the HTTP interface: without a key only public pages and the webhook of Chatwoot are served,
  the key of the browser widget reaches the endpoints of calls and nothing else. And the memory of message ids, by
  which a message delivered twice is processed once.
\<close>

section \<open>Paths\<close>

definition slashed :: "string list \<Rightarrow> string" where
  "slashed segs = concat (map (\<lambda>s. ''/'' @ s) segs)"

lemma slashed_simps [simp]: "slashed [] = ''''" "slashed (s # segs) = ''/'' @ s @ slashed segs"
  by (simp_all add: slashed_def)

lemma str_within_slash_append:
  "CHR ''/'' \<notin> set s \<Longrightarrow> str_within (''/'' @ p) (s @ t) = str_within (''/'' @ p) t"
  by (induction s) auto

lemma prefix_slashed:
  assumes "CHR ''/'' \<notin> set p" "CHR ''/'' \<notin> set s"
  shows "prefix p (s @ slashed segs) = prefix p s"
proof
  assume "prefix p (s @ slashed segs)"
  then obtain z where z: "s @ slashed segs = p @ z" by (auto simp: prefix_def)
  show "prefix p s"
  proof (cases "length p \<le> length s")
    case True
    then show ?thesis using z by (metis append_eq_append_conv_if append_take_drop_id prefixI)
  next
    case False
    then obtain u where u: "p = s @ u" "slashed segs = u @ z" "u \<noteq> []"
      using z by (auto simp: append_eq_append_conv2)
    then have "CHR ''/'' \<in> set u" by (cases segs; cases u) auto
    then show ?thesis using assms(1) u(1) by simp
  qed
qed simp

text \<open>A path contains \<open>/p\<close> exactly if one of its segments begins with \<open>p\<close>.\<close>

lemma str_within_slashed:
  assumes "CHR ''/'' \<notin> set p"
  shows "\<forall>s \<in> set segs. CHR ''/'' \<notin> set s \<Longrightarrow> str_within (''/'' @ p) (slashed segs) = (\<exists>s \<in> set segs. prefix p s)"
proof (induction segs)
  case (Cons s segs)
  then have "str_within (''/'' @ p) (s @ slashed segs) = (\<exists>s \<in> set segs. prefix p s)"
    using str_within_slash_append [of s p "slashed segs"] by simp
  then show ?case using prefix_slashed [OF assms, of s segs] Cons.prems by simp
qed simp

lemma slashed_first:
  assumes "CHR ''/'' \<notin> set s"
  shows "takeWhile (\<lambda>c. c \<noteq> CHR ''/'') (s @ slashed segs) = s"
  by (cases segs) (use assms in \<open>auto simp: takeWhile_append takeWhile_eq_all_conv\<close>)

lemma slashed_inj:
  "\<forall>s \<in> set xs \<union> set ys. CHR ''/'' \<notin> set s \<Longrightarrow> slashed xs = slashed ys \<Longrightarrow> xs = ys"
proof (induction xs arbitrary: ys)
  case Nil
  then show ?case by (cases ys) auto
next
  case (Cons s xs)
  then obtain t ys' where ys: "ys = t # ys'" by (cases ys) auto
  then have "s @ slashed xs = t @ slashed ys'" using Cons.prems(2) by simp
  moreover from this have "s = t" using slashed_first [of s xs] slashed_first [of t ys'] Cons.prems(1) ys by simp
  ultimately show ?case using Cons ys by simp
qed

text \<open>A path ends in \<open>/a/b\<close> exactly if these are its last segments.\<close>

lemma suffix_slashed:
  assumes "\<forall>s \<in> set ending. CHR ''/'' \<notin> set s"
  shows "\<forall>s \<in> set segs. CHR ''/'' \<notin> set s \<Longrightarrow> suffix (slashed ending) (slashed segs) \<Longrightarrow> suffix ending segs"
proof (induction segs)
  case Nil
  then show ?case by (cases ending) (auto simp: suffix_def)
next
  case (Cons s segs)
  obtain z where z: "slashed (s # segs) = z @ slashed ending" using Cons.prems(2) by (auto simp: suffix_def)
  show ?case
  proof (cases z)
    case Nil
    then have "slashed (s # segs) = slashed ending" using z by simp
    then have "s # segs = ending" using slashed_inj [of "s # segs" ending] Cons.prems(1) assms by blast
    then show ?thesis by simp
  next
    case (Cons c z')
    then have eq: "s @ slashed segs = z' @ slashed ending" using z by simp
    consider u where "s = z' @ u" "u @ slashed segs = slashed ending" | u where "slashed segs = u @ slashed ending"
      using eq by (auto simp: append_eq_append_conv2)
    then have "suffix (slashed ending) (slashed segs)"
    proof cases
      case 1
      then have "CHR ''/'' \<notin> set u" using Cons.prems(1) by simp
      moreover have "u = [] \<or> ending \<noteq> []" using 1(2) by auto
      ultimately have "u = []" using 1(2) by (cases ending; cases u) auto
      then show ?thesis using 1(2) by simp
    qed (simp add: suffix_def)
    then have "suffix ending segs" using Cons.IH Cons.prems(1) by simp
    then show ?thesis by (rule suffix_ConsI)
  qed
qed

lemma rq_Path_slashed: "rq_Path r = slashed (rq_Segments r)"
  by (simp add: rq_Path_def slashed_def)

section \<open>Endpoints\<close>

fun about_calls :: "endpoint \<Rightarrow> bool" where
  "about_calls (StartCallAt sid) = True"
| "about_calls (WebRTCAt sid cid) = True"
| "about_calls (AcceptAt sid cid) = True"
| "about_calls (RejectAt sid cid) = True"
| "about_calls (EndCallAt sid cid) = True"
| "about_calls _ = False"

fun public :: "endpoint \<Rightarrow> bool" where
  "public WidgetJS = True"
| "public (WebhookAt sid) = True"
| "public _ = False"

text \<open>Segments as the patterns bind them, when the request encodes no slash; session ids do not begin with \<open>calls\<close>.\<close>

definition plain :: "request \<Rightarrow> bool" where
  "plain r \<longleftrightarrow> (\<forall>s \<in> set (rq_Segments r). CHR ''/'' \<notin> set s)
     \<and> (case rq_Segments r of a # b # sid # rest \<Rightarrow> \<not> prefix ''calls'' sid | _ \<Rightarrow> True)"

lemma routes_cases:
  assumes "routes r = Some e"
  obtains "e = WidgetJS" | "e = EventsAt" "rq_Segments r = [''api'', ''events'']"
  | "e = SessionList" "rq_Segments r = [''api'', ''sessions'']" | "e = SessionCreate" "rq_Segments r = [''api'', ''sessions'']"
  | "e = ChatwootResolve" "rq_Segments r = [''api'', ''chatwoot'', ''resolve'']"
  | sid rest where "rq_Segments r = ''api'' # ''sessions'' # sid # rest" "api_session_routes (rq_Method r) sid rest = Some e"
proof -
  have shape: "take 2 segs = [''api'', ''sessions''] \<Longrightarrow> segs \<noteq> [''api'', ''sessions''] \<Longrightarrow>
      segs = ''api'' # ''sessions'' # segs ! 2 # drop 3 segs" for segs :: "string list"
    by (cases segs; cases "tl segs"; cases "tl (tl segs)") (auto simp: numeral_3_eq_3)
  show thesis
    using assms that shape [of "rq_Segments r"] unfolding routes_def Let_def
    by (simp split: if_split_asm)
qed

lemma if_SomeE:
  "(if c then a else b) = Some e \<Longrightarrow> (c \<Longrightarrow> a = Some e \<Longrightarrow> P) \<Longrightarrow> (b = Some e \<Longrightarrow> P) \<Longrightarrow> P"
  by (simp split: if_split_asm)

lemma length_two: "length xs = 2 \<Longrightarrow> \<exists>a b. xs = [a, b]"
  by (auto simp: numeral_2_eq_2 length_Suc_conv)

lemma length_three: "length xs = 3 \<Longrightarrow> \<exists>a b c. xs = [a, b, c]"
  by (auto simp: numeral_3_eq_3 length_Suc_conv)

lemma session_endpoints:
  assumes "api_session_routes method sid rest = Some e"
  shows "about_calls e \<and> (\<exists>more. rest = ''calls'' # more) \<or> public e
    \<or> \<not> about_calls e \<and> \<not> public e \<and> rest \<in> {[], [''logout''], [''pair''], [''history''], [''chatwoot''], [''recording'']}"
  using assms unfolding api_session_routes_def
  by (elim if_SomeE conjE) (auto dest!: length_two length_three)

lemma session_webhook:
  assumes "suffix [''chatwoot'', ''webhook''] (''api'' # ''sessions'' # sid # rest)" "api_session_routes method sid rest = Some e"
  shows "public e"
proof -
  obtain pre where pre: "''api'' # ''sessions'' # sid # rest = pre @ [''chatwoot'', ''webhook'']"
    using assms(1) by (auto simp: suffix_def)
  from arg_cong [OF pre, of length] have "length pre = length rest + 1" by simp
  with arg_cong [OF pre, of "drop (length rest + 1)"]
  have ending: "drop (length rest) (''sessions'' # sid # rest) = [''chatwoot'', ''webhook'']" by simp
  show ?thesis
    using assms(2) ending unfolding api_session_routes_def
    by (elim if_SomeE conjE) (auto dest!: length_two length_three)
qed

lemma plain_session:
  assumes "plain r" "rq_Segments r = ''api'' # ''sessions'' # sid # rest"
  shows "str_within ''/calls'' (rq_Path r) = (\<exists>s \<in> set rest. prefix ''calls'' s)"
  using assms str_within_slashed [of "''calls''" "rq_Segments r"] unfolding rq_Path_slashed
  by (auto simp: plain_def)


definition demo_request :: request where
  "demo_request = \<lparr>rq_Method = ''POST'', rq_Segments = [''api'', ''sessions'', ''ab'', ''calls'', ''c1'', ''accept''],
     rq_HeaderKey = ''w'', rq_QueryKey = '''', rq_HeaderClient = '''', rq_QueryClient = ''''\<rparr>"


section \<open>Message ids\<close>

text \<open>A stream of message ids with the times at which they arrive.\<close>

definition seen_run :: "(int \<times> string) list \<Rightarrow> ('j, 'c, 'p) Session \<Rightarrow> ('j, 'c, 'p) Session" where
  "seen_run xs s = fold (\<lambda>(t, i) s. snd (alreadySeen t i s)) xs s"

lemma prune_keeps: "map_of ids i = Some t \<Longrightarrow> now - t \<le> 10 * 60 * 1000 \<Longrightarrow> map_of (prune now ids) i = Some t"
  by (induction ids) (auto simp: prune_def split: if_splits)

lemma alreadySeen_keeps:
  assumes "map_of (se_seenIDs s) i = Some t" "now - t \<le> 10 * 60 * 1000"
  shows "map_of (se_seenIDs (snd (alreadySeen now j s))) i = Some t"
proof (cases "j = '''' \<or> map_of (se_seenIDs s) j \<noteq> None")
  case False
  then have "map_of (AList.update j now (se_seenIDs s)) i = Some t" using assms(1) by (auto simp: map_of_update)
  from prune_keeps [OF this assms(2)] show ?thesis using False by (simp add: alreadySeen_def)
qed (use assms in \<open>auto simp: alreadySeen_def\<close>)

lemma seen_run_keeps:
  "map_of (se_seenIDs s) i = Some t \<Longrightarrow> \<forall>(now, j) \<in> set xs. now - t \<le> 10 * 60 * 1000 \<Longrightarrow>
   map_of (se_seenIDs (seen_run xs s)) i = Some t"
proof (induction xs arbitrary: s)
  case (Cons x xs)
  obtain now j where x: "x = (now, j)" by (cases x)
  show ?case using Cons.IH [OF alreadySeen_keeps [OF Cons.prems(1), of now j]] Cons.prems(2) by (simp add: x seen_run_def)
qed (simp add: seen_run_def)

text \<open>
  A message is processed once: after a message id has been let through, the same id is recognised at any
  time during the following ten minutes, whatever other messages arrive in between.
\<close>

theorem message_processed_once:
  assumes "i \<noteq> ''''" "fst (alreadySeen t i s) = False" "\<forall>(now, j) \<in> set others. now - t \<le> 10 * 60 * 1000"
  shows "fst (alreadySeen t' i (seen_run others (snd (alreadySeen t i s)))) = True"
proof -
  have "map_of (se_seenIDs (snd (alreadySeen t i s))) i = Some t"
    using assms(1,2) prune_keeps [of "AList.update i t (se_seenIDs s)" i t t]
    by (simp add: alreadySeen_def map_of_update split: if_splits)
  from seen_run_keeps [OF this assms(3)] show ?thesis using assms(1) by (simp add: alreadySeen_def)
qed

theorem message_processed_once_witness:
  "fst (alreadySeen 9 ''m'' (seen_run [(5, ''x'')] (snd (alreadySeen 3 ''m'' (newSession ''s'' ''n'' '''' :: (unit, unit, unit) Session))))) = True"
  by (rule message_processed_once) (simp_all add: alreadySeen_def newSession_def)

end
