(* ===== verification/ChatwootClaims.thy ===== *)
theory ChatwootClaims
  imports Chatwoot Access
begin

text \<open>
  What the bridge to Chatwoot guarantees: no message goes round in circles, a chat has one conversation, a redelivered
  message is posted once, a webhook needs its secret, and the secrets stay in the server. The calls that an operation
  makes are split into those that post a message and the others.
\<close>

section \<open>Calls\<close>

text \<open>The fields of a posted message, in both encodings of the body.\<close>

fun message_type :: "http_body \<Rightarrow> string option" where
  "message_type (JsonBody (JObject kv)) = (case map_of kv ''message_type'' of Some (JString t) \<Rightarrow> Some t | _ \<Rightarrow> None)"
| "message_type (Multipart parts name mt data) = map_of parts ''message_type''"
| "message_type _ = None"

fun private_body :: "http_body \<Rightarrow> bool" where
  "private_body (JsonBody (JObject kv)) = (map_of kv ''private'' = Some (JBool True))"
| "private_body (Multipart parts name mt data) = (map_of parts ''private'' = Some ''true'')"
| "private_body _ = False"

fun body_source :: "http_body \<Rightarrow> string" where
  "body_source (JsonBody (JObject kv)) = (case map_of kv ''source_id'' of Some (JString t) \<Rightarrow> t | _ \<Rightarrow> '''')"
| "body_source _ = ''''"

definition is_message :: "http_call \<Rightarrow> bool" where
  "is_message q \<longleftrightarrow> message_type (hq_Body q) \<noteq> None"

text \<open>A webhook that tells of a posted message.\<close>

definition reports :: "chatwootWebhookPayload \<Rightarrow> http_call \<Rightarrow> bool" where
  "reports p q \<longleftrightarrow> message_type (hq_Body q) = Some (wp_MessageType p) \<and> wp_Private p = private_body (hq_Body q)
     \<and> wp_SourceID p = body_source (hq_Body q)"

definition quiet :: "http_call list \<Rightarrow> http_call list \<Rightarrow> bool" where
  "quiet log log1 \<longleftrightarrow> (\<exists>cs. log1 = log @ cs \<and> (\<forall>q\<in>set cs. \<not> is_message q))"

lemma quiet_refl [simp]: "quiet log log"
  by (simp add: quiet_def)

lemma quiet_trans: "quiet l1 l2 \<Longrightarrow> quiet l2 l3 \<Longrightarrow> quiet l1 l3"
  unfolding quiet_def by (metis (no_types, lifting) Un_iff append.assoc set_append)

lemma quiet_req: "message_type body = None \<Longrightarrow> quiet log (snd (req net c method path body log))"
  by (auto simp: req_def cw_call_def Let_def quiet_def is_message_def)

lemma quiet_answered:
  assumes "quiet log (snd r)" "\<And>code data l. quiet l (snd (f code data l))"
  shows "quiet log (snd (answered r f))"
  using assms quiet_trans by (fastforce simp: answered_def split: sum.split prod.split)

lemma quiet_search: "quiet log (snd (searchContact net c phone chatID log))"
  using quiet_req [of NoBody log net c "''GET''" "''/contacts/search?q='' @ QueryEscape (if phone = '''' then chatID else phone)"]
  by (auto simp: searchContact_def Let_def split: sum.split prod.split option.split)

lemma quiet_contact: "quiet log (snd (ensureContact net c chatID phone name avatar log))"
proof (cases "searchContact net c phone chatID log")
  case (Pair found log1)
  have "quiet log1 (snd (ensureContact net c chatID phone name avatar log))"
    unfolding ensureContact_def Pair
    by (auto intro!: quiet_answered quiet_req simp: contact_payload_def split: option.split)
  then show ?thesis using quiet_search [of log net c phone chatID] quiet_trans by (fastforce simp: Pair)
qed

lemma quiet_source: "quiet log (snd (ensureSourceID net c contactID log))"
proof -
  have "quiet l (snd (getSourceID net c contactID l))" for l
    unfolding getSourceID_def by (intro quiet_answered quiet_req) (auto split: option.split)
  then show ?thesis unfolding ensureSourceID_def by (intro quiet_answered quiet_req) (auto split: option.split)
qed

lemma quiet_open: "quiet log (snd (findOpenConversation net c contactID log))"
  using quiet_req [of NoBody log net c "''GET''" "contact_path contactID ''/conversations''"]
  by (auto simp: findOpenConversation_def split: sum.split prod.split option.split)

lemma quiet_create: "quiet log (snd (createConversation net c sourceID log))"
  unfolding createConversation_def by (intro quiet_answered quiet_req) (auto split: option.split)

lemmas quiet_calls = quiet_contact quiet_source quiet_open quiet_create

section \<open>The conversation of a chat\<close>

definition conv_of :: "sessionStore \<Rightarrow> string \<times> string \<Rightarrow> int" where
  "conv_of db k = (case conversation_of db k of None \<Rightarrow> 0 | Some r \<Rightarrow> cv_ConversationID r)"

lemma lookup_conv: "lookupConversation up i chat db = (if up then Inr (conv_of db (i, chat)) else Inl sql_error)"
  by (simp add: lookupConversation_def conv_of_def conversation_of_def)

lemma saved_conv:
  "saveConversation up i chat contact source conv db = (Inr (), db1) \<Longrightarrow> conv_of db1 (i, chat) = conv \<and> config_of db1 = config_of db"
  by (auto simp: saveConversation_def exec_def conv_of_def conversations.get_put split: if_splits)

lemma save_failed: "saveConversation up i chat contact source conv db = (Inl err, db1) \<Longrightarrow> db1 = db"
  by (auto simp: saveConversation_def exec_def split: if_splits)

lemma ensure_conversation:
  assumes "ensureChatwootConversation e i c chatID phone name avatar (db, log) = (r, db1, log1)"
  shows "quiet log log1" "\<And>conv. r = Inr conv \<Longrightarrow> conv_of db1 (i, chatID) = conv" "config_of db1 = config_of db"
    "\<And>err. r = Inl err \<Longrightarrow> db1 = db"
proof -
  obtain rc l1 where contact: "ensureContact (ce_net e) c chatID phone name avatar log = (rc, l1)" by (cases "ensureContact (ce_net e) c chatID phone name avatar log")
  then have q1: "quiet log l1" using quiet_contact [of log "ce_net e" c chatID phone name avatar] by simp
  have "quiet log log1 \<and> (\<forall>conv. r = Inr conv \<longrightarrow> conv_of db1 (i, chatID) = conv) \<and> config_of db1 = config_of db
      \<and> (\<forall>err. r = Inl err \<longrightarrow> db1 = db)"
  proof (cases rc)
    case (Inl err)
    then show ?thesis using assms contact q1 by (auto simp: ensureChatwootConversation_def)
  next
    case (Inr a)
    obtain contactID source0 where a: "a = (contactID, source0)" by (cases a)
    define rs where "rs = (if source0 = '''' then ensureSourceID (ce_net e) c contactID l1 else (Inr source0, l1))"
    have q2: "quiet l1 (snd rs)" using quiet_source [of l1 "ce_net e" c contactID] by (simp add: rs_def)
    show ?thesis
    proof (cases "fst rs")
      case (Inl err)
      then show ?thesis using assms contact \<open>rc = Inr a\<close> quiet_trans [OF q1 q2]
        by (cases rs) (auto simp: ensureChatwootConversation_def a rs_def [symmetric])
    next
      case (Inr source)
      obtain found l3 where f: "findOpenConversation (ce_net e) c contactID (snd rs) = (found, l3)"
        by (cases "findOpenConversation (ce_net e) c contactID (snd rs)")
      have q3: "quiet (snd rs) l3" using quiet_open [of "snd rs" "ce_net e" c contactID] f by simp
      define rv where "rv = (if found = 0 then createConversation (ce_net e) c source l3 else (Inr found, l3))"
      have q4: "quiet l3 (snd rv)" using quiet_create [of l3 "ce_net e" c source] by (simp add: rv_def)
      have q: "quiet log (snd rv)" using q1 q2 q3 q4 quiet_trans by blast
      have step: "ensureChatwootConversation e i c chatID phone name avatar (db, log) =
          (case rv of (Inl err, log4) \<Rightarrow> (Inl err, db, log4)
           | (Inr conv, log4) \<Rightarrow> (case saveConversation (ce_save_up e) i chatID contactID source conv db of
                (Inl err, db1) \<Rightarrow> (Inl (DbError err), db1, log4) | (Inr _, db1) \<Rightarrow> (Inr conv, db1, log4)))"
        using contact \<open>rc = Inr a\<close> Inr f by (cases rs) (simp add: ensureChatwootConversation_def a rs_def [symmetric] rv_def)
      show ?thesis
        using assms q unfolding step
        by (cases rv) (auto dest: saved_conv save_failed split: sum.splits prod.splits)
    qed
  qed
  then show "quiet log log1" "\<And>conv. r = Inr conv \<Longrightarrow> conv_of db1 (i, chatID) = conv" "config_of db1 = config_of db"
    "\<And>err. r = Inl err \<Longrightarrow> db1 = db" by auto
qed

lemma chat_conversation_known:
  "ce_lookup_up e \<Longrightarrow> conv_of db (i, chatID) \<noteq> 0 \<Longrightarrow>
   chat_conversation e i c chatID phone name avatar (db, log) = (Inr (conv_of db (i, chatID)), db, log)"
  by (simp add: chat_conversation_def lookup_conv)

lemma chat_conversation_result:
  assumes "chat_conversation e i c chatID phone name avatar (db, log) = (r, db1, log1)"
  shows "quiet log log1" "\<And>conv. r = Inr conv \<Longrightarrow> conv_of db1 (i, chatID) = conv" "config_of db1 = config_of db"
  using assms ensure_conversation [of e i c chatID phone name avatar db log r db1 log1]
  by (auto simp: chat_conversation_def lookup_conv split: if_splits)

section \<open>What is posted\<close>

definition posts_to :: "ChatwootConfig \<Rightarrow> int \<Rightarrow> http_call \<Rightarrow> bool" where
  "posts_to c conv q \<longleftrightarrow> is_message q \<and> hq_Method q = ''POST'' \<and> hq_URL q = cw_base c @ messages_path conv
     \<and> hq_Token q = cw_AccountToken c"

text \<open>A message that Chatwoot does not take for one of an agent to the customer.\<close>

definition stays_inside :: "http_call \<Rightarrow> bool" where
  "stays_inside q \<longleftrightarrow> message_type (hq_Body q) = Some ''incoming'' \<or> private_body (hq_Body q)"

lemma stays_inside_not_relayed: "stays_inside q \<Longrightarrow> reports p q \<Longrightarrow> \<not> shouldRelay p"
  by (auto simp: stays_inside_def reports_def shouldRelay_def)

lemma snd_posted: "snd (posted (req net c method path body log)) = log @ [cw_call c method path body]"
  by (simp add: posted_def answered_def req_def Let_def split: option.split)

lemmas post_defs = postMessage_def postTextNote_def postPrivateNote_def postAttachment_def postMultipartMessage_def snd_posted

lemmas posted_simps = posts_to_def stays_inside_def is_message_def cw_call_def

definition one_post :: "ChatwootConfig \<Rightarrow> int \<Rightarrow> http_call list \<Rightarrow> http_call list \<Rightarrow> bool" where
  "one_post c conv log log1 \<longleftrightarrow> (\<exists>q. log1 = log @ [q] \<and> posts_to c conv q \<and> stays_inside q)"

lemma notes_post:
  "one_post c conv log (snd (postTextNote net c conv text log))"
  "one_post c conv log (snd (postPrivateNote net c conv text name mt data log))"
  "one_post c conv log (snd (postAttachment net c conv text name mt data ''incoming'' log))"
  "one_post c conv log (snd (postMessage net c conv text ''incoming'' source log))"
  by (simp_all add: one_post_def post_defs posted_simps)

lemma post_from_chat_post:
  "post_from_chat e c ev own pre media text conv log = log
   \<or> one_post c conv log (post_from_chat e c ev own pre media text conv log)"
  by (auto simp: post_from_chat_def Let_def notes_post split: option.split)

lemma handle_shape:
  assumes "handleIncomingMessage e ev (s, db, log) = (s1, db1, log1)"
  shows "(db1 = db \<and> log1 = log) \<or> (\<exists>c t r log'. config_of db (se_id s) = Some c \<and>
     chatTarget_of e ev (jid_Server (ce_J e) (ev_Chat ev) = GroupServer) (ev_IsFromMe ev) = Some t \<and>
     chat_conversation e (se_id s) c (ct_chatID t) (ct_phone t) (ct_name t) (ct_avatar t) (db, log) = (r, db1, log') \<and>
     (log1 = log' \<or> (\<exists>conv. r = Inr conv \<and> one_post c conv log' log1)))"
proof -
  obtain c ok where c: "getChatwoot (ce_config_up e) (se_id s) db = (c, ok)" by (cases "getChatwoot (ce_config_up e) (se_id s) db")
  obtain dup s2 where d: "alreadySeen (ce_now e 0) (ev_ID ev) s = (dup, s2)" by (cases "alreadySeen (ce_now e 0) (ev_ID ev) s")
  have conf: "ok \<Longrightarrow> config_of db (se_id s) = Some c"
    using c by (auto simp: getChatwoot_def config_of_def split: if_splits option.splits)
  show ?thesis
    using assms conf post_from_chat_post
    by (fastforce simp: handleIncomingMessage_def Let_def c d split: if_splits option.splits sum.splits prod.splits)
qed

text \<open>The calls made on behalf of a chat: none that posts, or one at the end, to the conversation of the chat.\<close>

lemma one_post_calls:
  assumes "quiet log log'" "log1 = log' \<or> (\<exists>conv. r = Inr conv \<and> one_post c conv log' log1)"
  shows "\<exists>calls. log1 = log @ calls \<and> (\<forall>q\<in>set calls. is_message q \<longrightarrow> (\<exists>conv. r = Inr conv \<and> posts_to c conv q) \<and> stays_inside q)"
proof -
  obtain cs where cs: "log' = log @ cs" "\<forall>q\<in>set cs. \<not> is_message q" using assms(1) by (auto simp: quiet_def)
  show ?thesis
    using assms(2)
  proof
    assume "log1 = log'"
    then show ?thesis using cs by blast
  next
    assume "\<exists>conv. r = Inr conv \<and> one_post c conv log' log1"
    then obtain conv q where q: "r = Inr conv" "log1 = log' @ [q]" "posts_to c conv q" "stays_inside q"
      by (auto simp: one_post_def)
    then show ?thesis using cs by (intro exI [of _ "cs @ [q]"]) auto
  qed
qed

definition careful :: "http_call list \<Rightarrow> http_call list \<Rightarrow> bool" where
  "careful log log1 \<longleftrightarrow> (\<exists>cs. log1 = log @ cs \<and> (\<forall>q\<in>set cs. is_message q \<longrightarrow> stays_inside q))"

lemma careful_quiet: "quiet log log1 \<Longrightarrow> careful log log1"
  unfolding careful_def quiet_def by blast

lemma careful_post: "quiet log log' \<Longrightarrow> one_post c conv log' log1 \<Longrightarrow> careful log log1"
  using one_post_calls [of log log' log1 "Inr conv :: cw_error + int" c] unfolding careful_def by blast

lemma callConversation_quiet:
  assumes "callConversation e i peer (db, log) = (x, db1, log1)"
  shows "quiet log log1"
proof -
  obtain c ok where c: "getChatwoot (ce_config_up e) i db = (c, ok)" by (cases "getChatwoot (ce_config_up e) i db")
  show ?thesis
  proof (cases "ok \<and> cw_valid c \<and> resolveRecipient (ce_J e) peer \<noteq> None")
    case True
    then obtain jid where "resolveRecipient (ce_J e) peer = Some jid" by auto
    then show ?thesis
      using assms True chat_conversation_result(1)
      by (auto simp: callConversation_def Let_def c split: if_splits sum.splits prod.splits)
  next
    case False
    then show ?thesis using assms by (auto simp: callConversation_def Let_def c split: option.splits)
  qed
qed

lemma notes_careful:
  "careful log (snd (noteMissedCall e i peer (db, log)))" "careful log (snd (finalizeRecording F e i rec peer (db, log)))"
proof -
  obtain x db1 log1 where x: "callConversation e i peer (db, log) = (x, db1, log1)" by (metis prod.collapse)
  note q = callConversation_quiet [OF x]
  show "careful log (snd (noteMissedCall e i peer (db, log)))"
    using careful_post [OF q notes_post(1)] careful_quiet [OF q]
    by (auto simp: noteMissedCall_def x split: option.split)
  show "careful log (snd (finalizeRecording F e i rec peer (db, log)))"
    using careful_post [OF q notes_post(2)] careful_quiet [OF q] careful_quiet [OF quiet_refl]
    by (auto simp: finalizeRecording_def x Let_def split: option.split)
qed

lemma handle_careful: "careful log (snd (snd (handleIncomingMessage e ev (s, db, log))))"
proof -
  obtain s1 db1 log1 where h: "handleIncomingMessage e ev (s, db, log) = (s1, db1, log1)" by (metis prod.collapse)
  show ?thesis
    using handle_shape [OF h] chat_conversation_result(1) careful_post careful_quiet careful_quiet [OF quiet_refl]
    unfolding h snd_conv by metis
qed

text \<open>
  Property C21. Nothing that the server posts to Chatwoot comes back: when a webhook tells of a message posted for a
  WhatsApp message, for a missed call or for a recording, it is not relayed to WhatsApp.
\<close>

theorem posted_messages_not_relayed:
  assumes "log @ calls \<in> {snd (snd (handleIncomingMessage e ev (s, db, log))), snd (noteMissedCall e i peer (db, log)),
      snd (finalizeRecording F e i rec peer (db, log))}"
    and "q \<in> set calls" "reports p q"
  shows "\<not> shouldRelay p"
proof -
  have "careful log (log @ calls)" using assms(1) notes_careful handle_careful by (elim insertE emptyE) simp_all
  moreover have "is_message q" using assms(3) by (auto simp: reports_def is_message_def)
  ultimately show ?thesis using assms(2,3) stays_inside_not_relayed by (auto simp: careful_def)
qed

text \<open>
  Property C23. A chat has one conversation: whatever a message from WhatsApp leads to, each message it posts goes, with
  the token of the session's configuration, to the conversation that the database then holds for the chat; and a chat
  whose conversation is known gets no other, its messages cost one call at most.
\<close>

theorem chat_has_one_conversation:
  assumes "handleIncomingMessage e ev (s, db, log) = (s1, db1, log1)"
    and "chatTarget_of e ev (jid_Server (ce_J e) (ev_Chat ev) = GroupServer) (ev_IsFromMe ev) = Some t"
  shows "\<exists>calls. log1 = log @ calls
    \<and> (\<forall>q\<in>set calls. is_message q \<longrightarrow>
         (\<exists>c. config_of db (se_id s) = Some c \<and> posts_to c (conv_of db1 (se_id s, ct_chatID t)) q))
    \<and> (ce_lookup_up e \<and> conv_of db (se_id s, ct_chatID t) \<noteq> 0 \<longrightarrow> db1 = db \<and> length calls \<le> 1)"
  using handle_shape [OF assms(1)]
proof
  assume "db1 = db \<and> log1 = log"
  then show ?thesis by simp
next
  assume "\<exists>c t r log'. config_of db (se_id s) = Some c \<and>
     chatTarget_of e ev (jid_Server (ce_J e) (ev_Chat ev) = GroupServer) (ev_IsFromMe ev) = Some t \<and>
     chat_conversation e (se_id s) c (ct_chatID t) (ct_phone t) (ct_name t) (ct_avatar t) (db, log) = (r, db1, log') \<and>
     (log1 = log' \<or> (\<exists>conv. r = Inr conv \<and> one_post c conv log' log1))"
  then obtain c r log' where h: "config_of db (se_id s) = Some c"
      "chat_conversation e (se_id s) c (ct_chatID t) (ct_phone t) (ct_name t) (ct_avatar t) (db, log) = (r, db1, log')"
      "log1 = log' \<or> (\<exists>conv. r = Inr conv \<and> one_post c conv log' log1)"
    using assms(2) by auto
  obtain calls where calls: "log1 = log @ calls"
      "\<forall>q\<in>set calls. is_message q \<longrightarrow> (\<exists>conv. r = Inr conv \<and> posts_to c conv q) \<and> stays_inside q"
    using one_post_calls [OF chat_conversation_result(1) [OF h(2)] h(3)] by blast
  have "db1 = db \<and> length calls \<le> 1" if "ce_lookup_up e" "conv_of db (se_id s, ct_chatID t) \<noteq> 0"
    using chat_conversation_known [OF that] h(2,3) calls(1) by (auto simp: one_post_def)
  then show ?thesis using h(1) calls chat_conversation_result(2) [OF h(2)] by blast
qed

section \<open>Messages sent to WhatsApp\<close>

text \<open>The ids of the messages sent from number \<open>n\<close> on are on record, each with a time of the operation's clock.\<close>

definition tracked :: "'j cw_env \<Rightarrow> nat \<Rightarrow> ('j, 'c, 'p) outbox \<Rightarrow> bool" where
  "tracked e n ob \<longleftrightarrow> (\<forall>k i. n \<le> k \<and> k < length (snd ob) \<and> i \<noteq> ''''
     \<and> ce_SendMessage e (take k (snd ob)) (fst (snd ob ! k)) (snd (snd ob ! k)) = Some i
     \<longrightarrow> (\<exists>m. map_of (se_sentIDs (fst ob)) i = Some (ce_now e m)))"

lemma tracked_new: "tracked e (length sent) (s, sent)"
  by (auto simp: tracked_def)

lemma markSelfSent_keeps:
  assumes "\<And>m n. ce_now e m - ce_now e n \<le> 10 * 60 * 1000" "map_of (se_sentIDs s) i = Some (ce_now e m)"
  shows "\<exists>m'. map_of (se_sentIDs (markSelfSent (ce_now e n) j s)) i = Some (ce_now e m')"
proof (cases "j = ''''")
  case True
  then show ?thesis using assms(2) by (auto simp: markSelfSent_def)
next
  case False
  define m' where "m' = (if i = j then n else m)"
  have "map_of (AList.update j (ce_now e n) (se_sentIDs s)) i = Some (ce_now e m')"
    using assms(2) by (simp add: update_conv' m'_def)
  then have "map_of (prune (ce_now e n) (AList.update j (ce_now e n) (se_sentIDs s))) i = Some (ce_now e m')"
    by (rule prune_keeps) (rule assms(1))
  then show ?thesis using False by (auto simp: markSelfSent_def)
qed

lemma markSelfSent_own:
  assumes "\<And>m n. ce_now e m - ce_now e n \<le> 10 * 60 * 1000" "j \<noteq> ''''"
  shows "map_of (se_sentIDs (markSelfSent (ce_now e n) j s)) j = Some (ce_now e n)"
  using assms prune_keeps [of "AList.update j (ce_now e n) (se_sentIDs s)" j "ce_now e n" "ce_now e n"]
  by (simp add: markSelfSent_def update_conv')

lemma tracked_send:
  assumes clock: "\<And>m n. ce_now e m - ce_now e n \<le> 10 * 60 * 1000" and t: "tracked e n ob" and n: "n \<le> length (snd ob)"
  shows "tracked e n (snd (send_message e jid msg ob))"
proof -
  obtain s sent where ob: "ob = (s, sent)" by (cases ob)
  define s1 where "s1 = (case ce_SendMessage e sent jid msg of None \<Rightarrow> s | Some i \<Rightarrow> markSelfSent (ce_now e (length sent)) i s)"
  have after: "snd (send_message e jid msg ob) = (s1, sent @ [(jid, msg)])"
    by (simp add: send_message_def ob s1_def split: option.split)
  have "\<exists>m. map_of (se_sentIDs s1) i = Some (ce_now e m)"
    if k: "n \<le> k" "k < Suc (length sent)" "i \<noteq> ''''"
      "ce_SendMessage e (take k (sent @ [(jid, msg)])) (fst ((sent @ [(jid, msg)]) ! k)) (snd ((sent @ [(jid, msg)]) ! k)) = Some i" for k i
  proof (cases "k = length sent")
    case True
    then show ?thesis using k markSelfSent_own [OF clock k(3)] by (auto simp: s1_def)
  next
    case False
    then have "k < length sent" using k(2) by simp
    then have "\<exists>m. map_of (se_sentIDs s) i = Some (ce_now e m)"
      using k t [unfolded tracked_def, rule_format, of k i] by (simp add: ob nth_append)
    then show ?thesis using markSelfSent_keeps [OF clock] by (auto simp: s1_def split: option.split)
  qed
  then show ?thesis unfolding after tracked_def fst_conv snd_conv length_append_singleton by blast
qed

text \<open>The message an attachment becomes, when it can be downloaded and uploaded.\<close>

definition attachment_message :: "'j cw_env \<Rightarrow> cwAttachment \<Rightarrow> string \<Rightarrow> out_message option" where
  "attachment_message e att caption =
     (case fst (downloadURL (ce_dl e) (ce_hops e (at_DataURL att)) (at_DataURL att)) of
        Inl err \<Rightarrow> None
      | Inr (data, ctype, filename) \<Rightarrow>
          map_option (buildOutgoingMedia (at_FileType att) (firstNonEmpty [ctype, ''application/octet-stream'']) filename caption (length data))
            (ce_Upload e data (chatwootFileTypeToMedia (at_FileType att))))"

lemma sendChatwootAttachment_cases:
  "sendChatwootAttachment e jid att caption ob =
     (case attachment_message e att caption of
        Some msg \<Rightarrow> send_message e jid msg ob
      | None \<Rightarrow> (fst (sendChatwootAttachment e jid att caption ob), ob))
   \<and> (attachment_message e att caption = None \<longrightarrow> fst (sendChatwootAttachment e jid att caption ob) \<noteq> Inr ())"
  by (auto simp: sendChatwootAttachment_def attachment_message_def Let_def split: sum.split option.split)

lemma send_message_result:
  "send_message e jid msg (s, sent) = (r, s1, sent1) \<Longrightarrow>
   sent1 = sent @ [(jid, msg)] \<and> (r = Inr () \<longleftrightarrow> ce_SendMessage e sent jid msg \<noteq> None)"
  by (auto simp: send_message_def split: option.splits)

lemma tracked_attachments:
  assumes clock: "\<And>m n. ce_now e m - ce_now e n \<le> 10 * 60 * 1000"
  shows "tracked e n ob \<Longrightarrow> n \<le> length (snd ob) \<Longrightarrow> tracked e n (snd (send_attachments e jid acs ob))"
proof (induction acs arbitrary: ob)
  case (Cons a acs)
  obtain att caption where a: "a = (att, caption)" by (cases a)
  obtain r ob1 where r: "sendChatwootAttachment e jid att caption ob = (r, ob1)"
    by (cases "sendChatwootAttachment e jid att caption ob")
  have "tracked e n ob1 \<and> n \<le> length (snd ob1)"
  proof (cases "attachment_message e att caption")
    case None
    then have "ob1 = ob" using r sendChatwootAttachment_cases [of e jid att caption ob] by simp
    then show ?thesis using Cons.prems by simp
  next
    case (Some msg)
    then have "sendChatwootAttachment e jid att caption ob = send_message e jid msg ob"
      using sendChatwootAttachment_cases [of e jid att caption ob] by simp
    then have "ob1 = snd (send_message e jid msg ob)" by (metis r snd_conv)
    moreover have "n \<le> length (snd (snd (send_message e jid msg ob)))"
      using Cons.prems(2) by (cases ob) (auto simp: send_message_def split: option.split)
    ultimately show ?thesis using tracked_send [OF clock Cons.prems] by simp
  qed
  then show ?case using Cons.IH [of ob1] r by (auto simp: a split: sum.split)
qed simp

text \<open>The attachments sent are a first part of the list, in order; all of them when nothing failed.\<close>

lemma attachments_sent:
  "send_attachments e jid acs (s, sent) = (r, s1, sent1) \<Longrightarrow>
   \<exists>msgs n. sent1 = sent @ map (Pair jid) msgs \<and> n \<le> length acs
     \<and> map Some msgs = map (\<lambda>(att, caption). attachment_message e att caption) (take n acs) \<and> (r = Inr () \<longrightarrow> n = length acs)"
proof (induction acs arbitrary: s sent)
  case Nil
  then show ?case by simp
next
  case (Cons a acs)
  obtain att caption where a: "a = (att, caption)" by (cases a)
  show ?case
  proof (cases "attachment_message e att caption")
    case None
    then have "sendChatwootAttachment e jid att caption (s, sent) = (fst (sendChatwootAttachment e jid att caption (s, sent)), s, sent)"
      "fst (sendChatwootAttachment e jid att caption (s, sent)) \<noteq> Inr ()"
      using sendChatwootAttachment_cases [of e jid att caption "(s, sent)"] by simp_all
    then show ?thesis using Cons.prems
      by (intro exI [of _ "[]"] exI [of _ 0], cases "fst (sendChatwootAttachment e jid att caption (s, sent))") (auto simp: a)
  next
    case (Some msg)
    obtain r0 s0 sent0 where m: "send_message e jid msg (s, sent) = (r0, s0, sent0)" by (metis prod.collapse)
    then have one: "sendChatwootAttachment e jid att caption (s, sent) = (r0, s0, sent0)"
      using sendChatwootAttachment_cases [of e jid att caption "(s, sent)"] Some by simp
    have sent0: "sent0 = sent @ [(jid, msg)]" using send_message_result [OF m] by simp
    show ?thesis
    proof (cases r0)
      case (Inl err)
      then show ?thesis using Cons.prems one sent0 Some by (intro exI [of _ "[msg]"] exI [of _ 1]) (auto simp: a)
    next
      case (Inr u)
      then have rest: "send_attachments e jid acs (s0, sent0) = (r, s1, sent1)" using Cons.prems one by (simp add: a)
      obtain msgs n where "sent1 = sent0 @ map (Pair jid) msgs" "n \<le> length acs"
          "map Some msgs = map (\<lambda>(att, caption). attachment_message e att caption) (take n acs)" "r = Inr () \<longrightarrow> n = length acs"
        using Cons.IH [OF rest] by blast
      then show ?thesis using Some sent0 by (intro exI [of _ "msg # msgs"] exI [of _ "Suc n"]) (simp add: a)
    qed
  qed
qed

lemma handle_own_echo:
  "ev_IsFromMe ev \<Longrightarrow> isSelfSent (ev_ID ev) s \<Longrightarrow> handleIncomingMessage e ev (s, bk) = (s, bk)"
  by (cases bk) (simp add: handleIncomingMessage_def Let_def)

lemma deliver_tracked:
  assumes "\<And>m n. ce_now e m - ce_now e n \<le> 10 * 60 * 1000"
  shows "tracked e (length sent) (snd (deliverToWhatsApp e p (s, sent)))"
  using tracked_new [of e sent s] tracked_attachments [OF assms tracked_new] tracked_send [OF assms tracked_new]
  by (auto simp: deliverToWhatsApp_def Let_def split: option.split)

text \<open>
  Property C22. A message that the server sends for an agent is not mirrored back: when WhatsApp hands it to the session
  as one of its own, the session, the database and Chatwoot stay as they are. The clock may pass ten minutes at most
  during the delivery, which its own time limit of a minute ensures.
\<close>

theorem sent_messages_not_mirrored:
  assumes "deliverToWhatsApp e p (s, sent) = (r, s1, sent1)"
    and "\<And>m n. ce_now e m - ce_now e n \<le> 10 * 60 * 1000"
    and "length sent \<le> k" "k < length sent1"
      "ce_SendMessage e (take k sent1) (fst (sent1 ! k)) (snd (sent1 ! k)) = Some (ev_ID ev)"
    and "ev_IsFromMe ev" "ev_ID ev \<noteq> ''''"
  shows "handleIncomingMessage e' ev (s1, bk) = (s1, bk)"
proof -
  have "tracked e (length sent) (s1, sent1)" using deliver_tracked [OF assms(2), of sent p s] assms(1) by simp
  then have "isSelfSent (ev_ID ev) s1" using assms(3-5,7) by (auto simp: tracked_def isSelfSent_def)
  then show ?thesis by (rule handle_own_echo [OF assms(6)])
qed

lemma deliver_result:
  assumes "deliverToWhatsApp e p (s, sent) = (r, s1, sent1)" "sent1 \<noteq> sent"
  shows "\<exists>jid msgs n. shouldRelay p \<and> resolveRecipient (ce_J e) (webhookChatID p) = Some jid \<and> sent1 = sent @ map (Pair jid) msgs
    \<and> (if wp_Attachments p = [] then msgs = [TextOut (chatwootToWhatsApp (wp_Content p))]
       else n \<le> length (wp_Attachments p) \<and> (r = Inr () \<longrightarrow> n = length (wp_Attachments p))
         \<and> map Some msgs = map (\<lambda>(att, caption). attachment_message e att caption) (take n
             (captioned (if TrimSpace (chatwootToWhatsApp (wp_Content p)) \<noteq> '''' then chatwootToWhatsApp (wp_Content p) else '''')
               (wp_Attachments p))))"
proof -
  have relay: "shouldRelay p" using assms by (auto simp: deliverToWhatsApp_def split: if_splits)
  obtain jid where jid: "resolveRecipient (ce_J e) (webhookChatID p) = Some jid"
    using assms by (auto simp: deliverToWhatsApp_def Let_def split: if_splits option.splits)
  have len: "length (captioned x (wp_Attachments p)) = length (wp_Attachments p)" for x
    by (simp add: captioned_def split: list.split)
  show ?thesis
  proof (cases "wp_Attachments p = []")
    case True
    then have "send_message e jid (TextOut (chatwootToWhatsApp (wp_Content p))) (s, sent) = (r, s1, sent1)"
      using assms relay jid by (auto simp: deliverToWhatsApp_def Let_def split: if_splits)
    then show ?thesis using True relay jid send_message_result by (intro exI [of _ jid]) fastforce
  next
    case False
    then have "send_attachments e jid (captioned (if TrimSpace (chatwootToWhatsApp (wp_Content p)) \<noteq> ''''
        then chatwootToWhatsApp (wp_Content p) else '''') (wp_Attachments p)) (s, sent) = (r, s1, sent1)"
      using assms(1) relay jid by (simp add: deliverToWhatsApp_def Let_def)
    from attachments_sent [OF this] obtain msgs n where "sent1 = sent @ map (Pair jid) msgs" "n \<le> length (wp_Attachments p)"
        "map Some msgs = map (\<lambda>(att, caption). attachment_message e att caption) (take n
           (captioned (if TrimSpace (chatwootToWhatsApp (wp_Content p)) \<noteq> '''' then chatwootToWhatsApp (wp_Content p) else '''')
             (wp_Attachments p)))" "r = Inr () \<longrightarrow> n = length (wp_Attachments p)"
      unfolding len by blast
    then show ?thesis using False relay jid by (intro exI [of _ jid] exI [of _ msgs] exI [of _ n]) simp
  qed
qed

lemma recipient_digits:
  assumes "resolveRecipient J chatID = Some jid" "CHR ''@'' \<notin> set chatID"
  shows "\<exists>d. jid = jid_New J d DefaultUserServer \<and> 7 \<le> length d \<and> length d \<le> 15 \<and> list_all is_digit d"
  using assms by (auto simp: resolveRecipient_def Let_def onlyDigits_def list_all_iff split: if_splits)

text \<open>
  Property C20. A webhook sends to WhatsApp only with the secret of the session's configuration, which is not empty, for a
  session that is paired, and for a new public message of an agent that did not come from WhatsApp. All it sends goes to
  the one recipient of the conversation, and a recipient that is not given as a JID is a number of 7 to 15 digits.
\<close>

theorem webhook_fail_closed:
  assumes "handleChatwootWebhook e sid secret body (m, sent) = (reply, m1, sent1)" "sent1 \<noteq> sent"
  shows "\<exists>s c p jid msgs. Get sid m = Some s \<and> se_jid s \<noteq> '''' \<and> config_of (sm_store m) (se_id s) = Some c
    \<and> cw_WebhookSecret c \<noteq> '''' \<and> secret = cw_WebhookSecret c
    \<and> decoded dec_webhook body = Some p \<and> wp_Event p = ''message_created'' \<and> wp_MessageType p = ''outgoing''
    \<and> \<not> wp_Private p \<and> wp_SourceID p = '''' \<and> sent1 = sent @ map (Pair jid) msgs
    \<and> resolveRecipient (ce_J e) (webhookChatID p) = Some jid
    \<and> (CHR ''@'' \<notin> set (webhookChatID p) \<longrightarrow>
         (\<exists>d. jid = jid_New (ce_J e) d DefaultUserServer \<and> 7 \<le> length d \<and> length d \<le> 15 \<and> list_all is_digit d))"
proof -
  obtain s where s: "Get sid m = Some s" using assms by (auto simp: handleChatwootWebhook_def split: option.splits)
  obtain c ok where c: "getChatwoot (ce_config_up e) (se_id s) (sm_store m) = (c, ok)"
    by (cases "getChatwoot (ce_config_up e) (se_id s) (sm_store m)")
  have ok: "ok" "secretMatches secret (cw_WebhookSecret c)"
    using assms s c by (auto simp: handleChatwootWebhook_def split: if_splits)
  obtain p where p: "decoded dec_webhook body = Some p"
    using assms s c ok by (auto simp: handleChatwootWebhook_def secretMatches_def split: if_splits option.splits)
  obtain r s2 sent2 where d: "deliverToWhatsApp e p (s, sent) = (r, s2, sent2)" by (metis prod.collapse)
  have "se_jid s \<noteq> ''''" "sent2 = sent1"
    using assms s c ok p d by (auto simp: handleChatwootWebhook_def secretMatches_def split: if_splits)
  moreover have "config_of (sm_store m) (se_id s) = Some c"
    using c ok(1) by (auto simp: getChatwoot_def config_of_def split: if_splits option.splits)
  moreover obtain jid msgs where j: "shouldRelay p" "resolveRecipient (ce_J e) (webhookChatID p) = Some jid"
      "sent1 = sent @ map (Pair jid) msgs"
    using deliver_result [OF d] assms(2) \<open>sent2 = sent1\<close> by auto
  ultimately show ?thesis
    using s p ok(2) recipient_digits [OF j(2)]
    by (intro exI [of _ s] exI [of _ c] exI [of _ p] exI [of _ jid] exI [of _ msgs])
      (simp add: secretMatches_def shouldRelay_def)
qed


section \<open>Redelivered messages\<close>

definition chat_run ::
    "('j cw_env \<times> 'j message_event) list \<Rightarrow> ('j, 'c, 'p) Session \<times> books \<Rightarrow> ('j, 'c, 'p) Session \<times> books" where
  "chat_run evs st = fold (\<lambda>(e, ev). handleIncomingMessage e ev) evs st"

lemma alreadySeen_dup: "i \<noteq> '''' \<Longrightarrow> map_of (se_seenIDs s) i \<noteq> None \<Longrightarrow> alreadySeen now i s = (True, s)"
  by (simp add: alreadySeen_def)

lemma handle_cases:
  assumes "handleIncomingMessage e ev (s, bk) = (s1, bk1)"
  shows "s1 = s \<and> bk1 = bk \<or>
    \<not> fst (alreadySeen (ce_now e 0) (ev_ID ev) s) \<and> s1 = snd (alreadySeen (ce_now e 0) (ev_ID ev) s)"
proof -
  obtain c ok where c: "getChatwoot (ce_config_up e) (se_id s) (fst bk) = (c, ok)"
    by (cases "getChatwoot (ce_config_up e) (se_id s) (fst bk)")
  obtain dup s2 where d: "alreadySeen (ce_now e 0) (ev_ID ev) s = (dup, s2)" by (cases "alreadySeen (ce_now e 0) (ev_ID ev) s")
  have "dup \<Longrightarrow> s2 = s" using d by (auto simp: alreadySeen_def split: if_splits)
  then show ?thesis
    using assms c d
    by (cases bk) (auto simp: handleIncomingMessage_def Let_def split: if_splits option.splits sum.splits prod.splits)
qed

lemma handle_redelivered:
  assumes "ev_ID ev \<noteq> ''''" "map_of (se_seenIDs s) (ev_ID ev) \<noteq> None"
  shows "handleIncomingMessage e ev (s, bk) = (s, bk)"
  by (cases bk) (simp add: handleIncomingMessage_def Let_def alreadySeen_dup [OF assms] split: prod.split)

lemma chat_run_keeps:
  "map_of (se_seenIDs s) i = Some t \<Longrightarrow> \<forall>(e, ev) \<in> set evs. ce_now e 0 - t \<le> 10 * 60 * 1000 \<Longrightarrow>
   map_of (se_seenIDs (fst (chat_run evs (s, bk)))) i = Some t"
proof (induction evs arbitrary: s bk)
  case (Cons x evs)
  obtain e ev s1 bk1 where x: "x = (e, ev)" "handleIncomingMessage e ev (s, bk) = (s1, bk1)" by (metis prod.collapse)
  have "map_of (se_seenIDs s1) i = Some t"
    using handle_cases [OF x(2)] Cons.prems(1,2) alreadySeen_keeps [OF Cons.prems(1), of "ce_now e 0" "ev_ID ev"] by (auto simp: x)
  then show ?case using Cons.IH [of s1 bk1] Cons.prems(2) by (simp add: chat_run_def x)
qed (simp add: chat_run_def)

text \<open>
  Property C24. A message that WhatsApp delivers again is not posted again: once it has led to a call to Chatwoot or to a
  row of the database, its id does nothing more during the next ten minutes, whatever other messages come in between.
\<close>

theorem message_posted_once:
  assumes "handleIncomingMessage e ev (s, bk) = (s1, bk1)" "bk1 \<noteq> bk" "ev_ID ev \<noteq> ''''"
    and "\<forall>(e2, ev2) \<in> set others. ce_now e2 0 - ce_now e 0 \<le> 10 * 60 * 1000" "ev_ID ev' = ev_ID ev"
  shows "handleIncomingMessage e' ev' (chat_run others (s1, bk1)) = chat_run others (s1, bk1)"
proof -
  have "map_of (se_seenIDs s1) (ev_ID ev) = Some (ce_now e 0)"
    using handle_cases [OF assms(1)] assms(2,3)
      prune_keeps [of "AList.update (ev_ID ev) (ce_now e 0) (se_seenIDs s)" "ev_ID ev" "ce_now e 0" "ce_now e 0"]
    by (simp add: alreadySeen_def map_of_update split: if_splits)
  then have "map_of (se_seenIDs (fst (chat_run others (s1, bk1)))) (ev_ID ev') \<noteq> None"
    using chat_run_keeps [OF _ assms(4), of s1 "ev_ID ev" bk1] assms(5) by simp
  then show ?thesis
    using handle_redelivered [of ev' "fst (chat_run others (s1, bk1))" e' "snd (chat_run others (s1, bk1))"] assms(3,5) by simp
qed

section \<open>The handlers\<close>

lemma resolve_configs_ok:
  "resolve_configs net convID m cs log = ((200, body), log1) \<Longrightarrow>
   \<exists>sid c phone name l l1. (sid, c) \<in> set cs \<and> Get sid m \<noteq> None
     \<and> getConversation net c convID l = (Inr (cw_InboxID c, phone, name), l1) \<and> onlyDigits phone \<noteq> ''''
     \<and> body = JObject [(''session_id'', JString sid), (''inbox_id'', JInt (cw_InboxID c)), (''phone'', JString (onlyDigits phone)),
         (''name'', JString name)]"
proof (induction cs arbitrary: log)
  case (Cons x cs)
  obtain sid c where x: "x = (sid, c)" by (cases x)
  obtain r l1 where g: "getConversation net c convID log = (r, l1)" by (cases "getConversation net c convID log")
  show ?case
  proof (cases "Get sid m \<noteq> None \<and> (\<exists>phone name. r = Inr (cw_InboxID c, phone, name))")
    case True
    then obtain phone name where "r = Inr (cw_InboxID c, phone, name)" by blast
    then show ?thesis using Cons.prems True g
      by (fastforce simp: x Let_def error_reply_def split: if_splits)
  next
    case False
    then have "\<exists>l. resolve_configs net convID m cs l = ((200, body), log1)"
      using Cons.prems g by (fastforce simp: x split: if_splits sum.splits prod.splits)
    then show ?thesis using Cons.IH by (metis list.set_intros(2))
  qed
qed (simp add: error_reply_def)

text \<open>
  Property C26. The widget gets a session it can call from: the session of a positive answer exists, is configured for the
  account that was asked for and for the inbox in which Chatwoot shows the conversation, and the telephone number is the
  digits, at least one, of the contact's.
\<close>

theorem resolve_answers_live_session:
  assumes "handleChatwootResolve e accountQ convQ m log = ((200, body), log1)"
  shows "\<exists>sid c phone name l l1. Get sid m \<noteq> None \<and> (sid, c) \<in> set (db_configs (sm_store m)) \<and> cw_AccountID c = Atoi accountQ
    \<and> getConversation (ce_net e) (c\<lparr>cw_WebhookSecret := ''''\<rparr>) (Atoi convQ) l = (Inr (cw_InboxID c, phone, name), l1)
    \<and> body = JObject [(''session_id'', JString sid), (''inbox_id'', JInt (cw_InboxID c)), (''phone'', JString (onlyDigits phone)),
         (''name'', JString name)] \<and> onlyDigits phone \<noteq> ''''"
proof -
  obtain cs where cs: "configsByAccount (ce_config_up e) (Atoi accountQ) (sm_store m) = Inr cs"
      "resolve_configs (ce_net e) (Atoi convQ) m cs log = ((200, body), log1)"
    using assms by (auto simp: handleChatwootResolve_def Let_def error_reply_def split: if_splits sum.splits)
  obtain sid c phone name l l1 where r: "(sid, c) \<in> set cs" "Get sid m \<noteq> None"
      "getConversation (ce_net e) c (Atoi convQ) l = (Inr (cw_InboxID c, phone, name), l1)" "onlyDigits phone \<noteq> ''''"
      "body = JObject [(''session_id'', JString sid), (''inbox_id'', JInt (cw_InboxID c)), (''phone'', JString (onlyDigits phone)),
         (''name'', JString name)]"
    using resolve_configs_ok [OF cs(2)] by blast
  obtain c0 where "(sid, c0) \<in> set (db_configs (sm_store m))" "cw_AccountID c0 = Atoi accountQ" "c = c0\<lparr>cw_WebhookSecret := ''''\<rparr>"
    using cs(1) r(1) by (auto simp: configsByAccount_def split: if_splits)
  then show ?thesis using r by (intro exI [of _ sid] exI [of _ c0] exI [of _ phone] exI [of _ name]) auto
qed

lemma json_field_simps: "json_field f [] = None"
  "json_field f ((k, v) # kv) = (case json_field f kv of Some w \<Rightarrow> Some w | None \<Rightarrow> if map lower_char k = map lower_char f then Some v else None)"
  by (simp_all add: json_field_def map_add_def split: option.split)

lemma dec_enc_config:
  assumes "- (2 ^ 63) \<le> cw_AccountID c" "cw_AccountID c < 2 ^ 63" "- (2 ^ 63) \<le> cw_InboxID c" "cw_InboxID c < 2 ^ 63"
  shows "dec_config (enc_config c) = Some (c\<lparr>cw_WebhookSecret := ''''\<rparr>)"
  using assms by (simp add: dec_config_def enc_config_def dec_field_def json_field_simps lower_char_def)


section \<open>Instances\<close>

text \<open>A Chatwoot that shows one conversation, a session with a configuration, and a chat whose conversation is known.\<close>

definition demo_bridge_config :: ChatwootConfig where
  "demo_bridge_config = \<lparr>cw_URL = ''u/'', cw_AccountID = 3, cw_AccountToken = ''t'', cw_InboxID = 4, cw_InboxIdentifier = '''',
     cw_WebhookSecret = ''key''\<rparr>"

definition demo_jids :: "string jid_parts" where
  "demo_jids = \<lparr>jid_String = (\<lambda>j. j), jid_IsEmpty = (\<lambda>j. j = ''''), jid_Parse = Some, jid_zero = '''',
     jid_User = takeWhile (\<lambda>c. c \<noteq> CHR ''@''), jid_Server = (\<lambda>j. tl (dropWhile (\<lambda>c. c \<noteq> CHR ''@'') j)),
     jid_New = (\<lambda>u v. u @ ''@'' @ v)\<rparr>"

definition demo_bridge :: "string cw_env" where
  "demo_bridge = \<lparr>ce_J = demo_jids,
     ce_net = (\<lambda>log q. Some (200, Some (JObject [(''inbox_id'', JInt 4), (''meta'', JObject [(''sender'', JObject
        [(''phone_number'', JString ''+593 99''), (''name'', JString ''Mary'')])])]))),
     ce_config_up = True, ce_lookup_up = True, ce_save_up = (\<lambda>n. True), ce_now = (\<lambda>n. 0), ce_GroupName = (\<lambda>j. None),
     ce_Picture = (\<lambda>j. None), ce_PushName = ''yo'', ce_PNForLID = (\<lambda>j. None), ce_GetContact = (\<lambda>j. None),
     ce_DownloadAny = (\<lambda>m. None), ce_Upload = (\<lambda>d t. Some \<lparr>up_URL = ''w'', up_DirectPath = '''', up_MediaKey = [],
        up_FileEncSHA256 = [], up_FileSHA256 = []\<rparr>), ce_SendMessage = (\<lambda>sent j m. Some ''id1''), ce_types = (\<lambda>t. []),
     ce_dl = demo_downloads, ce_hops = (\<lambda>u. demo_hops), ce_text_time = ''10:00'', ce_file_time = ''20260101-100000''\<rparr>"

definition demo_event :: "string message_event" where
  "demo_event = \<lparr>ev_ID = ''m1'', ev_Chat = ''59399@s.whatsapp.net'', ev_Sender = ''59399@s.whatsapp.net'', ev_SenderAlt = '''',
     ev_RecipientAlt = '''', ev_IsFromMe = False, ev_PushName = ''Mary'', ev_Message = \<lparr>ms_Conversation = ''hola'', ms_Extended = None,
     ms_Image = None, ms_Video = None, ms_Audio = None, ms_Document = None, ms_Sticker = None\<rparr>\<rparr>"

definition demo_db :: sessionStore where
  "demo_db = newSessionStore\<lparr>db_configs := [(''01'', demo_bridge_config)], db_conversations := [((''01'', ''59399@s.whatsapp.net''),
     \<lparr>cv_ContactID = 7, cv_SourceID = ''src'', cv_ConversationID = 9\<rparr>)]\<rparr>"

definition demo_paired :: "(string, unit, unit) Session" where
  "demo_paired = newSession ''01'' ''x'' ''me@s.whatsapp.net''"

definition demo_post :: http_call where
  "demo_post = \<lparr>hq_Method = ''POST'', hq_URL = ''u/api/v1/accounts/3/conversations/9/messages'', hq_Token = ''t'',
     hq_Body = JsonBody (JObject [(''content'', JString ''hola''), (''message_type'', JString ''incoming''), (''source_id'', JString ''m1'')])\<rparr>"

lemma demo_handled:
  "handleIncomingMessage demo_bridge demo_event (demo_paired, demo_db, []) =
     (demo_paired\<lparr>se_seenIDs := [(''m1'', 0)]\<rparr>, demo_db, [demo_post])"
  by code_simp

text \<open>A message is marked as seen before it is posted: when the database fails at that moment, a redelivery does not help.\<close>

lemma failed_lookup_loses_message:
  "let st = handleIncomingMessage (demo_bridge\<lparr>ce_lookup_up := False\<rparr>) demo_event (demo_paired, demo_db, [])
   in snd (snd st) = [] \<and> handleIncomingMessage demo_bridge demo_event st = st"
  by code_simp

definition demo_payload :: chatwootWebhookPayload where
  "demo_payload = \<lparr>wp_Event = ''message_created'', wp_MessageType = ''outgoing'', wp_Content = ''**si**'', wp_Private = False,
     wp_SourceID = '''', wp_Attachments = [], wp_PhoneNumber = ''+59399123'', wp_Identifier = '''', wp_CustomAttributes = []\<rparr>"

lemma demo_delivered:
  "deliverToWhatsApp demo_bridge demo_payload (demo_paired, []) =
     (Inr (), demo_paired\<lparr>se_sentIDs := [(''id1'', 0)]\<rparr>, [(''59399123@s.whatsapp.net'', TextOut ''*si*'')])"
  by code_simp

definition demo_body :: json where
  "demo_body = JObject [(''event'', JString ''message_created''), (''message_type'', JString ''outgoing''), (''content'', JString ''**si**''),
     (''conversation'', JObject [(''meta'', JObject [(''sender'', JObject [(''phone_number'', JString ''+59399123'')])])])]"

definition demo_paired_server :: "(string, unit, unit) mgr" where
  "demo_paired_server = register demo_paired (newSessionManager demo_db NewBroker)"

lemma demo_webhook:
  "snd (snd (handleChatwootWebhook demo_bridge ''01'' ''key'' (Some demo_body) (demo_paired_server, []))) =
     [(''59399123@s.whatsapp.net'', TextOut ''*si*'')]"
  by code_simp

lemma demo_resolved:
  "handleChatwootResolve demo_bridge ''3'' ''14'' demo_paired_server [] =
     ((200, JObject [(''session_id'', JString ''01''), (''inbox_id'', JInt 4), (''phone'', JString ''59399''), (''name'', JString ''Mary'')]),
      [\<lparr>hq_Method = ''GET'', hq_URL = ''u/api/v1/accounts/3/conversations/14'', hq_Token = ''t'', hq_Body = NoBody\<rparr>])"
  by code_simp

definition demo_files :: chatwootWebhookPayload where
  "demo_files = demo_payload\<lparr>wp_Attachments := [\<lparr>at_DataURL = ''https://chat.example/f/foto.png?x=1'', at_FileType = ''image''\<rparr>]\<rparr>"

definition demo_image :: out_message where
  "demo_image = ImageOut \<lparr>om_Caption = Some ''*si*'', om_Mimetype = ''image/png'', om_FileName = None,
     om_Upload = \<lparr>up_URL = ''w'', up_DirectPath = '''', up_MediaKey = [], up_FileEncSHA256 = [], up_FileSHA256 = []\<rparr>, om_FileLength = 3\<rparr>"

lemma demo_content: "chatwootToWhatsApp ''**si**'' = ''*si*''"
  by code_simp

lemma demo_recipient: "webhookChatID demo_files = ''59399123'' \<and> resolveRecipient demo_jids ''59399123'' = Some ''59399123@s.whatsapp.net''"
  by code_simp

lemma demo_files_delivered:
  "deliverToWhatsApp demo_bridge demo_files (demo_paired, []) =
     (Inr (), demo_paired\<lparr>se_sentIDs := [(''id1'', 0)]\<rparr>, [(''59399123@s.whatsapp.net'', demo_image)])"
proof -
  have relay: "shouldRelay demo_files" by (simp add: shouldRelay_def demo_files_def demo_payload_def)
  have parts: "wp_Attachments demo_files = [\<lparr>at_DataURL = ''https://chat.example/f/foto.png?x=1'', at_FileType = ''image''\<rparr>]"
    "wp_Content demo_files = ''**si**''" by (simp_all add: demo_files_def demo_payload_def)
  have env: "ce_J demo_bridge = demo_jids" "ce_dl demo_bridge = demo_downloads" "ce_hops demo_bridge u = demo_hops"
    "ce_now demo_bridge n = 0" "ce_SendMessage demo_bridge x y z = Some ''id1''"
    "ce_Upload demo_bridge d t = Some \<lparr>up_URL = ''w'', up_DirectPath = '''', up_MediaKey = [], up_FileEncSHA256 = [], up_FileSHA256 = []\<rparr>" for u n x y z d t
    by (simp_all add: demo_bridge_def)
  show ?thesis
    using relay demo_recipient
    by (simp add: deliverToWhatsApp_def parts demo_content env captioned_def sendChatwootAttachment_def demo_downloads_log
        firstNonEmpty_def buildOutgoingMedia_def optString_def send_message_def markSelfSent_def prune_def demo_image_def
        demo_paired_def newSession_def TrimSpace_def is_space_def)
qed

section \<open>Witnesses\<close>

definition demo_report :: chatwootWebhookPayload where
  "demo_report = demo_payload\<lparr>wp_MessageType := ''incoming'', wp_SourceID := ''m1''\<rparr>"

theorem posted_messages_not_relayed_witness: "\<not> shouldRelay demo_report"
  using posted_messages_not_relayed [of "[]" "[demo_post]" demo_bridge demo_event demo_paired demo_db _ _ _ _ demo_post demo_report]
  by (simp add: demo_handled reports_def demo_post_def demo_report_def demo_payload_def)

theorem chat_has_one_conversation_witness:
  "\<exists>c. config_of demo_db ''01'' = Some c \<and> posts_to c (conv_of demo_db (''01'', ''59399@s.whatsapp.net'')) demo_post"
proof -
  have t: "chatTarget_of demo_bridge demo_event (jid_Server (ce_J demo_bridge) (ev_Chat demo_event) = GroupServer) (ev_IsFromMe demo_event) =
      Some \<lparr>ct_chatID = ''59399@s.whatsapp.net'', ct_phone = ''59399'', ct_name = ''Mary'', ct_avatar = '''', ct_prefix = ''''\<rparr>" by code_simp
  show ?thesis
    using chat_has_one_conversation [OF demo_handled t]
    by (auto simp: is_message_def demo_post_def demo_paired_def newSession_def)
qed

theorem sent_messages_not_mirrored_witness:
  "handleIncomingMessage demo_bridge (demo_event\<lparr>ev_ID := ''id1'', ev_IsFromMe := True\<rparr>)
     (demo_paired\<lparr>se_sentIDs := [(''id1'', 0)]\<rparr>, demo_db, []) = (demo_paired\<lparr>se_sentIDs := [(''id1'', 0)]\<rparr>, demo_db, [])"
  using sent_messages_not_mirrored [OF demo_delivered, of 0 "demo_event\<lparr>ev_ID := ''id1'', ev_IsFromMe := True\<rparr>" demo_bridge "(demo_db, [])"]
  by (simp add: demo_bridge_def)

theorem webhook_fail_closed_witness: "\<exists>c. config_of demo_db ''01'' = Some c \<and> cw_WebhookSecret c = ''key''"
proof -
  obtain reply m1 sent1 where w: "handleChatwootWebhook demo_bridge ''01'' ''key'' (Some demo_body) (demo_paired_server, []) = (reply, m1, sent1)"
    by (metis prod.collapse)
  have "sent1 \<noteq> []" using demo_webhook w by auto
  from webhook_fail_closed [OF w this]
  show ?thesis by (auto simp: demo_paired_server_def register_def newSessionManager_def Get_def demo_paired_def newSession_def)
qed


theorem message_posted_once_witness:
  "handleIncomingMessage demo_bridge demo_event
     (chat_run [(demo_bridge, demo_event\<lparr>ev_ID := ''m2''\<rparr>)] (demo_paired\<lparr>se_seenIDs := [(''m1'', 0)]\<rparr>, demo_db, [demo_post]))
   = chat_run [(demo_bridge, demo_event\<lparr>ev_ID := ''m2''\<rparr>)] (demo_paired\<lparr>se_seenIDs := [(''m1'', 0)]\<rparr>, demo_db, [demo_post])"
  using message_posted_once [OF demo_handled, of "[(demo_bridge, demo_event\<lparr>ev_ID := ''m2''\<rparr>)]" demo_event demo_bridge]
  by (simp add: demo_bridge_def demo_event_def)

theorem resolve_answers_live_session_witness:
  "\<exists>sid c. Get sid demo_paired_server \<noteq> None \<and> (sid, c) \<in> set (db_configs (sm_store demo_paired_server)) \<and> cw_InboxID c = 4"
  using resolve_answers_live_session [OF demo_resolved] by auto


end
