(* ===== verification/RangeCoder.thy ===== *)
theory RangeCoder
  imports Prelude
begin

text \<open>
  The range coder of the speech codec (\<^verbatim>\<open>internal/voip/media/mlow/rangecoder.go\<close>): symbols with cumulative frequencies are
  written as one long binary fraction, from the front of the buffer, and raw bits from its back. The 32-bit registers
  are words; the signed counters (\<open>rem\<close>, the bits in the window, the bits in total) are integers that stay far below
  their 32 bits, and so is the count of pending \<open>0xff\<close> bytes. A loop of \<open>normalize\<close> does not end on an empty range,
  so its result is an option: \<open>None\<close> is a call that never returns.
\<close>

definition ecCodeTop :: u32 where "ecCodeTop = 0x80000000"
definition ecCodeBot :: u32 where "ecCodeBot = 0x800000"

function bit_len :: "int \<Rightarrow> nat" where
  "bit_len n = (if n \<le> 0 then 0 else Suc (bit_len (n div 2)))"
  by pat_completeness auto

termination bit_len
  by (relation "measure nat") auto

declare bit_len.simps [simp del]

definition ilog :: "u32 \<Rightarrow> int" where
  "ilog x = int (bit_len (uint x))"

definition ecMini :: "u32 \<Rightarrow> u32 \<Rightarrow> u32" where
  "ecMini a b = (if a < b then a else b)"

section \<open>Decoder\<close>

record RangeDecoder =
  rd_buf :: bytes
  rd_storage :: u32
  rd_endOffs :: u32
  rd_endWindow :: u32
  rd_nendBits :: int
  rd_nbitsTotal :: int
  rd_offs :: u32
  rd_rng :: u32
  rd_val :: u32
  rd_ext :: u32
  rd_rem :: u32
  rd_Err :: int

definition readByte :: "RangeDecoder \<Rightarrow> u32 \<times> RangeDecoder" where
  "readByte d =
     (if rd_offs d < rd_storage d
      then (ucast (rd_buf d ! unat (rd_offs d)), d\<lparr>rd_offs := rd_offs d + 1\<rparr>)
      else (0, d))"

definition readByteFromEnd :: "RangeDecoder \<Rightarrow> u32 \<times> RangeDecoder" where
  "readByteFromEnd d =
     (if rd_endOffs d < rd_storage d
      then (ucast (rd_buf d ! unat (rd_storage d - (rd_endOffs d + 1))), d\<lparr>rd_endOffs := rd_endOffs d + 1\<rparr>)
      else (0, d))"

definition dec_shift :: "RangeDecoder \<Rightarrow> RangeDecoder" where
  "dec_shift d =
     (let sym0 = rd_rem d;
          (b, d1) = readByte (d\<lparr>rd_nbitsTotal := rd_nbitsTotal d + 8, rd_rng := push_bit 8 (rd_rng d)\<rparr>);
          sym = drop_bit 1 (push_bit 8 sym0 OR b)
      in d1\<lparr>rd_rem := b, rd_val := (push_bit 8 (rd_val d1) + (255 AND NOT sym)) AND (ecCodeTop - 1)\<rparr>)"

partial_function (option) dec_normalize :: "RangeDecoder \<Rightarrow> RangeDecoder option" where
  "dec_normalize d = (if rd_rng d \<le> ecCodeBot then dec_normalize (dec_shift d) else Some d)"

definition NewRangeDecoder :: "bytes \<Rightarrow> RangeDecoder option" where
  "NewRangeDecoder buf =
     (let d = \<lparr>rd_buf = buf, rd_storage = of_nat (length buf), rd_endOffs = 0, rd_endWindow = 0, rd_nendBits = 0,
               rd_nbitsTotal = 32 + 1 - ((32 - 7) div 8) * 8, rd_offs = 0, rd_rng = 128, rd_val = 0, rd_ext = 0,
               rd_rem = 0, rd_Err = 0\<rparr>;
          (b, d1) = readByte d
      in dec_normalize (d1\<lparr>rd_rem := b, rd_val := rd_rng d1 - 1 - drop_bit 1 b\<rparr>))"

definition Decode :: "RangeDecoder \<Rightarrow> u32 \<Rightarrow> u32 \<times> RangeDecoder" where
  "Decode d ft =
     (if ft = 0 then (0, d\<lparr>rd_Err := 1, rd_ext := 1\<rparr>)
      else
        let ext = rd_rng d div ft
        in if ext = 0 then (0, d\<lparr>rd_Err := 1, rd_ext := 1\<rparr>)
           else (ft - ecMini (rd_val d div ext + 1) ft, d\<lparr>rd_ext := ext\<rparr>))"

definition decodeBin :: "RangeDecoder \<Rightarrow> u32 \<Rightarrow> u32 \<times> RangeDecoder" where
  "decodeBin d bitsN =
     (let ext = drop_bit (unat bitsN) (rd_rng d)
      in if ext = 0 then (0, d\<lparr>rd_Err := 1, rd_ext := 1\<rparr>)
         else
           let ft = push_bit (unat bitsN) 1
           in (ft - ecMini (rd_val d div ext + 1) ft, d\<lparr>rd_ext := ext\<rparr>))"

definition Update :: "RangeDecoder \<Rightarrow> u32 \<Rightarrow> u32 \<Rightarrow> u32 \<Rightarrow> RangeDecoder option" where
  "Update d fl fh ft =
     (let s = rd_ext d * (ft - fh);
          d1 = d\<lparr>rd_val := rd_val d - s\<rparr>
      in dec_normalize (if 0 < fl then d1\<lparr>rd_rng := rd_ext d * (fh - fl)\<rparr> else d1\<lparr>rd_rng := rd_rng d - s\<rparr>))"

definition DecodeRawSymbol :: "RangeDecoder \<Rightarrow> u32 \<Rightarrow> (u32 \<times> RangeDecoder) option" where
  "DecodeRawSymbol d nbits =
     (let (sym, d1) = decodeBin d nbits
      in map_option (Pair sym) (Update d1 sym (sym + 1) (push_bit (unat nbits) 1)))"

definition dec_BitLogp :: "RangeDecoder \<Rightarrow> u32 \<Rightarrow> (int \<times> RangeDecoder) option" where
  "dec_BitLogp d logp =
     (let r = rd_rng d; dv = rd_val d; s = drop_bit (unat logp) r
      in if dv < s then map_option (Pair 1) (dec_normalize (d\<lparr>rd_rng := s\<rparr>))
         else map_option (Pair 0) (dec_normalize (d\<lparr>rd_val := dv - s, rd_rng := r - s\<rparr>)))"

text \<open>The search of \<^verbatim>\<open>DecodeICDF\<close>: the symbol, and the bounds of its part of the range.\<close>

fun icdf_search :: "u32 \<Rightarrow> u32 \<Rightarrow> bytes \<Rightarrow> nat \<Rightarrow> u32 \<Rightarrow> nat \<times> u32 \<times> u32" where
  "icdf_search dv r [] ret s = (ret, s, s)"
| "icdf_search dv r (c # cs) ret t =
     (let s = r * ucast c
      in if s \<le> dv \<or> cs = [] then (ret, t, s) else icdf_search dv r cs (Suc ret) s)"

definition DecodeICDF :: "RangeDecoder \<Rightarrow> bytes \<Rightarrow> u32 \<Rightarrow> (int \<times> RangeDecoder) option" where
  "DecodeICDF d icdf ftb =
     (if icdf = [] then Some (0, d\<lparr>rd_Err := 1\<rparr>)
      else
        let dv = rd_val d;
            (ret, t, s) = icdf_search dv (drop_bit (unat ftb) (rd_rng d)) icdf 0 (rd_rng d)
        in map_option (Pair (int ret)) (dec_normalize (d\<lparr>rd_val := dv - s, rd_rng := t - s\<rparr>)))"

text \<open>The search of \<^verbatim>\<open>DecodeCDF\<close>, over the entries after the first.\<close>

fun cdf_search :: "u32 \<Rightarrow> u16 list \<Rightarrow> nat \<Rightarrow> nat" where
  "cdf_search target [] k = k"
| "cdf_search target (c # cs) k = (if target < ucast c then k else cdf_search target cs (Suc k))"

text \<open>
  A table that ends below the target makes the code index one past its end (a panic); otherwise the entries
  \<open>k\<close> and \<open>k + 1\<close> exist.
\<close>

definition DecodeCDF :: "RangeDecoder \<Rightarrow> u16 list \<Rightarrow> (string, (int \<times> RangeDecoder) option) outcome" where
  "DecodeCDF d cdf =
     (let n = length cdf
      in if n < 2 then Ret (Some (0, d\<lparr>rd_Err := 1\<rparr>))
         else
           let base = (ucast (cdf ! 0) :: u32); top = (ucast (cdf ! (n - 1)) :: u32)
           in if top \<le> base then Ret (Some (0, d\<lparr>rd_Err := 1\<rparr>))
              else
                let ft = top - base;
                    (fs, d1) = Decode d ft;
                    k = cdf_search (base + fs) (tl cdf) 0
                in if n \<le> k + 1 then Panic
                   else Ret (map_option (Pair (int k))
                          (Update d1 (ucast (cdf ! k) - base) (ucast (cdf ! (k + 1)) - base) ft)))"

function bits_fill :: "u32 \<Rightarrow> u32 \<Rightarrow> RangeDecoder \<Rightarrow> u32 \<times> u32 \<times> RangeDecoder" where
  "bits_fill window available d =
     (let (b, d1) = readByteFromEnd d;
          window1 = window OR push_bit (unat available) b;
          available1 = available + 8
      in if 24 < available1 then (window1, available1, d1) else bits_fill window1 available1 d1)"
  by pat_completeness auto

termination bits_fill
proof (relation "measure (\<lambda>(w, a, d). if a \<le> 24 then 25 - unat a else 26)", goal_cases)
  case (2 window available d x b d1 window1 available1)
  then have "available1 \<le> 24" by simp
  moreover have "unat (available + 8) = unat available + 8" if "available \<le> 24"
  proof -
    have "unat available \<le> 24" using that by (simp add: word_le_nat_alt)
    then show ?thesis by (simp add: unat_word_ariths)
  qed
  ultimately show ?case using 2(4) by (auto simp: word_le_nat_alt)
qed simp

declare bits_fill.simps [simp del]

definition dec_BitsN :: "RangeDecoder \<Rightarrow> u32 \<Rightarrow> u32 \<times> RangeDecoder" where
  "dec_BitsN d n =
     (let (window, available, d1) =
            (if word_of_int (rd_nendBits d) < n then bits_fill (rd_endWindow d) (word_of_int (rd_nendBits d)) d
             else (rd_endWindow d, word_of_int (rd_nendBits d), d));
          ret = window AND (push_bit (unat n) 1 - 1)
      in (ret, d1\<lparr>rd_endWindow := drop_bit (unat n) window, rd_nendBits := sint available - sint n,
                rd_nbitsTotal := rd_nbitsTotal d1 + sint n\<rparr>))"

definition DecodeUint :: "RangeDecoder \<Rightarrow> u32 \<Rightarrow> (u32 \<times> RangeDecoder) option" where
  "DecodeUint d ft0 =
     (let ft = ft0 - 1; ftb = ilog ft
      in if 8 < ftb then
           let sh = nat (ftb - 8);
               t = drop_bit sh ft + 1;
               (s, d1) = Decode d t
           in (case Update d1 s (s + 1) t of
                 None \<Rightarrow> None
               | Some d2 \<Rightarrow>
                   let (low, d3) = dec_BitsN d2 (of_nat sh);
                       v = push_bit sh s OR low
                   in Some (if v \<le> ft then (v, d3) else (ft, d3\<lparr>rd_Err := 1\<rparr>)))
         else
           let (s, d1) = Decode d (ft + 1)
           in map_option (Pair s) (Update d1 s (s + 1) (ft + 1)))"

text \<open>The symbol is below 64 unless \<open>val\<close> is out of range, where the code clamps it.\<close>

definition Decode64FineSym :: "RangeDecoder \<Rightarrow> (int \<times> RangeDecoder) option" where
  "Decode64FineSym d =
     (let ext = drop_bit 6 (rd_rng d)
      in if ext = 0 then Some (0, d\<lparr>rd_Err := 1, rd_ext := 1\<rparr>)
         else
           let s = rd_val d div ext;
               sym0 = 63 - uint s;
               sym = (if sym0 < 0 then 0 else if 64 < sym0 then 64 else sym0)
           in map_option (Pair sym) (Update (d\<lparr>rd_ext := ext\<rparr>) (word_of_int sym) (word_of_int sym + 1) 64))"

definition dec_Tell :: "RangeDecoder \<Rightarrow> int" where
  "dec_Tell d = rd_nbitsTotal d - ilog (rd_rng d)"

section \<open>Encoder\<close>

record RangeEncoder =
  re_buf :: bytes
  re_storage :: u32
  re_endOffs :: u32
  re_endWindow :: u32
  re_nendBits :: int
  re_nbitsTotal :: int
  re_offs :: u32
  re_rng :: u32
  re_val :: u32
  re_ext :: nat
  re_rem :: int
  re_err :: int

definition NewRangeEncoder :: "nat \<Rightarrow> RangeEncoder" where
  "NewRangeEncoder sz =
     \<lparr>re_buf = replicate sz 0, re_storage = of_nat sz, re_endOffs = 0, re_endWindow = 0, re_nendBits = 0,
      re_nbitsTotal = 32 + 1, re_offs = 0, re_rng = ecCodeTop, re_val = 0, re_ext = 0, re_rem = -1, re_err = 0\<rparr>"

definition writeByte :: "RangeEncoder \<Rightarrow> u32 \<Rightarrow> RangeEncoder" where
  "writeByte e b =
     (if re_offs e + re_endOffs e < re_storage e
      then e\<lparr>re_buf := (re_buf e)[unat (re_offs e) := ucast b], re_offs := re_offs e + 1\<rparr>
      else e\<lparr>re_err := -1\<rparr>)"

definition writeByteAtEnd :: "RangeEncoder \<Rightarrow> u32 \<Rightarrow> RangeEncoder" where
  "writeByteAtEnd e b =
     (if re_offs e + re_endOffs e < re_storage e
      then e\<lparr>re_endOffs := re_endOffs e + 1,
             re_buf := (re_buf e)[unat (re_storage e - (re_endOffs e + 1)) := ucast b]\<rparr>
      else e\<lparr>re_err := -1\<rparr>)"

text \<open>The pending bytes, all equal to \<open>sym\<close>; their count ends at zero.\<close>

fun write_pending :: "nat \<Rightarrow> u32 \<Rightarrow> RangeEncoder \<Rightarrow> RangeEncoder" where
  "write_pending 0 b e = e"
| "write_pending (Suc k) b e = write_pending k b ((writeByte e b)\<lparr>re_ext := k\<rparr>)"

definition carryOut :: "RangeEncoder \<Rightarrow> u32 \<Rightarrow> RangeEncoder" where
  "carryOut e c =
     (if c \<noteq> 255 then
        let carry = drop_bit 8 c;
            e1 = (if 0 \<le> re_rem e then writeByte e (word_of_int (re_rem e + uint carry)) else e);
            e2 = (if 0 < re_ext e1 then write_pending (re_ext e1) ((255 + carry) AND 255) e1 else e1)
        in e2\<lparr>re_rem := uint (c AND 255)\<rparr>
      else e\<lparr>re_ext := re_ext e + 1\<rparr>)"

definition enc_shift :: "RangeEncoder \<Rightarrow> RangeEncoder" where
  "enc_shift e =
     (let e1 = carryOut e (drop_bit 23 (re_val e))
      in e1\<lparr>re_val := push_bit 8 (re_val e1) AND (ecCodeTop - 1), re_rng := push_bit 8 (re_rng e1),
            re_nbitsTotal := re_nbitsTotal e1 + 8\<rparr>)"

partial_function (option) enc_normalize :: "RangeEncoder \<Rightarrow> RangeEncoder option" where
  "enc_normalize e = (if re_rng e \<le> ecCodeBot then enc_normalize (enc_shift e) else Some e)"

definition Encode :: "RangeEncoder \<Rightarrow> u32 \<Rightarrow> u32 \<Rightarrow> u32 \<Rightarrow> RangeEncoder option" where
  "Encode e fl fh ft =
     (if ft = 0 then Some (e\<lparr>re_err := -1\<rparr>)
      else
        let r = re_rng e div ft
        in enc_normalize
             (if 0 < fl then e\<lparr>re_val := re_val e + (re_rng e - r * (ft - fl)), re_rng := r * (fh - fl)\<rparr>
              else e\<lparr>re_rng := re_rng e - r * (ft - fh)\<rparr>))"

definition enc_BitLogp :: "RangeEncoder \<Rightarrow> int \<Rightarrow> u32 \<Rightarrow> RangeEncoder option" where
  "enc_BitLogp e v logp =
     (let r = re_rng e; l = re_val e; s = drop_bit (unat logp) r; r2 = r - s
      in enc_normalize (if v \<noteq> 0 then e\<lparr>re_val := l + r2, re_rng := s\<rparr> else e\<lparr>re_rng := r2\<rparr>))"

text \<open>A symbol outside the table indexes it out of range, a panic.\<close>

definition EncodeICDF :: "RangeEncoder \<Rightarrow> int \<Rightarrow> bytes \<Rightarrow> u32 \<Rightarrow> (string, RangeEncoder option) outcome" where
  "EncodeICDF e s icdf ftb =
     (if s < 0 \<or> int (length icdf) \<le> s then Panic
      else
        let r = drop_bit (unat ftb) (re_rng e); i = nat s
        in Ret (enc_normalize
             (if 0 < s
              then e\<lparr>re_val := re_val e + (re_rng e - r * ucast (icdf ! (i - 1))),
                     re_rng := r * ucast (icdf ! (i - 1) - icdf ! i)\<rparr>
              else e\<lparr>re_rng := re_rng e - r * ucast (icdf ! i)\<rparr>)))"

definition EncodeCDF :: "RangeEncoder \<Rightarrow> int \<Rightarrow> u16 list \<Rightarrow> RangeEncoder option" where
  "EncodeCDF e s cdf =
     (let n = length cdf
      in if n < 2 \<or> s < 0 \<or> int n \<le> s + 1 then Some (e\<lparr>re_err := -1\<rparr>)
         else
           let base = (ucast (cdf ! 0) :: u32); top = (ucast (cdf ! (n - 1)) :: u32)
           in if top \<le> base then Some (e\<lparr>re_err := -1\<rparr>)
              else Encode e (ucast (cdf ! nat s) - base) (ucast (cdf ! (nat s + 1)) - base) (top - base))"

text \<open>The loop empties the window byte by byte, at least once.\<close>

function bits_flush :: "u32 \<Rightarrow> int \<Rightarrow> RangeEncoder \<Rightarrow> u32 \<times> int \<times> RangeEncoder" where
  "bits_flush window used e =
     (let e1 = writeByteAtEnd e (window AND 255);
          window1 = drop_bit 8 window;
          used1 = used - 8
      in if used1 < 8 then (window1, used1, e1) else bits_flush window1 used1 e1)"
  by pat_completeness auto

termination bits_flush
  by (relation "measure (\<lambda>(w, used, e). nat used)") auto

declare bits_flush.simps [simp del]

definition enc_BitsN :: "RangeEncoder \<Rightarrow> u32 \<Rightarrow> u32 \<Rightarrow> RangeEncoder" where
  "enc_BitsN e fl n =
     (let (window, used, e1) =
            (if 32 < re_nendBits e + sint n then bits_flush (re_endWindow e) (re_nendBits e) e
             else (re_endWindow e, re_nendBits e, e))
      in e1\<lparr>re_endWindow := window OR push_bit (unat (word_of_int used :: u32)) fl,
            re_nendBits := used + sint n, re_nbitsTotal := re_nbitsTotal e1 + sint n\<rparr>)"

definition EncodeUint :: "RangeEncoder \<Rightarrow> u32 \<Rightarrow> u32 \<Rightarrow> RangeEncoder option" where
  "EncodeUint e fl ft0 =
     (let ft = ft0 - 1; ftb = ilog ft
      in if 8 < ftb then
           let shift = nat (ftb - 8);
               t = drop_bit shift ft + 1
           in map_option (\<lambda>e1. enc_BitsN e1 (fl AND (push_bit shift 1 - 1)) (of_nat shift))
                (Encode e (drop_bit shift fl) (drop_bit shift fl + 1) t)
         else Encode e fl (fl + 1) (ft + 1))"

definition EncodeRawSymbol :: "RangeEncoder \<Rightarrow> u32 \<Rightarrow> u32 \<Rightarrow> RangeEncoder option" where
  "EncodeRawSymbol e x nbits = Encode e x (x + 1) (push_bit (unat nbits) 1)"

definition Encode64FineSym :: "RangeEncoder \<Rightarrow> int \<Rightarrow> RangeEncoder option" where
  "Encode64FineSym e x = Encode e (word_of_int x) (word_of_int x + 1) 64"

text \<open>The flush: \<open>l\<close> bits of \<open>end\<close>, a byte at a time.\<close>

function flush_loop :: "int \<Rightarrow> u32 \<Rightarrow> RangeEncoder \<Rightarrow> RangeEncoder" where
  "flush_loop l fin e =
     (if 0 < l then flush_loop (l - 8) (push_bit 8 fin AND (ecCodeTop - 1)) (carryOut e (drop_bit 23 fin)) else e)"
  by pat_completeness auto

termination flush_loop
  by (relation "measure (\<lambda>(l, fin, e). nat l)") auto

declare flush_loop.simps [simp del]

function flush_window :: "u32 \<Rightarrow> int \<Rightarrow> RangeEncoder \<Rightarrow> u32 \<times> int \<times> RangeEncoder" where
  "flush_window window used e =
     (if 8 \<le> used then flush_window (drop_bit 8 window) (used - 8) (writeByteAtEnd e (window AND 255))
      else (window, used, e))"
  by pat_completeness auto

termination flush_window
  by (relation "measure (\<lambda>(w, used, e). nat used)") auto

declare flush_window.simps [simp del]

definition final_code :: "RangeEncoder \<Rightarrow> int \<times> u32" where
  "final_code e =
     (let l = 32 - ilog (re_rng e);
          msk = drop_bit (nat l) (ecCodeTop - 1);
          fin = (re_val e + msk) AND NOT msk
      in if re_val e + re_rng e \<le> fin OR msk then
           let msk1 = drop_bit 1 msk in (l + 1, (re_val e + msk1) AND NOT msk1)
         else (l, fin))"

definition Done :: "RangeEncoder \<Rightarrow> RangeEncoder" where
  "Done e =
     (let (l, fin) = final_code e;
          e1 = flush_loop l fin e;
          e2 = (if 0 \<le> re_rem e1 \<or> 0 < re_ext e1 then carryOut e1 0 else e1);
          (window, used, e3) = flush_window (re_endWindow e2) (re_nendBits e2) e2
      in if re_err e3 = 0 then
           let lo = unat (re_offs e3); hi = unat (re_storage e3 - re_endOffs e3);
               e4 = e3\<lparr>re_buf := take lo (re_buf e3) @ replicate (hi - lo) 0 @ drop (max lo hi) (re_buf e3)\<rparr>
           in if 0 < used then
                (if re_storage e4 - re_offs e4 \<le> re_endOffs e4 then e4\<lparr>re_err := -1\<rparr>
                 else
                   let i = unat (re_storage e4 - re_endOffs e4 - 1)
                   in e4\<lparr>re_buf := (re_buf e4)[i := re_buf e4 ! i OR ucast window]\<rparr>)
              else e4
         else e3)"

definition ConsumedLen :: "RangeEncoder \<Rightarrow> nat" where
  "ConsumedLen e = unat (re_offs e + re_endOffs e)"

declare dec_normalize.simps [code]
declare enc_normalize.simps [code]

end
