(* ===== verification/RangeCoding.thy ===== *)
theory RangeCoding
  imports RangeCoder
begin

text \<open>
  What the range encoder writes, the range decoder reads. The encoder's registers and its bytes stand for an interval
  of exact integers that every symbol narrows; the decoder's register is the distance of the bytes it reads from the
  top of the same interval. The lemmas go from the registers to these integers once, and argue about intervals only.
\<close>

section \<open>Bytes as a number\<close>

definition num :: "nat list \<Rightarrow> nat" where
  "num xs = foldl (\<lambda>a b. a * 256 + b) 0 xs"

lemma num_Nil [simp]: "num [] = 0"
  by (simp add: num_def)

lemma num_snoc [simp]: "num (xs @ [b]) = num xs * 256 + b"
  by (simp add: num_def)

lemma num_append: "num (xs @ ys) = num xs * 256 ^ length ys + num ys"
proof (induction ys rule: rev_induct)
  case (snoc y ys)
  have "num (xs @ ys @ [y]) = num (xs @ ys) * 256 + y" using num_snoc [of "xs @ ys" y] by simp
  then show ?case by (simp add: snoc algebra_simps)
qed simp

lemma num_255: "num (replicate k 255) + 1 = 256 ^ k"
proof (induction k)
  case (Suc k)
  have "num (replicate (Suc k) 255) = num (replicate k 255) * 256 + 255"
    by (metis num_snoc replicate_append_same replicate_Suc)
  then show ?case using Suc by simp
qed simp

lemma num_0: "num (replicate k 0) = 0"
proof (induction k)
  case (Suc k)
  then show ?case by (metis num_snoc replicate_append_same replicate_Suc add_0 mult_0)
qed simp

lemma num_one: "num [b] = b"
  using num_snoc [of "[]" b] by simp

text \<open>A carry into a byte runs through the pending \<open>0xff\<close> bytes behind it.\<close>

lemma num_carry: "num (xs @ [b + 1] @ replicate k 0) = num (xs @ [b] @ replicate k 255) + 1"
proof -
  have "num ([b + 1] @ replicate k 0) = (b + 1) * 256 ^ k" by (simp only: num_append) (simp add: num_one num_0)
  moreover have "num ([b] @ replicate k 255) + 1 = (b + 1) * 256 ^ k"
    using num_255 [of k] by (simp only: num_append) (simp add: num_one)
  ultimately show ?thesis by (simp only: num_append [of xs]) simp
qed

section \<open>Writing bytes\<close>

definition written :: "RangeEncoder \<Rightarrow> nat list" where
  "written e = map unat (take (unat (re_offs e)) (re_buf e))"

definition room :: "RangeEncoder \<Rightarrow> bool" where
  "room e \<longleftrightarrow> length (re_buf e) = unat (re_storage e) \<and> unat (re_offs e) + unat (re_endOffs e) \<le> unat (re_storage e)"

lemma room_sum: "room e \<Longrightarrow> unat (re_offs e + re_endOffs e) = unat (re_offs e) + unat (re_endOffs e)"
  by (rule unat_add_u32) (use unat_u32_less [of "re_storage e"] in \<open>auto simp: room_def\<close>)

lemma writeByte_ok:
  assumes "room e" "re_err (writeByte e b) = 0"
  shows "room (writeByte e b)" "written (writeByte e b) = written e @ [unat b mod 256]" "re_err e = 0"
proof -
  have less: "re_offs e + re_endOffs e < re_storage e"
    using assms(2) by (auto simp: writeByte_def split: if_splits)
  then have lt: "unat (re_offs e) + unat (re_endOffs e) < unat (re_storage e)"
    using room_sum [OF assms(1)] by (simp add: word_less_nat_alt)
  have off: "unat (re_offs e + 1) = unat (re_offs e) + 1"
    using lt unat_u32_less [of "re_storage e"] unat_add_u32 [of "re_offs e" 1] by simp
  show "room (writeByte e b)" using assms(1) less lt off by (simp add: writeByte_def room_def)
  show "re_err e = 0" using assms(2) less by (simp add: writeByte_def)
  show "written (writeByte e b) = written e @ [unat b mod 256]"
    using assms(1) less lt off
    by (simp add: writeByte_def written_def room_def take_Suc_conv_app_nth map_update unat_byte)
qed

lemma writeByte_rest [simp]:
  "re_rng (writeByte e b) = re_rng e" "re_val (writeByte e b) = re_val e" "re_rem (writeByte e b) = re_rem e"
  "re_ext (writeByte e b) = re_ext e" "re_endOffs (writeByte e b) = re_endOffs e"
  "re_endWindow (writeByte e b) = re_endWindow e" "re_nendBits (writeByte e b) = re_nendBits e"
  "re_storage (writeByte e b) = re_storage e"
  by (simp_all add: writeByte_def)

lemma write_pending_rest [simp]:
  "re_rng (write_pending k b e) = re_rng e" "re_val (write_pending k b e) = re_val e"
  "re_rem (write_pending k b e) = re_rem e" "re_endOffs (write_pending k b e) = re_endOffs e"
  "re_endWindow (write_pending k b e) = re_endWindow e" "re_nendBits (write_pending k b e) = re_nendBits e"
  "re_storage (write_pending k b e) = re_storage e"
  by (induction k arbitrary: e) simp_all

lemma fields_irrelevant [simp]:
  "room (e\<lparr>re_ext := k\<rparr>) = room e" "written (e\<lparr>re_ext := k\<rparr>) = written e"
  "room (e\<lparr>re_rem := x\<rparr>) = room e" "written (e\<lparr>re_rem := x\<rparr>) = written e"
  "room (e\<lparr>re_val := v\<rparr>) = room e" "written (e\<lparr>re_val := v\<rparr>) = written e"
  "room (e\<lparr>re_rng := v\<rparr>) = room e" "written (e\<lparr>re_rng := v\<rparr>) = written e"
  "room (e\<lparr>re_nbitsTotal := t\<rparr>) = room e" "written (e\<lparr>re_nbitsTotal := t\<rparr>) = written e"
  by (simp_all add: room_def written_def)

lemma write_pending_err: "re_err e \<noteq> 0 \<Longrightarrow> re_err (write_pending k b e) \<noteq> 0"
  by (induction k arbitrary: e) (simp_all add: writeByte_def)

lemma write_pending_ok:
  "room e \<Longrightarrow> re_err (write_pending k b e) = 0 \<Longrightarrow>
     room (write_pending k b e) \<and> written (write_pending k b e) = written e @ replicate k (unat b mod 256)
     \<and> re_err e = 0 \<and> re_ext (write_pending k b e) = (if k = 0 then re_ext e else 0)"
proof (induction k arbitrary: e)
  case (Suc k)
  let ?e = "(writeByte e b)\<lparr>re_ext := k\<rparr>"
  have "re_err ?e = 0" using Suc.prems(2) write_pending_err [of ?e k b] by auto
  then have "re_err (writeByte e b) = 0" by simp
  note w = writeByte_ok [OF Suc.prems(1) this]
  have "room ?e" using w(1) by simp
  from Suc.IH [OF this] Suc.prems(2) w show ?case by auto
qed simp

section \<open>Emitting a symbol\<close>

definition syms :: "RangeEncoder \<Rightarrow> nat list" where
  "syms e = written e @ (if 0 \<le> re_rem e then [nat (re_rem e)] else []) @ replicate (re_ext e) 255"

definition rem_ok :: "RangeEncoder \<Rightarrow> bool" where
  "rem_ok e \<longleftrightarrow> -1 \<le> re_rem e \<and> re_rem e \<le> 255 \<and> (re_rem e = -1 \<longrightarrow> written e = [])"

lemma carryOut_rest [simp]:
  "re_rng (carryOut e c) = re_rng e" "re_val (carryOut e c) = re_val e" "re_endOffs (carryOut e c) = re_endOffs e"
  "re_endWindow (carryOut e c) = re_endWindow e" "re_nendBits (carryOut e c) = re_nendBits e"
  "re_storage (carryOut e c) = re_storage e"
  by (simp_all add: carryOut_def Let_def)

lemma unat_carry: "unat (c :: u32) < 512 \<Longrightarrow> unat (drop_bit 8 c) = (if 256 \<le> unat c then 1 else 0)"
  by (simp only: unat_drop_bit_u32) (auto intro: div_nat_eqI)

text \<open>
  One more symbol, with a carry where it has nine bits: the number written so far takes it in, provided that a carry
  finds a byte that can be increased.
\<close>

lemma carryOut_ok:
  assumes "room e" "rem_ok e" "unat c < 512" "256 \<le> unat c \<Longrightarrow> 0 \<le> re_rem e \<and> re_rem e < 255"
    and err: "re_err (carryOut e c) = 0"
  shows "room (carryOut e c)" "rem_ok (carryOut e c)" "re_err e = 0"
    "num (syms (carryOut e c)) = num (syms e) * 256 + unat c" "length (syms (carryOut e c)) = length (syms e) + 1"
    "unat c = 255 \<Longrightarrow> re_rem (carryOut e c) = re_rem e" "unat c \<noteq> 255 \<Longrightarrow> re_rem (carryOut e c) = int (unat c mod 256)"
proof -
  let ?e' = "carryOut e c"
  have "room ?e' \<and> rem_ok ?e' \<and> re_err e = 0 \<and> num (syms ?e') = num (syms e) * 256 + unat c
    \<and> length (syms ?e') = length (syms e) + 1 \<and> (unat c = 255 \<longrightarrow> re_rem ?e' = re_rem e)
    \<and> (unat c \<noteq> 255 \<longrightarrow> re_rem ?e' = int (unat c mod 256))"
  proof (cases "c = 255")
    case True
    have "syms ?e' = syms e @ [255]"
      by (simp add: True carryOut_def syms_def replicate_append_same flip: replicate_Suc)
    then show ?thesis using assms(1,2) err by (simp add: True carryOut_def rem_ok_def)
  next
    case False
    then have c: "unat c \<noteq> 255" by (simp add: word_unat_eq_iff)
    define carry where "carry = drop_bit 8 c"
    have carry: "unat carry = (if 256 \<le> unat c then 1 else 0)"
      unfolding carry_def using assms(3) by (rule unat_carry)
    define e1 where "e1 = (if 0 \<le> re_rem e then writeByte e (word_of_int (re_rem e + uint carry)) else e)"
    define e2 where "e2 = (if 0 < re_ext e1 then write_pending (re_ext e1) ((255 + carry) AND 255) e1 else e1)"
    have out: "?e' = e2\<lparr>re_rem := uint (c AND 255)\<rparr>"
      using False by (simp add: carryOut_def Let_def e1_def e2_def carry_def)
    have err2: "re_err e2 = 0" using err by (simp add: out)
    have "re_err e1 = 0"
      using err2 write_pending_err [of e1] by (auto simp: e2_def split: if_splits)
    then have e1: "room e1 \<and> re_ext e1 = re_ext e \<and> re_err e = 0
      \<and> written e1 = written e @ (if 0 \<le> re_rem e then [nat (re_rem e) + unat carry] else [])"
    proof (cases "0 \<le> re_rem e")
      case True
      define b :: u32 where "b = word_of_int (re_rem e + uint carry)"
      have "nat (re_rem e) + unat carry < 256"
        using assms(2,4) carry by (auto simp: rem_ok_def split: if_splits)
      moreover have "re_rem e + uint carry = int (nat (re_rem e) + unat carry)" using True by simp
      ultimately have "unat b = nat (re_rem e) + unat carry"
        unfolding b_def using unat_u32_small [of "nat (re_rem e) + unat carry"] by simp
      moreover have "e1 = writeByte e b" using True by (simp add: e1_def b_def)
      ultimately show ?thesis
        using writeByte_ok [OF assms(1), of b] \<open>re_err e1 = 0\<close> True \<open>nat (re_rem e) + unat carry < 256\<close> by simp
    qed (use assms(1) in \<open>simp add: e1_def\<close>)
    have "unat ((255 + carry) AND 255) = (if 256 \<le> unat c then 0 else 255)"
      using carry by (simp add: unat_and_255 unat_word_ariths)
    then have e2: "room e2" "re_ext e2 = 0"
      "written e2 = written e1 @ replicate (re_ext e) (if 256 \<le> unat c then 0 else 255)"
      using write_pending_ok [of e1 "re_ext e1" "(255 + carry) AND 255"] e1 err2
      by (auto simp: e2_def split: if_splits)
    have rem: "re_rem ?e' = int (unat c mod 256)" by (simp add: out uint_nat unat_and_255 del: unsigned_and_eq)
    have syms: "syms ?e' = written e2 @ [unat c mod 256]"
      using e2(2) rem by (simp add: syms_def out)
    have len: "length (syms ?e') = length (syms e) + 1"
      unfolding syms using e1 e2(3) by (simp add: syms_def)
    have "num (syms ?e') = num (syms e) * 256 + unat c"
    proof (cases "256 \<le> unat c")
      case True
      with assms(4) have "syms ?e' = (written e @ [nat (re_rem e) + 1] @ replicate (re_ext e) 0) @ [unat c mod 256]"
        using e1 e2(3) carry by (simp add: syms)
      moreover have "unat c mod 256 + 256 = unat c" 
      proof -
        have "unat c mod 256 = (unat c - 256) mod 256" using True by (rule le_mod_geq)
        then show ?thesis using True assms(3) by simp
      qed
      ultimately show ?thesis
        using num_carry [of "written e" "nat (re_rem e)" "re_ext e"] assms(4) [OF True]
        by (simp only: num_snoc) (simp add: syms_def)
    next
      case False
      then have "syms ?e' = syms e @ [unat c]" unfolding syms using e1 e2(3) carry assms(3) by (simp add: syms_def)
      then show ?thesis by simp
    qed
    moreover have "rem_ok ?e'" using rem by (simp add: rem_ok_def)
    moreover have "room ?e'" using e2(1) by (simp add: out)
    ultimately show ?thesis using e1 len rem c by simp
  qed
  then show "room ?e'" "rem_ok ?e'" "re_err e = 0"
    "num (syms ?e') = num (syms e) * 256 + unat c" "length (syms ?e') = length (syms e) + 1"
    "unat c = 255 \<Longrightarrow> re_rem ?e' = re_rem e" "unat c \<noteq> 255 \<Longrightarrow> re_rem ?e' = int (unat c mod 256)"
    by blast+
qed

section \<open>The interval of the encoder\<close>

text \<open>
  The exact lower end of the interval, scaled by \<open>2 ^ 31\<close> after the symbols written so far; the range is its width.
  The invariant bounds the upper end: when the byte before the pending ones cannot take a carry, there is none to come.
\<close>

definition low :: "RangeEncoder \<Rightarrow> nat" where
  "low e = num (syms e) * 2 ^ 31 + unat (re_val e)"

abbreviation width :: "RangeEncoder \<Rightarrow> nat" where
  "width e \<equiv> unat (re_rng e)"

definition shifts :: "RangeEncoder \<Rightarrow> nat" where
  "shifts e = length (syms e)"

definition enc_inv :: "RangeEncoder \<Rightarrow> bool" where
  "enc_inv e \<longleftrightarrow> room e \<and> rem_ok e \<and> re_endOffs e = 0 \<and> re_nendBits e = 0 \<and> 0 < width e \<and> width e \<le> 2 ^ 31
     \<and> unat (re_val e) + width e \<le> 2 ^ 32 - 256
     \<and> (re_rem e = -1 \<or> re_rem e = 255 \<longrightarrow> unat (re_val e) + width e \<le> 2 ^ 31)"

lemma unat_shift8: "unat w \<le> 2 ^ 23 \<Longrightarrow> unat (push_bit 8 (w :: u32)) = unat w * 256"
  by (simp add: push_bit_eq_mult unat_word_ariths)

lemma unat_shift8_mask: "unat (push_bit 8 (w :: u32) AND (ecCodeTop - 1)) = unat w mod 2 ^ 23 * 256"
proof -
  have "push_bit 8 w AND (ecCodeTop - 1) = take_bit 31 (push_bit 8 w)"
    by (simp add: take_bit_eq_mask mask_eq_exp_minus_1 ecCodeTop_def)
  also have "\<dots> = push_bit 8 (take_bit 23 w)" by (simp add: take_bit_push_bit)
  finally have "unat (push_bit 8 w AND (ecCodeTop - 1)) = unat (push_bit 8 (take_bit 23 w))" by simp
  moreover have "unat (take_bit 23 w) = unat w mod 2 ^ 23"
    by (simp only: unsigned_take_bit_eq) (simp add: take_bit_eq_mod)
  moreover have "unat w mod 2 ^ 23 < 2 ^ 23" by simp
  ultimately show ?thesis using unat_shift8 [of "take_bit 23 w"] by simp
qed

lemma low_byte_255: "n mod 256 = 255 \<Longrightarrow> n < 512 \<Longrightarrow> n \<noteq> 255 \<Longrightarrow> n = (511 :: nat)"
  by (cases "n < 256") (simp_all add: le_mod_geq)

lemma enc_shift_ok:
  assumes inv: "enc_inv e" and small: "width e \<le> 2 ^ 23" and err: "re_err (enc_shift e) = 0"
  shows "enc_inv (enc_shift e)" "re_err e = 0" "low (enc_shift e) = 256 * low e"
    "width (enc_shift e) = 256 * width e" "shifts (enc_shift e) = shifts e + 1"
proof -
  define c where "c = drop_bit 23 (re_val e)"
  define e1 where "e1 = carryOut e c"
  have out: "enc_shift e = e1\<lparr>re_val := push_bit 8 (re_val e1) AND (ecCodeTop - 1), re_rng := push_bit 8 (re_rng e1),
            re_nbitsTotal := re_nbitsTotal e1 + 8\<rparr>"
    by (simp add: enc_shift_def Let_def e1_def c_def)
  have c: "unat c = unat (re_val e) div 2 ^ 23" by (simp add: c_def unat_drop_bit_u32)
  have v: "unat (re_val e) = unat c * 2 ^ 23 + unat (re_val e) mod 2 ^ 23" by (simp only: c div_mult_mod_eq)
  have top: "unat (re_val e) + width e \<le> 2 ^ 32 - 256" and wd: "0 < width e"
    and cap: "re_rem e = -1 \<or> re_rem e = 255 \<Longrightarrow> unat (re_val e) + width e \<le> 2 ^ 31"
    using inv by (auto simp: enc_inv_def)
  have c512: "unat c < 512" using top wd by (simp add: c less_mult_imp_div_less)
  have c256: "0 \<le> re_rem e \<and> re_rem e < 255" if "256 \<le> unat c"
  proof -
    have "2 ^ 31 \<le> unat (re_val e)" using v that by simp
    then have "re_rem e \<noteq> -1" "re_rem e \<noteq> 255" using cap wd by auto
    then show ?thesis using inv by (auto simp: enc_inv_def rem_ok_def)
  qed
  note carry = carryOut_ok [OF _ _ c512 c256]
  have pre: "room e" "rem_ok e" "re_err (carryOut e c) = 0" using inv err by (auto simp: enc_inv_def out e1_def)
  have val: "unat (re_val (enc_shift e)) = unat (re_val e) mod 2 ^ 23 * 256"
    using unat_shift8_mask [of "re_val e"] by (simp add: out e1_def)
  show wid: "width (enc_shift e) = 256 * width e" using unat_shift8 [OF small] by (simp add: out e1_def)
  show "re_err e = 0" using carry(3) [OF pre(1,2) _ pre(3)] by simp
  have syms: "syms (enc_shift e) = syms e1" by (simp add: syms_def out)
  show "low (enc_shift e) = 256 * low e"
    using carry(4) [OF pre(1,2) _ pre(3)] v by (simp add: low_def val syms e1_def)
  show "shifts (enc_shift e) = shifts e + 1"
    using carry(5) [OF pre(1,2) _ pre(3)] by (simp add: shifts_def syms e1_def)
  have mod: "unat (re_val e) mod 2 ^ 23 * 256 \<le> 2 ^ 31 - 256"
    using mod_less_divisor [of "2 ^ 23" "unat (re_val e)"] by (simp del: mod_less_divisor)
  have rem: "re_rem (enc_shift e) = re_rem e1" by (simp add: out)
  have "unat (re_val (enc_shift e)) + width (enc_shift e) \<le> 2 ^ 31"
    if "re_rem (enc_shift e) = -1 \<or> re_rem (enc_shift e) = 255"
  proof -
    consider "unat c = 255" | "unat c = 511"
    proof (cases "unat c = 255")
      case False
      then have "unat c mod 256 = 255" using \<open>re_rem (enc_shift e) = -1 \<or> re_rem (enc_shift e) = 255\<close> carry(7) [OF pre(1,2) _ pre(3)]
        by (simp add: rem e1_def)
      then have "unat c = 511" using c512 False by (intro low_byte_255)
      then show thesis by (rule that(2))
    qed (rule that(1))
    then have "unat (re_val e) mod 2 ^ 23 + width e \<le> 2 ^ 23"
    proof cases
      case 1
      then have "re_rem e = -1 \<or> re_rem e = 255"
        using that carry(6) [OF pre(1,2) _ pre(3)] by (simp add: rem e1_def)
      then show ?thesis using cap v 1 by simp
    next
      case 2
      then show ?thesis using top v by simp
    qed
    then show ?thesis unfolding val wid by simp
  qed
  then show "enc_inv (enc_shift e)"
    using inv carry(1,2) [OF pre(1,2) _ pre(3)] wid wd small val mod
    by (simp add: enc_inv_def out e1_def rem_ok_def)
qed

lemma writeByte_err: "re_err e \<noteq> 0 \<Longrightarrow> re_err (writeByte e b) \<noteq> 0"
  by (simp add: writeByte_def)

lemma carryOut_err: "re_err e \<noteq> 0 \<Longrightarrow> re_err (carryOut e c) \<noteq> 0"
  using write_pending_err [of "writeByte e b" for b] write_pending_err [of e]
  by (simp add: carryOut_def Let_def writeByte_err)

lemma enc_shift_err: "re_err e \<noteq> 0 \<Longrightarrow> re_err (enc_shift e) \<noteq> 0"
  using carryOut_err [of e] by (simp add: enc_shift_def Let_def)

lemma enc_shift_width: "width e \<le> 2 ^ 23 \<Longrightarrow> width (enc_shift e) = 256 * width e"
  by (simp add: enc_shift_def Let_def unat_shift8)

lemma le_ecCodeBot: "w \<le> ecCodeBot \<longleftrightarrow> unat w \<le> 2 ^ 23"
  by (simp add: word_le_nat_alt ecCodeBot_def)

lemma enc_normalize_if:
  "enc_normalize e = (if width e \<le> 2 ^ 23 then enc_normalize (enc_shift e) else Some e)"
  by (subst enc_normalize.simps) (simp only: le_ecCodeBot)

lemma normalize_measure: "0 < n \<Longrightarrow> n \<le> 2 ^ 23 \<Longrightarrow> (2 ^ 24 - 256 * n :: nat) < 2 ^ 24 - n"
  by simp

lemma enc_normalize_total: "0 < width e \<Longrightarrow> \<exists>e'. enc_normalize e = Some e' \<and> 2 ^ 23 < width e'"
proof (induction "2 ^ 24 - width e" arbitrary: e rule: less_induct)
  case less
  show ?case
  proof (cases "width e \<le> 2 ^ 23")
    case True
    then show ?thesis
      using less.hyps [of "enc_shift e"] less.prems normalize_measure [OF less.prems True]
      by (simp add: enc_shift_width [OF True] enc_normalize_if [of e])
  qed (simp add: enc_normalize_if [of e])
qed

lemma enc_normalize_err:
  "enc_normalize e = Some e' \<Longrightarrow> 0 < width e \<Longrightarrow> re_err e \<noteq> 0 \<Longrightarrow> re_err e' \<noteq> 0"
proof (induction "2 ^ 24 - width e" arbitrary: e rule: less_induct)
  case less
  show ?case
  proof (cases "width e \<le> 2 ^ 23")
    case True
    have "re_err (enc_shift e) \<noteq> 0" "enc_normalize (enc_shift e) = Some e'"
      using less.prems True enc_normalize_if [of e] by (simp_all add: enc_shift_err)
    then show ?thesis
      using less.hyps [of "enc_shift e"] normalize_measure [of "width e"] less.prems(2) True enc_shift_width [OF True]
      by simp
  qed (use less.prems enc_normalize_if [of e] in simp)
qed

lemma enc_normalize_ok:
  "enc_inv e \<Longrightarrow> enc_normalize e = Some e' \<Longrightarrow> re_err e' = 0 \<Longrightarrow>
     re_err e = 0 \<and> enc_inv e' \<and> 2 ^ 23 < width e'
     \<and> (\<exists>j. low e' = 256 ^ j * low e \<and> width e' = 256 ^ j * width e \<and> shifts e' = shifts e + j)"
proof (induction "2 ^ 24 - width e" arbitrary: e rule: less_induct)
  case less
  show ?case
  proof (cases "width e \<le> 2 ^ 23")
    case False
    then show ?thesis using less.prems by (auto simp: enc_normalize_if [of e] intro: exI [of _ 0])
  next
    case True
    then have nxt: "enc_normalize (enc_shift e) = Some e'" using less.prems(2) enc_normalize_if [of e] by simp
    have "0 < width e" using less.prems(1) by (simp add: enc_inv_def)
    have err: "re_err (enc_shift e) = 0"
      using enc_normalize_err [OF nxt] less.prems(3) \<open>0 < width e\<close> enc_shift_width [OF True] by force
    note sh = enc_shift_ok [OF less.prems(1) True err]
    from less.hyps [OF _ sh(1) nxt less.prems(3)] obtain j where
      "enc_inv e'" "2 ^ 23 < width e'" "low e' = 256 ^ j * low (enc_shift e)"
      "width e' = 256 ^ j * width (enc_shift e)" "shifts e' = shifts (enc_shift e) + j"
      using normalize_measure [OF \<open>0 < width e\<close> True] sh(4) by auto
    then show ?thesis using sh by (auto intro!: exI [of _ "Suc j"])
  qed
qed

section \<open>The bytes the decoder reads\<close>

text \<open>
  The stream is the buffer followed by zeros. After \<open>n\<close> shifts the decoder has taken in \<open>4 + n\<close> bytes and compares
  with all their bits but the last one, \<open>31 + 8 n\<close> bits in all: as many as the scale of the encoder's interval.
\<close>

definition sb :: "bytes \<Rightarrow> nat \<Rightarrow> nat" where
  "sb B i = (if i < length B then unat (B ! i) else 0)"

fun code :: "bytes \<Rightarrow> nat \<Rightarrow> nat" where
  "code B 0 = 0"
| "code B (Suc k) = code B k * 256 + sb B k"

definition point :: "bytes \<Rightarrow> nat \<Rightarrow> nat" where
  "point B n = code B (4 + n) div 2"

lemma unat_u8_less: "unat (w :: u8) < 256"
  by (rule order_less_le_trans [OF unsigned_less]) simp

lemma sb_less: "sb B i < 256"
  by (simp add: sb_def unat_u8_less)

definition half :: "bytes \<Rightarrow> nat \<Rightarrow> nat" where
  "half B k = code B (Suc k) div 2"

lemma half_Suc: "half B (Suc k) = half B k * 256 + (sb B k mod 2 * 128 + sb B (Suc k) div 2)"
proof -
  have "code B (Suc k) = 2 * half B k + sb B k mod 2"
  proof -
    have "code B (Suc k) mod 2 = sb B k mod 2" unfolding code.simps(2) by presburger
    then show ?thesis using mult_div_mod_eq [of 2 "code B (Suc k)"] by (simp add: half_def)
  qed
  moreover have "code B (Suc (Suc k)) = code B (Suc k) * 256 + sb B (Suc k)" by (rule code.simps(2))
  ultimately have "code B (Suc (Suc k)) = 2 * (half B k * 256 + sb B k mod 2 * 128) + sb B (Suc k)" by simp
  then show ?thesis unfolding half_def [of B "Suc k"] by simp
qed

lemma half_Suc_bound: "sb B k mod 2 * 128 + sb B (Suc k) div 2 < 256"
proof -
  have "sb B k mod 2 \<le> 1" "sb B (Suc k) div 2 < 128" using sb_less [of B "Suc k"] by auto
  then show ?thesis by simp
qed

lemma point_half: "point B n = half B (3 + n)"
  by (simp add: point_def half_def del: code.simps)

lemma point_Suc: "point B (Suc n) = point B n * 256 + (sb B (3 + n) mod 2 * 128 + sb B (4 + n) div 2)"
  using half_Suc [of B "3 + n"] by (simp add: point_half)

lemma point_Suc_bound: "sb B (3 + n) mod 2 * 128 + sb B (4 + n) div 2 < 256"
  using half_Suc_bound [of B "3 + n"] by simp

lemma point_add: "\<exists>x. point B (n + j) = point B n * 256 ^ j + x \<and> x < 256 ^ j"
proof (induction j)
  case (Suc j)
  then obtain x where x: "point B (n + j) = point B n * 256 ^ j + x" "x < 256 ^ j" by blast
  define y where "y = sb B (3 + (n + j)) mod 2 * 128 + sb B (4 + (n + j)) div 2"
  have y: "y < 256" unfolding y_def by (rule point_Suc_bound)
  have "point B (n + Suc j) = point B n * 256 ^ Suc j + (x * 256 + y)"
    using point_Suc [of B "n + j"] x(1) by (simp add: y_def algebra_simps)
  moreover have "x * 256 + y < 256 ^ Suc j" using x(2) y by simp
  ultimately show ?case by blast
qed simp

section \<open>The registers of the decoder\<close>

definition dec_from :: "bytes \<Rightarrow> nat \<Rightarrow> nat \<Rightarrow> RangeDecoder \<Rightarrow> bool" where
  "dec_from B k hi d \<longleftrightarrow> rd_buf d = B \<and> unat (rd_storage d) = length B \<and> unat (rd_offs d) = min (Suc k) (length B)
     \<and> unat (rd_rem d) = sb B k \<and> half B k < hi \<and> unat (rd_val d) = hi - 1 - half B k"

definition dec_at :: "bytes \<Rightarrow> nat \<Rightarrow> nat \<Rightarrow> RangeDecoder \<Rightarrow> bool" where
  "dec_at B n hi d \<longleftrightarrow> rd_buf d = B \<and> unat (rd_storage d) = length B \<and> unat (rd_offs d) = min (4 + n) (length B)
     \<and> unat (rd_rem d) = sb B (3 + n) \<and> point B n < hi \<and> unat (rd_val d) = hi - 1 - point B n"

lemma readByte_ok:
  assumes "rd_buf d = B" "unat (rd_storage d) = length B" "unat (rd_offs d) = min k (length B)"
  shows "unat (fst (readByte d)) = sb B k" "unat (rd_offs (snd (readByte d))) = min (Suc k) (length B)"
proof -
  have "k < length B \<longleftrightarrow> rd_offs d < rd_storage d" using assms by (simp add: word_less_nat_alt min_def)
  moreover have "unat (rd_offs d + 1) = unat (rd_offs d) + 1" if "k < length B"
    using that assms unat_u32_less [of "rd_storage d"] unat_add_u32 [of "rd_offs d" 1] by simp
  moreover have "unat (ucast (b :: u8) :: u32) = unat b" for b
    using take_bit_nat_eq_self [of "unat b" 32] unat_u8_less [of b] by (simp add: unsigned_ucast_eq)
  ultimately show "unat (fst (readByte d)) = sb B k" "unat (rd_offs (snd (readByte d))) = min (Suc k) (length B)"
    using assms by (auto simp: readByte_def sb_def)
qed

lemma readByte_rest [simp]:
  "rd_buf (snd (readByte d)) = rd_buf d" "rd_storage (snd (readByte d)) = rd_storage d"
  "rd_rng (snd (readByte d)) = rd_rng d" "rd_val (snd (readByte d)) = rd_val d"
  "rd_Err (snd (readByte d)) = rd_Err d" "rd_ext (snd (readByte d)) = rd_ext d"
  by (simp_all add: readByte_def)

lemma unat_255_not: "unat (255 AND NOT (w :: u32)) = 255 - unat w mod 256"
proof -
  have "255 AND NOT w = 255 AND NOT (w AND 255)" by (rule bit_word_eqI) (auto simp: bit_simps)
  also have "\<dots> = 255 - (w AND 255)"
    by (rule disjunctive_diff_eq_and_not [symmetric]) (rule bit_word_eqI, auto simp: bit_simps)
  finally have eq: "255 AND NOT w = 255 - (w AND 255)" .
  have "unat (255 - (w AND 255)) = 255 - unat (w AND 255)"
    by (subst unat_sub_u32) (simp_all add: unat_and_255)
  then show ?thesis unfolding eq by (simp only: unat_and_255)
qed

lemma unat_join8:
  assumes "unat (a :: u32) < 256" "unat (b :: u32) < 256"
  shows "unat (push_bit 8 a OR b) = unat a * 256 + unat b"
proof -
  have "b AND 255 = take_bit 8 b" by (simp add: take_bit_eq_mask mask_eq_exp_minus_1)
  moreover have "b = b AND 255"
    using assms(2) by (simp only: word_unat_eq_iff unat_and_255) simp
  ultimately have "push_bit 8 a AND b = push_bit 8 a AND take_bit 8 b" by metis
  also have "\<dots> = 0" by (rule bit_word_eqI) (auto simp: bit_simps)
  finally have "push_bit 8 a OR b = push_bit 8 a + b" by (rule disjunctive_add_eq_or [symmetric])
  moreover have "unat (push_bit 8 a) = unat a * 256" using assms(1) by (intro unat_shift8) simp
  ultimately show ?thesis using assms unat_add_u32 [of "push_bit 8 a" b] by simp
qed

abbreviation rwidth :: "RangeDecoder \<Rightarrow> nat" where
  "rwidth d \<equiv> unat (rd_rng d)"

lemma halve_join: "(b :: nat) < 256 \<Longrightarrow> (a * 256 + b) div 2 mod 256 = a mod 2 * 128 + b div 2"
proof -
  assume b: "b < 256"
  have "(a * 256 + b) div 2 = a * 128 + b div 2" by simp
  also have "a * 128 = (a mod 2) * 128 + 256 * (a div 2)" using mult_div_mod_eq [of 2 a] by linarith
  finally have "(a * 256 + b) div 2 mod 256 = ((a mod 2 * 128 + b div 2) + 256 * (a div 2)) mod 256"
    by (simp add: ac_simps)
  also have "\<dots> = (a mod 2 * 128 + b div 2) mod 256" by (rule mod_mult_self2)
  also have "\<dots> = a mod 2 * 128 + b div 2"
  proof (rule mod_less)
    have "a mod 2 \<le> 1" "b div 2 < 128" using b by auto
    then show "a mod 2 * 128 + b div 2 < 256" by linarith
  qed
  finally show ?thesis .
qed

lemma dec_from_shift:
  assumes at: "dec_from B n hi d" and small: "rwidth d \<le> 2 ^ 23" and val: "unat (rd_val d) < 2 ^ 23"
  shows "dec_from B (Suc n) (256 * hi) (dec_shift d)" "rwidth (dec_shift d) = 256 * rwidth d" "rd_Err (dec_shift d) = rd_Err d"
proof -
  define d0 where "d0 = d\<lparr>rd_nbitsTotal := rd_nbitsTotal d + 8, rd_rng := push_bit 8 (rd_rng d)\<rparr>"
  define b where "b = fst (readByte d0)"
  define sym where "sym = drop_bit 1 (push_bit 8 (rd_rem d) OR b)"
  define y where "y = sb B n mod 2 * 128 + sb B (Suc n) div 2"
  have out: "dec_shift d = (snd (readByte d0))\<lparr>rd_rem := b,
      rd_val := (push_bit 8 (rd_val d) + (255 AND NOT sym)) AND (ecCodeTop - 1)\<rparr>"
    by (simp add: dec_shift_def Let_def case_prod_beta d0_def b_def sym_def)
  have d0: "rd_buf d0 = B" "unat (rd_storage d0) = length B" "unat (rd_offs d0) = min (Suc n) (length B)"
    using at by (simp_all add: d0_def dec_from_def)
  note rb = readByte_ok [OF d0]
  have b: "unat b = sb B (Suc n)" unfolding b_def by (rule rb(1))
  have "unat sym = (sb B n * 256 + sb B (Suc n)) div 2"
    using at unat_join8 [of "rd_rem d" b] sb_less [of B "n"] sb_less [of B "Suc n"]
    unfolding sym_def by (simp only: unat_drop_bit_u32) (simp add: dec_from_def b)
  then have "unat sym mod 256 = y" unfolding y_def using halve_join [OF sb_less] by metis
  then have m: "unat (255 AND NOT sym) = 255 - y" by (simp only: unat_255_not)
  have y: "y < 256" unfolding y_def by (rule half_Suc_bound)
  have v: "unat (push_bit 8 (rd_val d)) = unat (rd_val d) * 256" using val by (intro unat_shift8) simp
  have "unat (push_bit 8 (rd_val d) + (255 AND NOT sym)) = unat (rd_val d) * 256 + (255 - y)"
    using unat_add_u32 [of "push_bit 8 (rd_val d)" "255 AND NOT sym"] val v m by simp
  moreover have "unat (w AND (ecCodeTop - 1)) = unat w" if "unat w < 2 ^ 31" for w :: u32
  proof -
    have "w AND (ecCodeTop - 1) = take_bit 31 w"
      by (simp add: take_bit_eq_mask mask_eq_exp_minus_1 ecCodeTop_def)
    then show ?thesis using that by (simp only: unsigned_take_bit_eq take_bit_nat_eq_self)
  qed
  ultimately have v': "unat (rd_val (dec_shift d)) = unat (rd_val d) * 256 + (255 - y)"
    using val by (simp add: out)
  have p: "half B (Suc n) = half B n * 256 + y" using half_Suc [of B n] by (simp add: y_def)
  have hi: "half B n < hi" "unat (rd_val d) = hi - 1 - half B n" using at by (simp_all add: dec_from_def)
  show "dec_from B (Suc n) (256 * hi) (dec_shift d)"
    unfolding dec_from_def p v' using at rb b hi y by (simp add: dec_from_def out d0_def)
  show "rwidth (dec_shift d) = 256 * rwidth d" using unat_shift8 [OF small] by (simp add: out d0_def)
  show "rd_Err (dec_shift d) = rd_Err d" by (simp add: out d0_def)
qed

lemma dec_at_from: "dec_at B n = dec_from B (3 + n)"
  by (intro ext) (simp add: dec_at_def dec_from_def point_half)

lemma dec_shift_ok:
  assumes "dec_at B n hi d" and "rwidth d \<le> 2 ^ 23" and "unat (rd_val d) < 2 ^ 23"
  shows "dec_at B (Suc n) (256 * hi) (dec_shift d)" "rwidth (dec_shift d) = 256 * rwidth d" "rd_Err (dec_shift d) = rd_Err d"
  using dec_from_shift [of B "3 + n" hi d] assms by (simp_all add: dec_at_from)

lemma dec_normalize_if:
  "dec_normalize d = (if rwidth d \<le> 2 ^ 23 then dec_normalize (dec_shift d) else Some d)"
  by (subst dec_normalize.simps) (simp only: le_ecCodeBot)

lemma dec_normalize_ok:
  "dec_at B n hi d \<Longrightarrow> unat (rd_val d) < rwidth d \<Longrightarrow>
     \<exists>j d'. dec_normalize d = Some d' \<and> dec_at B (n + j) (256 ^ j * hi) d' \<and> rwidth d' = 256 ^ j * rwidth d
       \<and> 2 ^ 23 < rwidth d' \<and> (rwidth d \<le> 2 ^ 31 \<longrightarrow> rwidth d' \<le> 2 ^ 31) \<and> rd_Err d' = rd_Err d"
proof (induction "2 ^ 24 - rwidth d" arbitrary: d n hi rule: less_induct)
  case less
  show ?case
  proof (cases "rwidth d \<le> 2 ^ 23")
    case False
    then show ?thesis using less.prems by (auto simp: dec_normalize_if [of d] intro!: exI [of _ 0])
  next
    case True
    then have "unat (rd_val d) < 2 ^ 23" using less.prems(2) by simp
    note sh = dec_shift_ok [OF less.prems(1) True this]
    have "unat (rd_val (dec_shift d)) < rwidth (dec_shift d)"
    proof -
      have "hi - 1 - point B n < rwidth d" "point B n < hi" using less.prems by (simp_all add: dec_at_def)
      then have "hi \<le> point B n + rwidth d" by simp
      moreover have "point B n * 256 \<le> point B (Suc n)" using point_Suc [of B n] by simp
      ultimately have "256 * hi \<le> point B (Suc n) + 256 * rwidth d" by linarith
      then have "256 * hi - 1 - point B (Suc n) < 256 * rwidth d" using less.prems(2) by linarith
      then show ?thesis using sh(1,2) by (simp add: dec_at_def)
    qed
    then obtain j d' where "dec_normalize (dec_shift d) = Some d'" "dec_at B (Suc n + j) (256 ^ j * (256 * hi)) d'"
      "rwidth d' = 256 ^ j * rwidth (dec_shift d)" "2 ^ 23 < rwidth d'" "rwidth d' \<le> 2 ^ 31"
      "rd_Err d' = rd_Err (dec_shift d)"
      using less.hyps [OF _ sh(1)] less.prems(2) normalize_measure [OF _ True] sh(2) True by auto
    then show ?thesis using True sh
      by (intro exI [of _ "Suc j"] exI [of _ d']) (auto simp: dec_normalize_if [of d] algebra_simps)
  qed
qed

text \<open>Both ends shift as often, since the width has to end between \<open>2 ^ 23\<close> and \<open>2 ^ 31\<close>.\<close>

lemma same_shifts:
  assumes "256 ^ j * w \<le> 2 ^ 31" "256 ^ k * w \<le> 2 ^ 31" "2 ^ 23 < 256 ^ j * w" "2 ^ 23 < 256 ^ k * (w :: nat)"
  shows "j = k"
proof -
  have "j \<le> k" if "256 ^ j * w \<le> 2 ^ 31" "2 ^ 23 < 256 ^ k * w" for j k
  proof (rule ccontr)
    assume "\<not> j \<le> k"
    then obtain i where "j = k + Suc i" using less_imp_Suc_add by (metis add_Suc_right not_le)
    then have "256 ^ j * w = 256 * 256 ^ i * (256 ^ k * w)" by (simp add: power_add)
    moreover have "256 * 2 ^ 23 < 256 * 256 ^ i * (256 ^ k * w)"
    proof -
      have "(1 :: nat) \<le> 256 ^ i" by simp
      then have "256 * (256 ^ k * w) \<le> 256 * 256 ^ i * (256 ^ k * w)" by simp
      then show ?thesis using that(2) by linarith
    qed
    ultimately have "256 * 2 ^ 23 < 256 ^ j * w" by (simp only:)
    then show False using that(1) by simp
  qed
  then show ?thesis using assms by (simp add: le_antisym)
qed

section \<open>Encoder and decoder in step\<close>

text \<open>
  The stream lies in the encoder's interval, and the decoder measures its distance from the top of this interval.
\<close>

definition inside :: "bytes \<Rightarrow> RangeEncoder \<Rightarrow> bool" where
  "inside B e \<longleftrightarrow> low e \<le> point B (shifts e) \<and> point B (shifts e) < low e + width e"

definition tracks :: "bytes \<Rightarrow> RangeEncoder \<Rightarrow> RangeDecoder \<Rightarrow> bool" where
  "tracks B e d \<longleftrightarrow> dec_at B (shifts e) (low e + width e) d \<and> rwidth d = width e"

lemma inside_scaled:
  assumes "low e' = 256 ^ j * low e" "width e' = 256 ^ j * width e" "shifts e' = shifts e + j" "inside B e'"
  shows "inside B e"
proof -
  obtain x where x: "point B (shifts e + j) = point B (shifts e) * 256 ^ j + x" "x < 256 ^ j"
    using point_add by blast
  have le: "256 ^ j * low e \<le> point B (shifts e) * 256 ^ j + x"
    and less: "point B (shifts e) * 256 ^ j + x < 256 ^ j * low e + 256 ^ j * width e"
    using assms x(1) by (simp_all add: inside_def)
  from le x(2) have "256 ^ j * low e < 256 ^ j * (point B (shifts e) + 1)" by (simp add: algebra_simps)
  then have "low e < point B (shifts e) + 1" by (simp only: mult_less_cancel1)
  moreover from less have "256 ^ j * point B (shifts e) < 256 ^ j * (low e + width e)" by (simp add: algebra_simps)
  then have "point B (shifts e) < low e + width e" by (simp only: mult_less_cancel1)
  ultimately show ?thesis by (simp add: inside_def)
qed

lemma normalize_in_step:
  assumes "enc_inv e" "enc_normalize e = Some e'" "re_err e' = 0" "inside B e'"
  shows "inside B e" "tracks B e d \<Longrightarrow> \<exists>d'. dec_normalize d = Some d' \<and> tracks B e' d' \<and> rd_Err d' = rd_Err d"
proof -
  obtain j where inv: "enc_inv e'" "2 ^ 23 < width e'"
    and j: "low e' = 256 ^ j * low e" "width e' = 256 ^ j * width e" "shifts e' = shifts e + j"
    using enc_normalize_ok [OF assms(1-3)] by blast
  show ins: "inside B e" using inside_scaled [OF j assms(4)] .
  assume tr: "tracks B e d"
  then have "unat (rd_val d) < rwidth d" using ins by (auto simp: tracks_def dec_at_def inside_def)
  then obtain k d' where d': "dec_normalize d = Some d'" "dec_at B (shifts e + k) (256 ^ k * (low e + width e)) d'"
    "rwidth d' = 256 ^ k * rwidth d" "2 ^ 23 < rwidth d'" "rwidth d \<le> 2 ^ 31 \<longrightarrow> rwidth d' \<le> 2 ^ 31" "rd_Err d' = rd_Err d"
    using dec_normalize_ok [of B "shifts e" "low e + width e" d] tr by (auto simp: tracks_def)
  have wd: "rwidth d = width e" using tr by (simp add: tracks_def)
  have "j = k"
    using same_shifts [of j "width e" k] inv j(2) d'(3-5) assms(1) by (simp add: wd enc_inv_def)
  then have "tracks B e' d'" using j d'(2,3) by (simp add: tracks_def wd add_mult_distrib2)
  then show "\<exists>d'. dec_normalize d = Some d' \<and> tracks B e' d' \<and> rd_Err d' = rd_Err d" using d'(1,6) by blast
qed

text \<open>Narrowing the interval, before it is normalised.\<close>

lemma narrow:
  assumes "enc_inv e" "unat v = unat (re_val e) + a" "a + unat r \<le> width e" "0 < unat r"
  shows "enc_inv (e\<lparr>re_val := v, re_rng := r\<rparr>)" "low (e\<lparr>re_val := v, re_rng := r\<rparr>) = low e + a"
    "shifts (e\<lparr>re_val := v, re_rng := r\<rparr>) = shifts e"
proof -
  have "syms (e\<lparr>re_val := v, re_rng := r\<rparr>) = syms e" by (simp add: syms_def)
  then show "low (e\<lparr>re_val := v, re_rng := r\<rparr>) = low e + a" "shifts (e\<lparr>re_val := v, re_rng := r\<rparr>) = shifts e"
    using assms(2) by (simp_all add: low_def shifts_def)
  show "enc_inv (e\<lparr>re_val := v, re_rng := r\<rparr>)"
    using assms by (auto simp: enc_inv_def rem_ok_def)
qed

text \<open>
  The agreement of one encoding with one decoding: on a usable state the encoder returns; where it could write, the
  decoder that was in step reads the symbol and is in step again.
\<close>

definition usable :: "RangeEncoder \<Rightarrow> bool" where
  "usable e \<longleftrightarrow> 2 ^ 23 < width e \<and> width e \<le> 2 ^ 31"

definition agree :: "(RangeEncoder \<Rightarrow> RangeEncoder option) \<Rightarrow> (RangeDecoder \<Rightarrow> ('x \<times> RangeDecoder) option) \<Rightarrow> 'x \<Rightarrow> bool" where
  "agree enc dec x \<longleftrightarrow>
     (\<forall>e. usable e \<longrightarrow> (\<exists>e'. enc e = Some e' \<and> usable e' \<and> (re_err e' = 0 \<longrightarrow> re_err e = 0)
        \<and> (enc_inv e \<and> re_err e' = 0 \<longrightarrow> enc_inv e'
             \<and> (\<forall>B. inside B e' \<longrightarrow> inside B e \<and>
                  (\<forall>d. tracks B e d \<longrightarrow> (\<exists>d'. dec d = Some (x, d') \<and> tracks B e' d' \<and> rd_Err d' = rd_Err d))))))"

lemma enc_normalize_usable:
  assumes "0 < width e" "width e \<le> 2 ^ 31"
  shows "\<exists>e'. enc_normalize e = Some e' \<and> usable e'"
  using assms
proof (induction "2 ^ 24 - width e" arbitrary: e rule: less_induct)
  case less
  show ?case
  proof (cases "width e \<le> 2 ^ 23")
    case True
    then show ?thesis
      using less.hyps [of "enc_shift e"] less.prems normalize_measure [OF less.prems(1) True]
      by (simp add: enc_shift_width [OF True] enc_normalize_if [of e])
  qed (use less.prems in \<open>simp add: enc_normalize_if [of e] usable_def\<close>)
qed

text \<open>
  The pattern of every operation: narrow the interval and normalise; the decoder picks the symbol from the part its
  register lies in, narrows the same way, and normalises.
\<close>

lemma agree_narrow:
  assumes enc: "\<And>e. usable e \<Longrightarrow> enc e = enc_normalize (e\<lparr>re_val := v e, re_rng := r e\<rparr>)"
    and part: "\<And>e. usable e \<Longrightarrow> 0 < unat (r e) \<and> a e + unat (r e) \<le> width e
        \<and> (unat (re_val e) + a e < 2 ^ 32 \<longrightarrow> unat (v e) = unat (re_val e) + a e)"
    and dec: "\<And>e d B. usable e \<Longrightarrow> tracks B e d \<Longrightarrow> low e + a e \<le> point B (shifts e)
        \<Longrightarrow> point B (shifts e) < low e + a e + unat (r e)
        \<Longrightarrow> \<exists>d1. dec d = map_option (Pair x) (dec_normalize d1) \<and> rd_Err d1 = rd_Err d
              \<and> dec_at B (shifts e) (low e + a e + unat (r e)) d1 \<and> rwidth d1 = unat (r e)"
  shows "agree enc dec x"
  unfolding agree_def
proof (intro allI impI)
  fix e assume us: "usable e"
  define e1 where "e1 = e\<lparr>re_val := v e, re_rng := r e\<rparr>"
  have e1: "enc e = enc_normalize e1" using enc [OF us] by (simp add: e1_def)
  have w1: "0 < width e1" "width e1 \<le> 2 ^ 31" "re_err e1 = re_err e"
    using part [OF us] us by (auto simp: e1_def usable_def)
  obtain e' where e': "enc_normalize e1 = Some e'" "usable e'" using enc_normalize_usable [OF w1(1,2)] by blast
  have err: "re_err e' = 0 \<longrightarrow> re_err e = 0" using enc_normalize_err [OF e'(1) w1(1)] w1(3) by auto
  have "enc_inv e' \<and> (\<forall>B. inside B e' \<longrightarrow> inside B e \<and>
          (\<forall>d. tracks B e d \<longrightarrow> (\<exists>d'. dec d = Some (x, d') \<and> tracks B e' d' \<and> rd_Err d' = rd_Err d)))"
    if inv: "enc_inv e" and ok: "re_err e' = 0"
  proof (intro conjI allI impI)
    have "unat (re_val e) + a e < 2 ^ 32" using part [OF us] inv by (auto simp: enc_inv_def)
    then have "unat (v e) = unat (re_val e) + a e" using part [OF us] by blast
    note n = narrow [OF inv this, of "r e", folded e1_def]
    have n: "enc_inv e1" "low e1 = low e + a e" "shifts e1 = shifts e" using n part [OF us] by simp_all
    have r1: "width e1 = unat (r e)" by (simp add: e1_def)
    show "enc_inv e'" using enc_normalize_ok [OF n(1) e'(1) ok] by blast
    fix B assume ins: "inside B e'"
    note st = normalize_in_step [OF n(1) e'(1) ok ins]
    have pt: "low e + a e \<le> point B (shifts e)" "point B (shifts e) < low e + a e + unat (r e)"
      using st(1) by (simp_all add: inside_def n r1)
    then show "inside B e" using part [OF us] by (auto simp: inside_def)
    fix d assume "tracks B e d"
    from dec [OF us this pt] obtain d1 where d1: "dec d = map_option (Pair x) (dec_normalize d1)" "rd_Err d1 = rd_Err d"
      "dec_at B (shifts e) (low e + a e + unat (r e)) d1" "rwidth d1 = unat (r e)" by blast
    then have "tracks B e1 d1" by (simp add: tracks_def n r1)
    from st(2) [OF this] d1(1,2)
    show "\<exists>d'. dec d = Some (x, d') \<and> tracks B e' d' \<and> rd_Err d' = rd_Err d" by auto
  qed
  then show "\<exists>e'. enc e = Some e' \<and> usable e' \<and> (re_err e' = 0 \<longrightarrow> re_err e = 0)
        \<and> (enc_inv e \<and> re_err e' = 0 \<longrightarrow> enc_inv e'
             \<and> (\<forall>B. inside B e' \<longrightarrow> inside B e \<and>
                  (\<forall>d. tracks B e d \<longrightarrow> (\<exists>d'. dec d = Some (x, d') \<and> tracks B e' d' \<and> rd_Err d' = rd_Err d))))"
    using e1 e' err by simp
qed

section \<open>Symbols with cumulative frequencies\<close>

text \<open>A symbol that takes the part from \<open>fl\<close> to \<open>fh\<close> of a total \<open>ft\<close> small enough for every usable width.\<close>

definition part_ok :: "u32 \<Rightarrow> u32 \<Rightarrow> u32 \<Rightarrow> bool" where
  "part_ok fl fh ft \<longleftrightarrow> fl < fh \<and> fh \<le> ft \<and> unat ft \<le> 2 ^ 23"

lemma part_bounds:
  assumes "part_ok fl fh ft" "2 ^ 23 < W" and q: "q = W div unat ft"
  shows "1 \<le> q" "q * unat ft \<le> W" "unat fl < unat fh" "unat fh \<le> unat ft"
    "q * (unat ft - unat fl) \<le> W" "q * (unat ft - unat fh) + q * (unat fh - unat fl) = q * (unat ft - unat fl)"
    "q * (unat ft - unat fh) < W"
proof -
  show lh: "unat fl < unat fh" and ht: "unat fh \<le> unat ft"
    using assms(1) by (simp_all add: part_ok_def word_less_nat_alt word_le_nat_alt)
  have t: "0 < unat ft" "unat ft \<le> W" using lh ht assms(1,2) by (simp_all add: part_ok_def)
  then show q1: "1 \<le> q" using q div_le_mono [of "unat ft" W "unat ft"] by simp
  show qt: "q * unat ft \<le> W" unfolding q by simp
  show "q * (unat ft - unat fl) \<le> W" by (rule order_trans [OF _ qt]) simp
  show "q * (unat ft - unat fh) + q * (unat fh - unat fl) = q * (unat ft - unat fl)"
    using lh ht by (simp flip: add_mult_distrib2)
  have "q * (unat ft - unat fh) < q * unat ft" using q1 lh ht by simp
  then show "q * (unat ft - unat fh) < W" using qt by (rule order_less_le_trans)
qed

definition part_start :: "RangeEncoder \<Rightarrow> u32 \<Rightarrow> u32 \<Rightarrow> nat" where
  "part_start e fl ft = (if 0 < fl then width e - width e div unat ft * (unat ft - unat fl) else 0)"

definition part_val :: "RangeEncoder \<Rightarrow> u32 \<Rightarrow> u32 \<Rightarrow> u32" where
  "part_val e fl ft = (if 0 < fl then re_val e + (re_rng e - re_rng e div ft * (ft - fl)) else re_val e)"

definition part_rng :: "RangeEncoder \<Rightarrow> u32 \<Rightarrow> u32 \<Rightarrow> u32 \<Rightarrow> u32" where
  "part_rng e fl fh ft =
     (if 0 < fl then re_rng e div ft * (fh - fl) else re_rng e - re_rng e div ft * (ft - fh))"

lemma unat_times: "unat q * n \<le> W \<Longrightarrow> W \<le> 2 ^ 31 \<Longrightarrow> unat (x :: u32) = n \<Longrightarrow> unat (q * x) = unat q * n"
  using unat_mult_u32 [of q x] by simp

lemma unat_diff_le: "a \<le> (b :: u32) \<Longrightarrow> unat (b - a) = unat b - unat a"
  by (rule unat_sub_u32) (simp add: word_le_nat_alt)

lemma part_words:
  assumes "part_ok fl fh ft" "usable e"
  defines "q \<equiv> width e div unat ft"
  shows "unat (part_rng e fl fh ft) = (if 0 < fl then q * (unat fh - unat fl) else width e - q * (unat ft - unat fh))"
    "unat (re_val e) + part_start e fl ft < 2 ^ 32 \<longrightarrow> unat (part_val e fl ft) = unat (re_val e) + part_start e fl ft"
    "unat (re_rng e div ft * (ft - fh)) = q * (unat ft - unat fh)"
proof -
  have W: "2 ^ 23 < width e" "width e \<le> 2 ^ 31" using assms(2) by (simp_all add: usable_def)
  note b = part_bounds [OF assms(1) W(1) refl, folded q_def]
  have q: "unat (re_rng e div ft) = q" by (simp add: q_def unat_div)
  have d: "unat (ft - fl) = unat ft - unat fl" "unat (fh - fl) = unat fh - unat fl" "unat (ft - fh) = unat ft - unat fh"
    using b(3,4) by (auto intro!: unat_sub_u32)
  have m: "unat (re_rng e div ft * (ft - fl)) = q * (unat ft - unat fl)"
    "unat (re_rng e div ft * (fh - fl)) = q * (unat fh - unat fl)"
    "unat (re_rng e div ft * (ft - fh)) = q * (unat ft - unat fh)"
    using unat_times [OF _ W(2) d(1), of "re_rng e div ft"] unat_times [OF _ W(2) d(2), of "re_rng e div ft"]
      unat_times [OF _ W(2) d(3), of "re_rng e div ft"] b(5-7) by (simp_all add: q)
  show "unat (re_rng e div ft * (ft - fh)) = q * (unat ft - unat fh)" by (rule m(3))
  have s: "unat (re_rng e - re_rng e div ft * (ft - fl)) = width e - q * (unat ft - unat fl)"
    "unat (re_rng e - re_rng e div ft * (ft - fh)) = width e - q * (unat ft - unat fh)"
    using unat_sub_u32 [of "re_rng e div ft * (ft - fl)" "re_rng e"] unat_sub_u32 [of "re_rng e div ft * (ft - fh)" "re_rng e"]
      b(5,7) by (simp_all add: m)
  show "unat (part_rng e fl fh ft) = (if 0 < fl then q * (unat fh - unat fl) else width e - q * (unat ft - unat fh))"
    by (simp add: part_rng_def m s)
  show "unat (re_val e) + part_start e fl ft < 2 ^ 32 \<longrightarrow> unat (part_val e fl ft) = unat (re_val e) + part_start e fl ft"
    using unat_add_u32 [of "re_val e" "re_rng e - re_rng e div ft * (ft - fl)"]
    by (simp add: part_start_def part_val_def s q_def)
qed

text \<open>Where the part ends, seen from the top.\<close>

lemma part_end:
  assumes "part_ok fl fh ft" "usable e"
  shows "part_start e fl ft + unat (part_rng e fl fh ft) = width e - width e div unat ft * (unat ft - unat fh)"
    "0 < unat (part_rng e fl fh ft)"
proof -
  define q where "q = width e div unat ft"
  define x where "x = q * (unat ft - unat fl)"
  define y where "y = q * (unat fh - unat fl)"
  define z where "z = q * (unat ft - unat fh)"
  have "2 ^ 23 < width e" using assms(2) by (simp add: usable_def)
  note b = part_bounds [OF assms(1) this q_def, folded x_def y_def z_def]
  have "0 < y" using b(1,3) by (simp add: y_def)
  then show "part_start e fl ft + unat (part_rng e fl fh ft) = width e - width e div unat ft * (unat ft - unat fh)"
    "0 < unat (part_rng e fl fh ft)"
    using part_words(1) [OF assms, folded q_def, folded y_def z_def] b(5-7)
    by (auto simp: part_start_def simp flip: q_def x_def z_def)
qed

lemma part_fits:
  assumes "part_ok fl fh ft" "usable e"
  shows "0 < unat (part_rng e fl fh ft) \<and> part_start e fl ft + unat (part_rng e fl fh ft) \<le> width e
        \<and> (unat (re_val e) + part_start e fl ft < 2 ^ 32 \<longrightarrow> unat (part_val e fl ft) = unat (re_val e) + part_start e fl ft)"
  using part_words(2) [OF assms] part_end [OF assms] by simp

lemma Encode_narrow:
  "part_ok fl fh ft \<Longrightarrow> Encode e fl fh ft = enc_normalize (e\<lparr>re_val := part_val e fl ft, re_rng := part_rng e fl fh ft\<rparr>)"
  by (auto simp: Encode_def part_val_def part_rng_def part_ok_def Let_def)

lemma pick_symbol:
  assumes "0 < (q :: nat)" "h \<le> t" "q * (t - h) \<le> v" "0 < l \<Longrightarrow> v < q * (t - l)" "l < h"
  shows "l \<le> t - min (v div q + 1) t" "t - min (v div q + 1) t < h"
proof -
  have "t - h \<le> v div q" using assms(1,3) by (simp add: less_eq_div_iff_mult_less_eq mult.commute)
  then show "t - min (v div q + 1) t < h" using assms(2,5) by linarith
  show "l \<le> t - min (v div q + 1) t"
  proof (cases "l = 0")
    case False
    then have "v div q < t - l" using assms(1,4) by (simp add: less_mult_imp_div_less mult.commute)
    then show ?thesis by linarith
  qed simp
qed

lemma unat_ecMini: "unat (ecMini a b) = min (unat a) (unat b)"
  by (simp add: ecMini_def word_less_nat_alt min_def)

text \<open>The decoder finds the part its register lies in, and narrows as the encoder did.\<close>

lemma Decode_part:
  assumes ok: "part_ok fl fh ft" "usable e" and tr: "tracks B e d"
    and pt: "low e + part_start e fl ft \<le> point B (shifts e)"
      "point B (shifts e) < low e + part_start e fl ft + unat (part_rng e fl fh ft)"
  obtains s d1 d2 where "Decode d ft = (s, d1)" "fl \<le> s" "s < fh" "rd_ext d1 = re_rng e div ft" "rd_Err d2 = rd_Err d"
    "Update d1 fl fh ft = dec_normalize d2"
    "dec_at B (shifts e) (low e + part_start e fl ft + unat (part_rng e fl fh ft)) d2" "rwidth d2 = unat (part_rng e fl fh ft)"
proof -
  have W: "2 ^ 23 < width e" "width e \<le> 2 ^ 31" using ok(2) by (simp_all add: usable_def)
  define q where "q = width e div unat ft"
  note b = part_bounds [OF ok(1) W(1) q_def]
  have rng: "rd_rng d = re_rng e" using tr by (simp add: tracks_def word_unat_eq_iff)
  have q: "unat (re_rng e div ft) = q" by (simp add: q_def unat_div)
  have nz: "ft \<noteq> 0" "re_rng e div ft \<noteq> 0" using b(1,3,4) q by auto
  define v where "v = unat (rd_val d)"
  have val: "v = low e + width e - 1 - point B (shifts e)" "point B (shifts e) < low e + width e"
    using tr by (simp_all add: v_def tracks_def dec_at_def)
  have hi: "q * (unat ft - unat fh) \<le> v"
    using val pt(2) part_end(1) [OF ok, folded q_def] b(7) by linarith
  have lo: "v < q * (unat ft - unat fl)" if "0 < unat fl"
    using val pt(1) that b(5,7) by (simp add: part_start_def word_less_nat_alt flip: q_def)
  define s where "s = ft - ecMini (rd_val d div (re_rng e div ft) + 1) ft"
  have "unat (rd_val d div (re_rng e div ft)) = v div q" by (simp add: unat_div q [symmetric] v_def)
  moreover have "v div q < 2 ^ 31" using val W(2) pt(1) div_le_dividend [of v q] by linarith
  ultimately have "unat (rd_val d div (re_rng e div ft) + 1) = v div q + 1"
    using unat_add_u32 [of "rd_val d div (re_rng e div ft)" 1] by simp
  then have s: "unat s = unat ft - min (v div q + 1) (unat ft)"
    unfolding s_def by (subst unat_sub_u32) (simp_all add: unat_ecMini)
  note pick = pick_symbol [of q "unat fh" "unat ft" v "unat fl", folded s]
  have sl: "fl \<le> s" "s < fh"
    using pick b(1,3,4) hi lo by (simp_all add: word_le_nat_alt word_less_nat_alt)
  define d1 where "d1 = d\<lparr>rd_ext := re_rng e div ft\<rparr>"
  have dec: "Decode d ft = (s, d1)" using nz by (simp add: Decode_def Let_def rng s_def d1_def)
  define w where "w = re_rng e div ft * (ft - fh)"
  have w: "unat w = q * (unat ft - unat fh)" unfolding w_def using part_words(3) [OF ok] by (simp add: q_def)
  define d2 where "d2 = (if 0 < fl then d1\<lparr>rd_val := rd_val d1 - w, rd_rng := rd_ext d1 * (fh - fl)\<rparr>
      else d1\<lparr>rd_val := rd_val d1 - w, rd_rng := rd_rng d1 - w\<rparr>)"
  have up: "Update d1 fl fh ft = dec_normalize d2" by (simp add: Update_def Let_def d2_def d1_def w_def)
  have rng2: "rd_rng d2 = part_rng e fl fh ft" by (simp add: d2_def d1_def part_rng_def w_def rng)
  have "unat (rd_val d2) = v - q * (unat ft - unat fh)"
    using unat_sub_u32 [of w "rd_val d"] hi by (simp add: d2_def d1_def w v_def)
  then have "unat (rd_val d2) = low e + part_start e fl ft + unat (part_rng e fl fh ft) - 1 - point B (shifts e)"
    using val part_end(1) [OF ok, folded q_def] b(7) by linarith
  then have "dec_at B (shifts e) (low e + part_start e fl ft + unat (part_rng e fl fh ft)) d2"
    using tr pt(2) unfolding dec_at_def tracks_def by (simp add: d2_def d1_def)
  moreover have "rd_Err d2 = rd_Err d" by (simp add: d2_def d1_def)
  ultimately show thesis using that [of s d1 d2] dec sl up rng2 by (simp add: d1_def)
qed

lemma agree_part:
  assumes ok: "part_ok fl fh ft"
    and enc: "\<And>e. enc e = Encode e fl fh ft"
    and dec: "\<And>d s d1. rwidth d \<le> 2 ^ 31 \<Longrightarrow> 2 ^ 23 < rwidth d \<Longrightarrow> Decode d ft = (s, d1) \<Longrightarrow> fl \<le> s \<Longrightarrow> s < fh
      \<Longrightarrow> rd_ext d1 = rd_rng d div ft \<Longrightarrow> dec d = map_option (Pair x) (Update d1 fl fh ft)"
  shows "agree enc dec x"
proof (rule agree_narrow)
  fix e assume us: "usable e"
  show "enc e = enc_normalize (e\<lparr>re_val := part_val e fl ft, re_rng := part_rng e fl fh ft\<rparr>)"
    using enc Encode_narrow [OF ok] by simp
  show "0 < unat (part_rng e fl fh ft) \<and> part_start e fl ft + unat (part_rng e fl fh ft) \<le> width e
        \<and> (unat (re_val e) + part_start e fl ft < 2 ^ 32 \<longrightarrow> unat (part_val e fl ft) = unat (re_val e) + part_start e fl ft)"
    by (rule part_fits [OF ok us])
  fix d B
  assume tr: "tracks B e d" and pt: "low e + part_start e fl ft \<le> point B (shifts e)"
    "point B (shifts e) < low e + part_start e fl ft + unat (part_rng e fl fh ft)"
  have rng: "rd_rng d = re_rng e" using tr by (simp add: tracks_def word_unat_eq_iff)
  obtain s d1 d2 where d: "Decode d ft = (s, d1)" "fl \<le> s" "s < fh" "rd_ext d1 = re_rng e div ft" "rd_Err d2 = rd_Err d"
    "Update d1 fl fh ft = dec_normalize d2"
    "dec_at B (shifts e) (low e + part_start e fl ft + unat (part_rng e fl fh ft)) d2" "rwidth d2 = unat (part_rng e fl fh ft)"
    by (rule Decode_part [OF ok us tr pt])
  have "dec d = map_option (Pair x) (Update d1 fl fh ft)"
    using us by (intro dec [OF _ _ d(1-3)]) (simp_all add: rng d(4) usable_def)
  then show "\<exists>d1. dec d = map_option (Pair x) (dec_normalize d1) \<and> rd_Err d1 = rd_Err d
      \<and> dec_at B (shifts e) (low e + part_start e fl ft + unat (part_rng e fl fh ft)) d1
      \<and> rwidth d1 = unat (part_rng e fl fh ft)"
    using d(5-8) by auto
qed

section \<open>The operations of the codec\<close>

definition cdf_fits :: "u16 list \<Rightarrow> int \<Rightarrow> bool" where
  "cdf_fits cdf x \<longleftrightarrow> sorted cdf \<and> 0 \<le> x \<and> x + 1 < int (length cdf) \<and> cdf ! nat x < cdf ! (nat x + 1)"

lemma cdf_search_index:
  "sorted cs \<Longrightarrow> i < length cs \<Longrightarrow> target < ucast (cs ! i) \<Longrightarrow> (\<And>j. j < i \<Longrightarrow> ucast (cs ! j) \<le> target)
    \<Longrightarrow> cdf_search target cs k = k + i"
proof (induction cs arbitrary: i k)
  case (Cons c cs)
  show ?case
  proof (cases i)
    case 0
    then show ?thesis using Cons.prems(3) by simp
  next
    case (Suc i')
    have "\<not> target < ucast c" using Cons.prems(4) [of 0] Suc by (simp add: not_less)
    moreover have "cdf_search target cs (Suc k) = Suc k + i'"
      using Cons.prems(1-3) Cons.prems(4) [of "Suc j" for j] Suc by (intro Cons.IH) simp_all
    ultimately show ?thesis using Suc by simp
  qed
qed simp

lemma unat_ucast_u16: "unat (ucast (w :: u16) :: u32) = unat w"
proof -
  have "unat w < 2 ^ 16" by (rule order_less_le_trans [OF unsigned_less]) simp
  then show ?thesis using take_bit_nat_eq_self [of "unat w" 32] by (simp add: unsigned_ucast_eq)
qed

lemma ucast_u16_mono: "(ucast (a :: u16) :: u32) \<le> ucast b \<longleftrightarrow> a \<le> b" "(ucast (a :: u16) :: u32) < ucast b \<longleftrightarrow> a < b"
  by (simp_all add: word_le_nat_alt word_less_nat_alt unat_ucast_u16)

lemma cdf_fits_word:
  assumes "cdf_fits cdf x"
  defines "base \<equiv> ucast (cdf ! 0) :: u32"
  shows "part_ok (ucast (cdf ! nat x) - base) (ucast (cdf ! (nat x + 1)) - base) (ucast (cdf ! (length cdf - 1)) - base)"
    "base < ucast (cdf ! (length cdf - 1))" "base \<le> ucast (cdf ! nat x)" "base \<le> ucast (cdf ! (nat x + 1))"
proof -
  have len: "nat x + 1 < length cdf" and inc: "cdf ! nat x < cdf ! (nat x + 1)" and srt: "sorted cdf"
    using assms(1) by (auto simp: cdf_fits_def)
  have c: "cdf ! 0 \<le> cdf ! nat x" "cdf ! (nat x + 1) \<le> cdf ! (length cdf - 1)"
    using sorted_nth_mono [OF srt, of 0 "nat x"] sorted_nth_mono [OF srt, of "nat x + 1" "length cdf - 1"] len by auto
  have le: "base \<le> ucast (cdf ! nat x)" "(ucast (cdf ! nat x) :: u32) < ucast (cdf ! (nat x + 1))"
    "(ucast (cdf ! (nat x + 1)) :: u32) \<le> ucast (cdf ! (length cdf - 1))"
    using c inc by (simp_all add: base_def ucast_u16_mono)
  then show "base \<le> ucast (cdf ! nat x)" "base \<le> ucast (cdf ! (nat x + 1))" "base < ucast (cdf ! (length cdf - 1))"
    by auto
  have "unat (ucast (cdf ! (length cdf - 1)) :: u32) < 2 ^ 16"
    unfolding unat_ucast_u16 by (rule order_less_le_trans [OF unsigned_less]) simp
  then show "part_ok (ucast (cdf ! nat x) - base) (ucast (cdf ! (nat x + 1)) - base) (ucast (cdf ! (length cdf - 1)) - base)"
    using le by (simp add: part_ok_def word_le_nat_alt word_less_nat_alt unat_sub_u32) linarith
qed

lemma agree_CDF:
  assumes fits: "cdf_fits cdf x"
  shows "agree (\<lambda>e. EncodeCDF e x cdf) (\<lambda>d. case DecodeCDF d cdf of Ret r \<Rightarrow> r | _ \<Rightarrow> None) x"
proof -
  define n where "n = length cdf"
  define base where "base = (ucast (cdf ! 0) :: u32)"
  define fl where "fl = ucast (cdf ! nat x) - base"
  define fh where "fh = ucast (cdf ! (nat x + 1)) - base"
  define ft where "ft = ucast (cdf ! (n - 1)) - base"
  note w = cdf_fits_word [OF fits, folded base_def n_def, folded fl_def fh_def ft_def]
  have n: "2 \<le> n" "nat x + 1 < n" "0 \<le> x" using fits by (auto simp: cdf_fits_def n_def)
  show ?thesis
  proof (rule agree_part [OF w(1)])
    fix e
    show "EncodeCDF e x cdf = Encode e fl fh ft"
      using n w(2) unfolding n_def fl_def fh_def ft_def base_def by (auto simp: EncodeCDF_def Let_def)
  next
    fix d :: RangeDecoder and s d1
    assume dec: "Decode d ft = (s, d1)" and s: "fl \<le> s" "s < fh"
    have "unat base + unat s < 2 ^ 32"
      using s(2) w(4) unat_ucast_u16 [of "cdf ! (nat x + 1)"] unat_u32_less [of "ucast (cdf ! (nat x + 1)) :: u32"]
      by (simp add: fh_def word_less_nat_alt word_le_nat_alt unat_sub_u32)
    then have t: "unat (base + s) = unat base + unat s" by (rule unat_add_u32)
    have range: "ucast (cdf ! nat x) \<le> base + s" "base + s < ucast (cdf ! (nat x + 1))"
      using s w(3,4) t by (simp_all add: fl_def fh_def word_less_nat_alt word_le_nat_alt unat_sub_u32)
    have srt: "sorted cdf" using fits by (simp add: cdf_fits_def)
    have "cdf_search (base + s) (tl cdf) 0 = 0 + nat x"
    proof (rule cdf_search_index)
      show "sorted (tl cdf)" using srt by (rule sorted_tl)
      show "nat x < length (tl cdf)" using n by (simp add: n_def)
      then show "base + s < ucast (tl cdf ! nat x)" using range(2) by (simp add: nth_tl)
      show "ucast (tl cdf ! j) \<le> base + s" if "j < nat x" for j
      proof -
        have "tl cdf ! j \<le> cdf ! nat x"
          using sorted_nth_mono [OF srt, of "Suc j" "nat x"] that n by (simp add: nth_tl n_def)
        then show ?thesis using range(1) ucast_u16_mono(1) order_trans by blast
      qed
    qed
    then show "(case DecodeCDF d cdf of Ret r \<Rightarrow> r | _ \<Rightarrow> None) = map_option (Pair x) (Update d1 fl fh ft)"
      using n w(2) dec unfolding DecodeCDF_def Let_def fl_def fh_def n_def [symmetric] base_def [symmetric] ft_def [symmetric]
      by (auto dest: leD)
  qed
qed

text \<open>Uniform symbols: a shift of the width is a division by a power of two.\<close>

lemma unat_two_pow: "n < 32 \<Longrightarrow> unat (2 ^ n :: u32) = 2 ^ n"
proof -
  assume n: "n < 32"
  have "(2 :: u32) ^ n = of_nat (2 ^ n)" by simp
  then have "unat ((2 :: u32) ^ n) = take_bit 32 (2 ^ n)" by (simp only: unsigned_of_nat of_nat_id) simp
  moreover have "(2 :: nat) ^ n < 2 ^ 32" using n by (intro power_strict_increasing) simp_all
  ultimately show ?thesis using take_bit_nat_eq_self [of "2 ^ n" 32] by simp
qed

lemma unat_push_one: "n < 32 \<Longrightarrow> unat (push_bit n 1 :: u32) = 2 ^ n"
  using unat_two_pow [of n] by (simp add: push_bit_eq_mult)

lemma div_two_pow: "n < 32 \<Longrightarrow> (w :: u32) div 2 ^ n = drop_bit n w"
  by (simp only: word_unat_eq_iff unat_div unat_two_pow unat_drop_bit_u32)

lemma agree_raw:
  assumes "unat nbits \<le> 23" "0 \<le> x" "x < 2 ^ unat nbits"
  shows "agree (\<lambda>e. EncodeRawSymbol e (word_of_int x) nbits) (\<lambda>d. map_option (map_prod uint id) (DecodeRawSymbol d nbits)) x"
proof -
  define sym :: u32 where "sym = word_of_int x"
  have lt: "x < 2 ^ 23" using assms by (meson less_le_trans power_increasing one_le_numeral)
  have ux: "uint sym = x" unfolding sym_def using assms(2) lt by (intro uint_u32_small) simp_all
  then have nx: "unat sym = nat x" by (simp add: unat_eq_nat_uint)
  have p: "unat (push_bit (unat nbits) 1 :: u32) = 2 ^ unat nbits" using assms(1) by (intro unat_push_one) simp
  have s1: "unat (sym + 1) = nat x + 1" using lt assms(2) unat_add_u32 [of sym 1] by (simp add: nx)
  have "nat x < 2 ^ unat nbits" using assms by (simp add: nat_less_iff)
  then have "Suc (nat x) \<le> 2 ^ unat nbits" by (rule Suc_leI)
  moreover have "(2 :: nat) ^ unat nbits \<le> 2 ^ 23" using assms(1) by (intro power_increasing) simp_all
  ultimately have "part_ok sym (sym + 1) (push_bit (unat nbits) 1)"
    unfolding part_ok_def word_less_nat_alt word_le_nat_alt nx s1 p by simp
  then show ?thesis
    unfolding sym_def [symmetric]
  proof (rule agree_part)
    show "EncodeRawSymbol e sym nbits = Encode e sym (sym + 1) (push_bit (unat nbits) 1)" for e
      by (simp add: EncodeRawSymbol_def)
  next
    fix d :: RangeDecoder and s d1
    assume dec: "Decode d (push_bit (unat nbits) 1) = (s, d1)" and s: "sym \<le> s" "s < sym + 1"
    have "s = sym" using s by (simp add: word_le_nat_alt word_less_nat_alt s1 nx word_unat_eq_iff)
    moreover have "decodeBin d nbits = Decode d (push_bit (unat nbits) 1)"
    proof -
      have "push_bit (unat nbits) (1 :: u32) \<noteq> 0" using p by (metis unat_0 power_not_zero zero_neq_numeral)
      moreover have "unat nbits < 32" using assms(1) by simp
      ultimately show ?thesis by (simp add: decodeBin_def Decode_def Let_def div_two_pow)
    qed
    ultimately show "map_option (map_prod uint id) (DecodeRawSymbol d nbits) =
        map_option (Pair x) (Update d1 sym (sym + 1) (push_bit (unat nbits) 1))"
      using dec ux by (simp add: DecodeRawSymbol_def option.map_comp comp_def)
  qed
qed

text \<open>The fine lag: 64 equal parts, with the symbol found by a clamp instead of a minimum.\<close>

lemma fine_clamp:
  fixes m :: nat and x :: int
  assumes "0 \<le> x" "nat x = 64 - min (m + 1) 64"
  shows "(if 63 - int m < 0 then 0 else if 64 < 63 - int m then 64 else 63 - int m) = x"
proof (cases "m < 64")
  case True
  then have "nat x = 63 - m" using assms(2) by simp
  then show ?thesis using True assms(1) by simp
next
  case False
  then show ?thesis using assms by simp
qed

lemma agree_fine:
  assumes "0 \<le> x" "x < 64"
  shows "agree (\<lambda>e. Encode64FineSym e x) Decode64FineSym x"
proof -
  define sym :: u32 where "sym = word_of_int x"
  have ux: "uint sym = x" unfolding sym_def using assms by (intro uint_u32_small) simp_all
  then have nx: "unat sym = nat x" by (simp add: unat_eq_nat_uint)
  have s1: "unat (sym + 1) = nat x + 1" using assms unat_add_u32 [of sym 1] by (simp add: nx)
  have "part_ok sym (sym + 1) 64"
    using assms by (simp add: part_ok_def word_less_nat_alt word_le_nat_alt nx s1)
  then show ?thesis
  proof (rule agree_part)
    show "Encode64FineSym e x = Encode e sym (sym + 1) 64" for e
      by (simp add: Encode64FineSym_def sym_def)
  next
    fix d :: RangeDecoder and s d1
    assume wide: "2 ^ 23 < rwidth d" and dec: "Decode d 64 = (s, d1)" and s: "sym \<le> s" "s < sym + 1"
    have ssym: "s = sym" using s by (simp add: word_le_nat_alt word_less_nat_alt s1 nx word_unat_eq_iff)
    have shift: "drop_bit 6 (rd_rng d) = rd_rng d div 64" using div_two_pow [of 6 "rd_rng d"] by simp
    have q: "unat (rd_rng d div 64) = rwidth d div 64" by (simp add: unat_div)
    have "131072 \<le> rwidth d div 64" using wide by (simp add: less_eq_div_iff_mult_less_eq)
    then have nz: "rd_rng d div 64 \<noteq> 0" using q by (metis unat_0 not_numeral_le_zero)
    define k where "k = rd_val d div (rd_rng d div 64)"
    have "unat k < 2 ^ 15"
    proof -
      have "unat k = unat (rd_val d) div (rwidth d div 64)" by (simp add: k_def unat_div q)
      also have "\<dots> \<le> unat (rd_val d) div 131072"
        using \<open>131072 \<le> rwidth d div 64\<close> by (intro div_le_mono2) simp_all
      also have "\<dots> < 2 ^ 15" using unat_u32_less [of "rd_val d"] by (simp add: less_mult_imp_div_less)
      finally show ?thesis .
    qed
    then have k1: "unat (k + 1) = unat k + 1" using unat_add_u32 [of k 1] by simp
    have d1: "d1 = d\<lparr>rd_ext := rd_rng d div 64\<rparr>" "sym = 64 - ecMini (k + 1) 64"
      using dec nz by (auto simp: Decode_def Let_def k_def ssym)
    have "unat (64 - ecMini (k + 1) 64) = 64 - min (unat k + 1) 64"
      by (subst unat_sub_u32) (simp_all add: unat_ecMini k1)
    then have "nat x = 64 - min (unat k + 1) 64" using d1(2) nx by simp
    then have "(if 63 - int (unat k) < 0 then 0 else if 64 < 63 - int (unat k) then 64 else 63 - int (unat k)) = x"
      by (rule fine_clamp [OF assms(1)])
    then have clamp: "(if 63 - uint k < 0 then 0 else if 64 < 63 - uint k then 64 else 63 - uint k) = x"
      by (simp only: uint_nat)
    show "Decode64FineSym d = map_option (Pair x) (Update d1 sym (sym + 1) 64)"
      using nz clamp by (simp add: Decode64FineSym_def Let_def shift d1(1) sym_def flip: k_def)
  qed
qed

text \<open>A bit with probability \<open>2 ^ - logp\<close> of being set takes the top of the interval.\<close>

lemma agree_bit:
  assumes "1 \<le> unat logp" "unat logp \<le> 23" "x = 0 \<or> x = 1"
  shows "agree (\<lambda>e. enc_BitLogp e x logp) (\<lambda>d. dec_BitLogp d logp) x"
proof -
  define part where "part e = drop_bit (unat logp) (re_rng e)" for e :: RangeEncoder
  have part: "0 < unat (part e)" "unat (part e) < width e" if "usable e" for e
  proof -
    have "unat (part e) = width e div 2 ^ unat logp" by (simp add: part_def unat_drop_bit_u32)
    moreover have "(2 :: nat) ^ unat logp \<le> 2 ^ 23" using assms(2) by (intro power_increasing) simp_all
    then have "2 ^ unat logp \<le> width e" using that by (simp add: usable_def)
    moreover have "(1 :: nat) < 2 ^ unat logp" using assms(1) by (intro one_less_power) simp_all
    ultimately show "0 < unat (part e)" "unat (part e) < width e"
      using that by (simp_all add: div_greater_zero_iff usable_def)
  qed
  have diff: "unat (re_rng e - part e) = width e - unat (part e)" if "usable e" for e
    using part(2) [OF that] by (intro unat_sub_u32) simp
  show ?thesis
  proof (rule agree_narrow)
    fix e assume us: "usable e"
    show "enc_BitLogp e x logp = enc_normalize (e\<lparr>re_val := if x = 0 then re_val e else re_val e + (re_rng e - part e),
        re_rng := if x = 0 then re_rng e - part e else part e\<rparr>)"
      by (simp add: enc_BitLogp_def Let_def part_def)
    show "0 < unat (if x = 0 then re_rng e - part e else part e)
        \<and> (if x = 0 then 0 else width e - unat (part e)) + unat (if x = 0 then re_rng e - part e else part e) \<le> width e
        \<and> (unat (re_val e) + (if x = 0 then 0 else width e - unat (part e)) < 2 ^ 32
          \<longrightarrow> unat (if x = 0 then re_val e else re_val e + (re_rng e - part e))
              = unat (re_val e) + (if x = 0 then 0 else width e - unat (part e)))"
      using part [OF us] diff [OF us] unat_add_u32 [of "re_val e" "re_rng e - part e"] by simp
    fix d B
    assume tr: "tracks B e d"
      and lo: "low e + (if x = 0 then 0 else width e - unat (part e)) \<le> point B (shifts e)"
      and hi: "point B (shifts e) < low e + (if x = 0 then 0 else width e - unat (part e))
          + unat (if x = 0 then re_rng e - part e else part e)"
    have rng: "rd_rng d = re_rng e" using tr by (simp add: tracks_def word_unat_eq_iff)
    have val: "unat (rd_val d) = low e + width e - 1 - point B (shifts e)" using tr by (simp add: tracks_def dec_at_def)
    show "\<exists>d1. dec_BitLogp d logp = map_option (Pair x) (dec_normalize d1) \<and> rd_Err d1 = rd_Err d
        \<and> dec_at B (shifts e) (low e + (if x = 0 then 0 else width e - unat (part e))
              + unat (if x = 0 then re_rng e - part e else part e)) d1
        \<and> rwidth d1 = unat (if x = 0 then re_rng e - part e else part e)"
    proof (cases "x = 0")
      case True
      have ge: "unat (part e) \<le> unat (rd_val d)" using hi val part [OF us] True diff [OF us] by simp
      then have "\<not> rd_val d < part e" by (simp add: word_less_nat_alt)
      moreover have "unat (rd_val d - part e) = low e + (width e - unat (part e)) - 1 - point B (shifts e)"
        using unat_sub_u32 [OF ge] val part(2) [OF us] by simp
      ultimately show ?thesis
        using tr hi True diff [OF us]
        by (intro exI [of _ "d\<lparr>rd_val := rd_val d - part e, rd_rng := re_rng e - part e\<rparr>"])
          (simp add: dec_BitLogp_def Let_def rng tracks_def dec_at_def flip: part_def)
    next
      case False
      then have "rd_val d < part e" using lo val part [OF us] hi by (simp add: word_less_nat_alt)
      then show ?thesis
        using tr hi False assms(3) part [OF us]
        by (intro exI [of _ "d\<lparr>rd_rng := part e\<rparr>"])
          (auto simp: dec_BitLogp_def Let_def rng tracks_def dec_at_def simp flip: part_def)
    qed
  qed
qed

end
