(* ===== verification/SymbolCoding.thy ===== *)
theory SymbolCoding
  imports RangeCoding
begin

text \<open>
  A whole frame of symbols through the range coder: the symbols one after the other, the flush of the encoder
  (\<^verbatim>\<open>Done\<close>), and the decoder that starts on the bytes (\<^verbatim>\<open>NewRangeDecoder\<close>). The operations of the codec are the
  symbol models; that each agrees with its decoder is the contract of the locale \<open>symbol_coder\<close>, and sequences are
  handled there once.
\<close>

section \<open>Sequences of symbols\<close>

datatype symbol_model =
    ByCDF "u16 list"
  | ByRaw u32
  | ByFine
  | ByBit u32

fun enc_symbol :: "symbol_model \<Rightarrow> int \<Rightarrow> RangeEncoder \<Rightarrow> RangeEncoder option" where
  "enc_symbol (ByCDF cdf) x e = EncodeCDF e x cdf"
| "enc_symbol (ByRaw nbits) x e = EncodeRawSymbol e (word_of_int x) nbits"
| "enc_symbol ByFine x e = Encode64FineSym e x"
| "enc_symbol (ByBit logp) x e = enc_BitLogp e x logp"

fun dec_symbol :: "symbol_model \<Rightarrow> RangeDecoder \<Rightarrow> (int \<times> RangeDecoder) option" where
  "dec_symbol (ByCDF cdf) d = (case DecodeCDF d cdf of Ret r \<Rightarrow> r | _ \<Rightarrow> None)"
| "dec_symbol (ByRaw nbits) d = map_option (map_prod uint id) (DecodeRawSymbol d nbits)"
| "dec_symbol ByFine d = Decode64FineSym d"
| "dec_symbol (ByBit logp) d = dec_BitLogp d logp"

fun symbol_fits :: "symbol_model \<Rightarrow> int \<Rightarrow> bool" where
  "symbol_fits (ByCDF cdf) x = cdf_fits cdf x"
| "symbol_fits (ByRaw nbits) x = (unat nbits \<le> 23 \<and> 0 \<le> x \<and> x < 2 ^ unat nbits)"
| "symbol_fits ByFine x = (0 \<le> x \<and> x < 64)"
| "symbol_fits (ByBit logp) x = (1 \<le> unat logp \<and> unat logp \<le> 23 \<and> (x = 0 \<or> x = 1))"

fun encode_all :: "('m \<Rightarrow> 'x \<Rightarrow> RangeEncoder \<Rightarrow> RangeEncoder option) \<Rightarrow> ('m \<times> 'x) list \<Rightarrow> RangeEncoder \<Rightarrow> RangeEncoder option" where
  "encode_all enc [] e = Some e"
| "encode_all enc ((m, x) # ms) e = Option.bind (enc m x e) (encode_all enc ms)"

fun decode_all :: "('m \<Rightarrow> RangeDecoder \<Rightarrow> ('x \<times> RangeDecoder) option) \<Rightarrow> 'm list \<Rightarrow> RangeDecoder \<Rightarrow> ('x list \<times> RangeDecoder) option" where
  "decode_all dec [] d = Some ([], d)"
| "decode_all dec (m # ms) d =
     Option.bind (dec m d) (\<lambda>(x, d1). map_option (map_prod (Cons x) id) (decode_all dec ms d1))"

lemma agreeD:
  assumes "agree enc dec x" "usable e"
  shows "\<exists>e'. enc e = Some e' \<and> usable e' \<and> (re_err e' = 0 \<longrightarrow> re_err e = 0)
    \<and> (enc_inv e \<and> re_err e' = 0 \<longrightarrow> enc_inv e' \<and> (\<forall>B. inside B e' \<longrightarrow> inside B e)
        \<and> (\<forall>B d. inside B e' \<longrightarrow> tracks B e d \<longrightarrow> (\<exists>d'. dec d = Some (x, d') \<and> tracks B e' d' \<and> rd_Err d' = rd_Err d)))"
proof -
  from assms obtain e' where "enc e = Some e' \<and> usable e' \<and> (re_err e' = 0 \<longrightarrow> re_err e = 0)
        \<and> (enc_inv e \<and> re_err e' = 0 \<longrightarrow> enc_inv e'
             \<and> (\<forall>B. inside B e' \<longrightarrow> inside B e \<and>
                  (\<forall>d. tracks B e d \<longrightarrow> (\<exists>d'. dec d = Some (x, d') \<and> tracks B e' d' \<and> rd_Err d' = rd_Err d))))"
    unfolding agree_def by blast
  then show ?thesis by (intro exI [of _ e']) simp
qed

lemma agree_then:
  assumes "agree enc1 dec1 x" "agree enc2 (dec2 x) y"
  shows "agree (\<lambda>e. Option.bind (enc1 e) enc2)
    (\<lambda>d. Option.bind (dec1 d) (\<lambda>(x, d1). dec2 x d1)) y"
  unfolding agree_def
proof (intro allI impI)
  fix e assume "usable e"
  then obtain e1 where e1: "enc1 e = Some e1" "usable e1" "re_err e1 = 0 \<Longrightarrow> re_err e = 0"
    "enc_inv e \<Longrightarrow> re_err e1 = 0 \<Longrightarrow> enc_inv e1"
    "\<And>B. enc_inv e \<Longrightarrow> re_err e1 = 0 \<Longrightarrow> inside B e1 \<Longrightarrow> inside B e"
    "\<And>B d. enc_inv e \<Longrightarrow> re_err e1 = 0 \<Longrightarrow> inside B e1 \<Longrightarrow> tracks B e d
      \<Longrightarrow> \<exists>d'. dec1 d = Some (x, d') \<and> tracks B e1 d' \<and> rd_Err d' = rd_Err d"
    using agreeD [OF assms(1)] by blast
  from e1(2) obtain e2 where e2: "enc2 e1 = Some e2" "usable e2" "re_err e2 = 0 \<Longrightarrow> re_err e1 = 0"
    "enc_inv e1 \<Longrightarrow> re_err e2 = 0 \<Longrightarrow> enc_inv e2"
    "\<And>B. enc_inv e1 \<Longrightarrow> re_err e2 = 0 \<Longrightarrow> inside B e2 \<Longrightarrow> inside B e1"
    "\<And>B d. enc_inv e1 \<Longrightarrow> re_err e2 = 0 \<Longrightarrow> inside B e2 \<Longrightarrow> tracks B e1 d
      \<Longrightarrow> \<exists>d'. dec2 x d = Some (y, d') \<and> tracks B e2 d' \<and> rd_Err d' = rd_Err d"
    using agreeD [OF assms(2)] by blast
  have step: "\<exists>d'. Option.bind (dec1 d) (\<lambda>(x, d1). dec2 x d1) = Some (y, d')
      \<and> tracks B e2 d' \<and> rd_Err d' = rd_Err d"
    if inv: "enc_inv e" "re_err e2 = 0" and B: "inside B e2" and d: "tracks B e d" for B d
  proof -
    have i1: "enc_inv e1" "re_err e1 = 0" using e1 e2 inv by auto
    have b1: "inside B e1" using e2(5) i1 inv B by blast
    obtain d1 where d1: "dec1 d = Some (x, d1)" "tracks B e1 d1" "rd_Err d1 = rd_Err d"
      using e1(6) [OF inv(1) i1(2) b1 d] by blast
    obtain d2 where "dec2 x d1 = Some (y, d2)" "tracks B e2 d2" "rd_Err d2 = rd_Err d1"
      using e2(6) [OF i1(1) inv(2) B d1(2)] by blast
    then show ?thesis using d1 by simp
  qed
  show "\<exists>e'. Option.bind (enc1 e) enc2 = Some e' \<and> usable e' \<and> (re_err e' = 0 \<longrightarrow> re_err e = 0)
      \<and> (enc_inv e \<and> re_err e' = 0 \<longrightarrow> enc_inv e' \<and> (\<forall>B. inside B e' \<longrightarrow> inside B e \<and>
          (\<forall>d. tracks B e d \<longrightarrow> (\<exists>d'. Option.bind (dec1 d) (\<lambda>(x, d1). dec2 x d1)
              = Some (y, d') \<and> tracks B e' d' \<and> rd_Err d' = rd_Err d))))"
  proof (intro exI [of _ e2] conjI impI allI)
    show "Option.bind (enc1 e) enc2 = Some e2" "usable e2" using e1 e2 by simp_all
    show "re_err e2 = 0 \<Longrightarrow> re_err e = 0" using e1(3) e2(3) by simp
    show "enc_inv e \<and> re_err e2 = 0 \<Longrightarrow> enc_inv e2" using e1(4) e2(3,4) by simp
    show "enc_inv e \<and> re_err e2 = 0 \<Longrightarrow> inside B e2 \<Longrightarrow> inside B e" for B using e1(4,5) e2(3,5) by simp
  next
    fix B d
    assume "enc_inv e \<and> re_err e2 = 0" "inside B e2" "tracks B e d"
    then show "\<exists>d'. Option.bind (dec1 d) (\<lambda>(x, d1). dec2 x d1) = Some (y, d')
      \<and> tracks B e2 d' \<and> rd_Err d' = rd_Err d" using step by simp
  qed
qed

lemma agree_return: "agree Some (\<lambda>d. Some (x, d)) x"
  by (auto simp: agree_def)

lemma agree_map:
  assumes "agree enc dec y"
  shows "agree enc (\<lambda>d. map_option (map_prod f id) (dec d)) (f y)"
proof -
  have "map_option (map_prod f id) r = Option.bind r (\<lambda>(x, d). Some (f x, d))" for r :: "('a \<times> RangeDecoder) option"
    by (cases r) auto
  moreover have "enc = (\<lambda>e. Option.bind (enc e) Some)" by simp
  ultimately show ?thesis
    using agree_then [of enc dec y Some "\<lambda>x d. Some (f x, d)" "f y"] assms agree_return [of "f y"] by simp
qed

lemma agree_bind:
  assumes "agree enc1 dec1 x" "agree enc2 dec2 y"
  shows "agree (\<lambda>e. Option.bind (enc1 e) enc2)
    (\<lambda>d. Option.bind (dec1 d) (\<lambda>(x, d1). map_option (map_prod (Cons x) id) (dec2 d1))) (x # y)"
  using agree_then [of enc1 dec1 x enc2 "\<lambda>x d. map_option (map_prod (Cons x) id) (dec2 d)" "x # y"] assms
    agree_map [OF assms(2), of "Cons x"] by simp

locale symbol_coder =
  fixes enc :: "'m \<Rightarrow> 'x \<Rightarrow> RangeEncoder \<Rightarrow> RangeEncoder option"
    and dec :: "'m \<Rightarrow> RangeDecoder \<Rightarrow> ('x \<times> RangeDecoder) option"
    and fits :: "'m \<Rightarrow> 'x \<Rightarrow> bool"
  assumes agrees: "fits m x \<Longrightarrow> agree (enc m x) (dec m) x"
begin

lemma sequence_agrees: "\<forall>(m, x) \<in> set ms. fits m x \<Longrightarrow> agree (encode_all enc ms) (decode_all dec (map fst ms)) (map snd ms)"
proof (induction ms)
  case Nil
  have "encode_all enc [] = Some" "decode_all dec [] = (\<lambda>d. Some ([], d))" by (simp_all add: fun_eq_iff)
  then show ?case using agree_return by simp
next
  case (Cons a ms)
  obtain m x where a: "a = (m, x)" by (cases a)
  have "encode_all enc (a # ms) = (\<lambda>e. Option.bind (enc m x e) (encode_all enc ms))" by (simp add: a fun_eq_iff)
  moreover have "decode_all dec (map fst (a # ms))
      = (\<lambda>d. Option.bind (dec m d) (\<lambda>(x, d1). map_option (map_prod (Cons x) id) (decode_all dec (map fst ms) d1)))"
    by (simp add: a fun_eq_iff)
  ultimately show ?case
    using agree_bind [OF agrees [of m x] Cons.IH] Cons.prems by (simp add: a)
qed

end

interpretation rc: symbol_coder enc_symbol dec_symbol symbol_fits
proof
  fix m x assume "symbol_fits m x"
  then show "agree (enc_symbol m x) (dec_symbol m) x"
  proof (cases m)
    case (ByCDF cdf)
    then show ?thesis using \<open>symbol_fits m x\<close> agree_CDF [of cdf x] by (simp add: agree_def)
  next
    case (ByRaw nbits)
    then show ?thesis using \<open>symbol_fits m x\<close> agree_raw [of nbits x] by (simp add: agree_def)
  next
    case ByFine
    then show ?thesis using \<open>symbol_fits m x\<close> agree_fine [of x] by (simp add: agree_def)
  next
    case (ByBit logp)
    then show ?thesis using \<open>symbol_fits m x\<close> agree_bit [of logp x] by (simp add: agree_def)
  qed
qed

section \<open>The ends of a frame\<close>

lemma start_encoder:
  assumes "sz < 2 ^ 32"
  shows "enc_inv (NewRangeEncoder sz)" "usable (NewRangeEncoder sz)" "low (NewRangeEncoder sz) = 0"
    "width (NewRangeEncoder sz) = 2 ^ 31" "shifts (NewRangeEncoder sz) = 0" "re_err (NewRangeEncoder sz) = 0"
proof -
  have "unat (of_nat sz :: u32) = sz" using assms unat_u32_small [of sz] by simp
  then show "enc_inv (NewRangeEncoder sz)" "usable (NewRangeEncoder sz)" "low (NewRangeEncoder sz) = 0"
    "width (NewRangeEncoder sz) = 2 ^ 31" "shifts (NewRangeEncoder sz) = 0" "re_err (NewRangeEncoder sz) = 0"
    by (simp_all add: enc_inv_def usable_def low_def shifts_def syms_def written_def room_def rem_ok_def
        NewRangeEncoder_def ecCodeTop_def)
qed

text \<open>The decoder starts on one byte and 128 of range, and normalises over the next three.\<close>

lemma start_decoder:
  assumes "length B < 2 ^ 32"
  shows "\<exists>d. NewRangeDecoder B = Some d \<and> dec_at B 0 (2 ^ 31) d \<and> rwidth d = 2 ^ 31 \<and> rd_Err d = 0"
proof -
  define d where "d = \<lparr>rd_buf = B, rd_storage = of_nat (length B), rd_endOffs = 0, rd_endWindow = 0, rd_nendBits = 0,
               rd_nbitsTotal = 32 + 1 - ((32 - 7) div 8) * 8, rd_offs = 0, rd_rng = 128, rd_val = 0, rd_ext = 0,
               rd_rem = 0, rd_Err = 0\<rparr>"
  have st: "unat (of_nat (length B) :: u32) = length B" using assms unat_u32_small [of "length B"] by simp
  note rb = readByte_ok [of d B 0]
  define b where "b = fst (readByte d)"
  define d1 where "d1 = (snd (readByte d))\<lparr>rd_rem := b, rd_val := rd_rng d - 1 - drop_bit 1 b\<rparr>"
  have b: "unat b = sb B 0" unfolding b_def using rb st by (simp add: d_def)
  have "unat (drop_bit 1 b) = sb B 0 div 2" using unat_drop_bit_u32 [of 1 b] b by simp
  moreover have "sb B 0 div 2 \<le> 127" using sb_less [of B 0] by simp
  ultimately have v: "unat (127 - drop_bit 1 b) = 127 - sb B 0 div 2" by (subst unat_sub_u32) simp_all
  have h: "half B 0 = sb B 0 div 2" by (simp add: half_def)
  have f: "dec_from B 0 128 d1"
    using rb st v b h \<open>sb B 0 div 2 \<le> 127\<close> by (simp add: dec_from_def d1_def d_def)
  have w: "rwidth d1 = 128" "rd_Err d1 = 0" by (simp_all add: d1_def d_def)
  have small: "unat (rd_val d') < hi" if "dec_from B k hi d'" for k hi d' using that by (auto simp: dec_from_def)
  note f1 = dec_from_shift [OF f] 
  have s1: "dec_from B (Suc 0) (2 ^ 15) (dec_shift d1)" "rwidth (dec_shift d1) = 2 ^ 15" "rd_Err (dec_shift d1) = 0"
    using f1 w small [OF f] by simp_all
  have s2: "dec_from B (Suc (Suc 0)) (2 ^ 23) (dec_shift (dec_shift d1))" "rwidth (dec_shift (dec_shift d1)) = 2 ^ 23"
      "rd_Err (dec_shift (dec_shift d1)) = 0"
    using dec_from_shift [OF s1(1)] s1 small [OF s1(1)] by simp_all
  have s3: "dec_from B (Suc (Suc (Suc 0))) (2 ^ 31) (dec_shift (dec_shift (dec_shift d1)))"
      "rwidth (dec_shift (dec_shift (dec_shift d1))) = 2 ^ 31" "rd_Err (dec_shift (dec_shift (dec_shift d1))) = 0"
    using dec_from_shift [OF s2(1)] s2 small [OF s2(1)] by simp_all
  have "NewRangeDecoder B = dec_normalize d1"
    by (simp add: NewRangeDecoder_def Let_def case_prod_beta d1_def b_def d_def)
  also have "\<dots> = Some (dec_shift (dec_shift (dec_shift d1)))"
    using w s1(2) s2(2) s3(2) by (simp add: dec_normalize_if [of d1] dec_normalize_if [of "dec_shift d1"]
        dec_normalize_if [of "dec_shift (dec_shift d1)"] dec_normalize_if [of "dec_shift (dec_shift (dec_shift d1))"])
  moreover have "dec_at B 0 = dec_from B (Suc (Suc (Suc 0)))" by (simp add: dec_at_from numeral_3_eq_3)
  ultimately show ?thesis using s3 by simp
qed

text \<open>
  The code the flush picks: a multiple of \<open>2 ^ (31 - l)\<close> such that it, with any bits after its \<open>l\<close>, stays in the
  interval.
\<close>

lemma bit_len_step: "0 < n \<Longrightarrow> bit_len (int n) = Suc (bit_len (int (n div 2)))"
  by (simp add: bit_len.simps [of "int n"] zdiv_int)

lemma bit_len_bounds:
  "0 < n \<Longrightarrow> 2 ^ (bit_len (int n) - 1) \<le> n \<and> n < 2 ^ bit_len (int n) \<and> 0 < bit_len (int n)"
proof (induction n rule: less_induct)
  case (less n)
  show ?case
  proof (cases "n = 1")
    case True
    then show ?thesis using bit_len_step [of 1] bit_len.simps [of 0] by simp
  next
    case False
    then have pos: "0 < n div 2" "n div 2 < n" using less.prems by simp_all
    note ih = less.IH [OF pos(2,1)]
    note len = bit_len_step [OF less.prems]
    have "2 ^ bit_len (int (n div 2)) = 2 * (2 :: nat) ^ (bit_len (int (n div 2)) - 1)"
      using ih by (metis Suc_diff_1 power_Suc)
    moreover have "2 * x \<le> n" if "x \<le> n div 2" for x using that by linarith
    moreover have "n < 2 * x" if "n div 2 < x" for x using that by linarith
    ultimately show ?thesis using ih by (metis diff_Suc_1 len power_Suc zero_less_Suc)
  qed
qed

lemma unat_mask31: "n \<le> 31 \<Longrightarrow> unat (drop_bit n (ecCodeTop - 1)) = 2 ^ (31 - n) - 1"
proof -
  assume n: "n \<le> 31"
  have "unat (drop_bit n (ecCodeTop - 1)) = (2 ^ 31 - 1) div 2 ^ n"
    by (simp only: unat_drop_bit_u32) (simp add: ecCodeTop_def)
  also have "(2 :: nat) ^ 31 = 2 ^ (31 - n) * 2 ^ n" using n by (simp flip: power_add)
  also have "(2 ^ (31 - n) * 2 ^ n - 1) div 2 ^ n = (2 ^ (31 - n) - 1 :: nat)"
  proof (rule div_nat_eqI)
    have "(2 :: nat) ^ n \<le> 2 ^ (31 - n) * 2 ^ n" by simp
    then show "2 ^ n * (2 ^ (31 - n) - 1) \<le> 2 ^ (31 - n) * 2 ^ n - (1 :: nat)" by (simp add: diff_mult_distrib2 ac_simps Suc_leI diff_le_mono2)
    show "2 ^ (31 - n) * 2 ^ n - 1 < 2 ^ n * Suc (2 ^ (31 - n) - 1 :: nat)" by (simp add: ac_simps)
  qed
  finally show ?thesis .
qed

lemma mask_of_unat: "k < 32 \<Longrightarrow> unat (m :: u32) = 2 ^ k - 1 \<Longrightarrow> m = mask k"
proof -
  assume k: "k < 32" and m: "unat m = 2 ^ k - 1"
  have "unat (mask k :: u32) = 2 ^ k - 1"
    unfolding mask_eq_exp_minus_1 by (subst unat_sub_u32) (simp_all only: unat_two_pow [OF k] unat_1, simp)
  then show ?thesis using m by (simp only: word_unat_eq_iff)
qed

lemma ceil_multiple:
  fixes v p :: nat
  assumes "0 < p"
  shows "v \<le> (v + (p - 1)) div p * p" "(v + (p - 1)) div p * p < v + p"
proof -
  define s where "s = v + (p - 1)"
  have "s mod p < p" using assms by simp
  moreover have "s div p * p + s mod p = s" by (rule div_mult_mod_eq)
  ultimately have "v \<le> s div p * p" "s div p * p < v + p" using assms unfolding s_def by linarith+
  then show "v \<le> (v + (p - 1)) div p * p" "(v + (p - 1)) div p * p < v + p" by (simp_all only: s_def)
qed

lemma round_up:
  fixes v m :: u32
  assumes k: "k < 32" and m: "unat m = 2 ^ k - 1" and fits: "unat v + 2 ^ k \<le> 2 ^ 32"
  defines "f \<equiv> (v + m) AND NOT m"
  shows "2 ^ k dvd unat f" "unat v \<le> unat f" "unat f < unat v + 2 ^ k" "unat (f OR m) = unat f + 2 ^ k - 1"
proof -
  have mk: "m = mask k" using mask_of_unat [OF k m] .
  define s where "s = unat v + (2 ^ k - 1)"
  have s: "unat (v + m) = s" unfolding s_def using fits by (subst unat_add_u32) (simp_all add: m)
  have "f = (v + m) AND NOT ((v + m) AND m)" unfolding f_def by (rule bit_word_eqI) (auto simp: bit_simps)
  also have "\<dots> = (v + m) - ((v + m) AND m)"
    by (rule disjunctive_diff_eq_and_not [symmetric]) (rule bit_word_eqI, auto simp: bit_simps)
  also have "(v + m) AND m = take_bit k (v + m)" by (simp add: mk take_bit_eq_mask)
  finally have f: "f = (v + m) - take_bit k (v + m)" .
  have t: "unat (take_bit k (v + m)) = s mod 2 ^ k"
    by (simp only: unsigned_take_bit_eq s) (simp add: take_bit_eq_mod)
  have "unat f = s - s mod 2 ^ k" unfolding f by (subst unat_sub_u32) (simp_all only: t s mod_less_eq_dividend)
  then have uf: "unat f = s div 2 ^ k * 2 ^ k" by (simp add: minus_mod_eq_div_mult)
  show "2 ^ k dvd unat f" by (simp add: uf)
  show "unat v \<le> unat f" "unat f < unat v + 2 ^ k" unfolding uf s_def using ceil_multiple [of "2 ^ k" "unat v"] by simp_all
  have "f AND m = 0" unfolding f_def by (rule bit_word_eqI) (auto simp: bit_simps)
  then have "f OR m = f + m" by (rule disjunctive_add_eq_or [symmetric])
  moreover have "unat f + (2 ^ k - 1) < 2 ^ 32"
  proof -
    have "2 ^ k dvd (2 :: nat) ^ 32" using k by (intro le_imp_power_dvd) simp
    then obtain c where c: "(2 :: nat) ^ 32 = 2 ^ k * c" by (auto elim: dvdE)
    have "s div 2 ^ k * 2 ^ k < 2 ^ k * c" using unat_u32_less [of f] uf c by simp
    then have "s div 2 ^ k + 1 \<le> c" by (simp add: mult.commute)
    then have "(s div 2 ^ k + 1) * 2 ^ k \<le> c * 2 ^ k" by (rule mult_le_mono1)
    then have "(s div 2 ^ k + 1) * 2 ^ k \<le> 2 ^ 32" unfolding c by (simp only: mult.commute)
    then show ?thesis unfolding uf by (simp add: add_mult_distrib)
  qed
  ultimately show "unat (f OR m) = unat f + 2 ^ k - 1" by (simp add: unat_add_u32 m)
qed

lemma final_code_ok:
  assumes us: "usable e" and inv: "enc_inv e"
  obtains l fin where "final_code e = (int l, fin)" "l \<le> 9" "2 ^ (31 - l) dvd unat fin" "unat (re_val e) \<le> unat fin"
    "unat fin + 2 ^ (31 - l) \<le> unat (re_val e) + width e"
proof -
  define v where "v = re_val e"
  define n where "n = bit_len (int (width e))"
  have top: "unat v + width e \<le> 2 ^ 32 - 256" using inv by (simp add: enc_inv_def v_def)
  have "0 < width e" using us by (simp add: usable_def)
  then have n: "2 ^ (n - 1) \<le> width e" "width e < 2 ^ n" "0 < n" using bit_len_bounds [of "width e"] by (simp_all add: n_def)
  have "n \<le> 32"
  proof -
    have "(2 :: nat) ^ (n - 1) < 2 ^ 32" using n(1) us by (simp add: usable_def)
    then have "n - 1 < 32" by (rule power_less_imp_less_exp [rotated]) simp
    then show ?thesis by simp
  qed
  moreover have "23 < n"
  proof -
    have "(2 :: nat) ^ 23 < 2 ^ n" using n(2) us by (simp add: usable_def)
    then show ?thesis by (rule power_less_imp_less_exp [rotated]) simp
  qed
  ultimately have n': "23 < n" "n \<le> 32" by simp_all
  define k where "k = n - 1"
  have k: "k < 32" "31 - (32 - n) = k" "2 ^ k \<le> width e" "22 < k" using n' n by (simp_all add: k_def)
  define msk where "msk = drop_bit (32 - n) (ecCodeTop - 1)"
  have msk: "unat msk = 2 ^ k - 1" unfolding msk_def using unat_mask31 [of "32 - n"] n' k by simp
  have fitsk: "unat v + 2 ^ k \<le> 2 ^ 32" using top k(3) by simp
  define fin where "fin = (v + msk) AND NOT msk"
  note r = round_up [OF k(1) msk fitsk, folded fin_def]
  have ilog: "ilog (re_rng e) = int n" by (simp add: ilog_def n_def)
  have sum: "unat (v + re_rng e) = unat v + width e" using top by (intro unat_add_u32) simp
  show thesis
  proof (cases "v + re_rng e \<le> fin OR msk")
    case False
    then have lt: "unat fin + 2 ^ k - 1 < unat v + width e" using r(4) sum by (simp add: word_le_nat_alt)
    have "final_code e = (int (32 - n), fin)"
      using False n' by (simp add: final_code_def ilog Let_def of_nat_diff nat_diff_distrib msk_def fin_def v_def)
    moreover have "32 - n \<le> 9" using n' by simp
    moreover have "unat fin + 2 ^ k \<le> unat v + width e" using lt by simp
    ultimately show thesis using that [of "32 - n" fin] r k(2) by (simp add: v_def)
  next
    case True
    define k1 where "k1 = k - 1"
    have k1: "k1 < 32" "31 - (33 - n) = k1" using k n' by (simp_all add: k1_def k_def)
    have pow: "(2 :: nat) ^ k = 2 * 2 ^ k1" using k(4) by (metis Suc_diff_1 gr_implies_not0 k1_def neq0_conv power_Suc)
    define msk1 where "msk1 = drop_bit 1 msk"
    have "unat msk1 = (2 * 2 ^ k1 - 1) div 2" unfolding msk1_def using unat_drop_bit_u32 [of 1 msk] msk pow by simp
    then have m1: "unat msk1 = 2 ^ k1 - 1" by simp
    have fits1: "unat v + 2 ^ k1 \<le> 2 ^ 32" using fitsk pow by simp
    define fin1 where "fin1 = (v + msk1) AND NOT msk1"
    note r1 = round_up [OF k1(1) m1 fits1, folded fin1_def]
    have "final_code e = (int (33 - n), fin1)"
      using True n' by (simp add: final_code_def ilog Let_def of_nat_diff nat_diff_distrib msk_def fin_def v_def
          msk1_def fin1_def)
    moreover have "33 - n \<le> 9" using n' by simp
    moreover have "unat fin1 + 2 ^ k1 \<le> unat v + width e" using r1(3) pow k(3) by simp
    ultimately show thesis using that [of "33 - n" fin1] r1 k1(2) by (simp add: v_def)
  qed
qed

text \<open>The flush loop writes the code's leading bits as symbols, which makes the number written so far exact.\<close>

lemma flush_loop_if:
  "flush_loop l fin e =
     (if 0 < l then flush_loop (l - 8) (push_bit 8 fin AND (ecCodeTop - 1)) (carryOut e (drop_bit 23 fin)) else e)"
  by (rule flush_loop.simps)

lemma flush_loop_rest:
  "re_endOffs (flush_loop l fin e) = re_endOffs e \<and> re_endWindow (flush_loop l fin e) = re_endWindow e
   \<and> re_nendBits (flush_loop l fin e) = re_nendBits e \<and> re_storage (flush_loop l fin e) = re_storage e
   \<and> (re_err e \<noteq> 0 \<longrightarrow> re_err (flush_loop l fin e) \<noteq> 0)"
proof (induction l fin e rule: flush_loop.induct)
  case (1 l fin e)
  then show ?case by (simp add: flush_loop_if [of l] carryOut_err)
qed

lemma flush_step_dvd:
  assumes "0 < l" "l \<le> 31" "2 ^ (31 - nat l) dvd fin"
  shows "2 ^ (31 - nat (l - 8)) dvd fin mod 2 ^ 23 * (256 :: nat)"
proof (cases "l \<le> 8")
  case True
  then have "(2 :: nat) ^ 23 dvd 2 ^ (31 - nat l)" by (intro le_imp_power_dvd) simp
  then have "2 ^ 23 dvd fin" using assms(3) by (rule dvd_trans)
  then have "fin mod 2 ^ 23 = 0" by (simp only: mod_eq_0_iff_dvd)
  then show ?thesis by simp
next
  case False
  define a where "a = 31 - nat l"
  have a: "31 - nat (l - 8) = a + 8" "a \<le> 23" using False assms(1,2) by (simp_all add: a_def nat_diff_distrib)
  have "2 ^ a dvd fin mod 2 ^ 23"
    using assms(3) a(2) by (intro dvd_mod le_imp_power_dvd) (simp_all add: a_def)
  then have "2 ^ a * 2 ^ 8 dvd fin mod 2 ^ 23 * 2 ^ 8" by (rule mult_dvd_mono) simp
  then show ?thesis unfolding a(1) by (simp add: power_add)
qed

lemma flush_loop_ok:
  assumes "room e" "rem_ok e" "l \<le> 31" "2 ^ (31 - nat l) dvd unat fin"
    "2 ^ 31 \<le> unat fin \<Longrightarrow> 0 < l \<and> 0 \<le> re_rem e \<and> re_rem e < 255" "re_err (flush_loop l fin e) = 0"
  shows "\<exists>m. l \<le> 8 * int m \<and> (0 < m \<longrightarrow> 8 * int m < l + 8) \<and> room (flush_loop l fin e) \<and> rem_ok (flush_loop l fin e)
    \<and> re_err e = 0 \<and> num (syms (flush_loop l fin e)) * 2 ^ 31 = 256 ^ m * (num (syms e) * 2 ^ 31 + unat fin)
    \<and> length (syms (flush_loop l fin e)) = length (syms e) + m"
  using assms
proof (induction l fin e rule: flush_loop.induct)
  case (1 l fin e)
  show ?case
  proof (cases "0 < l")
    case False
    then have "2 ^ 31 dvd unat fin" "unat fin < 2 ^ 31" using "1.prems"(4,5) by (simp_all add: not_le [symmetric]) blast
    then have "unat fin = 0" using nat_dvd_not_less by blast
    then show ?thesis using False "1.prems" by (intro exI [of _ 0]) (simp add: flush_loop_if [of l])
  next
    case True
    define c where "c = drop_bit 23 fin"
    define e1 where "e1 = carryOut e c"
    define fin1 where "fin1 = push_bit 8 fin AND (ecCodeTop - 1)"
    have eq: "flush_loop l fin e = flush_loop (l - 8) fin1 e1"
      using True by (simp add: flush_loop_if [of l] fin1_def e1_def c_def)
    have c: "unat c = unat fin div 2 ^ 23" by (simp add: c_def unat_drop_bit_u32)
    have c512: "unat c < 512" using unat_u32_less [of fin] by (simp add: c less_mult_imp_div_less)
    have c256: "0 \<le> re_rem e \<and> re_rem e < 255" if "256 \<le> unat c"
    proof -
      have "2 ^ 31 \<le> unat fin" using that by (simp add: c less_eq_div_iff_mult_less_eq)
      then show ?thesis using "1.prems"(5) by blast
    qed
    have err: "re_err (flush_loop (l - 8) fin1 e1) = 0" using "1.prems"(6) by (simp only: eq)
    then have err1: "re_err (carryOut e c) = 0" using flush_loop_rest [of "l - 8" fin1 e1] by (auto simp: e1_def)
    have ok: "room e1" "rem_ok e1" "re_err e = 0" "num (syms e1) = num (syms e) * 256 + unat c"
      "length (syms e1) = length (syms e) + 1"
      using carryOut_ok [OF "1.prems"(1,2) c512 c256 err1] by (simp_all add: e1_def)
    have fin1: "unat fin1 = unat fin mod 2 ^ 23 * 256" unfolding fin1_def by (rule unat_shift8_mask)
    have small: "unat fin1 < 2 ^ 31" unfolding fin1 using mod_less_divisor [of "2 ^ 23" "unat fin"] by simp
    have "2 ^ (31 - nat (l - 8)) dvd unat fin1"
      unfolding fin1 by (rule flush_step_dvd) (use True "1.prems" in simp_all)
    then obtain m where m: "l - 8 \<le> 8 * int m" "0 < m \<longrightarrow> 8 * int m < l" "room (flush_loop (l - 8) fin1 e1)"
      "rem_ok (flush_loop (l - 8) fin1 e1)" "re_err e1 = 0"
      "num (syms (flush_loop (l - 8) fin1 e1)) * 2 ^ 31 = 256 ^ m * (num (syms e1) * 2 ^ 31 + unat fin1)"
      "length (syms (flush_loop (l - 8) fin1 e1)) = length (syms e1) + m"
      using "1.IH" [OF True] ok(1,2) "1.prems"(3) small err
      by (auto simp flip: c_def e1_def fin1_def)
    have "num (syms e1) * 2 ^ 31 + unat fin1 = 256 * (num (syms e) * 2 ^ 31 + unat fin)"
    proof -
      have "unat fin = unat c * 2 ^ 23 + unat fin mod 2 ^ 23" by (simp only: c div_mult_mod_eq)
      then show ?thesis unfolding ok(4) fin1 by simp
    qed
    then show ?thesis using m ok(3,5) True unfolding eq
      by (intro exI [of _ "Suc m"]) auto
  qed
qed

text \<open>
  The whole flush: the bytes, followed by whatever there is, start a number in the interval of the encoder.
\<close>

lemma written_code: "k \<le> length B \<Longrightarrow> code B k = num (map unat (take k B))"
  by (induction k) (simp_all add: sb_def take_Suc_conv_app_nth)

lemma code_add: "\<exists>x. code B (k + j) = code B k * 256 ^ j + x \<and> x < 256 ^ j"
proof (induction j)
  case (Suc j)
  then obtain x where x: "code B (k + j) = code B k * 256 ^ j + x" "x < 256 ^ j" by blast
  have "x * 256 + sb B (k + j) < 256 ^ Suc j" using x(2) sb_less [of B "k + j"] by simp
  then show ?case using x(1) by (intro exI [of _ "x * 256 + sb B (k + j)"]) (simp add: algebra_simps)
qed simp

lemma flush_last:
  assumes "room e" "rem_ok e" "re_err (if 0 \<le> re_rem e \<or> 0 < re_ext e then carryOut e 0 else e) = 0"
  defines "e' \<equiv> if 0 \<le> re_rem e \<or> 0 < re_ext e then carryOut e 0 else e"
  shows "room e'" "num (written e') = num (syms e)" "length (written e') = length (syms e)" "re_err e = 0"
proof -
  have "room e' \<and> num (written e') = num (syms e) \<and> length (written e') = length (syms e) \<and> re_err e = 0"
  proof (cases "0 \<le> re_rem e \<or> 0 < re_ext e")
    case False
    then show ?thesis using assms(1,3) by (simp add: e'_def syms_def)
  next
    case True
    then have e': "e' = carryOut e 0" "re_err (carryOut e 0) = 0" using assms(3) by (simp_all add: e'_def)
    have ok: "room e'" "num (syms e') = num (syms e) * 256" "length (syms e') = length (syms e) + 1" "re_rem e' = 0"
        "re_err e = 0"
      using carryOut_ok [OF assms(1,2) _ _ e'(2)] by (simp_all add: e'(1))
    have "re_ext e' = 0"
    proof -
      have "re_ext (write_pending (Suc k) b e2) = 0" for k b e2 by (induction k arbitrary: e2) simp_all
      then have "0 < k \<Longrightarrow> re_ext (write_pending k b e2) = 0" for k b e2 by (cases k) simp_all
      then show ?thesis by (simp add: e'(1) carryOut_def Let_def)
    qed
    then have "syms e' = written e' @ [0]" using ok(4) by (simp add: syms_def)
    then show ?thesis using ok by simp
  qed
  then show "room e'" "num (written e') = num (syms e)" "length (written e') = length (syms e)" "re_err e = 0" by simp_all
qed

lemma carryOut_0_rest: "re_err e \<noteq> 0 \<Longrightarrow> re_err (if b then carryOut e c else e) \<noteq> 0"
  by (simp add: carryOut_err)

lemma Done_bytes:
  assumes inv: "enc_inv e" and err: "re_err (Done e) = 0" and code: "final_code e = (l, fin)"
  defines "e1 \<equiv> flush_loop l fin e"
  defines "e2 \<equiv> if 0 \<le> re_rem e1 \<or> 0 < re_ext e1 then carryOut e1 0 else e1"
  shows "re_err e2 = 0" "room e2 \<Longrightarrow> map unat (take (ConsumedLen (Done e)) (re_buf (Done e))) = written e2"
    "room e2 \<Longrightarrow> length (take (ConsumedLen (Done e)) (re_buf (Done e))) = length (written e2)"
proof -
  have e2: "re_endOffs e2 = 0" "re_nendBits e2 = 0"
    using inv flush_loop_rest [of l fin e] by (simp_all add: e2_def e1_def enc_inv_def)
  have win: "flush_window (re_endWindow e2) 0 e2 = (re_endWindow e2, 0, e2)" by (simp add: flush_window.simps)
  define lo where "lo = unat (re_offs e2)"
  define hi where "hi = unat (re_storage e2)"
  define e3 where "e3 = e2\<lparr>re_buf := take lo (re_buf e2) @ replicate (hi - lo) 0 @ drop (max lo hi) (re_buf e2)\<rparr>"
  have out: "Done e = (if re_err e2 = 0 then e3 else e2)"
    unfolding Done_def code Let_def prod.case e1_def [symmetric]
    unfolding e2_def [symmetric] using e2 win by (simp add: e3_def lo_def hi_def)
  show err2: "re_err e2 = 0" using err by (auto simp: out split: if_splits)
  have len: "ConsumedLen (Done e) = lo" using e2(1) by (simp add: out err2 ConsumedLen_def e3_def lo_def)
  assume room: "room e2"
  then have lo: "lo \<le> length (re_buf e2)" using e2(1) by (simp add: room_def lo_def)
  have buf: "re_buf (Done e) = take lo (re_buf e2) @ replicate (hi - lo) 0 @ drop (max lo hi) (re_buf e2)"
    by (simp add: out err2 e3_def)
  show "map unat (take (ConsumedLen (Done e)) (re_buf (Done e))) = written e2"
    unfolding len buf using lo by (simp add: written_def lo_def)
  then show "length (take (ConsumedLen (Done e)) (re_buf (Done e))) = length (written e2)" by (metis length_map)
qed

lemma Done_inside:
  assumes us: "usable e" and inv: "enc_inv e" and err: "re_err (Done e) = 0"
  shows "re_err e = 0" "inside (take (ConsumedLen (Done e)) (re_buf (Done e)) @ t) e"
proof -
  obtain l fin where lf: "final_code e = (int l, fin)" "l \<le> 9" "2 ^ (31 - l) dvd unat fin" "unat (re_val e) \<le> unat fin"
    "unat fin + 2 ^ (31 - l) \<le> unat (re_val e) + width e"
    by (rule final_code_ok [OF us inv])
  define e1 where "e1 = flush_loop (int l) fin e"
  define e2 where "e2 = (if 0 \<le> re_rem e1 \<or> 0 < re_ext e1 then carryOut e1 0 else e1)"
  note bytes = Done_bytes [OF inv err lf(1), folded e1_def, folded e2_def]
  have err1: "re_err e1 = 0" using bytes(1) carryOut_0_rest unfolding e2_def by blast
  have first: "0 < int l \<and> 0 \<le> re_rem e \<and> re_rem e < 255" if "2 ^ 31 \<le> unat fin"
  proof -
    have "unat (re_val e) + width e \<le> 2 ^ 32 - 256" using inv by (simp add: enc_inv_def)
    then have "l \<noteq> 0" using that lf(5) by (intro notI) simp
    moreover have "2 ^ 31 < unat (re_val e) + width e"
    proof -
      have "(0 :: nat) < 2 ^ (31 - l)" by simp
      then show ?thesis using that lf(5) by linarith
    qed
    then have "re_rem e \<noteq> -1" "re_rem e \<noteq> 255" using inv by (auto simp: enc_inv_def)
    ultimately show ?thesis using inv by (auto simp: enc_inv_def rem_ok_def)
  qed
  have "room e" "rem_ok e" using inv by (simp_all add: enc_inv_def)
  then obtain m where m: "int l \<le> 8 * int m" "0 < m \<longrightarrow> 8 * int m < int l + 8" "room e1" "rem_ok e1" "re_err e = 0"
    "num (syms e1) * 2 ^ 31 = 256 ^ m * (num (syms e) * 2 ^ 31 + unat fin)" "length (syms e1) = length (syms e) + m"
    using flush_loop_ok [of e "int l" fin] first lf(2,3) err1 by (auto simp: e1_def)
  show "re_err e = 0" by (rule m(5))
  have last: "room e2" "num (written e2) = num (syms e1)" "length (written e2) = length (syms e1)"
    using flush_last [OF m(3,4)] bytes(1) unfolding e2_def by blast+
  define W where "W = take (ConsumedLen (Done e)) (re_buf (Done e))"
  have W: "map unat W = written e2" "length W = shifts e + m"
    using bytes(2,3) last m(7) by (simp_all add: W_def shifts_def)
  define n where "n = shifts e"
  define L where "L = num (syms e) * 2 ^ 31 + unat fin"
  have m2: "m \<le> 2" using m(2) lf(2) by auto
  have "code (W @ t) (n + m) = num (syms e1)"
    using written_code [of "n + m" "W @ t"] W last(2) by (simp add: n_def)
  moreover obtain x where x: "code (W @ t) (n + m + (4 - m)) = code (W @ t) (n + m) * 256 ^ (4 - m) + x" "x < 256 ^ (4 - m)"
    using code_add by blast
  moreover have "n + m + (4 - m) = 4 + n" using m2 by simp
  ultimately have pt: "code (W @ t) (4 + n) = num (syms e1) * 256 ^ (4 - m) + x" by simp
  have "num (syms e1) * 256 ^ (4 - m) = 2 * L"
  proof -
    consider "m = 0" | "m = 1" | "m = 2" using m2 by linarith
    then show ?thesis using m(6) unfolding L_def by cases (simp_all add: algebra_simps)
  qed
  then have point: "point (W @ t) n = L + x div 2" unfolding point_def pt by simp
  have "x div 2 < 2 ^ (31 - l)"
  proof -
    have "x div 2 < 2 ^ (31 - 8 * m)"
    proof -
      consider "m = 0" | "m = 1" | "m = 2" using m2 by linarith
      then show ?thesis using x(2) by cases simp_all
    qed
    also have "\<dots> \<le> 2 ^ (31 - l)" using m(1) by (intro power_increasing) simp_all
    finally show ?thesis .
  qed
  then have "low e \<le> L + x div 2" "L + x div 2 < low e + width e"
    using lf(4,5) unfolding low_def L_def by linarith+
  then show "inside (take (ConsumedLen (Done e)) (re_buf (Done e)) @ t) e"
    by (simp only: inside_def flip: W_def n_def) (simp add: point)
qed

lemma Done_err: "re_err e \<noteq> 0 \<Longrightarrow> re_err (Done e) \<noteq> 0"
proof -
  assume err: "re_err e \<noteq> 0"
  have fw: "re_err e2 \<noteq> 0 \<Longrightarrow> flush_window w u e2 = (w', u', e3) \<Longrightarrow> re_err e3 \<noteq> 0" for w u e2 w' u' e3
  proof (induction w u e2 rule: flush_window.induct)
    case (1 w u e2)
    have "re_err (writeByteAtEnd e2 (w AND 255)) \<noteq> 0" using "1.prems"(1) by (simp add: writeByteAtEnd_def)
    then show ?case using 1 by (auto simp: flush_window.simps [of w u e2] split: if_splits)
  qed
  obtain l fin where code: "final_code e = (l, fin)" by fastforce
  define e1 where "e1 = flush_loop l fin e"
  define e2 where "e2 = (if 0 \<le> re_rem e1 \<or> 0 < re_ext e1 then carryOut e1 0 else e1)"
  have "re_err e2 \<noteq> 0" using err flush_loop_rest [of l fin e] carryOut_0_rest [of e1] by (simp add: e2_def e1_def)
  moreover obtain w u e3 where win: "flush_window (re_endWindow e2) (re_nendBits e2) e2 = (w, u, e3)"
    by (metis prod.exhaust)
  ultimately have "re_err e3 \<noteq> 0" using fw by blast
  then show "re_err (Done e) \<noteq> 0"
    unfolding Done_def code Let_def prod.case e1_def [symmetric]
    unfolding e2_def [symmetric] using win by simp
qed

text \<open>An encoding that agrees with a decoding does so over a whole buffer: start, flush, start of the decoder.\<close>

lemma agree_buffer:
  assumes agr: "agree enc dec x" and "sz < 2 ^ 32"
  shows "\<exists>e. enc (NewRangeEncoder sz) = Some e
    \<and> (re_err (Done e) = 0 \<longrightarrow>
         (\<forall>t. length (take (ConsumedLen (Done e)) (re_buf (Done e)) @ t) < 2 ^ 32 \<longrightarrow>
           (\<exists>d d'. NewRangeDecoder (take (ConsumedLen (Done e)) (re_buf (Done e)) @ t) = Some d
              \<and> dec d = Some (x, d') \<and> rd_Err d' = 0)))"
proof -
  note start = start_encoder [OF assms(2)]
  obtain e where e: "enc (NewRangeEncoder sz) = Some e" "usable e" "re_err e = 0 \<Longrightarrow> enc_inv e"
    "\<And>B. re_err e = 0 \<Longrightarrow> inside B e \<Longrightarrow> inside B (NewRangeEncoder sz)"
    "\<And>B d. re_err e = 0 \<Longrightarrow> inside B e \<Longrightarrow> tracks B (NewRangeEncoder sz) d
      \<Longrightarrow> \<exists>d'. dec d = Some (x, d') \<and> tracks B e d' \<and> rd_Err d' = rd_Err d"
    using agreeD [OF agr start(2)] start(1) by blast
  have "\<exists>d d'. NewRangeDecoder B = Some d \<and> dec d = Some (x, d') \<and> rd_Err d' = 0"
    if ok: "re_err (Done e) = 0" and B: "B = take (ConsumedLen (Done e)) (re_buf (Done e)) @ t" and len: "length B < 2 ^ 32"
    for B t
  proof -
    have err: "re_err e = 0" using ok Done_err by blast
    have ins: "inside B e" unfolding B by (rule Done_inside(2) [OF e(2) e(3) [OF err] ok])
    obtain d where d: "NewRangeDecoder B = Some d" "dec_at B 0 (2 ^ 31) d" "rwidth d = 2 ^ 31" "rd_Err d = 0"
      using start_decoder [OF len] by blast
    have "tracks B (NewRangeEncoder sz) d" using d(2,3) start(3,4,5) by (simp add: tracks_def)
    then show ?thesis using e(5) [OF err ins] d(1,4) by metis
  qed
  then show ?thesis using e(1) by blast
qed

text \<open>
  Property C7. What is encoded is decoded: symbols that fit their models are encoded into a buffer without getting stuck,
  and when the buffer was large enough, the decoder that starts on the bytes written, with anything behind them,
  reads exactly these symbols and reports no error.
\<close>

theorem range_coder_roundtrip:
  assumes "\<forall>(m, x) \<in> set ms. symbol_fits m x" "sz < 2 ^ 32"
  shows "\<exists>e. encode_all enc_symbol ms (NewRangeEncoder sz) = Some e
    \<and> (re_err (Done e) = 0 \<longrightarrow>
         (\<forall>t. length (take (ConsumedLen (Done e)) (re_buf (Done e)) @ t) < 2 ^ 32 \<longrightarrow>
           (\<exists>d d'. NewRangeDecoder (take (ConsumedLen (Done e)) (re_buf (Done e)) @ t) = Some d
              \<and> decode_all dec_symbol (map fst ms) d = Some (map snd ms, d') \<and> rd_Err d' = 0)))"
  using agree_buffer [OF rc.sequence_agrees [OF assms(1)] assms(2)] .

lemma frame_written:
  "map_option (\<lambda>e. (re_err (Done e), length (re_buf (Done e))))
     (encode_all enc_symbol [(ByCDF [0, 10, 100, 256], 1), (ByRaw 4, 9), (ByFine, 33)] (NewRangeEncoder 4)) = Some (0, 4)"
  by code_simp

theorem range_coder_roundtripw:
  "\<exists>e d d'. encode_all enc_symbol [(ByCDF [0, 10, 100, 256], 1), (ByRaw 4, 9), (ByFine, 33)] (NewRangeEncoder 4) = Some e
    \<and> re_err (Done e) = 0 \<and> NewRangeDecoder (take (ConsumedLen (Done e)) (re_buf (Done e)) @ [7]) = Some d
    \<and> decode_all dec_symbol [ByCDF [0, 10, 100, 256], ByRaw 4, ByFine] d = Some ([1, 9, 33], d') \<and> rd_Err d' = 0"
proof -
  have "cdf_fits [0, 10, 100, 256] 1" by (simp add: cdf_fits_def)
  then obtain e where e: "encode_all enc_symbol [(ByCDF [0, 10, 100, 256], 1), (ByRaw 4, 9), (ByFine, 33)] (NewRangeEncoder 4) = Some e"
    "\<And>t. re_err (Done e) = 0 \<Longrightarrow> length (take (ConsumedLen (Done e)) (re_buf (Done e)) @ t) < 2 ^ 32 \<Longrightarrow>
       \<exists>d d'. NewRangeDecoder (take (ConsumedLen (Done e)) (re_buf (Done e)) @ t) = Some d
         \<and> decode_all dec_symbol [ByCDF [0, 10, 100, 256], ByRaw 4, ByFine] d = Some ([1, 9, 33], d') \<and> rd_Err d' = 0"
    using range_coder_roundtrip [of "[(ByCDF [0, 10, 100, 256], 1), (ByRaw 4, 9), (ByFine, 33)]" 4] by auto
  have ok: "re_err (Done e) = 0" "length (re_buf (Done e)) = 4" using frame_written e(1) by simp_all
  have "length (take (ConsumedLen (Done e)) (re_buf (Done e)) @ [7]) < 2 ^ 32" by (simp add: ok(2) min_def)
  then show ?thesis using e(1) e(2) [OF ok(1)] ok(1) by blast
qed

end
