(* ===== verification/CodecTables.thy ===== *)
theory CodecTables
  imports RangeCoding "HOL-Library.Monad_Syntax" "HOL-Library.Signed_Division"
begin

text \<open>
  The tables of the speech codec that the bit stream is read and written with: their expansion from the weights in the
  seeds, the table sets and how they are indexed (\<^verbatim>\<open>mlow/cc_tables.go\<close>, \<^verbatim>\<open>mlow/lsf.go\<close>), and the window of memory the
  pitch lags are read from (\<^verbatim>\<open>mlow/mem.go\<close>). The seeds themselves are binary files, so a table set is an argument of
  whatever reads it. An index or a slice out of range is a panic: \<open>None\<close> here. The signed 32-bit
  integers of the code (symbols, table entries, lags, counts) are \<open>int\<close>: their values are sums of a few table entries and
  stay far below 2^31. The unsigned ones (cumulative frequencies, addresses, bit fields) are words and wrap.
\<close>

section \<open>Indexing\<close>

definition elem_at :: "'a list \<Rightarrow> int \<Rightarrow> 'a option" where
  "elem_at xs i = (if 0 \<le> i \<and> i < int (length xs) then Some (xs ! nat i) else None)"

lemma elem_at_Some: "elem_at xs i = Some x \<longleftrightarrow> 0 \<le> i \<and> i < int (length xs) \<and> x = xs ! nat i"
  by (auto simp: elem_at_def)

lemma elem_at_in: "elem_at xs i = Some x \<Longrightarrow> x \<in> set xs"
  by (auto simp: elem_at_Some)

lemma elem_at_nat [simp]: "elem_at xs (int n) = (if n < length xs then Some (xs ! n) else None)"
  by (simp add: elem_at_def)

text \<open>\<^verbatim>\<open>xs[a:a+n]\<close>\<close>

definition window_at :: "'a list \<Rightarrow> int \<Rightarrow> nat \<Rightarrow> 'a list option" where
  "window_at xs a n = (if 0 \<le> a \<and> a + int n \<le> int (length xs) then Some (take n (drop (nat a) xs)) else None)"

text \<open>Entries outside the table read as zero; a negative length is a panic of \<^verbatim>\<open>make\<close>.\<close>

definition cdfWindow :: "u16 list \<Rightarrow> int \<Rightarrow> int \<Rightarrow> u16 list option" where
  "cdfWindow base start n =
     (if n < 0 then None
      else Some (map (\<lambda>i. let j = start + int i in if 0 \<le> j \<and> j < int (length base) then base ! nat j else 0) [0..<nat n]))"

lemma cdfWindow_inside:
  assumes "0 \<le> start" "0 \<le> n" "start + n \<le> int (length base)"
  shows "cdfWindow base start n = Some (take (nat n) (drop (nat start) base))"
proof -
  have "map (\<lambda>i. let j = start + int i in if 0 \<le> j \<and> j < int (length base) then base ! nat j else 0) [0..<nat n]
      = take (nat n) (drop (nat start) base)" (is "?l = ?r")
  proof (rule nth_equalityI)
    show "length ?l = length ?r" using assms by auto
    fix i assume "i < length ?l"
    then show "?l ! i = ?r ! i" using assms by (auto simp: Let_def nat_add_distrib)
  qed
  then show ?thesis using assms(2) by (simp add: cdfWindow_def)
qed

section \<open>Expansion of weights\<close>

text \<open>
  The weight of a symbol is the square of its seed byte plus one, at most 65535; the table adds up the weights scaled to
  what 32767 leaves after one count for every symbol.
\<close>

definition dcmf_weight :: "u8 \<Rightarrow> int" where
  "dcmf_weight b = (let tmp = uint b + 1 in if 65535 < tmp * tmp then 65535 else tmp * tmp)"

fun cmf_sums :: "int \<Rightarrow> int \<Rightarrow> u16 \<Rightarrow> int list \<Rightarrow> u16 list" where
  "cmf_sums k tot prev [] = [prev]"
| "cmf_sums k tot prev (w # ws) = prev # cmf_sums k tot (prev + word_of_int (w * k div tot) + 1) ws"

definition celpDcmfToCmf :: "bytes \<Rightarrow> u16 list" where
  "celpDcmfToCmf dcmf =
     (let ws = map dcmf_weight dcmf in cmf_sums (32767 - int (length dcmf)) (sum_list ws) 0 ws)"

fun cmf_sums64 :: "int \<Rightarrow> int \<Rightarrow> u16 \<Rightarrow> int list \<Rightarrow> u16 list" where
  "cmf_sums64 k tot prev [] = [prev]"
| "cmf_sums64 k tot prev (w # ws) = prev # cmf_sums64 k tot (word_of_int (uint prev + (w * k div tot + 1))) ws"

definition lsfDcmfToCmf :: "bytes \<Rightarrow> u16 list" where
  "lsfDcmfToCmf dcmf =
     (let ws = map dcmf_weight dcmf in cmf_sums64 (32767 - int (length dcmf)) (sum_list ws) 0 ws)"

fun cmf_sums32 :: "int \<Rightarrow> int \<Rightarrow> u32 \<Rightarrow> int list \<Rightarrow> u32 list" where
  "cmf_sums32 k tot prev [] = [prev]"
| "cmf_sums32 k tot prev (w # ws) = prev # cmf_sums32 k tot (word_of_int (uint prev + (w * k div tot + 1))) ws"

definition pitchDcmfToCmf :: "bytes \<Rightarrow> u32 list" where
  "pitchDcmfToCmf dcmf =
     (let ws = map dcmf_weight dcmf in cmf_sums32 (32767 - int (length dcmf)) (sum_list ws) 0 ws)"

text \<open>The same from computed weights; the division truncates towards zero, and by zero it is a panic.\<close>

fun pdf_sums :: "int \<Rightarrow> int \<Rightarrow> u16 \<Rightarrow> int list \<Rightarrow> u16 list" where
  "pdf_sums k tot prev [] = [prev]"
| "pdf_sums k tot prev (w # ws) = prev # pdf_sums k tot (word_of_int (uint prev + (w * k sdiv tot + 1))) ws"

definition pdfToCmf :: "int list \<Rightarrow> u16 list option" where
  "pdfToCmf pdf =
     (if pdf \<noteq> [] \<and> sum_list pdf = 0 then None
      else Some (pdf_sums (32767 - int (length pdf)) (sum_list pdf) 0 pdf))"

section \<open>The table sets\<close>

record SmplTables =
  LsfSel :: "u16 list list"
  LsfMatch1 :: "u16 list"
  LsfMatch1Alt :: "u16 list"
  LsfMatch0 :: "u16 list"
  LsfMatch0Alt :: "u16 list"
  LsfStage2 :: "u16 list list list list list"
  LsfExtra :: "u16 list"

record runlenCmfs =
  rl_maxSamples :: int
  rl_cmfs :: "u16 list list"

record CcTables =
  cc_nrgresGain4 :: "u16 list"
  cc_nrgresShape4 :: "u16 list"
  cc_fcbgOffset :: "u16 list list"
  cc_acbgainsHr :: "u16 list"
  cc_acbgainsLr :: "u16 list"
  cc_fcbgainsV :: "u16 list"
  cc_fcbgainsVDelta :: "u16 list"
  cc_acbgainsCbHrQ14 :: "int list"
  cc_acbgainsCbLrQ14 :: "int list"
  cc_gainRecon :: "int list"
  cc_gainReconBase :: u32
  cc_nPulseCmfs :: "u16 list list"
  cc_splitCmfs :: "u16 list list"
  cc_runlen :: "runlenCmfs list"

definition Cmf :: "runlenCmfs \<Rightarrow> int \<Rightarrow> u16 list option" where
  "Cmf r c = elem_at (rl_cmfs r) (c - 1)"

definition FcbgOffset :: "CcTables \<Rightarrow> int \<Rightarrow> int \<Rightarrow> int \<Rightarrow> u16 list option" where
  "FcbgOffset t tableIx bucket minOffset =
     do { row \<leftarrow> elem_at (cc_fcbgOffset t) (tableIx * 4 + bucket); window_at row minOffset 92 }"

definition AcbgainRow :: "CcTables \<Rightarrow> int \<Rightarrow> u16 list option" where
  "AcbgainRow t prev = window_at (cc_acbgainsHr t) ((prev + 1) * 17) 17"

definition AcbgainRowLr :: "CcTables \<Rightarrow> int \<Rightarrow> u16 list option" where
  "AcbgainRowLr t prev = window_at (cc_acbgainsLr t) ((prev + 1) * 17) 17"

definition AcbgainWeights :: "CcTables \<Rightarrow> int \<Rightarrow> (int \<times> int) option" where
  "AcbgainWeights t gi =
     do { w0 \<leftarrow> elem_at (cc_acbgainsCbHrQ14 t) (gi * 2); w2 \<leftarrow> elem_at (cc_acbgainsCbHrQ14 t) (gi * 2 + 1); Some (w0, w2) }"

definition AcbgainWeightsLr :: "CcTables \<Rightarrow> int \<Rightarrow> (int \<times> int) option" where
  "AcbgainWeightsLr t gi =
     do { w0 \<leftarrow> elem_at (cc_acbgainsCbLrQ14 t) (gi * 2); w2 \<leftarrow> elem_at (cc_acbgainsCbLrQ14 t) (gi * 2 + 1); Some (w0, w2) }"

definition FcbgainVDelta :: "CcTables \<Rightarrow> int \<Rightarrow> u16 list option" where
  "FcbgainVDelta t prevFilt = window_at (cc_fcbgainsVDelta t) (34 - 1 - prevFilt) 35"

definition gainReconAt :: "CcTables \<Rightarrow> u32 \<Rightarrow> int" where
  "gainReconAt t addr =
     (let off = uint (addr - cc_gainReconBase t)
      in if off mod 2 = 0 \<and> off div 2 < int (length (cc_gainRecon t)) then cc_gainRecon t ! nat (off div 2) else 0)"

definition NrgStep :: "CcTables \<Rightarrow> int \<Rightarrow> int" where
  "NrgStep t cfg = gainReconAt t (cc_gainReconBase t + word_of_int cfg * 2)"

definition GainRecon :: "CcTables \<Rightarrow> bool \<Rightarrow> int \<Rightarrow> int" where
  "GainRecon t p4 i = gainReconAt t ((if p4 then 0xf35f0 else 0xf3970) + word_of_int i * 2)"

definition NPulseCount :: "CcTables \<Rightarrow> int \<Rightarrow> u16 list option" where
  "NPulseCount t i = elem_at (cc_nPulseCmfs t) i"

text \<open>A total without a table has the empty one.\<close>

definition SplitCmf :: "CcTables \<Rightarrow> int \<Rightarrow> u16 list" where
  "SplitCmf t pulses =
     (let i = pulses - 1 in if i < 0 \<or> int (length (cc_splitCmfs t)) \<le> i then [] else cc_splitCmfs t ! nat i)"

definition Runlen :: "CcTables \<Rightarrow> int \<Rightarrow> runlenCmfs option" where
  "Runlen t oct = elem_at (cc_runlen t) (oct - 1)"

section \<open>The memory window\<close>

record SmplMem =
  sm_regions :: "(u32 \<times> bytes) list"
  sm_GPitch :: u32
  sm_GClk :: u32

text \<open>The bytes from an address on, in the first region that has the \<open>n\<close> bytes asked for.\<close>

definition regionFor :: "SmplMem \<Rightarrow> u32 \<Rightarrow> nat \<Rightarrow> bytes option" where
  "regionFor m addr n =
     map_option (\<lambda>(base, data). drop (unat (addr - base)) data)
       (find (\<lambda>(base, data). base \<le> addr \<and> unat (addr - base) + n \<le> length data) (sm_regions m))"

definition U8 :: "SmplMem \<Rightarrow> u32 \<Rightarrow> u8" where
  "U8 m addr = (case regionFor m addr 1 of Some b \<Rightarrow> b ! 0 | None \<Rightarrow> 0)"

definition U16 :: "SmplMem \<Rightarrow> u32 \<Rightarrow> u16" where
  "U16 m addr = (case regionFor m addr 2 of Some b \<Rightarrow> get_u16le b | None \<Rightarrow> 0)"

definition U32 :: "SmplMem \<Rightarrow> u32 \<Rightarrow> u32" where
  "U32 m addr = (case regionFor m addr 4 of Some b \<Rightarrow> get_u32le b | None \<Rightarrow> 0)"

definition I32 :: "SmplMem \<Rightarrow> u32 \<Rightarrow> int" where
  "I32 m addr = sint (U32 m addr)"

definition CDFAt :: "SmplMem \<Rightarrow> u32 \<Rightarrow> nat \<Rightarrow> u16 list" where
  "CDFAt m addr n = map (\<lambda>i. U16 m (addr + of_nat i * 2)) [0..<n]"

section \<open>Expanded tables\<close>

text \<open>Whatever the weights, the expansion is strictly increasing from zero and stays within 32767, so nothing wraps.\<close>

fun sums :: "int \<Rightarrow> int \<Rightarrow> int \<Rightarrow> int list \<Rightarrow> int list" where
  "sums k tot prev [] = [prev]"
| "sums k tot prev (w # ws) = prev # sums k tot (prev + w * k div tot + 1) ws"

lemma length_sums [simp]: "length (sums k tot prev ws) = Suc (length ws)"
  by (induction ws arbitrary: prev) auto

lemma sums_bounds:
  assumes "0 < tot" "0 \<le> k"
  shows "\<forall>w \<in> set ws. 0 \<le> w \<Longrightarrow> x \<in> set (sums k tot prev ws) \<Longrightarrow>
    prev \<le> x \<and> (x - prev - int (length ws)) * tot \<le> sum_list ws * k"
proof (induction ws arbitrary: prev x)
  case (Cons w ws)
  have step: "0 \<le> w * k div tot" "w * k div tot * tot \<le> w * k"
    using Cons.prems(1) assms pos_mod_sign [of tot "w * k"]
    by (simp_all add: pos_imp_zdiv_nonneg_iff flip: minus_mod_eq_div_mult)
  have nonneg: "0 \<le> sum_list ws * k" "0 \<le> w * k"
    using Cons.prems(1) assms by (simp_all add: sum_list_nonneg)
  show ?case
  proof (cases "x = prev")
    case True
    have "(- 1 - int (length ws)) * tot \<le> 0" using assms by (simp add: mult_nonpos_nonneg)
    then show ?thesis using True nonneg by (simp add: algebra_simps)
  next
    case False
    then have "prev + w * k div tot + 1 \<le> x \<and> (x - (prev + w * k div tot + 1) - int (length ws)) * tot \<le> sum_list ws * k"
      using Cons.prems by (intro Cons.IH) auto
    then show ?thesis using step by (simp add: algebra_simps)
  qed
qed simp

lemma sums_increase:
  assumes "0 < tot" "0 \<le> k"
  shows "\<forall>w \<in> set ws. 0 \<le> w \<Longrightarrow> sorted_wrt (<) (sums k tot prev ws)"
proof (induction ws arbitrary: prev)
  case (Cons w ws)
  have "0 \<le> w * k div tot" using Cons.prems assms by (simp add: pos_imp_zdiv_nonneg_iff)
  then have "prev < y" if "y \<in> set (sums k tot (prev + w * k div tot + 1) ws)" for y
    using sums_bounds [OF assms, of ws y "prev + w * k div tot + 1"] Cons.prems that by simp
  then show ?case using Cons by simp
qed simp

definition table_ok :: "nat \<Rightarrow> int list \<Rightarrow> bool" where
  "table_ok n xs \<longleftrightarrow> length xs = Suc n \<and> xs ! 0 = 0 \<and> sorted_wrt (<) xs \<and> (\<forall>x \<in> set xs. 0 \<le> x \<and> x \<le> 32767)"

lemma sums_ok:
  assumes "\<forall>w \<in> set ws. 0 \<le> w" "0 < sum_list ws" "length ws \<le> 32767"
  shows "table_ok (length ws) (sums (32767 - int (length ws)) (sum_list ws) 0 ws)"
proof -
  define k where "k = 32767 - int (length ws)"
  have k: "0 \<le> k" using assms(3) by (simp add: k_def)
  have "x \<le> 32767" if "x \<in> set (sums k (sum_list ws) 0 ws)" for x
  proof -
    have "(x - int (length ws)) * sum_list ws \<le> k * sum_list ws"
      using sums_bounds [OF assms(2) k assms(1) that] by (simp add: ac_simps)
    then show ?thesis using assms(2) by (simp add: k_def)
  qed
  moreover have "0 \<le> x" if "x \<in> set (sums k (sum_list ws) 0 ws)" for x
    using sums_bounds [OF assms(2) k assms(1) that] by simp
  moreover have "sums k (sum_list ws) 0 ws ! 0 = 0" by (cases ws) simp_all
  ultimately show ?thesis
    using sums_increase [OF assms(2) k assms(1)] by (simp add: table_ok_def flip: k_def)
qed


lemma cmf_sums_ints: "cmf_sums k tot (word_of_int p) ws = map word_of_int (sums k tot p ws)"
proof (induction ws arbitrary: p)
  case (Cons w ws)
  show ?case using Cons.IH [of "p + w * k div tot + 1"] by simp
qed simp

lemma cmf_sums64_same: "cmf_sums64 k tot p ws = cmf_sums k tot p ws"
proof (induction ws arbitrary: p)
  case (Cons w ws)
  show ?case using Cons.IH [of "p + word_of_int (w * k div tot) + 1"] by (simp add: ac_simps)
qed simp

lemma cmf_sums32_ints: "cmf_sums32 k tot (word_of_int p) ws = map word_of_int (sums k tot p ws)"
proof (induction ws arbitrary: p)
  case (Cons w ws)
  show ?case using Cons.IH [of "p + w * k div tot + 1"] by (simp add: ac_simps)
qed simp

lemma pdf_sums_same: "0 < tot \<Longrightarrow> 0 \<le> k \<Longrightarrow> \<forall>w \<in> set ws. 0 \<le> w \<Longrightarrow> pdf_sums k tot p ws = cmf_sums64 k tot p ws"
  by (induction ws arbitrary: p) (auto simp: signed_divide_int_def sgn_mult abs_mult sgn_if)

lemma dcmf_weights: "\<forall>w \<in> set (map dcmf_weight dcmf). 0 < w" "dcmf \<noteq> [] \<Longrightarrow> 0 < sum_list (map dcmf_weight dcmf)"
proof -
  have pos: "0 < dcmf_weight b" for b
  proof -
    have "0 \<le> uint b" by simp
    then have "0 < (uint b + 1) * (uint b + 1)" by (intro mult_pos_pos) simp_all
    then show ?thesis by (simp add: dcmf_weight_def Let_def)
  qed
  then show "\<forall>w \<in> set (map dcmf_weight dcmf). 0 < w" by simp
  show "dcmf \<noteq> [] \<Longrightarrow> 0 < sum_list (map dcmf_weight dcmf)"
    using pos by (cases dcmf) (auto simp: less_imp_le intro!: add_pos_nonneg sum_list_nonneg)
qed

lemma table_words:
  assumes "table_ok n xs"
  shows "map uint (map word_of_int xs :: u16 list) = xs" "map uint (map word_of_int xs :: u32 list) = xs"
  using assms by (auto simp: table_ok_def uint_word_of_int take_bit_int_eq_self intro!: map_idI)

lemma table_fits:
  assumes "table_ok n (map uint (cdf :: u16 list))" "0 \<le> x" "x < int n"
  shows "cdf_fits cdf x"
proof -
  have inc: "sorted_wrt (<) cdf" and len: "length cdf = Suc n"
    using assms(1) by (simp_all add: table_ok_def sorted_wrt_map word_less_def [abs_def])
  moreover have "cdf ! nat x < cdf ! (nat x + 1)"
    using sorted_wrt_nth_less [OF inc, of "nat x" "nat x + 1"] len assms(2,3) by simp
  ultimately show ?thesis using assms(2,3) strict_sorted_imp_sorted by (auto simp: cdf_fits_def)
qed

text \<open>
  Property C33. Every expanded table codes every symbol: from at most 32767 weights, whatever they are, the cumulative
  frequencies start at zero, increase strictly and end within 32767, so no frequency is lost to the 16 bits of an entry.
\<close>

theorem tables_code_every_symbol:
  assumes "dcmf \<noteq> []" "length dcmf \<le> 32767"
  shows "table_ok (length dcmf) (map uint (celpDcmfToCmf dcmf)) \<and> lsfDcmfToCmf dcmf = celpDcmfToCmf dcmf
    \<and> map uint (pitchDcmfToCmf dcmf) = map uint (celpDcmfToCmf dcmf)
    \<and> (\<forall>x. 0 \<le> x \<longrightarrow> x < int (length dcmf) \<longrightarrow> cdf_fits (celpDcmfToCmf dcmf) x)"
proof -
  define ws where "ws = map dcmf_weight dcmf"
  define xs where "xs = sums (32767 - int (length ws)) (sum_list ws) 0 ws"
  have ok: "table_ok (length dcmf) xs"
    using sums_ok [of ws] dcmf_weights [of dcmf] assms by (auto simp: xs_def ws_def less_imp_le)
  have celp: "celpDcmfToCmf dcmf = map word_of_int xs"
    using cmf_sums_ints [of _ _ 0 ws] by (simp add: celpDcmfToCmf_def xs_def ws_def Let_def)
  moreover have "pitchDcmfToCmf dcmf = map word_of_int xs"
    using cmf_sums32_ints [of _ _ 0 ws] by (simp add: pitchDcmfToCmf_def xs_def ws_def Let_def)
  moreover have "lsfDcmfToCmf dcmf = celpDcmfToCmf dcmf"
    by (simp add: lsfDcmfToCmf_def celpDcmfToCmf_def cmf_sums64_same)
  moreover have "table_ok (length dcmf) (map uint (celpDcmfToCmf dcmf))"
    unfolding celp table_words [OF ok] by (rule ok)
  ultimately show ?thesis using table_fits table_words [OF ok] by metis
qed

theorem tables_code_every_symbol_witness: "celpDcmfToCmf [3, 1] = [0, 26213, 32767] \<and> cdf_fits (celpDcmfToCmf [3, 1]) 1"
  using tables_code_every_symbol [of "[3, 1]"] by (simp add: celpDcmfToCmf_def dcmf_weight_def)

lemma pdf_table_ok:
  assumes "pdf \<noteq> []" "length pdf \<le> 32767" "\<forall>w \<in> set pdf. 0 \<le> w" "0 < sum_list pdf"
  shows "\<exists>cmf. pdfToCmf pdf = Some cmf \<and> table_ok (length pdf) (map uint cmf)"
proof -
  define xs where "xs = sums (32767 - int (length pdf)) (sum_list pdf) 0 pdf"
  have ok: "table_ok (length pdf) xs" using sums_ok [OF assms(3,4,2)] by (simp add: xs_def)
  have "pdfToCmf pdf = Some (map word_of_int xs)"
    using cmf_sums_ints [of _ _ 0 pdf] pdf_sums_same [OF assms(4) _ assms(3)] assms(2,4)
    by (simp add: pdfToCmf_def xs_def cmf_sums64_same)
  then show ?thesis using table_words [OF ok] ok by (intro exI [of _ "map word_of_int xs"]) (simp only: simp_thms)
qed

end
