(* ===== verification/FrameCoding.thy ===== *)
theory FrameCoding
  imports SymbolCoding CodecTables
begin

text \<open>
  The bit stream of a speech frame, read and written block by block: the spectral indices (\<^verbatim>\<open>DecodeSmplLsf\<close>,
  \<^verbatim>\<open>encodeSmplLsf\<close>), the pulses (\<^verbatim>\<open>mlow/pulse.go\<close>, \<^verbatim>\<open>encodeSmplPulses\<close>) and the gains of an unvoiced frame
  (\<^verbatim>\<open>mlow/gains.go\<close>, \<^verbatim>\<open>encodeSmplGains\<close>). An operation takes the coder it moves on and returns it; \<open>None\<close> is a call that
  does not return: an index out of range, or a normalisation that has no end. Arrays of a fixed length are lists.
\<close>

abbreviation decodeCDF :: "u16 list \<Rightarrow> RangeDecoder \<Rightarrow> (int \<times> RangeDecoder) option" where
  "decodeCDF cdf d \<equiv> dec_symbol (ByCDF cdf) d"

abbreviation encodeCDF :: "u16 list \<Rightarrow> int \<Rightarrow> RangeEncoder \<Rightarrow> RangeEncoder option" where
  "encodeCDF cdf x e \<equiv> EncodeCDF e x cdf"

section \<open>Spectral indices\<close>

record SmplLsfState =
  PrevStage1 :: int
  PrevMatch :: bool
  HavePrev :: bool
  PrevGainIdx :: int
  PrevFiltIdx :: int
  PrevLag :: int
  PrevFracLag :: int
  PrevLagblk :: int
  PrevLagidx :: int

record SmplLsfIndices =
  li_Stage1 :: int
  li_Grid :: int
  li_Stage2 :: "int list"
  li_StageNraw :: "int list"
  li_Extra :: int

definition DecodeSmplLsf ::
  "SmplTables \<Rightarrow> int \<Rightarrow> int \<Rightarrow> SmplLsfState \<Rightarrow> RangeDecoder \<Rightarrow> ((SmplLsfIndices \<times> SmplLsfState) \<times> RangeDecoder) option" where
  "DecodeSmplLsf t config intf st d =
     do {
       selCDF \<leftarrow> elem_at (LsfSel t) (if intf \<noteq> 0 then if PrevStage1 st \<noteq> 0 then 2 else 1 else 0);
       (stage1, d) \<leftarrow> decodeCDF selCDF d;
       let m = (intf \<noteq> 0 \<and> stage1 = PrevStage1 st);
       let st = (if m then st else st\<lparr>PrevGainIdx := -1, PrevFiltIdx := -1, PrevLag := -1, PrevFracLag := -1\<rparr>);
       let gridCDF = (if m \<and> stage1 \<noteq> 0 then LsfMatch1 t else if m then LsfMatch1Alt t
                      else if stage1 \<noteq> 0 then LsfMatch0Alt t else LsfMatch0 t);
       (grid, d) \<leftarrow> decodeCDF gridCDF d;
       configs \<leftarrow> elem_at (LsfStage2 t) stage1;
       grids \<leftarrow> elem_at configs config;
       st2 \<leftarrow> elem_at grids grid;
       (stage2, d) \<leftarrow> (if length st2 < 16 then None else decode_all dec_symbol (map ByCDF (take 16 st2)) d);
       (extra, d) \<leftarrow> decodeCDF (LsfExtra t) d;
       Some ((\<lparr>li_Stage1 = stage1, li_Grid = grid, li_Stage2 = stage2,
               li_StageNraw = map (\<lambda>c. int (length c) - 2) (take 16 st2), li_Extra = extra\<rparr>,
              st\<lparr>PrevStage1 := stage1, PrevMatch := m, HavePrev := True\<rparr>), d)
     }"

record SmplLsfParams =
  lp_Stage1 :: int
  lp_Grid :: int
  lp_Stage2 :: "int list"
  lp_Extra :: int

definition encodeSmplLsf ::
  "SmplTables \<Rightarrow> int \<Rightarrow> int \<Rightarrow> SmplLsfParams \<Rightarrow> SmplLsfState \<Rightarrow> RangeEncoder \<Rightarrow> (SmplLsfState \<times> RangeEncoder) option" where
  "encodeSmplLsf t config intf lsf st e =
     do {
       let stage1 = lp_Stage1 lsf;
       selCDF \<leftarrow> elem_at (LsfSel t) (if intf \<noteq> 0 then if PrevStage1 st \<noteq> 0 then 2 else 1 else 0);
       e \<leftarrow> encodeCDF selCDF stage1 e;
       let m = (intf \<noteq> 0 \<and> stage1 = PrevStage1 st);
       let st = (if m then st
                 else st\<lparr>PrevGainIdx := -1, PrevFiltIdx := -1, PrevLag := -1, PrevFracLag := -1, PrevLagblk := -1,
                         PrevLagidx := -1\<rparr>);
       let gridCDF = (if m \<and> stage1 \<noteq> 0 then LsfMatch1 t else if m then LsfMatch1Alt t
                      else if stage1 \<noteq> 0 then LsfMatch0Alt t else LsfMatch0 t);
       e \<leftarrow> encodeCDF gridCDF (lp_Grid lsf) e;
       configs \<leftarrow> elem_at (LsfStage2 t) stage1;
       grids \<leftarrow> elem_at configs config;
       st2 \<leftarrow> elem_at grids (lp_Grid lsf);
       e \<leftarrow> (if length st2 < 16 then None
            else encode_all enc_symbol (zip (map ByCDF (take 16 st2)) (lp_Stage2 lsf)) e);
       e \<leftarrow> encodeCDF (LsfExtra t) (lp_Extra lsf) e;
       Some (st\<lparr>PrevStage1 := stage1, PrevMatch := m, HavePrev := True\<rparr>, e)
     }"

section \<open>Pulses\<close>

definition smplPulseCountByte :: "u8 list" where
  "smplPulseCountByte = [80, 160, 160, 16, 32, 32, 0, 0]"

definition Mem8Static :: "u32 \<Rightarrow> u8" where
  "Mem8Static addr =
     (if 0xe8990 \<le> addr \<and> addr < 0xe8998 then smplPulseCountByte ! unat (addr - 0xe8990) else 0)"

text \<open>The cumulative triangular prior of the pulse count, and the search of the count in it.\<close>

definition triT :: "u32 \<Rightarrow> u32 \<Rightarrow> u32" where
  "triT l k = ((k + 2) * (l + 1) - drop_bit 1 ((k - 1) * (k + 131070))) AND 0xffff"

fun tri_search :: "u32 \<Rightarrow> u32 \<Rightarrow> nat \<Rightarrow> u32 \<Rightarrow> u32 \<Rightarrow> u32 \<times> (u32 \<times> u32) option" where
  "tri_search l v 0 k prevCum = (k, None)"
| "tri_search l v (Suc left) k prevCum =
     (let cum = triT l k
      in if prevCum \<le> v \<and> v < cum then (k, Some (prevCum, cum)) else tri_search l v left (k + 1) cum)"

definition dec_count :: "int \<Rightarrow> RangeDecoder \<Rightarrow> (int \<times> RangeDecoder) option" where
  "dec_count len4k d =
     (let l = word_of_int len4k;
          ft = (if triT l l = 0 then 1 else triT l l);
          (v, d1) = Decode d ft
      in case tri_search l v (unat (l + 1)) 0 0 of
           (k, None) \<Rightarrow> Some (sint k, d1)
         | (k, Some (fl, fh)) \<Rightarrow> map_option (Pair (sint k)) (Update d1 fl fh ft))"

definition smplSplit3537 :: "CcTables \<Rightarrow> int \<Rightarrow> int \<Rightarrow> RangeDecoder \<Rightarrow> (int \<times> RangeDecoder) option" where
  "smplSplit3537 cc count granularity d =
     (let lo = (if granularity < count then granularity else count);
          minSplit = (if count - granularity < 0 then 0 else count - granularity)
      in if lo < minSplit then Some (-1, d)
         else if minSplit = lo then Some (minSplit, d)
         else do {
           w \<leftarrow> cdfWindow (SplitCmf cc count) minSplit (lo - minSplit + 2);
           (s, d) \<leftarrow> decodeCDF w d;
           Some (s + minSplit, d)
         })"

text \<open>The split of the pulses over the four subframes; an inner \<open>None\<close> is the early return on a bad first half.\<close>

definition dec_split :: "CcTables \<Rightarrow> int \<Rightarrow> int \<Rightarrow> RangeDecoder \<Rightarrow> (int list option \<times> RangeDecoder) option" where
  "dec_split cc count subfrLen16 d =
     (if count = 0 then Some (Some [0, 0, 0, 0], d)
      else
        let half = (if count - subfrLen16 * 2 < 0 then 0 else count - subfrLen16 * 2);
            lo = (if count - 80 < 0 then 0 else count - 80);
            hiBound = count - lo
        in if half < lo then Some (None, d)
           else do {
             (half, d) \<leftarrow> (if half < hiBound then do {
                              w \<leftarrow> cdfWindow (SplitCmf cc count) (half - lo) (hiBound - half + 2);
                              (s, d) \<leftarrow> decodeCDF w d;
                              Some (half + s, d)
                            } else Some (half, d));
             ((s0, s1), d) \<leftarrow> (if 0 < half then do {
                                 (s0, d) \<leftarrow> smplSplit3537 cc half subfrLen16 d;
                                 Some ((s0, half - s0), d)
                               } else Some ((0, 0), d));
             ((s2, s3), d) \<leftarrow> (if half < count then do {
                                 (s2, d) \<leftarrow> smplSplit3537 cc (count - half) subfrLen16 d;
                                 Some ((s2, count - half - s2), d)
                               } else Some ((0, 0), d));
             Some (Some (if s0 = -1 \<or> s2 = -1 then [0, 0, 0, 0] else [s0, s1, s2, s3]), d)
           })"

text \<open>
  The runs between the pulses of one subframe. What is collected: the run symbols, the positions, and the magnitudes at
  these positions (as many as positions; a run of zero after the first pulse adds to the last magnitude).
\<close>

type_synonym runs = "int list \<times> int list \<times> int list"

fun dec_runs :: "CcTables \<Rightarrow> nat \<Rightarrow> int \<Rightarrow> bool \<Rightarrow> int \<Rightarrow> int \<Rightarrow> runs \<Rightarrow> RangeDecoder \<Rightarrow> (runs \<times> RangeDecoder) option" where
  "dec_runs cc 0 c first pos runPos acc d = Some (acc, d)"
| "dec_runs cc (Suc left) c first pos runPos (runs, poss, mags) d =
     (if pos < 0 then Some ((runs, poss, mags), d)
      else do {
        bucket \<leftarrow> Runlen cc ((pos + 7) div 8);
        cmf \<leftarrow> Cmf bucket c;
        w \<leftarrow> cdfWindow cmf (rl_maxSamples bucket - pos) (pos + 1);
        (m, d) \<leftarrow> decodeCDF w d;
        if 0 < m \<or> first then
          dec_runs cc left (c - 1) False (pos - m) (runPos + m) (runs @ [m], poss @ [runPos + m], mags @ [1]) d
        else
          dec_runs cc left (c - 1) False pos runPos
            (runs @ [m], poss, if mags = [] then [] else butlast mags @ [last mags + 1]) d
      })"

fun dec_subframes :: "CcTables \<Rightarrow> int \<Rightarrow> int \<Rightarrow> int list \<Rightarrow> runs \<Rightarrow> RangeDecoder \<Rightarrow> (runs \<times> RangeDecoder) option" where
  "dec_subframes cc posPer subfr [] acc d = Some (acc, d)"
| "dec_subframes cc posPer subfr (cnt # cnts) acc d =
     do {
       (acc, d) \<leftarrow> dec_runs cc (nat cnt) cnt True posPer (posPer * subfr) acc d;
       dec_subframes cc posPer (subfr + 1) cnts acc d
     }"

text \<open>Signs come in symbols of up to 15 bits, the first sign in the highest bit.\<close>

fun apply_signs :: "u32 \<Rightarrow> int list \<Rightarrow> int list" where
  "apply_signs bitfield [] = []"
| "apply_signs bitfield (m # ms) = m * (uint (drop_bit 14 bitfield AND 2) - 1) # apply_signs (push_bit 1 bitfield) ms"

function dec_signs :: "int list \<Rightarrow> RangeDecoder \<Rightarrow> ((int list \<times> (u32 \<times> u32) list) \<times> RangeDecoder) option" where
  "dec_signs mags d =
     (if mags = [] then Some (([], []), d)
      else
        let nbits = min 15 (length mags)
        in do {
          (x, d) \<leftarrow> DecodeRawSymbol d (of_nat nbits);
          ((rest, xs), d) \<leftarrow> dec_signs (drop nbits mags) d;
          Some ((apply_signs (push_bit (16 - nbits) x) (take nbits mags) @ rest, (x, of_nat nbits) # xs), d)
        })"
  by pat_completeness auto

termination dec_signs
  by (relation "measure (\<lambda>(mags, d). length mags)") auto

declare dec_signs.simps [simp del]

fun scatter :: "int list \<Rightarrow> (int \<times> int) list \<Rightarrow> int list" where
  "scatter pulses [] = pulses"
| "scatter pulses ((p, m) # pms) =
     scatter (if 0 \<le> p \<and> p < int (length pulses) then pulses[nat p := m] else pulses) pms"

record SmplPulseResult =
  pr_Pulses :: "int list"
  pr_Subfr :: "int list"
  pr_MagRuns :: "int list"
  pr_SignSyms :: "(u32 \<times> u32) list"

definition no_pulses :: "int \<Rightarrow> SmplPulseResult" where
  "no_pulses p2 = \<lparr>pr_Pulses = replicate (nat p2) 0, pr_Subfr = [0, 0, 0, 0], pr_MagRuns = [], pr_SignSyms = []\<rparr>"

text \<open>
  The frame has \<open>p2\<close> samples in four subframes (the path with \<^verbatim>\<open>p3 == 4\<close>, the only one the codec takes). With the low-rate
  configuration the pulse count has a table, otherwise the triangular prior.
\<close>

definition frameLen4k :: "int \<Rightarrow> int \<Rightarrow> int \<Rightarrow> int" where
  "frameLen4k p2 p6 i = uint (Mem8Static (0xe8990 + word_of_int (p6 * 3 + i))) * p2 div 320"

definition DecodeSmplPulses ::
  "CcTables \<Rightarrow> int \<Rightarrow> int \<Rightarrow> int \<Rightarrow> int \<Rightarrow> RangeDecoder \<Rightarrow> (SmplPulseResult \<times> RangeDecoder) option" where
  "DecodeSmplPulses cc p2 p4 p6 s1 d =
     do {
       let subfrLen16 = frameLen4k p2 p6 (p4 + s1) div 4;
       (count, d) \<leftarrow> (if p6 \<noteq> 0 then do { cdf \<leftarrow> NPulseCount cc (p4 + s1); decodeCDF cdf d }
                     else dec_count (frameLen4k p2 p6 (p4 + s1)) d);
       (split, d) \<leftarrow> dec_split cc count subfrLen16 d;
       case split of
         None \<Rightarrow> Some (no_pulses p2, d)
       | Some split \<Rightarrow> do {
           ((runs, poss, mags), d) \<leftarrow> dec_subframes cc (p2 div 4) 0 split ([], [], []) d;
           ((mags, signs), d) \<leftarrow> dec_signs mags d;
           Some (\<lparr>pr_Pulses = scatter (replicate (nat p2) 0) (zip poss mags), pr_Subfr = split,
                   pr_MagRuns = runs, pr_SignSyms = signs\<rparr>, d)
         }
     }"


record SmplPulseParams =
  pp_Total :: int
  pp_Subfr :: "int list"
  pp_MagRuns :: "int list"
  pp_SignSyms :: "(u32 \<times> u32) list"

definition enc_count :: "int \<Rightarrow> int \<Rightarrow> RangeEncoder \<Rightarrow> RangeEncoder option" where
  "enc_count len4k count e =
     (let l = word_of_int len4k;
          ft = (if triT l l = 0 then 1 else triT l l);
          fl = (if 0 < count then triT l (word_of_int (count - 1)) else 0);
          fh = triT l (word_of_int count)
      in Encode e fl fh ft)"

definition encodeSplit3537 :: "CcTables \<Rightarrow> int \<Rightarrow> int \<Rightarrow> int \<Rightarrow> RangeEncoder \<Rightarrow> RangeEncoder option" where
  "encodeSplit3537 cc count granularity s0 e =
     (let lo = (if granularity < count then granularity else count);
          minSplit = (if count - granularity < 0 then 0 else count - granularity)
      in if lo < minSplit \<or> minSplit = lo then Some e
         else do {
           w \<leftarrow> cdfWindow (SplitCmf cc count) minSplit (lo - minSplit + 2);
           encodeCDF w (s0 - minSplit) e
         })"

text \<open>The replay of the run symbols: what is left of them is returned with the coder.\<close>

fun enc_runs :: "CcTables \<Rightarrow> nat \<Rightarrow> int \<Rightarrow> bool \<Rightarrow> int \<Rightarrow> int list \<Rightarrow> RangeEncoder \<Rightarrow> (int list \<times> RangeEncoder) option" where
  "enc_runs cc 0 c first pos runs e = Some (runs, e)"
| "enc_runs cc (Suc left) c first pos runs e =
     do {
       bucket \<leftarrow> Runlen cc ((pos + 7) div 8);
       (m, runs) \<leftarrow> (case runs of [] \<Rightarrow> None | m # runs \<Rightarrow> Some (m, runs));
       cmf \<leftarrow> Cmf bucket c;
       w \<leftarrow> cdfWindow cmf (rl_maxSamples bucket - pos) (pos + 1);
       e \<leftarrow> encodeCDF w m e;
       enc_runs cc left (c - 1) False (if 0 < m \<or> first then pos - m else pos) runs e
     }"

fun enc_subframes :: "CcTables \<Rightarrow> int \<Rightarrow> int list \<Rightarrow> int list \<Rightarrow> RangeEncoder \<Rightarrow> (int list \<times> RangeEncoder) option" where
  "enc_subframes cc posPer [] runs e = Some (runs, e)"
| "enc_subframes cc posPer (cnt # cnts) runs e =
     do {
       (runs, e) \<leftarrow> enc_runs cc (nat cnt) cnt True posPer runs e;
       enc_subframes cc posPer cnts runs e
     }"

fun enc_signs :: "(u32 \<times> u32) list \<Rightarrow> RangeEncoder \<Rightarrow> RangeEncoder option" where
  "enc_signs [] e = Some e"
| "enc_signs ((x, nbits) # xs) e = Option.bind (EncodeRawSymbol e x nbits) (enc_signs xs)"

definition encodeSmplPulses ::
  "CcTables \<Rightarrow> int \<Rightarrow> int \<Rightarrow> int \<Rightarrow> int \<Rightarrow> SmplPulseParams \<Rightarrow> RangeEncoder \<Rightarrow> RangeEncoder option" where
  "encodeSmplPulses cc p2 p4 p6 s1 pp e =
     do {
       let subfrLen16 = frameLen4k p2 p6 (p4 + s1) div 4;
       let count = pp_Total pp;
       e \<leftarrow> enc_count (frameLen4k p2 p6 (p4 + s1)) count e;
       if count = 0 then Some e
       else do {
         subfr0 \<leftarrow> elem_at (pp_Subfr pp) 0;
         subfr1 \<leftarrow> elem_at (pp_Subfr pp) 1;
         subfr2 \<leftarrow> elem_at (pp_Subfr pp) 2;
         let finalSum = subfr0 + subfr1;
         let initSum = (if count - subfrLen16 * 2 < 0 then 0 else count - subfrLen16 * 2);
         let lo = (if count - 80 < 0 then 0 else count - 80);
         let hiBound = count - lo;
         if initSum < lo then Some e
         else do {
           e \<leftarrow> (if initSum < hiBound then do {
                   w \<leftarrow> cdfWindow (SplitCmf cc count) (initSum - lo) (hiBound - initSum + 2);
                   encodeCDF w (finalSum - initSum) e
                 } else Some e);
           e \<leftarrow> (if 0 < finalSum then encodeSplit3537 cc finalSum subfrLen16 subfr0 e else Some e);
           e \<leftarrow> (if finalSum < count then encodeSplit3537 cc (count - finalSum) subfrLen16 subfr2 e else Some e);
           (_, e) \<leftarrow> enc_subframes cc (p2 div 4) (pp_Subfr pp) (pp_MagRuns pp) e;
           enc_signs (pp_SignSyms pp) e
         }
       }
     }"

section \<open>Gains of an unvoiced frame\<close>

record SmplGainResult =
  gr_GainQ :: "int list"
  gr_NrgRes :: "int list"
  gr_GainMain :: int
  gr_GainDelta :: int

record SmplGainParams =
  gp_GainMain :: int
  gp_GainDelta :: int
  gp_NrgRes :: "int list"

text \<open>
  The table of the residual of one subframe follows from its pulse count and its gain. Masks and shifts of the code are
  written as arithmetic: \<^verbatim>\<open>cnt & 0xffff\<close> is a remainder, \<^verbatim>\<open>>> 14\<close> a division that rounds down, and \<^verbatim>\<open>(g >> 31) & g\<close> is
  \<open>g\<close> when it is negative and 0 otherwise.
\<close>

definition nrgres_cdf :: "CcTables \<Rightarrow> int \<Rightarrow> int \<Rightarrow> u16 list option" where
  "nrgres_cdf cc cnt gainQ =
     (let bucket = (if 30 \<le> cnt then 3 else cnt mod 0x10000 div 10);
          g = (gainQ + 8192) div 2 ^ 14;
          g = (if g < -85 then -85 else g);
          negPart = (if g < 0 then g else 0)
      in FcbgOffset cc 2 bucket (- negPart))"

definition gain_q :: "CcTables \<Rightarrow> int \<Rightarrow> int \<Rightarrow> int list" where
  "gain_q cc gainMain gainDelta =
     map (\<lambda>sf. gainMain * NrgStep cc 2 - 0x154000 + GainRecon cc True (int sf + 4 * gainDelta) * 16) [0..<4]"

fun dec_nrgres :: "CcTables \<Rightarrow> (int \<times> int) list \<Rightarrow> RangeDecoder \<Rightarrow> (int list \<times> RangeDecoder) option" where
  "dec_nrgres cc [] d = Some ([], d)"
| "dec_nrgres cc ((cnt, q) # sfs) d =
     do {
       (r, d) \<leftarrow> (if cnt \<le> 0 then Some (0, d) else do { cdf \<leftarrow> nrgres_cdf cc cnt q; decodeCDF cdf d });
       (rs, d) \<leftarrow> dec_nrgres cc sfs d;
       Some (r # rs, d)
     }"

definition DecodeSmplGains :: "CcTables \<Rightarrow> int list \<Rightarrow> RangeDecoder \<Rightarrow> (SmplGainResult \<times> RangeDecoder) option" where
  "DecodeSmplGains cc subfrCounts d =
     do {
       (gainMain, d) \<leftarrow> decodeCDF (cc_nrgresGain4 cc) d;
       (gainDelta, d) \<leftarrow> decodeCDF (cc_nrgresShape4 cc) d;
       let gainQ = gain_q cc gainMain gainDelta;
       (nrgRes, d) \<leftarrow> dec_nrgres cc (zip subfrCounts gainQ) d;
       Some (\<lparr>gr_GainQ = gainQ, gr_NrgRes = nrgRes, gr_GainMain = gainMain, gr_GainDelta = gainDelta\<rparr>, d)
     }"

fun enc_nrgres :: "CcTables \<Rightarrow> (int \<times> int) list \<Rightarrow> int list \<Rightarrow> RangeEncoder \<Rightarrow> RangeEncoder option" where
  "enc_nrgres cc ((cnt, q) # sfs) (r # rs) e =
     do {
       e \<leftarrow> (if cnt \<le> 0 then Some e else do { cdf \<leftarrow> nrgres_cdf cc cnt q; encodeCDF cdf r e });
       enc_nrgres cc sfs rs e
     }"
| "enc_nrgres cc _ _ e = Some e"

definition encodeSmplGains :: "CcTables \<Rightarrow> int list \<Rightarrow> SmplGainParams \<Rightarrow> RangeEncoder \<Rightarrow> RangeEncoder option" where
  "encodeSmplGains cc subfrCounts gp e =
     do {
       e \<leftarrow> encodeCDF (cc_nrgresGain4 cc) (gp_GainMain gp) e;
       e \<leftarrow> encodeCDF (cc_nrgresShape4 cc) (gp_GainDelta gp) e;
       enc_nrgres cc (zip subfrCounts (gain_q cc (gp_GainMain gp) (gp_GainDelta gp))) (gp_NrgRes gp) e
     }"

end
