(* ===== verification/PitchCoding.thy ===== *)
theory PitchCoding
  imports FrameCoding
begin

text \<open>
  The pitch block of a voiced frame (\<^verbatim>\<open>mlow/pitch.go\<close>, \<^verbatim>\<open>encodeSmplPitch\<close>): the gains and filters of the long-term predictor,
  and the lags. The encoder writes the lags from the pitch tables; the decoder reads them through the memory window,
  which holds the same tables at fixed addresses.
\<close>

section \<open>Gains and filters of the predictor\<close>

text \<open>What the loop carries: the previous gain and filter, and the accumulated gain.\<close>

type_synonym ltp = "int \<times> int \<times> int"

definition gain_cdf :: "CcTables \<Rightarrow> int \<Rightarrow> int \<Rightarrow> u16 list option" where
  "gain_cdf cc p6 prev = (if p6 \<noteq> 0 then AcbgainRowLr cc prev else AcbgainRow cc prev)"

definition gain_weight :: "CcTables \<Rightarrow> int \<Rightarrow> int \<Rightarrow> int option" where
  "gain_weight cc p6 gi =
     do { (w0, w2) \<leftarrow> (if p6 \<noteq> 0 then AcbgainWeightsLr cc gi else AcbgainWeights cc gi); Some (w0 + 2 * w2) }"

definition filt_cdf :: "CcTables \<Rightarrow> int \<Rightarrow> u16 list option" where
  "filt_cdf cc prev = (if prev = -1 then Some (cc_fcbgainsV cc) else FcbgainVDelta cc prev)"

fun dec_ltp :: "CcTables \<Rightarrow> int \<Rightarrow> int list \<Rightarrow> ltp \<Rightarrow> RangeDecoder \<Rightarrow> (((int list \<times> int list) \<times> ltp) \<times> RangeDecoder) option" where
  "dec_ltp cc p6 [] s d = Some ((([], []), s), d)"
| "dec_ltp cc p6 (cnt # cnts) (prevGain, prevFilt, accum) d =
     do {
       cdf \<leftarrow> gain_cdf cc p6 prevGain;
       (gi, d) \<leftarrow> decodeCDF cdf d;
       w \<leftarrow> gain_weight cc p6 gi;
       (fi, d) \<leftarrow> (if 0 < cnt then do { cdf \<leftarrow> filt_cdf cc prevFilt; decodeCDF cdf d } else Some (-1, d));
       (((gis, fis), s), d) \<leftarrow> dec_ltp cc p6 cnts (gi, if 0 < cnt then fi else prevFilt, accum + w) d;
       Some (((gi # gis, fi # fis), s), d)
     }"

fun enc_ltp :: "CcTables \<Rightarrow> int \<Rightarrow> int list \<Rightarrow> (int \<times> int) list \<Rightarrow> ltp \<Rightarrow> RangeEncoder \<Rightarrow> (ltp \<times> RangeEncoder) option" where
  "enc_ltp cc p6 (cnt # cnts) ((gi, fi) # gfs) (prevGain, prevFilt, accum) e =
     do {
       cdf \<leftarrow> gain_cdf cc p6 prevGain;
       e \<leftarrow> encodeCDF cdf gi e;
       w \<leftarrow> gain_weight cc p6 gi;
       e \<leftarrow> (if 0 < cnt then do { cdf \<leftarrow> filt_cdf cc prevFilt; encodeCDF cdf fi e } else Some e);
       enc_ltp cc p6 cnts gfs (gi, if 0 < cnt then fi else prevFilt, accum + w) e
     }"
| "enc_ltp cc p6 _ _ s e = Some (s, e)"

text \<open>The class of the mean gain, which selects the table of the lag differences.\<close>

definition lag_mode :: "int \<Rightarrow> int" where
  "lag_mode avgGain = (if 10007 \<le> avgGain then if avgGain < 14085 then 1 else 2 else 0)"

section \<open>Reading the lags\<close>

record SmplPitchResult =
  pt_GainIdx :: "int list"
  pt_FiltIdx :: "int list"
  pt_Lag :: int
  pt_Contour :: int
  pt_SampleLagQ6 :: "int list"
  pt_NumSeg :: int
  pt_IntLagQ6 :: "int list"
  pt_BlockLags :: "int list"
  pt_NumSubfr :: nat

definition pcfg :: "SmplMem \<Rightarrow> u32" where
  "pcfg mem = sm_GClk mem + 0x5704"

text \<open>The lag index; an inner \<open>None\<close> is a malformed interval.\<close>

definition dec_lag_index :: "SmplMem \<Rightarrow> SmplLsfState \<Rightarrow> RangeDecoder \<Rightarrow> (int option \<times> RangeDecoder) option" where
  "dec_lag_index mem st d =
     (let numContours = sint (U32 mem (pcfg mem + 22240));
          lagCdf = U32 mem (pcfg mem + 22248);
          deltaCdf = U32 mem (pcfg mem + 22268)
      in if PrevLag st < 0 then
           do { (lag, d) \<leftarrow> decodeCDF (CDFAt mem lagCdf (nat (numContours + 1))) d; Some (Some lag, d) }
         else do {
           (di, d) \<leftarrow> decodeCDF (CDFAt mem (deltaCdf + word_of_int (PrevLag st) * 20) 10) d;
           let lo = uint (U8 mem (0xe7ef0 + word_of_int di * 2));
           let hi = uint (U8 mem (0xe7ef0 + word_of_int di * 2 + 1));
           if hi - lo + 2 < 2 then Some (None, d)
           else do {
             (s, d) \<leftarrow> decodeCDF (CDFAt mem (lagCdf + word_of_int lo * 2) (nat (hi - lo + 2))) d;
             Some (Some (s + lo), d)
           }
         })"

definition find_contour :: "SmplMem \<Rightarrow> int \<Rightarrow> int" where
  "find_contour mem lag =
     (let contourMap = U32 mem (pcfg mem + 22244)
      in case find (\<lambda>i. uint (U8 mem (contourMap + of_nat i)) = lag + 1) [0..<217] of
           Some i \<Rightarrow> int i | None \<Rightarrow> -1)"

text \<open>
  The lags as they are laid out: the write position, the lags of the four subframes and those of the eight blocks. A
  write behind the end of either array is dropped, as the guards of the code do.
\<close>

type_synonym lag_rows = "nat \<times> int list \<times> int list"

fun put_lag :: "int \<Rightarrow> lag_rows \<Rightarrow> lag_rows" where
  "put_lag v (w, subfr, blocks) = (w, subfr[w := v], blocks[w := v])"

fun fill_lags :: "int \<Rightarrow> nat \<Rightarrow> lag_rows \<Rightarrow> lag_rows" where
  "fill_lags v 0 rows = rows"
| "fill_lags v (Suc n) (w, subfr, blocks) = fill_lags v n (Suc w, subfr[w := v], blocks[w := v])"

fun dec_lag_segs ::
  "SmplMem \<Rightarrow> u32 \<Rightarrow> u32 \<Rightarrow> nat list \<Rightarrow> int \<Rightarrow> int \<Rightarrow> SmplLsfState \<Rightarrow> int list \<Rightarrow> lag_rows \<Rightarrow> RangeDecoder
    \<Rightarrow> ((int list \<times> lag_rows \<times> SmplLsfState) \<times> RangeDecoder) option" where
  "dec_lag_segs mem ctrBase fracSegBase [] l2 l3 st sampleLags rows d = Some ((sampleLags, rows, st), d)"
| "dec_lag_segs mem ctrBase fracSegBase (seg # segs) l2 l3 st sampleLags rows d =
     do {
       let segLag = I32 mem (ctrBase + 0x1d38 + of_nat seg * 4);
       let nl2 = (push_bit 6 l2 - l3) + push_bit 6 (segLag - l2);
       (s, d) \<leftarrow> decodeCDF (CDFAt mem (fracSegBase + word_of_int (nl2 * 2) + 0xfe) 65) d;
       let l3 = s + PrevFracLag st + nl2;
       dec_lag_segs mem ctrBase fracSegBase segs segLag l3 (st\<lparr>PrevFracLag := l3, PrevLag := segLag\<rparr>)
         (sampleLags[seg := l3]) (fill_lags l3 (nat (I32 mem (ctrBase + 0x1d58 + of_nat seg * 4))) rows) d
     }"

definition dec_lags ::
  "SmplMem \<Rightarrow> int \<Rightarrow> int \<Rightarrow> SmplLsfState \<Rightarrow> RangeDecoder
    \<Rightarrow> ((int \<times> int list \<times> lag_rows \<times> SmplLsfState) \<times> RangeDecoder) option" where
  "dec_lags mem contour avgGain st d =
     (let ctrBase = pcfg mem + word_of_int contour * 0x44;
          baseLag = I32 mem (ctrBase + 0x1d38);
          readFine = \<not> (0 \<le> PrevLag st \<and> -1 \<le> baseLag - PrevLag st \<and> baseLag - PrevLag st < 3);
          cnt2 = I32 mem (ctrBase + 0x1d78);
          fracSegBase = U32 mem (pcfg mem + 22252) + word_of_int (lag_mode avgGain) * 0x280
      in do {
        ((curLag2, rows, st), d) \<leftarrow>
          (if readFine then do {
             (s, d) \<leftarrow> Decode64FineSym d;
             let curLag2 = push_bit 6 baseLag + s;
             let rows = fill_lags curLag2 (nat (I32 mem (ctrBase + 0x1d58))) (0, replicate 4 0, replicate 8 0);
             Some ((curLag2, put_lag curLag2 rows, st\<lparr>PrevFracLag := curLag2, PrevLag := baseLag\<rparr>), d)
           } else Some ((baseLag, (0, replicate 4 0, replicate 8 0), st), d));
        ((sampleLags, rows, st), d) \<leftarrow>
          dec_lag_segs mem ctrBase fracSegBase [if readFine then 1 else 0..<nat cnt2] curLag2 (PrevFracLag st) st
            (replicate 8 0) rows d;
        Some ((cnt2, sampleLags, rows, st), d)
      })"

definition no_lags :: "int list \<Rightarrow> int list \<Rightarrow> int \<Rightarrow> int \<Rightarrow> SmplPitchResult" where
  "no_lags gis fis lag contour =
     \<lparr>pt_GainIdx = gis, pt_FiltIdx = fis, pt_Lag = lag, pt_Contour = contour, pt_SampleLagQ6 = replicate 8 0, pt_NumSeg = 0,
      pt_IntLagQ6 = replicate 4 0, pt_BlockLags = replicate 8 0, pt_NumSubfr = 0\<rparr>"

definition DecodeSmplPitch ::
  "CcTables \<Rightarrow> SmplMem \<Rightarrow> int \<Rightarrow> int list \<Rightarrow> SmplLsfState \<Rightarrow> RangeDecoder
    \<Rightarrow> ((SmplPitchResult \<times> SmplLsfState) \<times> RangeDecoder) option" where
  "DecodeSmplPitch cc mem p6 subfrCounts st d =
     do {
       (((gis, fis), (prevGain, prevFilt, gainAccum)), d) \<leftarrow> dec_ltp cc p6 subfrCounts (PrevGainIdx st, PrevFiltIdx st, 0) d;
       let st = st\<lparr>PrevGainIdx := prevGain, PrevFiltIdx := prevFilt\<rparr>;
       (found, d) \<leftarrow> dec_lag_index mem st d;
       case found of
         None \<Rightarrow> Some ((no_lags gis fis (-1) 0, st), d)
       | Some lag \<Rightarrow>
           (let contour = find_contour mem lag
            in if contour < 0 \<or> sint (U32 mem (pcfg mem + 22240)) \<le> contour then Some ((no_lags gis fis lag contour, st), d)
               else do {
                 ((cnt2, sampleLags, (w, subfr, blocks), st), d) \<leftarrow> dec_lags mem contour (gainAccum sdiv 4) st d;
                 Some ((\<lparr>pt_GainIdx = gis, pt_FiltIdx = fis, pt_Lag = lag, pt_Contour = contour, pt_SampleLagQ6 = sampleLags,
                         pt_NumSeg = cnt2, pt_IntLagQ6 = subfr, pt_BlockLags = blocks, pt_NumSubfr = w\<rparr>, st), d)
               })
     }"

section \<open>Writing the lags\<close>

record pitchBlockSeg =
  bs_Nblocks :: nat
  bs_Blocks :: "int list"
  bs_Seglens :: "int list"

record PitchTables =
  Blocksegs :: "pitchBlockSeg list"
  Blocksegs2idx :: "int list"
  BlocksegIdxCmf :: "u32 list"
  DeltaLagCmfs :: "u32 list list"
  FirstblockRange :: "(int \<times> int) list"
  BlockTransitionCmf :: "u32 list list"

record SmplPitchParams =
  pi_GainIdx :: "int list"
  pi_FiltIdx :: "int list"
  pi_BlocksegIdx :: int
  pi_Laginds :: "int list"

text \<open>A part of a table, from entry to entry, against its first and its last entry.\<close>

definition enc_part :: "u32 list \<Rightarrow> int \<Rightarrow> int \<Rightarrow> int \<Rightarrow> RangeEncoder \<Rightarrow> RangeEncoder option" where
  "enc_part cmf base i upto_ix e =
     do { z \<leftarrow> elem_at cmf base; a \<leftarrow> elem_at cmf i; b \<leftarrow> elem_at cmf (i + 1); t \<leftarrow> elem_at cmf upto_ix; Encode e (a - z) (b - z) (t - z) }"

fun enc_lag_segs ::
  "u32 list \<Rightarrow> pitchBlockSeg \<Rightarrow> int list \<Rightarrow> nat list \<Rightarrow> int \<Rightarrow> int \<Rightarrow> int \<Rightarrow> RangeEncoder \<Rightarrow> RangeEncoder option" where
  "enc_lag_segs cmf seg laginds [] prevLagblk prevLagidx lagindsIx e = Some e"
| "enc_lag_segs cmf seg laginds (k # ks) prevLagblk prevLagidx lagindsIx e =
     do {
       blk \<leftarrow> elem_at (bs_Blocks seg) (int k);
       i \<leftarrow> elem_at laginds lagindsIx;
       seglen \<leftarrow> elem_at (bs_Seglens seg) (int k);
       let deltaIdx = i - prevLagidx;
       let deltaRangeStart = - (prevLagidx - prevLagblk * 64) + (blk - prevLagblk) * 64;
       let cmfBase = deltaRangeStart + 2 * 64 - 1;
       e \<leftarrow> enc_part cmf cmfBase (cmfBase + (deltaIdx - deltaRangeStart)) (cmfBase + 64) e;
       enc_lag_segs cmf seg laginds ks blk i (lagindsIx + seglen) e
     }"

definition encodeLagsWire ::
  "PitchTables \<Rightarrow> int \<Rightarrow> int list \<Rightarrow> int \<Rightarrow> int \<Rightarrow> int \<Rightarrow> RangeEncoder \<Rightarrow> RangeEncoder option" where
  "encodeLagsWire tab blocksegsIx laginds prevLagblk prevLagidx mode e =
     do {
       ixJulia \<leftarrow> elem_at (Blocksegs2idx tab) blocksegsIx;
       seg \<leftarrow> elem_at (Blocksegs tab) blocksegsIx;
       b0 \<leftarrow> elem_at (bs_Blocks seg) 0;
       e \<leftarrow> (if prevLagblk < 0 then do {
               a \<leftarrow> elem_at (BlocksegIdxCmf tab) (ixJulia - 1);
               b \<leftarrow> elem_at (BlocksegIdxCmf tab) ixJulia;
               t \<leftarrow> elem_at (BlocksegIdxCmf tab) (int (length (Blocksegs tab)));
               Encode e a b t
             } else do {
               cmf \<leftarrow> elem_at (BlockTransitionCmf tab) prevLagblk;
               a \<leftarrow> elem_at cmf b0;
               b \<leftarrow> elem_at cmf (b0 + 1);
               t \<leftarrow> elem_at cmf 9;
               e \<leftarrow> Encode e a b t;
               (start, stop) \<leftarrow> elem_at (FirstblockRange tab) b0;
               if start < 0 \<or> int (length (BlocksegIdxCmf tab)) < start then None
               else enc_part (drop (nat start) (BlocksegIdxCmf tab)) 0 (ixJulia - start - 1) (stop - start + 1) e
             });
       deltaLagCmf \<leftarrow> elem_at (DeltaLagCmfs tab) mode;
       if \<not> (-1 < prevLagblk \<and> -1 \<le> b0 - prevLagblk \<and> b0 - prevLagblk \<le> 2) then do {
         i \<leftarrow> elem_at laginds 0;
         e \<leftarrow> Encode e (word_of_int (i - b0 * 64)) (word_of_int (i - b0 * 64) + 1) 64;
         seglen \<leftarrow> elem_at (bs_Seglens seg) 0;
         enc_lag_segs deltaLagCmf seg laginds [1..<bs_Nblocks seg] b0 i seglen e
       } else enc_lag_segs deltaLagCmf seg laginds [0..<bs_Nblocks seg] prevLagblk prevLagidx 0 e
     }"

definition smplLagsPredictorAfter :: "PitchTables \<Rightarrow> int \<Rightarrow> int list \<Rightarrow> (int \<times> int) option" where
  "smplLagsPredictorAfter tab blocksegsIx laginds =
     do {
       seg \<leftarrow> elem_at (Blocksegs tab) blocksegsIx;
       lastBlk \<leftarrow> elem_at (bs_Blocks seg) (int (bs_Nblocks seg) - 1);
       lastIdx \<leftarrow> elem_at laginds 7;
       Some (lastBlk, lastIdx)
     }"

definition encodeSmplPitch ::
  "CcTables \<Rightarrow> PitchTables \<Rightarrow> int \<Rightarrow> int list \<Rightarrow> SmplPitchParams \<Rightarrow> SmplLsfState \<Rightarrow> RangeEncoder
    \<Rightarrow> (SmplLsfState \<times> RangeEncoder) option" where
  "encodeSmplPitch cc tab p6 subfrCounts pp st e =
     do {
       ((prevGain, prevFilt, gainAccum), e) \<leftarrow>
         enc_ltp cc p6 subfrCounts (zip (pi_GainIdx pp) (pi_FiltIdx pp)) (PrevGainIdx st, PrevFiltIdx st, 0) e;
       e \<leftarrow> encodeLagsWire tab (pi_BlocksegIdx pp) (pi_Laginds pp) (PrevLagblk st) (PrevLagidx st)
             (lag_mode (gainAccum sdiv 4)) e;
       (nblk, nidx) \<leftarrow> smplLagsPredictorAfter tab (pi_BlocksegIdx pp) (pi_Laginds pp);
       Some (st\<lparr>PrevGainIdx := prevGain, PrevFiltIdx := prevFilt, PrevLagblk := nblk, PrevLagidx := nidx\<rparr>, e)
     }"

end
