(* ===== verification/FrameRoundtrip.thy ===== *)
theory FrameRoundtrip
  imports PitchCoding
begin

text \<open>
  Every block of a frame is read back as it was written. A block that keeps predictor state on both sides is \<open>coded\<close>
  when its encoder returns a fixed new state and agrees with its decoder; blocks compose by the rules below, which
  follow the sequence of calls.
\<close>

section \<open>Composition\<close>

definition coded :: "(RangeEncoder \<Rightarrow> ('s \<times> RangeEncoder) option) \<Rightarrow> (RangeDecoder \<Rightarrow> ('x \<times> RangeDecoder) option) \<Rightarrow> 's \<Rightarrow> 'x \<Rightarrow> bool" where
  "coded enc dec s x \<longleftrightarrow> agree (\<lambda>e. map_option snd (enc e)) dec x \<and> (\<forall>e s' e'. enc e = Some (s', e') \<longrightarrow> s' = s)"

named_theorems coding \<open>rules that compose encoders with their decoders\<close>

lemma coded_return [coding]: "coded (\<lambda>e. Some (s, e)) (\<lambda>d. Some (x, d)) s x"
  using agree_return [of x] by (simp add: coded_def)

lemma agree_skip [coding]: "agree (\<lambda>e. Some e) (\<lambda>d. Some (x, d)) x"
  using agree_return [of x] by (simp add: eta_contract_eq)

lemma coded_then [coding]:
  assumes "agree enc1 dec1 x" "coded enc2 (dec2 x) s y"
  shows "coded (\<lambda>e. Option.bind (enc1 e) enc2) (\<lambda>d. Option.bind (dec1 d) (\<lambda>(x, d). dec2 x d)) s y"
proof -
  have "map_option snd (Option.bind (enc1 e) enc2) = Option.bind (enc1 e) (\<lambda>e. map_option snd (enc2 e))" for e
    by (cases "enc1 e") auto
  then show ?thesis
    using agree_then [OF assms(1), of "\<lambda>e. map_option snd (enc2 e)" dec2 y] assms(2)
    by (auto simp: coded_def bind_eq_Some_conv)
qed

lemma coded_both [coding]:
  assumes "coded enc1 dec1 s x" "coded (enc2 s) (dec2 x) s' y"
  shows "coded (\<lambda>e. Option.bind (enc1 e) (\<lambda>(s, e). enc2 s e)) (\<lambda>d. Option.bind (dec1 d) (\<lambda>(x, d). dec2 x d)) s' y"
proof -
  have st: "enc1 e = Some (t, e') \<Longrightarrow> t = s" for e t e' using assms(1) unfolding coded_def by blast
  then have "map_option snd (Option.bind (enc1 e) (\<lambda>(s, e). enc2 s e))
      = Option.bind (map_option snd (enc1 e)) (\<lambda>e. map_option snd (enc2 s e))" for e
    by (cases "enc1 e") auto
  moreover have "t = s'" if "Option.bind (enc1 e) (\<lambda>(s, e). enc2 s e) = Some (t, e')" for e t e'
  proof -
    obtain u e1 where u: "enc1 e = Some (u, e1)" "enc2 u e1 = Some (t, e')" using \<open>_ = Some (t, e')\<close>
      by (auto simp: bind_eq_Some_conv)
    then show ?thesis using st [OF u(1)] assms(2) unfolding coded_def by blast
  qed
  moreover have "agree (\<lambda>e. Option.bind (map_option snd (enc1 e)) (\<lambda>e. map_option snd (enc2 s e)))
      (\<lambda>d. Option.bind (dec1 d) (\<lambda>(x, d). dec2 x d)) y"
    using assms unfolding coded_def by (intro agree_then [of _ _ x]) simp_all
  ultimately show ?thesis unfolding coded_def by simp
qed

lemma agree_both:
  assumes "coded enc1 dec1 s x" "agree (enc2 s) (dec2 x) y"
  shows "agree (\<lambda>e. Option.bind (enc1 e) (\<lambda>(s, e). enc2 s e)) (\<lambda>d. Option.bind (dec1 d) (\<lambda>(x, d). dec2 x d)) y"
proof -
  have st: "enc1 e = Some (t, e') \<Longrightarrow> t = s" for e t e' using assms(1) unfolding coded_def by blast
  then have "Option.bind (enc1 e) (\<lambda>(s, e). enc2 s e) = Option.bind (map_option snd (enc1 e)) (enc2 s)" for e
    by (cases "enc1 e") auto
  then show ?thesis
    using agree_then [of "\<lambda>e. map_option snd (enc1 e)" dec1 x "enc2 s" dec2 y] assms by (simp add: coded_def)
qed

lemma agree_cdf: "cdf_fits cdf x \<Longrightarrow> agree (encodeCDF cdf x) (decodeCDF cdf) x"
  using rc.agrees [of "ByCDF cdf" x] by (simp add: agree_def)

lemma agree_last: "agree enc dec x \<Longrightarrow> agree enc (\<lambda>d. Option.bind (dec d) (\<lambda>(x, d). Some (f x, d))) (f x)"
  using agree_then [of enc dec x Some "\<lambda>x d. Some (f x, d)" "f x"] agree_return [of "f x"] by simp

lemma coded_last: "coded enc dec s x \<Longrightarrow> coded enc (\<lambda>d. Option.bind (dec d) (\<lambda>(x, d). Some (f x, d))) s (f x)"
  unfolding coded_def by (elim conjE, intro conjI agree_last)

text \<open>A table that is looked up first: the symbol fits it when it exists.\<close>

definition fits_at :: "u16 list option \<Rightarrow> int \<Rightarrow> bool" where
  "fits_at cdf x = (case cdf of None \<Rightarrow> False | Some c \<Rightarrow> cdf_fits c x)"

lemma fits_at_Some [simp]: "fits_at (Some c) x = cdf_fits c x" "\<not> fits_at None x"
  by (simp_all add: fits_at_def)

lemma fits_atE: "fits_at cdf x \<Longrightarrow> (\<And>c. cdf = Some c \<Longrightarrow> cdf_fits c x \<Longrightarrow> P) \<Longrightarrow> P"
  by (cases cdf) auto

section \<open>Spectral indices\<close>

definition lsf_fits :: "SmplTables \<Rightarrow> int \<Rightarrow> int \<Rightarrow> int \<Rightarrow> SmplLsfParams \<Rightarrow> bool" where
  "lsf_fits t config intf prev lsf =
     (let stage1 = lp_Stage1 lsf; m = (intf \<noteq> 0 \<and> stage1 = prev)
      in fits_at (elem_at (LsfSel t) (if intf \<noteq> 0 then if prev \<noteq> 0 then 2 else 1 else 0)) stage1
        \<and> cdf_fits (if m \<and> stage1 \<noteq> 0 then LsfMatch1 t else if m then LsfMatch1Alt t
            else if stage1 \<noteq> 0 then LsfMatch0Alt t else LsfMatch0 t) (lp_Grid lsf)
        \<and> (case do { configs \<leftarrow> elem_at (LsfStage2 t) stage1; grids \<leftarrow> elem_at configs config; elem_at grids (lp_Grid lsf) } of
             None \<Rightarrow> False
           | Some st2 \<Rightarrow> 16 \<le> length st2 \<and> list_all2 cdf_fits (take 16 st2) (lp_Stage2 lsf))
        \<and> cdf_fits (LsfExtra t) (lp_Extra lsf))"

definition lsf_read :: "SmplTables \<Rightarrow> int \<Rightarrow> SmplLsfParams \<Rightarrow> SmplLsfIndices" where
  "lsf_read t config lsf =
     \<lparr>li_Stage1 = lp_Stage1 lsf, li_Grid = lp_Grid lsf, li_Stage2 = lp_Stage2 lsf,
      li_StageNraw = map (\<lambda>c. int (length c) - 2)
        (take 16 (LsfStage2 t ! nat (lp_Stage1 lsf) ! nat config ! nat (lp_Grid lsf))),
      li_Extra = lp_Extra lsf\<rparr>"

text \<open>
  The predictor state of the encoder and of the decoder: the encoder keeps the last lag as a block and an index.
\<close>

definition lsf_next :: "int \<Rightarrow> int \<Rightarrow> SmplLsfState \<Rightarrow> SmplLsfState" where
  "lsf_next intf stage1 st =
     (let m = (intf \<noteq> 0 \<and> stage1 = PrevStage1 st)
      in (if m then st
          else st\<lparr>PrevGainIdx := -1, PrevFiltIdx := -1, PrevLag := -1, PrevFracLag := -1, PrevLagblk := -1, PrevLagidx := -1\<rparr>)
         \<lparr>PrevStage1 := stage1, PrevMatch := m, HavePrev := True\<rparr>)"

definition lsf_next_dec :: "int \<Rightarrow> int \<Rightarrow> SmplLsfState \<Rightarrow> SmplLsfState" where
  "lsf_next_dec intf stage1 st =
     (let m = (intf \<noteq> 0 \<and> stage1 = PrevStage1 st)
      in (if m then st else st\<lparr>PrevGainIdx := -1, PrevFiltIdx := -1, PrevLag := -1, PrevFracLag := -1\<rparr>)
         \<lparr>PrevStage1 := stage1, PrevMatch := m, HavePrev := True\<rparr>)"

lemma sequence_of_cdfs:
  assumes "list_all2 cdf_fits cdfs xs"
  shows "agree (encode_all enc_symbol (zip (map ByCDF cdfs) xs)) (decode_all dec_symbol (map ByCDF cdfs)) xs"
proof -
  have len: "length cdfs = length xs" using assms by (rule list_all2_lengthD)
  have "\<forall>(m, x) \<in> set (zip (map ByCDF cdfs) xs). symbol_fits m x"
    using assms by (auto simp: zip_map1 list_all2_iff)
  from rc.sequence_agrees [OF this] show ?thesis using len by simp
qed

lemma lsf_coded:
  assumes fits: "lsf_fits t config intf (PrevStage1 st) lsf" and same: "intf \<noteq> 0 \<Longrightarrow> PrevStage1 st' = PrevStage1 st"
  shows "coded (encodeSmplLsf t config intf lsf st) (DecodeSmplLsf t config intf st')
    (lsf_next intf (lp_Stage1 lsf) st) (lsf_read t config lsf, lsf_next_dec intf (lp_Stage1 lsf) st')"
proof -
  define m where "m = (intf \<noteq> 0 \<and> lp_Stage1 lsf = PrevStage1 st)"
  have m': "(intf \<noteq> 0 \<and> lp_Stage1 lsf = PrevStage1 st') = m" using same by (auto simp: m_def)
  obtain selCDF where sel: "elem_at (LsfSel t) (if intf \<noteq> 0 then if PrevStage1 st \<noteq> 0 then 2 else 1 else 0) = Some selCDF"
    "cdf_fits selCDF (lp_Stage1 lsf)"
    using fits unfolding lsf_fits_def Let_def by (elim conjE fits_atE)
  have sel': "elem_at (LsfSel t) (if intf \<noteq> 0 then if PrevStage1 st' \<noteq> 0 then 2 else 1 else 0) = Some selCDF"
    using sel(1) same by (simp split: if_splits)
  define gridCDF where "gridCDF = (if m \<and> lp_Stage1 lsf \<noteq> 0 then LsfMatch1 t else if m then LsfMatch1Alt t
      else if lp_Stage1 lsf \<noteq> 0 then LsfMatch0Alt t else LsfMatch0 t)"
  have grid: "cdf_fits gridCDF (lp_Grid lsf)" and extra: "cdf_fits (LsfExtra t) (lp_Extra lsf)"
    using fits unfolding lsf_fits_def Let_def gridCDF_def m_def by simp_all
  obtain configs grids st2 where st2: "elem_at (LsfStage2 t) (lp_Stage1 lsf) = Some configs" "elem_at configs config = Some grids"
    "elem_at grids (lp_Grid lsf) = Some st2" "16 \<le> length st2" "list_all2 cdf_fits (take 16 st2) (lp_Stage2 lsf)"
    using fits unfolding lsf_fits_def Let_def by (auto simp: bind_eq_Some_conv split: option.splits)
  have at: "LsfStage2 t ! nat (lp_Stage1 lsf) ! nat config ! nat (lp_Grid lsf) = st2"
    using st2(1-3) by (simp add: elem_at_Some)
  have enc: "encodeSmplLsf t config intf lsf st =
      (\<lambda>e. Option.bind (encodeCDF selCDF (lp_Stage1 lsf) e) (\<lambda>e. Option.bind (encodeCDF gridCDF (lp_Grid lsf) e)
        (\<lambda>e. Option.bind (encode_all enc_symbol (zip (map ByCDF (take 16 st2)) (lp_Stage2 lsf)) e)
          (\<lambda>e. Option.bind (encodeCDF (LsfExtra t) (lp_Extra lsf) e) (\<lambda>e. Some (lsf_next intf (lp_Stage1 lsf) st, e))))))"
    using st2(4) sel(1) unfolding encodeSmplLsf_def Let_def m_def [symmetric] gridCDF_def [symmetric]
    by (simp add: fun_eq_iff st2(1-3) lsf_next_def Let_def m_def)
  have short: "(length st2 < 16) = False" using st2(4) by simp
  show ?thesis
    unfolding enc
    unfolding DecodeSmplLsf_def sel' Let_def Option.bind_lunit
    apply (rule coded_then [OF agree_cdf [OF sel(2)]])
    unfolding m' gridCDF_def [symmetric]
    apply (rule coded_then [OF agree_cdf [OF grid]])
    unfolding st2(1-3) Option.bind_lunit
    unfolding short if_False
    apply (rule coded_then [OF sequence_of_cdfs [OF st2(5)]])
    apply (rule coded_then [OF agree_cdf [OF extra]])
    unfolding lsf_read_def at lsf_next_dec_def Let_def m'
    by (rule coded_return)
qed

section \<open>Gains\<close>

fun nrgres_fits :: "CcTables \<Rightarrow> (int \<times> int) list \<Rightarrow> int list \<Rightarrow> bool" where
  "nrgres_fits cc [] [] = True"
| "nrgres_fits cc ((cnt, q) # sfs) (r # rs) = ((0 < cnt \<longrightarrow> fits_at (nrgres_cdf cc cnt q) r) \<and> nrgres_fits cc sfs rs)"
| "nrgres_fits cc _ _ = False"

text \<open>A symbol of a subframe without pulses is not written, and reads as a fixed value.\<close>

definition coded_only :: "int \<Rightarrow> int list \<Rightarrow> int list \<Rightarrow> int list" where
  "coded_only v cnts xs = map2 (\<lambda>cnt x. if 0 < cnt then x else v) cnts xs"

lemma coded_only_simps [simp]:
  "coded_only v [] xs = []" "coded_only v (cnt # cnts) (x # xs) = (if 0 < cnt then x else v) # coded_only v cnts xs"
  by (simp_all add: coded_only_def)

lemma nrgres_steps:
  "enc_nrgres cc ((cnt, q) # sfs) (r # rs) =
     (\<lambda>e. Option.bind (if cnt \<le> 0 then Some e else do { cdf \<leftarrow> nrgres_cdf cc cnt q; encodeCDF cdf r e }) (enc_nrgres cc sfs rs))"
  "dec_nrgres cc ((cnt, q) # sfs) =
     (\<lambda>d. Option.bind (if cnt \<le> 0 then Some (0, d) else do { cdf \<leftarrow> nrgres_cdf cc cnt q; decodeCDF cdf d })
        (\<lambda>(r, d). Option.bind (dec_nrgres cc sfs d) (\<lambda>(rs, d). Some (r # rs, d))))"
  by (simp_all add: fun_eq_iff)

lemma nrgres_agree:
  "nrgres_fits cc sfs rs \<Longrightarrow> agree (enc_nrgres cc sfs rs) (dec_nrgres cc sfs) (coded_only 0 (map fst sfs) rs)"
proof (induction cc sfs rs rule: nrgres_fits.induct)
  case (1 cc)
  have "enc_nrgres cc [] [] = Some" "dec_nrgres cc [] = (\<lambda>d. Some ([], d))" by (simp_all add: fun_eq_iff)
  then show ?case using agree_return [of "[]"] by simp
next
  case (2 cc cnt q sfs r rs)
  have one: "agree (\<lambda>e. if cnt \<le> 0 then Some e else do { cdf \<leftarrow> nrgres_cdf cc cnt q; encodeCDF cdf r e })
      (\<lambda>d. if cnt \<le> 0 then Some (0, d) else do { cdf \<leftarrow> nrgres_cdf cc cnt q; decodeCDF cdf d }) (if 0 < cnt then r else 0)"
  proof (cases "0 < cnt")
    case True
    then obtain cdf where "nrgres_cdf cc cnt q = Some cdf" "cdf_fits cdf r" using 2(2) by (auto elim: fits_atE)
    then show ?thesis using True agree_cdf [of cdf r] by simp
  qed (use agree_skip in simp)
  have rest: "agree (enc_nrgres cc sfs rs) (dec_nrgres cc sfs) (coded_only 0 (map fst sfs) rs)" using 2 by simp
  show ?case
    unfolding nrgres_steps list.map fst_conv coded_only_simps
    by (rule agree_then [OF one]) (rule agree_last [OF rest, of "Cons _"])
qed simp_all

text \<open>The symbols of the gains fit their tables; the residuals fit the tables the gains select.\<close>

definition gains_fit :: "CcTables \<Rightarrow> int list \<Rightarrow> SmplGainParams \<Rightarrow> bool" where
  "gains_fit cc cnts gp \<longleftrightarrow> cdf_fits (cc_nrgresGain4 cc) (gp_GainMain gp) \<and> cdf_fits (cc_nrgresShape4 cc) (gp_GainDelta gp)
    \<and> length cnts = 4 \<and> nrgres_fits cc (zip cnts (gain_q cc (gp_GainMain gp) (gp_GainDelta gp))) (gp_NrgRes gp)"

definition gains_read :: "CcTables \<Rightarrow> int list \<Rightarrow> SmplGainParams \<Rightarrow> SmplGainResult" where
  "gains_read cc cnts gp =
     \<lparr>gr_GainQ = gain_q cc (gp_GainMain gp) (gp_GainDelta gp), gr_NrgRes = coded_only 0 cnts (gp_NrgRes gp),
      gr_GainMain = gp_GainMain gp, gr_GainDelta = gp_GainDelta gp\<rparr>"

lemma gains_agree:
  assumes "gains_fit cc cnts gp"
  shows "agree (encodeSmplGains cc cnts gp) (DecodeSmplGains cc cnts) (gains_read cc cnts gp)"
proof -
  define gainQ where "gainQ = gain_q cc (gp_GainMain gp) (gp_GainDelta gp)"
  have fits: "cdf_fits (cc_nrgresGain4 cc) (gp_GainMain gp)" "cdf_fits (cc_nrgresShape4 cc) (gp_GainDelta gp)"
    "nrgres_fits cc (zip cnts gainQ) (gp_NrgRes gp)" "map fst (zip cnts gainQ) = cnts"
    using assms by (simp_all add: gains_fit_def gainQ_def gain_q_def)
  note rest = nrgres_agree [OF fits(3), unfolded fits(4)]
  show ?thesis
    unfolding encodeSmplGains_def [abs_def] DecodeSmplGains_def [abs_def] gains_read_def Let_def gainQ_def [symmetric]
    apply (rule agree_then [OF agree_cdf [OF fits(1)]])
    apply (rule agree_then [OF agree_cdf [OF fits(2)]])
    unfolding gainQ_def [symmetric]
    by (rule agree_last [OF rest])
qed

section \<open>The pulse count\<close>

definition tri :: "int \<Rightarrow> int" where
  "tri k = ((k + 2) * 161 - ((k - 1) * (k + 131070)) mod 2 ^ 32 div 2) mod 65536"

lemma triT_int: "uint (triT 160 (word_of_int k)) = tri k"
proof -
  have m: "(0xffff :: u32) = mask 16" by (simp add: mask_eq_exp_minus_1)
  define a :: u32 where "a = word_of_int ((k + 2) * 161)"
  define b :: u32 where "b = word_of_int ((k - 1) * (k + 131070))"
  have "triT 160 (word_of_int k) = take_bit 16 (a - drop_bit 1 b)"
    by (simp add: triT_def m take_bit_eq_mask a_def b_def)
  then have "uint (triT 160 (word_of_int k)) = (uint a - uint b div 2) mod 2 ^ 32 mod 2 ^ 16"
    by (simp add: take_bit_eq_mod drop_bit_eq_div uint_mod uint_div uint_word_ariths)
  also have "\<dots> = (uint a - uint b div 2) mod 2 ^ 16" by (intro mod_mod_cancel) simp
  also have "uint b = ((k - 1) * (k + 131070)) mod 2 ^ 32"
    unfolding b_def uint_word_of_int by simp
  also have "(uint a - c) mod 2 ^ 16 = ((k + 2) * 161 - c) mod 2 ^ 16" for c
  proof -
    have "uint a mod 2 ^ 16 = ((k + 2) * 161) mod 2 ^ 16" unfolding a_def uint_word_of_int
      by (intro mod_mod_cancel) simp
    then show ?thesis by (metis mod_diff_left_eq)
  qed
  finally show ?thesis by (simp add: tri_def)
qed

lemma tri_table: "\<forall>k \<in> set [0..<160]. tri (int k) < tri (int k + 1)" "tri 0 = 321" "tri 160 = 13521"
  by code_simp+


lemma tri_less: "j < k \<Longrightarrow> k \<le> 160 \<Longrightarrow> tri (int j) < tri (int k)"
proof (induction k)
  case (Suc k)
  have "k \<in> set [0..<160]" using Suc.prems(2) by simp
  then have "tri (int k) < tri (int (Suc k))" using tri_table(1) by (simp add: add.commute)
  then show ?case using Suc by (cases "j = k") auto
qed simp

abbreviation tri_word :: "nat \<Rightarrow> u32" where
  "tri_word k \<equiv> triT 160 (word_of_int (int k))"

lemma tri_word_less: "j < k \<Longrightarrow> k \<le> 160 \<Longrightarrow> tri_word j < tri_word k"
  using tri_less by (simp only: word_less_def triT_int)

lemma tri_word_le: "j \<le> k \<Longrightarrow> k \<le> 160 \<Longrightarrow> tri_word j \<le> tri_word k"
  using tri_word_less [of j k] by (cases "j = k") simp_all

definition below :: "nat \<Rightarrow> u32" where
  "below k = (if k = 0 then 0 else tri_word (k - 1))"

lemma tri_part: "k \<le> 160 \<Longrightarrow> part_ok (below k) (tri_word k) (tri_word 160)"
proof -
  assume k: "k \<le> 160"
  have "tri_word 0 \<noteq> 0" using triT_int [of 0] tri_table(2) by auto
  then have "below k < tri_word k"
    using tri_word_less [of "k - 1" k] k by (cases "k = 0") (auto simp: below_def word_gt_0)
  moreover have "uint (tri_word 160) = 13521" using triT_int [of 160] tri_table(3) by simp
  then have "unat (tri_word 160) = 13521" by (metis nat_numeral unat_eq_nat_uint)
  then have "unat (tri_word 160) \<le> 2 ^ 23" by simp
  ultimately show ?thesis using tri_word_le [OF k] by (simp add: part_ok_def)
qed

lemma tri_found:
  "j \<le> k \<Longrightarrow> k \<le> 160 \<Longrightarrow> below k \<le> v \<Longrightarrow> v < tri_word k
    \<Longrightarrow> tri_search 160 v (161 - j) (word_of_int (int j)) (below j) = (word_of_int (int k), Some (below k, tri_word k))"
proof (induction "k - j" arbitrary: j)
  case 0
  then have "161 - j = Suc (160 - k)" "j = k" by simp_all
  then show ?case using 0 by (simp add: Let_def)
next
  case (Suc n)
  then have j: "j < k" "161 - j = Suc (161 - Suc j)" by simp_all
  have "tri_word j \<le> below k" using tri_word_le [of j "k - 1"] j(1) Suc.prems(2) by (simp add: below_def)
  then have "\<not> v < tri_word j" using Suc.prems(3) by (meson leD order_trans)
  moreover have "tri_search 160 v (161 - Suc j) (word_of_int (int (Suc j))) (below (Suc j))
      = (word_of_int (int k), Some (below k, tri_word k))"
    using Suc j by (intro Suc.hyps(1)) simp_all
  moreover have "below (Suc j) = tri_word j" by (simp add: below_def)
  ultimately show ?case unfolding j(2) by (simp add: Let_def add.commute)
qed

lemma count_agree:
  assumes "0 \<le> count" "count \<le> 160"
  shows "agree (enc_count 160 count) (dec_count 160) count"
proof -
  define k where "k = nat count"
  have k: "count = int k" "k \<le> 160" using assms by (simp_all add: k_def)
  have l: "(word_of_int 160 :: u32) = 160" "tri_word 160 \<noteq> 0" "triT 160 160 = tri_word 160"
    using tri_table(3) triT_int [of 160] by auto
  have fl: "(if 0 < count then triT 160 (word_of_int (count - 1)) else 0) = below k"
    using k(1) by (auto simp: below_def of_nat_diff)
  show ?thesis
  proof (rule agree_part [OF tri_part [OF k(2)]])
    fix e
    show "enc_count 160 count e = Encode e (below k) (tri_word k) (tri_word 160)"
      unfolding enc_count_def Let_def l(1,3) fl using l(2) by (simp add: k(1))
  next
    fix d :: RangeDecoder and s d1
    assume d: "Decode d (tri_word 160) = (s, d1)" and s: "below k \<le> s" "s < tri_word k"
    have "unat (160 + 1 :: u32) = 161" by simp
    moreover have "below 0 = 0" by (simp add: below_def)
    ultimately have "tri_search 160 s (unat (160 + 1 :: u32)) 0 0 = (word_of_int (int k), Some (below k, tri_word k))"
      using tri_found [of 0 k s] k(2) s by simp
    moreover have "sint (word_of_int (int k) :: u32) = int k"
      using k(2) by (simp add: signed_of_nat signed_take_bit_int_eq_self)
    ultimately show "dec_count 160 d = map_option (Pair count) (Update d1 (below k) (tri_word k) (tri_word 160))"
      unfolding dec_count_def Let_def l(1,3) using l(2) d by (simp add: k(1))
  qed
qed


section \<open>Pulses\<close>

definition split_fits :: "CcTables \<Rightarrow> int \<Rightarrow> int \<Rightarrow> int \<Rightarrow> bool" where
  "split_fits cc count granularity s0 =
     (let lo = (if granularity < count then granularity else count);
          minSplit = (if count - granularity < 0 then 0 else count - granularity)
      in minSplit \<le> lo \<and>
         (if minSplit = lo then s0 = minSplit
          else fits_at (cdfWindow (SplitCmf cc count) minSplit (lo - minSplit + 2)) (s0 - minSplit)))"

lemma split_agree:
  assumes "split_fits cc count granularity s0"
  shows "agree (encodeSplit3537 cc count granularity s0) (smplSplit3537 cc count granularity) s0" "0 \<le> s0"
proof -
  define lo where "lo = (if granularity < count then granularity else count)"
  define minSplit where "minSplit = (if count - granularity < 0 then 0 else count - granularity)"
  have le: "\<not> lo < minSplit" "0 \<le> minSplit"
    using assms by (simp_all add: split_fits_def Let_def lo_def minSplit_def)
  have enc: "encodeSplit3537 cc count granularity s0 =
      (\<lambda>e. if minSplit = lo then Some e else Option.bind (cdfWindow (SplitCmf cc count) minSplit (lo - minSplit + 2))
        (\<lambda>w. encodeCDF w (s0 - minSplit) e))"
    and dec: "smplSplit3537 cc count granularity =
      (\<lambda>d. if minSplit = lo then Some (minSplit, d)
        else Option.bind (cdfWindow (SplitCmf cc count) minSplit (lo - minSplit + 2))
          (\<lambda>w. Option.bind (decodeCDF w d) (\<lambda>(s, d). Some (s + minSplit, d))))"
    using le unfolding encodeSplit3537_def smplSplit3537_def Let_def lo_def minSplit_def by (simp_all add: fun_eq_iff)
  have "agree (encodeSplit3537 cc count granularity s0) (smplSplit3537 cc count granularity) s0 \<and> 0 \<le> s0"
  proof (cases "minSplit = lo")
    case True
    then have "s0 = minSplit" using assms by (simp add: split_fits_def Let_def lo_def minSplit_def)
    then show ?thesis
      unfolding enc dec using True agree_skip le(2) by simp_all
  next
    case False
    then have "fits_at (cdfWindow (SplitCmf cc count) minSplit (lo - minSplit + 2)) (s0 - minSplit)"
      using assms unfolding split_fits_def Let_def lo_def [symmetric] minSplit_def [symmetric] by simp
    then obtain w where w: "cdfWindow (SplitCmf cc count) minSplit (lo - minSplit + 2) = Some w" "cdf_fits w (s0 - minSplit)"
      by (rule fits_atE)
    show ?thesis
      unfolding enc dec using False agree_last [OF agree_cdf [OF w(2)], of "\<lambda>s. s + minSplit"] w le(2)
      by (simp add: cdf_fits_def)
  qed
  then show "agree (encodeSplit3537 cc count granularity s0) (smplSplit3537 cc count granularity) s0" "0 \<le> s0" by simp_all
qed

text \<open>The runs of one subframe fit their tables; what is left of the symbols is returned.\<close>

definition run_cdf :: "CcTables \<Rightarrow> int \<Rightarrow> int \<Rightarrow> u16 list option" where
  "run_cdf cc c pos =
     do { bucket \<leftarrow> Runlen cc ((pos + 7) div 8); cmf \<leftarrow> Cmf bucket c; cdfWindow cmf (rl_maxSamples bucket - pos) (pos + 1) }"

fun runs_fit :: "CcTables \<Rightarrow> nat \<Rightarrow> int \<Rightarrow> bool \<Rightarrow> int \<Rightarrow> int list \<Rightarrow> int list option" where
  "runs_fit cc 0 c first pos runs = Some runs"
| "runs_fit cc (Suc left) c first pos [] = None"
| "runs_fit cc (Suc left) c first pos (m # runs) =
     (if 0 \<le> pos \<and> fits_at (run_cdf cc c pos) m
      then runs_fit cc left (c - 1) False (if 0 < m \<or> first then pos - m else pos) runs else None)"

fun runs_read :: "nat \<Rightarrow> bool \<Rightarrow> int \<Rightarrow> int list \<Rightarrow> runs \<Rightarrow> runs" where
  "runs_read (Suc left) first runPos (m # ms) (runs, poss, mags) =
     (if 0 < m \<or> first then runs_read left False (runPos + m) ms (runs @ [m], poss @ [runPos + m], mags @ [1])
      else runs_read left False runPos ms (runs @ [m], poss, if mags = [] then [] else butlast mags @ [last mags + 1]))"
| "runs_read _ first runPos _ acc = acc"

lemma runs_coded:
  "runs_fit cc left c first pos runs = Some rest
    \<Longrightarrow> coded (enc_runs cc left c first pos runs) (dec_runs cc left c first pos runPos acc) rest (runs_read left first runPos runs acc)"
proof (induction cc left c first pos runs arbitrary: runPos acc rule: runs_fit.induct)
  case (1 cc c first pos runs)
  have "enc_runs cc 0 c first pos runs = (\<lambda>e. Some (runs, e))" "dec_runs cc 0 c first pos runPos acc = (\<lambda>d. Some (acc, d))"
    by (simp_all add: fun_eq_iff)
  then show ?case using 1 coded_return by simp
next
  case (3 cc left c first pos m runs)
  obtain rs ps ms where acc: "acc = (rs, ps, ms)" by (cases acc)
  have fit: "0 \<le> pos" "fits_at (run_cdf cc c pos) m"
    "runs_fit cc left (c - 1) False (if 0 < m \<or> first then pos - m else pos) runs = Some rest"
    using 3(2) unfolding runs_fit.simps by (metis option.distinct(1))+
  from fit(2) obtain w where "run_cdf cc c pos = Some w" and w: "cdf_fits w m" by (rule fits_atE)
  then obtain bucket cmf where look: "Runlen cc ((pos + 7) div 8) = Some bucket" "Cmf bucket c = Some cmf"
    "cdfWindow cmf (rl_maxSamples bucket - pos) (pos + 1) = Some w"
    by (auto simp: run_cdf_def bind_eq_Some_conv)
  have enc: "enc_runs cc (Suc left) c first pos (m # runs) =
      (\<lambda>e. Option.bind (encodeCDF w m e) (\<lambda>e. enc_runs cc left (c - 1) False (if 0 < m \<or> first then pos - m else pos) runs e))"
    by (simp add: fun_eq_iff look)
  have dec: "dec_runs cc (Suc left) c first pos runPos (rs, ps, ms) =
      (\<lambda>d. Option.bind (decodeCDF w d) (\<lambda>(m, d).
        if 0 < m \<or> first then dec_runs cc left (c - 1) False (pos - m) (runPos + m) (rs @ [m], ps @ [runPos + m], ms @ [1]) d
        else dec_runs cc left (c - 1) False pos runPos (rs @ [m], ps, if ms = [] then [] else butlast ms @ [last ms + 1]) d))"
    using fit(1) by (simp add: fun_eq_iff look)
  note ih = 3(1) [OF conjI [OF fit(1,2)] fit(3)]
  show ?case
    unfolding enc dec acc
    apply (rule coded_then [OF agree_cdf [OF w]])
    using ih by (cases "0 < m \<or> first") simp_all
qed simp

lemma runs_read_symbols:
  "runs_fit cc left c first pos runs = Some rest \<Longrightarrow>
    rest = drop left runs \<and> fst (runs_read left first runPos runs acc) = fst acc @ take left runs"
proof (induction cc left c first pos runs arbitrary: runPos acc rule: runs_fit.induct)
  case (3 cc left c first pos m runs)
  then show ?case by (cases acc) (auto split: if_splits)
qed auto

lemma runs_read_aligned:
  "length (fst (snd acc)) = length (snd (snd acc)) \<Longrightarrow>
    length (fst (snd (runs_read left first runPos runs acc))) = length (snd (snd (runs_read left first runPos runs acc)))"
  by (induction left first runPos runs acc rule: runs_read.induct) auto

fun subframes_fit :: "CcTables \<Rightarrow> int \<Rightarrow> int list \<Rightarrow> int list \<Rightarrow> int list option" where
  "subframes_fit cc posPer [] runs = Some runs"
| "subframes_fit cc posPer (cnt # cnts) runs =
     Option.bind (runs_fit cc (nat cnt) cnt True posPer runs) (subframes_fit cc posPer cnts)"

fun subframes_read :: "int \<Rightarrow> int \<Rightarrow> int list \<Rightarrow> int list \<Rightarrow> runs \<Rightarrow> runs" where
  "subframes_read posPer subfr [] runs acc = acc"
| "subframes_read posPer subfr (cnt # cnts) runs acc =
     subframes_read posPer (subfr + 1) cnts (drop (nat cnt) runs) (runs_read (nat cnt) True (posPer * subfr) runs acc)"

lemma subframes_coded:
  "subframes_fit cc posPer cnts runs = Some rest
    \<Longrightarrow> coded (enc_subframes cc posPer cnts runs) (dec_subframes cc posPer subfr cnts acc) rest (subframes_read posPer subfr cnts runs acc)"
proof (induction cnts arbitrary: runs subfr acc)
  case Nil
  have "enc_subframes cc posPer [] runs = (\<lambda>e. Some (runs, e))" "dec_subframes cc posPer subfr [] acc = (\<lambda>d. Some (acc, d))"
    by (simp_all add: fun_eq_iff)
  then show ?case using Nil coded_return by simp
next
  case (Cons cnt cnts)
  then obtain mid where mid: "runs_fit cc (nat cnt) cnt True posPer runs = Some mid" "subframes_fit cc posPer cnts mid = Some rest"
    by (auto simp: bind_eq_Some_conv)
  have "mid = drop (nat cnt) runs" using runs_read_symbols [OF mid(1)] by blast
  then show ?case
    unfolding enc_subframes.simps(2) [abs_def] dec_subframes.simps(2) [abs_def] subframes_read.simps(2)
    apply (intro coded_both [OF runs_coded [OF mid(1)]])
    using Cons.IH [OF mid(2)] by simp
qed


lemma agree_raw_word:
  assumes "unat nbits \<le> 23" "unat x < 2 ^ unat nbits"
  shows "agree (\<lambda>e. EncodeRawSymbol e x nbits) (\<lambda>d. DecodeRawSymbol d nbits) x"
proof -
  have "uint x < 2 ^ unat nbits" using assms(2) by (metis of_nat_less_iff of_nat_numeral of_nat_power uint_nat)
  then have "agree (\<lambda>e. EncodeRawSymbol e (word_of_int (uint x)) nbits)
      (\<lambda>d. map_option (map_prod uint id) (DecodeRawSymbol d nbits)) (uint x)"
    by (intro agree_raw assms(1)) simp_all
  note this = agree_map [OF this, where f = "word_of_int :: int \<Rightarrow> u32"]
  moreover have "map_option (map_prod word_of_int id) (map_option (map_prod uint id) r) = r" for r :: "(u32 \<times> RangeDecoder) option"
    by (cases r) auto
  ultimately show ?thesis by (simp only: word_of_int_uint)
qed

function signs_fit :: "nat \<Rightarrow> (u32 \<times> u32) list \<Rightarrow> bool" where
  "signs_fit n xs =
     (if n = 0 then xs = []
      else case xs of
        [] \<Rightarrow> False
      | (x, nbits) # xs \<Rightarrow> nbits = of_nat (min 15 n) \<and> unat x < 2 ^ min 15 n \<and> signs_fit (n - min 15 n) xs)"
  by pat_completeness auto

termination signs_fit
  by (relation "measure fst") auto

declare signs_fit.simps [simp del]

function signs_read :: "int list \<Rightarrow> (u32 \<times> u32) list \<Rightarrow> int list" where
  "signs_read mags xs =
     (if mags = [] \<or> xs = [] then []
      else let nbits = min 15 (length mags)
        in apply_signs (push_bit (16 - nbits) (fst (hd xs))) (take nbits mags) @ signs_read (drop nbits mags) (tl xs))"
  by pat_completeness auto

termination signs_read
  by (relation "measure (\<lambda>(mags, xs). length mags)") auto

declare signs_read.simps [simp del]

lemma signs_agree:
  "signs_fit (length mags) xs \<Longrightarrow> agree (enc_signs xs) (dec_signs mags) (signs_read mags xs, xs)"
proof (induction mags xs rule: signs_read.induct)
  case (1 mags xs)
  show ?case
  proof (cases "mags = []")
    case True
    then have "xs = []" using 1(2) by (simp add: signs_fit.simps [of 0])
    moreover have "enc_signs [] = Some" "dec_signs [] = (\<lambda>d. Some (([], []), d))"
      by (simp_all add: fun_eq_iff dec_signs.simps [of "[]"])
    ultimately show ?thesis using agree_return True by (simp add: signs_read.simps [of "[]"])
  next
    case False
    define n where "n = min 15 (length mags)"
    have n: "length mags \<noteq> 0" "n \<le> 15" "length (drop n mags) = length mags - n" using False by (simp_all add: n_def)
    obtain x ys where xs: "xs = (x, of_nat n) # ys" "unat x < 2 ^ n" "signs_fit (length mags - n) ys"
      using 1(2) n(1) unfolding signs_fit.simps [of "length mags"] n_def by (auto split: list.splits)
    have bits: "unat (of_nat n :: u32) = n" using n(2) unat_u32_small [of n] by simp
    have raw: "agree (\<lambda>e. EncodeRawSymbol e x (of_nat n)) (\<lambda>d. DecodeRawSymbol d (of_nat n)) x"
      using xs(2) n(2) by (intro agree_raw_word) (simp_all add: bits)
    have ih: "agree (enc_signs ys) (dec_signs (drop n mags)) (signs_read (drop n mags) ys, ys)"
      using 1(1) [of n] False xs n by (simp add: n_def)
    have enc: "enc_signs ((x, of_nat n) # ys) = (\<lambda>e. Option.bind (EncodeRawSymbol e x (of_nat n)) (enc_signs ys))"
      by (simp add: fun_eq_iff)
    have dec: "dec_signs mags = (\<lambda>d. Option.bind (DecodeRawSymbol d (of_nat n)) (\<lambda>(x, d).
        Option.bind (dec_signs (drop n mags) d) (\<lambda>((rest, xs), d).
          Some ((apply_signs (push_bit (16 - n) x) (take n mags) @ rest, (x, of_nat n) # xs), d))))"
      using False by (subst dec_signs.simps [abs_def]) (simp add: fun_eq_iff n_def Let_def)
    have read: "signs_read mags ((x, of_nat n) # ys) = apply_signs (push_bit (16 - n) x) (take n mags) @ signs_read (drop n mags) ys"
      using False by (subst signs_read.simps) (simp add: n_def Let_def)
    show ?thesis
      unfolding xs(1) enc dec read
      apply (rule agree_then [OF raw])
      using agree_last [OF ih, of "\<lambda>(rest, xs). (apply_signs (push_bit (16 - n) x) (take n mags) @ rest, (x, of_nat n) # xs)"]
      by (simp add: case_prod_beta')
  qed
qed


text \<open>
  The pulses of a frame fit: the subframe counts add up along the splits, the split symbols and the runs fit their
  tables, and there are the sign symbols for the positions. Without pulses there is nothing else.
\<close>

definition positions_of :: "SmplPulseParams \<Rightarrow> runs" where
  "positions_of pp = subframes_read 80 0 (pp_Subfr pp) (pp_MagRuns pp) ([], [], [])"

definition pulses_fit :: "CcTables \<Rightarrow> SmplPulseParams \<Rightarrow> bool" where
  "pulses_fit cc pp =
     (let count = pp_Total pp;
          initSum = (if count - 80 < 0 then 0 else count - 80)
      in 0 \<le> count \<and> count \<le> 160 \<and>
         (if count = 0 then pp_Subfr pp = [0, 0, 0, 0] \<and> pp_MagRuns pp = [] \<and> pp_SignSyms pp = []
          else case pp_Subfr pp of
            [s0, s1, s2, s3] \<Rightarrow>
              s0 + s1 + s2 + s3 = count \<and>
              (if initSum < count - initSum
               then fits_at (cdfWindow (SplitCmf cc count) 0 (count - initSum - initSum + 2)) (s0 + s1 - initSum)
               else s0 + s1 = initSum) \<and>
              (if 0 < s0 + s1 then split_fits cc (s0 + s1) 40 s0 else s0 = 0 \<and> s1 = 0) \<and>
              (if s0 + s1 < count then split_fits cc (count - (s0 + s1)) 40 s2 else s2 = 0 \<and> s3 = 0) \<and>
              subframes_fit cc 80 (pp_Subfr pp) (pp_MagRuns pp) = Some [] \<and>
              signs_fit (length (snd (snd (positions_of pp)))) (pp_SignSyms pp)
          | _ \<Rightarrow> False))"

definition pulses_read :: "SmplPulseParams \<Rightarrow> SmplPulseResult" where
  "pulses_read pp =
     \<lparr>pr_Pulses = (case positions_of pp of (runs, poss, mags) \<Rightarrow>
        scatter (replicate 320 0) (zip poss (signs_read mags (pp_SignSyms pp)))),
      pr_Subfr = pp_Subfr pp, pr_MagRuns = pp_MagRuns pp, pr_SignSyms = pp_SignSyms pp\<rparr>"

lemma len160: "s1 = 0 \<or> s1 = 1 \<Longrightarrow> frameLen4k 320 0 (1 + s1) = 160"
  by (auto simp: frameLen4k_def Mem8Static_def smplPulseCountByte_def)

lemma subframes_read_runs:
  "subframes_fit cc posPer cnts runs = Some rest \<Longrightarrow> fst (subframes_read posPer subfr cnts runs acc) @ rest = fst acc @ runs"
proof (induction cnts arbitrary: runs subfr acc)
  case (Cons cnt cnts)
  then obtain mid where mid: "runs_fit cc (nat cnt) cnt True posPer runs = Some mid" "subframes_fit cc posPer cnts mid = Some rest"
    by (auto simp: bind_eq_Some_conv)
  note r = runs_read_symbols [OF mid(1)]
  have "mid = drop (nat cnt) runs" using r by blast
  then show ?case using Cons.IH [OF mid(2)] r [of "posPer * subfr" acc] by simp
qed simp

text \<open>The splits, in the order of the calls; both sides go on with what they were given.\<close>

lemma dec_split_step:
  assumes "0 < count" "count \<le> 160" "half0 = (if count - 80 < 0 then 0 else count - 80)"
  shows "dec_split cc count 40 =
    (\<lambda>d. Option.bind (if half0 < count - half0 then
            Option.bind (cdfWindow (SplitCmf cc count) 0 (count - half0 - half0 + 2)) (\<lambda>w.
              Option.bind (decodeCDF w d) (\<lambda>(s, d). Some (half0 + s, d)))
          else Some (half0, d)) (\<lambda>(half, d).
       Option.bind (if 0 < half then Option.bind (smplSplit3537 cc half 40 d) (\<lambda>(s0, d). Some ((s0, half - s0), d))
          else Some ((0, 0), d)) (\<lambda>((s0, s1), d).
         Option.bind (if half < count then Option.bind (smplSplit3537 cc (count - half) 40 d)
               (\<lambda>(s2, d). Some ((s2, count - half - s2), d)) else Some ((0, 0), d)) (\<lambda>((s2, s3), d).
           Some (Some (if s0 = -1 \<or> s2 = -1 then [0, 0, 0, 0] else [s0, s1, s2, s3]), d)))))"
  using assms(1) unfolding dec_split_def Let_def assms(3) by (simp add: fun_eq_iff)

definition enc_split :: "CcTables \<Rightarrow> int \<Rightarrow> int \<Rightarrow> int \<Rightarrow> int \<Rightarrow> RangeEncoder \<Rightarrow> RangeEncoder option" where
  "enc_split cc count h s0 s2 e =
     (let initSum = (if count - 80 < 0 then 0 else count - 80)
      in do {
        e \<leftarrow> (if initSum < count - initSum then do {
                w \<leftarrow> cdfWindow (SplitCmf cc count) 0 (count - initSum - initSum + 2);
                encodeCDF w (h - initSum) e
              } else Some e);
        e \<leftarrow> (if 0 < h then encodeSplit3537 cc h 40 s0 e else Some e);
        if h < count then encodeSplit3537 cc (count - h) 40 s2 e else Some e
      })"

lemma half_agree:
  assumes "if 0 < n then split_fits cc n 40 a else a = 0 \<and> b = 0" "a + b = n"
  shows "agree (\<lambda>e. if 0 < n then encodeSplit3537 cc n 40 a e else Some e)
      (\<lambda>d. if 0 < n then Option.bind (smplSplit3537 cc n 40 d) (\<lambda>(a, d). Some ((a, n - a), d)) else Some ((0, 0), d)) (a, b)"
    "a \<noteq> -1"
proof -
  have "agree (\<lambda>e. if 0 < n then encodeSplit3537 cc n 40 a e else Some e)
      (\<lambda>d. if 0 < n then Option.bind (smplSplit3537 cc n 40 d) (\<lambda>(a, d). Some ((a, n - a), d)) else Some ((0, 0), d)) (a, b)
    \<and> a \<noteq> -1"
  proof (cases "0 < n")
    case True
    then have f: "split_fits cc n 40 a" using assms(1) by simp
    have "b = n - a" using assms(2) by simp
    then show ?thesis using True agree_last [OF split_agree(1) [OF f], of "\<lambda>a. (a, n - a)"] split_agree(2) [OF f] by simp
  next
    case False
    then show ?thesis using assms(1) agree_skip [of "(0, 0)"] by simp
  qed
  then show "agree (\<lambda>e. if 0 < n then encodeSplit3537 cc n 40 a e else Some e)
      (\<lambda>d. if 0 < n then Option.bind (smplSplit3537 cc n 40 d) (\<lambda>(a, d). Some ((a, n - a), d)) else Some ((0, 0), d)) (a, b)"
    "a \<noteq> -1" by simp_all
qed

lemma split_coded:
  assumes "0 < count" "count \<le> 160"
    and first: "if (if count - 80 < 0 then 0 else count - 80) < count - (if count - 80 < 0 then 0 else count - 80)
       then fits_at (cdfWindow (SplitCmf cc count) 0 (count - (if count - 80 < 0 then 0 else count - 80)
           - (if count - 80 < 0 then 0 else count - 80) + 2)) (s0 + s1 - (if count - 80 < 0 then 0 else count - 80))
       else s0 + s1 = (if count - 80 < 0 then 0 else count - 80)"
    and left: "if 0 < s0 + s1 then split_fits cc (s0 + s1) 40 s0 else s0 = 0 \<and> s1 = 0"
    and right: "if s0 + s1 < count then split_fits cc (count - (s0 + s1)) 40 s2 else s2 = 0 \<and> s3 = 0"
    and total: "s0 + s1 + s2 + s3 = count"
  shows "agree (enc_split cc count (s0 + s1) s0 s2) (dec_split cc count 40) (Some [s0, s1, s2, s3])"
proof -
  define half0 where "half0 = (if count - 80 < 0 then 0 else count - 80)"
  have one: "agree (\<lambda>e. if half0 < count - half0 then Option.bind (cdfWindow (SplitCmf cc count) 0 (count - half0 - half0 + 2))
          (\<lambda>w. encodeCDF w (s0 + s1 - half0) e) else Some e)
      (\<lambda>d. if half0 < count - half0 then
            Option.bind (cdfWindow (SplitCmf cc count) 0 (count - half0 - half0 + 2)) (\<lambda>w.
              Option.bind (decodeCDF w d) (\<lambda>(s, d). Some (half0 + s, d)))
          else Some (half0, d)) (s0 + s1)"
  proof (cases "half0 < count - half0")
    case True
    then obtain w where w: "cdfWindow (SplitCmf cc count) 0 (count - half0 - half0 + 2) = Some w" "cdf_fits w (s0 + s1 - half0)"
      using first unfolding half0_def [symmetric] by (auto elim: fits_atE)
    show ?thesis unfolding w(1) Option.bind_lunit using True agree_last [OF agree_cdf [OF w(2)], of "(+) half0"] by simp
  next
    case False
    then show ?thesis using first agree_skip [of half0] unfolding half0_def [symmetric] by simp
  qed
  note two = half_agree [OF left refl]
  define rest where "rest = count - (s0 + s1)"
  have right': "if 0 < rest then split_fits cc rest 40 s2 else s2 = 0 \<and> s3 = 0"
    using right by (simp add: rest_def split: if_splits)
  have sum: "s2 + s3 = rest" using total by (simp add: rest_def)
  have pos: "(s0 + s1 < count) = (0 < rest)" by (auto simp: rest_def)
  note three = half_agree [OF right' sum]
  show ?thesis
    unfolding dec_split_step [OF assms(1,2) half0_def] enc_split_def [abs_def] Let_def half0_def [symmetric]
    apply (rule agree_then [OF one])
    apply (rule agree_then [OF two(1)])
    unfolding prod.case rest_def [symmetric] pos
    using agree_last [OF three(1),
        of "\<lambda>(s2, s3). Some (if s0 = -1 \<or> s2 = -1 then [0, 0, 0, 0] else [s0, s1, s2, s3])"] two(2) three(2)
    by (simp add: case_prod_beta')
qed


lemma pulses_agree:
  assumes fits: "pulses_fit cc pp" and s1: "s1 = 0 \<or> s1 = 1"
  shows "agree (encodeSmplPulses cc 320 1 0 s1 pp) (DecodeSmplPulses cc 320 1 0 s1) (pulses_read pp)"
proof -
  define count where "count = pp_Total pp"
  define initSum where "initSum = (if count - 80 < 0 then 0 else count - 80)"
  have c: "0 \<le> count" "count \<le> 160" using fits by (simp_all add: pulses_fit_def count_def Let_def)
  note cnt = count_agree [OF c]
  have dec: "DecodeSmplPulses cc 320 1 0 s1 = (\<lambda>d. Option.bind (dec_count 160 d) (\<lambda>(count, d).
      Option.bind (dec_split cc count 40 d) (\<lambda>(split, d). case split of None \<Rightarrow> Some (no_pulses 320, d)
        | Some split \<Rightarrow> Option.bind (dec_subframes cc 80 0 split ([], [], []) d) (\<lambda>((runs, poss, mags), d).
            Option.bind (dec_signs mags d) (\<lambda>((mags, signs), d).
              Some (\<lparr>pr_Pulses = scatter (replicate 320 0) (zip poss mags), pr_Subfr = split, pr_MagRuns = runs,
                     pr_SignSyms = signs\<rparr>, d))))))"
    unfolding DecodeSmplPulses_def [abs_def] len160 [OF s1] Let_def by (simp cong: option.case_cong)
  show ?thesis
  proof (cases "count = 0")
    case True
    have pp: "pp_Subfr pp = [0, 0, 0, 0]" "pp_MagRuns pp = []" "pp_SignSyms pp = []"
      using fits True by (simp_all add: pulses_fit_def Let_def flip: count_def)
    have enc: "encodeSmplPulses cc 320 1 0 s1 pp = (\<lambda>e. Option.bind (enc_count 160 0 e) Some)"
      unfolding encodeSmplPulses_def [abs_def] len160 [OF s1] Let_def count_def [symmetric] True by simp
    have z: "dec_subframes cc 80 0 [0, 0, 0, 0] ([], [], []) = (\<lambda>d. Some (([], [], []), d))"
      "dec_signs [] = (\<lambda>d. Some (([], []), d))" "dec_split cc 0 40 = (\<lambda>d. Some (Some [0, 0, 0, 0], d))"
      by (simp_all add: fun_eq_iff dec_signs.simps dec_split_def)
    show ?thesis
      unfolding enc dec
      apply (rule agree_then [OF cnt [unfolded True]])
      unfolding z
      using agree_return by (simp add: pulses_read_def pp positions_of_def z)
  next
    case False
    obtain s0 s1' s2 s3 where sub: "pp_Subfr pp = [s0, s1', s2, s3]"
      using fits False by (auto simp: pulses_fit_def Let_def count_def split: list.splits)
    have f: "s0 + s1' + s2 + s3 = count"
      "if initSum < count - initSum then fits_at (cdfWindow (SplitCmf cc count) 0 (count - initSum - initSum + 2)) (s0 + s1' - initSum)
       else s0 + s1' = initSum"
      "if 0 < s0 + s1' then split_fits cc (s0 + s1') 40 s0 else s0 = 0 \<and> s1' = 0"
      "if s0 + s1' < count then split_fits cc (count - (s0 + s1')) 40 s2 else s2 = 0 \<and> s3 = 0"
      "subframes_fit cc 80 (pp_Subfr pp) (pp_MagRuns pp) = Some []"
      "signs_fit (length (snd (snd (positions_of pp)))) (pp_SignSyms pp)"
      using fits unfolding pulses_fit_def Let_def count_def [symmetric] initSum_def [symmetric] sub list.case if_not_P [OF False]
      by blast+
    have pos: "0 < count" using c(1) False by simp
    note split = split_coded [OF pos c(2) f(2) [unfolded initSum_def] f(3,4,1)]
    obtain runs poss mags where p: "positions_of pp = (runs, poss, mags)" by (cases "positions_of pp")
    have runs: "runs = pp_MagRuns pp"
      using subframes_read_runs [OF f(5), of 0 "([], [], [])"] p by (simp add: positions_of_def)
    note sf = subframes_coded [OF f(5), where subfr = 0 and acc = "([], [], [])", folded positions_of_def, unfolded sub p]
    have ds: "agree (enc_signs (pp_SignSyms pp)) (dec_signs mags) (signs_read mags (pp_SignSyms pp), pp_SignSyms pp)"
      using f(6) p by (intro signs_agree) simp
    have arith: "(160 :: int) div 4 = 40" "(40 :: int) * 2 = 80" "(320 :: int) div 4 = 80" by simp_all
    have same: "(initSum < initSum) = False" by simp
    have lookups: "elem_at [s0, s1', s2, s3] 0 = Some s0" "elem_at [s0, s1', s2, s3] 1 = Some s1'"
      "elem_at [s0, s1', s2, s3] 2 = Some s2" by (simp_all add: elem_at_def)
    have enc: "encodeSmplPulses cc 320 1 0 s1 pp = (\<lambda>e. Option.bind (enc_count 160 count e) (\<lambda>e.
        Option.bind (enc_split cc count (s0 + s1') s0 s2 e) (\<lambda>e.
          Option.bind (enc_subframes cc 80 [s0, s1', s2, s3] (pp_MagRuns pp) e) (\<lambda>(_, e). enc_signs (pp_SignSyms pp) e))))"
      unfolding encodeSmplPulses_def [abs_def] len160 [OF s1] Let_def count_def [symmetric] sub arith initSum_def [symmetric]
        enc_split_def lookups Option.bind_lunit Option.bind_assoc diff_self same if_False if_not_P [OF False]
      by (rule refl)
    show ?thesis
      unfolding enc dec
      apply (rule agree_then [OF cnt])
      apply (rule agree_then [OF split])
      unfolding option.case
      apply (rule agree_both [OF sf])
      using agree_last [OF ds, of "\<lambda>(mags, signs). \<lparr>pr_Pulses = scatter (replicate 320 0) (zip poss mags),
          pr_Subfr = [s0, s1', s2, s3], pr_MagRuns = runs, pr_SignSyms = signs\<rparr>"]
      by (simp add: pulses_read_def p sub runs case_prod_beta')
  qed
qed

end
