(* ===== verification/PitchRoundtrip.thy ===== *)
theory PitchRoundtrip
  imports FrameRoundtrip
begin

text \<open>
  The pitch block is read back as it was written. The two sides use different data: the encoder the pitch tables, the
  decoder the memory window. That the window holds the tables is the predicate \<open>window_holds\<close>, a statement about the two
  expansions of the same seed.
\<close>

section \<open>Gains and filters\<close>

fun ltp_next :: "CcTables \<Rightarrow> int \<Rightarrow> int list \<Rightarrow> (int \<times> int) list \<Rightarrow> ltp \<Rightarrow> ltp" where
  "ltp_next cc p6 (cnt # cnts) ((gi, fi) # gfs) (prevGain, prevFilt, accum) =
     ltp_next cc p6 cnts gfs (gi, if 0 < cnt then fi else prevFilt, accum + the (gain_weight cc p6 gi))"
| "ltp_next cc p6 _ _ s = s"

fun ltp_fits :: "CcTables \<Rightarrow> int \<Rightarrow> int list \<Rightarrow> (int \<times> int) list \<Rightarrow> ltp \<Rightarrow> bool" where
  "ltp_fits cc p6 [] [] s = True"
| "ltp_fits cc p6 (cnt # cnts) ((gi, fi) # gfs) (prevGain, prevFilt, accum) =
     (fits_at (gain_cdf cc p6 prevGain) gi \<and> gain_weight cc p6 gi \<noteq> None \<and> (0 < cnt \<longrightarrow> fits_at (filt_cdf cc prevFilt) fi)
      \<and> ltp_fits cc p6 cnts gfs (gi, if 0 < cnt then fi else prevFilt, accum + the (gain_weight cc p6 gi)))"
| "ltp_fits cc p6 _ _ s = False"

lemma ltp_coded:
  "ltp_fits cc p6 cnts gfs s \<Longrightarrow> coded (enc_ltp cc p6 cnts gfs s) (dec_ltp cc p6 cnts s) (ltp_next cc p6 cnts gfs s)
     ((map fst gfs, coded_only (-1) cnts (map snd gfs)), ltp_next cc p6 cnts gfs s)"
proof (induction cc p6 cnts gfs s rule: ltp_fits.induct)
  case (1 cc p6 s)
  have "enc_ltp cc p6 [] [] s = (\<lambda>e. Some (s, e))" "dec_ltp cc p6 [] s = (\<lambda>d. Some ((([], []), s), d))"
    by (simp_all add: fun_eq_iff)
  then show ?case using coded_return by simp
next
  case (2 cc p6 cnt cnts gi fi gfs prevGain prevFilt accum)
  obtain cdf where cdf: "gain_cdf cc p6 prevGain = Some cdf" "cdf_fits cdf gi" using 2(2) by (auto elim: fits_atE)
  obtain w where w: "gain_weight cc p6 gi = Some w" using 2(2) by auto
  define s where "s = (gi, if 0 < cnt then fi else prevFilt, accum + w)"
  have filt: "agree (\<lambda>e. if 0 < cnt then do { cdf \<leftarrow> filt_cdf cc prevFilt; encodeCDF cdf fi e } else Some e)
      (\<lambda>d. if 0 < cnt then do { cdf \<leftarrow> filt_cdf cc prevFilt; decodeCDF cdf d } else Some (-1, d)) (if 0 < cnt then fi else -1)"
  proof (cases "0 < cnt")
    case True
    then obtain c where c: "filt_cdf cc prevFilt = Some c" "cdf_fits c fi" using 2(2) by (auto elim: fits_atE)
    show ?thesis unfolding c(1) Option.bind_lunit using True agree_cdf [OF c(2)] by simp
  qed (use agree_skip in simp)
  have ih: "coded (enc_ltp cc p6 cnts gfs s) (dec_ltp cc p6 cnts s) (ltp_next cc p6 cnts gfs s)
     ((map fst gfs, coded_only (-1) cnts (map snd gfs)), ltp_next cc p6 cnts gfs s)"
    using 2 w by (simp add: s_def)
  have enc: "enc_ltp cc p6 (cnt # cnts) ((gi, fi) # gfs) (prevGain, prevFilt, accum) =
      (\<lambda>e. Option.bind (encodeCDF cdf gi e) (\<lambda>e.
         Option.bind (if 0 < cnt then do { cdf \<leftarrow> filt_cdf cc prevFilt; encodeCDF cdf fi e } else Some e)
           (enc_ltp cc p6 cnts gfs s)))"
    unfolding enc_ltp.simps(1) [abs_def] cdf(1) w Option.bind_lunit s_def by (rule refl)
  have dec: "dec_ltp cc p6 (cnt # cnts) (prevGain, prevFilt, accum) =
      (\<lambda>d. Option.bind (decodeCDF cdf d) (\<lambda>(gi, d). Option.bind (gain_weight cc p6 gi) (\<lambda>w.
         Option.bind (if 0 < cnt then do { cdf \<leftarrow> filt_cdf cc prevFilt; decodeCDF cdf d } else Some (-1, d)) (\<lambda>(fi, d).
           Option.bind (dec_ltp cc p6 cnts (gi, if 0 < cnt then fi else prevFilt, accum + w) d) (\<lambda>(((gis, fis), s), d).
             Some (((gi # gis, fi # fis), s), d))))))"
    unfolding dec_ltp.simps(2) [abs_def] cdf(1) Option.bind_lunit by (rule refl)
  have s: "(gi, if 0 < cnt then if 0 < cnt then fi else -1 else prevFilt, accum + w) = s" by (simp add: s_def)
  have next_s: "ltp_next cc p6 (cnt # cnts) ((gi, fi) # gfs) (prevGain, prevFilt, accum) = ltp_next cc p6 cnts gfs s"
    by (simp add: s_def w)
  show ?case
    unfolding enc dec next_s list.map fst_conv snd_conv coded_only_simps
    apply (rule coded_then [OF agree_cdf [OF cdf(2)]])
    unfolding w Option.bind_lunit
    apply (rule coded_then [OF filt])
    unfolding s
    using coded_last [OF ih, of "\<lambda>((gis, fis), s). ((gi # gis, (if 0 < cnt then fi else -1) # fis), s)"]
    by (simp add: case_prod_beta')
qed simp_all


section \<open>The two forms of a table\<close>

lemma CDFAt_shift: "lo + k \<le> n \<Longrightarrow> CDFAt mem (a + of_nat lo * 2) k = take k (drop lo (CDFAt mem a n))"
proof (rule nth_equalityI)
  assume "lo + k \<le> n"
  then show "length (CDFAt mem (a + of_nat lo * 2) k) = length (take k (drop lo (CDFAt mem a n)))"
    by (simp add: CDFAt_def)
  fix i assume "i < length (CDFAt mem (a + of_nat lo * 2) k)"
  then show "CDFAt mem (a + of_nat lo * 2) k ! i = take k (drop lo (CDFAt mem a n)) ! i"
    using \<open>lo + k \<le> n\<close> by (simp add: CDFAt_def algebra_simps)
qed

definition small :: "u32 list \<Rightarrow> bool" where
  "small cmf \<longleftrightarrow> (\<forall>c \<in> set cmf. unat c < 65536)"

lemma small_word: "unat (c :: u32) < 65536 \<Longrightarrow> (ucast (ucast c :: u16) :: u32) = c"
proof -
  assume "unat c < 65536"
  then have "unat (ucast c :: u16) = unat c"
    using take_bit_nat_eq_self [of "unat c" 16] by (simp add: unsigned_ucast_eq)
  then show ?thesis by (simp add: word_unat_eq_iff unat_ucast_u16)
qed

lemma enc_part_cdf:
  assumes "small cmf" "b + n \<le> length cmf" "cdf_fits (map ucast (take n (drop b cmf))) x"
  shows "enc_part cmf (int b) (int b + x) (int b + int n - 1) = encodeCDF (map ucast (take n (drop b cmf))) x"
proof
  fix e
  define w :: "u16 list" where "w = map ucast (take n (drop b cmf))"
  have n: "length w = n" "0 \<le> x" "x + 1 < int n"
    using assms(2,3) by (simp_all add: w_def cdf_fits_def)
  have at: "(ucast (w ! i) :: u32) = cmf ! (b + i)" if "i < n" for i
  proof -
    have "unat (cmf ! (b + i)) < 65536" using assms(1,2) that by (simp add: small_def)
    then show ?thesis using small_word that assms(2) by (simp add: w_def)
  qed
  have i: "nat x + 1 < n" using n by linarith
  have idx: "nat (int b + x) = b + nat x" "nat (int b + x + 1) = b + (nat x + 1)" "nat (int b + int n - 1) = b + (n - 1)"
    using n by linarith+
  have "enc_part cmf (int b) (int b + x) (int b + int n - 1) e
      = Encode e (cmf ! (b + nat x) - cmf ! b) (cmf ! (b + (nat x + 1)) - cmf ! b) (cmf ! (b + (n - 1)) - cmf ! b)"
    using n assms(2) i by (simp add: enc_part_def elem_at_def idx)
  also have "\<dots> = EncodeCDF e x w"
    using cdf_fits_word(2) [OF assms(3), folded w_def] n i at [of 0] at [of "nat x"] at [of "nat x + 1"] at [of "n - 1"]
    by (auto simp: EncodeCDF_def Let_def dest: leD)
  finally show "enc_part cmf (int b) (int b + x) (int b + int n - 1) e = EncodeCDF e x (map ucast (take n (drop b cmf)))"
    by (simp only: w_def)
qed

lemma encode_from_zero:
  assumes "cmf ! 0 = 0" "cmf \<noteq> []"
  shows "Option.bind (elem_at cmf i) (\<lambda>a. Option.bind (elem_at cmf (i + 1)) (\<lambda>b. Option.bind (elem_at cmf j) (\<lambda>t. Encode e a b t)))
    = enc_part cmf 0 i j e"
  using assms by (simp add: enc_part_def elem_at_def)

text \<open>The window holds the tables.\<close>

definition window_holds :: "SmplMem \<Rightarrow> PitchTables \<Rightarrow> bool" where
  "window_holds mem tab \<longleftrightarrow>
     (let n = length (Blocksegs tab); p = pcfg mem
      in sint (U32 mem (p + 22240)) = int n \<and> length (Blocksegs2idx tab) = n
        \<and> length (BlocksegIdxCmf tab) = Suc n \<and> small (BlocksegIdxCmf tab) \<and> BlocksegIdxCmf tab ! 0 = 0
        \<and> CDFAt mem (U32 mem (p + 22248)) (Suc n) = map ucast (BlocksegIdxCmf tab)
        \<and> (\<forall>i < n. find_contour mem (Blocksegs2idx tab ! i - 1) = int i)
        \<and> (\<forall>b < length (BlockTransitionCmf tab). let cmf = BlockTransitionCmf tab ! b
             in length cmf = 10 \<and> small cmf \<and> cmf ! 0 = 0 \<and> CDFAt mem (U32 mem (p + 22268) + of_nat b * 20) 10 = map ucast cmf)
        \<and> (\<forall>b < length (FirstblockRange tab). FirstblockRange tab ! b =
             (uint (U8 mem (0xe7ef0 + of_nat b * 2)), uint (U8 mem (0xe7ef0 + of_nat b * 2 + 1))))
        \<and> (\<forall>i < n. let seg = Blocksegs tab ! i; base = p + of_nat i * 0x44
             in I32 mem (base + 0x1d78) = int (bs_Nblocks seg)
               \<and> (\<forall>k < bs_Nblocks seg. I32 mem (base + 0x1d38 + of_nat k * 4) = bs_Blocks seg ! k
                    \<and> I32 mem (base + 0x1d58 + of_nat k * 4) = bs_Seglens seg ! k))
        \<and> (\<forall>m < length (DeltaLagCmfs tab). let cmf = DeltaLagCmfs tab ! m
             in length cmf = 320 \<and> small cmf \<and> CDFAt mem (U32 mem (p + 22252) + of_nat m * 0x280) 320 = map ucast cmf))"

text \<open>A contour lays its blocks over the eight sections of the frame, and within a block the lag does not change.\<close>

fun spread :: "int list \<Rightarrow> int list \<Rightarrow> int list" where
  "spread (n # ns) (v # vs) = replicate (nat n) v @ spread ns vs"
| "spread _ _ = []"

definition contour_ok :: "pitchBlockSeg \<Rightarrow> bool" where
  "contour_ok seg \<longleftrightarrow> 0 < bs_Nblocks seg \<and> bs_Nblocks seg \<le> 8 \<and> length (bs_Blocks seg) = bs_Nblocks seg \<and> length (bs_Seglens seg) = bs_Nblocks seg
    \<and> (\<forall>n \<in> set (bs_Seglens seg). 0 < n) \<and> sum_list (bs_Seglens seg) = 8 \<and> (\<forall>b \<in> set (bs_Blocks seg). 0 \<le> b)"


section \<open>The index of the contour\<close>

definition index_fits :: "PitchTables \<Rightarrow> int \<Rightarrow> int \<Rightarrow> int \<Rightarrow> bool" where
  "index_fits tab ixJulia b0 prevLagblk \<longleftrightarrow>
     (if prevLagblk < 0 then cdf_fits (map ucast (BlocksegIdxCmf tab)) (ixJulia - 1)
      else nat prevLagblk < length (BlockTransitionCmf tab) \<and>
        cdf_fits (map ucast (BlockTransitionCmf tab ! nat prevLagblk)) b0 \<and>
        0 \<le> b0 \<and> nat b0 < length (FirstblockRange tab) \<and>
        (case FirstblockRange tab ! nat b0 of (start, stop) \<Rightarrow>
           stop + 2 \<le> int (length (BlocksegIdxCmf tab)) \<and>
           cdf_fits (map ucast (take (nat (stop - start + 2)) (drop (nat start) (BlocksegIdxCmf tab)))) (ixJulia - 1 - start)))"

definition enc_lag_index :: "PitchTables \<Rightarrow> int \<Rightarrow> int \<Rightarrow> int \<Rightarrow> RangeEncoder \<Rightarrow> RangeEncoder option" where
  "enc_lag_index tab ixJulia b0 prevLagblk e =
     (if prevLagblk < 0 then do {
        a \<leftarrow> elem_at (BlocksegIdxCmf tab) (ixJulia - 1);
        b \<leftarrow> elem_at (BlocksegIdxCmf tab) ixJulia;
        t \<leftarrow> elem_at (BlocksegIdxCmf tab) (int (length (Blocksegs tab)));
        Encode e a b t
      } else do {
        cmf \<leftarrow> elem_at (BlockTransitionCmf tab) prevLagblk;
        a \<leftarrow> elem_at cmf b0;
        b \<leftarrow> elem_at cmf (b0 + 1);
        t \<leftarrow> elem_at cmf 9;
        e \<leftarrow> Encode e a b t;
        (start, stop) \<leftarrow> elem_at (FirstblockRange tab) b0;
        if start < 0 \<or> int (length (BlocksegIdxCmf tab)) < start then None
        else enc_part (drop (nat start) (BlocksegIdxCmf tab)) 0 (ixJulia - start - 1) (stop - start + 1) e
      })"

lemma index_agree:
  assumes win: "window_holds mem tab" and fits: "index_fits tab ixJulia b0 prevLagblk" and st: "PrevLag st = prevLagblk"
  shows "agree (enc_lag_index tab ixJulia b0 prevLagblk) (dec_lag_index mem st) (Some (ixJulia - 1))"
proof -
  define n where "n = length (Blocksegs tab)"
  define cmf where "cmf = BlocksegIdxCmf tab"
  have w: "sint (U32 mem (pcfg mem + 22240)) = int n" "length cmf = Suc n" "small cmf" "cmf ! 0 = 0"
    "CDFAt mem (U32 mem (pcfg mem + 22248)) (Suc n) = map ucast cmf"
    using win by (simp_all add: window_holds_def Let_def n_def cmf_def)
  show ?thesis
  proof (cases "prevLagblk < 0")
    case True
    have f: "cdf_fits (map ucast cmf) (ixJulia - 1)" using fits True by (simp add: index_fits_def cmf_def)
    have "enc_lag_index tab ixJulia b0 prevLagblk = enc_part cmf 0 (ixJulia - 1) (int n)"
    proof
      fix e
      have "cmf \<noteq> []" using w(2) by auto
      from encode_from_zero [OF w(4) this, of "ixJulia - 1" "int n" e]
      show "enc_lag_index tab ixJulia b0 prevLagblk e = enc_part cmf 0 (ixJulia - 1) (int n) e"
        using True by (simp add: enc_lag_index_def flip: n_def cmf_def)
    qed
    also have "\<dots> = encodeCDF (map ucast cmf) (ixJulia - 1)"
      using enc_part_cdf [OF w(3), of 0 "Suc n" "ixJulia - 1"] w(2) f by simp
    finally have enc: "enc_lag_index tab ixJulia b0 prevLagblk = encodeCDF (map ucast cmf) (ixJulia - 1)" .
    have len: "nat (int n + 1) = Suc n" by simp
    have dec: "dec_lag_index mem st = (\<lambda>d. Option.bind (decodeCDF (map ucast cmf) d) (\<lambda>(lag, d). Some (Some lag, d)))"
      unfolding dec_lag_index_def [abs_def] Let_def w(1) len w(5) using True st by simp
    show ?thesis unfolding enc dec by (rule agree_last [OF agree_cdf [OF f]])
  next
    case False
    obtain start stop where r: "FirstblockRange tab ! nat b0 = (start, stop)" by fastforce
    define trans where "trans = BlockTransitionCmf tab ! nat prevLagblk"
    have f: "nat prevLagblk < length (BlockTransitionCmf tab)" "cdf_fits (map ucast trans) b0" "0 \<le> b0"
      "nat b0 < length (FirstblockRange tab)" "stop + 2 \<le> int (length cmf)"
      "cdf_fits (map ucast (take (nat (stop - start + 2)) (drop (nat start) cmf))) (ixJulia - 1 - start)"
      using fits False r by (simp_all add: index_fits_def trans_def cmf_def)
    have t: "length trans = 10" "small trans" "trans ! 0 = 0"
      "CDFAt mem (U32 mem (pcfg mem + 22268) + of_nat (nat prevLagblk) * 20) 10 = map ucast trans"
      using win f(1) by (simp_all add: window_holds_def Let_def trans_def)
    have lohi: "start = uint (U8 mem (0xe7ef0 + word_of_int b0 * 2))" "stop = uint (U8 mem (0xe7ef0 + word_of_int b0 * 2 + 1))"
      using win f(3,4) r by (auto simp: window_holds_def Let_def)
    have range: "0 \<le> start" "0 \<le> stop" unfolding lohi by simp_all
    define win' where "win' = (map ucast (take (nat (stop - start + 2)) (drop (nat start) cmf)) :: u16 list)"
    have two: "2 \<le> nat (stop - start + 2)" "nat start + nat (stop - start + 2) \<le> length cmf" "ixJulia - 1 - start \<ge> 0"
    proof -
      have x: "0 \<le> ixJulia - 1 - start" "ixJulia - 1 - start + 1 < int (nat (stop - start + 2))"
        using f(6) by (simp_all only: cdf_fits_def length_map length_take, linarith+)
      then show "2 \<le> nat (stop - start + 2)" "ixJulia - 1 - start \<ge> 0" by linarith+
      show "nat start + nat (stop - start + 2) \<le> length cmf" using x f(5) range by linarith
    qed
    have p1: "Option.bind (elem_at trans b0) (\<lambda>a. Option.bind (elem_at trans (b0 + 1)) (\<lambda>b. Option.bind (elem_at trans 9) (\<lambda>t. Encode e a b t)))
        = encodeCDF (map ucast trans) b0 e" for e
    proof -
      have "enc_part trans 0 b0 9 e = encodeCDF (map ucast trans) b0 e"
        using enc_part_cdf [OF t(2), of 0 10 b0] t(1) f(2) by simp
      moreover have "trans \<noteq> []" using t(1) by auto
      ultimately show ?thesis using encode_from_zero [OF t(3), of b0 9] by simp
    qed
    have p2: "enc_part (drop (nat start) cmf) 0 (ixJulia - start - 1) (stop - start + 1) = encodeCDF win' (ixJulia - 1 - start)"
    proof -
      have "small (drop (nat start) cmf)" using w(3) by (auto simp: small_def dest: in_set_dropD)
      moreover have "0 + nat (stop - start + 2) \<le> length (drop (nat start) cmf)" using two(2) by simp
      moreover have "cdf_fits (map ucast (take (nat (stop - start + 2)) (drop 0 (drop (nat start) cmf)))) (ixJulia - 1 - start)"
        using f(6) by simp
      ultimately have "enc_part (drop (nat start) cmf) (int 0) (int 0 + (ixJulia - 1 - start))
          (int 0 + int (nat (stop - start + 2)) - 1) = encodeCDF win' (ixJulia - 1 - start)"
        unfolding win'_def by (subst enc_part_cdf) simp_all
      moreover have "int 0 + (ixJulia - 1 - start) = ixJulia - start - 1" "int 0 + int (nat (stop - start + 2)) - 1 = stop - start + 1"
        using two(1) by simp_all
      ultimately show ?thesis by (simp only: semiring_1_class.of_nat_simps)
    qed
    have enc: "enc_lag_index tab ixJulia b0 prevLagblk = (\<lambda>e. Option.bind (encodeCDF (map ucast trans) b0 e)
        (encodeCDF win' (ixJulia - 1 - start)))"
    proof
      fix e
      have at: "elem_at (BlockTransitionCmf tab) prevLagblk = Some trans" "elem_at (FirstblockRange tab) b0 = Some (start, stop)"
        using f(1,3,4) False r by (auto simp: elem_at_def trans_def)
      have ok: "\<not> (start < 0 \<or> int (length cmf) < start)" using range two by linarith
      have "enc_lag_index tab ixJulia b0 prevLagblk e = Option.bind (Option.bind (elem_at trans b0)
          (\<lambda>a. Option.bind (elem_at trans (b0 + 1)) (\<lambda>b. Option.bind (elem_at trans 9) (\<lambda>t. Encode e a b t))))
          (enc_part (drop (nat start) cmf) 0 (ixJulia - start - 1) (stop - start + 1))"
        unfolding enc_lag_index_def at Option.bind_lunit cmf_def [symmetric] if_not_P [OF False] prod.case if_not_P [OF ok]
          Option.bind_assoc by (rule refl)
      then show "enc_lag_index tab ixJulia b0 prevLagblk e = Option.bind (encodeCDF (map ucast trans) b0 e)
        (encodeCDF win' (ixJulia - 1 - start))" unfolding p1 p2 .
    qed
    have shift: "CDFAt mem (U32 mem (pcfg mem + 22248) + word_of_int start * 2) (nat (stop - start + 2)) = win'"
    proof -
      have "word_of_int start = (of_nat (nat start) :: u32)" using range by simp
      then show ?thesis
        using CDFAt_shift [of "nat start" "nat (stop - start + 2)" "Suc n" mem "U32 mem (pcfg mem + 22248)"] two(2) w(2,5)
        by (simp add: win'_def take_map drop_map)
    qed
    have prev: "word_of_int prevLagblk = (of_nat (nat prevLagblk) :: u32)" using False by simp
    have dec: "dec_lag_index mem st = (\<lambda>d. Option.bind (decodeCDF (map ucast trans) d) (\<lambda>(di, d).
        let lo = uint (U8 mem (0xe7ef0 + word_of_int di * 2)); hi = uint (U8 mem (0xe7ef0 + word_of_int di * 2 + 1))
        in if hi - lo + 2 < 2 then Some (None, d)
           else Option.bind (decodeCDF (CDFAt mem (U32 mem (pcfg mem + 22248) + word_of_int lo * 2) (nat (hi - lo + 2))) d)
             (\<lambda>(s, d). Some (Some (s + lo), d))))"
      unfolding dec_lag_index_def [abs_def] Let_def st prev t(4) if_not_P [OF False] by (rule refl)
    have nonempty: "(stop - start + 2 < 2) = False" using two(1) by simp
    show ?thesis
      unfolding enc dec
      apply (rule agree_then [OF agree_cdf [OF f(2)]])
      unfolding Let_def lohi [symmetric] nonempty if_False shift
      using agree_last [OF agree_cdf [OF f(6)], of "\<lambda>s. Some (s + start)", folded win'_def] by simp
  qed
qed


section \<open>The lags of the blocks\<close>

fun segs_fit :: "u32 list \<Rightarrow> pitchBlockSeg \<Rightarrow> int list \<Rightarrow> nat list \<Rightarrow> int \<Rightarrow> int \<Rightarrow> bool" where
  "segs_fit cmf seg laginds [] prevIdx ix = True"
| "segs_fit cmf seg laginds (k # ks) prevIdx ix =
     (let blk = bs_Blocks seg ! k; i = laginds ! nat ix; start = blk * 64 - prevIdx + 127
      in 0 \<le> ix \<and> ix < int (length laginds) \<and> 0 \<le> start \<and> start + 65 \<le> 320
        \<and> cdf_fits (map ucast (take 65 (drop (nat start) cmf))) (i - blk * 64)
        \<and> segs_fit cmf seg laginds ks i (ix + bs_Seglens seg ! k))"

fun segs_read :: "pitchBlockSeg \<Rightarrow> int list \<Rightarrow> nat list \<Rightarrow> int \<Rightarrow> int list \<times> lag_rows \<times> SmplLsfState \<Rightarrow> int list \<times> lag_rows \<times> SmplLsfState" where
  "segs_read seg laginds [] ix s = s"
| "segs_read seg laginds (k # ks) ix (sampleLags, rows, st) =
     (let i = laginds ! nat ix
      in segs_read seg laginds ks (ix + bs_Seglens seg ! k)
           (sampleLags[k := i], fill_lags i (nat (bs_Seglens seg ! k)) rows, st\<lparr>PrevFracLag := i, PrevLag := bs_Blocks seg ! k\<rparr>))"

text \<open>The part of a table of lag differences that the decoder reads for a block is a part of the encoder's table.\<close>

lemma frac_window:
  assumes "CDFAt mem frac 320 = map ucast cmf" "int b = blk * 64 - prevIdx + 127" "b + 65 \<le> 320"
  shows "CDFAt mem (frac + word_of_int ((blk * 64 - prevIdx) * 2) + 0xfe) 65 = map ucast (take 65 (drop b cmf))"
proof -
  have "(word_of_int ((blk * 64 - prevIdx) * 2) :: u32) + 0xfe = word_of_int (int b * 2)" unfolding assms(2) by simp
  then have a: "frac + word_of_int ((blk * 64 - prevIdx) * 2) + 0xfe = frac + of_nat b * 2"
    by (simp add: add.assoc)
  show ?thesis unfolding a using CDFAt_shift [OF assms(3), of mem frac] assms(1) by (simp add: take_map drop_map)
qed

lemma segs_agree:
  assumes win: "window_holds mem tab" and c: "c < length (Blocksegs tab)" "seg = Blocksegs tab ! c"
    and m: "m < length (DeltaLagCmfs tab)" "cmf = DeltaLagCmfs tab ! m"
    and ok: "contour_ok seg"
  defines "base \<equiv> pcfg mem + of_nat c * 0x44" and "frac \<equiv> U32 mem (pcfg mem + 22252) + of_nat m * 0x280"
  shows "segs_fit cmf seg laginds ks prevIdx ix \<Longrightarrow> \<forall>k \<in> set ks. k < bs_Nblocks seg \<Longrightarrow> PrevFracLag st = prevIdx
    \<Longrightarrow> agree (enc_lag_segs cmf seg laginds ks prevBlk prevIdx ix) (dec_lag_segs mem base frac ks l2 prevIdx st sampleLags rows)
         (segs_read seg laginds ks ix (sampleLags, rows, st))"
proof (induction ks arbitrary: prevBlk prevIdx ix l2 st sampleLags rows)
  case Nil
  have "enc_lag_segs cmf seg laginds [] prevBlk prevIdx ix = Some"
    "dec_lag_segs mem base frac [] l2 prevIdx st sampleLags rows = (\<lambda>d. Some ((sampleLags, rows, st), d))"
    by (simp_all add: fun_eq_iff)
  then show ?case using agree_return by simp
next
  case (Cons k ks)
  define blk where "blk = bs_Blocks seg ! k"
  define i where "i = laginds ! nat ix"
  define b where "b = nat (blk * 64 - prevIdx + 127)"
  define w :: "u16 list" where "w = map ucast (take 65 (drop b cmf))"
  have f: "0 \<le> ix" "ix < int (length laginds)" "int b = blk * 64 - prevIdx + 127" "b + 65 \<le> 320" "cdf_fits w (i - blk * 64)"
    "segs_fit cmf seg laginds ks i (ix + bs_Seglens seg ! k)"
    using Cons.prems(1) by (simp_all add: Let_def blk_def i_def b_def w_def nat_le_iff)
  have k: "k < bs_Nblocks seg" "k < length (bs_Blocks seg)" "k < length (bs_Seglens seg)"
    using Cons.prems(2) ok by (simp_all add: contour_ok_def)
  have mem_at: "I32 mem (base + 0x1d38 + of_nat k * 4) = blk" "I32 mem (base + 0x1d58 + of_nat k * 4) = bs_Seglens seg ! k"
    using win c k(1) by (simp_all add: window_holds_def Let_def base_def blk_def)
  have t: "length cmf = 320" "small cmf" "CDFAt mem frac 320 = map ucast cmf"
    using win m by (simp_all add: window_holds_def Let_def frac_def)
  have addr: "CDFAt mem (frac + word_of_int ((blk * 64 - prevIdx) * 2) + 0xfe) 65 = w"
    unfolding w_def using f(3,4) by (rule frac_window [OF t(3)])
  have part: "enc_part cmf (int b) (int b + (i - blk * 64)) (int b + int 65 - 1) = encodeCDF w (i - blk * 64)"
    unfolding w_def by (rule enc_part_cdf [OF t(2)]) (use f(4,5) t(1) in \<open>simp_all add: w_def\<close>)
  have enc: "enc_lag_segs cmf seg laginds (k # ks) prevBlk prevIdx ix =
      (\<lambda>e. Option.bind (encodeCDF w (i - blk * 64) e) (enc_lag_segs cmf seg laginds ks blk i (ix + bs_Seglens seg ! k)))"
  proof
    fix e
    have look: "elem_at (bs_Blocks seg) (int k) = Some blk" "elem_at laginds ix = Some i"
      "elem_at (bs_Seglens seg) (int k) = Some (bs_Seglens seg ! k)"
      using k f(1,2) by (simp_all add: elem_at_def blk_def i_def)
    have arith: "- (prevIdx - prevBlk * 64) + (blk - prevBlk) * 64 + 2 * 64 - 1 = int b"
      "int b + (i - prevIdx - (- (prevIdx - prevBlk * 64) + (blk - prevBlk) * 64)) = int b + (i - blk * 64)"
      "int b + 64 = int b + int 65 - 1" using f(3) by simp_all
    show "enc_lag_segs cmf seg laginds (k # ks) prevBlk prevIdx ix e
      = Option.bind (encodeCDF w (i - blk * 64) e) (enc_lag_segs cmf seg laginds ks blk i (ix + bs_Seglens seg ! k))"
      unfolding enc_lag_segs.simps look Option.bind_lunit Let_def arith part by (rule refl)
  qed
  have dec: "dec_lag_segs mem base frac (k # ks) l2 prevIdx st sampleLags rows = (\<lambda>d. Option.bind (decodeCDF w d) (\<lambda>(s, d).
      let l3 = s + prevIdx + (blk * 64 - prevIdx)
      in dec_lag_segs mem base frac ks blk l3 (st\<lparr>PrevFracLag := l3, PrevLag := blk\<rparr>) (sampleLags[k := l3])
           (fill_lags l3 (nat (bs_Seglens seg ! k)) rows) d))"
  proof
    fix d
    have nl2: "push_bit 6 l2 - prevIdx + push_bit 6 (blk - l2) = blk * 64 - prevIdx" by (simp add: push_bit_eq_mult)
    show "dec_lag_segs mem base frac (k # ks) l2 prevIdx st sampleLags rows d = Option.bind (decodeCDF w d) (\<lambda>(s, d).
      let l3 = s + prevIdx + (blk * 64 - prevIdx)
      in dec_lag_segs mem base frac ks blk l3 (st\<lparr>PrevFracLag := l3, PrevLag := blk\<rparr>) (sampleLags[k := l3])
           (fill_lags l3 (nat (bs_Seglens seg ! k)) rows) d)"
      unfolding dec_lag_segs.simps mem_at Let_def nl2 addr Cons.prems(3) by (rule refl)
  qed
  have l3: "i - blk * 64 + prevIdx + (blk * 64 - prevIdx) = i" by simp
  have ih: "agree (enc_lag_segs cmf seg laginds ks blk i (ix + bs_Seglens seg ! k))
      (dec_lag_segs mem base frac ks blk i (st\<lparr>PrevFracLag := i, PrevLag := blk\<rparr>) (sampleLags[k := i])
           (fill_lags i (nat (bs_Seglens seg ! k)) rows))
      (segs_read seg laginds ks (ix + bs_Seglens seg ! k)
        (sampleLags[k := i], fill_lags i (nat (bs_Seglens seg ! k)) rows, st\<lparr>PrevFracLag := i, PrevLag := blk\<rparr>))"
    using Cons.prems(2) f(6) by (intro Cons.IH) simp_all
  show ?case
    unfolding enc dec segs_read.simps Let_def i_def [symmetric] blk_def [symmetric]
    apply (rule agree_then [OF agree_cdf [OF f(5)]])
    unfolding l3 by (rule ih)
qed


fun steady :: "int list \<Rightarrow> int list \<Rightarrow> bool" where
  "steady [] ls = (ls = [])"
| "steady (n # ns) ls = (0 < n \<and> nat n \<le> length ls \<and> take (nat n) ls = replicate (nat n) (hd ls) \<and> steady ns (drop (nat n) ls))"

definition near :: "int \<Rightarrow> int \<Rightarrow> bool" where
  "near b0 prevBlk \<longleftrightarrow> -1 < prevBlk \<and> -1 \<le> b0 - prevBlk \<and> b0 - prevBlk \<le> 2"

definition lags_fit :: "PitchTables \<Rightarrow> nat \<Rightarrow> int list \<Rightarrow> int \<Rightarrow> int \<Rightarrow> int \<Rightarrow> bool" where
  "lags_fit tab c laginds prevBlk prevIdx mode \<longleftrightarrow>
     c < length (Blocksegs tab) \<and> 0 \<le> mode \<and> nat mode < length (DeltaLagCmfs tab) \<and>
     (let seg = Blocksegs tab ! c; b0 = bs_Blocks seg ! 0; cmf = DeltaLagCmfs tab ! nat mode
      in contour_ok seg \<and> length laginds = 8 \<and> steady (bs_Seglens seg) laginds \<and>
        index_fits tab (Blocksegs2idx tab ! c) b0 prevBlk \<and>
        (if near b0 prevBlk then segs_fit cmf seg laginds [0..<bs_Nblocks seg] prevIdx 0
         else b0 * 64 \<le> laginds ! 0 \<and> laginds ! 0 < b0 * 64 + 64 \<and>
           segs_fit cmf seg laginds [1..<bs_Nblocks seg] (laginds ! 0) (bs_Seglens seg ! 0)))"

definition lags_read :: "PitchTables \<Rightarrow> nat \<Rightarrow> int list \<Rightarrow> SmplLsfState \<Rightarrow> int \<times> int list \<times> lag_rows \<times> SmplLsfState" where
  "lags_read tab c laginds st =
     (let seg = Blocksegs tab ! c; b0 = bs_Blocks seg ! 0; l = laginds ! 0
      in (int (bs_Nblocks seg),
          if near b0 (PrevLag st) then segs_read seg laginds [0..<bs_Nblocks seg] 0 (replicate 8 0, (0, replicate 4 0, replicate 8 0), st)
          else segs_read seg laginds [1..<bs_Nblocks seg] (bs_Seglens seg ! 0)
            (replicate 8 0, put_lag l (fill_lags l (nat (bs_Seglens seg ! 0)) (0, replicate 4 0, replicate 8 0)),
             st\<lparr>PrevFracLag := l, PrevLag := b0\<rparr>)))"

lemma lags_agree:
  assumes win: "window_holds mem tab" and fits: "lags_fit tab c laginds prevBlk prevIdx (lag_mode avgGain)"
    and st: "PrevLag st = prevBlk" "PrevFracLag st = prevIdx"
  shows "\<exists>I E. encodeLagsWire tab (int c) laginds prevBlk prevIdx (lag_mode avgGain) = (\<lambda>e. Option.bind (I e) E)
      \<and> agree I (dec_lag_index mem st) (Some (Blocksegs2idx tab ! c - 1))
      \<and> agree E (dec_lags mem (int c) avgGain st) (lags_read tab c laginds st)"
    "find_contour mem (Blocksegs2idx tab ! c - 1) = int c" "sint (U32 mem (pcfg mem + 22240)) = int (length (Blocksegs tab))"
proof -
  define seg where "seg = Blocksegs tab ! c"
  define b0 where "b0 = bs_Blocks seg ! 0"
  define m where "m = nat (lag_mode avgGain)"
  define cmf where "cmf = DeltaLagCmfs tab ! m"
  define ixJ where "ixJ = Blocksegs2idx tab ! c"
  define base where "base = pcfg mem + of_nat c * 0x44"
  define frac where "frac = U32 mem (pcfg mem + 22252) + of_nat m * 0x280"
  have f: "c < length (Blocksegs tab)" "m < length (DeltaLagCmfs tab)" "lag_mode avgGain = int m" "contour_ok seg" "length laginds = 8"
    "index_fits tab ixJ b0 prevBlk"
    "near b0 prevBlk \<Longrightarrow> segs_fit cmf seg laginds [0..<bs_Nblocks seg] prevIdx 0"
    "\<not> near b0 prevBlk \<Longrightarrow> b0 * 64 \<le> laginds ! 0 \<and> laginds ! 0 < b0 * 64 + 64 \<and>
           segs_fit cmf seg laginds [1..<bs_Nblocks seg] (laginds ! 0) (bs_Seglens seg ! 0)"
    using fits unfolding lags_fit_def Let_def
    by (simp_all add: m_def cmf_def flip: seg_def b0_def ixJ_def split: if_splits)
  have N: "0 < bs_Nblocks seg" "0 < length (bs_Blocks seg)" "0 < length (bs_Seglens seg)" using f(4) by (auto simp: contour_ok_def)
  show contour: "find_contour mem (Blocksegs2idx tab ! c - 1) = int c"
    and total: "sint (U32 mem (pcfg mem + 22240)) = int (length (Blocksegs tab))"
    using win f(1) by (simp_all add: window_holds_def Let_def)
  have len: "length (Blocksegs2idx tab) = length (Blocksegs tab)" using win by (simp add: window_holds_def Let_def)
  have mem_at: "I32 mem (base + 0x1d78) = int (bs_Nblocks seg)" "I32 mem (base + 0x1d38) = b0" "I32 mem (base + 0x1d58) = bs_Seglens seg ! 0"
  proof -
    have r: "I32 mem (base + 0x1d78) = int (bs_Nblocks seg)"
      "\<forall>k < bs_Nblocks seg. I32 mem (base + 0x1d38 + of_nat k * 4) = bs_Blocks seg ! k
         \<and> I32 mem (base + 0x1d58 + of_nat k * 4) = bs_Seglens seg ! k"
      using win f(1) by (simp_all add: window_holds_def Let_def base_def seg_def)
    show "I32 mem (base + 0x1d78) = int (bs_Nblocks seg)" by (rule r(1))
    from r(2) N(1) have "I32 mem (base + 0x1d38 + of_nat 0 * 4) = bs_Blocks seg ! 0
         \<and> I32 mem (base + 0x1d58 + of_nat 0 * 4) = bs_Seglens seg ! 0" by blast
    then show "I32 mem (base + 0x1d38) = b0" "I32 mem (base + 0x1d58) = bs_Seglens seg ! 0" by (simp_all add: b0_def)
  qed
  note segs = segs_agree [OF win f(1) seg_def f(2) cmf_def f(4), folded base_def frac_def]
  have enc: "encodeLagsWire tab (int c) laginds prevBlk prevIdx (lag_mode avgGain) =
      (\<lambda>e. Option.bind (enc_lag_index tab ixJ b0 prevBlk e) (\<lambda>e.
        if \<not> near b0 prevBlk then Option.bind (Encode64FineSym e (laginds ! 0 - b0 * 64))
            (enc_lag_segs cmf seg laginds [1..<bs_Nblocks seg] b0 (laginds ! 0) (bs_Seglens seg ! 0))
        else enc_lag_segs cmf seg laginds [0..<bs_Nblocks seg] prevBlk prevIdx 0 e))"
  proof
    fix e
    have look: "elem_at (Blocksegs2idx tab) (int c) = Some ixJ" "elem_at (Blocksegs tab) (int c) = Some seg"
      "elem_at (bs_Blocks seg) 0 = Some b0" "elem_at (DeltaLagCmfs tab) (int m) = Some cmf" "elem_at laginds 0 = Some (laginds ! 0)"
      "elem_at (bs_Seglens seg) 0 = Some (bs_Seglens seg ! 0)"
      using f(1,2,5) N len by (simp_all add: elem_at_def ixJ_def seg_def b0_def cmf_def)
    show "encodeLagsWire tab (int c) laginds prevBlk prevIdx (lag_mode avgGain) e =
      Option.bind (enc_lag_index tab ixJ b0 prevBlk e) (\<lambda>e.
        if \<not> near b0 prevBlk then Option.bind (Encode64FineSym e (laginds ! 0 - b0 * 64))
            (enc_lag_segs cmf seg laginds [1..<bs_Nblocks seg] b0 (laginds ! 0) (bs_Seglens seg ! 0))
        else enc_lag_segs cmf seg laginds [0..<bs_Nblocks seg] prevBlk prevIdx 0 e)"
      unfolding encodeLagsWire_def f(3) look Option.bind_lunit enc_lag_index_def [symmetric] near_def [symmetric]
        Encode64FineSym_def [symmetric] by (rule refl)
  qed
  have fine: "(\<not> (0 \<le> PrevLag st \<and> -1 \<le> b0 - PrevLag st \<and> b0 - PrevLag st < 3)) = (\<not> near b0 prevBlk)"
    unfolding st(1) near_def by auto
  have cw: "word_of_int (int c) = (of_nat c :: u32)" "word_of_int (int m) = (of_nat m :: u32)" by simp_all
  have dec: "dec_lags mem (int c) avgGain st = (\<lambda>d. Option.bind
      (if \<not> near b0 prevBlk then Option.bind (Decode64FineSym d) (\<lambda>(s, d).
         let curLag2 = push_bit 6 b0 + s; rows = fill_lags curLag2 (nat (bs_Seglens seg ! 0)) (0, replicate 4 0, replicate 8 0)
         in Some ((curLag2, put_lag curLag2 rows, st\<lparr>PrevFracLag := curLag2, PrevLag := b0\<rparr>), d))
       else Some ((b0, (0, replicate 4 0, replicate 8 0), st), d)) (\<lambda>((curLag2, rows, st), d).
        Option.bind (dec_lag_segs mem base frac [if \<not> near b0 prevBlk then 1 else 0..<bs_Nblocks seg] curLag2 (PrevFracLag st) st
            (replicate 8 0) rows d) (\<lambda>((sampleLags, rows, st), d). Some ((int (bs_Nblocks seg), sampleLags, rows, st), d))))"
    unfolding dec_lags_def [abs_def] cw f(3) base_def [symmetric] frac_def [symmetric] Let_def mem_at fine nat_int by (rule refl)
  have index: "agree (enc_lag_index tab ixJ b0 prevBlk) (dec_lag_index mem st) (Some (ixJ - 1))"
    by (rule index_agree [OF win f(6) st(1)])
  define E where "E = (\<lambda>e. if \<not> near b0 prevBlk then Option.bind (Encode64FineSym e (laginds ! 0 - b0 * 64))
            (enc_lag_segs cmf seg laginds [1..<bs_Nblocks seg] b0 (laginds ! 0) (bs_Seglens seg ! 0))
        else enc_lag_segs cmf seg laginds [0..<bs_Nblocks seg] prevBlk prevIdx 0 e)"
  have "agree E (dec_lags mem (int c) avgGain st) (lags_read tab c laginds st)"
  proof (cases "near b0 prevBlk")
    case True
    have s: "agree (enc_lag_segs cmf seg laginds [0..<bs_Nblocks seg] prevBlk prevIdx 0)
        (dec_lag_segs mem base frac [0..<bs_Nblocks seg] b0 (PrevFracLag st) st (replicate 8 0) (0, replicate 4 0, replicate 8 0))
        (segs_read seg laginds [0..<bs_Nblocks seg] 0 (replicate 8 0, (0, replicate 4 0, replicate 8 0), st))"
      unfolding st(2) using f(7) [OF True] st(2) by (intro segs) simp_all
    show ?thesis
      using agree_last [OF s, of "Pair (int (bs_Nblocks seg))"] True st(1)
      by (simp add: E_def dec lags_read_def Let_def case_prod_beta' flip: seg_def b0_def)
  next
    case False
    define l where "l = laginds ! 0"
    define rows where "rows l = put_lag l (fill_lags l (nat (bs_Seglens seg ! 0)) (0, replicate 4 0, replicate 8 0))" for l
    have fit: "0 \<le> l - b0 * 64" "l - b0 * 64 < 64" "segs_fit cmf seg laginds [1..<bs_Nblocks seg] l (bs_Seglens seg ! 0)"
      using f(8) [OF False] by (simp_all add: l_def)
    have cur: "push_bit 6 b0 + (l - b0 * 64) = l" by (simp add: push_bit_eq_mult)
    have s: "agree (enc_lag_segs cmf seg laginds [1..<bs_Nblocks seg] b0 l (bs_Seglens seg ! 0))
        (dec_lag_segs mem base frac [1..<bs_Nblocks seg] l l (st\<lparr>PrevFracLag := l, PrevLag := b0\<rparr>) (replicate 8 0) (rows l))
        (segs_read seg laginds [1..<bs_Nblocks seg] (bs_Seglens seg ! 0) (replicate 8 0, rows l, st\<lparr>PrevFracLag := l, PrevLag := b0\<rparr>))"
      using fit(3) by (intro segs) simp_all
    have e: "E = (\<lambda>e. Option.bind (Encode64FineSym e (l - b0 * 64))
        (enc_lag_segs cmf seg laginds [1..<bs_Nblocks seg] b0 l (bs_Seglens seg ! 0)))"
      using False by (simp add: l_def E_def)
    have d: "dec_lags mem (int c) avgGain st = (\<lambda>d. Option.bind (Decode64FineSym d) (\<lambda>(s, d).
        Option.bind (dec_lag_segs mem base frac [1..<bs_Nblocks seg] (push_bit 6 b0 + s) (push_bit 6 b0 + s)
            (st\<lparr>PrevFracLag := push_bit 6 b0 + s, PrevLag := b0\<rparr>) (replicate 8 0) (rows (push_bit 6 b0 + s)) d)
          (\<lambda>(r, d). Some ((int (bs_Nblocks seg), r), d))))"
      unfolding dec using False by (simp add: fun_eq_iff Let_def Option.bind_assoc rows_def case_prod_beta')
    have read: "lags_read tab c laginds st = (int (bs_Nblocks seg), segs_read seg laginds [1..<bs_Nblocks seg] (bs_Seglens seg ! 0)
        (replicate 8 0, rows l, st\<lparr>PrevFracLag := l, PrevLag := b0\<rparr>))"
      using False st(1) by (simp add: lags_read_def Let_def rows_def flip: seg_def b0_def l_def)
    show ?thesis
      unfolding e d read
      apply (rule agree_then [OF agree_fine [OF fit(1,2)]])
      unfolding cur by (rule agree_last [OF s])
  qed
  then show "\<exists>I E. encodeLagsWire tab (int c) laginds prevBlk prevIdx (lag_mode avgGain) = (\<lambda>e. Option.bind (I e) E)
      \<and> agree I (dec_lag_index mem st) (Some (Blocksegs2idx tab ! c - 1))
      \<and> agree E (dec_lags mem (int c) avgGain st) (lags_read tab c laginds st)"
    using index enc [folded E_def] unfolding ixJ_def by blast
qed

section \<open>What was read\<close>

lemma fill_lags_row: "w + n \<le> length blocks \<Longrightarrow>
    \<exists>subfr' blocks'. fill_lags v n (w, subfr, blocks) = (w + n, subfr', blocks') \<and> length blocks' = length blocks
      \<and> take (w + n) blocks' = take w blocks @ replicate n v"
proof (induction n arbitrary: w subfr blocks)
  case (Suc n)
  obtain subfr' blocks' where ih: "fill_lags v n (Suc w, subfr[w := v], blocks[w := v]) = (Suc w + n, subfr', blocks')"
    "length blocks' = length (blocks[w := v])" "take (Suc w + n) blocks' = take (Suc w) (blocks[w := v]) @ replicate n v"
    using Suc.IH [of "Suc w" "blocks[w := v]" "subfr[w := v]"] Suc.prems by auto
  have "take (Suc w) (blocks[w := v]) = take w blocks @ [v]" using Suc.prems by (simp add: take_Suc_conv_app_nth)
  then show ?case using ih by simp
qed simp

text \<open>The state that the lags leave behind.\<close>

definition after_lags :: "pitchBlockSeg \<Rightarrow> int list \<Rightarrow> SmplLsfState \<Rightarrow> SmplLsfState" where
  "after_lags seg laginds st = st\<lparr>PrevFracLag := laginds ! 7, PrevLag := bs_Blocks seg ! (bs_Nblocks seg - 1)\<rparr>"

lemma segs_read_all:
  assumes "length (bs_Seglens seg) = bs_Nblocks seg" "length (bs_Blocks seg) = bs_Nblocks seg"
  shows "k < bs_Nblocks seg \<Longrightarrow> steady (drop k (bs_Seglens seg)) (drop w laginds) \<Longrightarrow> take w blocks = take w laginds
    \<Longrightarrow> length blocks = length laginds \<Longrightarrow> w \<le> length laginds
    \<Longrightarrow> \<exists>sl w' subfr'. segs_read seg laginds [k..<bs_Nblocks seg] (int w) (sampleLags, (w, subfr, blocks), st)
          = (sl, (w', subfr', laginds), st\<lparr>PrevFracLag := last laginds, PrevLag := bs_Blocks seg ! (bs_Nblocks seg - 1)\<rparr>)"
proof (induction "bs_Nblocks seg - k" arbitrary: k w blocks subfr sampleLags st)
  case (Suc m)
  define n where "n = bs_Seglens seg ! k"
  define i where "i = laginds ! w"
  have d: "drop k (bs_Seglens seg) = n # drop (Suc k) (bs_Seglens seg)" "[k..<bs_Nblocks seg] = k # [Suc k..<bs_Nblocks seg]"
    using Suc.prems(1) assms by (simp_all add: n_def Cons_nth_drop_Suc upt_conv_Cons)
  have s: "0 < n" "nat n \<le> length laginds - w" "take (nat n) (drop w laginds) = replicate (nat n) (hd (drop w laginds))"
    "steady (drop (Suc k) (bs_Seglens seg)) (drop (w + nat n) laginds)"
    using Suc.prems(2) unfolding d(1) by (simp_all add: add.commute)
  have w: "w < length laginds" "hd (drop w laginds) = i" using s(1,2) by (auto simp: i_def hd_drop_conv_nth)
  obtain subfr' blocks' where fill: "fill_lags i (nat n) (w, subfr, blocks) = (w + nat n, subfr', blocks')"
    "length blocks' = length blocks" "take (w + nat n) blocks' = take w blocks @ replicate (nat n) i"
  proof -
    have "w + nat n \<le> length blocks" using s(2) Suc.prems(4) w(1) by simp
    then show thesis using fill_lags_row [of w "nat n" blocks i subfr] that by blast
  qed
  have t: "take (w + nat n) blocks' = take (w + nat n) laginds"
    using fill(3) Suc.prems(3) s(3) w(2) by (simp add: take_add)
  have ix: "int w + n = int (w + nat n)" using s(1) by simp
  have step: "segs_read seg laginds [k..<bs_Nblocks seg] (int w) (sampleLags, (w, subfr, blocks), st) =
      segs_read seg laginds [Suc k..<bs_Nblocks seg] (int (w + nat n))
        (sampleLags[k := i], (w + nat n, subfr', blocks'), st\<lparr>PrevFracLag := i, PrevLag := bs_Blocks seg ! k\<rparr>)"
    unfolding d(2) using fill(1) by (simp add: Let_def n_def [symmetric] ix i_def [symmetric])
  show ?case
  proof (cases "Suc k < bs_Nblocks seg")
    case True
    have "\<exists>sl w' subfr''. segs_read seg laginds [Suc k..<bs_Nblocks seg] (int (w + nat n))
        (sampleLags[k := i], (w + nat n, subfr', blocks'), st\<lparr>PrevFracLag := i, PrevLag := bs_Blocks seg ! k\<rparr>)
      = (sl, (w', subfr'', laginds), st\<lparr>PrevFracLag := i, PrevLag := bs_Blocks seg ! k\<rparr>
            \<lparr>PrevFracLag := last laginds, PrevLag := bs_Blocks seg ! (bs_Nblocks seg - 1)\<rparr>)"
      using Suc.hyps(2) True s(2,4) t fill(2) Suc.prems(4) w(1) by (intro Suc.hyps(1)) simp_all
    then show ?thesis unfolding step by simp
  next
    case False
    then have k: "k = bs_Nblocks seg - 1" "drop (Suc k) (bs_Seglens seg) = []" using Suc.prems(1) assms by simp_all
    then have whole: "drop (w + nat n) laginds = []" "w + nat n = length laginds" using s(2,4) w(1) by simp_all
    have "drop w laginds = replicate (nat n) i" using s(3) w(2) whole by (simp add: take_all_iff)
    then have "last laginds = i" using w(1) s(1) by (metis last_drop last_replicate nat_0_iff not_le)
    moreover have "blocks' = laginds" using t whole fill(2) Suc.prems(4) by simp
    ultimately show ?thesis unfolding step using False k(1) by simp
  qed
qed simp

lemma lags_read_result:
  assumes "contour_ok seg" "seg = Blocksegs tab ! c" "length laginds = 8" "steady (bs_Seglens seg) laginds"
  shows "\<exists>sl w subfr. lags_read tab c laginds st = (int (bs_Nblocks seg), sl, (w, subfr, laginds), after_lags seg laginds st)"
proof -
  have ok: "length (bs_Seglens seg) = bs_Nblocks seg" "length (bs_Blocks seg) = bs_Nblocks seg" "0 < bs_Nblocks seg"
    using assms(1) by (simp_all add: contour_ok_def)
  have last: "last laginds = laginds ! 7" using assms(3) by (cases laginds rule: rev_cases) (auto simp: nth_append)
  show ?thesis
  proof (cases "near (bs_Blocks seg ! 0) (PrevLag st)")
    case True
    have "\<exists>sl w' subfr'. segs_read seg laginds [0..<bs_Nblocks seg] (int 0) (replicate 8 0, (0, replicate 4 0, replicate 8 0), st)
          = (sl, (w', subfr', laginds), st\<lparr>PrevFracLag := last laginds, PrevLag := bs_Blocks seg ! (bs_Nblocks seg - 1)\<rparr>)"
      using ok assms by (intro segs_read_all) simp_all
    then show ?thesis using True by (simp add: lags_read_def Let_def after_lags_def last flip: assms(2))
  next
    case False
    define n where "n = bs_Seglens seg ! 0"
    define l where "l = laginds ! 0"
    have d: "bs_Seglens seg = n # drop 1 (bs_Seglens seg)" using ok by (cases "bs_Seglens seg") (simp_all add: n_def)
    have s: "0 < n" "nat n \<le> 8" "take (nat n) laginds = replicate (nat n) (hd laginds)" "steady (drop 1 (bs_Seglens seg)) (drop (nat n) laginds)"
      using assms(3,4) d by (metis steady.simps(2))+
    have hd: "hd laginds = l" using assms(3) by (cases laginds) (simp_all add: l_def)
    obtain subfr blocks where fill: "fill_lags l (nat n) (0, replicate 4 0, replicate 8 0) = (nat n, subfr, blocks)"
      "length blocks = 8" "take (nat n) blocks = replicate (nat n) l"
      using fill_lags_row [of 0 "nat n" "replicate 8 0" l "replicate 4 0"] s(2) by auto
    define blocks' where "blocks' = blocks[nat n := l]"
    have b: "take (nat n) blocks' = take (nat n) laginds" "length blocks' = 8" using fill s(3) hd by (simp_all add: blocks'_def)
    have read: "lags_read tab c laginds st = (int (bs_Nblocks seg), segs_read seg laginds [1..<bs_Nblocks seg] (int (nat n))
        (replicate 8 0, (nat n, subfr[nat n := l], blocks'), st\<lparr>PrevFracLag := l, PrevLag := bs_Blocks seg ! 0\<rparr>))"
      using False fill(1) s(1) by (simp add: lags_read_def Let_def blocks'_def flip: assms(2) n_def l_def)
    show ?thesis
    proof (cases "bs_Nblocks seg = 1")
      case True
      then have "drop 1 (bs_Seglens seg) = []" using ok by simp
      then have "nat n = 8" using s(2,4) assms(3) by simp
      then have all: "laginds = replicate 8 l" "blocks' = laginds" using s(3) hd b assms(3) by simp_all
      have "laginds ! 7 = l" unfolding all(1) by (rule nth_replicate) simp
      moreover note all(2)
      ultimately show ?thesis using True read by (simp add: after_lags_def)
    next
      case False
      have "\<exists>sl w' subfr'. segs_read seg laginds [1..<bs_Nblocks seg] (int (nat n))
          (replicate 8 0, (nat n, subfr[nat n := l], blocks'), st\<lparr>PrevFracLag := l, PrevLag := bs_Blocks seg ! 0\<rparr>)
        = (sl, (w', subfr', laginds), st\<lparr>PrevFracLag := l, PrevLag := bs_Blocks seg ! 0\<rparr>
            \<lparr>PrevFracLag := last laginds, PrevLag := bs_Blocks seg ! (bs_Nblocks seg - 1)\<rparr>)"
        using ok False assms(3) s(2,4) b by (intro segs_read_all) simp_all
      then show ?thesis using read by (simp add: after_lags_def last)
    qed
  qed
qed


section \<open>The pitch block\<close>

definition in_step :: "SmplLsfState \<Rightarrow> SmplLsfState \<Rightarrow> bool" where
  "in_step st st' \<longleftrightarrow> PrevStage1 st = PrevStage1 st' \<and> PrevGainIdx st = PrevGainIdx st' \<and> PrevFiltIdx st = PrevFiltIdx st'
    \<and> PrevLagblk st = PrevLag st' \<and> PrevLagidx st = PrevFracLag st'"

definition pitch_fits :: "CcTables \<Rightarrow> PitchTables \<Rightarrow> int \<Rightarrow> int list \<Rightarrow> SmplPitchParams \<Rightarrow> SmplLsfState \<Rightarrow> bool" where
  "pitch_fits cc tab p6 cnts pp st \<longleftrightarrow>
     length (pi_GainIdx pp) = length cnts \<and> length (pi_FiltIdx pp) = length cnts \<and> 0 \<le> pi_BlocksegIdx pp \<and>
     (let gfs = zip (pi_GainIdx pp) (pi_FiltIdx pp); s = (PrevGainIdx st, PrevFiltIdx st, 0)
      in ltp_fits cc p6 cnts gfs s \<and>
        lags_fit tab (nat (pi_BlocksegIdx pp)) (pi_Laginds pp) (PrevLagblk st) (PrevLagidx st)
          (lag_mode (snd (snd (ltp_next cc p6 cnts gfs s)) sdiv 4)))"

lemma agree_coded:
  assumes "agree enc dec x"
  shows "coded (\<lambda>e. Option.bind (enc e) (\<lambda>e. Some (s, e))) dec s x"
proof -
  have "(\<lambda>e. map_option snd (Option.bind (enc e) (\<lambda>e. Some (s, e)))) = enc"
  proof
    fix e show "map_option snd (Option.bind (enc e) (\<lambda>e. Some (s, e))) = enc e" by (cases "enc e") simp_all
  qed
  then show ?thesis using assms by (auto simp: coded_def bind_eq_Some_conv)
qed

definition pitch_next :: "CcTables \<Rightarrow> PitchTables \<Rightarrow> int \<Rightarrow> int list \<Rightarrow> SmplPitchParams \<Rightarrow> SmplLsfState \<Rightarrow> SmplLsfState" where
  "pitch_next cc tab p6 cnts pp st =
     (case ltp_next cc p6 cnts (zip (pi_GainIdx pp) (pi_FiltIdx pp)) (PrevGainIdx st, PrevFiltIdx st, 0) of
        (gain, filt, accum) \<Rightarrow>
          let seg = Blocksegs tab ! nat (pi_BlocksegIdx pp)
          in st\<lparr>PrevGainIdx := gain, PrevFiltIdx := filt, PrevLagblk := bs_Blocks seg ! (bs_Nblocks seg - 1),
                PrevLagidx := pi_Laginds pp ! 7\<rparr>)"

lemma pitch_coded:
  assumes win: "window_holds mem tab" and fits: "pitch_fits cc tab p6 cnts pp st" and step: "in_step st st'"
  shows "\<exists>res st1'. coded (encodeSmplPitch cc tab p6 cnts pp st) (DecodeSmplPitch cc mem p6 cnts st') (pitch_next cc tab p6 cnts pp st) (res, st1')
    \<and> in_step (pitch_next cc tab p6 cnts pp st) st1' \<and> pt_GainIdx res = pi_GainIdx pp \<and> pt_FiltIdx res = coded_only (-1) cnts (pi_FiltIdx pp)
    \<and> pt_BlockLags res = pi_Laginds pp"
proof -
  define gfs where "gfs = zip (pi_GainIdx pp) (pi_FiltIdx pp)"
  obtain g1 f1 acc where n: "ltp_next cc p6 cnts gfs (PrevGainIdx st, PrevFiltIdx st, 0) = (g1, f1, acc)" by (metis prod.exhaust)
  define c where "c = nat (pi_BlocksegIdx pp)"
  define seg where "seg = Blocksegs tab ! c"
  define laginds where "laginds = pi_Laginds pp"
  have f: "map fst gfs = pi_GainIdx pp" "map snd gfs = pi_FiltIdx pp" "pi_BlocksegIdx pp = int c"
    "ltp_fits cc p6 cnts gfs (PrevGainIdx st, PrevFiltIdx st, 0)"
    "lags_fit tab c laginds (PrevLagblk st) (PrevLagidx st) (lag_mode (acc sdiv 4))"
    using fits n by (simp_all add: pitch_fits_def Let_def gfs_def c_def laginds_def)
  have prev: "PrevGainIdx st' = PrevGainIdx st" "PrevFiltIdx st' = PrevFiltIdx st" "PrevLag st' = PrevLagblk st" "PrevFracLag st' = PrevLagidx st"
    using step by (simp_all add: in_step_def)
  define mid where "mid = st'\<lparr>PrevGainIdx := g1, PrevFiltIdx := f1\<rparr>"
  have midlag: "PrevLag mid = PrevLagblk st" "PrevFracLag mid = PrevLagidx st" using prev by (simp_all add: mid_def)
  note lags = lags_agree [OF win f(5) midlag]
  have c: "c < length (Blocksegs tab)" "contour_ok seg" "length laginds = 8" "steady (bs_Seglens seg) laginds"
    using f(5) by (simp_all add: lags_fit_def Let_def seg_def)
  obtain sl w subfr where read: "lags_read tab c laginds mid = (int (bs_Nblocks seg), sl, (w, subfr, laginds), after_lags seg laginds mid)"
    using lags_read_result [OF c(2) seg_def c(3,4)] by blast
  define last_blk where "last_blk = bs_Blocks seg ! (bs_Nblocks seg - 1)"
  define st1 where "st1 = st\<lparr>PrevGainIdx := g1, PrevFiltIdx := f1, PrevLagblk := last_blk, PrevLagidx := laginds ! 7\<rparr>"
  define ixJ where "ixJ = Blocksegs2idx tab ! c"
  define res where "res = \<lparr>pt_GainIdx = pi_GainIdx pp, pt_FiltIdx = coded_only (-1) cnts (pi_FiltIdx pp), pt_Lag = ixJ - 1,
      pt_Contour = int c, pt_SampleLagQ6 = sl, pt_NumSeg = int (bs_Nblocks seg), pt_IntLagQ6 = subfr, pt_BlockLags = laginds, pt_NumSubfr = w\<rparr>"
  have after: "smplLagsPredictorAfter tab (int c) laginds = Some (last_blk, laginds ! 7)"
    using c by (simp add: smplLagsPredictorAfter_def elem_at_def contour_ok_def of_nat_diff flip: seg_def last_blk_def)
      (simp add: last_blk_def nat_diff_distrib)
  have enc: "encodeSmplPitch cc tab p6 cnts pp st = (\<lambda>e. Option.bind (enc_ltp cc p6 cnts gfs (PrevGainIdx st, PrevFiltIdx st, 0) e)
      (\<lambda>((prevGain, prevFilt, gainAccum), e). Option.bind
        (encodeLagsWire tab (int c) laginds (PrevLagblk st) (PrevLagidx st) (lag_mode (gainAccum sdiv 4)) e)
        (\<lambda>e. Some (st\<lparr>PrevGainIdx := prevGain, PrevFiltIdx := prevFilt, PrevLagblk := last_blk, PrevLagidx := laginds ! 7\<rparr>, e))))"
    unfolding encodeSmplPitch_def [abs_def] gfs_def [symmetric] f(3) laginds_def [symmetric] after Option.bind_lunit prod.case
    by (rule refl)
  obtain I E where wire: "encodeLagsWire tab (int c) laginds (PrevLagblk st) (PrevLagidx st) (lag_mode (acc sdiv 4))
      = (\<lambda>e. Option.bind (I e) E)" and I: "agree I (dec_lag_index mem mid) (Some (ixJ - 1))"
    and E: "agree E (dec_lags mem (int c) (acc sdiv 4) mid) (lags_read tab c laginds mid)"
    using lags(1) unfolding ixJ_def by blast
  have inside: "(int c < 0 \<or> sint (U32 mem (pcfg mem + 22240)) \<le> int c) = False" using lags(3) c(1) by simp
  have "coded (encodeSmplPitch cc tab p6 cnts pp st) (DecodeSmplPitch cc mem p6 cnts st') st1 (res, after_lags seg laginds mid)"
    unfolding enc DecodeSmplPitch_def [abs_def] prev Let_def
    apply (rule coded_both [OF ltp_coded [OF f(4)]])
    unfolding n f(1,2) prod.case mid_def [symmetric] st1_def wire Option.bind_assoc
    apply (rule coded_then [OF I])
    unfolding option.case lags(2) [folded ixJ_def] inside if_False
    apply (rule coded_then [OF E])
    unfolding read prod.case res_def
    by (rule coded_return)
  moreover have "in_step st1 (after_lags seg laginds mid)"
    using step by (simp add: in_step_def st1_def after_lags_def mid_def last_blk_def)
  moreover have "pitch_next cc tab p6 cnts pp st = st1"
    using n by (simp add: pitch_next_def Let_def st1_def last_blk_def seg_def c_def laginds_def gfs_def)
  ultimately show ?thesis by (intro exI [of _ res] exI [of _ "after_lags seg laginds mid"]) (simp add: res_def laginds_def)
qed

end
