(* ===== verification/SplitRed.thy ===== *)
theory SplitRed
  imports Prelude
begin

text \<open>
  The outermost layers of a speech payload: the redundancy framing (\<^verbatim>\<open>mlow/red.go\<close>), a run of two-byte headers that
  announce redundant frames, the header of the main frame, and the frames themselves in header order; and the first
  byte of a frame (\<^verbatim>\<open>mlow/toc.go\<close>). Indices and slices that leave the packet are panics of the model.
\<close>

section \<open>Redundant frames\<close>

record MlowFrame =
  mf_Data :: bytes
  mf_TimeCode :: u8
  mf_IsMain :: bool

datatype RedError = ErrPktSizeZero | ErrHeaderTooShort | ErrRedundantTooShort | ErrMainTooShort

text \<open>The header run: the blocks announced, the position of the main header, and the bytes left for it and its frame.\<close>

function red_headers :: "bytes \<Rightarrow> nat \<Rightarrow> nat \<Rightarrow> (u8 \<times> u8) list \<Rightarrow> (RedError, (u8 \<times> u8) list \<times> nat \<times> nat) outcome" where
  "red_headers p cur rem red =
     (if rem = 0 then Fail ErrHeaderTooShort
      else if length p \<le> cur then Panic
      else
        let b0 = p ! cur
        in if b0 < 0x80 then if rem \<le> 1 then Fail ErrMainTooShort else Ret (red, cur, rem)
           else if rem \<le> 2 then Fail ErrRedundantTooShort
           else if length p \<le> cur + 1 then Panic
           else
             let size = p ! (cur + 1)
             in if rem \<le> unat size + 2 then Fail ErrRedundantTooShort
                else red_headers p (cur + 2) (rem - (unat size + 2)) (red @ [(b0 AND 0x7f, size)]))"
  by pat_completeness auto

termination red_headers
  by (relation "measure (\<lambda>(p, cur, rem, red). rem)") auto

declare red_headers.simps [simp del]

definition sub_bytes :: "bytes \<Rightarrow> nat \<Rightarrow> nat \<Rightarrow> bytes option" where
  "sub_bytes p a b = (if a \<le> b \<and> b \<le> length p then Some (slice a b p) else None)"

fun red_frames :: "bytes \<Rightarrow> nat \<Rightarrow> (u8 \<times> u8) list \<Rightarrow> (MlowFrame list \<times> nat) option" where
  "red_frames p cur [] = Some ([], cur)"
| "red_frames p cur ((c, n) # red) =
     Option.bind (sub_bytes p cur (cur + unat n)) (\<lambda>d.
       map_option (map_prod (Cons \<lparr>mf_Data = d, mf_TimeCode = c, mf_IsMain = False\<rparr>) id)
         (red_frames p (cur + unat n) red))"

definition DepackSplitRed :: "bytes \<Rightarrow> (RedError, MlowFrame list) outcome" where
  "DepackSplitRed p =
     (if p = [] then Fail ErrPktSizeZero
      else case red_headers p 0 (length p) [] of
        Fail err \<Rightarrow> Fail err
      | Panic \<Rightarrow> Panic
      | Ret (red, cur, rem) \<Rightarrow>
          (case red_frames p (cur + 1) red of
             None \<Rightarrow> Panic
           | Some (frames, cur') \<Rightarrow>
               (case sub_bytes p cur' (cur' + (rem - 1)) of
                  None \<Rightarrow> Panic
                | Some d \<Rightarrow> Ret (frames @ [\<lparr>mf_Data = d, mf_TimeCode = p ! cur AND 0x7f, mf_IsMain = True\<rparr>]))))"

text \<open>
  The format, written out: the packet that carries redundant frames and a main frame.
\<close>

definition red_header :: "MlowFrame \<Rightarrow> bytes" where
  "red_header f = [mf_TimeCode f OR 0x80, of_nat (length (mf_Data f))]"

definition red_packet :: "MlowFrame list \<Rightarrow> MlowFrame \<Rightarrow> bytes" where
  "red_packet reds main =
     concat (map red_header reds) @ [mf_TimeCode main] @ concat (map mf_Data reds) @ mf_Data main"

definition red_ok :: "MlowFrame \<Rightarrow> bool" where
  "red_ok f \<longleftrightarrow> \<not> mf_IsMain f \<and> mf_TimeCode f < 0x80 \<and> length (mf_Data f) < 256"

definition main_ok :: "MlowFrame \<Rightarrow> bool" where
  "main_ok f \<longleftrightarrow> mf_IsMain f \<and> mf_TimeCode f < 0x80 \<and> mf_Data f \<noteq> []"

section \<open>The first byte of a frame\<close>

record SmplTOC =
  toc_StdOpus :: bool
  toc_SID :: bool
  toc_VAD :: bool
  toc_SampleRate :: nat
  toc_FrameMs :: nat
  toc_Voiced :: bool
  toc_Active :: bool
  toc_Flag2 :: bool
  toc_Flag0 :: bool

definition standardOpusFrameMs :: "u8 \<Rightarrow> nat" where
  "standardOpusFrameMs b =
     (let config = drop_bit 3 b
      in if config < 12 then [10, 20, 40, 60] ! unat (config AND 3)
         else if config < 16 then [10, 20] ! unat ((config - 12) AND 1)
         else if config AND 3 = 0 then 3
         else if config AND 3 = 1 then 5
         else if config AND 3 = 2 then 10
         else 20)"

definition ParseSmplTOC :: "u8 \<Rightarrow> SmplTOC" where
  "ParseSmplTOC b =
     (if b AND 0xC0 = 0xC0 then
        \<lparr>toc_StdOpus = True, toc_SID = False, toc_VAD = False, toc_SampleRate = 16000,
         toc_FrameMs = standardOpusFrameMs b, toc_Voiced = False, toc_Active = False, toc_Flag2 = False, toc_Flag0 = False\<rparr>
      else
        let bit1 = (drop_bit 1 b AND 1 \<noteq> 0); vad = (drop_bit 6 b AND 1 \<noteq> 0)
        in \<lparr>toc_StdOpus = False, toc_SID = drop_bit 7 b \<noteq> 0, toc_VAD = vad,
            toc_SampleRate = (if b AND 0x20 \<noteq> 0 then 32000 else 16000),
            toc_FrameMs = [10, 20, 60, 120] ! unat (drop_bit 3 b AND 3), toc_Voiced = vad \<and> bit1,
            toc_Active = vad \<or> bit1, toc_Flag2 = drop_bit 2 b AND 1 \<noteq> 0, toc_Flag0 = b AND 1 \<noteq> 0\<rparr>)"

lemma demo_red: "DepackSplitRed [0x8a, 2, 0x05, 1, 2, 3, 4] =
    Ret [\<lparr>mf_Data = [1, 2], mf_TimeCode = 10, mf_IsMain = False\<rparr>, \<lparr>mf_Data = [3, 4], mf_TimeCode = 5, mf_IsMain = True\<rparr>]"
  by code_simp

section \<open>The packets accepted\<close>

lemma bit_u8_lt: "c < 0x80 \<longleftrightarrow> \<not> bit c 7" for c :: u8
proof -
  have lt: "c < 0x80 \<longleftrightarrow> uint c < 128" by (simp add: word_less_def)
  have "bit c 7 \<longleftrightarrow> odd (uint c div 128)" by (simp add: bit_iff_odd flip: bit_uint_iff [of c 7, simplified]) 
  moreover have "uint c < 256" using uint_lt2p [of c] by simp
  then have "128 \<le> uint c \<Longrightarrow> uint c div 128 = 1" by (intro int_div_pos_eq [of _ _ _ "uint c - 128"]) simp_all
  ultimately show ?thesis unfolding lt by (cases "uint c < 128") simp_all
qed

lemma bits_0x80: "bit (0x80 :: int) n \<longleftrightarrow> n = 7" "bit (0x7f :: int) n \<longleftrightarrow> n < 7"
proof -
  have m: "(0x7f :: int) = mask 7" "(0x80 :: int) = push_bit 7 1" by (simp_all add: mask_eq_exp_minus_1 push_bit_eq_mult)
  show "bit (0x80 :: int) n \<longleftrightarrow> n = 7" "bit (0x7f :: int) n \<longleftrightarrow> n < 7"
    unfolding m by (auto simp: bit_push_bit_iff bit_mask_iff bit_1_iff simp del: push_bit_numeral push_bit_of_1)
qed

lemma top_bit:
  "c < 0x80 \<Longrightarrow> \<not> c OR 0x80 < 0x80" "c < 0x80 \<Longrightarrow> (c OR 0x80) AND 0x7f = c" "c < 0x80 \<Longrightarrow> c AND 0x7f = c"
  "\<not> c < 0x80 \<Longrightarrow> (c AND 0x7f) OR 0x80 = c" "c AND 0x7f < 0x80" for c :: u8
proof -
  have n: "n = 7 \<or> n < 7" if "n < LENGTH(8)" for n :: nat using that by auto
  show "c < 0x80 \<Longrightarrow> \<not> c OR 0x80 < 0x80" "c AND 0x7f < 0x80"
    by (simp_all add: bit_u8_lt bit_or_iff bit_and_iff bits_0x80)
  show "c < 0x80 \<Longrightarrow> c AND 0x7f = c" "c < 0x80 \<Longrightarrow> (c OR 0x80) AND 0x7f = c" "\<not> c < 0x80 \<Longrightarrow> (c AND 0x7f) OR 0x80 = c"
    by (rule bit_word_eqI, drule n, auto simp: bit_u8_lt bit_or_iff bit_and_iff bits_0x80)+
qed

definition header_bytes :: "(u8 \<times> u8) list \<Rightarrow> bytes" where
  "header_bytes red = concat (map (\<lambda>(c, n). [c OR 0x80, n]) red)"

lemma header_bytes_simps [simp]: "header_bytes [] = []" "header_bytes ((c, n) # red) = [c OR 0x80, n] @ header_bytes red"
  by (simp_all add: header_bytes_def)

lemma length_red_headers [simp]: "length (header_bytes red) = 2 * length red"
  by (induction red) auto

fun sizes :: "(u8 \<times> u8) list \<Rightarrow> nat" where
  "sizes [] = 0"
| "sizes ((c, n) # red) = unat n + sizes red"

definition announced :: "(u8 \<times> u8) list \<Rightarrow> nat" where
  "announced red = 2 * length red + sizes red"

lemma announced_simps [simp]: "announced [] = 0" "announced ((c, n) # red) = unat n + 2 + announced red"
  by (simp_all add: announced_def)

lemma red_headers_read:
  "red_headers p cur rem red = Ret (red', cur', rem') \<Longrightarrow> cur + rem \<le> length p \<Longrightarrow>
    \<exists>new. red' = red @ new \<and> cur' = cur + 2 * length new \<and> rem = announced new + rem' \<and> 1 < rem'
      \<and> slice cur cur' p = header_bytes new \<and> (\<forall>(c, n) \<in> set new. c < 0x80) \<and> p ! cur' < 0x80"
proof (induction p cur rem red rule: red_headers.induct)
  case (1 p cur rem red)
  show ?case
  proof (cases "p ! cur < 0x80")
    case True
    then show ?thesis
      using 1(2) by (intro exI [of _ "[]"])
        (auto simp: red_headers.simps [of p cur rem red] Let_def slice_def split: if_splits)
  next
    case False
    define c where "c = p ! cur AND 0x7f"
    define n where "n = p ! (cur + 1)"
    have c: "c OR 0x80 = p ! cur" "c < 0x80" using False top_bit by (simp_all add: c_def)
    have g: "unat n + 2 < rem" "cur + 1 < length p" "0 < rem"
      and rest: "red_headers p (cur + 2) (rem - (unat n + 2)) (red @ [(c, n)]) = Ret (red', cur', rem')"
      using 1(2) False by (auto simp: red_headers.simps [of p cur rem red] Let_def c_def n_def split: if_splits)
    have "\<exists>new. red' = (red @ [(c, n)]) @ new \<and> cur' = cur + 2 + 2 * length new \<and> rem - (unat n + 2) = announced new + rem'
        \<and> 1 < rem' \<and> slice (cur + 2) cur' p = header_bytes new \<and> (\<forall>(c, n) \<in> set new. c < 0x80) \<and> p ! cur' < 0x80"
      using rest g 1(3) False unfolding c_def n_def
      by (intro 1(1)) auto
    then obtain new where new: "red' = red @ (c, n) # new" "cur' = cur + 2 + 2 * length new"
      "rem - (unat n + 2) = announced new + rem'" "1 < rem'" "slice (cur + 2) cur' p = header_bytes new"
      "\<forall>(c, n) \<in> set new. c < 0x80" "p ! cur' < 0x80" by auto
    have "drop cur p = p ! cur # p ! (cur + 1) # drop (cur + 2) p"
      using g(2) by (simp add: Cons_nth_drop_Suc)
    then have "slice cur cur' p = p ! cur # p ! (cur + 1) # slice (cur + 2) cur' p"
      using new(2) by (simp add: slice_def)
    then show ?thesis
      using new g c by (intro exI [of _ "(c, n) # new"]) (auto simp: n_def)
  qed
qed

lemma red_headers_safe: "cur + rem \<le> length p \<Longrightarrow> red_headers p cur rem red \<noteq> Panic"
proof (induction p cur rem red rule: red_headers.induct)
  case (1 p cur rem red)
  show ?case
    using 1(2) 1(1) [OF _ _ refl _ _ _ refl]
    by (subst red_headers.simps) (auto simp: Let_def not_le)
qed

lemma red_headers_written:
  "p = pre @ header_bytes new @ b # rest \<Longrightarrow> b < 0x80 \<Longrightarrow> \<forall>(c, n) \<in> set new. c < 0x80 \<Longrightarrow> 1 < m
    \<Longrightarrow> red_headers p (length pre) (announced new + m) red = Ret (red @ new, length pre + 2 * length new, m)"
proof (induction new arbitrary: pre red)
  case Nil
  then show ?case by (subst red_headers.simps) (simp add: nth_append Let_def)
next
  case (Cons a new)
  obtain c n where a: "a = (c, n)" by (cases a)
  have "red_headers p (length (pre @ [c OR 0x80, n])) (announced new + m) (red @ [(c, n)])
      = Ret ((red @ [(c, n)]) @ new, length (pre @ [c OR 0x80, n]) + 2 * length new, m)"
    using Cons.prems by (intro Cons.IH) (auto simp: a)
  moreover have "p ! length pre = c OR 0x80" "p ! (length pre + 1) = n" "length pre + 1 < length p"
    using Cons.prems(1) by (simp_all add: a nth_append)
  moreover have "c < 0x80" using Cons.prems(3) by (simp add: a)
  ultimately show ?case
    using top_bit [of c] Cons.prems(4) by (simp add: a red_headers.simps [of p "length pre"] Let_def)
qed


lemma unat_byte_less: "unat (n :: u8) < 256"
  by (rule order_less_le_trans [OF unsigned_less]) simp

lemma slice_append: "a \<le> b \<Longrightarrow> b \<le> c \<Longrightarrow> slice a b xs @ slice b c xs = slice a c xs"
  using take_add [of "b - a" "c - b" "drop a xs"] by (simp add: slice_def)

lemma unat_length_u8: "length d < 256 \<Longrightarrow> unat (of_nat (length d) :: u8) = length d"
  by (simp add: unsigned_of_nat take_bit_nat_eq_self)

lemma red_frames_read:
  "cur + sizes red \<le> length p \<Longrightarrow>
    \<exists>fs. red_frames p cur red = Some (fs, cur + sizes red)
      \<and> concat (map mf_Data fs) = slice cur (cur + sizes red) p
      \<and> list_all2 (\<lambda>f (c, n). mf_TimeCode f = c \<and> length (mf_Data f) = unat n \<and> \<not> mf_IsMain f) fs red"
proof (induction red arbitrary: cur)
  case Nil
  then show ?case by (simp add: slice_def)
next
  case (Cons a red)
  obtain c n where a: "a = (c, n)" by (cases a)
  obtain fs where fs: "red_frames p (cur + unat n) red = Some (fs, cur + unat n + sizes red)"
    "concat (map mf_Data fs) = slice (cur + unat n) (cur + unat n + sizes red) p"
    "list_all2 (\<lambda>f (c, n). mf_TimeCode f = c \<and> length (mf_Data f) = unat n \<and> \<not> mf_IsMain f) fs red"
    using Cons.IH [of "cur + unat n"] Cons.prems by (auto simp: a)
  have "sub_bytes p cur (cur + unat n) = Some (slice cur (cur + unat n) p)"
    using Cons.prems by (simp add: sub_bytes_def a)
  then show ?case
    using fs Cons.prems by (simp add: a slice_append length_slice add.assoc)
qed

lemma red_packet_headers:
  "list_all2 (\<lambda>f (c, n). mf_TimeCode f = c \<and> length (mf_Data f) = unat n \<and> \<not> mf_IsMain f) fs red
    \<Longrightarrow> concat (map red_header fs) = header_bytes red"
proof (induction rule: list_all2_induct)
  case (Cons f fs a red)
  then show ?case by (cases a) (simp add: red_header_def header_bytes_def)
qed simp

lemma red_frames_ok:
  "list_all2 (\<lambda>f (c, n). mf_TimeCode f = c \<and> length (mf_Data f) = unat n \<and> \<not> mf_IsMain f) fs red
    \<Longrightarrow> \<forall>(c, n) \<in> set red. c < 0x80 \<Longrightarrow> list_all red_ok fs" for red :: "(u8 \<times> u8) list"
proof (induction rule: list_all2_induct)
  case (Cons f fs a red)
  then show ?case
    using unat_byte_less [of "snd a"] by (cases a) (simp add: red_ok_def)
qed simp

lemma matched_frames:
  "list_all2 (\<lambda>f (c, n). mf_TimeCode f = c \<and> length (mf_Data f) = unat n \<and> \<not> mf_IsMain f) fs red
    \<Longrightarrow> list_all2 (\<lambda>f (c, n). mf_TimeCode f = c \<and> length (mf_Data f) = unat n \<and> \<not> mf_IsMain f) gs red
    \<Longrightarrow> concat (map mf_Data fs) = concat (map mf_Data gs) \<Longrightarrow> fs = gs"
  for red :: "(u8 \<times> u8) list" and fs gs :: "MlowFrame list"
proof (induction red arbitrary: fs gs)
  case (Cons a red)
  obtain f fs' where fs: "fs = f # fs'" using Cons.prems(1) by (meson list_all2_Cons2)
  obtain g gs' where gs: "gs = g # gs'" using Cons.prems(2) by (meson list_all2_Cons2)
  have lens: "length (mf_Data f) = length (mf_Data g)" "mf_TimeCode f = mf_TimeCode g" "mf_IsMain f = mf_IsMain g"
    using Cons.prems(1,2) by (simp_all add: fs gs split_beta)
  have "mf_Data f = mf_Data g" "concat (map mf_Data fs') = concat (map mf_Data gs')"
    using Cons.prems(3) lens(1) by (simp_all add: fs gs)
  moreover from this have "fs' = gs'" using Cons.IH [of fs' gs'] Cons.prems(1,2) by (simp add: fs gs)
  moreover have "f = g" using lens(2,3) \<open>mf_Data f = mf_Data g\<close> by (cases f, cases g) simp
  ultimately show ?case by (simp add: fs gs)
qed simp

text \<open>What the reader returns on a packet: the two ways round.\<close>

lemma depack_read:
  assumes "DepackSplitRed p = Ret fs"
  shows "\<exists>reds main. fs = reds @ [main] \<and> list_all red_ok reds \<and> main_ok main \<and> p = red_packet reds main"
proof -
  have ne: "p \<noteq> []" using assms by (auto simp: DepackSplitRed_def)
  then obtain red cur rem where h: "red_headers p 0 (length p) [] = Ret (red, cur, rem)"
    using assms by (auto simp: DepackSplitRed_def split: outcome.splits)
  have r: "cur = 2 * length red" "length p = announced red + rem" "1 < rem" "slice 0 cur p = header_bytes red"
    "\<forall>(c, n) \<in> set red. c < 0x80" "p ! cur < 0x80"
    using red_headers_read [OF h] by auto
  define body where "body = cur + 1 + sizes red"
  have len: "length p = body + (rem - 1)" using r(1-3) by (simp add: body_def announced_def)
  obtain reds where reds: "red_frames p (cur + 1) red = Some (reds, body)"
    "concat (map mf_Data reds) = slice (cur + 1) body p"
    "list_all2 (\<lambda>f (c, n). mf_TimeCode f = c \<and> length (mf_Data f) = unat n \<and> \<not> mf_IsMain f) reds red"
    using red_frames_read [of "cur + 1" red p] len by (auto simp: body_def add.assoc)
  define main where "main = \<lparr>mf_Data = slice body (length p) p, mf_TimeCode = p ! cur, mf_IsMain = True\<rparr>"
  have "fs = reds @ [main]"
    using assms ne h reds(1) len top_bit(3) [OF r(6)]
    by (simp add: DepackSplitRed_def sub_bytes_def main_def)
  moreover have "main_ok main" using r(3,6) len by (simp add: main_ok_def main_def slice_def)
  moreover have "p = red_packet reds main"
  proof -
    have "p = slice 0 cur p @ slice cur (cur + 1) p @ slice (cur + 1) body p @ slice body (length p) p"
      using len by (simp add: slice_append body_def) (simp add: slice_def)
    also have "slice cur (cur + 1) p = [p ! cur]"
      using len by (simp add: slice_def body_def take_Suc_conv_app_nth hd_drop_conv_nth take_Suc)
    finally show ?thesis
      using reds(2) red_packet_headers [OF reds(3)] r(4) by (simp add: red_packet_def main_def)
  qed
  ultimately show ?thesis using red_frames_ok [OF reds(3) r(5)] by blast
qed

lemma depack_written:
  assumes "list_all red_ok reds" "main_ok main"
  shows "DepackSplitRed (red_packet reds main) = Ret (reds @ [main])"
proof -
  define red where "red = map (\<lambda>f. (mf_TimeCode f, of_nat (length (mf_Data f)) :: u8)) reds"
  define p where "p = red_packet reds main"
  define body where "body = 2 * length red + 1 + sizes red"
  have match: "list_all2 (\<lambda>f (c, n). mf_TimeCode f = c \<and> length (mf_Data f) = unat n \<and> \<not> mf_IsMain f) reds red"
    using assms(1) by (simp add: unat_length_u8 red_def list_all2_map2 list_all2_same red_ok_def list_all_iff)
  have lens: "sizes red = length (concat (map mf_Data reds))" "length red = length reds"
    using match by (induction rule: list_all2_induct) auto
  have p: "p = [] @ header_bytes red @ mf_TimeCode main # (concat (map mf_Data reds) @ mf_Data main)"
    by (simp add: p_def red_packet_def red_packet_headers [OF match])
  have m: "1 < length (mf_Data main) + 1" "mf_TimeCode main < 0x80" using assms(2) by (simp_all add: main_ok_def)
  have codes: "\<forall>(c, n) \<in> set red. c < 0x80" using assms(1) by (auto simp: red_def red_ok_def list_all_iff)
  have "length p = announced red + (length (mf_Data main) + 1)"
    using p lens by (simp add: announced_def)
  then have h: "red_headers p 0 (length p) [] = Ret (red, 2 * length red, length (mf_Data main) + 1)"
    using red_headers_written [OF p m(2) codes m(1), of "[]"] by simp
  have len: "length p = body + length (mf_Data main)" using p lens by (simp add: body_def)
  obtain fs where fs: "red_frames p (2 * length red + 1) red = Some (fs, body)"
    "concat (map mf_Data fs) = slice (2 * length red + 1) body p"
    "list_all2 (\<lambda>f (c, n). mf_TimeCode f = c \<and> length (mf_Data f) = unat n \<and> \<not> mf_IsMain f) fs red"
    using red_frames_read [of "2 * length red + 1" red p] len by (auto simp: body_def add.assoc)
  have "slice (2 * length red + 1) body p = concat (map mf_Data reds)"
    using p lens by (simp add: slice_def body_def)
  then have same: "concat (map mf_Data fs) = concat (map mf_Data reds)" using fs(2) by simp
  have "fs = reds" by (rule matched_frames [OF fs(3) match same])
  moreover have "slice body (length p) p = mf_Data main" "p ! (2 * length red) = mf_TimeCode main" "p \<noteq> []"
    using p lens by (auto simp: slice_def body_def nth_append)
  ultimately show ?thesis
    using h fs(1) len m assms(2) top_bit(3) [OF m(2)]
    by (simp add: DepackSplitRed_def sub_bytes_def main_ok_def flip: p_def)
qed

lemma depack_safe: "DepackSplitRed p \<noteq> Panic"
proof (cases "\<exists>red cur rem. red_headers p 0 (length p) [] = Ret (red, cur, rem)")
  case True
  then obtain red cur rem where h: "red_headers p 0 (length p) [] = Ret (red, cur, rem)" by blast
  have r: "cur = 2 * length red" "length p = announced red + rem" "1 < rem" using red_headers_read [OF h] by auto
  then have "cur + 1 + sizes red + (rem - 1) = length p" by (simp add: announced_def)
  then show ?thesis using h red_frames_read [of "cur + 1" red p] by (auto simp: DepackSplitRed_def sub_bytes_def)
next
  case False
  then show ?thesis
    using red_headers_safe [of 0 "length p" p "[]"] by (auto simp: DepackSplitRed_def split: outcome.splits)
qed

text \<open>
  Property C32. The reader of redundant packets comes back on every payload, never by an index out of range, and it
  accepts exactly the packets of the format: it returns the frames that were packed, the redundant ones in header order
  and the main frame, which is not empty, last.
\<close>

theorem red_packets_characterised:
  "DepackSplitRed p \<noteq> Panic \<and>
   (DepackSplitRed p = Ret fs \<longleftrightarrow>
     (\<exists>reds main. fs = reds @ [main] \<and> list_all red_ok reds \<and> main_ok main \<and> p = red_packet reds main))"
  using depack_safe depack_read depack_written by blast

end
