(* ===== verification/SpeechFrames.thy ===== *)
theory SpeechFrames
  imports PitchRoundtrip SplitRed
begin

text \<open>
  Whole speech frames: the encoder of a frame (\<^verbatim>\<open>EncodeSmplFrame\<close>, \<^verbatim>\<open>mlow/encoder.go\<close>) and the decoder of a payload
  (\<^verbatim>\<open>mlow/decoder.go\<close>). The signal processing between the parameters and the samples is floating-point code outside the
  model: what the decoder calls of it are functions on an abstract state and abstract samples.
\<close>

section \<open>Encoder\<close>

record SmplInternalParams =
  ip_Lsf :: SmplLsfParams
  ip_Pulses :: SmplPulseParams
  ip_Pitch :: SmplPitchParams
  ip_Gains :: SmplGainParams

record SmplFrameParams =
  fp_TOC :: u8
  fp_Config :: int
  fp_Internal :: "SmplInternalParams list"

definition SmplEncodeBufBytes :: nat where "SmplEncodeBufBytes = 512"

definition enc_internal ::
  "SmplTables \<Rightarrow> CcTables \<Rightarrow> PitchTables \<Rightarrow> int \<Rightarrow> int \<Rightarrow> SmplInternalParams \<Rightarrow> SmplLsfState \<Rightarrow> RangeEncoder
    \<Rightarrow> (SmplLsfState \<times> RangeEncoder) option" where
  "enc_internal tbl cc tab config f ip st e =
     do {
       (st, e) \<leftarrow> encodeSmplLsf tbl config f (ip_Lsf ip) st e;
       e \<leftarrow> encodeSmplPulses cc 320 1 config (lp_Stage1 (ip_Lsf ip)) (ip_Pulses ip) e;
       if lp_Stage1 (ip_Lsf ip) = 1 then encodeSmplPitch cc tab config (pp_Subfr (ip_Pulses ip)) (ip_Pitch ip) st e
       else do {
         e \<leftarrow> encodeSmplGains cc (pp_Subfr (ip_Pulses ip)) (ip_Gains ip) e;
         Some (st, e)
       }
     }"

fun enc_internals ::
  "SmplTables \<Rightarrow> CcTables \<Rightarrow> PitchTables \<Rightarrow> int \<Rightarrow> int \<Rightarrow> SmplInternalParams list \<Rightarrow> SmplLsfState \<Rightarrow> RangeEncoder
    \<Rightarrow> (SmplLsfState \<times> RangeEncoder) option" where
  "enc_internals tbl cc tab config f [] st e = Some (st, e)"
| "enc_internals tbl cc tab config f (ip # ips) st e =
     do {
       (st, e) \<leftarrow> enc_internal tbl cc tab config f ip st e;
       enc_internals tbl cc tab config (f + 1) ips st e
     }"

definition fresh_state :: SmplLsfState where
  "fresh_state = \<lparr>PrevStage1 = 0, PrevMatch = False, HavePrev = False, PrevGainIdx = 0, PrevFiltIdx = 0, PrevLag = 0,
     PrevFracLag = 0, PrevLagblk = 0, PrevLagidx = 0\<rparr>"

definition EncodeSmplFrame :: "SmplTables \<Rightarrow> CcTables \<Rightarrow> PitchTables \<Rightarrow> SmplFrameParams \<Rightarrow> (string, bytes) outcome" where
  "EncodeSmplFrame tbl cc tab fp =
     (case enc_internals tbl cc tab (fp_Config fp) 0 (fp_Internal fp) fresh_state (NewRangeEncoder (1 + SmplEncodeBufBytes)) of
        None \<Rightarrow> Panic
      | Some (st, e) \<Rightarrow>
          (let e = Done e
           in if re_err e \<noteq> 0 then Fail ''mlow encode: range-encoder buffer overflow''
              else Ret (fp_TOC fp # take (ConsumedLen e) (re_buf e))))"

section \<open>Decoder\<close>

record CelpDecParams =
  cp_Voiced :: bool
  cp_SfPulses :: "int list"
  cp_TotalPulses :: int
  cp_BlockLags2 :: "int list"
  cp_AcbgIdx :: "int list"
  cp_FcbgIdx :: "int list"
  cp_NrgresDbqQ14 :: "int list"

text \<open>
  The parameters of one internal frame for the synthesis. The lags are half samples, so the model keeps twice their value:
  \<^verbatim>\<open>BlockLags[b]*0.5 + 32.0\<close>, at most 320.
\<close>

definition block_lags2 :: "int list \<Rightarrow> int list" where
  "block_lags2 = map (\<lambda>b. if 640 < b + 64 then 640 else b + 64)"

type_synonym internal_symbols = "SmplLsfIndices \<times> SmplPulseResult \<times> (SmplPitchResult + SmplGainResult)"

definition celp_params :: "internal_symbols \<Rightarrow> CelpDecParams" where
  "celp_params r =
     (case r of (lsf, pulses, pg) \<Rightarrow>
        (case pg of
           Inl pr \<Rightarrow> \<lparr>cp_Voiced = True, cp_SfPulses = pr_Subfr pulses, cp_TotalPulses = sum_list (pr_Subfr pulses),
              cp_BlockLags2 = block_lags2 (pt_BlockLags pr), cp_AcbgIdx = pt_GainIdx pr,
              cp_FcbgIdx = map (\<lambda>f. if 0 < f then f else 0) (pt_FiltIdx pr), cp_NrgresDbqQ14 = replicate 4 0\<rparr>
         | Inr g \<Rightarrow> \<lparr>cp_Voiced = False, cp_SfPulses = pr_Subfr pulses, cp_TotalPulses = sum_list (pr_Subfr pulses),
              cp_BlockLags2 = replicate 8 0, cp_AcbgIdx = replicate 4 0, cp_FcbgIdx = gr_NrgRes g, cp_NrgresDbqQ14 = gr_GainQ g\<rparr>))"

definition dec_internal ::
  "SmplTables \<Rightarrow> CcTables \<Rightarrow> SmplMem \<Rightarrow> int \<Rightarrow> int \<Rightarrow> SmplLsfState \<Rightarrow> RangeDecoder
    \<Rightarrow> ((internal_symbols \<times> SmplLsfState) \<times> RangeDecoder) option" where
  "dec_internal tbl cc mem config f st d =
     do {
       ((lsf, st), d) \<leftarrow> DecodeSmplLsf tbl config f st d;
       (pulses, d) \<leftarrow> DecodeSmplPulses cc 320 1 config (li_Stage1 lsf) d;
       if li_Stage1 lsf = 1 then do {
         ((pr, st), d) \<leftarrow> DecodeSmplPitch cc mem config (pr_Subfr pulses) st d;
         Some (((lsf, pulses, Inl pr), st), d)
       } else do {
         (g, d) \<leftarrow> DecodeSmplGains cc (pr_Subfr pulses) d;
         Some (((lsf, pulses, Inr g), st), d)
       }
     }"

text \<open>
  The signal processing, a parameter: one internal frame to its samples, the filter over the whole packet, and the clamp
  of a sample. It runs on a state of its own.
\<close>

record ('s, 'f) dsp =
  dsp_init :: 's
  dsp_synth :: "'s \<Rightarrow> int \<Rightarrow> bool \<Rightarrow> internal_symbols \<Rightarrow> CelpDecParams \<Rightarrow> 'f list \<times> 's"
  dsp_post :: "'s \<Rightarrow> 'f list \<Rightarrow> CelpDecParams list \<Rightarrow> 'f list \<times> 's"
  dsp_clamp :: "'f \<Rightarrow> 'f"
  dsp_zero :: 'f

fun dec_and_synth ::
  "SmplTables \<Rightarrow> CcTables \<Rightarrow> SmplMem \<Rightarrow> ('s, 'f) dsp \<Rightarrow> int \<Rightarrow> int \<Rightarrow> nat \<Rightarrow> SmplLsfState \<Rightarrow> 's \<Rightarrow> RangeDecoder
    \<Rightarrow> (('f list \<times> CelpDecParams list \<times> SmplLsfState \<times> 's) \<times> RangeDecoder) option" where
  "dec_and_synth tbl cc mem D config f 0 st s d = Some (([], [], st, s), d)"
| "dec_and_synth tbl cc mem D config f (Suc n) st s d =
     do {
       ((r, st), d) \<leftarrow> dec_internal tbl cc mem config f st d;
       let params = celp_params r;
       let (sig, s) = dsp_synth D s config (config \<noteq> 0) r params;
       ((out, ps, st, s), d) \<leftarrow> dec_and_synth tbl cc mem D config (f + 1) n st s d;
       Some ((sig @ out, params # ps, st, s), d)
     }"

record 's MlowDecoder =
  md_Lstate :: SmplLsfState
  md_synth :: 's
  md_redundancy :: int

definition NewMlowDecoder :: "('s, 'f) dsp \<Rightarrow> 's MlowDecoder" where
  "NewMlowDecoder D = \<lparr>md_Lstate = fresh_state, md_synth = dsp_init D, md_redundancy = 0\<rparr>"

definition SetRedundancy :: "'s MlowDecoder \<Rightarrow> int \<Rightarrow> 's MlowDecoder" where
  "SetRedundancy d n = d\<lparr>md_redundancy := n\<rparr>"

definition Reset :: "('s, 'f) dsp \<Rightarrow> 's MlowDecoder \<Rightarrow> 's MlowDecoder" where
  "Reset D d = d\<lparr>md_Lstate := fresh_state, md_synth := dsp_init D\<rparr>"

definition fit_length :: "'f \<Rightarrow> nat \<Rightarrow> 'f list \<Rightarrow> 'f list" where
  "fit_length z n pcm =
     (if 0 < n \<and> n \<noteq> length pcm then if n \<le> length pcm then take n pcm else pcm @ replicate (n - length pcm) z else pcm)"

definition decodeActiveFrame ::
  "SmplTables \<Rightarrow> CcTables \<Rightarrow> SmplMem \<Rightarrow> ('s, 'f) dsp \<Rightarrow> 's MlowDecoder \<Rightarrow> bytes \<Rightarrow> nat \<Rightarrow> ('f list \<times> 's MlowDecoder) option" where
  "decodeActiveFrame tbl cc mem D md frame outLen =
     (let config = uint (drop_bit 2 (hd frame) AND 1)
      in do {
        d \<leftarrow> NewRangeDecoder (tl frame);
        ((out, ps, st, s), d) \<leftarrow> dec_and_synth tbl cc mem D config 0 3 (md_Lstate md) (md_synth md) d;
        let (out, s) = dsp_post D s out ps;
        Some (fit_length (dsp_zero D) outLen (map (dsp_clamp D) out), md\<lparr>md_Lstate := st, md_synth := s\<rparr>)
      })"

definition out_length :: "SmplTOC \<Rightarrow> nat" where
  "out_length toc = (if toc_StdOpus toc then 16000 div 1000 * toc_FrameMs toc else toc_SampleRate toc div 1000 * toc_FrameMs toc)"

definition decodeFrame ::
  "SmplTables \<Rightarrow> CcTables \<Rightarrow> SmplMem \<Rightarrow> ('s, 'f) dsp \<Rightarrow> 's MlowDecoder \<Rightarrow> bytes \<Rightarrow> ('f list \<times> 's MlowDecoder) option" where
  "decodeFrame tbl cc mem D md frame =
     (if frame = [] then Some (replicate 960 (dsp_zero D), md)
      else
        let toc = ParseSmplTOC (hd frame); outLen = out_length toc
        in if toc_StdOpus toc \<or> toc_SID toc \<or> \<not> toc_Active toc then Some (replicate outLen (dsp_zero D), md)
           else decodeActiveFrame tbl cc mem D md frame outLen)"

definition MlowDecode ::
  "SmplTables \<Rightarrow> CcTables \<Rightarrow> SmplMem \<Rightarrow> ('s, 'f) dsp \<Rightarrow> 's MlowDecoder \<Rightarrow> bytes \<Rightarrow> ('f list \<times> 's MlowDecoder) option" where
  "MlowDecode tbl cc mem D md payload =
     (if payload = [] then Some (replicate 960 (dsp_zero D), md)
      else if 0 < md_redundancy md then
        (case DepackSplitRed payload of
           Fail _ \<Rightarrow> Some (replicate 960 (dsp_zero D), md)
         | Panic \<Rightarrow> None
         | Ret frames \<Rightarrow> decodeFrame tbl cc mem D md (if frames = [] then [] else mf_Data (last frames)))
      else decodeFrame tbl cc mem D md payload)"

section \<open>Round trip of a frame\<close>

text \<open>The symbols alone: the reading of the three internal frames without the synthesis, which gives nothing back to it.\<close>

fun dec_internals ::
  "SmplTables \<Rightarrow> CcTables \<Rightarrow> SmplMem \<Rightarrow> int \<Rightarrow> int \<Rightarrow> nat \<Rightarrow> SmplLsfState \<Rightarrow> RangeDecoder
    \<Rightarrow> ((internal_symbols list \<times> SmplLsfState) \<times> RangeDecoder) option" where
  "dec_internals tbl cc mem config f 0 st d = Some (([], st), d)"
| "dec_internals tbl cc mem config f (Suc n) st d =
     do {
       ((r, st), d) \<leftarrow> dec_internal tbl cc mem config f st d;
       ((rs, st), d) \<leftarrow> dec_internals tbl cc mem config (f + 1) n st d;
       Some ((r # rs, st), d)
     }"

fun internals_fit :: "SmplTables \<Rightarrow> CcTables \<Rightarrow> PitchTables \<Rightarrow> int \<Rightarrow> SmplInternalParams list \<Rightarrow> SmplLsfState \<Rightarrow> bool" where
  "internals_fit tbl cc tab f [] st = True"
| "internals_fit tbl cc tab f (ip # ips) st =
     (let stage1 = lp_Stage1 (ip_Lsf ip); cnts = pp_Subfr (ip_Pulses ip); st1 = lsf_next f stage1 st
      in lsf_fits tbl 0 f (PrevStage1 st) (ip_Lsf ip) \<and> (stage1 = 0 \<or> stage1 = 1) \<and> pulses_fit cc (ip_Pulses ip) \<and>
        (if stage1 = 1 then pitch_fits cc tab 0 cnts (ip_Pitch ip) st1
           \<and> internals_fit tbl cc tab (f + 1) ips (pitch_next cc tab 0 cnts (ip_Pitch ip) st1)
         else gains_fit cc cnts (ip_Gains ip) \<and> internals_fit tbl cc tab (f + 1) ips st1))"

definition read_as :: "SmplTables \<Rightarrow> CcTables \<Rightarrow> SmplInternalParams \<Rightarrow> internal_symbols \<Rightarrow> bool" where
  "read_as tbl cc ip r \<longleftrightarrow>
     (case r of (lsf, pulses, pg) \<Rightarrow>
        lsf = lsf_read tbl 0 (ip_Lsf ip) \<and> pulses = pulses_read (ip_Pulses ip) \<and>
        (case pg of
           Inl pr \<Rightarrow> lp_Stage1 (ip_Lsf ip) = 1 \<and> pt_GainIdx pr = pi_GainIdx (ip_Pitch ip)
             \<and> pt_FiltIdx pr = coded_only (-1) (pp_Subfr (ip_Pulses ip)) (pi_FiltIdx (ip_Pitch ip))
             \<and> pt_BlockLags pr = pi_Laginds (ip_Pitch ip)
         | Inr g \<Rightarrow> lp_Stage1 (ip_Lsf ip) \<noteq> 1 \<and> g = gains_read cc (pp_Subfr (ip_Pulses ip)) (ip_Gains ip)))"

lemma lsf_next_in_step: "f = 0 \<or> in_step st st' \<Longrightarrow> in_step (lsf_next f stage1 st) (lsf_next_dec f stage1 st')"
  by (auto simp: in_step_def lsf_next_def lsf_next_dec_def Let_def)

lemma lsf_read_stage1 [simp]: "li_Stage1 (lsf_read tbl config lsf) = lp_Stage1 lsf"
  by (simp add: lsf_read_def)

lemma pulses_read_subfr [simp]: "pr_Subfr (pulses_read pp) = pp_Subfr pp"
  by (simp add: pulses_read_def)

lemma internals_coded:
  "window_holds mem tab \<Longrightarrow> internals_fit tbl cc tab f ips st \<Longrightarrow> 0 \<le> f \<Longrightarrow> f = 0 \<or> in_step st st'
    \<Longrightarrow> \<exists>rs st1 st1'. coded (enc_internals tbl cc tab 0 f ips st) (dec_internals tbl cc mem 0 f (length ips) st') st1 (rs, st1')
      \<and> list_all2 (read_as tbl cc) ips rs"
proof (induction ips arbitrary: f st st')
  case Nil
  have "enc_internals tbl cc tab 0 f [] st = (\<lambda>e. Some (st, e))" "dec_internals tbl cc mem 0 f (length []) st' = (\<lambda>d. Some (([], st'), d))"
    by (simp_all add: fun_eq_iff)
  then show ?case using coded_return by (intro exI [of _ "[]"] exI) simp
next
  case (Cons ip ips)
  define stage1 where "stage1 = lp_Stage1 (ip_Lsf ip)"
  define cnts where "cnts = pp_Subfr (ip_Pulses ip)"
  define mid where "mid = lsf_next f stage1 st"
  define mid' where "mid' = lsf_next_dec f stage1 st'"
  have f: "lsf_fits tbl 0 f (PrevStage1 st) (ip_Lsf ip)" "stage1 = 0 \<or> stage1 = 1" "pulses_fit cc (ip_Pulses ip)"
    "stage1 = 1 \<Longrightarrow> pitch_fits cc tab 0 cnts (ip_Pitch ip) mid \<and> internals_fit tbl cc tab (f + 1) ips (pitch_next cc tab 0 cnts (ip_Pitch ip) mid)"
    "stage1 \<noteq> 1 \<Longrightarrow> gains_fit cc cnts (ip_Gains ip) \<and> internals_fit tbl cc tab (f + 1) ips mid"
    using Cons.prems(2) unfolding internals_fit.simps Let_def stage1_def [symmetric] cnts_def [symmetric] mid_def [symmetric]
    by (simp_all only: if_True if_False simp_thms)
  have lsf: "coded (encodeSmplLsf tbl 0 f (ip_Lsf ip) st) (DecodeSmplLsf tbl 0 f st') mid (lsf_read tbl 0 (ip_Lsf ip), mid')"
    unfolding mid_def mid'_def stage1_def using Cons.prems(4) by (intro lsf_coded [OF f(1)]) (auto simp: in_step_def)
  have mids: "in_step mid mid'" unfolding mid_def mid'_def using Cons.prems(4) by (rule lsf_next_in_step)
  note pulses = pulses_agree [OF f(3,2)]
  have st1: "li_Stage1 (lsf_read tbl 0 (ip_Lsf ip)) = stage1" "pr_Subfr (pulses_read (ip_Pulses ip)) = cnts"
    by (simp_all add: stage1_def cnts_def)
  have enc: "enc_internals tbl cc tab 0 f (ip # ips) st = (\<lambda>e. Option.bind (encodeSmplLsf tbl 0 f (ip_Lsf ip) st e) (\<lambda>(st, e).
      Option.bind (encodeSmplPulses cc 320 1 0 stage1 (ip_Pulses ip) e) (\<lambda>e.
        Option.bind (if stage1 = 1 then encodeSmplPitch cc tab 0 cnts (ip_Pitch ip) st e
          else Option.bind (encodeSmplGains cc cnts (ip_Gains ip) e) (\<lambda>e. Some (st, e)))
        (\<lambda>(st, e). enc_internals tbl cc tab 0 (f + 1) ips st e))))"
    unfolding enc_internals.simps(2) [abs_def] enc_internal_def [abs_def] stage1_def [symmetric] cnts_def [symmetric]
    by (simp add: fun_eq_iff Option.bind_assoc case_prod_beta')
  have dec: "dec_internals tbl cc mem 0 f (length (ip # ips)) st' = (\<lambda>d. Option.bind (DecodeSmplLsf tbl 0 f st' d) (\<lambda>((lsf, st), d).
      Option.bind (DecodeSmplPulses cc 320 1 0 (li_Stage1 lsf) d) (\<lambda>(pulses, d).
        Option.bind (if li_Stage1 lsf = 1 then Option.bind (DecodeSmplPitch cc mem 0 (pr_Subfr pulses) st d)
             (\<lambda>((pr, st), d). Some (((lsf, pulses, Inl pr), st), d))
          else Option.bind (DecodeSmplGains cc (pr_Subfr pulses) d) (\<lambda>(g, d). Some (((lsf, pulses, Inr g), st), d)))
        (\<lambda>((r, st), d). Option.bind (dec_internals tbl cc mem 0 (f + 1) (length ips) st d) (\<lambda>((rs, st), d).
          Some ((r # rs, st), d))))))"
    by (simp add: fun_eq_iff dec_internal_def Option.bind_assoc case_prod_beta')
  have "\<exists>r st2 st2'. coded (\<lambda>e. if stage1 = 1 then encodeSmplPitch cc tab 0 cnts (ip_Pitch ip) mid e
          else Option.bind (encodeSmplGains cc cnts (ip_Gains ip) e) (\<lambda>e. Some (mid, e)))
      (\<lambda>d. if stage1 = 1 then Option.bind (DecodeSmplPitch cc mem 0 cnts mid' d)
             (\<lambda>((pr, st), d). Some (((lsf_read tbl 0 (ip_Lsf ip), pulses_read (ip_Pulses ip), Inl pr), st), d))
          else Option.bind (DecodeSmplGains cc cnts d)
             (\<lambda>(g, d). Some (((lsf_read tbl 0 (ip_Lsf ip), pulses_read (ip_Pulses ip), Inr g), mid'), d))) st2 (r, st2')
      \<and> in_step st2 st2' \<and> read_as tbl cc ip r \<and> internals_fit tbl cc tab (f + 1) ips st2"
  proof (cases "stage1 = 1")
    case True
    obtain res st2' where p: "coded (encodeSmplPitch cc tab 0 cnts (ip_Pitch ip) mid) (DecodeSmplPitch cc mem 0 cnts mid')
        (pitch_next cc tab 0 cnts (ip_Pitch ip) mid) (res, st2')"
      "in_step (pitch_next cc tab 0 cnts (ip_Pitch ip) mid) st2'"
      "pt_GainIdx res = pi_GainIdx (ip_Pitch ip)" "pt_FiltIdx res = coded_only (-1) cnts (pi_FiltIdx (ip_Pitch ip))"
      "pt_BlockLags res = pi_Laginds (ip_Pitch ip)"
      using pitch_coded [OF Cons.prems(1) conjunct1 [OF f(4) [OF True]] mids] by blast
    show ?thesis
      using coded_last [OF p(1), of "\<lambda>(pr, st). ((lsf_read tbl 0 (ip_Lsf ip), pulses_read (ip_Pulses ip), Inl pr), st)"]
        True p(2-5) f(4) [OF True]
      by (intro exI [of _ "(lsf_read tbl 0 (ip_Lsf ip), pulses_read (ip_Pulses ip), Inl res)"]
          exI [of _ "pitch_next cc tab 0 cnts (ip_Pitch ip) mid"] exI [of _ st2'])
        (simp add: read_as_def case_prod_beta' flip: stage1_def cnts_def)
  next
    case False
    note g = agree_last [OF gains_agree [OF conjunct1 [OF f(5) [OF False]]],
        of "\<lambda>g. ((lsf_read tbl 0 (ip_Lsf ip), pulses_read (ip_Pulses ip), Inr g), mid')"]
    show ?thesis
      using agree_coded [OF g, of mid] False mids f(5) [OF False]
      by (intro exI [of _ "(lsf_read tbl 0 (ip_Lsf ip), pulses_read (ip_Pulses ip), Inr (gains_read cc cnts (ip_Gains ip)))"]
          exI [of _ mid] exI [of _ mid'])
        (simp add: read_as_def flip: stage1_def cnts_def)
  qed
  then obtain r st2 st2' where last: "coded (\<lambda>e. if stage1 = 1 then encodeSmplPitch cc tab 0 cnts (ip_Pitch ip) mid e
          else Option.bind (encodeSmplGains cc cnts (ip_Gains ip) e) (\<lambda>e. Some (mid, e)))
      (\<lambda>d. if stage1 = 1 then Option.bind (DecodeSmplPitch cc mem 0 cnts mid' d)
             (\<lambda>((pr, st), d). Some (((lsf_read tbl 0 (ip_Lsf ip), pulses_read (ip_Pulses ip), Inl pr), st), d))
          else Option.bind (DecodeSmplGains cc cnts d)
             (\<lambda>(g, d). Some (((lsf_read tbl 0 (ip_Lsf ip), pulses_read (ip_Pulses ip), Inr g), mid'), d))) st2 (r, st2')"
    and next_st: "in_step st2 st2'" "read_as tbl cc ip r" "internals_fit tbl cc tab (f + 1) ips st2" by blast
  obtain rs st3 st3' where ih: "coded (enc_internals tbl cc tab 0 (f + 1) ips st2)
      (dec_internals tbl cc mem 0 (f + 1) (length ips) st2') st3 (rs, st3')" "list_all2 (read_as tbl cc) ips rs"
    using Cons.IH [OF Cons.prems(1) next_st(3), of st2'] Cons.prems(3) next_st(1) by auto
  have "coded (enc_internals tbl cc tab 0 f (ip # ips) st) (dec_internals tbl cc mem 0 f (length (ip # ips)) st') st3 (r # rs, st3')"
    unfolding enc dec
    apply (rule coded_both [OF lsf])
    unfolding prod.case st1
    apply (rule coded_then [OF pulses])
    unfolding st1
    apply (rule coded_both [OF last])
    using coded_last [OF ih(1), of "\<lambda>(rs, st). (r # rs, st)"] by (simp add: case_prod_beta')
  then show ?case using next_st(2) ih(2) by blast
qed

subsection \<open>A frame\<close>

text \<open>
  Small tables: two symbols each, one contour that covers the frame, and the window with its entries. The first internal
  frame is unvoiced with one pulse, the second voiced without pulses, the third unvoiced and silent.
\<close>

definition demo_cdf :: "u16 list" where "demo_cdf = [0, 10, 20]"

definition demo_smpl :: SmplTables where
  "demo_smpl = \<lparr>LsfSel = replicate 3 demo_cdf, LsfMatch1 = demo_cdf, LsfMatch1Alt = demo_cdf, LsfMatch0 = demo_cdf,
     LsfMatch0Alt = demo_cdf, LsfStage2 = replicate 2 [replicate 2 (replicate 16 demo_cdf)], LsfExtra = demo_cdf\<rparr>"

definition demo_cc :: CcTables where
  "demo_cc = \<lparr>cc_nrgresGain4 = demo_cdf, cc_nrgresShape4 = demo_cdf,
     cc_fcbgOffset = replicate 8 [] @ [replicate 85 0 @ [0, 3, 5, 9, 12] @ replicate 87 12],
     cc_acbgainsHr = concat (replicate 3 (map of_nat [0..<17])), cc_acbgainsLr = [], cc_fcbgainsV = demo_cdf,
     cc_fcbgainsVDelta = [], cc_acbgainsCbHrQ14 = [100, 50, 200, 60], cc_acbgainsCbLrQ14 = [], cc_gainRecon = [], cc_gainReconBase = 0,
     cc_nPulseCmfs = [], cc_splitCmfs = [[0, 5, 9]], cc_runlen = replicate 10 \<lparr>rl_maxSamples = 80, rl_cmfs = [map of_nat [0..<81]]\<rparr>\<rparr>"

definition demo_pitch :: PitchTables where
  "demo_pitch = \<lparr>Blocksegs = [\<lparr>bs_Nblocks = 1, bs_Blocks = [2], bs_Seglens = [8]\<rparr>], Blocksegs2idx = [1], BlocksegIdxCmf = [0, 9],
     DeltaLagCmfs = [replicate 320 0], FirstblockRange = [], BlockTransitionCmf = []\<rparr>"

definition demo_mem :: SmplMem where
  "demo_mem = \<lparr>sm_regions =
     [(0x1000, [1]), (0x2000, put_u16le 0 @ put_u16le 9), (0x743c, put_u32le 2), (0x745c, put_u32le 8), (0x747c, put_u32le 1),
      (0xade4, put_u32le 1 @ put_u32le 0x1000 @ put_u32le 0x2000)],
     sm_GPitch = 0, sm_GClk = 0\<rparr>"

lemma demo_regions:
  "regionFor demo_mem 0x1000 1 = Some [1]" "regionFor demo_mem 0x743c 4 = Some (put_u32le 2)"
  "regionFor demo_mem 0x2000 2 = Some (put_u16le 0 @ put_u16le 9)" "regionFor demo_mem 0x2002 2 = Some (put_u16le 9)"
  "regionFor demo_mem 0x745c 4 = Some (put_u32le 8)" "regionFor demo_mem 0x747c 4 = Some (put_u32le 1)"
  "regionFor demo_mem 0xade4 4 = Some (put_u32le 1 @ put_u32le 0x1000 @ put_u32le 0x2000)"
  "regionFor demo_mem 0xade8 4 = Some (put_u32le 0x1000 @ put_u32le 0x2000)" "regionFor demo_mem 0xadec 4 = Some (put_u32le 0x2000)"
  "regionFor demo_mem 0xadf0 4 = None"
  by (simp_all add: regionFor_def demo_mem_def put_u32le_def put_u16le_def)

lemma demo_low: "unat addr < 0x1000 \<Longrightarrow> U16 demo_mem addr = 0"
  by (simp add: U16_def regionFor_def demo_mem_def word_le_nat_alt)

lemma demo_frac: "CDFAt demo_mem 0 320 = replicate 320 0"
proof (rule nth_equalityI)
  fix i assume "i < length (CDFAt demo_mem 0 320)"
  then have i: "i < 320" by (simp add: CDFAt_def)
  then have "unat (of_nat i * 2 :: u32) < 0x1000" by (simp add: unat_word_ariths unat_of_nat)
  then show "CDFAt demo_mem 0 320 ! i = replicate 320 0 ! i" using i demo_low by (simp add: CDFAt_def)
qed (simp add: CDFAt_def)

lemma demo_words:
  "U32 demo_mem 0xade4 = 1" "U32 demo_mem 0xade8 = 0x1000" "U32 demo_mem 0xadec = 0x2000" "U32 demo_mem 0xadf0 = 0"
  "U32 demo_mem 0x743c = 2" "U32 demo_mem 0x745c = 8" "U32 demo_mem 0x747c = 1" "U8 demo_mem 0x1000 = 1"
  "U16 demo_mem 0x2000 = 0" "U16 demo_mem 0x2002 = 9"
  by (simp_all add: U32_def U16_def U8_def demo_regions [unfolded One_nat_def] put_u32le_def put_u16le_def get_u32le_def get_u16le_def)

lemma demo_window: "window_holds demo_mem demo_pitch"
proof -
  have p: "pcfg demo_mem = 0x5704" by (simp add: pcfg_def demo_mem_def)
  have contour: "find_contour demo_mem 0 = 0"
    by (simp add: find_contour_def p demo_words upt_conv_Cons)
  have idx: "CDFAt demo_mem 0x2000 (Suc (Suc 0)) = [0, 9]"
    by (simp add: CDFAt_def demo_words)
  show ?thesis
    by (simp add: window_holds_def demo_pitch_def p demo_words I32_def contour idx demo_frac small_def)
qed


definition demo_first :: SmplInternalParams where
  "demo_first =
     \<lparr>ip_Lsf = \<lparr>lp_Stage1 = 0, lp_Grid = 1, lp_Stage2 = replicate 16 1, lp_Extra = 0\<rparr>,
      ip_Pulses = \<lparr>pp_Total = 1, pp_Subfr = [0, 1, 0, 0], pp_MagRuns = [7], pp_SignSyms = [(1, 1)]\<rparr>,
      ip_Pitch = \<lparr>pi_GainIdx = [], pi_FiltIdx = [], pi_BlocksegIdx = 0, pi_Laginds = []\<rparr>,
      ip_Gains = \<lparr>gp_GainMain = 1, gp_GainDelta = 0, gp_NrgRes = [0, 3, 0, 0]\<rparr>\<rparr>"

definition demo_second :: SmplInternalParams where
  "demo_second =
     \<lparr>ip_Lsf = \<lparr>lp_Stage1 = 1, lp_Grid = 0, lp_Stage2 = replicate 16 0, lp_Extra = 1\<rparr>,
      ip_Pulses = \<lparr>pp_Total = 0, pp_Subfr = [0, 0, 0, 0], pp_MagRuns = [], pp_SignSyms = []\<rparr>,
      ip_Pitch = \<lparr>pi_GainIdx = [1, 0, 1, 1], pi_FiltIdx = [-1, -1, -1, -1], pi_BlocksegIdx = 0, pi_Laginds = replicate 8 130\<rparr>,
      ip_Gains = \<lparr>gp_GainMain = 0, gp_GainDelta = 0, gp_NrgRes = []\<rparr>\<rparr>"

definition demo_third :: SmplInternalParams where
  "demo_third =
     \<lparr>ip_Lsf = \<lparr>lp_Stage1 = 0, lp_Grid = 0, lp_Stage2 = replicate 16 0, lp_Extra = 1\<rparr>,
      ip_Pulses = \<lparr>pp_Total = 0, pp_Subfr = [0, 0, 0, 0], pp_MagRuns = [], pp_SignSyms = []\<rparr>,
      ip_Pitch = \<lparr>pi_GainIdx = [], pi_FiltIdx = [], pi_BlocksegIdx = 0, pi_Laginds = []\<rparr>,
      ip_Gains = \<lparr>gp_GainMain = 0, gp_GainDelta = 1, gp_NrgRes = [0, 0, 0, 0]\<rparr>\<rparr>"

definition demo_frame :: SmplFrameParams where
  "demo_frame = \<lparr>fp_TOC = 0x50, fp_Config = 0, fp_Internal = [demo_first, demo_second, demo_third]\<rparr>"

lemma demo_stages:
  "lp_Stage1 (ip_Lsf demo_first) = 0" "pp_Subfr (ip_Pulses demo_first) = [0, 1, 0, 0]"
  "lp_Stage1 (ip_Lsf demo_second) = 1" "pp_Subfr (ip_Pulses demo_second) = [0, 0, 0, 0]"
  "lp_Stage1 (ip_Lsf demo_third) = 0" "pp_Subfr (ip_Pulses demo_third) = [0, 0, 0, 0]"
  by (simp_all add: demo_first_def demo_second_def demo_third_def)

lemma demo_cdf_fits: "cdf_fits demo_cdf 0" "cdf_fits demo_cdf 1"
  by (simp_all add: cdf_fits_def demo_cdf_def)

lemma demo_lsf:
  "lsf_fits demo_smpl 0 0 0 (ip_Lsf demo_first)" "lsf_fits demo_smpl 0 1 0 (ip_Lsf demo_second)"
  "lsf_fits demo_smpl 0 2 1 (ip_Lsf demo_third)"
  by (simp_all add: lsf_fits_def demo_smpl_def demo_first_def demo_second_def demo_third_def elem_at_def demo_cdf_fits list_all2_conv_all_nth)

lemma demo_pulses:
  "pulses_fit demo_cc (ip_Pulses demo_first)" "pulses_fit demo_cc (ip_Pulses demo_second)" "pulses_fit demo_cc (ip_Pulses demo_third)"
  by code_simp+

lemma demo_gains:
  "gains_fit demo_cc [0, 1, 0, 0] (ip_Gains demo_first)" "gains_fit demo_cc [0, 0, 0, 0] (ip_Gains demo_third)"
  by (simp_all add: gains_fit_def demo_first_def demo_third_def demo_cc_def demo_cdf_def gain_q_def upt_conv_Cons NrgStep_def GainRecon_def
      gainReconAt_def nrgres_cdf_def FcbgOffset_def elem_at_def window_at_def cdf_fits_def nth_append sorted_append)

lemma demo_lags: "lags_fit demo_pitch 0 (replicate 8 130) (-1) (-1) 0"
  by (simp add: lags_fit_def demo_pitch_def contour_ok_def near_def index_fits_def cdf_fits_def)

lemma demo_ltp:
  "ltp_fits demo_cc 0 [0, 0, 0, 0] (zip [1, 0, 1, 1] [-1, -1, -1, -1]) (-1, -1, 0)"
  "lag_mode (snd (snd (ltp_next demo_cc 0 [0, 0, 0, 0] (zip [1, 0, 1, 1] [-1, -1, -1, -1]) (-1, -1, 0))) sdiv 4) = 0"
  by code_simp+

lemma demo_pitches: "pitch_fits demo_cc demo_pitch 0 [0, 0, 0, 0] (ip_Pitch demo_second) (lsf_next 1 1 (lsf_next 0 0 fresh_state))"
  using demo_ltp demo_lags by (simp add: pitch_fits_def demo_second_def lsf_next_def fresh_state_def)

lemma demo_fits: "internals_fit demo_smpl demo_cc demo_pitch 0 (fp_Internal demo_frame) fresh_state"
proof -
  have "PrevStage1 fresh_state = 0" "PrevStage1 (lsf_next f s st) = s"
     "PrevStage1 (pitch_next demo_cc demo_pitch 0 cnts pp st) = PrevStage1 st" for f s st cnts pp
    by (simp_all add: fresh_state_def lsf_next_def pitch_next_def Let_def case_prod_beta')
  then show ?thesis
    by (simp add: demo_frame_def Let_def demo_stages demo_lsf demo_pulses demo_gains demo_pitches)
qed




lemma demo_encodes: "returns (EncodeSmplFrame demo_smpl demo_cc demo_pitch demo_frame)"
  by code_simp

subsection \<open>The theorem\<close>

text \<open>
  Property C8. A speech frame is read back as it was encoded: when the parameters of the three internal frames fit their
  tables and the window holds the pitch tables, the encoder returns, with the frame or with the error of a full buffer;
  and from the body of the frame, in whatever state earlier packets left the decoder, with anything behind it, the
  decoder reads for every internal frame the spectral indices, the pulses with their runs and signs, and the gains or
  the pitch gains, filters and lags that were encoded.
\<close>

theorem frame_roundtrip:
  assumes win: "window_holds mem tab" and fits: "internals_fit tbl cc tab 0 (fp_Internal fp) fresh_state"
    and fp: "fp_Config fp = 0" "length (fp_Internal fp) = 3"
  shows "EncodeSmplFrame tbl cc tab fp = Fail ''mlow encode: range-encoder buffer overflow'' \<or>
    (\<exists>body. EncodeSmplFrame tbl cc tab fp = Ret (fp_TOC fp # body) \<and>
      (\<forall>st rest. length (body @ rest) < 2 ^ 32 \<longrightarrow>
        (\<exists>d rs st' d'. NewRangeDecoder (body @ rest) = Some d \<and> dec_internals tbl cc mem 0 0 3 st d = Some ((rs, st'), d')
          \<and> list_all2 (read_as tbl cc) (fp_Internal fp) rs \<and> rd_Err d' = 0)))"
proof -
  note coded = internals_coded [OF win fits order_refl disjI1 [OF refl], unfolded fp(2)]
  obtain rs0 st1 st1' where c0: "coded (enc_internals tbl cc tab 0 0 (fp_Internal fp) fresh_state)
      (dec_internals tbl cc mem 0 0 3 fresh_state) st1 (rs0, st1')" using coded by blast
  obtain e where e: "map_option snd (enc_internals tbl cc tab 0 0 (fp_Internal fp) fresh_state (NewRangeEncoder (1 + SmplEncodeBufBytes))) = Some e"
    using agree_buffer [OF conjunct1 [OF c0 [unfolded coded_def]], of "1 + SmplEncodeBufBytes"] by (auto simp: SmplEncodeBufBytes_def)
  then obtain st2 where enc: "enc_internals tbl cc tab 0 0 (fp_Internal fp) fresh_state (NewRangeEncoder (1 + SmplEncodeBufBytes)) = Some (st2, e)"
    by auto
  define body where "body = take (ConsumedLen (Done e)) (re_buf (Done e))"
  show ?thesis
  proof (cases "re_err (Done e) = 0")
    case False
    then show ?thesis using enc by (simp add: EncodeSmplFrame_def fp(1) Let_def)
  next
    case True
    have "\<exists>d rs st' d'. NewRangeDecoder (body @ rest) = Some d \<and> dec_internals tbl cc mem 0 0 3 st d = Some ((rs, st'), d')
          \<and> list_all2 (read_as tbl cc) (fp_Internal fp) rs \<and> rd_Err d' = 0" if len: "length (body @ rest) < 2 ^ 32" for st rest
    proof -
      obtain rs s1 s1' where c: "coded (enc_internals tbl cc tab 0 0 (fp_Internal fp) fresh_state)
          (dec_internals tbl cc mem 0 0 3 st) s1 (rs, s1')" "list_all2 (read_as tbl cc) (fp_Internal fp) rs"
        using coded [of st] by blast
      obtain d d' where "NewRangeDecoder (body @ rest) = Some d" "dec_internals tbl cc mem 0 0 3 st d = Some ((rs, s1'), d')" "rd_Err d' = 0"
        using agree_buffer [OF conjunct1 [OF c(1) [unfolded coded_def]], of "1 + SmplEncodeBufBytes"] e True len
        by (auto simp: SmplEncodeBufBytes_def body_def)
      then show ?thesis using c(2) by blast
    qed
    then show ?thesis using enc True by (simp add: EncodeSmplFrame_def fp(1) Let_def body_def)
  qed
qed

theorem frame_roundtrip_witness:
  "\<exists>body. EncodeSmplFrame demo_smpl demo_cc demo_pitch demo_frame = Ret (0x50 # body) \<and>
     (\<forall>st rest. length (body @ rest) < 2 ^ 32 \<longrightarrow>
        (\<exists>d rs st' d'. NewRangeDecoder (body @ rest) = Some d \<and> dec_internals demo_smpl demo_cc demo_mem 0 0 3 st d = Some ((rs, st'), d')
          \<and> list_all2 (read_as demo_smpl demo_cc) [demo_first, demo_second, demo_third] rs \<and> rd_Err d' = 0))"
proof -
  have shape: "fp_Config demo_frame = 0" "length (fp_Internal demo_frame) = 3" by (simp_all add: demo_frame_def)
  have "fp_TOC demo_frame = 0x50" "fp_Internal demo_frame = [demo_first, demo_second, demo_third]" by (simp_all add: demo_frame_def)
  then show ?thesis using frame_roundtrip [OF demo_window demo_fits shape] demo_encodes by auto
qed

end
