(* ===== verification/Spec2Isabelle.thy ===== *)
theory Spec2Isabelle
  imports CallAudio Subscriptions CallClaims SessionClaims ChatwootClaims SpeechFrames
begin

text \<open>
  The call engine of wacalls.
\<close>

end
